(* ===== verification/DLT_Prelude.thy ===== *)
theory DLT_Prelude
  imports Main "HOL-Library.Word"
begin

text \<open>
  Shared vocabulary of the development: the C integer conversions of the sources (a signed
  \<open>int\<close> is an \<^typ>\<open>int\<close> with \<open>i32\<close> written at each conversion, an unsigned value is a
  \<^typ>\<open>nat\<close> with \<open>u32\<close> or \<open>u16\<close> written at each conversion), bytes as \<open>8 word\<close>, memory
  areas as byte lists with \<open>memput\<close> and \<open>memget\<close> for \<open>memcpy\<close>, the byte order of integers,
  the return codes of \<open>include/dlt/dlt_types.h\<close> and the ring view of an area.

  Memory areas are lists whose length is the size of the area. \<open>memput\<close> past the end makes
  the list longer, so "the length is unchanged" is the statement that a write stayed inside.
\<close>

section \<open>Collections\<close>

named_theorems cconv \<open>conversions that are the identity in range\<close>
named_theorems ring_simps \<open>reading and writing a ring\<close>

section \<open>Integer conversions\<close>

definition i32 :: "int \<Rightarrow> int" where
  "i32 x = (x + 2147483648) mod 4294967296 - 2147483648"

definition u32 :: "int \<Rightarrow> nat" where
  "u32 x = nat (x mod 4294967296)"

definition u16 :: "int \<Rightarrow> nat" where
  "u16 x = nat (x mod 65536)"

definition i16 :: "int \<Rightarrow> int" where
  "i16 x = (x + 32768) mod 65536 - 32768"

definition i8 :: "int \<Rightarrow> int" where
  "i8 x = (x + 128) mod 256 - 128"

definition u8 :: "int \<Rightarrow> nat" where
  "u8 x = nat (x mod 256)"

lemma i32_id [cconv]: "- 2147483648 \<le> x \<Longrightarrow> x < 2147483648 \<Longrightarrow> i32 x = x"
  by (simp add: i32_def)

lemma u32_id [cconv]: "0 \<le> x \<Longrightarrow> x < 4294967296 \<Longrightarrow> u32 x = nat x"
  by (simp add: u32_def)

lemma u16_id [cconv]: "0 \<le> x \<Longrightarrow> x < 65536 \<Longrightarrow> u16 x = nat x"
  by (simp add: u16_def)

lemma i16_id [cconv]: "- 32768 \<le> x \<Longrightarrow> x < 32768 \<Longrightarrow> i16 x = x"
  by (simp add: i16_def)

lemma i8_id [cconv]: "- 128 \<le> x \<Longrightarrow> x < 128 \<Longrightarrow> i8 x = x"
  by (simp add: i8_def)

lemma i32_bounds: "- 2147483648 \<le> i32 x \<and> i32 x < 2147483648"
  by (simp add: i32_def)

lemma i8_bounds: "- 128 \<le> i8 x \<and> i8 x < 128"
  by (simp add: i8_def)

lemma u32_less: "u32 x < 4294967296"
  by (simp add: u32_def)

section \<open>Return codes\<close>

abbreviation (input) DLT_RETURN_FILESZERR :: int where "DLT_RETURN_FILESZERR \<equiv> - 8"
abbreviation (input) DLT_RETURN_LOGGING_DISABLED :: int where "DLT_RETURN_LOGGING_DISABLED \<equiv> - 7"
abbreviation (input) DLT_RETURN_USER_BUFFER_FULL :: int where "DLT_RETURN_USER_BUFFER_FULL \<equiv> - 6"
abbreviation (input) DLT_RETURN_WRONG_PARAMETER :: int where "DLT_RETURN_WRONG_PARAMETER \<equiv> - 5"
abbreviation (input) DLT_RETURN_BUFFER_FULL :: int where "DLT_RETURN_BUFFER_FULL \<equiv> - 4"
abbreviation (input) DLT_RETURN_PIPE_FULL :: int where "DLT_RETURN_PIPE_FULL \<equiv> - 3"
abbreviation (input) DLT_RETURN_PIPE_ERROR :: int where "DLT_RETURN_PIPE_ERROR \<equiv> - 2"
abbreviation (input) DLT_RETURN_ERROR :: int where "DLT_RETURN_ERROR \<equiv> - 1"
abbreviation (input) DLT_RETURN_OK :: int where "DLT_RETURN_OK \<equiv> 0"
abbreviation (input) DLT_RETURN_TRUE :: int where "DLT_RETURN_TRUE \<equiv> 1"

section \<open>Bytes and memory areas\<close>

type_synonym byte = "8 word"

abbreviation (input) DLT_ID_SIZE :: nat where "DLT_ID_SIZE \<equiv> 4"

definition memput :: "'a list \<Rightarrow> nat \<Rightarrow> 'a list \<Rightarrow> 'a list" where
  "memput m off d = take off m @ d @ drop (off + length d) m"

definition memget :: "'a list \<Rightarrow> nat \<Rightarrow> nat \<Rightarrow> 'a list" where
  "memget m off n = take n (drop off m)"

lemma length_memput [simp]: "off + length d \<le> length m \<Longrightarrow> length (memput m off d) = length m"
  by (simp add: memput_def)

lemma length_memget [simp]: "off + n \<le> length m \<Longrightarrow> length (memget m off n) = n"
  by (simp add: memget_def)

lemma memput_overflow: "off \<le> length m \<Longrightarrow> length m < off + length d \<Longrightarrow> length (memput m off d) = off + length d"
  by (simp add: memput_def)

lemma memget_memput_same [simp]:
  "off + length d \<le> length m \<Longrightarrow> memget (memput m off d) off (length d) = d"
  by (simp add: memget_def memput_def)

lemma nth_memput:
  "off + length d \<le> length m \<Longrightarrow> i < length m \<Longrightarrow>
   memput m off d ! i = (if off \<le> i \<and> i < off + length d then d ! (i - off) else m ! i)"
  by (auto simp: memput_def nth_append)

lemma nth_memget: "off + n \<le> length m \<Longrightarrow> i < n \<Longrightarrow> memget m off n ! i = m ! (off + i)"
  by (simp add: memget_def)

lemma memget_memget: "off + n \<le> k \<Longrightarrow> memget (memget m p k) off n = memget m (p + off) n"
  by (simp add: memget_def drop_take min_def add.commute)

text \<open>The C string at the start of an area.\<close>

definition c_string :: "byte list \<Rightarrow> byte list" where
  "c_string bs = takeWhile (\<lambda>b. b \<noteq> 0) bs"

section \<open>Byte order\<close>

primrec le_bytes :: "nat \<Rightarrow> int \<Rightarrow> byte list" where
  "le_bytes 0 x = []"
| "le_bytes (Suc n) x = word_of_int x # le_bytes n (x div 256)"

primrec le_val :: "byte list \<Rightarrow> int" where
  "le_val [] = 0"
| "le_val (b # bs) = uint b + 256 * le_val bs"

definition be_bytes :: "nat \<Rightarrow> int \<Rightarrow> byte list" where
  "be_bytes n x = rev (le_bytes n x)"

definition be_val :: "byte list \<Rightarrow> int" where
  "be_val bs = le_val (rev bs)"

lemma length_le_bytes [simp]: "length (le_bytes n x) = n"
  by (induction n arbitrary: x) auto

lemma length_be_bytes [simp]: "length (be_bytes n x) = n"
  by (simp add: be_bytes_def)

lemma le_val_le_bytes: "le_val (le_bytes n x) = x mod 256 ^ n"
proof (induction n arbitrary: x)
  case 0
  then show ?case by simp
next
  case (Suc n)
  have "uint (word_of_int x :: byte) = x mod 256"
    by (simp add: unsigned_of_int take_bit_eq_mod)
  moreover have "x mod (256 * 256 ^ n) = x mod 256 + 256 * (x div 256 mod 256 ^ n)"
    by (metis add.commute zmod_zmult2_eq zero_le_numeral zero_le_power)
  ultimately show ?case using Suc by simp
qed

lemma be_val_be_bytes: "be_val (be_bytes n x) = x mod 256 ^ n"
  by (simp add: be_val_def be_bytes_def le_val_le_bytes)

lemma le_val_bounds: "0 \<le> le_val bs \<and> le_val bs < 256 ^ length bs"
proof (induction bs)
  case (Cons b bs)
  have "uint b \<le> 255" using uint_lt2p [of b] by simp
  with Cons have "uint b + 256 * le_val bs < 256 * 256 ^ length bs" by linarith
  with Cons show ?case by simp
qed simp

lemma be_val_bounds: "0 \<le> be_val bs \<and> be_val bs < 256 ^ length bs"
  using le_val_bounds [of "rev bs"] by (simp add: be_val_def)

lemma le_bytes_le_val: "le_bytes (length bs) (le_val bs) = bs"
proof (induction bs)
  case (Cons b bs)
  have "uint b < 256" "0 \<le> uint b" using uint_lt2p [of b] by simp_all
  then have "(uint b + 256 * le_val bs) div 256 = le_val bs" by simp
  moreover have "(word_of_int (uint b + 256 * le_val bs) :: byte) = b"
  proof -
    have "(word_of_int (256 * le_val bs) :: byte) = word_of_int 256 * word_of_int (le_val bs)" by simp
    also have "(word_of_int 256 :: byte) = 0" by (simp add: word_eq_iff_unsigned)
    finally show ?thesis by simp
  qed
  ultimately show ?case using Cons by simp
qed simp

section \<open>Rings\<close>

text \<open>
  \<open>ring m p\<close> is an area read once around from position \<open>p\<close>, \<open>ring_put m p d\<close> writes a
  block at \<open>p\<close> and continues at the start of the area, \<open>ring_adv n p k\<close> is the position
  \<open>k\<close> bytes on. The position after a block that ends at the end of the area is the size of
  the area and not zero: the sources keep it so.
\<close>

definition ring :: "'a list \<Rightarrow> nat \<Rightarrow> 'a list" where
  "ring m p = drop p m @ take p m"

definition ring_adv :: "nat \<Rightarrow> nat \<Rightarrow> nat \<Rightarrow> nat" where
  "ring_adv n p k = (if p + k \<le> n then p + k else p + k - n)"

definition ring_put :: "'a list \<Rightarrow> nat \<Rightarrow> 'a list \<Rightarrow> 'a list" where
  "ring_put m p d =
     (if p + length d \<le> length m then memput m p d
      else memput (memput m p (take (length m - p) d)) 0 (drop (length m - p) d))"

lemma length_ring [simp]: "length (ring m p) = length m"
  by (simp add: ring_def)

lemma nth_ring: "p \<le> length m \<Longrightarrow> i < length m \<Longrightarrow>
   ring m p ! i = (if p + i < length m then m ! (p + i) else m ! (p + i - length m))"
  by (auto simp: ring_def nth_append less_diff_conv ac_simps intro!: arg_cong [where f = "nth m"])

lemma length_ring_put [simp]:
  "p \<le> length m \<Longrightarrow> length d \<le> length m \<Longrightarrow> length (ring_put m p d) = length m"
  by (simp add: ring_put_def)

lemma nth_ring_put:
  assumes "p \<le> length m" "length d \<le> length m" "j < length m"
  shows "ring_put m p d ! j =
    (if p \<le> j \<and> j < p + length d then d ! (j - p)
     else if j + length m < p + length d then d ! (j + length m - p) else m ! j)"
  using assms by (auto simp: ring_put_def nth_memput nth_append intro!: arg_cong [where f = "nth d"])

lemma ring_adv_le: "p \<le> n \<Longrightarrow> k \<le> n \<Longrightarrow> ring_adv n p k \<le> n"
  by (auto simp: ring_adv_def)

lemma ring_adv_0 [simp]: "p \<le> n \<Longrightarrow> ring_adv n p 0 = p"
  by (simp add: ring_adv_def)

lemma ring_adv_add: "p \<le> n \<Longrightarrow> j + k \<le> n \<Longrightarrow> ring_adv n (ring_adv n p j) k = ring_adv n p (j + k)"
  by (auto simp: ring_adv_def)

lemma ring_put_at:
  assumes "p \<le> length m" "k + length d \<le> length m" "i < length m"
    and j: "j = (if p + i < length m then p + i else p + i - length m)"
  shows "ring_put m (ring_adv (length m) p k) d ! j =
    (if i < k then m ! j else if i < k + length d then d ! (i - k) else m ! j)"
proof -
  define q where "q = ring_adv (length m) p k"
  have q: "q \<le> length m" using assms unfolding q_def by (intro ring_adv_le) auto
  have "j < length m" using assms by auto
  then have put: "ring_put m q d ! j =
    (if q \<le> j \<and> j < q + length d then d ! (j - q)
     else if j + length m < q + length d then d ! (j + length m - q) else m ! j)"
    using q assms(2) by (intro nth_ring_put) auto
  consider "i < k" | "k \<le> i" "i < k + length d" | "k + length d \<le> i" by linarith
  then have "ring_put m q d ! j =
    (if i < k then m ! j else if i < k + length d then d ! (i - k) else m ! j)"
  proof cases
    case 1
    then have "\<not> (q \<le> j \<and> j < q + length d)" "\<not> j + length m < q + length d"
      using assms by (auto simp: ring_adv_def q_def)
    then show ?thesis unfolding put using 1 by auto
  next
    case 2
    then have "q \<le> j \<and> j < q + length d \<and> j - q = i - k \<or>
       \<not> (q \<le> j \<and> j < q + length d) \<and> j + length m < q + length d \<and> j + length m - q = i - k"
      using assms by (auto simp: ring_adv_def q_def)
    then show ?thesis unfolding put using 2 by auto
  next
    case 3
    then have "\<not> (q \<le> j \<and> j < q + length d)" "\<not> j + length m < q + length d"
      using assms by (auto simp: ring_adv_def q_def)
    then show ?thesis unfolding put using 3 by auto
  qed
  then show ?thesis by (simp add: q_def)
qed

lemma ring_ring_put:
  assumes "p \<le> length m" "k + length d \<le> length m"
  shows "ring (ring_put m (ring_adv (length m) p k) d) p =
         take k (ring m p) @ d @ drop (k + length d) (ring m p)"
proof (rule nth_equalityI)
  let ?q = "ring_adv (length m) p k"
  have q: "?q \<le> length m" using assms by (intro ring_adv_le) auto
  have d: "length d \<le> length m" using assms by simp
  show "length (ring (ring_put m ?q d) p) = length (take k (ring m p) @ d @ drop (k + length d) (ring m p))"
    using assms q by simp
  fix i assume "i < length (ring (ring_put m ?q d) p)"
  then have i: "i < length m" using q d by simp
  let ?j = "if p + i < length m then p + i else p + i - length m"
  have "ring (ring_put m ?q d) p ! i = ring_put m ?q d ! ?j"
    using assms(1) i q d by (simp add: nth_ring)
  also have "\<dots> = (if i < k then m ! ?j else if i < k + length d then d ! (i - k) else m ! ?j)"
    using assms i by (rule ring_put_at) simp
  also have "\<dots> = (take k (ring m p) @ d @ drop (k + length d) (ring m p)) ! i"
    using assms i by (auto simp: nth_append nth_ring)
  finally show "ring (ring_put m ?q d) p ! i = (take k (ring m p) @ d @ drop (k + length d) (ring m p)) ! i" .
qed

lemma ring_append_put [ring_simps]:
  assumes "p \<le> length m" "k + length d \<le> length m"
  shows "take (k + length d) (ring (ring_put m (ring_adv (length m) p k) d) p) = take k (ring m p) @ d"
  using assms by (simp add: ring_ring_put)

lemma ring_adv_ring:
  assumes "p \<le> length m" "k \<le> length m"
  shows "ring m (ring_adv (length m) p k) = drop k (ring m p) @ take k (ring m p)"
proof (rule nth_equalityI)
  fix i assume "i < length (ring m (ring_adv (length m) p k))"
  then show "ring m (ring_adv (length m) p k) ! i = (drop k (ring m p) @ take k (ring m p)) ! i"
    using assms by (auto simp: nth_ring nth_append ring_adv_def intro!: arg_cong [where f = "nth m"])
qed (use assms in simp)

lemma ring_drop [ring_simps]:
  assumes "p \<le> length m" "k + n \<le> length m"
  shows "take n (ring m (ring_adv (length m) p k)) = drop k (take (k + n) (ring m p))"
  using assms by (simp add: ring_adv_ring drop_take)

section \<open>Lists and options\<close>

lemma list_all2_snoc: "list_all2 P xs ys \<Longrightarrow> P x y \<Longrightarrow> list_all2 P (xs @ [x]) (ys @ [y])"
  by (simp add: list_all2_appendI)

lemma map_option_Some_iff: "map_option f x = Some y \<longleftrightarrow> (\<exists>z. x = Some z \<and> y = f z)"
  by (cases x) auto

end
