(* ===== verification/Dlt_Text.thy ===== *)
theory Dlt_Text
  imports DLT_Prelude
begin

text \<open>
  The text helpers of \<open>src/shared/dlt_common.c\<close>: four-character identifiers (\<open>dlt_set_id\<close>,
  \<open>dlt_print_id\<close>), hexadecimal, character and mixed dumps, the parser
  \<open>dlt_hex_ascii_to_binary\<close> that reads hexadecimal text back, and the conversions of the
  answer to the control request \<open>get_log_info\<close>. Characters are bytes. The printing functions
  are modelled by the string they write at \<open>text\<close>, without the terminating zero byte; the
  theorems on their length show that the string and its terminator fit the buffer.
\<close>

section \<open>Identifiers\<close>

text \<open>The loop of \<open>dlt_strnlen_s\<close> at index \<open>i\<close>.\<close>

function strnlen_loop :: "byte list \<Rightarrow> nat \<Rightarrow> nat \<Rightarrow> nat" where
  "strnlen_loop str maxsize i =
     (if i < maxsize then if str ! i = 0 then i else strnlen_loop str maxsize (i + 1) else maxsize)"
  by pat_completeness auto
termination by (relation "measure (\<lambda>(_, n, i). n - i)") auto

declare strnlen_loop.simps [simp del]

definition dlt_strnlen_s :: "byte list option \<Rightarrow> nat \<Rightarrow> nat" where
  "dlt_strnlen_s str maxsize = (case str of None \<Rightarrow> 0 | Some s \<Rightarrow> strnlen_loop s maxsize 0)"

definition dlt_print_id :: "byte list option \<Rightarrow> byte list option \<Rightarrow> byte list option" where
  "dlt_print_id txt ident =
     (case (txt, ident) of
        (Some t, Some d) \<Rightarrow>
          Some (memput (memput (memput t 0 (replicate DLT_ID_SIZE 0x2D)) DLT_ID_SIZE [0]) 0
                  (take (dlt_strnlen_s ident DLT_ID_SIZE) d))
      | _ \<Rightarrow> txt)"

definition dlt_set_id :: "byte list option \<Rightarrow> byte list option \<Rightarrow> byte list option" where
  "dlt_set_id ident txt =
     (case (ident, txt) of
        (Some d, Some t) \<Rightarrow>
          let d0 = memput d 0 [0, 0, 0, 0]
          in Some (if t ! 0 \<noteq> 0 then
                     let d1 = d0[0 := t ! 0]
                     in if t ! 1 \<noteq> 0 then
                          let d2 = d1[1 := t ! 1]
                          in if t ! 2 \<noteq> 0 then
                               let d3 = d2[2 := t ! 2]
                               in if t ! 3 \<noteq> 0 then d3[3 := t ! 3] else d3
                             else d2
                        else d1
                   else d0)
      | _ \<Rightarrow> ident)"

text \<open>The identifier a text stands for: up to four characters before its end, filled with zeros.\<close>

definition id4 :: "byte list \<Rightarrow> byte list" where
  "id4 t = (let s = takeWhile (\<lambda>c. c \<noteq> 0) (take 4 t) in s @ replicate (4 - length s) 0)"

definition dlt_clean_string :: "byte list option \<Rightarrow> int \<Rightarrow> byte list option" where
  "dlt_clean_string txt len =
     map_option (\<lambda>t. map (\<lambda>c. if c = 0x0D \<or> c = 0x0A then 0x20 else c) (take (nat len) t) @ drop (nat len) t) txt"

section \<open>Dumps\<close>

definition hex_digit :: "nat \<Rightarrow> byte" where
  "hex_digit n = (if n < 10 then of_nat (48 + n) else of_nat (87 + n))"

definition hex2 :: "byte \<Rightarrow> byte list" where
  "hex2 b = [hex_digit (unat b div 16), hex_digit (unat b mod 16)]"

fun hex_text :: "byte \<Rightarrow> byte list \<Rightarrow> byte list" where
  "hex_text delim [] = []"
| "hex_text delim [b] = hex2 b"
| "hex_text delim (b # bs) = hex2 b @ delim # hex_text delim bs"

definition dlt_print_hex_string_delim ::
  "bool \<Rightarrow> int \<Rightarrow> byte list option \<Rightarrow> int \<Rightarrow> byte \<Rightarrow> int \<times> byte list option" where
  "dlt_print_hex_string_delim text_ok textlength ptr sz delim =
     (case ptr of None \<Rightarrow> (DLT_RETURN_WRONG_PARAMETER, None)
      | Some p \<Rightarrow>
        if \<not> text_ok \<or> textlength \<le> 0 \<or> sz < 0 \<or> delim = 0 then (DLT_RETURN_WRONG_PARAMETER, None)
        else if textlength < sz * 3 then (DLT_RETURN_ERROR, None)
        else (DLT_RETURN_OK, Some (hex_text delim (take (nat sz) p))))"

definition dlt_print_hex_string ::
  "bool \<Rightarrow> int \<Rightarrow> byte list option \<Rightarrow> int \<Rightarrow> int \<times> byte list option" where
  "dlt_print_hex_string text_ok textlength ptr sz =
     dlt_print_hex_string_delim text_ok textlength ptr sz 0x20"

definition printed_char :: "byte \<Rightarrow> byte" where
  "printed_char c =
     (if sint c < 32 \<or> sint c > 126 then 0x2E else if c \<noteq> 0x3C then c else 0x2E)"

definition dlt_print_char_string ::
  "bool \<Rightarrow> int \<Rightarrow> byte list option \<Rightarrow> int \<Rightarrow> int \<times> byte list option" where
  "dlt_print_char_string text_ok textlength ptr sz =
     (case ptr of None \<Rightarrow> (DLT_RETURN_WRONG_PARAMETER, None)
      | Some p \<Rightarrow>
        if \<not> text_ok \<or> textlength \<le> 0 \<or> sz < 0 then (DLT_RETURN_WRONG_PARAMETER, None)
        else if textlength < sz then (DLT_RETURN_WRONG_PARAMETER, None)
        else (DLT_RETURN_OK, Some (map printed_char (take (nat sz) p))))"

text \<open>\<open>snprintf (text, 9, "%.6x: ", n)\<close>: at least six digits, cut to eight characters.\<close>

fun hex_number :: "nat \<Rightarrow> byte list" where
  "hex_number n = (if n < 16 then [hex_digit n] else hex_number (n div 16) @ [hex_digit (n mod 16)])"

declare hex_number.simps [simp del]

definition line_number :: "nat \<Rightarrow> byte list" where
  "line_number n =
     (let h = hex_number n in take 8 (replicate (6 - length h) 0x30 @ h @ [0x3A, 0x20]))"

definition written :: "int \<times> byte list option \<Rightarrow> byte list" where
  "written r = (case snd r of None \<Rightarrow> [] | Some s \<Rightarrow> s)"

definition line_end :: "bool \<Rightarrow> byte list" where
  "line_end html = (if html then [0x3C, 0x42, 0x52, 0x3E] else [0x0A])"

text \<open>One full line of \<open>dlt_print_mixed_string\<close>.\<close>

definition mixed_line :: "int \<Rightarrow> byte list \<Rightarrow> bool \<Rightarrow> nat \<Rightarrow> byte list" where
  "mixed_line textlength p html line =
     line_number (line * 16) @
     written (dlt_print_hex_string True textlength (Some (drop (line * 16) p)) 16) @ [0x20] @
     written (dlt_print_char_string True textlength (Some (drop (line * 16) p)) 16) @
     line_end html"

definition mixed_rest :: "int \<Rightarrow> byte list \<Rightarrow> nat \<Rightarrow> byte list" where
  "mixed_rest textlength p sz =
     (let rest = sz mod 16; start = sz div 16 * 16
      in if rest > 0 then
           line_number start @
           written (dlt_print_hex_string True textlength (Some (drop start p)) (int rest)) @
           concat (replicate (16 - rest) [0x20, 0x78, 0x78]) @ [0x20] @
           written (dlt_print_char_string True textlength (Some (drop start p)) (int rest))
         else [])"

definition mixed_required :: "bool \<Rightarrow> nat \<Rightarrow> nat" where
  "mixed_required html sz = (8 + (2 * 16 + (16 - 1)) + 1 + 16 + (if html then 4 * 1 else 1)) * (sz div 16 + 1)"

definition dlt_print_mixed_string ::
  "bool \<Rightarrow> int \<Rightarrow> byte list option \<Rightarrow> int \<Rightarrow> bool \<Rightarrow> int \<times> byte list option" where
  "dlt_print_mixed_string text_ok textlength ptr sz html =
     (case ptr of None \<Rightarrow> (DLT_RETURN_WRONG_PARAMETER, None)
      | Some p \<Rightarrow>
        if \<not> text_ok \<or> textlength \<le> 0 \<or> sz < 0 then (DLT_RETURN_WRONG_PARAMETER, None)
        else if textlength < int (mixed_required html (nat sz)) then (DLT_RETURN_ERROR, None)
        else (DLT_RETURN_OK,
              Some (concat (map (mixed_line textlength p html) [0..<nat sz div 16]) @
                    mixed_rest textlength p (nat sz))))"

section \<open>Reading hexadecimal text\<close>

definition hex_value :: "byte \<Rightarrow> byte option" where
  "hex_value ch =
     (if 0x30 \<le> ch \<and> ch \<le> 0x39 then Some (ch - 0x30)
      else if 0x41 \<le> ch \<and> ch \<le> 0x46 then Some (ch - 0x41 + 10)
      else if 0x61 \<le> ch \<and> ch \<le> 0x66 then Some (ch - 0x61 + 10)
      else None)"

text \<open>The loop of \<open>dlt_hex_ascii_to_binary\<close>; the result is the output buffer and \<open>*size\<close>.\<close>

fun hex_loop :: "byte list \<Rightarrow> byte list \<Rightarrow> nat \<Rightarrow> bool \<Rightarrow> int \<Rightarrow> byte list \<times> int" where
  "hex_loop [] binary pos first sz = (binary, int pos)"
| "hex_loop (ch # cs) binary pos first sz =
     (if ch = 0 then (binary, int pos)
      else case hex_value ch of
             None \<Rightarrow> hex_loop cs binary pos first sz
           | Some v \<Rightarrow>
             let binary' = binary[pos := binary ! pos * 16 + v]
             in if first then hex_loop cs binary' pos False sz
                else if int pos + 1 \<ge> sz then (binary', sz)
                else hex_loop cs (binary'[pos + 1 := 0]) (pos + 1) True sz)"

definition dlt_hex_ascii_to_binary :: "byte list \<Rightarrow> byte list \<Rightarrow> int \<Rightarrow> byte list \<times> int" where
  "dlt_hex_ascii_to_binary ptr binary sz = hex_loop ptr (binary[0 := 0]) 0 True sz"

text \<open>\<open>strtol (s, \<dots>, 16)\<close>: white space, a sign, an optional \<open>0x\<close>, then digits.\<close>

definition is_space :: "byte \<Rightarrow> bool" where
  "is_space c \<longleftrightarrow> c = 0x20 \<or> 9 \<le> c \<and> c \<le> 13"

fun hex_digits_value :: "int \<Rightarrow> byte list \<Rightarrow> int" where
  "hex_digits_value acc [] = acc"
| "hex_digits_value acc (c # cs) =
     (case hex_value c of None \<Rightarrow> acc | Some v \<Rightarrow> hex_digits_value (acc * 16 + uint v) cs)"

definition strip_0x :: "byte list \<Rightarrow> byte list" where
  "strip_0x s = (case s of
     a # b # c # r \<Rightarrow> if a = 0x30 \<and> (b = 0x78 \<or> b = 0x58) \<and> hex_value c \<noteq> None then c # r else s
   | _ \<Rightarrow> s)"

definition strtol16 :: "byte list \<Rightarrow> int" where
  "strtol16 s =
     (case dropWhile is_space s of
        [] \<Rightarrow> 0
      | c # r \<Rightarrow> if c = 0x2D then - hex_digits_value 0 (strip_0x r)
                else if c = 0x2B then hex_digits_value 0 (strip_0x r)
                else hex_digits_value 0 (strip_0x (c # r)))"

section \<open>The answer to get\_log\_info\<close>

definition dlt_getloginfo_conv_ascii_to_uint16_t :: "byte list option \<Rightarrow> nat \<Rightarrow> int \<times> nat" where
  "dlt_getloginfo_conv_ascii_to_uint16_t rp rp_count =
     (case rp of None \<Rightarrow> (- 1, rp_count)
      | Some r \<Rightarrow>
        let num_work = [r ! (rp_count + 3), r ! (rp_count + 4), r ! (rp_count + 0), r ! (rp_count + 1)]
        in (int (u8 (strtol16 num_work)), rp_count + 6))"

definition dlt_getloginfo_conv_ascii_to_int16_t :: "byte list option \<Rightarrow> nat \<Rightarrow> int \<times> nat" where
  "dlt_getloginfo_conv_ascii_to_int16_t rp rp_count =
     (case rp of None \<Rightarrow> (- 1, rp_count)
      | Some r \<Rightarrow> (i8 (strtol16 [r ! rp_count, r ! (rp_count + 1)]), rp_count + 3))"

fun conv_id_loop :: "byte list \<Rightarrow> nat \<Rightarrow> byte list \<Rightarrow> nat \<Rightarrow> nat \<Rightarrow> byte list \<times> nat" where
  "conv_id_loop rp rp_count wp cnt 0 = (wp[cnt := 0], rp_count)"
| "conv_id_loop rp rp_count wp cnt (Suc left) =
     conv_id_loop rp (rp_count + 3)
       (wp[cnt := word_of_int (strtol16 [rp ! rp_count, rp ! (rp_count + 1)])]) (cnt + 1) left"

definition dlt_getloginfo_conv_ascii_to_id ::
  "byte list option \<Rightarrow> nat \<Rightarrow> byte list option \<Rightarrow> int \<Rightarrow> byte list option \<times> nat" where
  "dlt_getloginfo_conv_ascii_to_id rp rp_count wp len =
     (case (rp, wp) of
        (Some r, Some w) \<Rightarrow> (case conv_id_loop r rp_count w 0 (nat len) of (w', c) \<Rightarrow> (Some w', c))
      | _ \<Rightarrow> (wp, rp_count))"

definition get_log_info_tag :: "byte list" where
  "get_log_info_tag = [0x67, 0x65, 0x74, 0x5F, 0x6C, 0x6F, 0x67, 0x5F, 0x69, 0x6E, 0x66, 0x6F]"

text \<open>\<open>atoi\<close> of the two option characters; only digits occur in the answers of the daemon.\<close>

fun atoi_digits :: "int \<Rightarrow> byte list \<Rightarrow> int" where
  "atoi_digits acc [] = acc"
| "atoi_digits acc (c # cs) = (if 0x30 \<le> c \<and> c \<le> 0x39 then atoi_digits (acc * 10 + uint (c - 0x30)) cs else acc)"

definition atoi_bytes :: "byte list \<Rightarrow> int" where
  "atoi_bytes s =
     (case dropWhile is_space s of
        [] \<Rightarrow> 0
      | c # r \<Rightarrow> if c = 0x2D then - atoi_digits 0 r else if c = 0x2B then atoi_digits 0 r
                else atoi_digits 0 (c # r))"

text \<open>
  Return value (zero iff the text starts with the tag; otherwise the non-zero \<open>memcmp\<close> result,
  here its sign), service id and option.
\<close>

fun memcmp_bytes :: "byte list \<Rightarrow> byte list \<Rightarrow> int" where
  "memcmp_bytes (x # xs) (y # ys) = (if x < y then - 1 else if y < x then 1 else memcmp_bytes xs ys)"
| "memcmp_bytes _ _ = 0"

definition dlt_set_loginfo_parse_service_id ::
  "byte list option \<Rightarrow> nat \<Rightarrow> nat \<Rightarrow> int \<times> nat \<times> nat" where
  "dlt_set_loginfo_parse_service_id resp_text service_id service_opt =
     (case resp_text of None \<Rightarrow> (DLT_RETURN_ERROR, service_id, service_opt)
      | Some t \<Rightarrow>
        let ret = memcmp_bytes (take 12 t) get_log_info_tag
        in if ret = 0 then (ret, 3, u8 (atoi_bytes (takeWhile (\<lambda>c. c \<noteq> 0) [t ! 14, t ! 15])))
           else (ret, service_id, service_opt))"

section \<open>Facts\<close>

lemma strnlen_loop_eq:
  "i \<le> n \<Longrightarrow> n \<le> length str \<Longrightarrow>
   strnlen_loop str n i = i + length (takeWhile (\<lambda>c. c \<noteq> 0) (take (n - i) (drop i str)))"
proof (induction str n i rule: strnlen_loop.induct)
  case (1 str n i)
  show ?case
  proof (cases "i < n")
    case True
    with "1.prems" have "drop i str = str ! i # drop (Suc i) str" by (simp add: Cons_nth_drop_Suc)
    with True have "take (n - i) (drop i str) = str ! i # take (n - Suc i) (drop (Suc i) str)"
      by (simp add: take_Cons')
    with 1 True show ?thesis by (simp add: strnlen_loop.simps [of str n i])
  qed (use "1.prems" in \<open>simp add: strnlen_loop.simps\<close>)
qed

text \<open>A text is readable as an identifier when its end or its first four bytes are in memory.\<close>

definition readable_id :: "byte list \<Rightarrow> bool" where
  "readable_id t \<longleftrightarrow> 4 \<le> length t \<or> 0 \<in> set t"

lemma set_id_id4:
  assumes "length d = 4" "readable_id t"
  shows "dlt_set_id (Some d) (Some t) = Some (id4 t)"
proof -
  obtain a b c e where d: "d = [a, b, c, e]"
    using assms(1) by (auto simp: length_Suc_conv eval_nat_numeral)
  show ?thesis
  proof (cases t)
    case Nil
    with assms show ?thesis by (simp add: readable_id_def)
  next
    case t0: (Cons c0 t0)
    show ?thesis
    proof (cases t0)
      case Nil
      with assms t0 show ?thesis by (simp add: readable_id_def dlt_set_id_def id4_def d memput_def eval_nat_numeral)
    next
      case t1: (Cons c1 t1)
      show ?thesis
      proof (cases t1)
        case Nil
        with assms t0 t1 show ?thesis
          by (auto simp: readable_id_def dlt_set_id_def id4_def d memput_def eval_nat_numeral)
      next
        case t2: (Cons c2 t2)
        show ?thesis
        proof (cases t2)
          case Nil
          with assms t0 t1 t2 show ?thesis
            by (auto simp: readable_id_def dlt_set_id_def id4_def d memput_def eval_nat_numeral)
        next
          case (Cons c3 t3)
          with t0 t1 t2 show ?thesis
            by (auto simp: dlt_set_id_def id4_def d memput_def eval_nat_numeral Let_def)
        qed
      qed
    qed
  qed
qed

lemma length_id4 [simp]: "length (id4 t) = 4"
proof -
  have "length (takeWhile (\<lambda>c. c \<noteq> 0) (take 4 t)) \<le> 4"
    by (rule order_trans [OF length_takeWhile_le]) simp
  then show ?thesis by (simp add: id4_def Let_def)
qed

lemma id4_id4 [simp]: "id4 (id4 t) = id4 t"
proof -
  let ?s = "takeWhile (\<lambda>c. c \<noteq> 0) (take 4 t)"
  have le: "length ?s \<le> 4"
    by (rule order_trans [OF length_takeWhile_le]) simp
  have "takeWhile (\<lambda>c. c \<noteq> 0) (id4 t) = ?s"
    unfolding id4_def Let_def
    by (subst takeWhile_append2) (auto dest: set_takeWhileD)
  then show ?thesis using le by (subst id4_def) (simp add: id4_def Let_def)
qed

lemma readable_id4 [simp]: "readable_id (id4 t)"
  by (simp add: readable_id_def)

subsection \<open>Hexadecimal text\<close>

lemma length_hex2 [simp]: "length (hex2 b) = 2"
  by (simp add: hex2_def)

lemma length_hex_text: "length (hex_text delim bs) = 3 * length bs - 1"
  by (induction delim bs rule: hex_text.induct) auto

lemma hex_value_digit: "n < 16 \<Longrightarrow> hex_value (hex_digit n) = Some (of_nat n) \<and> hex_digit n \<noteq> 0"
proof -
  have all: "\<forall>n \<in> set [0..<16]. hex_value (hex_digit n) = Some (of_nat n) \<and> hex_digit n \<noteq> 0"
    by (simp add: hex_value_def hex_digit_def upt_rec)
  assume "n < 16"
  with all show ?thesis by simp
qed

lemma hex2_value: "of_nat (unat b div 16) * 16 + of_nat (unat b mod 16) = (b :: byte)"
proof -
  have "(of_nat (unat b div 16 * 16 + unat b mod 16) :: byte) = b" by simp
  then show ?thesis by (metis of_nat_add of_nat_mult of_nat_numeral)
qed

lemma hex_digits_bound: "unat (b :: byte) div 16 < 16" "unat (b :: byte) mod 16 < 16"
  using unsigned_less [of b, where ?'a = nat] by auto

lemmas hex2_digits = hex_value_digit [OF hex_digits_bound(1)] hex_value_digit [OF hex_digits_bound(2)]

lemma hex_loop_hex2:
  assumes "pos < length binary" "binary ! pos = 0"
  shows "hex_loop (hex2 b @ cs) binary pos True sz =
    (if int pos + 1 \<ge> sz then (binary[pos := b], sz)
     else hex_loop cs (binary[pos := b, pos + 1 := 0]) (pos + 1) True sz)"
  using assms hex2_value [of b] by (simp add: hex2_def hex2_digits)

lemma hex_value_space: "hex_value 0x20 = None"
  by (simp add: hex_value_def)

lemma hex_loop_text:
  assumes "bs \<noteq> []" "pos + length bs \<le> nat sz" "nat sz \<le> length binary" "binary ! pos = 0"
  shows "snd (hex_loop (hex_text 0x20 bs @ [0]) binary pos True sz) = int pos + int (length bs) \<and>
    take (pos + length bs) (fst (hex_loop (hex_text 0x20 bs @ [0]) binary pos True sz)) = take pos binary @ bs"
  using assms
proof (induction "0x20 :: byte" bs arbitrary: binary pos rule: hex_text.induct)
  case 1
  then show ?case by simp
next
  case (2 b)
  then have pos: "pos < length binary" by simp
  with 2 show ?case
    by (auto simp: hex_loop_hex2 take_Suc_conv_app_nth)
next
  case (3 b c bs)
  then have pos: "pos + 1 < length binary" by simp
  let ?m = "binary[pos := b, pos + 1 := 0]"
  have step: "hex_loop (hex_text 0x20 (b # c # bs) @ [0]) binary pos True sz =
      hex_loop (hex_text 0x20 (c # bs) @ [0]) ?m (pos + 1) True sz"
  proof -
    have "\<not> int pos + 1 \<ge> sz" using "3.prems" by simp
    with "3.prems"(4) pos show ?thesis by (simp add: hex_loop_hex2 hex_value_space)
  qed
  have "take (Suc pos) ?m = take pos binary @ [b]"
    using pos by (simp add: take_Suc_conv_app_nth)
  moreover have "snd (hex_loop (hex_text 0x20 (c # bs) @ [0]) ?m (pos + 1) True sz) = int (pos + 1) + int (length (c # bs)) \<and>
    take (pos + 1 + length (c # bs)) (fst (hex_loop (hex_text 0x20 (c # bs) @ [0]) ?m (pos + 1) True sz)) =
    take (pos + 1) ?m @ c # bs"
    using "3.prems" pos by (intro "3.hyps") auto
  ultimately show ?case unfolding step by simp
qed

subsection \<open>Lengths of the dumps\<close>

lemma length_line_number [simp]: "length (line_number n) = 8"
proof -
  have "6 \<le> length (replicate (6 - length (hex_number n)) (0x30 :: byte) @ hex_number n)" by simp
  then show ?thesis by (simp add: line_number_def Let_def)
qed

lemma length_mixed_line:
  assumes "73 \<le> textlength" "line * 16 + 16 \<le> length p"
  shows "length (mixed_line textlength p html line) = (if html then 76 else 73)"
  using assms by (simp add: mixed_line_def written_def dlt_print_hex_string_def dlt_print_hex_string_delim_def
      dlt_print_char_string_def length_hex_text line_end_def)

lemma length_mixed_rest:
  assumes "73 \<le> textlength" "sz \<le> length p"
  shows "length (mixed_rest textlength p sz) \<le> 72"
proof -
  have m: "sz = sz div 16 * 16 + sz mod 16" by simp
  then have r: "sz mod 16 < 16" "sz div 16 * 16 + sz mod 16 \<le> length p" using assms(2) by simp_all
  have "min (length p - sz div 16 * 16) (sz mod 16) = sz mod 16"
    using r(2) by (intro min_absorb2) linarith
  then show ?thesis
    using assms(1) r(1) by (auto simp: mixed_rest_def Let_def written_def dlt_print_hex_string_def
        dlt_print_hex_string_delim_def dlt_print_char_string_def length_hex_text length_concat sum_list_replicate)
qed

lemma length_mixed_lines:
  assumes "73 \<le> textlength" "k * 16 \<le> length p"
  shows "length (concat (map (mixed_line textlength p html) [0..<k])) = k * (if html then 76 else 73)"
  using assms(2) by (induction k) (auto simp: length_mixed_line assms(1))

lemma mixed_fits:
  assumes "dlt_print_mixed_string True textlength (Some p) sz html = (0, Some s)" "sz \<le> int (length p)"
  shows "int (length s) < textlength"
proof -
  from assms(1) have g: "0 \<le> sz" "int (mixed_required html (nat sz)) \<le> textlength"
    and s: "s = concat (map (mixed_line textlength p html) [0..<nat sz div 16]) @ mixed_rest textlength p (nat sz)"
    by (auto simp: dlt_print_mixed_string_def split: if_splits)
  have req: "mixed_required html (nat sz) = (if html then 76 else 73) * (nat sz div 16 + 1)"
    by (simp add: mixed_required_def)
  have t: "73 \<le> textlength"
    using g(2) unfolding req by (auto split: if_splits)
  have "nat sz div 16 * 16 \<le> length p" "nat sz \<le> length p" using assms(2) g(1) by auto
  with t s have "length s \<le> nat sz div 16 * (if html then 76 else 73) + 72"
    using length_mixed_lines length_mixed_rest by fastforce
  also have "\<dots> < mixed_required html (nat sz)" unfolding req by simp
  finally show ?thesis using g(2) by linarith
qed

subsection \<open>The conversions of the log information\<close>

lemma hex_digit_plain: "n < 16 \<Longrightarrow> \<not> is_space (hex_digit n) \<and> hex_digit n \<noteq> 0x2D \<and> hex_digit n \<noteq> 0x2B \<and>
    hex_digit n \<noteq> 0x78 \<and> hex_digit n \<noteq> 0x58"
proof -
  have all: "\<forall>n \<in> set [0..<16]. \<not> is_space (hex_digit n) \<and> hex_digit n \<noteq> 0x2D \<and> hex_digit n \<noteq> 0x2B \<and>
      hex_digit n \<noteq> 0x78 \<and> hex_digit n \<noteq> 0x58"
    by (simp add: is_space_def hex_digit_def upt_rec)
  assume "n < 16"
  with all show ?thesis by simp
qed

lemmas hex2_plain = hex_digit_plain [OF hex_digits_bound(1)] hex_digit_plain [OF hex_digits_bound(2)]

lemma uint_of_digit: "n < 16 \<Longrightarrow> uint (of_nat n :: byte) = int n"
  by (simp add: unsigned_of_nat take_bit_eq_mod)

lemma strtol16_hex2: "strtol16 (hex2 b) = uint b"
proof -
  have "int (unat b div 16) * 16 + int (unat b mod 16) = int (unat b)"
    by (metis div_mult_mod_eq of_nat_add of_nat_mult of_nat_numeral)
  then show ?thesis
    by (simp add: strtol16_def strip_0x_def hex2_def hex2_plain hex2_digits uint_of_digit hex_digits_bound
        zdiv_int zmod_int)
qed

lemma strtol16_hex4: "strtol16 (hex2 hi @ hex2 lo) = uint hi * 256 + uint lo"
proof -
  have "int (unat b div 16) * 16 + int (unat b mod 16) = int (unat b)" for b :: byte
    by (metis div_mult_mod_eq of_nat_add of_nat_mult of_nat_numeral)
  from this [of hi] this [of lo] show ?thesis
    by (simp add: strtol16_def strip_0x_def hex2_def hex2_plain hex2_digits uint_of_digit hex_digits_bound
        zdiv_int zmod_int)
qed

lemma conv_id_loop_hex:
  assumes "cnt + length bs < length wp" "\<forall>k < length bs. rp ! (c + 3 * k) = hex2 (bs ! k) ! 0 \<and> rp ! (c + 3 * k + 1) = hex2 (bs ! k) ! 1"
  shows "conv_id_loop rp c wp cnt (length bs) = (memput wp cnt (bs @ [0]), c + 3 * length bs)"
  using assms
proof (induction bs arbitrary: c wp cnt)
  case Nil
  then show ?case by (simp add: memput_def upd_conv_take_nth_drop)
next
  case (Cons b bs)
  have "rp ! c = hex2 b ! 0" "rp ! (c + 1) = hex2 b ! 1" using Cons.prems(2) by force+
  moreover have "[hex2 b ! 0, hex2 b ! 1] = hex2 b" by (simp add: hex2_def)
  ultimately have b: "word_of_int (strtol16 [rp ! c, rp ! (c + 1)]) = b" by (simp add: strtol16_hex2)
  have "\<forall>k < length bs. rp ! (c + 3 + 3 * k) = hex2 (bs ! k) ! 0 \<and> rp ! (c + 3 + 3 * k + 1) = hex2 (bs ! k) ! 1"
  proof (intro allI impI)
    fix k assume "k < length bs"
    with Cons.prems(2) [rule_format, of "Suc k"]
    show "rp ! (c + 3 + 3 * k) = hex2 (bs ! k) ! 0 \<and> rp ! (c + 3 + 3 * k + 1) = hex2 (bs ! k) ! 1"
      by (simp add: add.assoc)
  qed
  then have "conv_id_loop rp (c + 3) (wp[cnt := b]) (cnt + 1) (length bs) =
      (memput (wp[cnt := b]) (cnt + 1) (bs @ [0]), c + 3 + 3 * length bs)"
    using Cons.prems(1) by (intro Cons.IH) auto
  moreover have "memput (wp[cnt := b]) (cnt + 1) (bs @ [0]) = memput wp cnt ((b # bs) @ [0])"
    using Cons.prems(1) by (simp add: memput_def take_Suc_conv_app_nth)
  ultimately show ?case using b by simp
qed

section \<open>Properties\<close>

text \<open>
  \<open>dlt_set_id\<close> stores in a four-byte identifier the characters of the text up to its end or
  the fourth, filled with zero bytes, and storing a stored identifier again changes nothing.
\<close>

theorem set_id_canonical:
  assumes "length d = 4" "readable_id t"
  shows "dlt_set_id (Some d) (Some t) = Some (id4 t) \<and>
    dlt_set_id (Some d) (dlt_set_id (Some d) (Some t)) = dlt_set_id (Some d) (Some t)"
  using set_id_id4 [OF assms] set_id_id4 [OF assms(1), of "id4 t"] by simp

text \<open>
  Round trip of the hexadecimal dump: \<open>dlt_print_hex_string\<close> into a buffer of at least three
  characters per byte succeeds, its string and terminator fit, and \<open>dlt_hex_ascii_to_binary\<close>
  reads exactly the dumped bytes back.
\<close>

theorem hex_dump_roundtrip:
  assumes "bs \<noteq> []" "3 * int (length bs) \<le> textlength" "length bs \<le> nat sz" "nat sz \<le> length out"
  shows "\<exists>txt. dlt_print_hex_string True textlength (Some bs) (int (length bs)) = (0, Some txt) \<and>
    int (length txt) + 1 \<le> textlength \<and>
    snd (dlt_hex_ascii_to_binary (txt @ [0]) out sz) = int (length bs) \<and>
    take (length bs) (fst (dlt_hex_ascii_to_binary (txt @ [0]) out sz)) = bs"
proof -
  have "0 < length bs" using assms(1) by simp
  then have "0 < textlength" "0 < length out" using assms(2-4) by linarith+
  then show ?thesis
    using assms hex_loop_text [of bs 0 sz "out[0 := 0]"]
    by (auto simp: dlt_print_hex_string_def dlt_print_hex_string_delim_def dlt_hex_ascii_to_binary_def
        length_hex_text)
qed

text \<open>
  Memory safety of \<open>dlt_print_mixed_string\<close>: when it returns \<open>DLT_RETURN_OK\<close>, the string it
  wrote, with its terminator, fits the \<open>textlength\<close> bytes of the caller, as plain text and as HTML.
\<close>

theorem mixed_string_fits:
  assumes "dlt_print_mixed_string True textlength (Some p) sz html = (0, Some s)" "sz \<le> int (length p)"
  shows "int (length s) < textlength"
  using assms by (rule mixed_fits)

text \<open>
  \<open>dlt_getloginfo_conv_ascii_to_uint16_t\<close> returns only the low byte of the sixteen bit number it
  parses (the comment in the code promises the number \<open>0x1389\<close> for \<open>89 13\<close>): the high byte is
  cut off by the conversion to \<open>unsigned char\<close>. The eight bit reader is exact, sign included.
\<close>

theorem getloginfo_numbers:
  "dlt_getloginfo_conv_ascii_to_uint16_t (Some (hex2 lo @ [0x20] @ hex2 hi @ [0x20])) 0 = (uint lo, 6) \<and>
   dlt_getloginfo_conv_ascii_to_int16_t (Some (hex2 lo @ [0x20])) 0 = (i8 (uint lo), 3)"
proof
  have lo: "(uint hi * 256 + uint lo) mod 256 = uint lo"
    using uint_lt2p [of lo] by simp
  have "strtol16 [hex2 hi ! 0, hex2 hi ! 1, hex2 lo ! 0, hex2 lo ! 1] = uint hi * 256 + uint lo"
    using strtol16_hex4 [of hi lo] by (simp add: hex2_def)
  with lo show "dlt_getloginfo_conv_ascii_to_uint16_t (Some (hex2 lo @ [0x20] @ hex2 hi @ [0x20])) 0 = (uint lo, 6)"
    by (simp add: dlt_getloginfo_conv_ascii_to_uint16_t_def u8_def hex2_def)
  show "dlt_getloginfo_conv_ascii_to_int16_t (Some (hex2 lo @ [0x20])) 0 = (i8 (uint lo), 3)"
    using strtol16_hex2 [of lo] by (simp add: dlt_getloginfo_conv_ascii_to_int16_t_def hex2_def)
qed

text \<open>
  \<open>dlt_getloginfo_conv_ascii_to_id\<close> reads back an identifier written as hexadecimal text with
  one separator after each byte, terminates it with a zero byte, stays inside the destination
  and advances the read position by three characters per byte.
\<close>

theorem getloginfo_id_roundtrip:
  assumes "length bs < length wp"
    and "\<forall>k < length bs. rp ! (c + 3 * k) = hex2 (bs ! k) ! 0 \<and> rp ! (c + 3 * k + 1) = hex2 (bs ! k) ! 1"
  shows "dlt_getloginfo_conv_ascii_to_id (Some rp) c (Some wp) (int (length bs)) =
     (Some (bs @ [0] @ drop (length bs + 1) wp), c + 3 * length bs)"
  using conv_id_loop_hex [of 0 bs wp rp c] assms
  by (simp add: dlt_getloginfo_conv_ascii_to_id_def memput_def)

end
