(* ===== verification/Dlt_Message.thy ===== *)
theory Dlt_Message
  imports Dlt_Text
begin

text \<open>
  DLT messages (\<open>src/shared/dlt_common.c\<close>, \<open>include/dlt/dlt_common.h\<close>): the parser
  \<open>dlt_message_read\<close> with its resynchronisation on the serial header, the optional parameters
  of the standard header, and storage headers. The pointers \<open>standardheader\<close> and
  \<open>extendedheader\<close> of \<open>DltMessage\<close> point into its \<open>headerbuffer\<close>; they are modelled as offsets
  and the header fields are read from that buffer. \<open>alloc\<close> is \<open>malloc\<close>.
\<close>

unbundle bit_operations_syntax

section \<open>Headers\<close>

abbreviation (input) SIZEOF_DltStorageHeader :: nat where "SIZEOF_DltStorageHeader \<equiv> 16"
abbreviation (input) SIZEOF_DltStandardHeader :: nat where "SIZEOF_DltStandardHeader \<equiv> 4"
abbreviation (input) SIZEOF_DltExtendedHeader :: nat where "SIZEOF_DltExtendedHeader \<equiv> 10"
abbreviation (input) SIZEOF_dltSerialHeader :: nat where "SIZEOF_dltSerialHeader \<equiv> 4"

definition dltSerialHeader :: "byte list" where
  "dltSerialHeader = [0x44, 0x4C, 0x53, 1]"

definition DLT_IS_HTYP_UEH :: "byte \<Rightarrow> bool" where "DLT_IS_HTYP_UEH htyp \<longleftrightarrow> htyp AND 0x01 \<noteq> 0"
definition DLT_IS_HTYP_WEID :: "byte \<Rightarrow> bool" where "DLT_IS_HTYP_WEID htyp \<longleftrightarrow> htyp AND 0x04 \<noteq> 0"
definition DLT_IS_HTYP_WSID :: "byte \<Rightarrow> bool" where "DLT_IS_HTYP_WSID htyp \<longleftrightarrow> htyp AND 0x08 \<noteq> 0"
definition DLT_IS_HTYP_WTMS :: "byte \<Rightarrow> bool" where "DLT_IS_HTYP_WTMS htyp \<longleftrightarrow> htyp AND 0x10 \<noteq> 0"
definition DLT_GET_MSIN_MTIN :: "byte \<Rightarrow> byte" where "DLT_GET_MSIN_MTIN msin = drop_bit 4 (msin AND 0xF0)"

definition DLT_STANDARD_HEADER_EXTRA_SIZE :: "byte \<Rightarrow> nat" where
  "DLT_STANDARD_HEADER_EXTRA_SIZE htyp =
     (if DLT_IS_HTYP_WEID htyp then 4 else 0) + (if DLT_IS_HTYP_WSID htyp then 4 else 0) +
     (if DLT_IS_HTYP_WTMS htyp then 4 else 0)"

record DltStandardHeaderExtra =
  ecu :: "byte list"
  seid :: int
  tmsp :: int

record DltMessage =
  found_serialheader :: bool
  resync_offset :: int
  headersize :: int
  datasize :: int
  headerbuffer :: "byte list"
  databuffer :: "byte list option"
  databuffersize :: int
  storageheader :: "nat option"
  standardheader :: "nat option"
  headerextra :: DltStandardHeaderExtra
  extendedheader :: "nat option"

text \<open>The fields of the headers in the header buffer.\<close>

definition msg_htyp :: "DltMessage \<Rightarrow> byte" where "msg_htyp msg = headerbuffer msg ! 16"
definition msg_len :: "DltMessage \<Rightarrow> int" where "msg_len msg = be_val (memget (headerbuffer msg) 18 2)"
definition msg_msin :: "DltMessage \<Rightarrow> byte" where
  "msg_msin msg = headerbuffer msg ! (case extendedheader msg of None \<Rightarrow> 0 | Some o' \<Rightarrow> o')"
definition msg_apid :: "DltMessage \<Rightarrow> byte list" where
  "msg_apid msg = memget (headerbuffer msg) (case extendedheader msg of None \<Rightarrow> 0 | Some o' \<Rightarrow> o' + 2) 4"
definition msg_ctid :: "DltMessage \<Rightarrow> byte list" where
  "msg_ctid msg = memget (headerbuffer msg) (case extendedheader msg of None \<Rightarrow> 0 | Some o' \<Rightarrow> o' + 6) 4"

definition dlt_message_init :: "DltMessage option \<Rightarrow> int \<times> DltMessage option" where
  "dlt_message_init msg =
     (case msg of None \<Rightarrow> (DLT_RETURN_WRONG_PARAMETER, None)
      | Some m \<Rightarrow>
        (DLT_RETURN_OK,
         Some (m\<lparr>headersize := 0, datasize := 0, databuffer := None, databuffersize := 0,
                storageheader := None, standardheader := None, extendedheader := None,
                found_serialheader := False\<rparr>)))"

definition dlt_message_free :: "DltMessage option \<Rightarrow> int \<times> DltMessage option" where
  "dlt_message_free msg =
     (case msg of None \<Rightarrow> (DLT_RETURN_WRONG_PARAMETER, None)
      | Some m \<Rightarrow>
        (DLT_RETURN_OK,
         Some (if databuffer m \<noteq> None then m\<lparr>databuffer := None, databuffersize := 0\<rparr> else m)))"

section \<open>Optional parameters of the standard header\<close>

text \<open>
  On a little-endian machine \<open>DLT_BETOH_32\<close> and \<open>DLT_HTOBE_32\<close> both reverse the bytes of the
  value; a \<open>memcpy\<close> from the buffer reads the bytes in memory order.
\<close>

definition swap32 :: "int \<Rightarrow> int" where
  "swap32 x = be_val (le_bytes 4 x)"

definition dlt_message_get_extraparameters :: "DltMessage option \<Rightarrow> int \<times> DltMessage option" where
  "dlt_message_get_extraparameters msg =
     (case msg of None \<Rightarrow> (DLT_RETURN_WRONG_PARAMETER, None)
      | Some m \<Rightarrow>
        let h = msg_htyp m;
            m1 = (if DLT_IS_HTYP_WEID h
                  then m\<lparr>headerextra := (headerextra m)\<lparr>ecu := memget (headerbuffer m) 20 4\<rparr>\<rparr> else m);
            o1 = 20 + (if DLT_IS_HTYP_WEID h then 4 else 0);
            m2 = (if DLT_IS_HTYP_WSID h
                  then m1\<lparr>headerextra := (headerextra m1)\<lparr>seid := swap32 (le_val (memget (headerbuffer m) o1 4))\<rparr>\<rparr>
                  else m1);
            o2 = o1 + (if DLT_IS_HTYP_WSID h then 4 else 0);
            m3 = (if DLT_IS_HTYP_WTMS h
                  then m2\<lparr>headerextra := (headerextra m2)\<lparr>tmsp := swap32 (le_val (memget (headerbuffer m) o2 4))\<rparr>\<rparr>
                  else m2)
        in (DLT_RETURN_OK, Some m3))"

definition dlt_message_set_extraparameters :: "DltMessage option \<Rightarrow> int \<times> DltMessage option" where
  "dlt_message_set_extraparameters msg =
     (case msg of None \<Rightarrow> (DLT_RETURN_WRONG_PARAMETER, None)
      | Some m \<Rightarrow>
        let h = msg_htyp m;
            m1 = (if DLT_IS_HTYP_WEID h
                  then m\<lparr>headerbuffer := memput (headerbuffer m) 20 (take 4 (ecu (headerextra m)))\<rparr> else m);
            o1 = 20 + (if DLT_IS_HTYP_WEID h then 4 else 0);
            m2 = (if DLT_IS_HTYP_WSID h
                  then let s = swap32 (seid (headerextra m1))
                       in m1\<lparr>headerextra := (headerextra m1)\<lparr>seid := s\<rparr>,
                            headerbuffer := memput (headerbuffer m1) o1 (le_bytes 4 s)\<rparr>
                  else m1);
            o2 = o1 + (if DLT_IS_HTYP_WSID h then 4 else 0);
            m3 = (if DLT_IS_HTYP_WTMS h
                  then let t = swap32 (tmsp (headerextra m2))
                       in m2\<lparr>headerextra := (headerextra m2)\<lparr>tmsp := t\<rparr>,
                            headerbuffer := memput (headerbuffer m2) o2 (le_bytes 4 t)\<rparr>
                  else m2)
        in (DLT_RETURN_OK, Some m3))"

section \<open>Reading a message\<close>

abbreviation (input) DLT_MESSAGE_ERROR_OK :: int where "DLT_MESSAGE_ERROR_OK \<equiv> 0"
abbreviation (input) DLT_MESSAGE_ERROR_UNKNOWN :: int where "DLT_MESSAGE_ERROR_UNKNOWN \<equiv> - 1"
abbreviation (input) DLT_MESSAGE_ERROR_SIZE :: int where "DLT_MESSAGE_ERROR_SIZE \<equiv> - 2"
abbreviation (input) DLT_MESSAGE_ERROR_CONTENT :: int where "DLT_MESSAGE_ERROR_CONTENT \<equiv> - 3"

text \<open>The \<open>do \<dots> while\<close> loop: whether the serial header was found, and \<open>resync_offset\<close> after it.\<close>

function resync_loop :: "byte list \<Rightarrow> nat \<Rightarrow> nat \<Rightarrow> bool \<times> nat" where
  "resync_loop buffer len off =
     (if memget buffer off 4 = dltSerialHeader then (True, off)
      else if SIZEOF_dltSerialHeader + (off + 1) \<le> len then resync_loop buffer len (off + 1)
      else (False, off + 1))"
  by pat_completeness auto
termination by (relation "measure (\<lambda>(_, len, off). len - off)") auto

declare resync_loop.simps [simp del]

text \<open>The first part of \<open>dlt_message_read\<close>: message, start of the data and bytes left.\<close>

definition read_sync :: "DltMessage \<Rightarrow> byte list \<Rightarrow> nat \<Rightarrow> bool \<Rightarrow> DltMessage \<times> byte list \<times> nat" where
  "read_sync m buffer len resync =
     (if memget buffer 0 4 = dltSerialHeader then
        (m\<lparr>found_serialheader := True, resync_offset := 0\<rparr>, drop 4 buffer, len - 4)
      else if resync then
        case resync_loop buffer len 0 of
          (found, off) \<Rightarrow>
            (m\<lparr>found_serialheader := found, resync_offset := int off\<rparr>,
             drop off (if found then drop 4 buffer else buffer),
             (if found then len - 4 else len) - off)
      else (m\<lparr>found_serialheader := False, resync_offset := 0\<rparr>, buffer, len))"

text \<open>The optional parameters and the extended header are copied behind the standard header.\<close>

definition load_extra :: "DltMessage \<Rightarrow> byte list \<Rightarrow> nat \<Rightarrow> DltMessage" where
  "load_extra m buffer extra_size =
     the (snd (dlt_message_get_extraparameters (Some
       (m\<lparr>headerbuffer := memput (headerbuffer m) 20 (take extra_size (drop 4 buffer)),
          extendedheader := (if DLT_IS_HTYP_UEH (msg_htyp m)
             then Some (20 + DLT_STANDARD_HEADER_EXTRA_SIZE (msg_htyp m)) else None)\<rparr>))))"

text \<open>The payload goes to the data buffer of the message, which is replaced when it is too small.\<close>

definition load_payload ::
  "(nat \<Rightarrow> byte list option) \<Rightarrow> DltMessage \<Rightarrow> nat \<Rightarrow> byte list \<Rightarrow> int \<times> DltMessage" where
  "load_payload alloc m n src =
     (let fresh = (databuffer m = None \<or> int n > databuffersize m);
          db = (if fresh then alloc n else databuffer m);
          m' = m\<lparr>databuffer := db, databuffersize := (if fresh then int n else databuffersize m)\<rparr>
      in case db of
           None \<Rightarrow> (DLT_MESSAGE_ERROR_UNKNOWN, m')
         | Some d \<Rightarrow> (DLT_MESSAGE_ERROR_OK, m'\<lparr>databuffer := Some (memput d 0 (take n src))\<rparr>))"

text \<open>The second part: headers and payload of a message that starts at \<open>buffer\<close>.\<close>

definition read_body ::
  "(nat \<Rightarrow> byte list option) \<Rightarrow> DltMessage \<Rightarrow> byte list \<Rightarrow> nat \<Rightarrow> int \<times> DltMessage" where
  "read_body alloc m buffer len =
     (if len < SIZEOF_DltStandardHeader then (DLT_MESSAGE_ERROR_SIZE, m)
      else
        let m1 = m\<lparr>headerbuffer := memput (headerbuffer m) 16 (take 4 buffer),
                   storageheader := Some 0, standardheader := Some 16\<rparr>;
            h = msg_htyp m1;
            extra_size = DLT_STANDARD_HEADER_EXTRA_SIZE h + (if DLT_IS_HTYP_UEH h then 10 else 0);
            hs = 16 + 4 + extra_size;
            temp_datasize = msg_len m1 - int hs + 16;
            m2 = m1\<lparr>headersize := int hs, datasize := temp_datasize\<rparr>
        in if temp_datasize < 0 then (DLT_MESSAGE_ERROR_CONTENT, m2)
           else if extra_size > 0 \<and> len < hs - 16 then (DLT_MESSAGE_ERROR_SIZE, m2)
           else
             let m3 = (if extra_size > 0 then load_extra m2 buffer extra_size else m2);
                 n = nat temp_datasize
             in if len < hs - 16 + n then (DLT_MESSAGE_ERROR_SIZE, m3)
                else load_payload alloc m3 n (drop (hs - 16) buffer))"

definition dlt_message_read ::
  "(nat \<Rightarrow> byte list option) \<Rightarrow> DltMessage option \<Rightarrow> byte list option \<Rightarrow> nat \<Rightarrow> bool \<Rightarrow>
   int \<times> DltMessage option" where
  "dlt_message_read alloc msg buffer len resync =
     (case (msg, buffer) of
        (Some m, Some b) \<Rightarrow>
          if len = 0 then (DLT_MESSAGE_ERROR_UNKNOWN, msg)
          else
            let m0 = m\<lparr>resync_offset := 0\<rparr>
            in if len < SIZEOF_dltSerialHeader then (DLT_MESSAGE_ERROR_SIZE, Some m0)
               else case read_sync m0 b len resync of
                      (m1, b1, n1) \<Rightarrow> (case read_body alloc m1 b1 n1 of (rc, m2) \<Rightarrow> (rc, Some m2))
      | _ \<Rightarrow> (DLT_MESSAGE_ERROR_UNKNOWN, msg))"

section \<open>Storage headers\<close>

record DltStorageHeader =
  sh_pattern :: "byte list"
  sh_seconds :: nat
  sh_microseconds :: int
  sh_ecu :: "byte list"

text \<open>\<open>tv\<close> is the result of \<open>gettimeofday\<close>.\<close>

definition dlt_set_storageheader ::
  "int \<times> int \<Rightarrow> DltStorageHeader option \<Rightarrow> byte list option \<Rightarrow> int \<times> DltStorageHeader option" where
  "dlt_set_storageheader tv hdr ecuid =
     (case (hdr, ecuid) of
        (Some s, Some e) \<Rightarrow>
          (DLT_RETURN_OK,
           Some (s\<lparr>sh_pattern := [0x44, 0x4C, 0x54, 0x01],
                  sh_ecu := the (dlt_set_id (Some (sh_ecu s)) (Some e)),
                  sh_seconds := u32 (fst tv), sh_microseconds := i32 (snd tv)\<rparr>))
      | _ \<Rightarrow> (DLT_RETURN_WRONG_PARAMETER, hdr))"

definition dlt_check_storageheader :: "DltStorageHeader option \<Rightarrow> int" where
  "dlt_check_storageheader hdr =
     (case hdr of None \<Rightarrow> DLT_RETURN_WRONG_PARAMETER
      | Some s \<Rightarrow>
        if sh_pattern s ! 0 = 0x44 \<and> sh_pattern s ! 1 = 0x4C \<and> sh_pattern s ! 2 = 0x54 \<and> sh_pattern s ! 3 = 1
        then DLT_RETURN_TRUE else DLT_RETURN_OK)"

definition dlt_check_rcv_data_size :: "int \<Rightarrow> int \<Rightarrow> int" where
  "dlt_check_rcv_data_size received required =
     (if received < required then DLT_RETURN_ERROR else DLT_RETURN_OK)"

section \<open>The parser on well-formed messages\<close>

lemma resync_loop_found:
  assumes "memget buffer k 4 = dltSerialHeader" "\<forall>j < k. memget buffer j 4 \<noteq> dltSerialHeader"
    and "k + 4 \<le> len" "off \<le> k"
  shows "resync_loop buffer len off = (True, k)"
  using assms
proof (induction "k - off" arbitrary: off)
  case 0
  then have "off = k" by simp
  with assms(1) show ?case by (simp add: resync_loop.simps)
next
  case (Suc d)
  then have "off < k" by simp
  with Suc have "resync_loop buffer len (off + 1) = (True, k)" by (intro Suc.hyps) auto
  with Suc.prems \<open>off < k\<close> show ?case by (simp add: resync_loop.simps [of buffer len off])
qed

lemma resync_loop_none:
  assumes "\<forall>j. j + 4 \<le> len \<longrightarrow> memget buffer j 4 \<noteq> dltSerialHeader" "off + 4 \<le> len"
  shows "resync_loop buffer len off = (False, len - 3)"
  using assms
proof (induction "len - off" arbitrary: off)
  case (Suc d)
  show ?case
  proof (cases "off + 5 \<le> len")
    case True
    with Suc have "resync_loop buffer len (off + 1) = (False, len - 3)" by (intro Suc.hyps) auto
    with Suc.prems True show ?thesis by (simp add: resync_loop.simps [of buffer len off])
  next
    case False
    with Suc.prems have "len = off + 4" by simp
    with Suc.prems show ?thesis by (simp add: resync_loop.simps)
  qed
qed simp

text \<open>A message on the wire: standard header, optional parameters and extended header, payload.\<close>

definition dlt_frame :: "byte \<Rightarrow> byte \<Rightarrow> byte list \<Rightarrow> byte list \<Rightarrow> byte list" where
  "dlt_frame htyp mcnt extra payload =
     [htyp, mcnt] @ be_bytes 2 (4 + int (length extra) + int (length payload)) @ extra @ payload"

definition extra_len :: "byte \<Rightarrow> nat" where
  "extra_len htyp = DLT_STANDARD_HEADER_EXTRA_SIZE htyp + (if DLT_IS_HTYP_UEH htyp then 10 else 0)"

lemma extra_len_le: "extra_len htyp \<le> 22"
  by (simp add: extra_len_def DLT_STANDARD_HEADER_EXTRA_SIZE_def)

lemma length_dlt_frame [simp]: "length (dlt_frame htyp mcnt extra payload) = 4 + length extra + length payload"
  by (simp add: dlt_frame_def)

definition databuffer_ok :: "DltMessage \<Rightarrow> bool" where
  "databuffer_ok m \<longleftrightarrow> (case databuffer m of None \<Rightarrow> True | Some d \<Rightarrow> int (length d) = databuffersize m)"

lemma load_extra_sel:
  "databuffer (load_extra m b e) = databuffer m" "databuffersize (load_extra m b e) = databuffersize m"
  "found_serialheader (load_extra m b e) = found_serialheader m" "resync_offset (load_extra m b e) = resync_offset m"
  "headersize (load_extra m b e) = headersize m" "datasize (load_extra m b e) = datasize m"
  "headerbuffer (load_extra m b e) = memput (headerbuffer m) 20 (take e (drop 4 b))"
  by (simp_all add: load_extra_def dlt_message_get_extraparameters_def Let_def)

lemma headerbuffer_std:
  assumes "length hb = 42" "length (x :: byte list) = 4"
  shows "memput hb 16 x ! 16 = x ! 0" "memget (memput hb 16 x) 18 2 = drop 2 x" "length (memput hb 16 x) = 42"
  using assms nth_memput [of 16 x hb 16] by (simp_all add: memput_def memget_def)

lemma read_body_head:
  assumes hb: "length (headerbuffer m) = 42" and len: "4 \<le> len" "len \<le> length buffer"
    and m1: "m1 = m\<lparr>headerbuffer := memput (headerbuffer m) 16 (take 4 buffer),
                storageheader := Some 0, standardheader := Some 16\<rparr>"
  shows "msg_htyp m1 = buffer ! 0" "msg_len m1 = be_val (memget buffer 2 2)" "length (headerbuffer m1) = 42"
proof -
  have "length (take 4 buffer) = 4" using len by simp
  note h = headerbuffer_std [OF hb this]
  show "msg_htyp m1 = buffer ! 0" using h(1) len by (simp add: m1 msg_htyp_def)
  have "drop 2 (take 4 buffer) = memget buffer 2 2" by (simp add: memget_def drop_take)
  then show "msg_len m1 = be_val (memget buffer 2 2)" using h(2) by (simp add: m1 msg_len_def)
  show "length (headerbuffer m1) = 42" using h(3) by (simp add: m1)
qed

definition fresh_payload :: "(nat \<Rightarrow> byte list option) \<Rightarrow> DltMessage \<Rightarrow> nat \<Rightarrow> byte list option" where
  "fresh_payload alloc m n = (if databuffer m = None \<or> int n > databuffersize m then alloc n else databuffer m)"

lemma load_payload_cases:
  assumes "load_payload alloc m n src = (rc, m')"
  shows "headerbuffer m' = headerbuffer m \<and> headersize m' = headersize m \<and> datasize m' = datasize m \<and>
    found_serialheader m' = found_serialheader m \<and> resync_offset m' = resync_offset m \<and>
    headerextra m' = headerextra m \<and> extendedheader m' = extendedheader m \<and>
    (rc = 0 \<and> (\<exists>d. fresh_payload alloc m n = Some d \<and> databuffer m' = Some (memput d 0 (take n src))) \<or>
     rc = - 1 \<and> fresh_payload alloc m n = None)"
  using assms by (auto simp: load_payload_def fresh_payload_def Let_def split: option.splits if_splits)

text \<open>The checks of \<open>read_body\<close> in terms of the bytes at the start of the message.\<close>

lemma read_body_eq:
  assumes hb: "length (headerbuffer m) = 42" and len: "4 \<le> len" "len \<le> length buffer"
    and e: "e = extra_len (buffer ! 0)" and t: "t = be_val (memget buffer 2 2) - (4 + int e)"
  shows "\<exists>m2 m3. read_body alloc m buffer len =
     (if t < 0 then (- 3, m2)
      else if e > 0 \<and> len < 4 + e then (- 2, m2)
      else if len < 4 + e + nat t then (- 2, m3)
      else load_payload alloc m3 (nat t) (drop (4 + e) buffer)) \<and>
    databuffer m3 = databuffer m \<and> databuffersize m3 = databuffersize m \<and>
    found_serialheader m3 = found_serialheader m \<and> resync_offset m3 = resync_offset m \<and>
    headersize m3 = 20 + int e \<and> datasize m3 = t \<and>
    (4 + e \<le> len \<longrightarrow> length (headerbuffer m3) = 42 \<and> memget (headerbuffer m3) 16 (4 + e) = take (4 + e) buffer)"
proof -
  define m1 where "m1 = m\<lparr>headerbuffer := memput (headerbuffer m) 16 (take 4 buffer),
                storageheader := Some 0, standardheader := Some 16\<rparr>"
  note h = read_body_head [OF hb len m1_def]
  have e': "DLT_STANDARD_HEADER_EXTRA_SIZE (buffer ! 0) + (if DLT_IS_HTYP_UEH (buffer ! 0) then 10 else 0) = e"
    by (simp add: e extra_len_def)
  define m2 where "m2 = m1\<lparr>headersize := int (16 + 4 + e), datasize := t\<rparr>"
  define m3 where "m3 = (if e > 0 then load_extra m2 buffer e else m2)"
  have t': "msg_len m1 - int (16 + 4 + e) + 16 = t" by (simp add: h t)
  have "read_body alloc m buffer len =
     (if t < 0 then (- 3, m2)
      else if e > 0 \<and> len < 4 + e then (- 2, m2)
      else if len < 4 + e + nat t then (- 2, m3)
      else load_payload alloc m3 (nat t) (drop (4 + e) buffer))"
    using len(1) unfolding read_body_def m1_def [symmetric] h(1) Let_def e' t' m2_def [symmetric] m3_def [symmetric]
    by simp
  moreover have "memget (headerbuffer m3) 16 (4 + e) = take (4 + e) buffer \<and> length (headerbuffer m3) = 42"
    if "4 + e \<le> len"
  proof -
    have hb1: "headerbuffer m1 = memput (headerbuffer m) 16 (take 4 buffer)" by (simp add: m1_def)
    have e22: "e \<le> 22" using extra_len_le e by simp
    have "headerbuffer m3 = memput (headerbuffer m1) 20 (take e (drop 4 buffer))"
      by (simp add: m3_def m2_def load_extra_sel memput_def)
    moreover have "length (take e (drop 4 buffer)) = e" using that len by simp
    moreover have "memget (memput (headerbuffer m1) 20 (take e (drop 4 buffer))) 16 (4 + e) =
        take 4 buffer @ take e (drop 4 buffer)"
      using hb len that e22 by (auto simp: hb1 memput_def memget_def min_def)
    ultimately show ?thesis using h(3) e22 by (simp add: take_add)
  qed
  ultimately show ?thesis
    by (intro exI [of _ m2] exI [of _ m3]) (auto simp: m3_def m2_def m1_def load_extra_sel)
qed

lemma be_val_append_zero: "be_val [b0, b1] = uint b0 * 256 + uint b1"
  by (simp add: be_val_def)

lemma frame_fields:
  assumes "4 + length extra + length payload < 65536" "length extra = extra_len htyp"
    and "buffer = dlt_frame htyp mcnt extra payload @ rest"
  shows "buffer ! 0 = htyp" "be_val (memget buffer 2 2) = 4 + int (length extra) + int (length payload)"
    "take (length payload) (drop (4 + length extra) buffer) = payload"
    "take (4 + length extra) buffer = take (4 + length extra) (dlt_frame htyp mcnt extra payload)"
proof -
  have "be_val (be_bytes 2 (4 + int (length extra) + int (length payload))) = 4 + int (length extra) + int (length payload)"
    using assms(1) by (simp add: be_val_be_bytes)
  then show "be_val (memget buffer 2 2) = 4 + int (length extra) + int (length payload)"
    by (simp add: assms(3) dlt_frame_def memget_def)
  show "buffer ! 0 = htyp" by (simp add: assms(3) dlt_frame_def)
  let ?head = "[htyp, mcnt] @ be_bytes 2 (4 + int (length extra) + int (length payload)) @ extra"
  have "buffer = ?head @ payload @ rest" "length ?head = 4 + length extra"
    by (simp_all add: assms(3) dlt_frame_def)
  then have "drop (4 + length extra) buffer = payload @ rest" by (metis append_eq_conv_conj)
  then show "take (length payload) (drop (4 + length extra) buffer) = payload" by simp
  show "take (4 + length extra) buffer = take (4 + length extra) (dlt_frame htyp mcnt extra payload)"
    by (simp add: assms(3))
qed

lemma read_body_frame:
  assumes hb: "length (headerbuffer m) = 42" "databuffer_ok m"
    and alloc: "\<exists>blk. alloc (length payload) = Some blk \<and> length blk = length payload"
    and fr: "4 + length extra + length payload < 65536" "length extra = extra_len htyp"
    and buf: "buffer = dlt_frame htyp mcnt extra payload @ rest"
  shows "\<exists>m'. read_body alloc m buffer (length buffer) = (0, m') \<and>
    found_serialheader m' = found_serialheader m \<and> resync_offset m' = resync_offset m \<and>
    headersize m' = 20 + int (length extra) \<and> datasize m' = int (length payload) \<and>
    take (length payload) (the (databuffer m')) = payload \<and>
    memget (headerbuffer m') 16 (4 + length extra) = take (4 + length extra) (dlt_frame htyp mcnt extra payload)"
proof -
  note f = frame_fields [OF fr buf]
  have len: "4 + length extra + length payload \<le> length buffer" by (simp add: buf)
  have e: "length extra = extra_len (buffer ! 0)" using fr f by simp
  have t: "int (length payload) = be_val (memget buffer 2 2) - (4 + int (length extra))" using f by simp
  obtain m2 m3 where eq: "read_body alloc m buffer (length buffer) =
      load_payload alloc m3 (length payload) (drop (4 + length extra) buffer)"
    and m3: "databuffer m3 = databuffer m" "databuffersize m3 = databuffersize m"
      "found_serialheader m3 = found_serialheader m" "resync_offset m3 = resync_offset m"
      "headersize m3 = 20 + int (length extra)" "datasize m3 = int (length payload)"
      "memget (headerbuffer m3) 16 (4 + length extra) = take (4 + length extra) buffer"
    using read_body_eq [OF hb(1) _ le_refl e t, of alloc] len by auto
  obtain rc m' where lp: "load_payload alloc m3 (length payload) (drop (4 + length extra) buffer) = (rc, m')"
    by fastforce
  obtain d where d: "fresh_payload alloc m3 (length payload) = Some d" "length payload \<le> length d"
  proof (cases "databuffer m = None \<or> int (length payload) > databuffersize m")
    case True
    with alloc m3(1,2) that show ?thesis by (auto simp: fresh_payload_def)
  next
    case False
    then obtain d where "databuffer m = Some d" by auto
    with False hb(2) m3(1,2) that show ?thesis by (auto simp: fresh_payload_def databuffer_ok_def)
  qed
  from load_payload_cases [OF lp] d m3 f(3,4) show ?thesis
    unfolding eq lp by (auto simp: memput_def)
qed

section \<open>The parser on arbitrary input\<close>

lemma resync_loop_within:
  assumes "resync_loop buffer len off = (found, k)" "off + 4 \<le> len"
  shows "if found then k + 4 \<le> len \<and> memget buffer k 4 = dltSerialHeader else k = len - 3"
  using assms
proof (induction buffer len off rule: resync_loop.induct)
  case (1 buffer len off)
  show ?case
    using 1 by (cases "off + 5 \<le> len") (auto simp: resync_loop.simps [of buffer len off] split: if_splits)
qed

definition msg_start :: "DltMessage \<Rightarrow> nat" where
  "msg_start m = nat (resync_offset m) + (if found_serialheader m then 4 else 0)"

lemma read_sync_sound:
  assumes "read_sync m b (length b) resync = (m1, b1, n1)" "4 \<le> length b"
  shows "b1 = drop (msg_start m1) b \<and> n1 = length b1 \<and> headerbuffer m1 = headerbuffer m \<and>
    databuffer m1 = databuffer m \<and> databuffersize m1 = databuffersize m"
proof (cases "memget b 0 4 = dltSerialHeader")
  case False
  obtain found k where loop: "resync_loop b (length b) 0 = (found, k)" by fastforce
  with resync_loop_within [OF loop] assms False show ?thesis
    by (auto simp: read_sync_def msg_start_def add.commute nat_diff_distrib split: if_splits)
qed (use assms in \<open>auto simp: read_sync_def msg_start_def\<close>)

lemma databuffer_ok_cong:
  "databuffer_ok m \<Longrightarrow> databuffer m' = databuffer m \<Longrightarrow> databuffersize m' = databuffersize m \<Longrightarrow> databuffer_ok m'"
  by (simp add: databuffer_ok_def split: option.splits)

lemma fresh_payload_length:
  assumes "databuffer_ok m" "\<forall>n blk. alloc n = Some blk \<longrightarrow> length blk = n" "fresh_payload alloc m n = Some d"
  shows "n \<le> length d"
  using assms by (auto simp: fresh_payload_def databuffer_ok_def split: if_splits)

lemma read_body_sound:
  assumes hb: "length (headerbuffer m) = 42" "databuffer_ok m"
    and alloc: "\<forall>n blk. alloc n = Some blk \<longrightarrow> length blk = n"
    and r: "read_body alloc m b (length b) = (0, m')"
    and hs: "hs = nat (headersize m' - 16)" and n: "n = nat (datasize m')"
  shows "hs + n \<le> length b \<and> length (headerbuffer m') = 42 \<and> be_val (memget b 2 2) = int (hs + n) \<and>
    memget (headerbuffer m') 16 hs = take hs b \<and> take n (the (databuffer m')) = memget b hs n \<and>
    resync_offset m' = resync_offset m \<and> found_serialheader m' = found_serialheader m"
proof -
  have len: "4 \<le> length b" using r by (auto simp: read_body_def split: if_splits)
  define e where "e = extra_len (b ! 0)"
  define t where "t = be_val (memget b 2 2) - (4 + int e)"
  obtain m2 m3 where eq: "read_body alloc m b (length b) =
     (if t < 0 then (- 3, m2)
      else if e > 0 \<and> length b < 4 + e then (- 2, m2)
      else if length b < 4 + e + nat t then (- 2, m3)
      else load_payload alloc m3 (nat t) (drop (4 + e) b))"
    and m3: "databuffer m3 = databuffer m" "databuffersize m3 = databuffersize m"
      "found_serialheader m3 = found_serialheader m" "resync_offset m3 = resync_offset m"
      "headersize m3 = 20 + int e" "datasize m3 = t"
      "4 + e \<le> length b \<longrightarrow> length (headerbuffer m3) = 42 \<and> memget (headerbuffer m3) 16 (4 + e) = take (4 + e) b"
    using read_body_eq [OF hb(1) len le_refl e_def t_def, of alloc] by auto
  from r eq have t: "0 \<le> t" and fit: "4 + e + nat t \<le> length b"
    and lp: "load_payload alloc m3 (nat t) (drop (4 + e) b) = (0, m')"
    by (auto split: if_splits)
  note c = load_payload_cases [OF lp]
  have hs': "hs = 4 + e" and n': "n = nat t" using c m3 by (auto simp: hs n)
  obtain d where d: "fresh_payload alloc m3 n = Some d" "databuffer m' = Some (memput d 0 (take n (drop hs b)))"
    using c by (auto simp: hs' n')
  have "databuffer_ok m3" using databuffer_ok_cong [OF hb(2) m3(1,2)] .
  from fresh_payload_length [OF this alloc d(1)] have "take n (the (databuffer m')) = memget b hs n"
    using fit by (simp add: d(2) memput_def memget_def hs' n')
  moreover have "be_val (memget b 2 2) = int (hs + n)" using t by (simp add: hs' n' t_def)
  ultimately show ?thesis using c m3 fit by (auto simp: hs' n')
qed

lemma message_read_split:
  assumes "dlt_message_read alloc (Some m) (Some b) (length b) resync = (0, Some m')"
  obtains m1 b1 n1 where "4 \<le> length b" "read_sync (m\<lparr>resync_offset := 0\<rparr>) b (length b) resync = (m1, b1, n1)"
    "read_body alloc m1 b1 n1 = (0, m')"
  using assms by (fastforce simp: dlt_message_read_def Let_def split: if_splits prod.splits)

section \<open>Optional parameters\<close>

lemma le_val_swap32: "le_val (le_bytes 4 (swap32 x)) = swap32 x"
  using be_val_bounds [of "le_bytes 4 x"] by (simp add: le_val_le_bytes swap32_def)

lemma swap32_swap32:
  assumes "0 \<le> x" "x < 4294967296"
  shows "swap32 (swap32 x) = x"
proof -
  have "le_bytes 4 (swap32 x) = rev (le_bytes 4 x)"
    using le_bytes_le_val [of "rev (le_bytes 4 x)"] by (simp add: swap32_def be_val_def)
  then show ?thesis using assms by (simp add: swap32_def [of "swap32 x"] be_val_def le_val_le_bytes)
qed

lemma split_header:
  assumes "length b = 42"
  shows "\<exists>p q r u v. b = p @ q @ r @ u @ v \<and> length p = 20 \<and> length q = 4 \<and> length r = 4 \<and> length u = 4"
proof (intro exI conjI)
  have "b = take 20 b @ drop 20 b" by simp
  also have "drop 20 b = take 4 (drop 20 b) @ drop 24 b" using append_take_drop_id [of 4 "drop 20 b"] by simp
  also have "drop 24 b = take 4 (drop 24 b) @ drop 28 b" using append_take_drop_id [of 4 "drop 24 b"] by simp
  also have "drop 28 b = take 4 (drop 28 b) @ drop 32 b" using append_take_drop_id [of 4 "drop 28 b"] by simp
  finally show "b = take 20 b @ take 4 (drop 20 b) @ take 4 (drop 24 b) @ take 4 (drop 28 b) @ drop 32 b" .
qed (use assms in simp_all)

section \<open>Properties\<close>

text \<open>
  C6. Round trip of the wire format with resynchronisation: a message that follows arbitrary
  bytes and the first serial header of the buffer is read completely. \<open>resync_offset\<close> is the
  number of skipped bytes, the sizes are those of the headers and the payload, the header
  bytes and the payload are copied unchanged.
\<close>

theorem message_read_roundtrip:
  assumes "length (headerbuffer m) = 42" "databuffer_ok m"
    and "\<exists>blk. alloc (length payload) = Some blk \<and> length blk = length payload"
    and "4 + length extra + length payload < 65536" "length extra = extra_len htyp"
    and buf: "buffer = skipped @ dltSerialHeader @ dlt_frame htyp mcnt extra payload @ rest"
    and first: "\<forall>j < length skipped. memget buffer j 4 \<noteq> dltSerialHeader"
  shows "\<exists>m'. dlt_message_read alloc (Some m) (Some buffer) (length buffer) True = (0, Some m') \<and>
    found_serialheader m' \<and> resync_offset m' = int (length skipped) \<and>
    headersize m' = 20 + int (length extra) \<and> datasize m' = int (length payload) \<and>
    take (length payload) (the (databuffer m')) = payload \<and>
    memget (headerbuffer m') 16 (4 + length extra) = take (4 + length extra) (dlt_frame htyp mcnt extra payload)"
proof -
  have hdr: "memget buffer (length skipped) 4 = dltSerialHeader"
    by (simp add: buf memget_def dltSerialHeader_def)
  have ls: "length dltSerialHeader = 4" by (simp add: dltSerialHeader_def)
  have loop: "resync_loop buffer (length buffer) 0 = (True, length skipped)"
    using hdr first by (intro resync_loop_found) (auto simp: buf ls)
  let ?rest = "dlt_frame htyp mcnt extra payload @ rest"
  let ?m = "m\<lparr>found_serialheader := True, resync_offset := int (length skipped)\<rparr>"
  have "read_sync (m\<lparr>resync_offset := 0\<rparr>) buffer (length buffer) True = (?m, ?rest, length ?rest)"
  proof (cases "skipped = []")
    case True
    with hdr show ?thesis by (simp add: read_sync_def buf ls)
  next
    case False
    with first have "memget buffer 0 4 \<noteq> dltSerialHeader" by simp
    moreover have "drop (length skipped) (drop 4 buffer) = ?rest"
      using ls by (simp add: buf flip: drop_drop)
    ultimately show ?thesis by (simp add: read_sync_def loop) (simp add: buf ls)
  qed
  moreover have "\<exists>m'. read_body alloc ?m ?rest (length ?rest) = (0, m') \<and>
    found_serialheader m' = found_serialheader ?m \<and> resync_offset m' = resync_offset ?m \<and>
    headersize m' = 20 + int (length extra) \<and> datasize m' = int (length payload) \<and>
    take (length payload) (the (databuffer m')) = payload \<and>
    memget (headerbuffer m') 16 (4 + length extra) = take (4 + length extra) (dlt_frame htyp mcnt extra payload)"
    using assms(1-5)
    by (intro read_body_frame [where payload = payload and extra = extra and htyp = htyp and mcnt = mcnt and rest = rest])
       (simp_all add: databuffer_ok_def split: option.splits)
  moreover have "4 \<le> length buffer" by (simp add: buf)
  ultimately show ?thesis by (auto simp: dlt_message_read_def)
qed

definition example_msg :: DltMessage where
  "example_msg = \<lparr>found_serialheader = False, resync_offset = 0, headersize = 0, datasize = 0,
     headerbuffer = replicate 42 0, databuffer = None, databuffersize = 0, storageheader = None,
     standardheader = None, headerextra = \<lparr>ecu = [0, 0, 0, 0], seid = 0, tmsp = 0\<rparr>, extendedheader = None\<rparr>"

theorem message_read_roundtrip_witness:
  "\<exists>m'. dlt_message_read (\<lambda>n. Some (replicate n 0)) (Some example_msg)
      (Some ([7] @ dltSerialHeader @ dlt_frame 0x20 1 [] [0xAA, 0xBB] @ []))
      (length ([7] @ dltSerialHeader @ dlt_frame 0x20 1 [] [0xAA, 0xBB] @ [])) True = (0, Some m') \<and>
    resync_offset m' = 1 \<and> take 2 (the (databuffer m')) = [0xAA, 0xBB]"
proof -
  have "length (headerbuffer example_msg) = 42" "databuffer_ok example_msg"
    by (simp_all add: example_msg_def databuffer_ok_def)
  moreover have "length [] = extra_len 0x20"
    by (simp add: extra_len_def DLT_STANDARD_HEADER_EXTRA_SIZE_def DLT_IS_HTYP_UEH_def DLT_IS_HTYP_WEID_def
        DLT_IS_HTYP_WSID_def DLT_IS_HTYP_WTMS_def)
  moreover have "\<forall>j < length [7::byte]. memget ([7] @ dltSerialHeader @ dlt_frame 0x20 1 [] [0xAA, 0xBB] @ []) j 4 \<noteq> dltSerialHeader"
    by (simp add: memget_def dltSerialHeader_def)
  ultimately show ?thesis
    using message_read_roundtrip [of example_msg "\<lambda>n. Some (replicate n 0)" "[0xAA, 0xBB]" "[]" "0x20"
        "[7] @ dltSerialHeader @ dlt_frame 0x20 1 [] [0xAA, 0xBB] @ []" "[7]" 1 "[]"]
    by (auto simp: numeral_2_eq_2)
qed

text \<open>
  C13. Whatever the bytes are, a message that is accepted lies inside the buffer: skipped bytes,
  serial header, headers and payload together are at most \<open>length b\<close>; the header buffer and the
  data buffer hold exactly those bytes, the header buffer is not overrun, and the length field
  of the standard header is the size of headers and payload.
\<close>

theorem message_read_sound:
  assumes "length (headerbuffer m) = 42" "databuffer_ok m"
    and alloc: "\<forall>n blk. alloc n = Some blk \<longrightarrow> length blk = n"
    and r: "dlt_message_read alloc (Some m) (Some b) (length b) resync = (0, Some m')"
    and hs: "hs = nat (headersize m' - 16)" and n: "n = nat (datasize m')" and s: "s = msg_start m'"
  shows "s + hs + n \<le> length b \<and> length (headerbuffer m') = 42 \<and>
    be_val (memget b (s + 2) 2) = int (hs + n) \<and>
    memget (headerbuffer m') 16 hs = memget b s hs \<and>
    take n (the (databuffer m')) = memget b (s + hs) n"
proof -
  from message_read_split [OF r] obtain m1 b1 n1 where len: "4 \<le> length b"
    and sync: "read_sync (m\<lparr>resync_offset := 0\<rparr>) b (length b) resync = (m1, b1, n1)"
    and body: "read_body alloc m1 b1 n1 = (0, m')" .
  note s1 = read_sync_sound [OF sync len]
  have "length (headerbuffer m1) = 42" "databuffer_ok m1"
    using s1 assms(1) databuffer_ok_cong [OF assms(2)] by simp_all
  moreover have "read_body alloc m1 b1 (length b1) = (0, m')" using body s1 by simp
  ultimately have b: "hs + n \<le> length b1 \<and> length (headerbuffer m') = 42 \<and> be_val (memget b1 2 2) = int (hs + n) \<and>
    memget (headerbuffer m') 16 hs = take hs b1 \<and> take n (the (databuffer m')) = memget b1 hs n \<and>
    resync_offset m' = resync_offset m1 \<and> found_serialheader m' = found_serialheader m1"
    using hs n by (intro read_body_sound [OF _ _ alloc])
  then have "b1 = drop s b" using s1 by (simp add: s msg_start_def)
  moreover have "4 \<le> length b1" using body s1 by (auto simp: read_body_def split: if_splits)
  ultimately show ?thesis using b by (auto simp: memget_def add.commute)
qed

definition example_frame :: "byte list" where
  "example_frame = [0x20, 1, 0, 6, 0xAA, 0xBB]"

lemma example_read:
  "dlt_message_read (\<lambda>n. Some (replicate n 0)) (Some example_msg) (Some example_frame) (length example_frame) False =
   (0, Some (example_msg\<lparr>headersize := 20, datasize := 2, databuffer := Some [0xAA, 0xBB], databuffersize := 2,
        headerbuffer := memput (replicate 42 0) 16 [0x20, 1, 0, 6], storageheader := Some 0, standardheader := Some 16\<rparr>))"
  by (simp add: dlt_message_read_def read_sync_def read_body_def load_payload_def example_msg_def example_frame_def
      memget_def memput_def dltSerialHeader_def Let_def msg_htyp_def msg_len_def be_val_def nth_append
      DLT_STANDARD_HEADER_EXTRA_SIZE_def DLT_IS_HTYP_UEH_def DLT_IS_HTYP_WEID_def DLT_IS_HTYP_WSID_def DLT_IS_HTYP_WTMS_def)

theorem message_read_sound_witness:
  "0 + 4 + 2 \<le> length example_frame \<and> take 2 [0xAA, 0xBB] = memget example_frame 4 2"
proof -
  have "length (headerbuffer example_msg) = 42" "databuffer_ok example_msg"
    by (simp_all add: example_msg_def databuffer_ok_def)
  from message_read_sound [OF this _ example_read refl refl refl]
  show ?thesis by (simp add: msg_start_def example_msg_def)
qed

text \<open>
  The optional parameters survive the wire: after \<open>dlt_message_set_extraparameters\<close> the
  header buffer holds them in network order, at offsets that depend on the flags, and
  \<open>dlt_message_get_extraparameters\<close> reads each parameter that the header type announces back
  with its value. The buffer is not overrun and the standard header is unchanged.
\<close>

theorem extraparameters_roundtrip:
  assumes hb: "length (headerbuffer m) = 42" and e: "length (ecu (headerextra m)) = 4"
    and s: "0 \<le> seid (headerextra m)" "seid (headerextra m) < 4294967296"
    and t: "0 \<le> tmsp (headerextra m)" "tmsp (headerextra m) < 4294967296"
  shows "\<exists>m1 m2. dlt_message_set_extraparameters (Some m) = (0, Some m1) \<and>
    dlt_message_get_extraparameters (Some m1) = (0, Some m2) \<and> length (headerbuffer m1) = 42 \<and>
    take 20 (headerbuffer m1) = take 20 (headerbuffer m) \<and>
    (DLT_IS_HTYP_WEID (msg_htyp m) \<longrightarrow> ecu (headerextra m2) = ecu (headerextra m)) \<and>
    (DLT_IS_HTYP_WSID (msg_htyp m) \<longrightarrow> seid (headerextra m2) = seid (headerextra m)) \<and>
    (DLT_IS_HTYP_WTMS (msg_htyp m) \<longrightarrow> tmsp (headerextra m2) = tmsp (headerextra m))"
proof -
  have sw: "swap32 (le_val (le_bytes 4 (swap32 x))) = x" if "0 \<le> x" "x < 4294967296" for x
    using that by (simp add: swap32_swap32 le_val_swap32)
  obtain p q r u v where m: "headerbuffer m = p @ q @ r @ u @ v" "length p = 20" "length q = 4" "length r = 4" "length u = 4"
    using split_header [OF hb] by blast
  have v: "length v = 10" using hb m by simp
  define hh where "hh = p ! 16"
  have h: "(p @ z) ! 16 = hh" for z using m by (simp add: nth_append hh_def)
  note simps = dlt_message_set_extraparameters_def dlt_message_get_extraparameters_def msg_htyp_def Let_def
    memput_def memget_def m h e sw s t v
  show ?thesis
    by (cases "DLT_IS_HTYP_WEID hh"; cases "DLT_IS_HTYP_WSID hh"; cases "DLT_IS_HTYP_WTMS hh") (simp_all add: simps)
qed

definition example_extra_msg :: DltMessage where
  "example_extra_msg = example_msg\<lparr>headerbuffer := (replicate 42 0)[16 := 0x1C],
     headerextra := \<lparr>ecu = [0x45, 0x43, 0x55, 0x31], seid = 7, tmsp = 123456\<rparr>\<rparr>"

end
