(* ===== verification/Dlt_Filter.thy ===== *)
theory Dlt_Filter
  imports Dlt_Message
begin

text \<open>
  Message filters (\<open>src/shared/dlt_common.c\<close>): the table of at most thirty filters with lookup,
  insertion, deletion and its text file, and the check of a message against it. The file is the
  list of its bytes. The table is abstracted to the list of its active rows.
\<close>

section \<open>Filters\<close>

abbreviation (input) DLT_FILTER_MAX :: nat where "DLT_FILTER_MAX \<equiv> 30"
abbreviation (input) INT32_MAX :: int where "INT32_MAX \<equiv> 2147483647"

text \<open>One row of the five parallel arrays of \<open>DltFilter\<close>; the table has \<open>DLT_FILTER_MAX\<close> rows.\<close>

record DltFilterRow =
  f_apid :: "byte list"
  f_ctid :: "byte list"
  f_log_level :: int
  f_payload_max :: int
  f_payload_min :: int

record DltFilter =
  rows :: "DltFilterRow list"
  counter :: nat

definition dlt_filter_init :: "DltFilter option \<Rightarrow> int \<times> DltFilter option" where
  "dlt_filter_init flt =
     (case flt of None \<Rightarrow> (DLT_RETURN_WRONG_PARAMETER, None)
      | Some f \<Rightarrow> (DLT_RETURN_OK, Some (f\<lparr>counter := 0\<rparr>)))"

definition filter_match :: "DltFilterRow \<Rightarrow> byte list \<Rightarrow> byte list option \<Rightarrow> int \<Rightarrow> int \<Rightarrow> int \<Rightarrow> bool" where
  "filter_match r apid ctid log_level payload_min payload_max \<longleftrightarrow>
     f_apid r = take 4 apid \<and>
     (case ctid of None \<Rightarrow> f_ctid r = [0, 0, 0, 0] | Some c \<Rightarrow> f_ctid r = take 4 c) \<and>
     (f_log_level r = log_level \<or> f_log_level r = 0) \<and>
     f_payload_min r \<le> payload_min \<and> f_payload_max r \<ge> payload_max"

fun filter_find_loop :: "DltFilterRow list \<Rightarrow> nat \<Rightarrow> (DltFilterRow \<Rightarrow> bool) \<Rightarrow> int" where
  "filter_find_loop [] num P = - 1"
| "filter_find_loop (r # rs) num P = (if P r then int num else filter_find_loop rs (num + 1) P)"

definition dlt_filter_find ::
  "DltFilter option \<Rightarrow> byte list option \<Rightarrow> byte list option \<Rightarrow> int \<Rightarrow> int \<Rightarrow> int \<Rightarrow> int" where
  "dlt_filter_find flt apid ctid log_level payload_min payload_max =
     (case (flt, apid) of
        (Some f, Some a) \<Rightarrow>
          filter_find_loop (take (counter f) (rows f)) 0
            (\<lambda>r. filter_match r a ctid log_level payload_min payload_max)
      | _ \<Rightarrow> - 1)"

definition dlt_filter_add ::
  "DltFilter option \<Rightarrow> byte list option \<Rightarrow> byte list option \<Rightarrow> int \<Rightarrow> int \<Rightarrow> int \<Rightarrow> int \<times> DltFilter option" where
  "dlt_filter_add flt apid ctid log_level payload_min payload_max =
     (case (flt, apid) of
        (Some f, Some a) \<Rightarrow>
          if counter f \<ge> DLT_FILTER_MAX then (DLT_RETURN_ERROR, flt)
          else if dlt_filter_find flt apid ctid log_level payload_min payload_max < 0 then
            let r = rows f ! counter f;
                r' = r\<lparr>f_apid := the (dlt_set_id (Some (f_apid r)) (Some a)),
                       f_ctid := the (dlt_set_id (Some (f_ctid r)) (Some (case ctid of None \<Rightarrow> [0] | Some c \<Rightarrow> c))),
                       f_log_level := log_level, f_payload_min := payload_min, f_payload_max := payload_max\<rparr>
            in (DLT_RETURN_OK, Some (f\<lparr>rows := (rows f)[counter f := r'], counter := counter f + 1\<rparr>))
          else (DLT_RETURN_ERROR, flt)
      | _ \<Rightarrow> (DLT_RETURN_WRONG_PARAMETER, flt))"

definition filter_same :: "DltFilterRow \<Rightarrow> byte list \<Rightarrow> byte list \<Rightarrow> int \<Rightarrow> int \<Rightarrow> int \<Rightarrow> bool" where
  "filter_same r apid ctid log_level payload_min payload_max \<longleftrightarrow>
     f_apid r = take 4 apid \<and> f_ctid r = take 4 ctid \<and>
     (f_log_level r = log_level \<or> f_log_level r = 0) \<and>
     f_payload_min r = payload_min \<and> f_payload_max r = payload_max"

text \<open>The loop that moves the rows behind the deleted one, through \<open>dlt_set_id\<close> and assignments.\<close>

definition copy_row :: "DltFilterRow \<Rightarrow> DltFilterRow \<Rightarrow> DltFilterRow" where
  "copy_row dst src =
     dst\<lparr>f_apid := the (dlt_set_id (Some (f_apid dst)) (Some (f_apid src))),
         f_ctid := the (dlt_set_id (Some (f_ctid dst)) (Some (f_ctid src))),
         f_log_level := f_log_level src, f_payload_min := f_payload_min src,
         f_payload_max := f_payload_max src\<rparr>"

function filter_shift :: "DltFilterRow list \<Rightarrow> nat \<Rightarrow> nat \<Rightarrow> DltFilterRow list" where
  "filter_shift rs k cnt =
     (if k + 1 < cnt then filter_shift (rs[k := copy_row (rs ! k) (rs ! (k + 1))]) (k + 1) cnt else rs)"
  by pat_completeness auto
termination by (relation "measure (\<lambda>(_, k, c). c - k)") auto

declare filter_shift.simps [simp del]

definition cleared_row :: "DltFilterRow \<Rightarrow> DltFilterRow" where
  "cleared_row r =
     r\<lparr>f_apid := the (dlt_set_id (Some (f_apid r)) (Some [0])),
       f_ctid := the (dlt_set_id (Some (f_ctid r)) (Some [0])),
       f_log_level := 0, f_payload_min := 0, f_payload_max := INT32_MAX\<rparr>"

definition dlt_filter_delete ::
  "DltFilter option \<Rightarrow> byte list option \<Rightarrow> byte list option \<Rightarrow> int \<Rightarrow> int \<Rightarrow> int \<Rightarrow> int \<times> DltFilter option" where
  "dlt_filter_delete flt apid ctid log_level payload_min payload_max =
     (case (flt, apid, ctid) of
        (Some f, Some a, Some c) \<Rightarrow>
          let j = filter_find_loop (take (counter f) (rows f)) 0
                    (\<lambda>r. filter_same r a c log_level payload_min payload_max)
          in if counter f > 0 \<and> j \<ge> 0 then
               let rs = (rows f)[nat j := cleared_row (rows f ! nat j)]
               in (DLT_RETURN_OK,
                   Some (f\<lparr>rows := filter_shift rs (nat j) (counter f), counter := counter f - 1\<rparr>))
             else (DLT_RETURN_ERROR, flt)
      | _ \<Rightarrow> (DLT_RETURN_WRONG_PARAMETER, flt))"

definition filter_accepts :: "DltFilterRow \<Rightarrow> DltMessage \<Rightarrow> bool" where
  "filter_accepts r msg \<longleftrightarrow>
     (f_apid r ! 0 = 0 \<or> f_apid r = msg_apid msg) \<and>
     (f_ctid r ! 0 = 0 \<or> f_ctid r = msg_ctid msg) \<and>
     (f_log_level r = 0 \<or> f_log_level r = uint (DLT_GET_MSIN_MTIN (msg_msin msg))) \<and>
     (f_payload_min r = 0 \<or> f_payload_min r \<le> datasize msg) \<and>
     (f_payload_max r = 0 \<or> f_payload_max r \<ge> datasize msg)"

definition dlt_message_filter_check :: "DltMessage option \<Rightarrow> DltFilter option \<Rightarrow> int" where
  "dlt_message_filter_check msg flt =
     (case (msg, flt) of
        (Some m, Some f) \<Rightarrow>
          if counter f = 0 \<or> \<not> DLT_IS_HTYP_UEH (msg_htyp m) then DLT_RETURN_TRUE
          else if \<exists>r \<in> set (take (counter f) (rows f)). DLT_IS_HTYP_UEH (msg_htyp m) \<and> filter_accepts r m
               then DLT_RETURN_TRUE else DLT_RETURN_OK
      | _ \<Rightarrow> DLT_RETURN_WRONG_PARAMETER)"

section \<open>The filter file\<close>

abbreviation (input) DLT_COMMON_BUFFER_LENGTH :: nat where "DLT_COMMON_BUFFER_LENGTH \<equiv> 255"

definition dlt_filter_free :: "DltFilter option \<Rightarrow> int" where
  "dlt_filter_free flt = (case flt of None \<Rightarrow> DLT_RETURN_WRONG_PARAMETER | Some _ \<Rightarrow> DLT_RETURN_OK)"

text \<open>\<open>fprintf (handle, "%s ", \<dots>)\<close> of an identifier; \<open>buf\<close> is the local buffer of the caller.\<close>

definition saved_id :: "byte list \<Rightarrow> byte list \<Rightarrow> byte list" where
  "saved_id buf ident =
     (if ident ! 0 = 0 then [0x2D, 0x2D, 0x2D, 0x2D]
      else takeWhile (\<lambda>c. c \<noteq> 0) (the (dlt_print_id (Some buf) (Some ident)))) @ [0x20]"

text \<open>Return value and contents of the file, which is opened when \<open>opened\<close> holds.\<close>

definition dlt_filter_save :: "bool \<Rightarrow> byte list \<Rightarrow> DltFilter option \<Rightarrow> bool \<Rightarrow> int \<times> byte list" where
  "dlt_filter_save opened buf flt filename_ok =
     (case flt of None \<Rightarrow> (DLT_RETURN_WRONG_PARAMETER, [])
      | Some f \<Rightarrow>
        if \<not> filename_ok then (DLT_RETURN_WRONG_PARAMETER, [])
        else if \<not> opened then (DLT_RETURN_ERROR, [])
        else (DLT_RETURN_OK,
              concat (map (\<lambda>r. saved_id buf (f_apid r) @ saved_id buf (f_ctid r)) (take (counter f) (rows f)))))"

text \<open>\<open>fscanf (handle, "%255s", str1)\<close>: the next word, empty at the end of the file, and the rest.\<close>

definition scan_word :: "byte list \<Rightarrow> byte list \<times> byte list" where
  "scan_word file =
     (let s = dropWhile is_space file;
          w = take DLT_COMMON_BUFFER_LENGTH (takeWhile (\<lambda>c. \<not> is_space c) s)
      in (w, drop (length w) s))"

definition loaded_id :: "byte list \<Rightarrow> byte list \<Rightarrow> byte list" where
  "loaded_id ident w =
     the (dlt_set_id (Some ident)
       (Some (if takeWhile (\<lambda>c. c \<noteq> 0) w = [0x2D, 0x2D, 0x2D, 0x2D] then [0] else w @ [0])))"

lemma scan_word_shrinks:
  assumes "scan_word file = (w, rest)" "w \<noteq> []"
  shows "length rest < length file"
proof -
  define s where "s = dropWhile is_space file"
  have w: "w = take 255 (takeWhile (\<lambda>c. \<not> is_space c) s)" "rest = drop (length w) s"
    using assms(1) by (auto simp: scan_word_def Let_def s_def)
  with assms(2) have "s \<noteq> []" by auto
  then have "length rest < length s" using assms(2) w(2) by simp
  moreover have "length s \<le> length file" unfolding s_def by (rule length_dropWhile_le)
  ultimately show ?thesis by simp
qed

function filter_load_loop :: "byte list \<Rightarrow> byte list \<Rightarrow> DltFilter \<Rightarrow> byte list \<Rightarrow> DltFilter" where
  "filter_load_loop apid ctid f file =
     (case scan_word file of (w1, r1) \<Rightarrow>
        if w1 = [] \<or> w1 ! 0 = 0 then f
        else case scan_word r1 of (w2, r2) \<Rightarrow>
          if w2 = [] \<or> w2 ! 0 = 0 then f
          else
            let apid' = loaded_id apid w1;
                ctid' = loaded_id ctid w2;
                f' = (if counter f < DLT_FILTER_MAX
                      then the (snd (dlt_filter_add (Some f) (Some apid') (Some ctid') 0 0 INT32_MAX)) else f)
            in filter_load_loop apid' ctid' f' r2)"
  by pat_completeness auto
termination
  by (relation "measure (\<lambda>(_, _, _, file). length file)") (auto dest!: scan_word_shrinks sym [of _ "scan_word _"])

declare filter_load_loop.simps [simp del]

text \<open>\<open>file\<close> is the content of the file, if it can be opened; \<open>apid\<close> and \<open>ctid\<close> are uninitialised locals.\<close>

definition dlt_filter_load ::
  "byte list \<Rightarrow> byte list \<Rightarrow> DltFilter option \<Rightarrow> bool \<Rightarrow> byte list option \<Rightarrow> int \<times> DltFilter option" where
  "dlt_filter_load apid ctid flt filename_ok file =
     (case flt of None \<Rightarrow> (DLT_RETURN_WRONG_PARAMETER, None)
      | Some f \<Rightarrow>
        if \<not> filename_ok then (DLT_RETURN_WRONG_PARAMETER, flt)
        else case file of
               None \<Rightarrow> (DLT_RETURN_ERROR, flt)
             | Some bytes \<Rightarrow> (DLT_RETURN_OK, Some (filter_load_loop apid ctid (f\<lparr>counter := 0\<rparr>) bytes)))"

section \<open>The active rows\<close>

definition active :: "DltFilter \<Rightarrow> DltFilterRow list" where
  "active f = take (counter f) (rows f)"

definition row_ok :: "DltFilterRow \<Rightarrow> bool" where
  "row_ok r \<longleftrightarrow> id4 (f_apid r) = f_apid r \<and> id4 (f_ctid r) = f_ctid r"

definition filter_wf :: "DltFilter \<Rightarrow> bool" where
  "filter_wf f \<longleftrightarrow> length (rows f) = 30 \<and> counter f \<le> 30 \<and>
     (\<forall>r \<in> set (rows f). length (f_apid r) = 4 \<and> length (f_ctid r) = 4) \<and> (\<forall>r \<in> set (active f). row_ok r)"

definition new_row :: "byte list \<Rightarrow> byte list option \<Rightarrow> int \<Rightarrow> int \<Rightarrow> int \<Rightarrow> DltFilterRow" where
  "new_row a c l lo hi = \<lparr>f_apid = id4 a, f_ctid = id4 (case c of None \<Rightarrow> [0] | Some x \<Rightarrow> x),
     f_log_level = l, f_payload_max = hi, f_payload_min = lo\<rparr>"

lemma find_loop_first:
  "filter_find_loop rs k P =
     (if \<exists>r \<in> set rs. P r then int (k + length (takeWhile (\<lambda>r. \<not> P r) rs)) else - 1)"
  by (induction rs arbitrary: k) auto

lemma first_match:
  assumes "\<exists>r \<in> set rs. P r"
  shows "length (takeWhile (\<lambda>r. \<not> P r) rs) < length rs \<and> P (rs ! length (takeWhile (\<lambda>r. \<not> P r) rs))"
proof -
  have "length (takeWhile (\<lambda>r. \<not> P r) rs) < length rs"
    using assms by (induction rs) auto
  then show ?thesis using nth_length_takeWhile by blast
qed

lemma readable_option: "readable_id (case c of None \<Rightarrow> [0] | Some x \<Rightarrow> x) \<longleftrightarrow> (case c of None \<Rightarrow> True | Some x \<Rightarrow> readable_id x)"
  by (simp add: readable_id_def split: option.splits)

lemma filter_add_eq:
  assumes wf: "filter_wf f" and a: "readable_id a" and c: "case c of None \<Rightarrow> True | Some x \<Rightarrow> readable_id x"
  shows "dlt_filter_add (Some f) (Some a) c l lo hi =
    (if length (active f) \<ge> 30 \<or> (\<exists>r \<in> set (active f). filter_match r a c l lo hi) then (- 1, Some f)
     else (0, Some (f\<lparr>rows := (rows f)[counter f := new_row a c l lo hi], counter := counter f + 1\<rparr>)))"
proof (cases "counter f < 30")
  case True
  with wf have "rows f ! counter f \<in> set (rows f)" by (simp add: filter_wf_def)
  with wf have "length (f_apid (rows f ! counter f)) = 4" "length (f_ctid (rows f ! counter f)) = 4"
    by (auto simp: filter_wf_def)
  with a c have "(rows f ! counter f)\<lparr>f_apid := the (dlt_set_id (Some (f_apid (rows f ! counter f))) (Some a)),
       f_ctid := the (dlt_set_id (Some (f_ctid (rows f ! counter f))) (Some (case c of None \<Rightarrow> [0] | Some x \<Rightarrow> x))),
       f_log_level := l, f_payload_min := lo, f_payload_max := hi\<rparr> = new_row a c l lo hi"
    by (simp add: new_row_def set_id_id4 readable_option)
  with wf True show ?thesis
    by (auto simp: dlt_filter_add_def dlt_filter_find_def find_loop_first Let_def active_def filter_wf_def)
next
  case False
  with wf show ?thesis by (auto simp: dlt_filter_add_def active_def filter_wf_def)
qed

lemma active_snoc:
  assumes "filter_wf f" "counter f < 30"
  shows "active (f\<lparr>rows := (rows f)[counter f := r], counter := counter f + 1\<rparr>) = active f @ [r]"
  using assms by (simp add: active_def filter_wf_def take_Suc_conv_app_nth)

lemma filter_add_wf:
  assumes "filter_wf f" "readable_id a" "case c of None \<Rightarrow> True | Some x \<Rightarrow> readable_id x"
    and r: "dlt_filter_add (Some f) (Some a) c l lo hi = (0, Some f')"
  shows "active f' = active f @ [new_row a c l lo hi]" "filter_wf f'"
proof -
  from r have f': "counter f < 30" "f' = f\<lparr>rows := (rows f)[counter f := new_row a c l lo hi], counter := counter f + 1\<rparr>"
    using assms(1) unfolding filter_add_eq [OF assms(1-3)] by (auto simp: active_def filter_wf_def split: if_splits)
  show act: "active f' = active f @ [new_row a c l lo hi]" unfolding f' using assms(1) f'(1) by (rule active_snoc)
  have "\<forall>r \<in> set (rows f'). length (f_apid r) = 4 \<and> length (f_ctid r) = 4"
    using assms(1) by (auto simp: f' filter_wf_def new_row_def dest: set_update_subset_insert [THEN subsetD])
  then show "filter_wf f'" using assms(1) f' act unfolding filter_wf_def
    by (auto simp: row_ok_def new_row_def)
qed

lemma copy_row_eq:
  "length (f_apid dst) = 4 \<Longrightarrow> length (f_ctid dst) = 4 \<Longrightarrow> row_ok src \<Longrightarrow> copy_row dst src = src"
  using length_id4 [of "f_apid src"] length_id4 [of "f_ctid src"]
  by (cases src) (simp add: copy_row_def row_ok_def set_id_id4 readable_id_def del: length_id4)

lemma filter_shift_eq:
  assumes "k < cnt" "cnt \<le> length rs" "\<forall>r \<in> set rs. length (f_apid r) = 4 \<and> length (f_ctid r) = 4"
    and "\<forall>i. k < i \<and> i < cnt \<longrightarrow> row_ok (rs ! i)"
  shows "length (filter_shift rs k cnt) = length rs \<and> set (filter_shift rs k cnt) \<subseteq> set rs \<and>
    take (cnt - 1) (filter_shift rs k cnt) = take k rs @ drop (k + 1) (take cnt rs)"
  using assms
proof (induction "cnt - k" arbitrary: k rs)
  case (Suc d)
  show ?case
  proof (cases "k + 1 < cnt")
    case True
    let ?rs = "rs[k := rs ! (k + 1)]"
    have mem: "rs ! k \<in> set rs" "rs ! (k + 1) \<in> set rs" using Suc.prems True by simp_all
    then have eq: "filter_shift rs k cnt = filter_shift ?rs (k + 1) cnt"
      using Suc.prems True by (subst filter_shift.simps) (simp add: copy_row_eq)
    have sub: "set ?rs \<subseteq> set rs" using set_update_subset_insert [of rs k "rs ! (k + 1)"] mem by auto
    have "length (filter_shift ?rs (k + 1) cnt) = length ?rs \<and> set (filter_shift ?rs (k + 1) cnt) \<subseteq> set ?rs \<and>
      take (cnt - 1) (filter_shift ?rs (k + 1) cnt) = take (k + 1) ?rs @ drop (k + 1 + 1) (take cnt ?rs)"
      using Suc.prems Suc.hyps(2) True sub by (intro Suc.hyps(1)) auto
    moreover have "take (k + 1) ?rs = take k rs @ [rs ! (k + 1)]"
      using Suc.prems by (simp add: take_Suc_conv_app_nth)
    moreover have "drop (k + 1) (take cnt rs) = rs ! (k + 1) # drop (k + 2) (take cnt rs)"
      using Suc.prems True Cons_nth_drop_Suc [of "k + 1" "take cnt rs"] by simp
    moreover have "drop (k + 2) (take cnt ?rs) = drop (k + 2) (take cnt rs)"
      using Suc.prems by (simp add: take_update_swap)
    ultimately show ?thesis using sub unfolding eq by auto
  next
    case False
    with Suc.prems have "cnt = k + 1" by simp
    then show ?thesis by (simp add: filter_shift.simps)
  qed
qed simp

lemma filter_delete_eq:
  assumes wf: "filter_wf f"
    and P: "P = (\<lambda>r. filter_same r a c l lo hi)" and j: "j = length (takeWhile (\<lambda>r. \<not> P r) (active f))"
    and r: "dlt_filter_delete (Some f) (Some a) (Some c) l lo hi = (0, Some f')"
  shows "j < length (active f)" "P (active f ! j)" "active f' = take j (active f) @ drop (j + 1) (active f)" "filter_wf f'"
proof -
  have ex: "\<exists>r \<in> set (active f). P r"
    using r by (auto simp: dlt_filter_delete_def find_loop_first Let_def P active_def split: if_splits)
  from first_match [OF ex] show jl: "j < length (active f)" and "P (active f ! j)" by (simp_all add: j)
  let ?rs = "(rows f)[j := cleared_row (rows f ! j)]"
  have cnt: "j < counter f" "counter f \<le> length (rows f)" using jl wf by (auto simp: active_def filter_wf_def)
  then have f': "f' = f\<lparr>rows := filter_shift ?rs j (counter f), counter := counter f - 1\<rparr>"
    using r ex by (auto simp: dlt_filter_delete_def find_loop_first Let_def P j active_def split: if_splits)
  have "length (f_apid (rows f ! j)) = 4 \<and> length (f_ctid (rows f ! j)) = 4"
    using wf cnt by (auto simp: filter_wf_def)
  then have "length (f_apid (cleared_row (rows f ! j))) = 4 \<and> length (f_ctid (cleared_row (rows f ! j))) = 4"
    by (simp add: cleared_row_def set_id_id4 readable_id_def)
  with wf have len4: "\<forall>r \<in> set ?rs. length (f_apid r) = 4 \<and> length (f_ctid r) = 4"
    by (auto simp: filter_wf_def dest!: set_update_subset_insert [THEN subsetD])
  have "row_ok (?rs ! i)" if "j < i" "i < counter f" for i
  proof -
    have "rows f ! i = active f ! i" "i < length (active f)" using that cnt by (simp_all add: active_def)
    then have "rows f ! i \<in> set (active f)" using nth_mem by metis
    with that wf show ?thesis by (simp add: filter_wf_def)
  qed
  then have shift: "length (filter_shift ?rs j (counter f)) = length ?rs \<and> set (filter_shift ?rs j (counter f)) \<subseteq> set ?rs \<and>
    take (counter f - 1) (filter_shift ?rs j (counter f)) = take j ?rs @ drop (j + 1) (take (counter f) ?rs)"
    using cnt len4 by (intro filter_shift_eq) auto
  show act: "active f' = take j (active f) @ drop (j + 1) (active f)"
  proof -
    have "active f' = take j ?rs @ drop (j + 1) (take (counter f) ?rs)" using shift by (simp add: f' active_def)
    moreover have "take j ?rs = take j (active f)" using cnt by (simp add: active_def min_absorb1)
    moreover have "drop (j + 1) (take (counter f) ?rs) = drop (j + 1) (active f)"
      by (simp add: active_def take_update_swap)
    ultimately show ?thesis by simp
  qed
  have "set (active f') \<subseteq> set (active f)" unfolding act by (auto dest: in_set_takeD in_set_dropD)
  with wf shift len4 show "filter_wf f'" by (auto simp: filter_wf_def f')
qed

section \<open>The filter file read back\<close>

definition savable :: "byte list \<Rightarrow> bool" where
  "savable i \<longleftrightarrow> i = [0, 0, 0, 0] \<or>
     length i = 4 \<and> 0 \<notin> set i \<and> (\<forall>c \<in> set i. \<not> is_space c) \<and> i \<noteq> [0x2D, 0x2D, 0x2D, 0x2D]"

definition id_word :: "byte list \<Rightarrow> byte list" where
  "id_word i = (if i = [0, 0, 0, 0] then [0x2D, 0x2D, 0x2D, 0x2D] else i)"

lemma four_bytes: "length i = 4 \<Longrightarrow> \<exists>a b c d. i = [a, b, c, d]"
  by (auto simp: length_Suc_conv eval_nat_numeral)

lemma takeWhile_no_zero [simp]: "0 \<notin> set i \<Longrightarrow> takeWhile (\<lambda>c. c \<noteq> 0) i = i"
  by (induction i) auto

lemma replicate_4: "replicate 4 x = [x, x, x, x]"
  by (simp add: numeral_eq_Suc)

lemma saved_id_word:
  assumes "savable i" "5 \<le> length buf"
  shows "saved_id buf i = id_word i @ [0x20]"
proof (cases "i = [0, 0, 0, 0]")
  case False
  with assms have i: "length i = 4" "0 \<notin> set i" by (auto simp: savable_def)
  then have "i ! 0 \<noteq> 0" by (metis nth_mem zero_less_numeral)
  moreover have "dlt_strnlen_s (Some i) 4 = 4"
    using i by (simp add: dlt_strnlen_s_def strnlen_loop_eq)
  moreover have "the (dlt_print_id (Some buf) (Some i)) = i @ 0 # drop 5 buf"
    using i assms(2) \<open>dlt_strnlen_s (Some i) 4 = 4\<close> by (simp add: dlt_print_id_def memput_def)
  moreover have "takeWhile (\<lambda>c. c \<noteq> 0) (i @ 0 # drop 5 buf) = i"
    using i(2) by (subst takeWhile_append2) auto
  ultimately show ?thesis using False by (simp add: saved_id_def id_word_def)
qed (simp add: saved_id_def id_word_def)

lemma id_word_plain:
  assumes "savable i"
  shows "length (id_word i) = 4 \<and> (\<forall>c \<in> set (id_word i). \<not> is_space c) \<and> 0 \<notin> set (id_word i)"
  using assms by (auto simp: savable_def id_word_def is_space_def)

lemma scan_id_word:
  assumes "savable i"
  shows "scan_word (id_word i @ 0x20 # rest) = (id_word i, 0x20 # rest)" "id_word i \<noteq> []" "id_word i ! 0 \<noteq> 0"
proof -
  note p = id_word_plain [OF assms]
  then obtain a b c d where w: "id_word i = [a, b, c, d]" using four_bytes by blast
  show "scan_word (id_word i @ 0x20 # rest) = (id_word i, 0x20 # rest)"
    using p by (simp add: w scan_word_def Let_def) (simp add: is_space_def)
  show "id_word i \<noteq> []" "id_word i ! 0 \<noteq> 0" using p by (auto simp: w)
qed

lemma loaded_id_word:
  assumes "savable i" "length x = 4"
  shows "loaded_id x (id_word i) = i"
proof (cases "i = [0, 0, 0, 0]")
  case True
  then show ?thesis using assms(2)
    by (simp add: loaded_id_def id_word_def set_id_id4 readable_id_def id4_def Let_def replicate_4)
next
  case False
  with assms have i: "length i = 4" "0 \<notin> set i" "i \<noteq> [0x2D, 0x2D, 0x2D, 0x2D]" by (auto simp: savable_def)
  then show ?thesis using i False assms(2)
    by (simp add: loaded_id_def id_word_def set_id_id4 readable_id_def id4_def Let_def)
qed

lemma load_loop_space: "filter_load_loop x y f (0x20 # file) = filter_load_loop x y f file"
proof -
  have "scan_word (0x20 # file) = scan_word file" by (simp add: scan_word_def is_space_def)
  then show ?thesis by (subst (1 2) filter_load_loop.simps) simp
qed

definition default_row :: "DltFilterRow \<Rightarrow> bool" where
  "default_row r \<longleftrightarrow> savable (f_apid r) \<and> savable (f_ctid r) \<and>
     f_log_level r = 0 \<and> f_payload_min r = 0 \<and> f_payload_max r = INT32_MAX"

lemma savable_id4: "savable i \<Longrightarrow> id4 i = i \<and> length i = 4"
  using four_bytes [of i] by (auto simp: savable_def id4_def replicate_4)

lemma default_new_row: "default_row r \<Longrightarrow> new_row (f_apid r) (Some (f_ctid r)) 0 0 INT32_MAX = r"
  using savable_id4 by (cases r) (auto simp: default_row_def new_row_def)

lemma default_match:
  "default_row r \<Longrightarrow> default_row q \<Longrightarrow> filter_match q (f_apid r) (Some (f_ctid r)) 0 0 INT32_MAX \<longleftrightarrow> q = r"
  using savable_id4 by (cases r; cases q) (auto simp: default_row_def filter_match_def)

lemma load_loop_saved:
  assumes "filter_wf f" "\<forall>r \<in> set (active f @ rs). default_row r" "distinct (active f @ rs)"
    and "length (active f @ rs) \<le> 30" "length x = 4" "length y = 4" "5 \<le> length buf"
  shows "active (filter_load_loop x y f (concat (map (\<lambda>r. saved_id buf (f_apid r) @ saved_id buf (f_ctid r)) rs))) = active f @ rs"
  using assms
proof (induction rs arbitrary: f x y)
  case Nil
  then show ?case by (subst filter_load_loop.simps) (simp add: scan_word_def)
next
  case (Cons r rs)
  let ?file = "\<lambda>rs. concat (map (\<lambda>r. saved_id buf (f_apid r) @ saved_id buf (f_ctid r)) rs)"
  have r: "savable (f_apid r)" "savable (f_ctid r)" "default_row r" using Cons.prems(2) by (auto simp: default_row_def)
  note id4 = savable_id4 [OF r(1)] savable_id4 [OF r(2)]
  have len: "counter f < 30" using Cons.prems(1,4) by (auto simp: active_def filter_wf_def)
  have "\<not> (\<exists>q \<in> set (active f). filter_match q (f_apid r) (Some (f_ctid r)) 0 0 INT32_MAX)"
    using Cons.prems(2,3) default_match [OF r(3)] by auto
  then obtain f' where add: "dlt_filter_add (Some f) (Some (f_apid r)) (Some (f_ctid r)) 0 0 INT32_MAX = (0, Some f')"
    using filter_add_eq [OF Cons.prems(1), of "f_apid r" "Some (f_ctid r)" 0 0 INT32_MAX] Cons.prems(4) id4
    by (auto simp: readable_id_def)
  have f': "active f' = active f @ [r]" "filter_wf f'"
    using filter_add_wf [OF Cons.prems(1) _ _ add] id4 default_new_row [OF r(3)] by (auto simp: readable_id_def)
  have "filter_load_loop x y f (?file (r # rs)) = filter_load_loop (f_apid r) (f_ctid r) f' (?file rs)"
  proof -
    have "?file (r # rs) = id_word (f_apid r) @ 0x20 # id_word (f_ctid r) @ 0x20 # ?file rs"
      using r Cons.prems(7) by (simp add: saved_id_word)
    moreover have "scan_word (0x20 # z) = scan_word z" for z by (simp add: scan_word_def is_space_def)
    ultimately show ?thesis using r Cons.prems(5,6) len add
      by (subst filter_load_loop.simps) (simp add: scan_id_word loaded_id_word Let_def load_loop_space)
  qed
  also have "active \<dots> = active f' @ rs"
    using Cons.prems f' id4 by (intro Cons.IH) auto
  finally show ?case using f' by simp
qed

section \<open>Properties\<close>

text \<open>
  C14. The filter table is a list of at most thirty filters. Adding a filter fails, and changes
  nothing, exactly when the table is full or an active filter already covers the new one;
  otherwise the filter is appended behind the active ones, the table stays well formed and a
  search for the filter finds an active row that matches it.
\<close>

theorem filter_add_appends:
  assumes "filter_wf f" "length a = 4" "id4 a = a" "length c = 4" "id4 c = c"
  shows "(length (active f) = 30 \<or> (\<exists>r \<in> set (active f). filter_match r a (Some c) l lo hi)) \<and>
      dlt_filter_add (Some f) (Some a) (Some c) l lo hi = (- 1, Some f) \<or>
    (\<exists>f'. dlt_filter_add (Some f) (Some a) (Some c) l lo hi = (0, Some f') \<and>
      active f' = active f @ [new_row a (Some c) l lo hi] \<and> filter_wf f' \<and>
      dlt_filter_find (Some f') (Some a) (Some c) l lo hi = int (length (active f)))"
proof -
  have ok: "readable_id a" "case Some c of None \<Rightarrow> True | Some x \<Rightarrow> readable_id x"
    using assms by (simp_all add: readable_id_def)
  note eq = filter_add_eq [OF assms(1) ok, of l lo hi]
  show ?thesis
  proof (cases "length (active f) \<ge> 30 \<or> (\<exists>r \<in> set (active f). filter_match r a (Some c) l lo hi)")
    case True
    then show ?thesis using eq assms(1) by (auto simp: filter_wf_def active_def)
  next
    case False
    then obtain f' where add: "dlt_filter_add (Some f) (Some a) (Some c) l lo hi = (0, Some f')" using eq by auto
    note f' = filter_add_wf [OF assms(1) ok add]
    have "filter_match (new_row a (Some c) l lo hi) a (Some c) l lo hi"
      using assms by (simp add: filter_match_def new_row_def)
    then have "dlt_filter_find (Some f') (Some a) (Some c) l lo hi = int (length (active f))"
      using False f'(1) by (auto simp: dlt_filter_find_def find_loop_first simp flip: active_def)
    with add f' show ?thesis by auto
  qed
qed

definition empty_row :: DltFilterRow where
  "empty_row = \<lparr>f_apid = [0, 0, 0, 0], f_ctid = [0, 0, 0, 0], f_log_level = 0, f_payload_max = 0, f_payload_min = 0\<rparr>"

definition example_row :: DltFilterRow where
  "example_row = \<lparr>f_apid = [0x41, 0x50, 0x50, 0x31], f_ctid = [0x43, 0x54, 0x58, 0x31], f_log_level = 0,
     f_payload_max = INT32_MAX, f_payload_min = 0\<rparr>"

definition empty_filter :: DltFilter where
  "empty_filter = \<lparr>rows = replicate 30 empty_row, counter = 0\<rparr>"

definition example_filter :: DltFilter where
  "example_filter = \<lparr>rows = example_row # replicate 29 empty_row, counter = 1\<rparr>"

lemma empty_filter_ok: "filter_wf empty_filter" "active empty_filter = []"
  by (simp_all add: filter_wf_def empty_filter_def active_def empty_row_def)

lemma example_filter_ok: "filter_wf example_filter" "active example_filter = [example_row]"
  by (auto simp: filter_wf_def example_filter_def active_def empty_row_def example_row_def row_ok_def id4_def)

theorem filter_add_appends_witness:
  "\<exists>f'. dlt_filter_add (Some empty_filter) (Some [0x41, 0x42, 0x43, 0x44]) (Some [0x43, 0x54, 0x58, 0x31]) 3 0 10 = (0, Some f') \<and>
    dlt_filter_find (Some f') (Some [0x41, 0x42, 0x43, 0x44]) (Some [0x43, 0x54, 0x58, 0x31]) 3 0 10 = 0"
  using filter_add_appends [OF empty_filter_ok(1), of "[0x41, 0x42, 0x43, 0x44]" "[0x43, 0x54, 0x58, 0x31]" 3 0 10]
  by (auto simp: empty_filter_ok(2) id4_def)

text \<open>
  C15. Deleting a filter removes the first active row with the given identifiers, level and
  payload bounds and nothing else: the rows before it stay, the rows behind it move up by one
  in their order, through \<open>dlt_set_id\<close> and unchanged, and the table stays well formed. When no
  active row fits, the table is unchanged.
\<close>

theorem filter_delete_removes_first:
  assumes "filter_wf f"
  shows "(\<forall>r \<in> set (active f). \<not> filter_same r a c l lo hi) \<and>
      dlt_filter_delete (Some f) (Some a) (Some c) l lo hi = (- 1, Some f) \<or>
    (\<exists>f' before r after. dlt_filter_delete (Some f) (Some a) (Some c) l lo hi = (0, Some f') \<and>
      active f = before @ r # after \<and> filter_same r a c l lo hi \<and> (\<forall>q \<in> set before. \<not> filter_same q a c l lo hi) \<and>
      active f' = before @ after \<and> filter_wf f')"
proof (cases "\<exists>r \<in> set (active f). filter_same r a c l lo hi")
  case False
  then show ?thesis by (auto simp: dlt_filter_delete_def find_loop_first Let_def simp flip: active_def)
next
  case True
  define P where "P = (\<lambda>r. filter_same r a c l lo hi)"
  define j where "j = length (takeWhile (\<lambda>r. \<not> P r) (active f))"
  have "counter f > 0" using True by (cases "counter f") (auto simp: active_def)
  then obtain f' where del: "dlt_filter_delete (Some f) (Some a) (Some c) l lo hi = (0, Some f')"
    using True by (auto simp: dlt_filter_delete_def find_loop_first Let_def simp flip: active_def)
  note d = filter_delete_eq [OF assms P_def j_def del]
  have "active f = take j (active f) @ active f ! j # drop (j + 1) (active f)"
    using d(1) by (simp add: id_take_nth_drop)
  moreover have "\<forall>q \<in> set (take j (active f)). \<not> P q"
    by (simp add: j_def takeWhile_eq_take [symmetric]) (auto dest: set_takeWhileD)
  ultimately show ?thesis using d del unfolding P_def by blast
qed

theorem filter_delete_removes_first_witness:
  "\<exists>f'. dlt_filter_delete (Some example_filter) (Some [0x41, 0x50, 0x50, 0x31]) (Some [0x43, 0x54, 0x58, 0x31]) 0 0 INT32_MAX
      = (0, Some f') \<and> active f' = []"
  using filter_delete_removes_first [OF example_filter_ok(1), of "[0x41, 0x50, 0x50, 0x31]" "[0x43, 0x54, 0x58, 0x31]" 0 0 INT32_MAX]
  by (auto simp: example_filter_ok(2) filter_same_def example_row_def Cons_eq_append_conv)

text \<open>
  Round trip through the filter file: filters that are distinct, have no level and payload
  bounds and whose identifiers are empty or have four printable characters are read back as the
  same list, whatever filters the table held before.
\<close>

theorem filter_file_roundtrip:
  assumes "filter_wf f" "filter_wf g" "\<forall>r \<in> set (active f). default_row r" "distinct (active f)"
    and "5 \<le> length buf" "length x = 4" "length y = 4"
  shows "\<exists>file g'. dlt_filter_save True buf (Some f) True = (0, file) \<and>
    dlt_filter_load x y (Some g) True (Some file) = (0, Some g') \<and> active g' = active f"
proof -
  have "filter_wf (g\<lparr>counter := 0\<rparr>)" "active (g\<lparr>counter := 0\<rparr>) = []"
    using assms(2) by (simp_all add: filter_wf_def active_def)
  moreover have "length (active f) \<le> 30" using assms(1) by (simp add: filter_wf_def active_def)
  ultimately have "active (filter_load_loop x y (g\<lparr>counter := 0\<rparr>)
      (concat (map (\<lambda>r. saved_id buf (f_apid r) @ saved_id buf (f_ctid r)) (active f)))) = active f"
    using load_loop_saved [of "g\<lparr>counter := 0\<rparr>" "active f" x y buf] assms by simp
  then show ?thesis by (simp add: dlt_filter_save_def dlt_filter_load_def flip: active_def)
qed

text \<open>
  Identifiers with fewer than four characters do not survive the filter file: \<open>dlt_print_id\<close>
  fills them with hyphens, and the hyphens become part of the identifier that is read back.
\<close>

lemma filter_file_changes_short_ids:
  assumes "b \<noteq> 0" "\<not> is_space b" "length x = 4"
  shows "saved_id [0, 0, 0, 0, 0] [b, 0, 0, 0] = [b, 0x2D, 0x2D, 0x2D, 0x20] \<and>
    scan_word [b, 0x2D, 0x2D, 0x2D, 0x20] = ([b, 0x2D, 0x2D, 0x2D], [0x20]) \<and>
    (b \<noteq> 0x2D \<longrightarrow> loaded_id x [b, 0x2D, 0x2D, 0x2D] = [b, 0x2D, 0x2D, 0x2D])"
proof -
  have "dlt_strnlen_s (Some [b, 0, 0, 0]) 4 = 1"
    using assms(1) by (simp add: dlt_strnlen_s_def strnlen_loop_eq)
  then have "saved_id [0, 0, 0, 0, 0] [b, 0, 0, 0] = [b, 0x2D, 0x2D, 0x2D, 0x20]"
    using assms(1) by (simp add: saved_id_def dlt_print_id_def memput_def replicate_4)
  moreover have "scan_word [b, 0x2D, 0x2D, 0x2D, 0x20] = ([b, 0x2D, 0x2D, 0x2D], [0x20])"
    using assms(2) by (simp add: scan_word_def Let_def) (simp add: is_space_def)
  moreover have "loaded_id x [b, 0x2D, 0x2D, 0x2D] = [b, 0x2D, 0x2D, 0x2D]" if "b \<noteq> 0x2D"
    using that assms by (simp add: loaded_id_def set_id_id4 readable_id_def id4_def)
  ultimately show ?thesis by blast
qed

end
