(* ===== verification/Payload_Print.thy ===== *)
theory Payload_Print
  imports Dlt_Message
begin

text \<open>
  Printing of messages (\<open>src/shared/dlt_common.c\<close>): the text of the headers, the text of one
  argument of a verbose payload (\<open>dlt_message_argument_print\<close>) and of the whole payload
  (\<open>dlt_message_payload\<close>).

  The text buffer is the list of the bytes from \<open>text\<close> to the end of its memory block, the
  nominal size \<open>textlength\<close> is an argument of its own: a write past the end of the block makes
  the list longer. Pointers into the text and the payload are indices. The text of a floating
  point number (\<open>%g\<close>) and of a local time are parameters.
\<close>

section \<open>Writing text\<close>

definition u64 :: "int \<Rightarrow> nat" where
  "u64 x = nat (x mod 18446744073709551616)"

lemma u64_id [cconv]: "0 \<le> x \<Longrightarrow> x < 18446744073709551616 \<Longrightarrow> u64 x = nat x"
  by (simp add: u64_def)

definition strlen_at :: "byte list \<Rightarrow> nat \<Rightarrow> nat" where
  "strlen_at t off = length (c_string (drop off t))"

text \<open>\<open>snprintf (text + off, n, \<dots>)\<close> of the characters \<open>s\<close>.\<close>

definition snprintf_at :: "byte list \<Rightarrow> nat \<Rightarrow> nat \<Rightarrow> byte list \<Rightarrow> byte list" where
  "snprintf_at t off n s = (if n = 0 then t else memput t off (take (n - 1) s @ [0]))"

text \<open>\<open>snprintf (text + strlen (text), textlength - strlen (text), \<dots>)\<close>.\<close>

definition append_text :: "nat \<Rightarrow> byte list \<Rightarrow> byte list \<Rightarrow> byte list" where
  "append_text n s t = snprintf_at t (strlen_at t 0) (u64 (int n - int (strlen_at t 0))) s"

definition ascii :: "string \<Rightarrow> byte list" where
  "ascii s = map of_char s"

fun dec_number :: "nat \<Rightarrow> byte list" where
  "dec_number n = (if n < 10 then [hex_digit n] else dec_number (n div 10) @ [hex_digit (n mod 10)])"

declare dec_number.simps [simp del]

text \<open>The conversions \<open>%d\<close> and \<open>%u\<close>, \<open>%.3d\<close> and \<open>%0<w>x\<close>.\<close>

definition dec_text :: "int \<Rightarrow> byte list" where
  "dec_text i = (if i < 0 then 0x2D # dec_number (nat (- i)) else dec_number (nat i))"

definition zero_filled :: "nat \<Rightarrow> byte list \<Rightarrow> byte list" where
  "zero_filled w ds = replicate (w - length ds) 0x30 @ ds"

definition hex_padded :: "nat \<Rightarrow> nat \<Rightarrow> byte list" where
  "hex_padded w n = zero_filled w (hex_number n)"

text \<open>The loop over the bits, with a space in front of the bits of \<open>seps\<close>.\<close>

definition bin_text :: "nat \<Rightarrow> nat set \<Rightarrow> nat \<Rightarrow> byte list" where
  "bin_text k seps v =
     concat (map (\<lambda>i. (if i \<in> seps then [0x20] else []) @ [if v div 2 ^ i mod 2 = 1 then 0x31 else 0x30])
       (rev [0..<k]))"

section \<open>Reading the payload\<close>

text \<open>
  What \<open>dlt_message_argument_print\<close> reads but does not change: the payload, \<open>htyp\<close>, the static
  variable \<open>print_with_attributes\<close> and the text of floating point numbers by their bits.
\<close>

record print_env =
  pe_payload :: "byte list"
  pe_htyp :: byte
  pe_attributes :: bool
  pe_float32 :: "int \<Rightarrow> byte list"
  pe_float64 :: "int \<Rightarrow> byte list"

text \<open>
  Its local variables: the text, \<open>value_text\<close>, \<open>textlength\<close>, \<open>*ptr\<close>, \<open>*datalength\<close>, and
  \<open>unit_text_src\<close> with \<open>unit_text_len\<close>.
\<close>

record argument_state =
  ps_text :: "byte list"
  ps_value :: nat
  ps_length :: nat
  ps_ptr :: nat
  ps_data :: int
  ps_unit :: "nat \<times> nat"

text \<open>A step gives its result, or None when the function returns \<open>DLT_RETURN_ERROR\<close> here.\<close>

type_synonym 'a reader = "argument_state \<Rightarrow> 'a option \<times> argument_state"

definition return_r :: "'a \<Rightarrow> 'a reader" where
  "return_r x s = (Some x, s)"

definition bind_r :: "'a reader \<Rightarrow> ('a \<Rightarrow> 'b reader) \<Rightarrow> 'b reader" where
  "bind_r m f s = (case m s of (None, s') \<Rightarrow> (None, s') | (Some x, s') \<Rightarrow> f x s')"

definition update_r :: "(argument_state \<Rightarrow> argument_state) \<Rightarrow> unit reader" where
  "update_r f s = (Some (), f s)"

definition fail_r :: "'a reader" where
  "fail_r s = (None, s)"

text \<open>\<open>DLT_MSG_READ_VALUE\<close> and the test of \<open>*datalength\<close> behind it.\<close>

definition read_value :: "print_env \<Rightarrow> nat \<Rightarrow> byte list reader" where
  "read_value e n s =
     (if ps_data s < 0 \<or> ps_data s < int n then (None, s\<lparr>ps_data := - 1\<rparr>)
      else (Some (memget (pe_payload e) (ps_ptr s) n),
            s\<lparr>ps_ptr := ps_ptr s + n, ps_data := ps_data s - int n\<rparr>))"

definition DLT_HTYP_MSBF :: byte where "DLT_HTYP_MSBF = 0x02"

text \<open>\<open>DLT_ENDIAN_GET_16\<close>, \<open>_32\<close> and \<open>_64\<close> of the value in these bytes of memory.\<close>

definition endian_get :: "byte \<Rightarrow> byte list \<Rightarrow> int" where
  "endian_get htyp bs = (if htyp AND DLT_HTYP_MSBF \<noteq> 0 then be_val bs else le_val bs)"

definition read_u16 :: "print_env \<Rightarrow> nat reader" where
  "read_u16 e = bind_r (read_value e 2) (\<lambda>bs. return_r (u16 (endian_get (pe_htyp e) bs)))"

definition put_text :: "byte list \<Rightarrow> argument_state \<Rightarrow> argument_state" where
  "put_text str s = s\<lparr>ps_text := snprintf_at (ps_text s) (ps_value s) (ps_length s) str\<rparr>"

text \<open>\<open>DLT_MSG_READ_STRING\<close> and the test of \<open>*datalength\<close> behind it.\<close>

definition read_string :: "print_env \<Rightarrow> nat \<Rightarrow> unit reader" where
  "read_string e len s =
     (if ps_data s < 0 \<or> len = 0 \<or> ps_length s < len \<or> ps_data s < int len
      then (None, s\<lparr>ps_data := - 1\<rparr>)
      else (Some (),
            s\<lparr>ps_text := memput (ps_text s) (ps_value s)
                (the (dlt_clean_string (Some (memget (pe_payload e) (ps_ptr s) len)) (int len)) @ [0]),
              ps_ptr := ps_ptr s + len, ps_data := ps_data s - int len\<rparr>))"

text \<open>\<open>if (*datalength < n) return DLT_RETURN_ERROR; *ptr += n; *datalength -= n\<close>.\<close>

definition skip_bytes :: "nat \<Rightarrow> unit reader" where
  "skip_bytes n s =
     (if ps_data s < int n then (None, s)
      else (Some (), s\<lparr>ps_ptr := ps_ptr s + n, ps_data := ps_data s - int n\<rparr>))"

text \<open>
  The name attribute: it is printed when it is more than a zero byte, \<open>value_text\<close> moves behind
  it and \<open>textlength\<close> is reduced by \<open>length2 - dd\<close>.
\<close>

definition print_name :: "print_env \<Rightarrow> nat \<Rightarrow> nat \<Rightarrow> argument_state \<Rightarrow> argument_state" where
  "print_name e dd length2 s =
     (if pe_attributes e \<and> length2 > 1 then
        (put_text (c_string (drop (ps_ptr s) (pe_payload e)) @ [0x3A]) s)
          \<lparr>ps_value := ps_value s + length2,
           ps_length := u64 (int (ps_length s) - int (length2 - dd))\<rparr>
      else s)"

definition skip_name :: "print_env \<Rightarrow> nat \<Rightarrow> nat \<Rightarrow> unit reader" where
  "skip_name e dd length2 s =
     (if ps_data s < int length2 then (None, s)
      else skip_bytes length2 (print_name e dd length2 s))"

text \<open>The variable information of strings, booleans and raw data, which have no unit.\<close>

definition read_name :: "print_env \<Rightarrow> nat \<Rightarrow> unit reader" where
  "read_name e dd = bind_r (read_u16 e) (skip_name e dd)"

text \<open>The variable information of numbers.\<close>

definition read_name_unit :: "print_env \<Rightarrow> unit reader" where
  "read_name_unit e =
     bind_r (read_u16 e) (\<lambda>length2. bind_r (read_u16 e) (\<lambda>length3.
     bind_r (skip_name e 0 length2) (\<lambda>_ s.
       (if ps_data s < int length3 then (None, s)
        else skip_bytes length3 (s\<lparr>ps_unit := (ps_ptr s, length3)\<rparr>)))))"

section \<open>The text of an argument\<close>

abbreviation (input) DLT_TYPE_INFO_TYLE :: "32 word" where "DLT_TYPE_INFO_TYLE \<equiv> 0x0000000F"
abbreviation (input) DLT_TYPE_INFO_BOOL :: "32 word" where "DLT_TYPE_INFO_BOOL \<equiv> 0x00000010"
abbreviation (input) DLT_TYPE_INFO_SINT :: "32 word" where "DLT_TYPE_INFO_SINT \<equiv> 0x00000020"
abbreviation (input) DLT_TYPE_INFO_UINT :: "32 word" where "DLT_TYPE_INFO_UINT \<equiv> 0x00000040"
abbreviation (input) DLT_TYPE_INFO_FLOA :: "32 word" where "DLT_TYPE_INFO_FLOA \<equiv> 0x00000080"
abbreviation (input) DLT_TYPE_INFO_STRG :: "32 word" where "DLT_TYPE_INFO_STRG \<equiv> 0x00000200"
abbreviation (input) DLT_TYPE_INFO_RAWD :: "32 word" where "DLT_TYPE_INFO_RAWD \<equiv> 0x00000400"
abbreviation (input) DLT_TYPE_INFO_VARI :: "32 word" where "DLT_TYPE_INFO_VARI \<equiv> 0x00000800"
abbreviation (input) DLT_TYPE_INFO_FIXP :: "32 word" where "DLT_TYPE_INFO_FIXP \<equiv> 0x00001000"
abbreviation (input) DLT_TYPE_INFO_TRAI :: "32 word" where "DLT_TYPE_INFO_TRAI \<equiv> 0x00002000"
abbreviation (input) DLT_TYPE_INFO_SCOD :: "32 word" where "DLT_TYPE_INFO_SCOD \<equiv> 0x00038000"
abbreviation (input) DLT_SCOD_ASCII :: "32 word" where "DLT_SCOD_ASCII \<equiv> 0x00000000"
abbreviation (input) DLT_SCOD_UTF8 :: "32 word" where "DLT_SCOD_UTF8 \<equiv> 0x00008000"
abbreviation (input) DLT_SCOD_HEX :: "32 word" where "DLT_SCOD_HEX \<equiv> 0x00010000"
abbreviation (input) DLT_SCOD_BIN :: "32 word" where "DLT_SCOD_BIN \<equiv> 0x00018000"

definition has :: "32 word \<Rightarrow> 32 word \<Rightarrow> bool" where
  "has type_info flag \<longleftrightarrow> type_info AND flag \<noteq> 0"

definition tyle :: "32 word \<Rightarrow> 32 word" where
  "tyle type_info = type_info AND DLT_TYPE_INFO_TYLE"

definition print_string_arg :: "print_env \<Rightarrow> 32 word \<Rightarrow> int \<Rightarrow> unit reader" where
  "print_string_arg e ti byteLength =
     bind_r (if byteLength < 0 then read_u16 e else return_r (u16 byteLength)) (\<lambda>len.
     bind_r (if has ti DLT_TYPE_INFO_VARI then read_name e 0 else return_r ()) (\<lambda>_.
     read_string e len))"

definition print_bool_arg :: "print_env \<Rightarrow> 32 word \<Rightarrow> unit reader" where
  "print_bool_arg e ti =
     bind_r (if has ti DLT_TYPE_INFO_VARI then read_name e 1 else return_r ()) (\<lambda>_.
     bind_r (read_value e 1) (\<lambda>bs. update_r (put_text (dec_text (le_val bs)))))"

definition print_bin_arg :: "print_env \<Rightarrow> 32 word \<Rightarrow> unit reader" where
  "print_bin_arg e ti =
     bind_r (if tyle ti = 1
       then bind_r (read_value e 1) (\<lambda>bs. update_r (put_text (ascii ''0b'' @ bin_text 8 {3} (nat (le_val bs)))))
       else return_r ()) (\<lambda>_.
     if tyle ti = 2
     then bind_r (read_value e 2) (\<lambda>bs. update_r (put_text (ascii ''0b'' @ bin_text 16 {3, 7, 11} (nat (le_val bs)))))
     else return_r ())"

definition print_hex_number :: "print_env \<Rightarrow> nat \<Rightarrow> unit reader" where
  "print_hex_number e n =
     bind_r (read_value e n) (\<lambda>bs. update_r (put_text (ascii ''0x'' @ hex_padded (2 * n) (nat (le_val bs)))))"

text \<open>Eight bytes are read as two halves, the second one first.\<close>

definition print_hex64 :: "print_env \<Rightarrow> unit reader" where
  "print_hex64 e =
     bind_r (update_r (\<lambda>s. s\<lparr>ps_ptr := ps_ptr s + 4\<rparr>)) (\<lambda>_.
     bind_r (print_hex_number e 4) (\<lambda>_.
     bind_r (update_r (\<lambda>s. s\<lparr>ps_ptr := ps_ptr s - 8\<rparr>)) (\<lambda>_.
     bind_r (read_value e 4) (\<lambda>bs.
     update_r (\<lambda>s. s\<lparr>ps_text := snprintf_at (ps_text s) (ps_value s + strlen_at (ps_text s) (ps_value s))
                     (u64 (int (ps_length s) - int (strlen_at (ps_text s) (ps_value s))))
                     (hex_padded 8 (nat (le_val bs))),
                   ps_ptr := ps_ptr s + 4\<rparr>)))))"

definition print_hex_arg :: "print_env \<Rightarrow> 32 word \<Rightarrow> unit reader" where
  "print_hex_arg e ti =
     (if tyle ti = 1 then print_hex_number e 1
      else if tyle ti = 2 then print_hex_number e 2
      else if tyle ti = 3 then print_hex_number e 4
      else if tyle ti = 4 then print_hex64 e
      else return_r ())"

text \<open>
  \<open>dlt_print_hex_string\<close> of the next \<open>n\<close> bytes at \<open>value_text\<close>. It writes nothing when it fails,
  and not even the end of the string when there is nothing to print.
\<close>

definition put_hex_string :: "print_env \<Rightarrow> byte \<Rightarrow> nat \<Rightarrow> argument_state \<Rightarrow> argument_state" where
  "put_hex_string e delim n s =
     (let w = written (dlt_print_hex_string_delim True (i32 (int (ps_length s)))
                (Some (drop (ps_ptr s) (pe_payload e))) (int n) delim)
      in if w = [] then s else s\<lparr>ps_text := memput (ps_text s) (ps_value s) (w @ [0])\<rparr>)"

definition print_hex_bytes :: "print_env \<Rightarrow> nat \<Rightarrow> unit reader" where
  "print_hex_bytes e n s =
     skip_bytes n (if ps_data s \<ge> int n then put_hex_string e 0x20 n s else s)"

text \<open>Numbers: sign extension of the value, and the quantisation and offset of fixed point values.\<close>

definition sign_extend :: "nat \<Rightarrow> int \<Rightarrow> int" where
  "sign_extend n x = (if x < 2 ^ (8 * n - 1) then x else x - 2 ^ (8 * n))"

definition print_number :: "print_env \<Rightarrow> 32 word \<Rightarrow> nat \<Rightarrow> unit reader" where
  "print_number e ti n =
     bind_r (read_value e n) (\<lambda>bs.
       let v = (if n = 1 then le_val bs else endian_get (pe_htyp e) bs)
       in update_r (put_text (dec_text (if has ti DLT_TYPE_INFO_SINT then sign_extend n v else v))))"

definition skip_fixed_point :: "print_env \<Rightarrow> 32 word \<Rightarrow> unit reader" where
  "skip_fixed_point e ti =
     bind_r (read_value e 4) (\<lambda>_.
       if tyle ti = 1 \<or> tyle ti = 2 \<or> tyle ti = 3 then skip_bytes 4
       else if tyle ti = 4 then skip_bytes 8
       else if tyle ti = 5 then skip_bytes 16
       else fail_r)"

definition print_number_arg :: "print_env \<Rightarrow> 32 word \<Rightarrow> unit reader" where
  "print_number_arg e ti =
     bind_r (if has ti DLT_TYPE_INFO_VARI then read_name_unit e else return_r ()) (\<lambda>_.
     bind_r (if has ti DLT_TYPE_INFO_FIXP then skip_fixed_point e ti else return_r ()) (\<lambda>_.
       if tyle ti = 1 then print_number e ti 1
       else if tyle ti = 2 then print_number e ti 2
       else if tyle ti = 3 then print_number e ti 4
       else if tyle ti = 4 then print_number e ti 8
       else if tyle ti = 5 then print_hex_bytes e 16
       else fail_r))"

definition print_float_arg :: "print_env \<Rightarrow> 32 word \<Rightarrow> unit reader" where
  "print_float_arg e ti =
     bind_r (if has ti DLT_TYPE_INFO_VARI then read_name_unit e else return_r ()) (\<lambda>_.
       if tyle ti = 1 then print_hex_bytes e 1
       else if tyle ti = 2 then print_hex_bytes e 2
       else if tyle ti = 3 then
         bind_r (read_value e 4) (\<lambda>bs. update_r (put_text (pe_float32 e (endian_get (pe_htyp e) bs))))
       else if tyle ti = 4 then
         bind_r (read_value e 8) (\<lambda>bs. update_r (put_text (pe_float64 e (endian_get (pe_htyp e) bs))))
       else if tyle ti = 5 then print_hex_bytes e 16
       else fail_r)"

definition print_raw_arg :: "print_env \<Rightarrow> 32 word \<Rightarrow> unit reader" where
  "print_raw_arg e ti =
     bind_r (read_u16 e) (\<lambda>len.
     bind_r (if has ti DLT_TYPE_INFO_VARI then read_name e 0 else return_r ()) (\<lambda>_ s.
       (if ps_data s < int len then (None, s)
        else skip_bytes len (put_hex_string e 0x27 len s))))"

text \<open>The unit behind the value, when it is more than a zero byte.\<close>

definition print_unit :: "print_env \<Rightarrow> argument_state \<Rightarrow> argument_state" where
  "print_unit e s =
     (if pe_attributes e \<and> snd (ps_unit s) > 1 then
        let n = strlen_at (ps_text s) (ps_value s)
        in s\<lparr>ps_text := snprintf_at (ps_text s) (ps_value s + n) (u64 (int (ps_length s) - int n))
               (0x3A # c_string (drop (fst (ps_unit s)) (pe_payload e))),
             ps_length := u64 (int (ps_length s) - int n)\<rparr>
      else s)"

definition print_value :: "print_env \<Rightarrow> 32 word \<Rightarrow> int \<Rightarrow> unit reader" where
  "print_value e ti byteLength =
     (let scod = ti AND DLT_TYPE_INFO_SCOD
      in if has ti DLT_TYPE_INFO_STRG \<and> (scod = DLT_SCOD_ASCII \<or> scod = DLT_SCOD_UTF8)
         then print_string_arg e ti byteLength
         else if has ti DLT_TYPE_INFO_BOOL then print_bool_arg e ti
         else if has ti DLT_TYPE_INFO_UINT \<and> scod = DLT_SCOD_BIN then print_bin_arg e ti
         else if has ti DLT_TYPE_INFO_UINT \<and> scod = DLT_SCOD_HEX then print_hex_arg e ti
         else if has ti DLT_TYPE_INFO_SINT \<or> has ti DLT_TYPE_INFO_UINT then print_number_arg e ti
         else if has ti DLT_TYPE_INFO_FLOA then print_float_arg e ti
         else if has ti DLT_TYPE_INFO_RAWD then print_raw_arg e ti
         else if has ti DLT_TYPE_INFO_TRAI then bind_r (read_u16 e) (read_string e)
         else fail_r)"

text \<open>None of the pointer arguments is \<open>NULL\<close>: the only caller is \<open>dlt_message_payload\<close>.\<close>

definition dlt_message_argument_print :: "print_env \<Rightarrow> 32 word \<Rightarrow> int \<Rightarrow> argument_state \<Rightarrow> int \<times> argument_state" where
  "dlt_message_argument_print e ti byteLength s =
     (case print_value e ti byteLength s of
        (None, s1) \<Rightarrow> (DLT_RETURN_ERROR, s1)
      | (Some _, s1) \<Rightarrow>
        if ps_data s1 < 0 then (DLT_RETURN_ERROR, s1) else (DLT_RETURN_OK, print_unit e s1))"

section \<open>The text of a payload\<close>

abbreviation (input) DLT_OUTPUT_HEX :: int where "DLT_OUTPUT_HEX \<equiv> 1"
abbreviation (input) DLT_OUTPUT_ASCII :: int where "DLT_OUTPUT_ASCII \<equiv> 2"
abbreviation (input) DLT_OUTPUT_MIXED_FOR_PLAIN :: int where "DLT_OUTPUT_MIXED_FOR_PLAIN \<equiv> 3"
abbreviation (input) DLT_OUTPUT_MIXED_FOR_HTML :: int where "DLT_OUTPUT_MIXED_FOR_HTML \<equiv> 4"
abbreviation (input) DLT_OUTPUT_ASCII_LIMITED :: int where "DLT_OUTPUT_ASCII_LIMITED \<equiv> 5"
abbreviation (input) DLT_COMMON_ASCII_LIMIT_MAX_CHARS :: int where "DLT_COMMON_ASCII_LIMIT_MAX_CHARS \<equiv> 20"

definition service_id_name :: "byte list list" where
  "service_id_name = map ascii
     ['''', ''set_log_level'', ''set_trace_status'', ''get_log_info'', ''get_default_log_level'',
      ''store_config'', ''reset_to_factory_default'', ''set_com_interface_status'',
      ''set_com_interface_max_bandwidth'', ''set_verbose_mode'', ''set_message_filtering'',
      ''set_timing_packets'', ''get_local_time'', ''use_ecu_id'', ''use_session_id'',
      ''use_timestamp'', ''use_extended_header'', ''set_default_log_level'',
      ''set_default_trace_status'', ''get_software_version'', ''message_buffer_overflow'']"

definition return_type :: "byte list list" where
  "return_type = map ascii
     [''ok'', ''not_supported'', ''error'', ''perm_denied'', ''warning'', '''', '''', '''',
      ''no_matching_context_id'']"

definition DLT_GET_MSIN_MSTP :: "byte \<Rightarrow> byte" where "DLT_GET_MSIN_MSTP msin = drop_bit 1 (msin AND 0x0E)"
definition DLT_IS_MSIN_VERB :: "byte \<Rightarrow> bool" where "DLT_IS_MSIN_VERB msin \<longleftrightarrow> msin AND 0x01 \<noteq> 0"

definition DLT_MSG_IS_CONTROL :: "DltMessage \<Rightarrow> bool" where
  "DLT_MSG_IS_CONTROL m \<longleftrightarrow> DLT_IS_HTYP_UEH (msg_htyp m) \<and> DLT_GET_MSIN_MSTP (msg_msin m) = 3"

definition DLT_MSG_IS_CONTROL_RESPONSE :: "DltMessage \<Rightarrow> bool" where
  "DLT_MSG_IS_CONTROL_RESPONSE m \<longleftrightarrow> DLT_MSG_IS_CONTROL m \<and> DLT_GET_MSIN_MTIN (msg_msin m) = 2"

definition DLT_MSG_IS_CONTROL_TIME :: "DltMessage \<Rightarrow> bool" where
  "DLT_MSG_IS_CONTROL_TIME m \<longleftrightarrow> DLT_MSG_IS_CONTROL m \<and> DLT_GET_MSIN_MTIN (msg_msin m) = 3"

definition DLT_MSG_IS_NONVERBOSE :: "DltMessage \<Rightarrow> bool" where
  "DLT_MSG_IS_NONVERBOSE m \<longleftrightarrow>
     \<not> DLT_IS_HTYP_UEH (msg_htyp m) \<or> DLT_IS_HTYP_UEH (msg_htyp m) \<and> \<not> DLT_IS_MSIN_VERB (msg_msin m)"

definition msg_noar :: "DltMessage \<Rightarrow> nat" where
  "msg_noar m = unat (headerbuffer m ! (case extendedheader m of None \<Rightarrow> 0 | Some o' \<Rightarrow> o' + 1))"

text \<open>\<open>dlt_print_hex_string (text + off, n, ptr, sz)\<close>: the return value and the text.\<close>

definition hex_string_at :: "byte list \<Rightarrow> nat \<Rightarrow> int \<Rightarrow> byte list \<Rightarrow> int \<Rightarrow> int \<times> byte list" where
  "hex_string_at t off n ptr sz =
     (let r = dlt_print_hex_string True n (Some ptr) sz; w = written r
      in (fst r, if w = [] then t else memput t off (w @ [0])))"

definition mixed_string_at :: "byte list \<Rightarrow> int \<Rightarrow> byte list \<Rightarrow> int \<Rightarrow> bool \<Rightarrow> int \<times> byte list" where
  "mixed_string_at t n ptr sz html =
     (let r = dlt_print_mixed_string True n (Some ptr) sz html; w = written r
      in (fst r, if w = [] then t else memput t 0 (w @ [0])))"

text \<open>The payload of a message in non-verbose mode: service or message id, return value, data.\<close>

definition print_message_id :: "DltMessage \<Rightarrow> nat \<Rightarrow> nat \<Rightarrow> int \<Rightarrow> byte list \<Rightarrow> byte list" where
  "print_message_id m n ident datalength t =
     (if DLT_MSG_IS_CONTROL m then
        let t1 = (if 0 < ident \<and> ident < 21 then append_text n (service_id_name ! ident) t
                  else if \<not> DLT_MSG_IS_CONTROL_TIME m
                  then append_text n (ascii ''service('' @ dec_text (int ident) @ ascii '')'') t
                  else t)
        in if datalength > 0 then append_text n (ascii '', '') t1 else t1
      else append_text n (dec_text (int ident) @ ascii '', '') t)"

definition print_return_value :: "nat \<Rightarrow> byte \<Rightarrow> int \<Rightarrow> byte list \<Rightarrow> byte list" where
  "print_return_value n retval datalength t =
     (let t1 = (if unat retval < 5 \<or> unat retval = 8 then append_text n (return_type ! unat retval) t
                else append_text n (hex2 retval) t)
      in if datalength \<ge> 1 then append_text n (ascii '', '') t1 else t1)"

definition print_nonverbose :: "DltMessage \<Rightarrow> byte list \<Rightarrow> byte list \<Rightarrow> nat \<Rightarrow> int \<Rightarrow> int \<times> byte list" where
  "print_nonverbose m payload t n otype =
     (let ok = (datasize m \<ge> 4);
          ident = (if ok then u32 (endian_get (msg_htyp m) (memget payload 0 4)) else 0);
          ptr = (if ok then 4 else 0);
          dl = (if ok then datasize m - 4 else - 1)
      in if n < u32 (int (u32 dl) * 3 + 20) then (DLT_RETURN_ERROR, t)
         else
           let t1 = print_message_id m n ident dl t;
               response = (DLT_MSG_IS_CONTROL_RESPONSE m \<and> dl > 0);
               ptr' = (if response then ptr + 1 else ptr);
               dl' = (if response then dl - 1 else dl);
               t2 = (if response then print_return_value n (payload ! ptr) dl' t1 else t1);
               k = strlen_at t2 0
           in if otype = DLT_OUTPUT_ASCII_LIMITED then
                let (rc, t3) = hex_string_at t2 k (i32 (int n - int k)) (drop ptr' payload)
                      (if dl' > DLT_COMMON_ASCII_LIMIT_MAX_CHARS then DLT_COMMON_ASCII_LIMIT_MAX_CHARS else dl')
                in (rc, if dl' > DLT_COMMON_ASCII_LIMIT_MAX_CHARS \<and> u64 (int n - int (strlen_at t3 0)) > 4
                        then append_text n (ascii '' ...'') t3 else t3)
              else hex_string_at t2 k (i32 (int n - int k)) (drop ptr' payload) dl')"

text \<open>
  The loop over the arguments: \<open>num\<close> are printed, \<open>left\<close> are to come, \<open>tmp\<close> are the bytes of
  \<open>type_info_tmp\<close>, which keeps its value when there is nothing left to read.
\<close>

fun print_arguments :: "print_env \<Rightarrow> nat \<Rightarrow> nat \<Rightarrow> nat \<Rightarrow> byte list \<Rightarrow> argument_state \<Rightarrow> int \<times> argument_state" where
  "print_arguments e n num 0 tmp s = (DLT_RETURN_OK, s)"
| "print_arguments e n num (Suc left) tmp s =
     (let s1 = (if num \<noteq> 0 then s\<lparr>ps_text := append_text n [0x20] (ps_text s)\<rparr> else s);
          (bs, s2) = read_value e 4 s1;
          tmp' = (case bs of None \<Rightarrow> tmp | Some b \<Rightarrow> b);
          off = strlen_at (ps_text s2) 0;
          (rc, s3) = dlt_message_argument_print e (word_of_int (endian_get (pe_htyp e) tmp')) (- 1)
                       (s2\<lparr>ps_value := off, ps_length := u64 (int n - int off), ps_unit := (0, 0)\<rparr>)
      in if rc = DLT_RETURN_ERROR then (DLT_RETURN_ERROR, s3)
         else print_arguments e n (num + 1) left tmp' s3)"

text \<open>\<open>floats\<close> are the texts of floating point numbers, \<open>attrs\<close> is \<open>print_with_attributes\<close>.\<close>

definition payload_env :: "(int \<Rightarrow> byte list) \<times> (int \<Rightarrow> byte list) \<Rightarrow> bool \<Rightarrow> DltMessage \<Rightarrow> byte list \<Rightarrow> print_env" where
  "payload_env floats attrs m payload =
     \<lparr>pe_payload = payload, pe_htyp = msg_htyp m, pe_attributes = attrs,
      pe_float32 = fst floats, pe_float64 = snd floats\<rparr>"

definition dlt_message_payload ::
  "(int \<Rightarrow> byte list) \<times> (int \<Rightarrow> byte list) \<Rightarrow> bool \<Rightarrow> DltMessage option \<Rightarrow> byte list option \<Rightarrow> nat \<Rightarrow> int \<Rightarrow>
   int \<times> byte list option" where
  "dlt_message_payload floats attrs msg txt textlength otype =
     (case (msg, txt) of
        (Some m, Some t) \<Rightarrow>
          (case databuffer m of None \<Rightarrow> (DLT_RETURN_WRONG_PARAMETER, txt)
           | Some payload \<Rightarrow>
             if otype < DLT_OUTPUT_HEX \<or> otype > DLT_OUTPUT_ASCII_LIMITED \<or> textlength = 0
             then (DLT_RETURN_WRONG_PARAMETER, txt)
             else
               let t0 = memput t 0 [0]; n = i32 (int textlength)
               in if otype = DLT_OUTPUT_HEX then apsnd Some (hex_string_at t0 0 n payload (datasize m))
                  else if otype = DLT_OUTPUT_MIXED_FOR_PLAIN
                  then apsnd Some (mixed_string_at t0 n payload (datasize m) False)
                  else if otype = DLT_OUTPUT_MIXED_FOR_HTML
                  then apsnd Some (mixed_string_at t0 n payload (datasize m) True)
                  else if DLT_MSG_IS_NONVERBOSE m
                  then apsnd Some (print_nonverbose m payload t0 textlength otype)
                  else
                    case print_arguments (payload_env floats attrs m payload) textlength 0 (msg_noar m) [0, 0, 0, 0]
                           \<lparr>ps_text = t0, ps_value = 0, ps_length = textlength, ps_ptr = 0,
                            ps_data = datasize m, ps_unit = (0, 0)\<rparr>
                    of (rc, s) \<Rightarrow> (rc, Some (ps_text s)))
      | _ \<Rightarrow> (DLT_RETURN_WRONG_PARAMETER, txt))"

section \<open>The text stays inside its buffer\<close>

text \<open>
  \<open>bounded n rest v t\<close>: behind its first \<open>n + 1\<close> bytes the area \<open>t\<close> is \<open>rest\<close>, and the string
  at \<open>v\<close> ends at \<open>n\<close> or before. A step that \<open>keeps\<close> this is safe for a buffer of size \<open>n\<close> with
  one spare byte behind it.
\<close>

named_theorems keeps_intros \<open>steps that stay inside the text buffer\<close>

definition bounded :: "nat \<Rightarrow> byte list \<Rightarrow> nat \<Rightarrow> byte list \<Rightarrow> bool" where
  "bounded n rest v t \<longleftrightarrow> drop (n + 1) t = rest \<and> n < length t \<and> (\<exists>i. v \<le> i \<and> i \<le> n \<and> t ! i = 0)"

definition inside :: "nat \<Rightarrow> byte list \<Rightarrow> argument_state \<Rightarrow> bool" where
  "inside n rest s \<longleftrightarrow> bounded n rest (ps_value s) (ps_text s) \<and> ps_value s + ps_length s = n"

definition keeps :: "nat \<Rightarrow> byte list \<Rightarrow> 'a reader \<Rightarrow> bool" where
  "keeps n rest m \<longleftrightarrow> (\<forall>s. inside n rest s \<longrightarrow> inside n rest (snd (m s)))"

lemma bounded_put:
  assumes "bounded n rest v t" "v \<le> off" "off + length w \<le> n"
  shows "bounded n rest v (memput t off (w @ [0]))"
proof -
  have n: "n < length t" using assms(1) by (simp add: bounded_def)
  then have fit: "off + length (w @ [0]) \<le> length t" using assms(3) by simp
  have "drop (n + 1) (memput t off (w @ [0])) = drop (n + 1) t"
    using fit assms(3) by (simp add: memput_def drop_Cons')
  moreover have "memput t off (w @ [0]) ! (off + length w) = 0"
    using fit by (simp add: nth_memput)
  ultimately show ?thesis
    using assms n fit unfolding bounded_def by (auto intro!: exI [of _ "off + length w"])
qed

lemma strlen_le:
  assumes "t ! i = 0" "v \<le> i" "i < length t"
  shows "v + strlen_at t v \<le> i"
proof -
  have d: "drop v t = take (i - v) (drop v t) @ 0 # drop (Suc i) t"
  proof -
    have "drop (i - v) (drop v t) = 0 # drop (Suc i) t"
      using assms Cons_nth_drop_Suc [of i t] by simp
    then show ?thesis using append_take_drop_id [of "i - v" "drop v t"] by simp
  qed
  have "c_string (drop v t) = takeWhile (\<lambda>b. b \<noteq> 0) (take (i - v) (drop v t) @ 0 # drop (Suc i) t)"
    unfolding c_string_def by (subst d) (rule refl)
  then have "length (c_string (drop v t)) \<le> length (take (i - v) (drop v t))"
    using length_takeWhile_le [of "\<lambda>b. b \<noteq> 0" "take (i - v) (drop v t)"]
    by (simp add: takeWhile_append del: length_take)
  then show ?thesis using assms by (simp add: strlen_at_def)
qed

lemma bounded_strlen: "bounded n rest v t \<Longrightarrow> v + strlen_at t v \<le> n"
  unfolding bounded_def by (metis strlen_le le_less_trans le_trans)

lemma bounded_snprintf:
  assumes "bounded n rest v t" "v \<le> off" "off + k \<le> n"
  shows "bounded n rest v (snprintf_at t off k str)"
proof (cases "k = 0")
  case False
  then have "off + length (take (k - 1) str) \<le> n" using assms(3) by simp
  with False assms show ?thesis by (simp add: snprintf_at_def bounded_put)
qed (use assms in \<open>simp add: snprintf_at_def\<close>)

lemma bounded_append:
  assumes "bounded n rest 0 t" "n < 2 ^ 31"
  shows "bounded n rest 0 (append_text n str t)"
  unfolding append_text_def
proof (rule bounded_snprintf)
  have "strlen_at t 0 \<le> n" using bounded_strlen [OF assms(1)] by simp
  then show "strlen_at t 0 + u64 (int n - int (strlen_at t 0)) \<le> n"
    using assms(2) by (simp add: u64_id)
qed (use assms in auto)

lemma length_hex_string:
  assumes "w = written (dlt_print_hex_string_delim True n (Some p) sz delim)" "w \<noteq> []"
  shows "int (length w) < n"
proof -
  from assms have "3 * sz \<le> n" "0 \<le> sz" and w: "w = hex_text delim (take (nat sz) p)"
    by (auto simp: written_def dlt_print_hex_string_delim_def split: if_splits)
  moreover have "take (nat sz) p \<noteq> []" using assms(2) unfolding w by (metis hex_text.simps(1))
  then have "0 < length (take (nat sz) p)" by blast
  then have "length w < 3 * length (take (nat sz) p)" unfolding w length_hex_text by linarith
  moreover have "length (take (nat sz) p) \<le> nat sz" by simp
  ultimately show ?thesis by linarith
qed

lemma inside_put_text: "inside n rest s \<Longrightarrow> inside n rest (put_text str s)"
  by (auto simp: inside_def put_text_def intro!: bounded_snprintf)

lemma inside_hex_string:
  assumes "inside n rest s" "n < 2 ^ 31"
  shows "inside n rest (put_hex_string e delim k s)"
proof -
  let ?w = "written (dlt_print_hex_string_delim True (i32 (int (ps_length s)))
                (Some (drop (ps_ptr s) (pe_payload e))) (int k) delim)"
  have len: "ps_value s + ps_length s = n" using assms by (simp add: inside_def)
  then have "i32 (int (ps_length s)) = int (ps_length s)" using assms(2) by (intro i32_id) auto
  then have "?w \<noteq> [] \<Longrightarrow> int (length ?w) < int (ps_length s)" using length_hex_string by metis
  then show ?thesis
    using assms(1) len by (auto simp: inside_def put_hex_string_def Let_def intro!: bounded_put)
qed

lemma keeps_bind [keeps_intros]: "keeps n rest m \<Longrightarrow> (\<And>x. keeps n rest (f x)) \<Longrightarrow> keeps n rest (bind_r m f)"
  by (fastforce simp: keeps_def bind_r_def split: prod.splits option.splits)

lemma keeps_return [keeps_intros]: "keeps n rest (return_r x)" "keeps n rest fail_r"
  by (simp_all add: keeps_def return_r_def fail_r_def)

lemma keeps_if [keeps_intros]: "keeps n rest a \<Longrightarrow> keeps n rest b \<Longrightarrow> keeps n rest (if c then a else b)"
  by simp

lemma keeps_update: "(\<And>s. inside n rest s \<Longrightarrow> inside n rest (f s)) \<Longrightarrow> keeps n rest (update_r f)"
  by (simp add: keeps_def update_r_def)

lemma keeps_put_text [keeps_intros]: "keeps n rest (update_r (put_text str))"
  by (intro keeps_update inside_put_text)

lemma inside_pointers [simp]:
  "inside n rest (s\<lparr>ps_ptr := p\<rparr>) = inside n rest s" "inside n rest (s\<lparr>ps_data := d\<rparr>) = inside n rest s"
  "inside n rest (s\<lparr>ps_unit := u\<rparr>) = inside n rest s"
  by (simp_all add: inside_def)

lemma keeps_read_value [keeps_intros]: "keeps n rest (read_value e k)"
  by (simp add: keeps_def read_value_def)

lemma keeps_read_u16 [keeps_intros]: "keeps n rest (read_u16 e)"
  unfolding read_u16_def by (intro keeps_intros)

lemma keeps_skip_bytes [keeps_intros]: "keeps n rest (skip_bytes k)"
  by (simp add: keeps_def skip_bytes_def)

lemma length_clean: "dlt_clean_string (Some t) k = Some t' \<Longrightarrow> length t' = length t"
  by (auto simp: dlt_clean_string_def)

lemma keeps_read_string [keeps_intros]: "keeps n rest (read_string e k)"
  unfolding keeps_def
proof (intro allI impI)
  fix s assume i: "inside n rest s"
  let ?c = "the (dlt_clean_string (Some (memget (pe_payload e) (ps_ptr s) k)) (int k))"
  have "length ?c \<le> k" by (simp add: dlt_clean_string_def memget_def)
  with i show "inside n rest (snd (read_string e k s))"
    by (auto simp: read_string_def inside_def intro!: bounded_put)
qed

text \<open>Without attributes the name is skipped.\<close>

lemma skip_name_plain: "\<not> pe_attributes e \<Longrightarrow> skip_name e k l = skip_bytes l"
  by (auto simp: skip_name_def skip_bytes_def print_name_def fun_eq_iff)

lemma keeps_read_name [keeps_intros]: "\<not> pe_attributes e \<Longrightarrow> keeps n rest (read_name e k)"
  unfolding read_name_def by (simp add: skip_name_plain keeps_intros)

lemma keeps_read_name_unit [keeps_intros]: "\<not> pe_attributes e \<Longrightarrow> keeps n rest (read_name_unit e)"
  unfolding read_name_unit_def
  by (simp add: skip_name_plain, intro keeps_intros, simp add: keeps_def skip_bytes_def)

lemma keeps_hex_bytes [keeps_intros]: "n < 2 ^ 31 \<Longrightarrow> keeps n rest (print_hex_bytes e k)"
  by (simp add: keeps_def print_hex_bytes_def skip_bytes_def inside_hex_string)

lemma keeps_number [keeps_intros]: "keeps n rest (print_number e ti k)" "keeps n rest (print_hex_number e k)"
  "keeps n rest (skip_fixed_point e ti)"
  unfolding print_number_def print_hex_number_def skip_fixed_point_def Let_def by (intro keeps_intros)+

lemma keeps_hex64 [keeps_intros]: "n < 2 ^ 31 \<Longrightarrow> keeps n rest (print_hex64 e)"
  unfolding print_hex64_def
proof (intro keeps_bind keeps_intros)
  assume n: "n < 2 ^ 31"
  show "keeps n rest (update_r (\<lambda>s. s\<lparr>ps_ptr := ps_ptr s + 4\<rparr>))" "keeps n rest (update_r (\<lambda>s. s\<lparr>ps_ptr := ps_ptr s - 8\<rparr>))"
    by (simp_all add: keeps_def update_r_def)
  fix bs
  show "keeps n rest (update_r (\<lambda>s. s\<lparr>ps_text := snprintf_at (ps_text s) (ps_value s + strlen_at (ps_text s) (ps_value s))
      (u64 (int (ps_length s) - int (strlen_at (ps_text s) (ps_value s)))) (hex_padded 8 (nat (le_val bs))), ps_ptr := ps_ptr s + 4\<rparr>))"
  proof (rule keeps_update)
    fix s assume i: "inside n rest s"
    then have "ps_value s + strlen_at (ps_text s) (ps_value s) \<le> n" "ps_value s + ps_length s = n"
      using bounded_strlen by (auto simp: inside_def)
    with i n show "inside n rest (s\<lparr>ps_text := snprintf_at (ps_text s) (ps_value s + strlen_at (ps_text s) (ps_value s))
      (u64 (int (ps_length s) - int (strlen_at (ps_text s) (ps_value s)))) (hex_padded 8 (nat (le_val bs))), ps_ptr := ps_ptr s + 4\<rparr>)"
      by (auto simp: inside_def u64_id intro!: bounded_snprintf)
  qed
qed

lemma keeps_raw [keeps_intros]: "n < 2 ^ 31 \<Longrightarrow> \<not> pe_attributes e \<Longrightarrow> keeps n rest (print_raw_arg e ti)"
  unfolding print_raw_arg_def
  by (intro keeps_intros, assumption, simp add: keeps_def skip_bytes_def inside_hex_string)

lemma argument_print_inside:
  assumes "n < 2 ^ 31" "\<not> pe_attributes e" "inside n rest s"
  shows "inside n rest (snd (dlt_message_argument_print e ti bl s))"
proof -
  have "keeps n rest (print_string_arg e ti bl)" "keeps n rest (print_bool_arg e ti)"
    "keeps n rest (print_bin_arg e ti)" "keeps n rest (print_hex_arg e ti)"
    "keeps n rest (print_number_arg e ti)" "keeps n rest (print_float_arg e ti)"
    unfolding print_string_arg_def print_bool_arg_def print_bin_arg_def print_hex_arg_def
      print_number_arg_def print_float_arg_def
    by (intro keeps_intros assms)+
  then have "keeps n rest (print_value e ti bl)"
    unfolding print_value_def Let_def by (intro keeps_intros assms)
  then have "inside n rest (snd (print_value e ti bl s))" using assms(3) by (simp add: keeps_def)
  moreover obtain r s1 where "print_value e ti bl s = (r, s1)" by fastforce
  ultimately show ?thesis
    using assms(2) by (cases r) (auto simp: dlt_message_argument_print_def print_unit_def)
qed

lemma strlen_zero:
  assumes "t ! i = 0" "v \<le> i" "i < length t"
  shows "t ! (v + strlen_at t v) = 0"
proof -
  have "strlen_at t v < length (drop v t)" using strlen_le [OF assms] assms(2,3) by simp
  then have "drop v t ! strlen_at t v = 0"
    unfolding strlen_at_def c_string_def using nth_length_takeWhile by blast
  then show ?thesis using assms by simp
qed

lemma bounded_end:
  assumes "bounded n rest 0 t"
  shows "bounded n rest (strlen_at t 0) t"
proof -
  obtain i where "i \<le> n" "t ! i = 0" "n < length t" using assms by (auto simp: bounded_def)
  then have "t ! (0 + strlen_at t 0) = 0" by (intro strlen_zero [of t i 0]) auto
  moreover have "strlen_at t 0 \<le> n" using bounded_strlen [OF assms] by simp
  ultimately show ?thesis using assms by (auto simp: bounded_def)
qed

lemma bounded_weaken: "bounded n rest v t \<Longrightarrow> bounded n rest 0 t"
  by (auto simp: bounded_def)

lemma read_value_text [simp]: "ps_text (snd (read_value e k s)) = ps_text s"
  by (simp add: read_value_def)

lemma print_arguments_step:
  assumes "s1 = (if num \<noteq> 0 then s\<lparr>ps_text := append_text n [0x20] (ps_text s)\<rparr> else s)"
    and "read_value e 4 s1 = (bs, s2)" "tmp' = (case bs of None \<Rightarrow> tmp | Some b \<Rightarrow> b)"
    and "off = strlen_at (ps_text s2) 0"
    and "dlt_message_argument_print e (word_of_int (endian_get (pe_htyp e) tmp')) (- 1)
      (s2\<lparr>ps_value := off, ps_length := u64 (int n - int off), ps_unit := (0, 0)\<rparr>) = (rc, s3)"
  shows "print_arguments e n num (Suc left) tmp s =
    (if rc = - 1 then (- 1, s3) else print_arguments e n (num + 1) left tmp' s3)"
  unfolding print_arguments.simps(2) Let_def assms(1) [symmetric] assms(2) prod.case
    assms(3) [symmetric] assms(4) [symmetric] assms(5) by (rule refl)

lemma print_arguments_inside:
  assumes "n < 2 ^ 31" "\<not> pe_attributes e" "bounded n rest 0 (ps_text s)"
  shows "bounded n rest 0 (ps_text (snd (print_arguments e n num left tmp s)))"
  using assms
proof (induction e n num left tmp s rule: print_arguments.induct)
  case (1 e n num tmp s)
  then show ?case by simp
next
  case (2 e n num left tmp s)
  define s1 where "s1 = (if num \<noteq> 0 then s\<lparr>ps_text := append_text n [0x20] (ps_text s)\<rparr> else s)"
  obtain bs s2 where r: "read_value e 4 s1 = (bs, s2)" by fastforce
  define tmp' where "tmp' = (case bs of None \<Rightarrow> tmp | Some b \<Rightarrow> b)"
  define off where "off = strlen_at (ps_text s2) 0"
  define s2' where "s2' = s2\<lparr>ps_value := off, ps_length := u64 (int n - int off), ps_unit := (0, 0)\<rparr>"
  obtain rc s3 where a: "dlt_message_argument_print e (word_of_int (endian_get (pe_htyp e) tmp')) (- 1) s2' = (rc, s3)"
    by fastforce
  have "bounded n rest 0 (ps_text s1)" using "2.prems" by (auto simp: s1_def bounded_append)
  moreover have "ps_text s2 = ps_text s1" using read_value_text [of e 4 s1] r by simp
  ultimately have b2: "bounded n rest 0 (ps_text s2)" by simp
  then have "off \<le> n" using bounded_strlen off_def by fastforce
  then have "inside n rest s2'"
    using bounded_end [OF b2] "2.prems"(1) by (simp add: s2'_def inside_def off_def u64_id)
  then have "inside n rest s3" using argument_print_inside [of n e rest s2'] "2.prems" a by (metis snd_conv)
  then have b3: "bounded n rest 0 (ps_text s3)" using bounded_weaken by (auto simp: inside_def)
  note eq = print_arguments_step [OF s1_def r tmp'_def off_def a [unfolded s2'_def]]
  show ?case
  proof (cases "rc = - 1")
    case False
    have "bounded n rest 0 (ps_text (snd (print_arguments e n (num + 1) left tmp' s3)))"
      using "2.IH" [OF s1_def r [symmetric]] False "2.prems" b3 a tmp'_def off_def s2'_def by simp
    then show ?thesis using False eq by simp
  qed (use eq b3 in simp)
qed

lemma hex_string_at_bounded:
  assumes "bounded n rest 0 t" "off \<le> n" "n < 2 ^ 31"
  shows "bounded n rest 0 (snd (hex_string_at t off (i32 (int n - int off)) p sz))"
proof -
  let ?w = "written (dlt_print_hex_string True (i32 (int n - int off)) (Some p) sz)"
  have "i32 (int n - int off) = int n - int off" using assms by (intro i32_id) auto
  then have "?w \<noteq> [] \<Longrightarrow> int (length ?w) < int n - int off"
    using length_hex_string unfolding dlt_print_hex_string_def by metis
  with assms show ?thesis by (auto simp: hex_string_at_def Let_def intro!: bounded_put)
qed

lemma mixed_string_at_bounded:
  assumes "bounded n rest 0 t" "n < 2 ^ 31" "sz \<le> int (length p)"
  shows "bounded n rest 0 (snd (mixed_string_at t (i32 (int n)) p sz html))"
proof -
  obtain rc w where r: "dlt_print_mixed_string True (i32 (int n)) (Some p) sz html = (rc, w)" by fastforce
  have "i32 (int n) = int n" using assms(2) by (intro i32_id) auto
  moreover have "rc = 0" if "w = Some x" for x
    using r that by (auto simp: dlt_print_mixed_string_def split: if_splits)
  ultimately have "int (length x) < int n" if "w = Some x" for x
    using mixed_fits [of "int n" p sz html x] r that assms(3) by simp
  with assms r show ?thesis
    by (cases w) (auto simp: mixed_string_at_def written_def Let_def intro!: bounded_put)
qed

lemma print_nonverbose_bounded:
  assumes t: "bounded n rest 0 t" and n: "n < 2 ^ 31"
  shows "bounded n rest 0 (snd (print_nonverbose m payload t n otype))"
proof -
  note append = bounded_append [OF _ n]
  have ident: "bounded n rest 0 (print_message_id m n ident dl t)" for ident dl
    using t unfolding print_message_id_def Let_def by (auto intro!: append)
  have ret: "bounded n rest 0 (print_return_value n retval dl t')" if "bounded n rest 0 t'" for retval dl t'
    using that unfolding print_return_value_def Let_def by (auto intro!: append)
  have hex: "bounded n rest 0 (snd (hex_string_at t' (strlen_at t' 0) (i32 (int n - int (strlen_at t' 0))) p sz))"
    if "bounded n rest 0 t'" for t' p sz
    using that bounded_strlen [of n rest 0] n by (intro hex_string_at_bounded) auto
  have limited: "bounded n rest 0 (snd (case hex_string_at t' (strlen_at t' 0) (i32 (int n - int (strlen_at t' 0))) p sz of
      (rc, t3) \<Rightarrow> (rc, if c t3 then append_text n (ascii '' ...'') t3 else t3)))"
    if "bounded n rest 0 t'" for t' p sz c
    using hex [OF that, of p sz] by (auto simp: append split: prod.splits)
  show ?thesis
    unfolding print_nonverbose_def Let_def using t ident
    by (auto simp: ret intro!: hex limited)
qed

lemma memput_zero_bounded: "n < length t \<Longrightarrow> bounded n (drop (n + 1) t) 0 (memput t 0 [0])"
  by (auto simp: bounded_def memput_def intro!: exI [of _ 0])

lemma payload_bounded:
  assumes "n < length t" "n < 2 ^ 31" "databuffer m = Some payload" "datasize m \<le> int (length payload)"
    and "1 \<le> otype" "otype \<le> 5" "n \<noteq> 0"
  shows "\<exists>t'. snd (dlt_message_payload floats False (Some m) (Some t) n otype) = Some t' \<and>
    bounded n (drop (n + 1) t) 0 t'"
proof -
  note t0 = memput_zero_bounded [OF assms(1)]
  have n: "i32 (int n - int 0) = i32 (int n)" by simp
  note hex = hex_string_at_bounded [OF t0 le0 assms(2), unfolded n]
  note mixed = mixed_string_at_bounded [OF t0 assms(2,4)]
  note nonverbose = print_nonverbose_bounded [OF t0 assms(2)]
  have args: "bounded n (drop (n + 1) t) 0 (ps_text (snd (print_arguments (payload_env floats False m payload) n 0 (msg_noar m)
      [0, 0, 0, 0] \<lparr>ps_text = memput t 0 [0], ps_value = 0, ps_length = n, ps_ptr = 0, ps_data = datasize m, ps_unit = (0, 0)\<rparr>)))"
    using t0 assms(2) by (intro print_arguments_inside) (auto simp: payload_env_def)
  show ?thesis
    using assms(3,5-7) hex mixed nonverbose args
    by (auto simp: dlt_message_payload_def Let_def split: prod.splits)
qed

text \<open>A string argument that fills the text buffer is ended one byte behind the buffer.\<close>

lemma string_argument_overruns:
  assumes "0 < len" "len \<le> n" "length t = n" "ps_text s = t" "ps_value s = n - len" "ps_length s = len"
    and "int len \<le> ps_data s" "ps_ptr s + len \<le> length (pe_payload e)"
  shows "length (ps_text (snd (read_string e len s))) = n + 1"
proof -
  have "length (memget (pe_payload e) (ps_ptr s) len) = len" using assms by simp
  with assms show ?thesis by (simp add: read_string_def dlt_clean_string_def memput_def)
qed

section \<open>Properties\<close>

text \<open>
  C25. Printing a payload is safe but for one byte: whatever the message is, \<open>dlt_message_payload\<close>
  with attributes switched off changes only the first \<open>textlength + 1\<close> bytes at \<open>text\<close>, and the text
  it leaves ends inside them. The byte behind \<open>textlength\<close> is needed because a string argument
  that fills the buffer is terminated behind it (\<open>string_argument_overruns\<close>).
\<close>

theorem payload_print_inside:
  assumes "textlength < length t" "0 < textlength" "textlength < 2 ^ 31"
    and "databuffer m = Some payload" "datasize m \<le> int (length payload)" "1 \<le> otype" "otype \<le> 5"
  shows "\<exists>t'. snd (dlt_message_payload floats False (Some m) (Some t) textlength otype) = Some t' \<and>
    length t' = length t \<and> drop (textlength + 1) t' = drop (textlength + 1) t \<and>
    (\<exists>i \<le> textlength. t' ! i = 0)"
proof -
  obtain t' where t': "snd (dlt_message_payload floats False (Some m) (Some t) textlength otype) = Some t'"
    "bounded textlength (drop (textlength + 1) t) 0 t'"
    using payload_bounded [of textlength t m payload otype floats] assms by auto
  then have d: "drop (textlength + 1) t' = drop (textlength + 1) t" "textlength < length t'"
    by (auto simp: bounded_def)
  then have "length t' - (textlength + 1) = length t - (textlength + 1)" by (metis length_drop)
  with d assms(1) have "length t' = length t" by simp
  with t' show ?thesis by (auto simp: bounded_def)
qed

definition example_log_msg :: DltMessage where
  "example_log_msg =
     \<lparr>found_serialheader = False, resync_offset = 0, headersize = 30, datasize = 5,
      headerbuffer = replicate 16 0 @ [0x21, 0, 0, 19] @ [0x41, 1, 0x41, 0, 0, 0, 0x42, 0, 0, 0] @ replicate 12 0,
      databuffer = Some [0x41, 0, 0, 0, 7], databuffersize = 5, storageheader = Some 0, standardheader = Some 16,
      headerextra = \<lparr>ecu = [0, 0, 0, 0], seid = 0, tmsp = 0\<rparr>, extendedheader = Some 20\<rparr>"

theorem payload_print_inside_witness:
  "\<exists>t'. snd (dlt_message_payload (\<lambda>_. [], \<lambda>_. []) False (Some example_log_msg) (Some [9, 9, 9]) 1 2) = Some t' \<and>
    length t' = length ([9, 9, 9] :: byte list) \<and> drop (Suc 1) t' = [9] \<and> (\<exists>i \<le> 1. t' ! i = 0)"
proof -
  have m: "databuffer example_log_msg = Some [0x41, 0, 0, 0, 7]" "datasize example_log_msg = 5"
    by (simp_all add: example_log_msg_def)
  show ?thesis
    using payload_print_inside [of 1 "[9, 9, 9]" example_log_msg "[0x41, 0, 0, 0, 7]" 2 "(\<lambda>_. [], \<lambda>_. [])", OF _ _ _ m(1)]
    by (simp add: m(2))
qed

end
