(* ===== verification/Sorted_Table.thy ===== *)
theory Sorted_Table
  imports Dlt_Text "HOL-Library.Multiset"
begin

text \<open>
  Sorted arrays as the daemon keeps them: \<open>qsort\<close> and \<open>bsearch\<close> of the C library over a
  comparison function, the agreement of \<open>memcmp\<close> with the big-endian value of the bytes, and
  the locale \<open>sorted_table\<close> with what insertion, removal and search give for any entry type whose
  comparison follows an integer key.
\<close>

section \<open>Order of byte strings\<close>

lemma be_val_append: "be_val (xs @ ys) = be_val xs * 256 ^ length ys + be_val ys"
proof -
  have "le_val (a @ b) = le_val a + 256 ^ length a * le_val b" for a b
    by (induction a) (auto simp: algebra_simps)
  from this [of "rev ys" "rev xs"] show ?thesis by (simp add: be_val_def algebra_simps)
qed

lemma be_val_Cons: "be_val (x # xs) = uint x * 256 ^ length xs + be_val xs"
  using be_val_append [of "[x]" xs] by (simp add: be_val_def)

lemma digit_less:
  fixes a b u v B :: int
  assumes "0 \<le> u" "u < B" "0 \<le> v" "v < B" "a < b"
  shows "a * B + u < b * B + v"
proof -
  have "(a + 1) * B \<le> b * B" using assms by (intro mult_right_mono) auto
  then show ?thesis using assms by (simp add: algebra_simps)
qed

lemma digit_less_iff:
  fixes a b u v B :: int
  assumes "0 \<le> u" "u < B" "0 \<le> v" "v < B"
  shows "a * B + u < b * B + v \<longleftrightarrow> a < b \<or> a = b \<and> u < v"
  using digit_less [OF assms, of a b] digit_less [OF assms(3,4,1,2), of b a] by (cases a b rule: linorder_cases) auto

lemma digit_eq_iff:
  fixes a b u v B :: int
  assumes "0 \<le> u" "u < B" "0 \<le> v" "v < B"
  shows "a * B + u = b * B + v \<longleftrightarrow> a = b \<and> u = v"
  using digit_less [OF assms, of a b] digit_less [OF assms(3,4,1,2), of b a] by (cases a b rule: linorder_cases) auto

lemma memcmp_be_val:
  assumes "length xs = length ys"
  shows "(memcmp_bytes xs ys < 0 \<longleftrightarrow> be_val xs < be_val ys) \<and> (memcmp_bytes xs ys = 0 \<longleftrightarrow> be_val xs = be_val ys)"
  using assms
proof (induction xs ys rule: list_induct2)
  case (Cons x xs y ys)
  have b: "0 \<le> be_val xs" "be_val xs < 256 ^ length ys" "0 \<le> be_val ys" "be_val ys < 256 ^ length ys"
    using be_val_bounds [of xs] be_val_bounds [of ys] Cons.hyps by auto
  show ?case
    using Cons digit_less_iff [OF b, of "uint x" "uint y"] digit_eq_iff [OF b, of "uint x" "uint y"]
    by (auto simp: be_val_Cons word_less_def)
qed (simp add: be_val_def)

lemma be_val_inj: "length xs = length ys \<Longrightarrow> be_val xs = be_val ys \<Longrightarrow> xs = ys"
  using le_bytes_le_val [of "rev xs"] le_bytes_le_val [of "rev ys"] by (metis be_val_def length_rev rev_rev_ident)

section \<open>Sorting and searching\<close>

text \<open>\<open>qsort\<close>; the order of equal entries is left open by the library, the tables have none.\<close>

fun insert_by :: "('e \<Rightarrow> 'e \<Rightarrow> int) \<Rightarrow> 'e \<Rightarrow> 'e list \<Rightarrow> 'e list" where
  "insert_by cmp x [] = [x]"
| "insert_by cmp x (y # ys) = (if cmp x y \<le> 0 then x # y # ys else y # insert_by cmp x ys)"

definition qsort :: "('e \<Rightarrow> 'e \<Rightarrow> int) \<Rightarrow> 'e list \<Rightarrow> 'e list" where
  "qsort cmp xs = foldr (insert_by cmp) xs []"

text \<open>\<open>bsearch\<close> between two indices; \<open>cmp\<close> compares the key with an entry.\<close>

function bsearch_between :: "('e \<Rightarrow> int) \<Rightarrow> 'e list \<Rightarrow> nat \<Rightarrow> nat \<Rightarrow> nat option" where
  "bsearch_between cmp xs l u =
     (if l < u then
        let i = (l + u) div 2; c = cmp (xs ! i)
        in if c < 0 then bsearch_between cmp xs l i
           else if c > 0 then bsearch_between cmp xs (i + 1) u
           else Some i
      else None)"
  by pat_completeness auto
termination by (relation "measure (\<lambda>(_, _, l, u). u - l)") auto

declare bsearch_between.simps [simp del]

definition bsearch :: "('e \<Rightarrow> 'e \<Rightarrow> int) \<Rightarrow> 'e \<Rightarrow> 'e list \<Rightarrow> nat option" where
  "bsearch cmp k xs = bsearch_between (cmp k) xs 0 (length xs)"

locale sorted_table =
  fixes cmp :: "'e \<Rightarrow> 'e \<Rightarrow> int" and key :: "'e \<Rightarrow> int" and wf :: "'e \<Rightarrow> bool"
  assumes cmp_less: "wf x \<Longrightarrow> wf y \<Longrightarrow> cmp x y < 0 \<longleftrightarrow> key x < key y"
    and cmp_eq: "wf x \<Longrightarrow> wf y \<Longrightarrow> cmp x y = 0 \<longleftrightarrow> key x = key y"
begin

definition table :: "'e list \<Rightarrow> bool" where
  "table xs \<longleftrightarrow> (\<forall>x \<in> set xs. wf x) \<and> sorted_wrt (\<lambda>x y. key x < key y) xs"

lemma table_Nil [simp]: "table []"
  by (simp add: table_def)

lemma cmp_greater: "wf x \<Longrightarrow> wf y \<Longrightarrow> cmp x y > 0 \<longleftrightarrow> key x > key y"
  using cmp_less [of x y] cmp_eq [of x y] by linarith

lemma table_nth_less: "table xs \<Longrightarrow> i < j \<Longrightarrow> j < length xs \<Longrightarrow> key (xs ! i) < key (xs ! j)"
  by (simp add: table_def sorted_wrt_iff_nth_less)

lemma table_nth_wf: "table xs \<Longrightarrow> i < length xs \<Longrightarrow> wf (xs ! i)"
  by (simp add: table_def)

lemma table_nth_le: "table xs \<Longrightarrow> i \<le> j \<Longrightarrow> j < length xs \<Longrightarrow> key (xs ! i) \<le> key (xs ! j)"
  using table_nth_less [of xs i j] by (cases "i = j") auto

lemma table_nth_inj: "table xs \<Longrightarrow> i < length xs \<Longrightarrow> j < length xs \<Longrightarrow> key (xs ! i) = key (xs ! j) \<Longrightarrow> i = j"
  using table_nth_less [of xs i j] table_nth_less [of xs j i] by (metis less_irrefl linorder_neqE_nat)

lemma bsearch_between_found:
  assumes "table xs" "wf k" "u \<le> length xs" "l \<le> m" "m < u" "key (xs ! m) = key k"
  shows "bsearch_between (cmp k) xs l u = Some m"
  using assms(3-)
proof (induction "u - l" arbitrary: l u rule: less_induct)
  case less
  let ?i = "(l + u) div 2"
  have i: "l \<le> ?i" "?i < u" using less.prems by auto
  have wf: "wf (xs ! ?i)" using assms(1) i less.prems by (intro table_nth_wf) auto
  consider "m < ?i" | "m = ?i" | "?i < m" by linarith
  then show ?case
  proof cases
    case 1
    then have "key k < key (xs ! ?i)" using less.prems i table_nth_less [OF assms(1), of m ?i] by simp
    then show ?thesis using less i 1 wf assms(2) cmp_less [of k "xs ! ?i"]
      by (subst bsearch_between.simps) (auto simp: Let_def)
  next
    case 2
    then show ?thesis using less.prems i wf assms(2) cmp_eq [of k "xs ! ?i"]
      by (subst bsearch_between.simps) (auto simp: Let_def)
  next
    case 3
    then have "key (xs ! ?i) < key k" using less.prems table_nth_less [OF assms(1), of ?i m] by simp
    then show ?thesis using less i 3 wf assms(2) cmp_less [of k "xs ! ?i"] cmp_greater [of k "xs ! ?i"]
      by (subst bsearch_between.simps) (auto simp: Let_def)
  qed
qed

lemma bsearch_between_sound:
  assumes "table xs" "wf k" "u \<le> length xs" "bsearch_between (cmp k) xs l u = Some i"
  shows "i < u \<and> key (xs ! i) = key k"
  using assms(3,4)
proof (induction "u - l" arbitrary: l u rule: less_induct)
  case less
  let ?i = "(l + u) div 2"
  have lu: "l < u" using less.prems by (subst (asm) bsearch_between.simps) (auto split: if_splits)
  have wf: "wf (xs ! ?i)" using assms(1) lu less.prems by (intro table_nth_wf) auto
  have "bsearch_between (cmp k) xs l ?i = Some i \<or> bsearch_between (cmp k) xs (?i + 1) u = Some i \<or>
      i = ?i \<and> cmp k (xs ! ?i) = 0"
    using less.prems lu by (subst (asm) bsearch_between.simps) (auto simp: Let_def split: if_splits)
  moreover have "?i < u" "l \<le> ?i" using lu by auto
  ultimately show ?case
    using less.hyps [of ?i l] less.hyps [of u "?i + 1"] less.prems(1) wf assms(2) cmp_eq [of k "xs ! ?i"] by fastforce
qed

lemma bsearch_Some: "table xs \<Longrightarrow> wf k \<Longrightarrow> bsearch cmp k xs = Some i \<longleftrightarrow> i < length xs \<and> key (xs ! i) = key k"
  using bsearch_between_found [of xs k "length xs" 0 i] bsearch_between_sound [of xs k "length xs" 0 i]
  by (auto simp: bsearch_def)

lemma bsearch_None:
  assumes "table xs" "wf k"
  shows "bsearch cmp k xs = None \<longleftrightarrow> key k \<notin> key ` set xs"
proof (cases "bsearch cmp k xs")
  case None
  have "key (xs ! i) \<noteq> key k" if "i < length xs" for i
    using bsearch_Some [OF assms, of i] None that by simp
  then have "key k \<notin> key ` set xs" by (metis imageE in_set_conv_nth)
  then show ?thesis using None by simp
next
  case (Some i)
  then have "i < length xs" "key (xs ! i) = key k" using bsearch_Some [OF assms] by auto
  then have "key k \<in> key ` set xs" by (metis imageI nth_mem)
  then show ?thesis using Some by simp
qed

lemma insert_by_table:
  assumes "table xs" "wf x" "key x \<notin> key ` set xs"
  shows "table (insert_by cmp x xs) \<and> set (insert_by cmp x xs) = insert x (set xs) \<and> length (insert_by cmp x xs) = length xs + 1"
  using assms
proof (induction xs)
  case (Cons y ys)
  then have y: "wf y" "table ys" "\<forall>z \<in> set ys. key y < key z" "key x \<noteq> key y" by (auto simp: table_def)
  show ?case
  proof (cases "cmp x y \<le> 0")
    case True
    then have "key x < key y" using cmp_less [of x y] cmp_eq [of x y] Cons.prems(2) y by fastforce
    with True Cons.prems y show ?thesis by (auto simp: table_def)
  next
    case False
    then have "key y < key x" using cmp_greater [of x y] Cons.prems(2) y by fastforce
    with False Cons y show ?thesis by (auto simp: table_def)
  qed
qed (simp add: table_def)

lemma qsort_table_id: "table xs \<Longrightarrow> qsort cmp xs = xs"
proof (induction xs)
  case (Cons y ys)
  then have "qsort cmp ys = ys" by (simp add: table_def)
  moreover have "insert_by cmp y ys = y # ys"
    using Cons.prems cmp_less by (cases ys) (auto simp: table_def intro: less_imp_le)
  ultimately show ?case by (simp add: qsort_def)
qed (simp add: qsort_def)

text \<open>Appending an entry and sorting, as the tables do.\<close>

lemma qsort_general:
  assumes "\<forall>x \<in> set xs. wf x" "distinct (map key xs)"
  shows "table (qsort cmp xs) \<and> set (qsort cmp xs) = set xs \<and> length (qsort cmp xs) = length xs"
  using assms
proof (induction xs)
  case (Cons y ys)
  then have IH: "table (qsort cmp ys)" "set (qsort cmp ys) = set ys" "length (qsort cmp ys) = length ys" by simp_all
  then show ?case using insert_by_table [of "qsort cmp ys" y] Cons.prems by (simp add: qsort_def)
qed (simp add: qsort_def)

lemma mset_insert_by: "mset (insert_by cmp x xs) = add_mset x (mset xs)"
  by (induction xs) auto

lemma mset_qsort: "mset (qsort cmp xs) = mset xs"
  by (induction xs) (simp_all add: qsort_def mset_insert_by)

lemma table_distinct: "table xs \<Longrightarrow> distinct (map key xs)"
  by (induction xs) (auto simp: table_def)

lemma qsort_append:
  assumes "table xs" "wf x" "key x \<notin> key ` set xs"
  shows "table (qsort cmp (xs @ [x]))" "set (qsort cmp (xs @ [x])) = insert x (set xs)" "length (qsort cmp (xs @ [x])) = length xs + 1"
  using qsort_general [of "xs @ [x]"] assms table_distinct [OF assms(1)] by (auto simp: table_def)

lemma table_remove:
  assumes "table xs"
  shows "table (take i xs @ drop (i + 1) xs)"
proof (cases "i < length xs")
  case True
  then have xs: "xs = take i xs @ xs ! i # drop (i + 1) xs" by (simp add: id_take_nth_drop)
  from assms have "table (take i xs @ xs ! i # drop (i + 1) xs)" by (subst (asm) xs)
  then show ?thesis unfolding table_def sorted_wrt_append by auto
qed (use assms in simp)

text \<open>Changing entries without changing keys keeps a table.\<close>

lemma table_map: "table xs \<Longrightarrow> (\<And>x. key (f x) = key x) \<Longrightarrow> (\<And>x. wf x \<Longrightarrow> wf (f x)) \<Longrightarrow> table (map f xs)"
  by (auto simp: table_def sorted_wrt_map)

lemma table_update: "table xs \<Longrightarrow> i < length xs \<Longrightarrow> key y = key (xs ! i) \<Longrightarrow> wf y \<Longrightarrow> table (xs[i := y])"
  by (auto simp: table_def sorted_wrt_iff_nth_less nth_list_update dest!: set_update_subset_insert [THEN subsetD])

end

section \<open>Sorted lists by groups\<close>

text \<open>A list sorted by a key is the concatenation of its groups in the order of the keys.\<close>

lemma split_first_group:
  assumes "sorted_wrt (\<lambda>x y. k x \<le> (k y :: int)) xs" "\<forall>x \<in> set xs. c \<le> k x"
  shows "filter (\<lambda>x. k x = c) xs @ filter (\<lambda>x. k x \<noteq> c) xs = xs"
  using assms
proof (induction xs)
  case (Cons x xs)
  show ?case
  proof (cases "k x = c")
    case False
    then have "filter (\<lambda>x. k x = c) xs = []" "filter (\<lambda>x. k x \<noteq> c) xs = xs"
      using Cons.prems by (auto simp: filter_empty_conv intro!: filter_True)
    then show ?thesis using False by simp
  qed (use Cons in simp)
qed simp

lemma sorted_groups:
  assumes "sorted_wrt (\<lambda>x y. k x \<le> (k y :: int)) xs" "sorted_wrt (<) ks" "k ` set xs \<subseteq> set ks"
  shows "concat (map (\<lambda>c. filter (\<lambda>x. k x = c) xs) ks) = xs"
  using assms
proof (induction ks arbitrary: xs)
  case (Cons c cs)
  let ?ys = "filter (\<lambda>x. k x \<noteq> c) xs"
  have first: "filter (\<lambda>x. k x = c) xs @ ?ys = xs" using Cons.prems by (intro split_first_group) fastforce+
  have "concat (map (\<lambda>c. filter (\<lambda>x. k x = c) ?ys) cs) = ?ys"
    using Cons.prems by (intro Cons.IH sorted_wrt_filter) auto
  moreover have "map (\<lambda>c. filter (\<lambda>x. k x = c) ?ys) cs = map (\<lambda>c. filter (\<lambda>x. k x = c) xs) cs"
    using Cons.prems(2) by (auto intro!: filter_cong)
  ultimately have "concat (map (\<lambda>c. filter (\<lambda>x. k x = c) xs) cs) = ?ys" by (simp only:)
  then show ?case using first by (simp only: list.map concat.simps)
qed auto

end
