(* ===== verification/Daemon_Tables.thy ===== *)
theory Daemon_Tables
  imports Sorted_Table
begin

text \<open>
  The registered applications and contexts of the daemon (\<open>src/daemon/dlt_daemon_common.c\<close>). For
  every ECU there is a list of users with an array of applications and an array of contexts.
  Both arrays are kept sorted with \<open>qsort\<close> and searched with \<open>bsearch\<close>. An array is the list of
  its used entries together with the number of entries allocated, which is 0 for a null pointer.
  A pointer to an entry is its index. What the tables have in common is the locale
  \<open>sorted_table\<close>, interpreted here for the two arrays.
\<close>

section \<open>State\<close>

abbreviation (input) DLT_FD_INIT :: int where "DLT_FD_INIT \<equiv> - 1"
abbreviation (input) DLT_FD_MINIMUM :: int where "DLT_FD_MINIMUM \<equiv> 3"
abbreviation (input) DLT_DAEMON_APPL_ALLOC_SIZE :: nat where "DLT_DAEMON_APPL_ALLOC_SIZE \<equiv> 500"
abbreviation (input) DLT_DAEMON_CONTEXT_ALLOC_SIZE :: nat where "DLT_DAEMON_CONTEXT_ALLOC_SIZE \<equiv> 1000"
abbreviation (input) DLT_LOG_DEFAULT :: int where "DLT_LOG_DEFAULT \<equiv> - 1"
abbreviation (input) DLT_LOG_VERBOSE :: int where "DLT_LOG_VERBOSE \<equiv> 6"
abbreviation (input) DLT_TRACE_STATUS_DEFAULT :: int where "DLT_TRACE_STATUS_DEFAULT \<equiv> - 1"
abbreviation (input) DLT_TRACE_STATUS_ON :: int where "DLT_TRACE_STATUS_ON \<equiv> 1"

record DltDaemonApplication =
  a_apid :: "byte list"
  a_pid :: int
  a_user_handle :: int
  a_owns_user_handle :: bool
  a_description :: "byte list option"
  a_num_contexts :: int

record DltDaemonContext =
  x_apid :: "byte list"
  x_ctid :: "byte list"
  x_log_level :: int
  x_trace_status :: int
  x_log_level_pos :: int
  x_user_handle :: int
  x_description :: "byte list option"
  x_storage_log_level :: int
  x_predefined :: bool

record DltDaemonRegisteredUsers =
  applications :: "DltDaemonApplication list"
  applications_cap :: nat
  contexts :: "DltDaemonContext list"
  contexts_cap :: nat
  u_ecu :: "byte list"

record daemon_users =
  user_list :: "DltDaemonRegisteredUsers list"
  own_ecuid :: "byte list"
  default_log_level :: int
  default_trace_status :: int
  force_ll_ts :: bool
  runtime_context_cfg_loaded :: bool
  maintain_logstorage_loglevel :: bool

text \<open>
  Allocations, the content of fresh memory, the build options for the connection to the
  applications and the result of opening the pipe of a process.
\<close>

record table_env =
  first_alloc :: bool
  grow_alloc :: bool
  desc_alloc :: bool
  app_junk :: DltDaemonApplication
  ctx_junk :: DltDaemonContext
  ipc_socket :: bool
  ipc_fifo :: bool
  open_fifo :: "int \<Rightarrow> int"

definition dlt_daemon_cmp_apid :: "DltDaemonApplication \<Rightarrow> DltDaemonApplication \<Rightarrow> int" where
  "dlt_daemon_cmp_apid a b = memcmp_bytes (take 4 (a_apid a)) (take 4 (a_apid b))"

definition dlt_daemon_cmp_apid_ctid :: "DltDaemonContext \<Rightarrow> DltDaemonContext \<Rightarrow> int" where
  "dlt_daemon_cmp_apid_ctid a b =
     (let c = memcmp_bytes (take 4 (x_apid a)) (take 4 (x_apid b))
      in if c < 0 then - 1
         else if c = 0 then memcmp_bytes (take 4 (x_ctid a)) (take 4 (x_ctid b))
         else 1)"

text \<open>\<open>strncmp (a, b, DLT_ID_SIZE) == 0\<close> compares up to the end of the strings.\<close>

fun users_index :: "DltDaemonRegisteredUsers list \<Rightarrow> byte list \<Rightarrow> nat \<Rightarrow> nat option" where
  "users_index [] e i = None"
| "users_index (u # us) e i = (if id4 e = id4 (u_ecu u) then Some i else users_index us e (i + 1))"

definition dlt_daemon_find_users_list :: "daemon_users \<Rightarrow> byte list \<Rightarrow> nat option" where
  "dlt_daemon_find_users_list d ecu = users_index (user_list d) ecu 0"

definition update_users :: "daemon_users \<Rightarrow> nat \<Rightarrow> (DltDaemonRegisteredUsers \<Rightarrow> DltDaemonRegisteredUsers) \<Rightarrow> daemon_users" where
  "update_users d u f = d\<lparr>user_list := (user_list d)[u := f (user_list d ! u)]\<rparr>"

section \<open>Applications\<close>

definition find_in_applications :: "DltDaemonApplication list \<Rightarrow> byte list \<Rightarrow> nat option" where
  "find_in_applications as apid =
     (if as = [] then None
      else if memcmp_bytes (take 4 apid) (take 4 (a_apid (as ! 0))) < 0 \<or>
              memcmp_bytes (take 4 apid) (take 4 (a_apid (as ! (length as - 1)))) > 0 then None
      else bsearch dlt_daemon_cmp_apid ((as ! 0)\<lparr>a_apid := the (dlt_set_id (Some [0, 0, 0, 0]) (Some apid))\<rparr>) as)"

definition dlt_daemon_application_find :: "daemon_users \<Rightarrow> byte list \<Rightarrow> byte list \<Rightarrow> nat option" where
  "dlt_daemon_application_find d apid ecu =
     (if apid ! 0 = 0 then None
      else case dlt_daemon_find_users_list d ecu of
             None \<Rightarrow> None
           | Some u \<Rightarrow> find_in_applications (applications (user_list d ! u)) apid)"

definition dlt_daemon_applications_invalidate_fd :: "daemon_users \<Rightarrow> byte list \<Rightarrow> int \<Rightarrow> int \<times> daemon_users" where
  "dlt_daemon_applications_invalidate_fd d ecu f =
     (case dlt_daemon_find_users_list d ecu of
        None \<Rightarrow> (DLT_RETURN_ERROR, d)
      | Some u \<Rightarrow>
        (DLT_RETURN_OK,
         update_users d u (\<lambda>us. us\<lparr>applications :=
           map (\<lambda>a. if a_user_handle a = f then a\<lparr>a_user_handle := DLT_FD_INIT\<rparr> else a) (applications us)\<rparr>)))"

definition dlt_daemon_contexts_invalidate_fd :: "daemon_users \<Rightarrow> byte list \<Rightarrow> int \<Rightarrow> int \<times> daemon_users" where
  "dlt_daemon_contexts_invalidate_fd d ecu f =
     (case dlt_daemon_find_users_list d ecu of
        None \<Rightarrow> (- 1, d)
      | Some u \<Rightarrow>
        (0, update_users d u (\<lambda>us. us\<lparr>contexts :=
           map (\<lambda>x. if x_user_handle x = f then x\<lparr>x_user_handle := DLT_FD_INIT\<rparr> else x) (contexts us)\<rparr>)))"

definition dlt_daemon_applications_clear :: "daemon_users \<Rightarrow> byte list \<Rightarrow> int \<times> daemon_users" where
  "dlt_daemon_applications_clear d ecu =
     (case dlt_daemon_find_users_list d ecu of
        None \<Rightarrow> (DLT_RETURN_ERROR, d)
      | Some u \<Rightarrow> (0, update_users d u (\<lambda>us. us\<lparr>applications := [], applications_cap := 0\<rparr>)))"

definition dlt_daemon_contexts_clear :: "daemon_users \<Rightarrow> byte list \<Rightarrow> int \<times> daemon_users" where
  "dlt_daemon_contexts_clear d ecu =
     (case dlt_daemon_find_users_list d ecu of
        None \<Rightarrow> (DLT_RETURN_ERROR, d)
      | Some u \<Rightarrow>
        (0, update_users d u (\<lambda>us. us\<lparr>contexts := [], contexts_cap := 0,
              applications := map (\<lambda>a. a\<lparr>a_num_contexts := 0\<rparr>) (applications us)\<rparr>)))"

definition set_application :: "daemon_users \<Rightarrow> nat \<Rightarrow> nat \<Rightarrow> (DltDaemonApplication \<Rightarrow> DltDaemonApplication) \<Rightarrow> daemon_users" where
  "set_application d u i f =
     update_users d u (\<lambda>us. us\<lparr>applications := (applications us)[i := f (applications us ! i)]\<rparr>)"

text \<open>The descriptor that is closed is part of the result.\<close>

definition dlt_daemon_application_reset_user_handle :: "daemon_users \<Rightarrow> nat \<Rightarrow> nat \<Rightarrow> daemon_users \<times> int list" where
  "dlt_daemon_application_reset_user_handle d u i =
     (let app = applications (user_list d ! u) ! i; h = a_user_handle app
      in if h = DLT_FD_INIT then (d, [])
         else
           let d1 = (case dlt_daemon_find_users_list d (own_ecuid d) of
                       None \<Rightarrow> d
                     | Some w \<Rightarrow>
                       update_users d w (\<lambda>us. us\<lparr>contexts :=
                         map (\<lambda>x. if x_user_handle x = h then x\<lparr>x_user_handle := DLT_FD_INIT\<rparr> else x) (contexts us)\<rparr>))
           in (set_application d1 u i (\<lambda>a. a\<lparr>a_user_handle := DLT_FD_INIT, a_owns_user_handle := False\<rparr>),
               if a_owns_user_handle app then [h] else []))"

text \<open>The place of an application: an existing entry, or a new one at the end of the array.\<close>

definition application_slot :: "table_env \<Rightarrow> daemon_users \<Rightarrow> nat \<Rightarrow> byte list \<Rightarrow> byte list \<Rightarrow> (daemon_users \<times> nat \<times> bool) option" where
  "application_slot env d u apid ecu =
     (case dlt_daemon_application_find d apid ecu of
        Some i \<Rightarrow> Some (d, i, False)
      | None \<Rightarrow>
        let us = user_list d ! u; n = length (applications us) + 1;
            grow = (n mod DLT_DAEMON_APPL_ALLOC_SIZE = 0);
            cap = (if grow then (n div DLT_DAEMON_APPL_ALLOC_SIZE + 1) * DLT_DAEMON_APPL_ALLOC_SIZE else applications_cap us);
            new = (app_junk env)\<lparr>a_apid := the (dlt_set_id (Some (a_apid (app_junk env))) (Some apid)), a_pid := 0,
                    a_description := None, a_num_contexts := 0, a_user_handle := DLT_FD_INIT, a_owns_user_handle := False\<rparr>
        in if grow \<and> \<not> grow_alloc env then None
           else Some (update_users d u (\<lambda>us. us\<lparr>applications := applications us @ [new], applications_cap := cap\<rparr>), n - 1, True))"

text \<open>The handle of a process and whether the daemon owns it.\<close>

definition user_handle_for :: "table_env \<Rightarrow> int \<Rightarrow> int \<Rightarrow> int \<times> bool" where
  "user_handle_for env pid f =
     (let h0 = (if ipc_socket env \<and> f \<ge> DLT_FD_MINIMUM then f else DLT_FD_INIT)
      in if ipc_fifo env \<and> h0 < DLT_FD_MINIMUM
         then (open_fifo env pid, open_fifo env pid \<ge> 0)
         else (h0, False))"

text \<open>The new process of an application: its old connection is closed, its new one is opened.\<close>

definition application_connect ::
  "table_env \<Rightarrow> daemon_users \<Rightarrow> nat \<Rightarrow> nat \<Rightarrow> int \<Rightarrow> int \<Rightarrow> byte list \<Rightarrow> daemon_users \<times> int list" where
  "application_connect env d u i pid f ecu =
     (let (d4, closed) = (if a_pid (applications (user_list d ! u) ! i) \<noteq> pid
                          then (case dlt_daemon_application_reset_user_handle d u i of
                                  (x, c) \<Rightarrow> (set_application x u i (\<lambda>a. a\<lparr>a_pid := 0\<rparr>), c))
                          else (d, []))
      in (if a_user_handle (applications (user_list d4 ! u) ! i) = DLT_FD_INIT \<and> pid \<noteq> 0
          then (case user_handle_for env pid f of
                  (h, owns) \<Rightarrow>
                    let x = snd (dlt_daemon_contexts_invalidate_fd
                                   (snd (dlt_daemon_applications_invalidate_fd d4 ecu h)) ecu h)
                    in set_application x u i (\<lambda>a. a\<lparr>a_user_handle := h, a_owns_user_handle := owns, a_pid := pid\<rparr>))
          else d4,
          closed))"

definition dlt_daemon_application_add ::
  "table_env \<Rightarrow> daemon_users \<Rightarrow> byte list \<Rightarrow> int \<Rightarrow> byte list option \<Rightarrow> int \<Rightarrow> byte list \<Rightarrow> nat option \<times> daemon_users \<times> int list" where
  "dlt_daemon_application_add env d apid pid description f ecu =
     (if apid ! 0 = 0 then (None, d, [])
      else case dlt_daemon_find_users_list d ecu of
        None \<Rightarrow> (None, d, [])
      | Some u \<Rightarrow>
        if applications_cap (user_list d ! u) = 0 \<and> \<not> first_alloc env then (None, d, [])
        else
          let d1 = (if applications_cap (user_list d ! u) = 0
                    then update_users d u (\<lambda>us. us\<lparr>applications_cap := DLT_DAEMON_APPL_ALLOC_SIZE\<rparr>) else d)
          in case application_slot env d1 u apid ecu of
               None \<Rightarrow> (None, d1, [])
             | Some (d2, i, new) \<Rightarrow>
               let d3 = set_application d2 u i (\<lambda>a. a\<lparr>a_description := (if desc_alloc env then description else None)\<rparr>)
               in if description \<noteq> None \<and> \<not> desc_alloc env then (None, d3, [])
                  else case application_connect env d3 u i pid f ecu of
                    (d5, closed) \<Rightarrow>
                       if new
                       then let d6 = update_users d5 u (\<lambda>us. us\<lparr>applications := qsort dlt_daemon_cmp_apid (applications us)\<rparr>)
                            in (dlt_daemon_application_find d6 apid ecu, d6, closed)
                       else (Some i, d5, closed))"

definition dlt_daemon_application_del :: "daemon_users \<Rightarrow> nat option \<Rightarrow> byte list \<Rightarrow> int \<times> daemon_users \<times> int list" where
  "dlt_daemon_application_del d application ecu =
     (case (application, dlt_daemon_find_users_list d ecu) of
        (Some i, Some u) \<Rightarrow>
          if applications (user_list d ! u) \<noteq> [] then
            (case dlt_daemon_application_reset_user_handle d u i of
               (d1, closed) \<Rightarrow>
                 (0, update_users d1 u (\<lambda>us. us\<lparr>applications := take i (applications us) @ drop (i + 1) (applications us)\<rparr>), closed))
          else (0, d, [])
      | _ \<Rightarrow> (- 1, d, []))"

section \<open>Contexts\<close>

definition find_in_contexts :: "DltDaemonContext list \<Rightarrow> byte list \<Rightarrow> byte list \<Rightarrow> nat option" where
  "find_in_contexts xs apid ctid =
     (if xs = [] then None
      else if memcmp_bytes (take 4 apid) (take 4 (x_apid (xs ! 0))) < 0 \<or>
              memcmp_bytes (take 4 apid) (take 4 (x_apid (xs ! (length xs - 1)))) > 0 then None
      else bsearch dlt_daemon_cmp_apid_ctid
             ((xs ! 0)\<lparr>x_apid := the (dlt_set_id (Some [0, 0, 0, 0]) (Some apid)),
                       x_ctid := the (dlt_set_id (Some [0, 0, 0, 0]) (Some ctid))\<rparr>) xs)"

definition dlt_daemon_context_find :: "daemon_users \<Rightarrow> byte list \<Rightarrow> byte list \<Rightarrow> byte list \<Rightarrow> nat option" where
  "dlt_daemon_context_find d apid ctid ecu =
     (if apid ! 0 = 0 \<or> ctid ! 0 = 0 then None
      else case dlt_daemon_find_users_list d ecu of
             None \<Rightarrow> None
           | Some u \<Rightarrow> find_in_contexts (contexts (user_list d ! u)) apid ctid)"

definition context_slot ::
  "table_env \<Rightarrow> daemon_users \<Rightarrow> nat \<Rightarrow> nat \<Rightarrow> byte list \<Rightarrow> byte list \<Rightarrow> byte list \<Rightarrow> (daemon_users \<times> nat \<times> bool) option" where
  "context_slot env d u app apid ctid ecu =
     (case dlt_daemon_context_find d apid ctid ecu of
        Some i \<Rightarrow> Some (d, i, False)
      | None \<Rightarrow>
        let us = user_list d ! u; n = length (contexts us) + 1;
            grow = (n mod DLT_DAEMON_CONTEXT_ALLOC_SIZE = 0);
            cap = (if grow then (n div DLT_DAEMON_CONTEXT_ALLOC_SIZE + 1) * DLT_DAEMON_CONTEXT_ALLOC_SIZE else contexts_cap us);
            new = (ctx_junk env)\<lparr>x_apid := the (dlt_set_id (Some (x_apid (ctx_junk env))) (Some apid)),
                    x_ctid := the (dlt_set_id (Some (x_ctid (ctx_junk env))) (Some ctid)), x_description := None\<rparr>
        in if grow \<and> \<not> grow_alloc env then None
           else Some (set_application (update_users d u (\<lambda>us. us\<lparr>contexts := contexts us @ [new], contexts_cap := cap\<rparr>)) u app
                        (\<lambda>a. a\<lparr>a_num_contexts := a_num_contexts a + 1\<rparr>), n - 1, True))"

definition set_context :: "daemon_users \<Rightarrow> nat \<Rightarrow> nat \<Rightarrow> (DltDaemonContext \<Rightarrow> DltDaemonContext) \<Rightarrow> daemon_users" where
  "set_context d u i f = update_users d u (\<lambda>us. us\<lparr>contexts := (contexts us)[i := f (contexts us ! i)]\<rparr>)"

text \<open>What is stored in the entry of a context.\<close>

definition context_fill ::
  "table_env \<Rightarrow> daemon_users \<Rightarrow> bool \<Rightarrow> int \<Rightarrow> int \<Rightarrow> int \<Rightarrow> int \<Rightarrow> byte list option \<Rightarrow> byte list \<Rightarrow> DltDaemonContext \<Rightarrow> DltDaemonContext" where
  "context_fill env d new log_level trace_status log_level_pos user_handle description ecu x =
     (let force = (id4 (own_ecuid d) = id4 ecu \<and> force_ll_ts d);
          ll = (if force \<and> log_level > default_log_level d then default_log_level d else log_level);
          ts = (if force \<and> trace_status > default_trace_status d then default_trace_status d else trace_status)
      in (if new \<or> \<not> runtime_context_cfg_loaded d then x\<lparr>x_log_level := ll, x_trace_status := ts\<rparr> else x)
         \<lparr>x_description := (if desc_alloc env then description else None),
          x_log_level_pos := log_level_pos, x_user_handle := user_handle, x_predefined := (user_handle = 0)\<rparr>)"

definition dlt_daemon_context_add ::
  "table_env \<Rightarrow> daemon_users \<Rightarrow> byte list \<Rightarrow> byte list \<Rightarrow> int \<Rightarrow> int \<Rightarrow> int \<Rightarrow> int \<Rightarrow> byte list option \<Rightarrow> byte list \<Rightarrow>
   nat option \<times> daemon_users" where
  "dlt_daemon_context_add env d apid ctid log_level trace_status log_level_pos user_handle description ecu =
     (if apid ! 0 = 0 \<or> ctid ! 0 = 0 then (None, d)
      else if log_level < DLT_LOG_DEFAULT \<or> log_level > DLT_LOG_VERBOSE then (None, d)
      else if trace_status < DLT_TRACE_STATUS_DEFAULT \<or> trace_status > DLT_TRACE_STATUS_ON then (None, d)
      else case dlt_daemon_find_users_list d ecu of
        None \<Rightarrow> (None, d)
      | Some u \<Rightarrow>
        if contexts_cap (user_list d ! u) = 0 \<and> \<not> first_alloc env then (None, d)
        else
          let d1 = (if contexts_cap (user_list d ! u) = 0
                    then update_users d u (\<lambda>us. us\<lparr>contexts_cap := DLT_DAEMON_CONTEXT_ALLOC_SIZE\<rparr>) else d)
          in case dlt_daemon_application_find d1 apid ecu of
               None \<Rightarrow> (None, d1)
             | Some app \<Rightarrow>
               (case context_slot env d1 u app apid ctid ecu of
                  None \<Rightarrow> (None, d1)
                | Some (d2, i, new) \<Rightarrow>
                  let d3 = set_context d2 u i (context_fill env d2 new log_level trace_status log_level_pos user_handle description ecu)
                  in if new
                     then let d4 = update_users d3 u (\<lambda>us. us\<lparr>contexts := qsort dlt_daemon_cmp_apid_ctid (contexts us)\<rparr>)
                          in (dlt_daemon_context_find d4 apid ctid ecu, d4)
                     else (Some i, d3)))"

definition dlt_daemon_context_del :: "daemon_users \<Rightarrow> nat option \<Rightarrow> byte list \<Rightarrow> int \<times> daemon_users" where
  "dlt_daemon_context_del d context ecu =
     (case (context, dlt_daemon_find_users_list d ecu) of
        (Some i, Some u) \<Rightarrow>
          if contexts (user_list d ! u) \<noteq> [] then
            let app = dlt_daemon_application_find d (x_apid (contexts (user_list d ! u) ! i)) ecu;
                d1 = update_users d u (\<lambda>us. us\<lparr>contexts := take i (contexts us) @ drop (i + 1) (contexts us)\<rparr>)
            in (0, case app of None \<Rightarrow> d1 | Some a \<Rightarrow> set_application d1 u a (\<lambda>x. x\<lparr>a_num_contexts := a_num_contexts x - 1\<rparr>))
          else (0, d)
      | _ \<Rightarrow> (- 1, d))"

section \<open>Log levels for the applications\<close>

text \<open>The level and the trace status that \<open>dlt_daemon_user_send_log_level\<close> sends for a context.\<close>

definition sent_log_level :: "daemon_users \<Rightarrow> DltDaemonContext \<Rightarrow> nat" where
  "sent_log_level d x =
     u8 (if x_storage_log_level x \<noteq> DLT_LOG_DEFAULT \<and> maintain_logstorage_loglevel d
         then (if x_log_level x > x_storage_log_level x then x_log_level x else x_storage_log_level x)
         else if x_log_level x = DLT_LOG_DEFAULT then default_log_level d else x_log_level x)"

definition sent_trace_status :: "daemon_users \<Rightarrow> DltDaemonContext \<Rightarrow> nat" where
  "sent_trace_status d x = u8 (if x_trace_status x = DLT_TRACE_STATUS_DEFAULT then default_trace_status d else x_trace_status x)"

section \<open>The arrays as sorted tables\<close>

text \<open>An identifier as \<open>dlt_set_id\<close> stores it that is not empty.\<close>

definition valid_id :: "byte list \<Rightarrow> bool" where
  "valid_id i \<longleftrightarrow> id4 i = i \<and> i ! 0 \<noteq> 0"

definition akey :: "DltDaemonApplication \<Rightarrow> int" where
  "akey a = be_val (a_apid a)"

definition xkey :: "DltDaemonContext \<Rightarrow> int" where
  "xkey x = be_val (x_apid x @ x_ctid x)"

definition app_wf :: "DltDaemonApplication \<Rightarrow> bool" where
  "app_wf a \<longleftrightarrow> valid_id (a_apid a)"

definition ctx_wf :: "DltDaemonContext \<Rightarrow> bool" where
  "ctx_wf x \<longleftrightarrow> valid_id (x_apid x) \<and> valid_id (x_ctid x)"

lemma valid_id_length [simp]: "valid_id i \<Longrightarrow> length i = 4"
  using length_id4 [of i] by (simp add: valid_id_def)

lemma id4_valid: "valid_id i \<Longrightarrow> id4 i = i"
  by (simp add: valid_id_def)

lemma set_id_valid: "valid_id i \<Longrightarrow> length d = 4 \<Longrightarrow> dlt_set_id (Some d) (Some i) = Some i"
  using set_id_id4 [of d i] by (simp add: readable_id_def id4_valid)

lemma xkey_less:
  assumes "ctx_wf x" "ctx_wf y"
  shows "xkey x < xkey y \<longleftrightarrow> be_val (x_apid x) < be_val (x_apid y) \<or> x_apid x = x_apid y \<and> be_val (x_ctid x) < be_val (x_ctid y)"
    and "xkey x = xkey y \<longleftrightarrow> x_apid x = x_apid y \<and> x_ctid x = x_ctid y"
proof -
  have b: "0 \<le> be_val (x_ctid x)" "be_val (x_ctid x) < 256 ^ 4" "0 \<le> be_val (x_ctid y)" "be_val (x_ctid y) < 256 ^ 4"
    using be_val_bounds [of "x_ctid x"] be_val_bounds [of "x_ctid y"] assms by (simp_all add: ctx_wf_def)
  have l: "length (x_apid x) = 4" "length (x_apid y) = 4" "length (x_ctid x) = 4" "length (x_ctid y) = 4"
    using assms by (simp_all add: ctx_wf_def)
  show "xkey x < xkey y \<longleftrightarrow> be_val (x_apid x) < be_val (x_apid y) \<or> x_apid x = x_apid y \<and> be_val (x_ctid x) < be_val (x_ctid y)"
    using digit_less_iff [OF b] l be_val_inj [of "x_apid x" "x_apid y"] by (auto simp: xkey_def be_val_append)
  show "xkey x = xkey y \<longleftrightarrow> x_apid x = x_apid y \<and> x_ctid x = x_ctid y"
    using l be_val_inj [of "x_apid x @ x_ctid x" "x_apid y @ x_ctid y"] by (auto simp: xkey_def)
qed

interpretation apps: sorted_table dlt_daemon_cmp_apid akey app_wf
  by unfold_locales
    (simp_all add: dlt_daemon_cmp_apid_def akey_def app_wf_def memcmp_be_val [THEN conjunct1] memcmp_be_val [THEN conjunct2])

lemma cmp_ctx_key:
  assumes "ctx_wf x" "ctx_wf y"
  shows "(dlt_daemon_cmp_apid_ctid x y < 0 \<longleftrightarrow> xkey x < xkey y) \<and> (dlt_daemon_cmp_apid_ctid x y = 0 \<longleftrightarrow> xkey x = xkey y)"
proof -
  have l: "length (x_apid x) = 4" "length (x_apid y) = 4" "length (x_ctid x) = 4" "length (x_ctid y) = 4"
    using assms by (simp_all add: ctx_wf_def)
  then have e: "be_val (x_apid x) = be_val (x_apid y) \<longleftrightarrow> x_apid x = x_apid y"
      "be_val (x_ctid x) = be_val (x_ctid y) \<longleftrightarrow> x_ctid x = x_ctid y"
    using be_val_inj by auto
  show ?thesis
    using memcmp_be_val [of "x_apid x" "x_apid y"] memcmp_be_val [of "x_ctid x" "x_ctid y"] l e
    unfolding xkey_less [OF assms] by (auto simp: dlt_daemon_cmp_apid_ctid_def Let_def)
qed

interpretation ctxs: sorted_table dlt_daemon_cmp_apid_ctid xkey ctx_wf
  by unfold_locales (simp_all add: cmp_ctx_key)

lemma akey_eq: "app_wf a \<Longrightarrow> app_wf b \<Longrightarrow> akey a = akey b \<longleftrightarrow> a_apid a = a_apid b"
  using be_val_inj [of "a_apid a" "a_apid b"] by (auto simp: akey_def app_wf_def)

text \<open>The test of the ends of the array does not hide an entry.\<close>

lemma find_in_applications_Some:
  assumes t: "apps.table as" and v: "valid_id apid"
  shows "find_in_applications as apid = Some i \<longleftrightarrow> i < length as \<and> a_apid (as ! i) = apid"
proof (cases "as = []")
  case False
  define k where "k = (as ! 0)\<lparr>a_apid := apid\<rparr>"
  have k: "app_wf k" "akey k = be_val apid" "a_apid k = apid" using v by (simp_all add: k_def app_wf_def akey_def)
  have eq: "bsearch dlt_daemon_cmp_apid k as = Some i \<longleftrightarrow> i < length as \<and> a_apid (as ! i) = apid"
    using apps.bsearch_Some [OF t k(1), of i] akey_eq [of "as ! i" k] apps.table_nth_wf [OF t, of i] k by auto
  have len: "length (a_apid (as ! j)) = 4" if "j < length as" for j
    using apps.table_nth_wf [OF t that] by (simp add: app_wf_def)
  have ends: "memcmp_bytes apid (a_apid (as ! 0)) \<ge> 0" "memcmp_bytes apid (a_apid (as ! (length as - 1))) \<le> 0"
    if "i < length as" "a_apid (as ! i) = apid"
    using that v False le_diff_conv2 [of 1 "length as" i]
      apps.table_nth_le [OF t, of 0 i] apps.table_nth_le [OF t, of i "length as - 1"]
      memcmp_be_val [of apid "a_apid (as ! 0)"] memcmp_be_val [of apid "a_apid (as ! (length as - 1))"] len
    by (auto simp: akey_def)
  show ?thesis
    using False v eq ends len [of 0] len [of "length as - 1"] set_id_valid [OF v, of "[0, 0, 0, 0]"]
    by (auto simp: find_in_applications_def simp flip: k_def)
qed (simp add: find_in_applications_def)

lemma find_in_contexts_Some:
  assumes t: "ctxs.table xs" and v: "valid_id apid" "valid_id ctid"
  shows "find_in_contexts xs apid ctid = Some i \<longleftrightarrow> i < length xs \<and> x_apid (xs ! i) = apid \<and> x_ctid (xs ! i) = ctid"
proof (cases "xs = []")
  case False
  define k where "k = (xs ! 0)\<lparr>x_apid := apid, x_ctid := ctid\<rparr>"
  have k: "ctx_wf k" "x_apid k = apid" "x_ctid k = ctid" using v by (simp_all add: k_def ctx_wf_def)
  have eq: "bsearch dlt_daemon_cmp_apid_ctid k xs = Some i \<longleftrightarrow> i < length xs \<and> x_apid (xs ! i) = apid \<and> x_ctid (xs ! i) = ctid"
    using ctxs.bsearch_Some [OF t k(1), of i] xkey_less(2) [of "xs ! i" k] ctxs.table_nth_wf [OF t, of i] k by auto
  have len: "length (x_apid (xs ! j)) = 4" if "j < length xs" for j
    using ctxs.table_nth_wf [OF t that] by (simp add: ctx_wf_def)
  have le: "be_val (x_apid (xs ! j)) \<le> be_val (x_apid (xs ! l))" if "j \<le> l" "l < length xs" for j l
    using ctxs.table_nth_le [OF t that] xkey_less [of "xs ! l" "xs ! j"] xkey_less [of "xs ! j" "xs ! l"]
      ctxs.table_nth_wf [OF t, of j] ctxs.table_nth_wf [OF t, of l] that by auto
  have ends: "memcmp_bytes apid (x_apid (xs ! 0)) \<ge> 0" "memcmp_bytes apid (x_apid (xs ! (length xs - 1))) \<le> 0"
    if "i < length xs" "x_apid (xs ! i) = apid"
    using that v False le_diff_conv2 [of 1 "length xs" i] le [of 0 i] le [of i "length xs - 1"]
      memcmp_be_val [of apid "x_apid (xs ! 0)"] memcmp_be_val [of apid "x_apid (xs ! (length xs - 1))"] len
    by auto
  show ?thesis
    using False v eq ends len [of 0] len [of "length xs - 1"] set_id_valid [OF v(1), of "[0, 0, 0, 0]"] set_id_valid [OF v(2), of "[0, 0, 0, 0]"]
    by (auto simp: find_in_contexts_def simp flip: k_def)
qed (simp add: find_in_contexts_def)

end
