(* ===== verification/Daemon_Registry.thy ===== *)
theory Daemon_Registry
  imports Daemon_Tables
begin

text \<open>
  What the daemon's tables of applications and contexts promise: both arrays stay sorted and
  without duplicates, every index that is written is allocated, the counter of an application
  is the number of its contexts, and the operations of \<open>src/daemon/dlt_daemon_common.c\<close> and the
  handler that unregisters an application change exactly the entries they name.
\<close>

section \<open>Invariant\<close>

text \<open>Room for one more entry, or no array at all.\<close>

definition cap_ok :: "nat \<Rightarrow> nat \<Rightarrow> nat \<Rightarrow> bool" where
  "cap_ok s c n \<longleftrightarrow> (if c = 0 then n = 0 else n div s * s + s \<le> c)"

definition users_core :: "DltDaemonRegisteredUsers \<Rightarrow> bool" where
  "users_core us \<longleftrightarrow>
     (\<forall>a \<in> set (applications us). valid_id (a_apid a) \<and>
        a_num_contexts a = int (count (mset (map x_apid (contexts us))) (a_apid a))) \<and>
     (\<forall>x \<in> set (contexts us). valid_id (x_apid x) \<and> valid_id (x_ctid x) \<and> x_apid x \<in> a_apid ` set (applications us)) \<and>
     cap_ok DLT_DAEMON_APPL_ALLOC_SIZE (applications_cap us) (length (applications us)) \<and>
     cap_ok DLT_DAEMON_CONTEXT_ALLOC_SIZE (contexts_cap us) (length (contexts us))"

definition users_ok :: "DltDaemonRegisteredUsers \<Rightarrow> bool" where
  "users_ok us \<longleftrightarrow> users_core us \<and> apps.table (applications us) \<and> ctxs.table (contexts us)"

definition tables_ok :: "daemon_users \<Rightarrow> bool" where
  "tables_ok d \<longleftrightarrow> (\<forall>us \<in> set (user_list d). users_ok us)"

text \<open>The part of a state the invariant looks at.\<close>

definition app_ids :: "DltDaemonRegisteredUsers \<Rightarrow> (byte list \<times> int) list" where
  "app_ids us = map (\<lambda>a. (a_apid a, a_num_contexts a)) (applications us)"

definition ctx_ids :: "DltDaemonRegisteredUsers \<Rightarrow> (byte list \<times> byte list) list" where
  "ctx_ids us = map (\<lambda>x. (x_apid x, x_ctid x)) (contexts us)"

definition shape where
  "shape us = (app_ids us, applications_cap us, ctx_ids us, contexts_cap us, u_ecu us)"

definition same_tables :: "daemon_users \<Rightarrow> daemon_users \<Rightarrow> bool" where
  "same_tables d d' \<longleftrightarrow> map shape (user_list d') = map shape (user_list d) \<and> own_ecuid d' = own_ecuid d"

lemma users_core_ids:
  "users_core us \<longleftrightarrow>
     (\<forall>p \<in> set (app_ids us). valid_id (fst p) \<and> snd p = int (count (mset (map fst (ctx_ids us))) (fst p))) \<and>
     (\<forall>q \<in> set (ctx_ids us). valid_id (fst q) \<and> valid_id (snd q) \<and> fst q \<in> fst ` set (app_ids us)) \<and>
     cap_ok DLT_DAEMON_APPL_ALLOC_SIZE (applications_cap us) (length (app_ids us)) \<and>
     cap_ok DLT_DAEMON_CONTEXT_ALLOC_SIZE (contexts_cap us) (length (ctx_ids us))"
  by (simp add: users_core_def app_ids_def ctx_ids_def comp_def image_image)

lemma app_table_ids: "apps.table (applications us) \<longleftrightarrow>
    (\<forall>p \<in> set (app_ids us). valid_id (fst p)) \<and> sorted_wrt (\<lambda>p q. be_val (fst p) < be_val (fst q)) (app_ids us)"
  by (simp add: app_ids_def apps.table_def sorted_wrt_map app_wf_def akey_def)

lemma ctx_table_ids: "ctxs.table (contexts us) \<longleftrightarrow>
    (\<forall>p \<in> set (ctx_ids us). valid_id (fst p) \<and> valid_id (snd p)) \<and>
    sorted_wrt (\<lambda>p q. be_val (fst p @ snd p) < be_val (fst q @ snd q)) (ctx_ids us)"
  by (simp add: ctx_ids_def ctxs.table_def sorted_wrt_map ctx_wf_def xkey_def)

lemma users_ok_shape: "shape us = shape us' \<Longrightarrow> users_ok us = users_ok us'"
  by (simp add: users_ok_def users_core_ids app_table_ids ctx_table_ids shape_def)

lemma same_tables_refl [simp, intro]: "same_tables d d"
  by (simp add: same_tables_def)

lemma same_tables_trans: "same_tables d d' \<Longrightarrow> same_tables d' d'' \<Longrightarrow> same_tables d d''"
  by (simp add: same_tables_def)

lemma same_tables_length: "same_tables d d' \<Longrightarrow> length (user_list d') = length (user_list d)"
  by (auto simp: same_tables_def dest: map_eq_imp_length_eq)

lemma same_tables_nth:
  assumes "same_tables d d'" "u < length (user_list d)"
  shows "shape (user_list d' ! u) = shape (user_list d ! u)"
proof -
  from assms(1) have "map shape (user_list d') ! u = map shape (user_list d) ! u" by (simp add: same_tables_def)
  then show ?thesis using same_tables_length [OF assms(1)] assms(2) by simp
qed

lemma same_tables_ok: "same_tables d d' \<Longrightarrow> tables_ok d' = tables_ok d"
  using users_ok_shape [OF same_tables_nth [of d d']] same_tables_length [of d d']
  by (auto simp: tables_ok_def all_set_conv_all_nth)

lemma same_tables_apid:
  assumes "same_tables d d'" "u < length (user_list d)"
  shows "length (applications (user_list d' ! u)) = length (applications (user_list d ! u))"
    and "map a_apid (applications (user_list d' ! u)) = map a_apid (applications (user_list d ! u))"
proof -
  have e: "app_ids (user_list d' ! u) = app_ids (user_list d ! u)"
    using same_tables_nth [OF assms] by (simp add: shape_def)
  from arg_cong [OF e, of length] show "length (applications (user_list d' ! u)) = length (applications (user_list d ! u))"
    by (simp add: app_ids_def)
  from arg_cong [OF e, of "map fst"] show "map a_apid (applications (user_list d' ! u)) = map a_apid (applications (user_list d ! u))"
    by (simp add: app_ids_def comp_def)
qed

section \<open>Updates\<close>

lemma own_ecuid_update [simp]: "own_ecuid (update_users d u f) = own_ecuid d"
  by (simp add: update_users_def)

lemma length_update_users [simp]: "length (user_list (update_users d u f)) = length (user_list d)"
  by (simp add: update_users_def)

lemma nth_update_users: "v < length (user_list d) \<Longrightarrow>
    user_list (update_users d u f) ! v = (if u = v then f (user_list d ! v) else user_list d ! v)"
  by (simp add: update_users_def nth_list_update)

lemma same_tables_update:
  assumes "\<And>us. shape (f us) = shape us"
  shows "same_tables d (update_users d u f)"
proof -
  have "map shape (user_list (update_users d u f)) = map shape (user_list d)"
    by (rule nth_equalityI) (auto simp: nth_update_users assms)
  then show ?thesis by (simp add: same_tables_def)
qed

lemma tables_ok_update:
  assumes "tables_ok d" "u < length (user_list d) \<Longrightarrow> users_ok (user_list d ! u) \<Longrightarrow> users_ok (f (user_list d ! u))"
  shows "tables_ok (update_users d u f)"
  using assms unfolding tables_ok_def all_set_conv_all_nth by (auto simp: nth_update_users)

lemma map_update_same: "g (f (xs ! i)) = g (xs ! i) \<Longrightarrow> map g (xs[i := f (xs ! i)]) = map g xs"
  by (metis list_update_id map_update)

lemma shape_set_application:
  assumes "a_apid (f (applications us ! i)) = a_apid (applications us ! i)"
    "a_num_contexts (f (applications us ! i)) = a_num_contexts (applications us ! i)"
  shows "shape (us\<lparr>applications := (applications us)[i := f (applications us ! i)]\<rparr>) = shape us"
  using assms map_update_same [of "\<lambda>a. (a_apid a, a_num_contexts a)" f "applications us" i]
  by (simp add: shape_def app_ids_def ctx_ids_def)

lemma same_tables_set_application [simp]:
  assumes "\<And>a. a_apid (f a) = a_apid a" "\<And>a. a_num_contexts (f a) = a_num_contexts a"
  shows "same_tables d (set_application d u i f)"
  unfolding set_application_def by (intro same_tables_update shape_set_application assms)

lemma same_tables_map_contexts [simp]:
  assumes "\<And>x. x_apid (f x) = x_apid x" "\<And>x. x_ctid (f x) = x_ctid x"
  shows "same_tables d (update_users d u (\<lambda>us. us\<lparr>contexts := map f (contexts us)\<rparr>))"
  by (rule same_tables_update) (simp add: shape_def app_ids_def ctx_ids_def assms comp_def)

lemma same_tables_map_applications [simp]:
  assumes "\<And>x. a_apid (f x) = a_apid x" "\<And>x. a_num_contexts (f x) = a_num_contexts x"
  shows "same_tables d (update_users d u (\<lambda>us. us\<lparr>applications := map f (applications us)\<rparr>))"
  by (rule same_tables_update) (simp add: shape_def app_ids_def ctx_ids_def assms comp_def)

lemma users_index_bounds: "users_index us e i = Some j \<Longrightarrow> i \<le> j \<and> j < i + length us"
  by (induction us arbitrary: i) (auto split: if_splits, fastforce+)

lemma find_users_bounds: "dlt_daemon_find_users_list d e = Some u \<Longrightarrow> u < length (user_list d)"
  using users_index_bounds [of "user_list d" e 0 u] by (simp add: dlt_daemon_find_users_list_def)

lemma users_index_ecus: "map u_ecu us = map u_ecu vs \<Longrightarrow> users_index us e i = users_index vs e i"
proof (induction us arbitrary: vs i)
  case (Cons a us)
  then obtain b ws where "vs = b # ws" "u_ecu a = u_ecu b" "map u_ecu us = map u_ecu ws" by (cases vs) auto
  then show ?case using Cons.IH by auto
qed simp

lemma find_users_ecus: "map u_ecu (user_list d) = map u_ecu (user_list d') \<Longrightarrow>
    dlt_daemon_find_users_list d e = dlt_daemon_find_users_list d' e"
  unfolding dlt_daemon_find_users_list_def by (rule users_index_ecus)

lemma ecus_update [simp]: "(\<And>us. u_ecu (f us) = u_ecu us) \<Longrightarrow> map u_ecu (user_list (update_users d u f)) = map u_ecu (user_list d)"
  by (rule nth_equalityI) (auto simp: nth_update_users)

lemma same_tables_ecus: "same_tables d d' \<Longrightarrow> map u_ecu (user_list d') = map u_ecu (user_list d)"
  using same_tables_length [of d d'] same_tables_nth [of d d'] by (auto intro!: nth_equalityI simp: shape_def)

lemma same_tables_find_users: "same_tables d d' \<Longrightarrow> dlt_daemon_find_users_list d' e = dlt_daemon_find_users_list d e"
  by (rule find_users_ecus) (rule same_tables_ecus)

abbreviation (input) apps_of :: "daemon_users \<Rightarrow> nat \<Rightarrow> DltDaemonApplication list" where
  "apps_of d u \<equiv> applications (user_list d ! u)"

abbreviation (input) ctxs_of :: "daemon_users \<Rightarrow> nat \<Rightarrow> DltDaemonContext list" where
  "ctxs_of d u \<equiv> contexts (user_list d ! u)"

lemma apps_of_set_application:
  "u < length (user_list d) \<Longrightarrow> apps_of (set_application d u i f) u = (apps_of d u)[i := f (apps_of d u ! i)]"
  by (simp add: set_application_def nth_update_users)

lemma length_set_application [simp]: "length (user_list (set_application d u i f)) = length (user_list d)"
  by (simp add: set_application_def)

lemma ctxs_of_set_application [simp]: "v < length (user_list d) \<Longrightarrow> ctxs_of (set_application d u i f) v = ctxs_of d v"
  by (simp add: set_application_def nth_update_users)

definition app_texts :: "daemon_users \<Rightarrow> nat \<Rightarrow> (byte list \<times> byte list option) list" where
  "app_texts d u = map (\<lambda>a. (a_apid a, a_description a)) (apps_of d u)"

lemma reset_user_handle_spec:
  assumes u: "u < length (user_list d)" and i: "i < length (apps_of d u)"
    and r: "dlt_daemon_application_reset_user_handle d u i = (d', c)"
  shows "same_tables d d'"
    and "apps_of d' u = (apps_of d u)[i := (apps_of d u ! i)\<lparr>a_user_handle := DLT_FD_INIT,
           a_owns_user_handle := (a_user_handle (apps_of d u ! i) = DLT_FD_INIT \<and> a_owns_user_handle (apps_of d u ! i))\<rparr>]"
proof -
  define h where "h = a_user_handle (apps_of d u ! i)"
  let ?inv = "\<lambda>x. if x_user_handle x = h then x\<lparr>x_user_handle := DLT_FD_INIT\<rparr> else x"
  let ?f = "\<lambda>a. a\<lparr>a_user_handle := DLT_FD_INIT, a_owns_user_handle := False\<rparr>"
  define d1 where "d1 = (case dlt_daemon_find_users_list d (own_ecuid d) of None \<Rightarrow> d
      | Some w \<Rightarrow> update_users d w (\<lambda>us. us\<lparr>contexts := map ?inv (contexts us)\<rparr>))"
  have d': "d' = (if h = DLT_FD_INIT then d else set_application d1 u i ?f)"
    using r unfolding d1_def h_def by (auto simp: dlt_daemon_application_reset_user_handle_def Let_def split: if_splits)
  have same: "same_tables d d1" by (simp add: d1_def split: option.split)
  moreover have "same_tables d1 (set_application d1 u i ?f)" by simp
  ultimately show "same_tables d d'" using same_tables_trans by (auto simp: d')
  have l: "u < length (user_list d1)" using same_tables_length [OF same] u by simp
  have a: "apps_of d1 u = apps_of d u" using u by (simp add: d1_def nth_update_users split: option.split)
  show "apps_of d' u = (apps_of d u)[i := (apps_of d u ! i)\<lparr>a_user_handle := DLT_FD_INIT,
           a_owns_user_handle := (a_user_handle (apps_of d u ! i) = DLT_FD_INIT \<and> a_owns_user_handle (apps_of d u ! i))\<rparr>]"
  proof (cases "h = DLT_FD_INIT")
    case True
    then have "(apps_of d u ! i)\<lparr>a_user_handle := DLT_FD_INIT, a_owns_user_handle := a_owns_user_handle (apps_of d u ! i)\<rparr> = apps_of d u ! i"
      by (cases "apps_of d u ! i") (simp add: h_def)
    then show ?thesis using True by (simp only: d' h_def if_True True_implies_equals simp_thms list_update_id)
  qed (use l i a in \<open>simp add: d' apps_of_set_application h_def\<close>)
qed

lemma invalidate_applications:
  assumes "dlt_daemon_find_users_list d ecu = Some u"
  shows "same_tables d (snd (dlt_daemon_applications_invalidate_fd d ecu f))"
    and "apps_of (snd (dlt_daemon_applications_invalidate_fd d ecu f)) u =
         map (\<lambda>a. if a_user_handle a = f then a\<lparr>a_user_handle := DLT_FD_INIT\<rparr> else a) (apps_of d u)"
  using assms find_users_bounds [OF assms] by (simp_all add: dlt_daemon_applications_invalidate_fd_def nth_update_users)

lemma invalidate_contexts:
  assumes "dlt_daemon_find_users_list d ecu = Some u"
  shows "same_tables d (snd (dlt_daemon_contexts_invalidate_fd d ecu f))"
    and "apps_of (snd (dlt_daemon_contexts_invalidate_fd d ecu f)) u = apps_of d u"
  using assms find_users_bounds [OF assms] by (simp_all add: dlt_daemon_contexts_invalidate_fd_def nth_update_users)

lemma close_connection_spec:
  assumes u: "u < length (user_list d)" and i: "i < length (apps_of d u)"
    and r: "(if a_pid (apps_of d u ! i) \<noteq> pid
             then (case dlt_daemon_application_reset_user_handle d u i of (x, c) \<Rightarrow> (set_application x u i (\<lambda>a. a\<lparr>a_pid := 0\<rparr>), c))
             else (d, [])) = (d4, closed)"
  shows "same_tables d d4 \<and> app_texts d4 u = app_texts d u \<and>
    (a_pid (apps_of d4 u ! i) = pid \<or> a_pid (apps_of d4 u ! i) = 0 \<and> a_user_handle (apps_of d4 u ! i) = DLT_FD_INIT)"
proof (cases "a_pid (apps_of d u ! i) = pid")
  case False
  obtain x c where x: "dlt_daemon_application_reset_user_handle d u i = (x, c)" by fastforce
  have d4: "d4 = set_application x u i (\<lambda>a. a\<lparr>a_pid := 0\<rparr>)" using r False x by simp
  note s = reset_user_handle_spec [OF u i x]
  have "u < length (user_list x)" using same_tables_length [OF s(1)] u by simp
  then have "same_tables x d4" "apps_of d4 u = (apps_of x u)[i := (apps_of x u ! i)\<lparr>a_pid := 0\<rparr>]"
    by (simp_all add: d4 apps_of_set_application)
  moreover have "app_texts d4 u = app_texts x u"
    using map_update_same [of "\<lambda>a. (a_apid a, a_description a)" "\<lambda>a. a\<lparr>a_pid := 0\<rparr>" "apps_of x u" i] calculation(2) by (simp add: app_texts_def)
  moreover have "app_texts x u = app_texts d u"
    using map_update_same [of "\<lambda>a. (a_apid a, a_description a)" "\<lambda>a. a\<lparr>a_user_handle := DLT_FD_INIT,
      a_owns_user_handle := (a_user_handle (apps_of d u ! i) = DLT_FD_INIT \<and> a_owns_user_handle (apps_of d u ! i))\<rparr>" "apps_of d u" i] s(2)
    by (simp add: app_texts_def)
  ultimately show ?thesis using s i same_tables_trans [OF s(1)] by simp
qed (use r in auto)

lemma application_connect_spec:
  assumes ecu: "dlt_daemon_find_users_list d ecu = Some u" and i: "i < length (apps_of d u)"
    and r: "application_connect env d u i pid f ecu = (d', c)"
  shows "same_tables d d' \<and> a_pid (apps_of d' u ! i) = pid \<and> app_texts d' u = app_texts d u"
proof -
  obtain d4 c4 where d4: "(if a_pid (apps_of d u ! i) \<noteq> pid
             then (case dlt_daemon_application_reset_user_handle d u i of (x, c) \<Rightarrow> (set_application x u i (\<lambda>a. a\<lparr>a_pid := 0\<rparr>), c))
             else (d, [])) = (d4, c4)" by fastforce
  have u: "u < length (user_list d)" using ecu by (rule find_users_bounds)
  note s = close_connection_spec [OF u i d4]
  have ecu4: "dlt_daemon_find_users_list d4 ecu = Some u" using same_tables_find_users [of d d4] s ecu by simp
  have i4: "i < length (apps_of d4 u)" using same_tables_apid(1) [of d d4 u] s u i by simp
  obtain h owns where h: "user_handle_for env pid f = (h, owns)" by fastforce
  define x1 where "x1 = snd (dlt_daemon_applications_invalidate_fd d4 ecu h)"
  define x2 where "x2 = snd (dlt_daemon_contexts_invalidate_fd x1 ecu h)"
  note s1 = invalidate_applications [OF ecu4, of h, folded x1_def]
  have ecu1: "dlt_daemon_find_users_list x1 ecu = Some u" using same_tables_find_users [OF s1(1)] ecu4 by simp
  note s2 = invalidate_contexts [OF ecu1, of h, folded x2_def]
  have ecu2: "dlt_daemon_find_users_list x2 ecu = Some u" using same_tables_find_users [OF s2(1)] ecu1 by simp
  have d': "d' = (if a_user_handle (apps_of d4 u ! i) = DLT_FD_INIT \<and> pid \<noteq> 0
      then set_application x2 u i (\<lambda>a. a\<lparr>a_user_handle := h, a_owns_user_handle := owns, a_pid := pid\<rparr>) else d4)"
    using r by (auto simp: application_connect_def d4 h x1_def x2_def Let_def split: if_splits)
  have "same_tables d4 (set_application x2 u i (\<lambda>a. a\<lparr>a_user_handle := h, a_owns_user_handle := owns, a_pid := pid\<rparr>))"
    using same_tables_trans [OF same_tables_trans [OF s1(1) s2(1)]] by simp
  then have "same_tables d d'" using s same_tables_trans [of d d4] by (auto simp: d')
  moreover have "app_texts x2 u = app_texts d4 u" using s1(2) s2(2) by (simp add: app_texts_def)
  moreover have "app_texts (set_application x2 u i (\<lambda>a. a\<lparr>a_user_handle := h, a_owns_user_handle := owns, a_pid := pid\<rparr>)) u = app_texts x2 u"
    using map_update_same [of "\<lambda>a. (a_apid a, a_description a)" "\<lambda>a. a\<lparr>a_user_handle := h, a_owns_user_handle := owns, a_pid := pid\<rparr>" "apps_of x2 u" i]
      find_users_bounds [OF ecu2] by (simp add: app_texts_def apps_of_set_application)
  ultimately show ?thesis
    using s i4 s1(2) s2(2) find_users_bounds [OF ecu2] by (auto simp: d' apps_of_set_application)
qed

section \<open>Adding an application\<close>

definition table_env_ok :: "table_env \<Rightarrow> bool" where
  "table_env_ok env \<longleftrightarrow> length (a_apid (app_junk env)) = 4 \<and> length (x_apid (ctx_junk env)) = 4 \<and> length (x_ctid (ctx_junk env)) = 4"

lemma cap_ok_grow:
  assumes "cap_ok s c n" "c \<noteq> 0" "0 < s"
    and "c' = (if (n + 1) mod s = 0 then ((n + 1) div s + 1) * s else c)"
  shows "cap_ok s c' (n + 1) \<and> n + 1 < c'"
proof (cases "(n + 1) mod s = 0")
  case True
  then have "c' = (n + 1) div s * s + s" using assms by (simp add: algebra_simps)
  moreover have "(n + 1) div s * s = n + 1" using True by (metis add.right_neutral div_mult_mod_eq)
  ultimately show ?thesis using assms(3) by (simp add: cap_ok_def)
next
  case False
  then have "(n + 1) div s = n div s" by (simp add: div_Suc mod_Suc split: if_splits)
  moreover have "n + 1 = (n + 1) div s * s + (n + 1) mod s" "(n + 1) mod s < s" using assms(3) by auto
  moreover have "n div s * s + s \<le> c" "c' = c" using assms False by (simp_all add: cap_ok_def)
  ultimately show ?thesis using assms(2) by (simp only: cap_ok_def if_False simp_thms)
qed

lemma users_ok_of: "tables_ok d \<Longrightarrow> u < length (user_list d) \<Longrightarrow> users_ok (user_list d ! u)"
  by (simp add: tables_ok_def)

lemma application_find_Some:
  assumes "tables_ok d" "dlt_daemon_find_users_list d ecu = Some u" "valid_id apid"
  shows "dlt_daemon_application_find d apid ecu = Some i \<longleftrightarrow> i < length (apps_of d u) \<and> a_apid (apps_of d u ! i) = apid"
  using users_ok_of [OF assms(1) find_users_bounds [OF assms(2)]] assms
  by (simp add: dlt_daemon_application_find_def users_ok_def find_in_applications_Some valid_id_def)

lemma application_find_None:
  assumes "tables_ok d" "dlt_daemon_find_users_list d ecu = Some u" "valid_id apid" "dlt_daemon_application_find d apid ecu = None"
  shows "apid \<notin> a_apid ` set (apps_of d u)"
  using application_find_Some [OF assms(1-3)] assms(4) by (metis imageE in_set_conv_nth option.distinct(1))

lemma sort_applications:
  assumes core: "users_core us" and d: "distinct (map a_apid (applications us))" and c: "ctxs.table (contexts us)"
  shows "users_ok (us\<lparr>applications := qsort dlt_daemon_cmp_apid (applications us)\<rparr>)"
proof -
  have w: "\<forall>a \<in> set (applications us). app_wf a" using core by (simp add: users_core_def app_wf_def)
  have "inj_on akey (set (applications us))"
    using d w by (auto simp: inj_on_def akey_eq distinct_map)
  then have "distinct (map akey (applications us))" using d by (simp add: distinct_map)
  from apps.qsort_general [OF w this] show ?thesis
    using core c by (simp add: users_ok_def users_core_def)
qed

text \<open>The state between the new entry and the sorting.\<close>

definition unsorted_ok :: "nat \<Rightarrow> daemon_users \<Rightarrow> bool" where
  "unsorted_ok u d \<longleftrightarrow> u < length (user_list d) \<and> users_core (user_list d ! u) \<and>
     distinct (map a_apid (apps_of d u)) \<and> ctxs.table (ctxs_of d u) \<and>
     (\<forall>v < length (user_list d). v \<noteq> u \<longrightarrow> users_ok (user_list d ! v))"

lemma unsorted_ok_same: "same_tables d d' \<Longrightarrow> unsorted_ok u d \<Longrightarrow> unsorted_ok u d'"
proof -
  assume s: "same_tables d d'" and o: "unsorted_ok u d"
  have u: "u < length (user_list d)" using o by (simp add: unsorted_ok_def)
  have "users_core (user_list d' ! u) = users_core (user_list d ! u)" "ctxs.table (ctxs_of d' u) = ctxs.table (ctxs_of d u)"
    using same_tables_nth [OF s u] by (simp_all add: users_core_ids ctx_table_ids shape_def)
  then show "unsorted_ok u d'"
    using o same_tables_length [OF s] same_tables_apid(2) [OF s u] users_ok_shape [OF same_tables_nth [OF s]]
    by (simp add: unsorted_ok_def)
qed

lemma unsorted_ok_sort:
  assumes "unsorted_ok u d"
  shows "tables_ok (update_users d u (\<lambda>us. us\<lparr>applications := qsort dlt_daemon_cmp_apid (applications us)\<rparr>))"
  using assms sort_applications [of "user_list d ! u"]
  by (simp add: tables_ok_def all_set_conv_all_nth nth_update_users unsorted_ok_def)

lemma unsorted_new_application:
  assumes ok: "tables_ok d" and u: "u < length (user_list d)" and v: "valid_id (a_apid a)" "a_num_contexts a = 0"
    and n: "a_apid a \<notin> a_apid ` set (apps_of d u)" and c0: "applications_cap (user_list d ! u) \<noteq> 0"
    and c: "c = (if (length (apps_of d u) + 1) mod 500 = 0 then ((length (apps_of d u) + 1) div 500 + 1) * 500
                 else applications_cap (user_list d ! u))"
  shows "unsorted_ok u (update_users d u (\<lambda>us. us\<lparr>applications := applications us @ [a], applications_cap := c\<rparr>))"
proof -
  note us = users_ok_of [OF ok u]
  have "distinct (map a_apid (apps_of d u))"
  proof -
    have "distinct (map akey (apps_of d u))" using us apps.table_distinct by (simp add: users_ok_def)
    then show ?thesis by (auto simp: distinct_map akey_def inj_on_def)
  qed
  moreover have "a_apid a \<notin> x_apid ` set (ctxs_of d u)" using us n by (force simp: users_ok_def users_core_def)
  then have "count (mset (map x_apid (ctxs_of d u))) (a_apid a) = 0" by (simp add: count_eq_zero_iff)
  moreover have "cap_ok 500 c (length (apps_of d u) + 1)"
    using cap_ok_grow [of 500 "applications_cap (user_list d ! u)" "length (apps_of d u)" c] us c c0
    by (simp add: users_ok_def users_core_def)
  ultimately show ?thesis
    using us u v n users_ok_of [OF ok] by (simp add: unsorted_ok_def users_ok_def users_core_def nth_update_users)
qed

lemma application_slot_cases:
  assumes ok: "tables_ok d" and ecu: "dlt_daemon_find_users_list d ecu = Some u" and v: "valid_id apid" and e: "table_env_ok env"
    and c0: "applications_cap (user_list d ! u) \<noteq> 0" and r: "application_slot env d u apid ecu = Some (d2, i, new)"
  obtains "\<not> new" "d2 = d" "i < length (apps_of d u)" "a_apid (apps_of d u ! i) = apid"
  | a where "new" "unsorted_ok u d2" "i = length (apps_of d u)" "apps_of d2 u = apps_of d u @ [a]" "a_apid a = apid"
      "ctxs_of d2 u = ctxs_of d u" "map u_ecu (user_list d2) = map u_ecu (user_list d)" "own_ecuid d2 = own_ecuid d"
      "apid \<notin> a_apid ` set (apps_of d u)" "\<forall>w. w \<noteq> u \<longrightarrow> user_list d2 ! w = user_list d ! w"
proof (cases "dlt_daemon_application_find d apid ecu")
  case None
  note u = find_users_bounds [OF ecu]
  note n = application_find_None [OF ok ecu v None]
  define a where "a = (app_junk env)\<lparr>a_apid := apid, a_pid := 0, a_description := None, a_num_contexts := 0,
    a_user_handle := DLT_FD_INIT, a_owns_user_handle := False\<rparr>"
  define c where "c = (if (length (apps_of d u) + 1) mod 500 = 0 then ((length (apps_of d u) + 1) div 500 + 1) * 500
                 else applications_cap (user_list d ! u))"
  have d2: "d2 = update_users d u (\<lambda>us. us\<lparr>applications := applications us @ [a], applications_cap := c\<rparr>)"
    and i: "i = length (apps_of d u)" and new: "new"
    using r None set_id_valid [OF v, of "a_apid (app_junk env)"] e
    by (auto simp: application_slot_def Let_def c_def a_def table_env_ok_def split: if_splits)
  have "unsorted_ok u d2" unfolding d2
    using v n c0 c_def by (intro unsorted_new_application [OF ok u]) (simp_all add: a_def)
  moreover have "map u_ecu (user_list d2) = map u_ecu (user_list d)" "own_ecuid d2 = own_ecuid d"
    "\<forall>w. w \<noteq> u \<longrightarrow> user_list d2 ! w = user_list d ! w"
    by (simp_all add: d2) (simp add: update_users_def)
  moreover have "apps_of d2 u = apps_of d u @ [a]" "ctxs_of d2 u = ctxs_of d u" using u by (simp_all add: d2 nth_update_users)
  ultimately show ?thesis using that(2) [of a] new i n by (simp add: a_def)
next
  case (Some j)
  then show ?thesis using that(1) r application_find_Some [OF ok ecu v, of j] by (simp add: application_slot_def)
qed

lemma first_allocation:
  assumes "tables_ok d" "dlt_daemon_find_users_list d ecu = Some u"
    and "d1 = (if applications_cap (user_list d ! u) = 0
               then update_users d u (\<lambda>us. us\<lparr>applications_cap := DLT_DAEMON_APPL_ALLOC_SIZE\<rparr>) else d)"
  shows "tables_ok d1" "dlt_daemon_find_users_list d1 ecu = Some u" "applications_cap (user_list d1 ! u) \<noteq> 0"
    "apps_of d1 u = apps_of d u" "ctxs_of d1 u = ctxs_of d u" "own_ecuid d1 = own_ecuid d"
    "map u_ecu (user_list d1) = map u_ecu (user_list d)" "\<forall>w. w \<noteq> u \<longrightarrow> user_list d1 ! w = user_list d ! w"
proof -
  note u = find_users_bounds [OF assms(2)]
  have "users_ok (us\<lparr>applications_cap := 500\<rparr>)" if "users_ok us" "applications_cap us = 0" for us
    using that by (auto simp: users_ok_def users_core_def cap_ok_def)
  then show "tables_ok d1" using assms by (auto simp: intro!: tables_ok_update)
  show m: "map u_ecu (user_list d1) = map u_ecu (user_list d)" by (simp add: assms(3))
  show "dlt_daemon_find_users_list d1 ecu = Some u" using find_users_ecus [OF m] assms(2) by simp
qed (use find_users_bounds [OF assms(2)] in \<open>auto simp: assms(3) nth_update_users update_users_def\<close>)

text \<open>Describing and connecting an entry keeps the table and sets what it names.\<close>

lemma application_fill:
  assumes ecu: "dlt_daemon_find_users_list d ecu = Some u" and i: "i < length (apps_of d u)"
    and d3: "d3 = set_application d u i (\<lambda>a. a\<lparr>a_description := desc\<rparr>)"
    and r: "application_connect env d3 u i pid f ecu = (d', c)"
  shows "same_tables d d'" "a_pid (apps_of d' u ! i) = pid" "app_texts d' u = (app_texts d u)[i := (a_apid (apps_of d u ! i), desc)]"
    "map a_apid (apps_of d' u) = map a_apid (apps_of d u)" "dlt_daemon_find_users_list d' ecu = Some u"
proof -
  note u = find_users_bounds [OF ecu]
  have s3: "same_tables d d3" by (simp add: d3)
  have ecu3: "dlt_daemon_find_users_list d3 ecu = Some u" using same_tables_find_users [OF s3] ecu by simp
  have i3: "i < length (apps_of d3 u)" using same_tables_apid(1) [OF s3 u] i by simp
  note s = application_connect_spec [OF ecu3 i3 r]
  show sd: "same_tables d d'" using s same_tables_trans [OF s3] by simp
  show "a_pid (apps_of d' u ! i) = pid" using s by simp
  show "app_texts d' u = (app_texts d u)[i := (a_apid (apps_of d u ! i), desc)]"
    using s u by (simp add: d3 app_texts_def apps_of_set_application map_update)
  show "map a_apid (apps_of d' u) = map a_apid (apps_of d u)" using same_tables_apid(2) [OF sd u] .
  show "dlt_daemon_find_users_list d' ecu = Some u" using same_tables_find_users [OF sd] ecu by simp
qed

lemma ids_of_same: "same_tables d d' \<Longrightarrow> w < length (user_list d) \<Longrightarrow> ctx_ids (user_list d' ! w) = ctx_ids (user_list d ! w)"
  using same_tables_nth by (simp add: shape_def)

text \<open>The result of adding an application when the sorted array has been searched again.\<close>

lemma sorted_entry:
  assumes un: "unsorted_ok u d5" and ecu: "dlt_daemon_find_users_list d5 ecu = Some u" and v: "valid_id apid"
    and n: "n < length (apps_of d5 u)" "a_apid (apps_of d5 u ! n) = apid"
    and d6: "d6 = update_users d5 u (\<lambda>us. us\<lparr>applications := qsort dlt_daemon_cmp_apid (applications us)\<rparr>)"
  shows "\<exists>i. dlt_daemon_application_find d6 apid ecu = Some i \<and> i < length (apps_of d6 u) \<and> apps_of d6 u ! i = apps_of d5 u ! n"
    and "tables_ok d6" "mset (apps_of d6 u) = mset (apps_of d5 u)" "ctxs_of d6 u = ctxs_of d5 u"
proof -
  have u: "u < length (user_list d5)" using un by (simp add: unsorted_ok_def)
  show ok6: "tables_ok d6" using unsorted_ok_sort [OF un] by (simp add: d6)
  have "map u_ecu (user_list d6) = map u_ecu (user_list d5)" by (simp add: d6)
  then have ecu6: "dlt_daemon_find_users_list d6 ecu = Some u" using find_users_ecus [of d6 d5] ecu by simp
  show m: "mset (apps_of d6 u) = mset (apps_of d5 u)" using u by (simp add: d6 nth_update_users apps.mset_qsort)
  show "ctxs_of d6 u = ctxs_of d5 u" using u by (simp add: d6 nth_update_users)
  obtain i where i: "i < length (apps_of d6 u)" "apps_of d6 u ! i = apps_of d5 u ! n"
    using mset_eq_setD [OF m] n(1) by (metis in_set_conv_nth)
  then show "\<exists>i. dlt_daemon_application_find d6 apid ecu = Some i \<and> i < length (apps_of d6 u) \<and> apps_of d6 u ! i = apps_of d5 u ! n"
    using application_find_Some [OF ok6 ecu6 v, of i] n(2) by auto
qed

definition app_added :: "daemon_users \<Rightarrow> nat \<Rightarrow> byte list \<Rightarrow> int \<Rightarrow> byte list option \<Rightarrow> nat \<Rightarrow> daemon_users \<Rightarrow> bool" where
  "app_added d u apid pid description i d' \<longleftrightarrow>
     i < length (apps_of d' u) \<and> a_apid (apps_of d' u ! i) = apid \<and> a_pid (apps_of d' u ! i) = pid \<and>
     a_description (apps_of d' u ! i) = description \<and>
     set (app_texts d' u) = insert (apid, description) {t \<in> set (app_texts d u). fst t \<noteq> apid}"

lemma app_added_ids: "app_added d u apid pid description i d' \<Longrightarrow> a_apid ` set (apps_of d' u) = insert apid (a_apid ` set (apps_of d u))"
proof -
  assume a: "app_added d u apid pid description i d'"
  have "fst ` set (app_texts d' u) = insert apid (fst ` set (app_texts d u))" using a by (force simp: app_added_def)
  then show ?thesis by (simp add: app_texts_def image_image)
qed

lemma others_of_split:
  assumes "fst x \<notin> fst ` set A" "fst x \<notin> fst ` set B"
  shows "{p \<in> set (A @ x # B). fst p \<noteq> fst x} = set A \<union> set B"
proof -
  have "fst p \<noteq> fst x" if "p \<in> set A \<union> set B" for p using assms that by (metis Un_iff imageI)
  then show ?thesis by auto
qed

lemma update_texts:
  assumes "distinct (map fst ts)" "i < length ts"
  shows "set (ts[i := (fst (ts ! i), t)]) = insert (fst (ts ! i), t) {p \<in> set ts. fst p \<noteq> fst (ts ! i)}"
proof -
  have ts: "ts = take i ts @ ts ! i # drop (Suc i) ts" using assms(2) by (rule id_take_nth_drop)
  have d: "distinct (map fst (take i ts @ ts ! i # drop (Suc i) ts))" by (subst ts [symmetric]) (rule assms(1))
  have "set (ts[i := (fst (ts ! i), t)]) = insert (fst (ts ! i), t) (set (take i ts) \<union> set (drop (Suc i) ts))"
    using assms(2) by (simp add: upd_conv_take_nth_drop)
  moreover have "{p \<in> set (take i ts @ ts ! i # drop (Suc i) ts). fst p \<noteq> fst (ts ! i)} = set (take i ts) \<union> set (drop (Suc i) ts)"
    using d by (intro others_of_split) simp_all
  ultimately show ?thesis by (simp only: ts [symmetric])
qed

lemma filled_existing:
  assumes ok: "tables_ok d" and ecu: "dlt_daemon_find_users_list d ecu = Some u"
    and i: "i < length (apps_of d u)" "a_apid (apps_of d u ! i) = apid"
    and d3: "d3 = set_application d u i (\<lambda>a. a\<lparr>a_description := desc\<rparr>)"
    and r: "application_connect env d3 u i pid f ecu = (d', c)"
  shows "tables_ok d' \<and> dlt_daemon_find_users_list d' ecu = Some u \<and> ctx_ids (user_list d' ! u) = ctx_ids (user_list d ! u) \<and>
    app_added d u apid pid desc i d'"
proof -
  note s = application_fill [OF ecu i(1) d3 r]
  have "distinct (map fst (app_texts d u))"
    using apps.table_distinct [of "apps_of d u"] users_ok_of [OF ok find_users_bounds [OF ecu]]
    by (auto simp: users_ok_def app_texts_def comp_def distinct_map akey_def inj_on_def)
  moreover have t: "i < length (app_texts d u)" "fst (app_texts d u ! i) = apid" using i by (simp_all add: app_texts_def)
  ultimately have "set (app_texts d' u) = insert (apid, desc) {p \<in> set (app_texts d u). fst p \<noteq> apid}"
    using update_texts [of "app_texts d u" i desc] s(3) i by simp
  moreover have "app_texts d' u ! i = (apid, desc)" "length (app_texts d' u) = length (app_texts d u)" using s(3) t i by simp_all
  then have "i < length (apps_of d' u) \<and> a_apid (apps_of d' u ! i) = apid \<and> a_description (apps_of d' u ! i) = desc"
    using t(1) by (auto simp: app_texts_def)
  ultimately show ?thesis
    using s same_tables_ok [OF s(1)] ok ids_of_same [OF s(1) find_users_bounds [OF ecu]] by (auto simp: app_added_def)
qed

lemma filled_new:
  assumes un: "unsorted_ok u d2" and ecu: "dlt_daemon_find_users_list d2 ecu = Some u" and v: "valid_id apid"
    and d2: "apps_of d2 u = apps_of d u @ [a]" "a_apid a = apid" "ctxs_of d2 u = ctxs_of d u" "apid \<notin> a_apid ` set (apps_of d u)" and i: "i = length (apps_of d u)"
    and d3: "d3 = set_application d2 u i (\<lambda>a. a\<lparr>a_description := desc\<rparr>)"
    and r: "application_connect env d3 u i pid f ecu = (d5, c)"
    and d6: "d6 = update_users d5 u (\<lambda>us. us\<lparr>applications := qsort dlt_daemon_cmp_apid (applications us)\<rparr>)"
  shows "tables_ok d6 \<and> dlt_daemon_find_users_list d6 ecu = Some u \<and> ctx_ids (user_list d6 ! u) = ctx_ids (user_list d ! u) \<and>
    (\<exists>j. dlt_daemon_application_find d6 apid ecu = Some j \<and> app_added d u apid pid desc j d6)"
proof -
  have i2: "i < length (apps_of d2 u)" "a_apid (apps_of d2 u ! i) = apid" using d2 i by simp_all
  note s = application_fill [OF ecu i2(1) d3 r]
  have t5: "app_texts d5 u = app_texts d u @ [(apid, desc)]" using s(3) d2 i i2 by (simp add: app_texts_def list_update_append)
  have "length (app_texts d5 u) = length (app_texts d u) + 1" "app_texts d5 u ! i = (apid, desc)"
    using i t5 by (simp_all add: app_texts_def nth_append)
  then have i5: "i < length (apps_of d5 u)" "a_apid (apps_of d5 u ! i) = apid" "a_description (apps_of d5 u ! i) = desc"
    using i by (auto simp: app_texts_def)
  note se = sorted_entry [OF unsorted_ok_same [OF s(1) un] s(5) v i5(1,2) d6]
  have "ctx_ids (user_list d6 ! u) = ctx_ids (user_list d ! u)"
    using ids_of_same [OF s(1) find_users_bounds [OF ecu]] d2 se(4) by (simp add: ctx_ids_def)
  moreover have "set (app_texts d6 u) = insert (apid, desc) {p \<in> set (app_texts d u). fst p \<noteq> apid}"
  proof -
    have "set (app_texts d6 u) = set (app_texts d5 u)" using mset_eq_setD [OF se(3)] by (simp add: app_texts_def)
    moreover have "fst p \<noteq> apid" if "p \<in> set (app_texts d u)" for p using d2(4) that by (auto simp: app_texts_def)
    then have "{p \<in> set (app_texts d u). fst p \<noteq> apid} = set (app_texts d u)" by auto
    ultimately show ?thesis using t5 by simp
  qed
  moreover have "dlt_daemon_find_users_list d6 ecu = Some u" using find_users_ecus [of d6 d5 ecu] s(5) by (simp add: d6)
  ultimately show ?thesis using se s(2) i5 by (auto simp: app_added_def)
qed

lemma application_add_spec:
  assumes ok: "tables_ok d" and e: "table_env_ok env" and v: "valid_id apid" and ecu: "dlt_daemon_find_users_list d ecu = Some u"
    and desc: "desc_alloc env \<or> description = None"
    and r: "dlt_daemon_application_add env d apid pid description f ecu = (res, d', closed)"
  shows "tables_ok d' \<and> dlt_daemon_find_users_list d' ecu = Some u \<and> ctx_ids (user_list d' ! u) = ctx_ids (user_list d ! u) \<and>
    (case res of
       None \<Rightarrow> \<not> (first_alloc env \<and> grow_alloc env) \<and> apps_of d' u = apps_of d u
     | Some i \<Rightarrow> app_added d u apid pid description i d')"
proof -
  have a0: "apid ! 0 \<noteq> 0" using v by (simp add: valid_id_def)
  define d1 where "d1 = (if applications_cap (user_list d ! u) = 0
               then update_users d u (\<lambda>us. us\<lparr>applications_cap := DLT_DAEMON_APPL_ALLOC_SIZE\<rparr>) else d)"
  note f1 = first_allocation [OF ok ecu d1_def]
  have ids: "ctx_ids (user_list d1 ! u) = ctx_ids (user_list d ! u)" using f1(5) by (simp add: ctx_ids_def)
  have added: "app_added d1 u apid pid description i x \<longleftrightarrow> app_added d u apid pid description i x" for i x
    using f1(4) by (simp add: app_added_def app_texts_def)
  consider (noalloc) "applications_cap (user_list d ! u) = 0 \<and> \<not> first_alloc env"
    | (noslot) "\<not> (applications_cap (user_list d ! u) = 0 \<and> \<not> first_alloc env)" "application_slot env d1 u apid ecu = None"
    | (slot) d2 i new where "\<not> (applications_cap (user_list d ! u) = 0 \<and> \<not> first_alloc env)" "application_slot env d1 u apid ecu = Some (d2, i, new)"
    by (metis option.exhaust prod_cases3)
  then show ?thesis
  proof cases
    case noalloc
    then show ?thesis using r ok ecu a0 by (simp add: dlt_daemon_application_add_def)
  next
    case noslot
    then have "\<not> grow_alloc env" by (simp add: application_slot_def Let_def split: option.splits if_splits)
    then show ?thesis using r noslot a0 ecu f1 ids by (auto simp: dlt_daemon_application_add_def simp flip: d1_def)
  next
    case slot
    define d3 where "d3 = set_application d2 u i (\<lambda>a. a\<lparr>a_description := description\<rparr>)"
    obtain d5 c where d5: "application_connect env d3 u i pid f ecu = (d5, c)" by fastforce
    have dd: "(if desc_alloc env then description else None) = description" using desc by auto
    define d6 where "d6 = update_users d5 u (\<lambda>us. us\<lparr>applications := qsort dlt_daemon_cmp_apid (applications us)\<rparr>)"
    have res: "(res, d') = (if new then (dlt_daemon_application_find d6 apid ecu, d6) else (Some i, d5))"
      using r slot a0 ecu d5 desc dd
      by (auto simp: dlt_daemon_application_add_def d3_def d6_def Let_def simp flip: d1_def split: if_splits)
    from application_slot_cases [OF f1(1,2) v e f1(3) slot(2)] show ?thesis
    proof cases
      case 1
      then show ?thesis using res filled_existing [OF f1(1,2) 1(3,4) d3_def [unfolded 1(2)] d5] ids added by simp
    next
      case (2 a)
      have "dlt_daemon_find_users_list d2 ecu = Some u" using find_users_ecus [OF 2(7)] f1(2) by simp
      from filled_new [OF 2(2) this v 2(4,5,6,9,3) d3_def d5 d6_def] show ?thesis using res 2(1) ids added by auto
    qed
  qed
qed

section \<open>Adding a context\<close>

lemma update_users_twice [simp]: "u < length (user_list d) \<Longrightarrow> update_users (update_users d u f) u g = update_users d u (\<lambda>us. g (f us))"
  by (simp add: update_users_def)

lemma context_fill_ids [simp]:
  "x_apid (context_fill env d new ll ts pos h desc ecu x) = x_apid x"
  "x_ctid (context_fill env d new ll ts pos h desc ecu x) = x_ctid x"
  by (simp_all add: context_fill_def Let_def)

lemma same_tables_set_context [simp]:
  assumes "\<And>a. x_apid (f a) = x_apid a" "\<And>a. x_ctid (f a) = x_ctid a"
  shows "same_tables d (set_context d u i f)"
proof -
  have "map (\<lambda>x. (x_apid x, x_ctid x)) (xs[i := f (xs ! i)]) = map (\<lambda>x. (x_apid x, x_ctid x)) xs" for xs
    by (rule map_update_same) (simp add: assms)
  then show ?thesis unfolding set_context_def
    by (intro same_tables_update) (simp add: shape_def app_ids_def ctx_ids_def)
qed

lemma context_find_Some:
  assumes "tables_ok d" "dlt_daemon_find_users_list d ecu = Some u" "valid_id apid" "valid_id ctid"
  shows "dlt_daemon_context_find d apid ctid ecu = Some i \<longleftrightarrow>
    i < length (ctxs_of d u) \<and> x_apid (ctxs_of d u ! i) = apid \<and> x_ctid (ctxs_of d u ! i) = ctid"
  using users_ok_of [OF assms(1) find_users_bounds [OF assms(2)]] assms
  by (simp add: dlt_daemon_context_find_def users_ok_def find_in_contexts_Some valid_id_def)

lemma context_find_None:
  assumes "tables_ok d" "dlt_daemon_find_users_list d ecu = Some u" "valid_id apid" "valid_id ctid"
    "dlt_daemon_context_find d apid ctid ecu = None"
  shows "(apid, ctid) \<notin> set (ctx_ids (user_list d ! u))"
proof
  assume "(apid, ctid) \<in> set (ctx_ids (user_list d ! u))"
  then obtain i where "i < length (ctxs_of d u)" "x_apid (ctxs_of d u ! i) = apid" "x_ctid (ctxs_of d u ! i) = ctid"
    by (auto simp: ctx_ids_def in_set_conv_nth)
  then show False using context_find_Some [OF assms(1-4), of i] assms(5) by simp
qed

lemma inc_application_counts:
  assumes ok: "users_ok us" and j: "j < length (applications us)" "a_apid (applications us ! j) = apid"
    and a: "a \<in> set ((applications us)[j := (applications us ! j)\<lparr>a_num_contexts := a_num_contexts (applications us ! j) + k\<rparr>])"
  shows "valid_id (a_apid a) \<and>
    a_num_contexts a = int (count (mset (map x_apid (contexts us))) (a_apid a)) + (if a_apid a = apid then k else 0)"
proof -
  have core: "valid_id (a_apid b) \<and> a_num_contexts b = int (count (mset (map x_apid (contexts us))) (a_apid b))"
    if "b \<in> set (applications us)" for b
    using ok that by (simp add: users_ok_def users_core_def)
  obtain i where "i < length (applications us)"
    "a = (applications us)[j := (applications us ! j)\<lparr>a_num_contexts := a_num_contexts (applications us ! j) + k\<rparr>] ! i"
    using a by (auto simp: in_set_conv_nth)
  then have i: "i < length (applications us)"
    "a = (if i = j then (applications us ! j)\<lparr>a_num_contexts := a_num_contexts (applications us ! j) + k\<rparr> else applications us ! i)"
    using j by (auto simp: nth_list_update)
  have "a_apid (applications us ! i) = apid \<longleftrightarrow> i = j"
    using ok i(1) j apps.table_nth_inj [of "applications us" i j] by (auto simp: users_ok_def akey_def)
  then show ?thesis using core [of "applications us ! i"] core [of "applications us ! j"] i j by auto
qed

lemma table_inc_application:
  "apps.table as \<Longrightarrow> j < length as \<Longrightarrow> apps.table (as[j := (as ! j)\<lparr>a_num_contexts := n\<rparr>])"
  using apps.table_nth_wf [of as j] by (intro apps.table_update) (auto simp: akey_def app_wf_def)

lemma users_ok_new_context:
  assumes ok: "users_ok us" and j: "j < length (applications us)" "a_apid (applications us ! j) = x_apid x"
    and v: "valid_id (x_apid x)" "valid_id (x_ctid x)" and n: "(x_apid x, x_ctid x) \<notin> set (ctx_ids us)" and c0: "contexts_cap us \<noteq> 0"
    and c: "c = (if (length (contexts us) + 1) mod 1000 = 0 then ((length (contexts us) + 1) div 1000 + 1) * 1000 else contexts_cap us)"
    and us': "us' = us\<lparr>contexts_cap := c, applications := (applications us)[j := (applications us ! j)\<lparr>a_num_contexts := a_num_contexts (applications us ! j) + 1\<rparr>],
      contexts := qsort dlt_daemon_cmp_apid_ctid (contexts us @ [x])\<rparr>"
  shows "users_ok us'" "mset (contexts us') = add_mset x (mset (contexts us))"
proof -
  have w: "\<forall>y \<in> set (contexts us). ctx_wf y" "ctx_wf x" and t: "ctxs.table (contexts us)" "apps.table (applications us)"
    using ok v by (simp_all add: users_ok_def users_core_def ctx_wf_def)
  have "xkey x \<notin> xkey ` set (contexts us)"
    using n w xkey_less(2) [of x] by (force simp: ctx_ids_def)
  note q = ctxs.qsort_append [OF t(1) w(2) this]
  have m: "mset (qsort dlt_daemon_cmp_apid_ctid (contexts us @ [x])) = add_mset x (mset (contexts us))"
    by (simp add: ctxs.mset_qsort)
  then show "mset (contexts us') = add_mset x (mset (contexts us))" by (simp add: us')
  have ids: "a_apid ` set ((applications us)[j := (applications us ! j)\<lparr>a_num_contexts := i\<rparr>]) = a_apid ` set (applications us)" for i
    using arg_cong [OF map_update_same [of a_apid "\<lambda>a. a\<lparr>a_num_contexts := i\<rparr>" "applications us" j], of set] by simp
  have cap: "cap_ok 1000 c (length (contexts us) + 1)"
    using cap_ok_grow [of 1000 "contexts_cap us" "length (contexts us)" c] ok c c0 by (simp add: users_ok_def users_core_def)
  have "users_core us'"
    unfolding users_core_def
  proof (intro conjI ballI)
    fix a assume "a \<in> set (applications us')"
    note i = inc_application_counts [OF ok j, of a 1] this
    then show "valid_id (a_apid a)" by (simp add: us')
    show "a_num_contexts a = int (count (mset (map x_apid (contexts us'))) (a_apid a))" using i m by (simp add: us')
  next
    fix y assume "y \<in> set (contexts us')"
    then have y: "y = x \<or> y \<in> set (contexts us)" using q(2) by (auto simp: us')
    then show "valid_id (x_apid y)" "valid_id (x_ctid y)" using v w by (auto simp: ctx_wf_def)
    have "x_apid x \<in> a_apid ` set (applications us)" using j by (metis imageI nth_mem)
    then show "x_apid y \<in> a_apid ` set (applications us')" using y ok ids by (auto simp: us' users_ok_def users_core_def)
  qed (use ok q(3) cap in \<open>simp_all add: us' users_ok_def users_core_def\<close>)
  then show "users_ok us'" using q(1) table_inc_application [OF t(2) j(1)] by (simp add: users_ok_def us')
qed

lemma context_fill_update [simp]: "context_fill env (update_users d u f) = context_fill env d"
  by (simp add: fun_eq_iff context_fill_def update_users_def Let_def)

lemma context_fill_set_application [simp]: "context_fill env (set_application d u i f) = context_fill env d"
  by (simp add: set_application_def)

lemma first_allocation_contexts:
  assumes "tables_ok d" "dlt_daemon_find_users_list d ecu = Some u"
    and "d1 = (if contexts_cap (user_list d ! u) = 0
               then update_users d u (\<lambda>us. us\<lparr>contexts_cap := DLT_DAEMON_CONTEXT_ALLOC_SIZE\<rparr>) else d)"
  shows "tables_ok d1" "dlt_daemon_find_users_list d1 ecu = Some u" "contexts_cap (user_list d1 ! u) \<noteq> 0"
    "apps_of d1 u = apps_of d u" "ctxs_of d1 u = ctxs_of d u" "context_fill env d1 = context_fill env d"
proof -
  have "users_ok (us\<lparr>contexts_cap := 1000\<rparr>)" if "users_ok us" "contexts_cap us = 0" for us
    using that by (auto simp: users_ok_def users_core_def cap_ok_def)
  then show "tables_ok d1" using assms by (auto simp: intro!: tables_ok_update)
  have "map u_ecu (user_list d1) = map u_ecu (user_list d)" by (simp add: assms(3))
  from find_users_ecus [OF this] show "dlt_daemon_find_users_list d1 ecu = Some u" using assms(2) by simp
qed (use find_users_bounds [OF assms(2)] in \<open>auto simp: assms(3) nth_update_users\<close>)

definition ctx_added :: "table_env \<Rightarrow> daemon_users \<Rightarrow> nat \<Rightarrow> byte list \<Rightarrow> byte list \<Rightarrow> int \<Rightarrow> int \<Rightarrow> int \<Rightarrow> int \<Rightarrow> byte list option \<Rightarrow>
    byte list \<Rightarrow> nat \<Rightarrow> daemon_users \<Rightarrow> bool" where
  "ctx_added env d u apid ctid ll ts pos h desc ecu i d' \<longleftrightarrow>
     i < length (ctxs_of d' u) \<and>
     (\<exists>y. x_apid y = apid \<and> x_ctid y = ctid \<and>
        ctxs_of d' u ! i = context_fill env d ((apid, ctid) \<notin> set (ctx_ids (user_list d ! u))) ll ts pos h desc ecu y) \<and>
     set (ctx_ids (user_list d' ! u)) = insert (apid, ctid) (set (ctx_ids (user_list d ! u)))"

lemma existing_context_added:
  assumes ok: "tables_ok d" and ecu: "dlt_daemon_find_users_list d ecu = Some u"
    and i: "i < length (ctxs_of d u)" "x_apid (ctxs_of d u ! i) = apid" "x_ctid (ctxs_of d u ! i) = ctid"
    and d': "d' = set_context d u i (context_fill env d False ll ts pos h desc ecu)"
  shows "tables_ok d' \<and> dlt_daemon_find_users_list d' ecu = Some u \<and> map a_apid (apps_of d' u) = map a_apid (apps_of d u) \<and>
    ctx_added env d u apid ctid ll ts pos h desc ecu i d'"
proof -
  note u = find_users_bounds [OF ecu]
  have s: "same_tables d d'" by (simp add: d')
  have "(apid, ctid) \<in> set (ctx_ids (user_list d ! u))" using i by (force simp: ctx_ids_def)
  moreover have "ctxs_of d' u = (ctxs_of d u)[i := context_fill env d False ll ts pos h desc ecu (ctxs_of d u ! i)]"
    using u by (simp add: d' set_context_def nth_update_users)
  ultimately show ?thesis
    using ok ecu u i same_tables_ok [OF s] same_tables_find_users [OF s] same_tables_apid(2) [OF s u] ids_of_same [OF s u]
    by (auto simp: ctx_added_def)
qed

lemma new_context_added:
  assumes ok: "tables_ok d" and ecu: "dlt_daemon_find_users_list d ecu = Some u" and v: "valid_id apid" "valid_id ctid"
    and j: "j < length (apps_of d u)" "a_apid (apps_of d u ! j) = apid"
    and n: "(apid, ctid) \<notin> set (ctx_ids (user_list d ! u))" and c0: "contexts_cap (user_list d ! u) \<noteq> 0"
    and c: "c = (if (length (ctxs_of d u) + 1) mod 1000 = 0 then ((length (ctxs_of d u) + 1) div 1000 + 1) * 1000 else contexts_cap (user_list d ! u))"
    and y: "x_apid y = apid" "x_ctid y = ctid" and x: "x = context_fill env d True ll ts pos h desc ecu y"
    and d': "d' = update_users d u (\<lambda>us. us\<lparr>contexts_cap := c,
      applications := (applications us)[j := (applications us ! j)\<lparr>a_num_contexts := a_num_contexts (applications us ! j) + 1\<rparr>],
      contexts := qsort dlt_daemon_cmp_apid_ctid (contexts us @ [x])\<rparr>)"
  shows "tables_ok d' \<and> dlt_daemon_find_users_list d' ecu = Some u \<and> map a_apid (apps_of d' u) = map a_apid (apps_of d u) \<and>
    (\<exists>i. dlt_daemon_context_find d' apid ctid ecu = Some i \<and> ctx_added env d u apid ctid ll ts pos h desc ecu i d')"
proof -
  note u = find_users_bounds [OF ecu]
  have xi: "x_apid x = apid" "x_ctid x = ctid" using x y by simp_all
  define us' where "us' = (user_list d ! u)\<lparr>contexts_cap := c,
      applications := (apps_of d u)[j := (apps_of d u ! j)\<lparr>a_num_contexts := a_num_contexts (apps_of d u ! j) + 1\<rparr>],
      contexts := qsort dlt_daemon_cmp_apid_ctid (ctxs_of d u @ [x])\<rparr>"
  have nth: "user_list d' ! u = us'" using u by (simp add: d' nth_update_users us'_def)
  note new = users_ok_new_context [OF users_ok_of [OF ok u], of j x c us', unfolded xi, OF j v n c0 c us'_def]
  have ok': "tables_ok d'" using ok new(1) unfolding d' us'_def by (intro tables_ok_update)
  have "map u_ecu (user_list d') = map u_ecu (user_list d)" by (simp add: d')
  then have ecu': "dlt_daemon_find_users_list d' ecu = Some u" using find_users_ecus [of d' d] ecu by simp
  have st: "set (contexts us') = insert x (set (ctxs_of d u))" using mset_eq_setD [OF new(2) [folded mset.simps]] by simp
  then obtain i where i: "i < length (ctxs_of d' u)" "ctxs_of d' u ! i = x" using nth by (metis in_set_conv_nth insertI1)
  have "dlt_daemon_context_find d' apid ctid ecu = Some i" using context_find_Some [OF ok' ecu' v] i xi by simp
  moreover have "set (ctx_ids us') = insert (apid, ctid) (set (ctx_ids (user_list d ! u)))" using st xi by (simp add: ctx_ids_def)
  moreover have "map a_apid (applications us') = map a_apid (apps_of d u)"
    using map_update_same [of a_apid "\<lambda>a. a\<lparr>a_num_contexts := a_num_contexts a + 1\<rparr>" "apps_of d u" j] by (simp add: us'_def)
  ultimately show ?thesis using ok' ecu' i n y x nth by (auto simp: ctx_added_def)
qed

lemma context_slot_spec:
  assumes ok: "tables_ok d" and ecu: "dlt_daemon_find_users_list d ecu = Some u" and e: "table_env_ok env"
    and v: "valid_id apid" "valid_id ctid" and app: "dlt_daemon_application_find d apid ecu = Some j"
    and c0: "contexts_cap (user_list d ! u) \<noteq> 0" and r: "context_slot env d u j apid ctid ecu = Some (d2, i, new)"
    and d3: "d3 = set_context d2 u i (context_fill env d2 new ll ts pos h desc ecu)"
    and p: "(res, d') = (if new
       then (let d4 = update_users d3 u (\<lambda>us. us\<lparr>contexts := qsort dlt_daemon_cmp_apid_ctid (contexts us)\<rparr>)
             in (dlt_daemon_context_find d4 apid ctid ecu, d4))
       else (Some i, d3))"
  shows "tables_ok d' \<and> dlt_daemon_find_users_list d' ecu = Some u \<and> map a_apid (apps_of d' u) = map a_apid (apps_of d u) \<and>
    (\<exists>i. res = Some i \<and> ctx_added env d u apid ctid ll ts pos h desc ecu i d')"
proof (cases "dlt_daemon_context_find d apid ctid ecu")
  case None
  note u = find_users_bounds [OF ecu]
  define y where "y = (ctx_junk env)\<lparr>x_apid := apid, x_ctid := ctid, x_description := None\<rparr>"
  define c where "c = (if (length (ctxs_of d u) + 1) mod 1000 = 0 then ((length (ctxs_of d u) + 1) div 1000 + 1) * 1000
                 else contexts_cap (user_list d ! u))"
  have d2: "d2 = set_application (update_users d u (\<lambda>us. us\<lparr>contexts := contexts us @ [y], contexts_cap := c\<rparr>)) u j
      (\<lambda>a. a\<lparr>a_num_contexts := a_num_contexts a + 1\<rparr>)" and i: "i = length (ctxs_of d u)" and new: "new"
    using r None set_id_valid [OF v(1), of "x_apid (ctx_junk env)"] set_id_valid [OF v(2), of "x_ctid (ctx_junk env)"] e
    by (auto simp: context_slot_def Let_def c_def y_def table_env_ok_def split: if_splits)
  have j: "j < length (apps_of d u)" "a_apid (apps_of d u ! j) = apid" using application_find_Some [OF ok ecu v(1), of j] app by simp_all
  have d': "d' = update_users d u (\<lambda>us. us\<lparr>contexts_cap := c,
      applications := (applications us)[j := (applications us ! j)\<lparr>a_num_contexts := a_num_contexts (applications us ! j) + 1\<rparr>],
      contexts := qsort dlt_daemon_cmp_apid_ctid (contexts us @ [context_fill env d True ll ts pos h desc ecu y])\<rparr>)"
    and res: "res = dlt_daemon_context_find d' apid ctid ecu"
    using p u i new by (simp_all add: d3 d2 Let_def set_context_def set_application_def) (simp add: update_users_def)
  show ?thesis unfolding res
    using new_context_added [OF ok ecu v j context_find_None [OF ok ecu v None] c0 c_def _ _ refl d'] by (simp add: y_def)
next
  case (Some k)
  then have k: "d2 = d" "i = k" "\<not> new" using r by (simp_all add: context_slot_def)
  then show ?thesis
    using existing_context_added [OF ok ecu, of i apid ctid d3 env ll ts pos h desc] context_find_Some [OF ok ecu v, of i] Some p d3 by auto
qed

lemma context_add_spec:
  assumes ok: "tables_ok d" and e: "table_env_ok env" and v: "valid_id apid" "valid_id ctid" and ecu: "dlt_daemon_find_users_list d ecu = Some u"
    and r: "dlt_daemon_context_add env d apid ctid ll ts pos h desc ecu = (res, d')"
  shows "tables_ok d' \<and> dlt_daemon_find_users_list d' ecu = Some u \<and> map a_apid (apps_of d' u) = map a_apid (apps_of d u) \<and>
    (case res of
       None \<Rightarrow> ctxs_of d' u = ctxs_of d u \<and> apps_of d' u = apps_of d u \<and>
         (ll < - 1 \<or> ll > 6 \<or> ts < - 1 \<or> ts > 1 \<or> \<not> first_alloc env \<or> \<not> grow_alloc env \<or> apid \<notin> a_apid ` set (apps_of d u))
     | Some i \<Rightarrow> apid \<in> a_apid ` set (apps_of d u) \<and> ctx_added env d u apid ctid ll ts pos h desc ecu i d')"
proof -
  have a0: "apid ! 0 \<noteq> 0" "ctid ! 0 \<noteq> 0" using v by (simp_all add: valid_id_def)
  define d1 where "d1 = (if contexts_cap (user_list d ! u) = 0
               then update_users d u (\<lambda>us. us\<lparr>contexts_cap := DLT_DAEMON_CONTEXT_ALLOC_SIZE\<rparr>) else d)"
  note f1 = first_allocation_contexts [OF ok ecu d1_def]
  have ids: "ctx_ids (user_list d1 ! u) = ctx_ids (user_list d ! u)" using f1(5) by (simp add: ctx_ids_def)
  let ?bad = "ll < - 1 \<or> ll > 6 \<or> ts < - 1 \<or> ts > 1 \<or> contexts_cap (user_list d ! u) = 0 \<and> \<not> first_alloc env"
  consider (bad) ?bad | (noapp) "\<not> ?bad" "dlt_daemon_application_find d1 apid ecu = None"
    | (noslot) j where "\<not> ?bad" "dlt_daemon_application_find d1 apid ecu = Some j" "context_slot env d1 u j apid ctid ecu = None"
    | (slot) j d2 i new where "\<not> ?bad" "dlt_daemon_application_find d1 apid ecu = Some j" "context_slot env d1 u j apid ctid ecu = Some (d2, i, new)"
    by (metis option.exhaust prod_cases3)
  then show ?thesis
  proof cases
    case bad
    then show ?thesis using r ok ecu a0 by (auto simp: dlt_daemon_context_add_def split: if_splits)
  next
    case noapp
    then show ?thesis using r a0 ecu f1 application_find_None [OF f1(1,2) v(1) noapp(2)]
      by (auto simp: dlt_daemon_context_add_def Let_def simp flip: d1_def split: if_splits)
  next
    case noslot
    then have "\<not> grow_alloc env" by (simp add: context_slot_def Let_def split: option.splits if_splits)
    then show ?thesis using r a0 ecu f1 noslot
      by (auto simp: dlt_daemon_context_add_def Let_def simp flip: d1_def split: if_splits)
  next
    case slot
    have "apid \<in> a_apid ` set (apps_of d u)" using application_find_Some [OF f1(1,2) v(1), of j] slot(2) f1(4) by auto
    moreover have "(res, d') = (if new
       then (let d4 = update_users (set_context d2 u i (context_fill env d2 new ll ts pos h desc ecu)) u
                        (\<lambda>us. us\<lparr>contexts := qsort dlt_daemon_cmp_apid_ctid (contexts us)\<rparr>)
             in (dlt_daemon_context_find d4 apid ctid ecu, d4))
       else (Some i, set_context d2 u i (context_fill env d2 new ll ts pos h desc ecu)))"
      using r a0 ecu slot by (auto simp: dlt_daemon_context_add_def Let_def simp flip: d1_def split: if_splits)
    note context_slot_spec [OF f1(1,2) e v slot(2) f1(3) slot(3) refl this]
    ultimately show ?thesis using f1(4,6) ids by (auto simp: ctx_added_def)
  qed
qed

section \<open>Deleting\<close>

lemma cap_ok_less:
  assumes "cap_ok s c n" "m \<le> n"
  shows "cap_ok s c m"
proof (cases "c = 0")
  case False
  have "m div s * s \<le> n div s * s" by (rule mult_le_mono1) (rule div_le_mono [OF assms(2)])
  moreover have "n div s * s + s \<le> c" using assms(1) False by (simp add: cap_ok_def)
  ultimately have "m div s * s + s \<le> c" by linarith
  then show ?thesis using False by (simp add: cap_ok_def)
qed (use assms in \<open>simp add: cap_ok_def\<close>)

lemma mset_remove_nth: "i < length xs \<Longrightarrow> mset xs = add_mset (xs ! i) (mset (take i xs @ drop (i + 1) xs))"
  using arg_cong [OF id_take_nth_drop [of i xs], of mset] by simp

lemma set_remove_nth: "set (take i xs @ drop (i + 1) xs) \<subseteq> set xs"
  using set_take_subset [of i xs] set_drop_subset [of "i + 1" xs] by auto

lemma users_ok_del_context:
  assumes ok: "users_ok us" and i: "i < length (contexts us)"
    and j: "j < length (applications us)" "a_apid (applications us ! j) = x_apid (contexts us ! i)"
    and us': "us' = us\<lparr>contexts := take i (contexts us) @ drop (i + 1) (contexts us),
      applications := (applications us)[j := (applications us ! j)\<lparr>a_num_contexts := a_num_contexts (applications us ! j) - 1\<rparr>]\<rparr>"
  shows "users_ok us'"
proof -
  have t: "ctxs.table (contexts us)" "apps.table (applications us)" using ok by (simp_all add: users_ok_def)
  have m: "count (mset (map x_apid (contexts us))) b =
      count (mset (map x_apid (contexts us'))) b + (if b = x_apid (contexts us ! i) then 1 else 0)" for b
    using arg_cong [OF mset_remove_nth [OF i], of "\<lambda>m. count (image_mset x_apid m) b"] by (simp add: us')
  have sub: "set (contexts us') \<subseteq> set (contexts us)" using set_remove_nth [of i "contexts us"] by (simp add: us')
  have ids: "a_apid ` set (applications us') = a_apid ` set (applications us)"
    using arg_cong [OF map_update_same [of a_apid "\<lambda>a. a\<lparr>a_num_contexts := a_num_contexts a - 1\<rparr>" "applications us" j], of set] by (simp add: us')
  have "users_core us'"
    unfolding users_core_def
  proof (intro conjI ballI)
    fix a assume "a \<in> set (applications us')"
    note a = inc_application_counts [OF ok j, of a "- 1"] this
    then show "valid_id (a_apid a)" by (simp add: us')
    show "a_num_contexts a = int (count (mset (map x_apid (contexts us'))) (a_apid a))" using a m [of "a_apid a"] by (simp add: us' split: if_splits)
  next
    fix y assume "y \<in> set (contexts us')"
    then have "y \<in> set (contexts us)" using sub by auto
    then show "valid_id (x_apid y)" "valid_id (x_ctid y)" "x_apid y \<in> a_apid ` set (applications us')"
      using ok ids by (auto simp: users_ok_def users_core_def)
  qed (use ok cap_ok_less [of 1000 "contexts_cap us" "length (contexts us)" "length (contexts us')"] i in \<open>simp_all add: us' users_ok_def users_core_def\<close>)
  then show ?thesis using ctxs.table_remove [OF t(1)] table_inc_application [OF t(2) j(1)] by (simp add: users_ok_def us')
qed

lemma context_del_spec:
  assumes ok: "tables_ok d" and ecu: "dlt_daemon_find_users_list d ecu = Some u" and i: "i < length (ctxs_of d u)"
    and r: "dlt_daemon_context_del d (Some i) ecu = (res, d')"
  shows "res = 0 \<and> tables_ok d' \<and> dlt_daemon_find_users_list d' ecu = Some u \<and> own_ecuid d' = own_ecuid d \<and>
    ctxs_of d' u = take i (ctxs_of d u) @ drop (i + 1) (ctxs_of d u) \<and> map a_apid (apps_of d' u) = map a_apid (apps_of d u)"
proof -
  note u = find_users_bounds [OF ecu]
  note us = users_ok_of [OF ok u]
  have "ctxs_of d u ! i \<in> set (ctxs_of d u)" using i by simp
  then have v: "valid_id (x_apid (ctxs_of d u ! i))" "x_apid (ctxs_of d u ! i) \<in> a_apid ` set (apps_of d u)"
    using us by (auto simp: users_ok_def users_core_def)
  then obtain j where j: "j < length (apps_of d u)" "a_apid (apps_of d u ! j) = x_apid (ctxs_of d u ! i)"
    by (metis imageE in_set_conv_nth)
  then have f: "dlt_daemon_application_find d (x_apid (ctxs_of d u ! i)) ecu = Some j"
    using application_find_Some [OF ok ecu v(1), of j] by simp
  have d': "res = 0" "d' = update_users d u (\<lambda>us. us\<lparr>contexts := take i (contexts us) @ drop (i + 1) (contexts us),
      applications := (applications us)[j := (applications us ! j)\<lparr>a_num_contexts := a_num_contexts (applications us ! j) - 1\<rparr>]\<rparr>)"
    using r i f ecu u by (cases "ctxs_of d u = []"; simp add: dlt_daemon_context_del_def Let_def set_application_def)+
  have "tables_ok d'" unfolding d'(2) using users_ok_del_context [OF us i j refl] by (intro tables_ok_update [OF ok])
  moreover have "map u_ecu (user_list d') = map u_ecu (user_list d)" by (simp add: d')
  then have "dlt_daemon_find_users_list d' ecu = Some u" using find_users_ecus [of d' d] ecu by simp
  moreover have "map a_apid (apps_of d' u) = map a_apid (apps_of d u)"
    using u map_update_same [of a_apid "\<lambda>a. a\<lparr>a_num_contexts := a_num_contexts a - 1\<rparr>" "apps_of d u" j] by (simp add: d' nth_update_users)
  ultimately show ?thesis using u by (simp add: d' nth_update_users)
qed

lemma users_ok_del_application:
  assumes ok: "users_ok us" and j: "j < length (applications us)" "a_num_contexts (applications us ! j) = 0"
  shows "users_ok (us\<lparr>applications := take j (applications us) @ drop (j + 1) (applications us)\<rparr>)"
proof -
  let ?a = "applications us ! j" and ?as = "take j (applications us) @ drop (j + 1) (applications us)"
  have sub: "set ?as \<subseteq> set (applications us)" by (rule set_remove_nth)
  have "?a \<in> set (applications us)" using j by simp
  then have "count (mset (map x_apid (contexts us))) (a_apid ?a) = 0" using ok j(2) by (fastforce simp: users_ok_def users_core_def)
  then have no: "a_apid ?a \<notin> x_apid ` set (contexts us)" by (simp add: count_eq_zero_iff)
  have all: "set (applications us) = insert ?a (set ?as)" using arg_cong [OF mset_remove_nth [OF j(1)], of set_mset] by simp
  have "x_apid x \<in> a_apid ` set ?as" if "x \<in> set (contexts us)" for x
  proof -
    have "x_apid x \<in> a_apid ` set (applications us)" using ok that by (simp add: users_ok_def users_core_def)
    then show ?thesis using no that unfolding all by (metis image_eqI image_insert insertE)
  qed
  moreover have "length ?as \<le> length (applications us)" by simp
  then have "cap_ok 500 (applications_cap us) (length ?as)"
    by (rule cap_ok_less [rotated]) (use ok in \<open>simp add: users_ok_def users_core_def\<close>)
  ultimately show ?thesis using ok sub apps.table_remove [of "applications us" j] by (auto simp: users_ok_def users_core_def)
qed

lemma app_ids_remove:
  "app_ids (us\<lparr>applications := take j (applications us) @ drop (j + 1) (applications us)\<rparr>) = take j (app_ids us) @ drop (j + 1) (app_ids us)"
  "ctx_ids (us\<lparr>applications := as\<rparr>) = ctx_ids us"
  by (simp_all add: app_ids_def ctx_ids_def take_map drop_map)

lemma application_del_spec:
  assumes ok: "tables_ok d" and ecu: "dlt_daemon_find_users_list d ecu = Some u" and j: "j < length (apps_of d u)"
    and z: "a_num_contexts (apps_of d u ! j) = 0"
    and r: "dlt_daemon_application_del d (Some j) ecu = (res, d', closed)"
  shows "res = 0 \<and> tables_ok d' \<and> dlt_daemon_find_users_list d' ecu = Some u \<and>
    ctx_ids (user_list d' ! u) = ctx_ids (user_list d ! u) \<and>
    app_ids (user_list d' ! u) = take j (app_ids (user_list d ! u)) @ drop (j + 1) (app_ids (user_list d ! u))"
proof -
  note u = find_users_bounds [OF ecu]
  obtain d1 c where d1: "dlt_daemon_application_reset_user_handle d u j = (d1, c)" by fastforce
  note s = reset_user_handle_spec [OF u j d1]
  have u1: "u < length (user_list d1)" using same_tables_length [OF s(1)] u by simp
  have d': "res = 0" "d' = update_users d1 u (\<lambda>us. us\<lparr>applications := take j (applications us) @ drop (j + 1) (applications us)\<rparr>)"
    using r ecu j d1 by (cases "apps_of d u = []"; simp add: dlt_daemon_application_del_def)+
  have ids: "app_ids (user_list d1 ! u) = app_ids (user_list d ! u)" "ctx_ids (user_list d1 ! u) = ctx_ids (user_list d ! u)"
    using same_tables_nth [OF s(1) u] by (simp_all add: shape_def)
  have "j < length (apps_of d1 u)" "a_num_contexts (apps_of d1 u ! j) = 0" using s(2) j z by simp_all
  then have "tables_ok d'" unfolding d'(2)
    using same_tables_ok [OF s(1)] ok by (intro tables_ok_update users_ok_del_application) simp_all
  moreover have "map u_ecu (user_list d') = map u_ecu (user_list d)" using same_tables_ecus [OF s(1)] by (simp add: d')
  then have "dlt_daemon_find_users_list d' ecu = Some u" using find_users_ecus [of d' d] ecu by simp
  moreover have "user_list d' ! u = (user_list d1 ! u)\<lparr>applications := take j (apps_of d1 u) @ drop (j + 1) (apps_of d1 u)\<rparr>"
    using u1 by (simp add: d'(2) nth_update_users)
  ultimately show ?thesis using d'(1) by (simp only: app_ids_remove ids simp_thms)
qed

section \<open>Reachable tables\<close>

lemma invalidate_ok:
  assumes "tables_ok d"
  shows "tables_ok (snd (dlt_daemon_applications_invalidate_fd d ecu f))" "tables_ok (snd (dlt_daemon_contexts_invalidate_fd d ecu f))"
proof (atomize (full), cases "dlt_daemon_find_users_list d ecu")
  case (Some u)
  then show "tables_ok (snd (dlt_daemon_applications_invalidate_fd d ecu f)) \<and> tables_ok (snd (dlt_daemon_contexts_invalidate_fd d ecu f))"
    using assms same_tables_ok [OF invalidate_applications(1) [OF Some]] same_tables_ok [OF invalidate_contexts(1) [OF Some]] by simp
qed (use assms in \<open>simp add: dlt_daemon_applications_invalidate_fd_def dlt_daemon_contexts_invalidate_fd_def\<close>)

lemma contexts_clear_ok:
  assumes "tables_ok d"
  shows "tables_ok (snd (dlt_daemon_contexts_clear d ecu))"
proof (cases "dlt_daemon_find_users_list d ecu")
  case (Some u)
  have "users_ok (us\<lparr>contexts := [], contexts_cap := 0, applications := map (\<lambda>a. a\<lparr>a_num_contexts := 0\<rparr>) (applications us)\<rparr>)" if "users_ok us" for us
    using that apps.table_map [of "applications us" "\<lambda>a. a\<lparr>a_num_contexts := 0\<rparr>"]
    by (simp add: users_ok_def users_core_def cap_ok_def akey_def app_wf_def)
  then show ?thesis using assms Some by (auto simp: dlt_daemon_contexts_clear_def intro: tables_ok_update)
qed (use assms in \<open>simp add: dlt_daemon_contexts_clear_def\<close>)

text \<open>The two arrays are cleared together: by \<open>dlt_daemon_free\<close> and, in the other order, by the gateway.\<close>

definition clear_all :: "byte list \<Rightarrow> daemon_users \<Rightarrow> daemon_users" where
  "clear_all ecu d = snd (dlt_daemon_applications_clear (snd (dlt_daemon_contexts_clear d ecu)) ecu)"

definition gateway_clear :: "byte list \<Rightarrow> daemon_users \<Rightarrow> daemon_users" where
  "gateway_clear ecu d = snd (dlt_daemon_contexts_clear (snd (dlt_daemon_applications_clear d ecu)) ecu)"

lemma clear_ok:
  assumes ok: "tables_ok d"
  shows "tables_ok (clear_all ecu d)" "tables_ok (gateway_clear ecu d)"
proof (atomize (full), cases "dlt_daemon_find_users_list d ecu")
  case (Some u)
  have ecu: "dlt_daemon_find_users_list (update_users d u f) ecu = Some u" if "\<And>us. u_ecu (f us) = u_ecu us" for f
    using Some that find_users_ecus [of "update_users d u f" d ecu] by simp
  have "clear_all ecu d = update_users d u (\<lambda>us. us\<lparr>contexts := [], contexts_cap := 0, applications := [], applications_cap := 0\<rparr>)"
    "gateway_clear ecu d = update_users d u (\<lambda>us. us\<lparr>applications_cap := 0, contexts := [], contexts_cap := 0, applications := []\<rparr>)"
    using Some find_users_bounds [OF Some]
    by (simp_all add: clear_all_def gateway_clear_def dlt_daemon_applications_clear_def dlt_daemon_contexts_clear_def ecu)
  moreover have "users_ok (us\<lparr>contexts := [], contexts_cap := 0, applications := [], applications_cap := 0\<rparr>)"
    "users_ok (us\<lparr>applications_cap := 0, contexts := [], contexts_cap := 0, applications := []\<rparr>)" for us
    by (simp_all add: users_ok_def users_core_def cap_ok_def)
  ultimately show "tables_ok (clear_all ecu d) \<and> tables_ok (gateway_clear ecu d)"
    by (simp add: tables_ok_update [OF ok])
qed (use ok in \<open>simp add: clear_all_def gateway_clear_def dlt_daemon_applications_clear_def dlt_daemon_contexts_clear_def\<close>)

inductive tables_reach :: "daemon_users \<Rightarrow> daemon_users \<Rightarrow> bool" for d0 where
  start: "tables_reach d0 d0"
| add_application: "tables_reach d0 d \<Longrightarrow> table_env_ok env \<Longrightarrow> valid_id apid \<Longrightarrow> desc_alloc env \<or> description = None \<Longrightarrow>
    tables_reach d0 (fst (snd (dlt_daemon_application_add env d apid p description f ecu)))"
| add_context: "tables_reach d0 d \<Longrightarrow> table_env_ok env \<Longrightarrow> valid_id apid \<Longrightarrow> valid_id ctid \<Longrightarrow>
    tables_reach d0 (snd (dlt_daemon_context_add env d apid ctid ll ts pos h description ecu))"
| del_context: "tables_reach d0 d \<Longrightarrow> dlt_daemon_context_find d apid ctid ecu = Some i \<Longrightarrow> valid_id apid \<Longrightarrow> valid_id ctid \<Longrightarrow>
    tables_reach d0 (snd (dlt_daemon_context_del d (Some i) ecu))"
| del_application: "tables_reach d0 d \<Longrightarrow> dlt_daemon_find_users_list d ecu = Some u \<Longrightarrow> j < length (applications (user_list d ! u)) \<Longrightarrow>
    a_num_contexts (applications (user_list d ! u) ! j) = 0 \<Longrightarrow> tables_reach d0 (fst (snd (dlt_daemon_application_del d (Some j) ecu)))"
| invalidate_applications: "tables_reach d0 d \<Longrightarrow> tables_reach d0 (snd (dlt_daemon_applications_invalidate_fd d ecu f))"
| invalidate_contexts: "tables_reach d0 d \<Longrightarrow> tables_reach d0 (snd (dlt_daemon_contexts_invalidate_fd d ecu f))"
| clear: "tables_reach d0 d \<Longrightarrow> tables_reach d0 (clear_all ecu d)"
| clear_gateway: "tables_reach d0 d \<Longrightarrow> tables_reach d0 (gateway_clear ecu d)"

lemma application_add_ok:
  assumes "tables_ok d" "table_env_ok env" "valid_id apid" "desc_alloc env \<or> description = None"
  shows "tables_ok (fst (snd (dlt_daemon_application_add env d apid p description f ecu)))"
proof (cases "dlt_daemon_find_users_list d ecu")
  case (Some u)
  obtain r d' c where "dlt_daemon_application_add env d apid p description f ecu = (r, d', c)" by (metis prod_cases3)
  then show ?thesis using application_add_spec [OF assms(1,2,3) Some assms(4)] by simp
qed (use assms in \<open>simp add: dlt_daemon_application_add_def\<close>)

lemma context_add_ok:
  assumes "tables_ok d" "table_env_ok env" "valid_id apid" "valid_id ctid"
  shows "tables_ok (snd (dlt_daemon_context_add env d apid ctid ll ts pos h description ecu))"
proof (cases "dlt_daemon_find_users_list d ecu")
  case (Some u)
  obtain r d' where "dlt_daemon_context_add env d apid ctid ll ts pos h description ecu = (r, d')" by fastforce
  then show ?thesis using context_add_spec [OF assms Some] by simp
qed (use assms in \<open>simp add: dlt_daemon_context_add_def\<close>)

lemma context_del_ok:
  assumes "tables_ok d" "dlt_daemon_context_find d apid ctid ecu = Some i" "valid_id apid" "valid_id ctid"
  shows "tables_ok (snd (dlt_daemon_context_del d (Some i) ecu))"
proof (cases "dlt_daemon_find_users_list d ecu")
  case (Some u)
  have "i < length (ctxs_of d u)" using context_find_Some [OF assms(1) Some assms(3,4), of i] assms(2) by simp
  moreover obtain r d' where "dlt_daemon_context_del d (Some i) ecu = (r, d')" by fastforce
  ultimately show ?thesis using context_del_spec [OF assms(1) Some] by simp
qed (use assms in \<open>simp add: dlt_daemon_context_del_def\<close>)

lemma count_map_filter: "count (mset (map f xs)) c = length (filter (\<lambda>x. f x = c) xs)"
  by (induction xs) auto

lemma reach_ok:
  assumes "tables_reach d0 d" "tables_ok d0"
  shows "tables_ok d"
  using assms
proof (induction rule: tables_reach.induct)
  case (del_application d ecu u j)
  obtain r d' c where "dlt_daemon_application_del d (Some j) ecu = (r, d', c)" by (metis prod_cases3)
  then show ?case using application_del_spec [of d ecu u j r d' c] del_application by simp
qed (simp_all add: application_add_ok context_add_ok context_del_ok invalidate_ok clear_ok)

section \<open>Properties\<close>

definition example_users :: DltDaemonRegisteredUsers where
  "example_users = \<lparr>applications = [], applications_cap = 0, contexts = [], contexts_cap = 0, u_ecu = [0x45, 0x43, 0x55, 0x31]\<rparr>"

definition example_daemon :: daemon_users where
  "example_daemon = \<lparr>user_list = [example_users], own_ecuid = [0x45, 0x43, 0x55, 0x31], default_log_level = 4, default_trace_status = 0,
     force_ll_ts = False, runtime_context_cfg_loaded = False, maintain_logstorage_loglevel = True\<rparr>"

definition example_app :: DltDaemonApplication where
  "example_app = \<lparr>a_apid = [0x41, 0, 0, 0], a_pid = 7, a_user_handle = 5, a_owns_user_handle = False, a_description = None, a_num_contexts = 0\<rparr>"

definition example_ctx :: DltDaemonContext where
  "example_ctx = \<lparr>x_apid = [0x41, 0, 0, 0], x_ctid = [0x43, 0, 0, 0], x_log_level = - 1, x_trace_status = 0, x_log_level_pos = 0,
     x_user_handle = 5, x_description = None, x_storage_log_level = 2, x_predefined = False\<rparr>"

definition example_table_env :: table_env where
  "example_table_env = \<lparr>first_alloc = True, grow_alloc = True, desc_alloc = True, app_junk = example_app, ctx_junk = example_ctx,
     ipc_socket = True, ipc_fifo = False, open_fifo = (\<lambda>_. - 1)\<rparr>"

definition example_daemon1 :: daemon_users where
  "example_daemon1 = example_daemon\<lparr>user_list := [example_users\<lparr>applications := [example_app], applications_cap := 500\<rparr>]\<rparr>"

lemma example_ids_valid: "valid_id [0x41, 0, 0, 0]" "valid_id [0x43, 0, 0, 0]" "valid_id [0x42, 0, 0, 0]"
  by code_simp+

lemma example_tables_ok: "table_env_ok example_table_env" "tables_ok example_daemon" "tables_ok example_daemon1"
  "dlt_daemon_find_users_list example_daemon [0x45, 0x43, 0x55, 0x31] = Some 0" "dlt_daemon_find_users_list example_daemon1 [0x45, 0x43, 0x55, 0x31] = Some 0"
  "user_list example_daemon ! 0 = example_users" "user_list example_daemon1 ! 0 = example_users\<lparr>applications := [example_app], applications_cap := 500\<rparr>"
  using example_ids_valid
  by (simp_all add: table_env_ok_def example_table_env_def example_app_def example_ctx_def tables_ok_def example_daemon_def example_daemon1_def example_users_def
      users_ok_def users_core_def cap_ok_def dlt_daemon_find_users_list_def apps.table_def app_wf_def)

definition example_added :: daemon_users where
  "example_added = fst (snd (dlt_daemon_application_add example_table_env example_daemon [0x41, 0, 0, 0] 7 None (- 1) [0x45, 0x43, 0x55, 0x31]))"

lemma example_added: "dlt_daemon_application_add example_table_env example_daemon [0x41, 0, 0, 0] 7 None (- 1) [0x45, 0x43, 0x55, 0x31] =
   (fst (dlt_daemon_application_add example_table_env example_daemon [0x41, 0, 0, 0] 7 None (- 1) [0x45, 0x43, 0x55, 0x31]), example_added,
    snd (snd (dlt_daemon_application_add example_table_env example_daemon [0x41, 0, 0, 0] 7 None (- 1) [0x45, 0x43, 0x55, 0x31])))"
  by (simp add: example_added_def)



text \<open>
  C19. \<open>dlt_daemon_application_add\<close> with a valid identifier and enough memory registers the
  application: the entry it returns is the one \<open>dlt_daemon_application_find\<close> finds, it has the
  process and the description that were given, the other applications and their descriptions and
  all contexts are the same as before, and the tables stay in order.
\<close>

theorem application_add_registers:
  assumes "tables_ok d" "table_env_ok env" "valid_id apid" "dlt_daemon_find_users_list d ecu = Some u"
    "first_alloc env" "grow_alloc env" "desc_alloc env"
  shows "\<exists>i d' closed. dlt_daemon_application_add env d apid p description f ecu = (Some i, d', closed) \<and> tables_ok d' \<and>
    dlt_daemon_application_find d' apid ecu = Some i \<and>
    a_apid (applications (user_list d' ! u) ! i) = apid \<and> a_pid (applications (user_list d' ! u) ! i) = p \<and>
    a_description (applications (user_list d' ! u) ! i) = description \<and>
    (\<lambda>a. (a_apid a, a_description a)) ` set (applications (user_list d' ! u)) =
      insert (apid, description) {t \<in> (\<lambda>a. (a_apid a, a_description a)) ` set (applications (user_list d ! u)). fst t \<noteq> apid} \<and>
    map (\<lambda>x. (x_apid x, x_ctid x)) (contexts (user_list d' ! u)) = map (\<lambda>x. (x_apid x, x_ctid x)) (contexts (user_list d ! u))"
proof -
  obtain r d' closed where r: "dlt_daemon_application_add env d apid p description f ecu = (r, d', closed)" by (metis prod_cases3)
  note s = application_add_spec [OF assms(1-4) disjI1 [OF assms(7)] r]
  then obtain i where i: "r = Some i" "app_added d u apid p description i d'" using assms by (auto split: option.splits)
  then have "dlt_daemon_application_find d' apid ecu = Some i"
    using s application_find_Some [of d' ecu u apid i] assms(3) by (simp add: app_added_def)
  then show ?thesis using r s i by (simp add: app_added_def ctx_ids_def app_texts_def)
qed

theorem application_add_registers_witness:
  "\<exists>i d' closed. dlt_daemon_application_add example_table_env example_daemon [0x41, 0, 0, 0] 7 (Some [0x78]) 9 [0x45, 0x43, 0x55, 0x31] = (Some i, d', closed) \<and>
    dlt_daemon_application_find d' [0x41, 0, 0, 0] [0x45, 0x43, 0x55, 0x31] = Some i \<and>
    a_description (applications (user_list d' ! 0) ! i) = Some [0x78]"
  using application_add_registers [OF example_tables_ok(2,1) example_ids_valid(1) example_tables_ok(4), of 7 "Some [0x78]" 9] by (auto simp: example_table_env_def)

fun first_index :: "('e \<Rightarrow> bool) \<Rightarrow> 'e list \<Rightarrow> nat option" where
  "first_index P [] = None"
| "first_index P (x # xs) = (if P x then Some 0 else map_option Suc (first_index P xs))"

lemma first_index_Some: "first_index P xs = Some i \<longleftrightarrow> i < length xs \<and> P (xs ! i) \<and> (\<forall>j < i. \<not> P (xs ! j))"
proof (induction xs arbitrary: i)
  case (Cons x xs)
  then show ?case by (cases i) (auto simp: less_Suc_eq_0_disj)
qed simp

lemma first_index_unique:
  assumes "\<And>i. r = Some i \<longleftrightarrow> i < length xs \<and> P (xs ! i)"
  shows "r = first_index P xs"
proof (cases "first_index P xs")
  case None
  have "r \<noteq> Some i" for i
  proof
    assume "r = Some i"
    then have "\<exists>i. i < length xs \<and> P (xs ! i)" using assms by blast
    then obtain k where "k < length xs \<and> P (xs ! k)" "\<forall>j < k. \<not> (j < length xs \<and> P (xs ! j))"
      using exists_least_iff [of "\<lambda>i. i < length xs \<and> P (xs ! i)"] by blast
    then have "first_index P xs = Some k" using first_index_Some [of P xs k] by auto
    then show False using None by simp
  qed
  then show ?thesis using None by (cases r) auto
next
  case (Some k)
  then show ?thesis using assms [of k] first_index_Some [of P xs k] by simp
qed

text \<open>
  C21. On tables in order the binary searches, with their tests of the ends of the arrays and their
  comparison functions, are equivalent to looking through the arrays from the start for the entry
  with the identifiers.
\<close>

theorem binary_search_is_linear:
  assumes "tables_ok d" "dlt_daemon_find_users_list d ecu = Some u" "valid_id apid" "valid_id ctid"
  shows "dlt_daemon_application_find d apid ecu = first_index (\<lambda>a. a_apid a = apid) (applications (user_list d ! u)) \<and>
    dlt_daemon_context_find d apid ctid ecu = first_index (\<lambda>x. x_apid x = apid \<and> x_ctid x = ctid) (contexts (user_list d ! u))"
  using application_find_Some [OF assms(1-3)] context_find_Some [OF assms(1-4)] by (intro conjI first_index_unique)

theorem binary_search_is_linear_witness:
  "dlt_daemon_application_find example_daemon1 [0x41, 0, 0, 0] [0x45, 0x43, 0x55, 0x31] = Some 0"
  using binary_search_is_linear [OF example_tables_ok(3,5) example_ids_valid(1,2)] by (simp add: example_tables_ok example_app_def)



text \<open>
  A context without a level of its own follows the default level of the daemon. Once a log
  storage with a lower level is known for it, \<open>dlt_daemon_user_send_log_level\<close> announces the level of
  the storage: the maximum is taken before the default is resolved.
\<close>

lemma storage_level_lowers_default:
  assumes "x_log_level x = - 1" "maintain_logstorage_loglevel d" "0 \<le> x_storage_log_level x"
    "x_storage_log_level x < default_log_level d" "default_log_level d \<le> 6"
  shows "sent_log_level d x = nat (x_storage_log_level x) \<and> sent_log_level d x < nat (default_log_level d) \<and>
    sent_log_level d (x\<lparr>x_storage_log_level := - 1\<rparr>) = nat (default_log_level d)"
  using assms by (simp add: sent_log_level_def u8_def)

lemma raw_identifier_slot:
  obtains d2 a where "application_slot example_table_env example_daemon1 0 [0x41, 0, 0x42, 0] [0x45, 0x43, 0x55, 0x31] = Some (d2, 1, True)"
    "apps_of d2 0 = [example_app, a]" "a_apid a = [0x41, 0, 0, 0]" "dlt_daemon_find_users_list d2 [0x45, 0x43, 0x55, 0x31] = Some 0"
proof -
  define a where "a = example_app\<lparr>a_apid := [0x41, 0, 0, 0], a_pid := 0, a_description := None, a_num_contexts := 0,
    a_user_handle := DLT_FD_INIT, a_owns_user_handle := False\<rparr>"
  define d2 where "d2 = update_users example_daemon1 0 (\<lambda>us. us\<lparr>applications := applications us @ [a], applications_cap := 500\<rparr>)"
  have "memcmp_bytes [0x41, 0, 0x42, 0] [0x41, 0, 0, 0] = 1" by simp
  then have "dlt_daemon_application_find example_daemon1 [0x41, 0, 0x42, 0] [0x45, 0x43, 0x55, 0x31] = None"
    by (simp add: dlt_daemon_application_find_def example_tables_ok find_in_applications_def example_app_def)
  moreover have "dlt_set_id (Some (a_apid example_app)) (Some [0x41, 0, 0x42, 0]) = Some [0x41, 0, 0, 0]" by code_simp
  ultimately have "application_slot example_table_env example_daemon1 0 [0x41, 0, 0x42, 0] [0x45, 0x43, 0x55, 0x31] = Some (d2, 1, True)"
    by (simp add: application_slot_def Let_def example_tables_ok example_table_env_def d2_def a_def)
  moreover have l: "0 < length (user_list example_daemon1)" by (simp add: example_daemon1_def)
  then have "apps_of d2 0 = [example_app, a]" by (simp add: d2_def nth_update_users example_tables_ok)
  moreover have "dlt_daemon_find_users_list d2 [0x45, 0x43, 0x55, 0x31] = Some 0"
    using find_users_ecus [of d2 example_daemon1] example_tables_ok(5) by (simp add: d2_def)
  ultimately show thesis using that by (simp add: a_def)
qed

text \<open>
  An identifier with bytes behind its terminating zero byte is searched with these bytes at the
  ends of the array but stored without them: when the daemon knows only application \<open>A\<close>,
  registering the four bytes \<open>A\<close>, 0, \<open>B\<close>, 0 adds a second entry for \<open>A\<close>.
\<close>

theorem raw_identifier_duplicates:
  "map a_apid (applications (user_list (fst (snd
      (dlt_daemon_application_add example_table_env example_daemon1 [0x41, 0, 0x42, 0] 8 None (- 1) [0x45, 0x43, 0x55, 0x31]))) ! 0)) =
    [[0x41, 0, 0, 0], [0x41, 0, 0, 0]]"
proof -
  obtain d2 a where d2: "application_slot example_table_env example_daemon1 0 [0x41, 0, 0x42, 0] [0x45, 0x43, 0x55, 0x31] = Some (d2, 1, True)"
    "apps_of d2 0 = [example_app, a]" "a_apid a = [0x41, 0, 0, 0]" "dlt_daemon_find_users_list d2 [0x45, 0x43, 0x55, 0x31] = Some 0"
    by (rule raw_identifier_slot)
  define d3 where "d3 = set_application d2 0 1 (\<lambda>a. a\<lparr>a_description := None\<rparr>)"
  obtain d5 c where d5: "application_connect example_table_env d3 0 1 8 (- 1) [0x45, 0x43, 0x55, 0x31] = (d5, c)" by fastforce
  have f: "map a_apid (apps_of d5 0) = [[0x41, 0, 0, 0], [0x41, 0, 0, 0]]" "dlt_daemon_find_users_list d5 [0x45, 0x43, 0x55, 0x31] = Some 0"
    using application_fill(4,5) [OF d2(4) _ d3_def d5] d2 by (simp_all add: example_app_def)
  define as where "as = qsort dlt_daemon_cmp_apid (apps_of d5 0)"
  have m: "mset (map a_apid as) = mset [[0x41, 0, 0, 0], [0x41, 0, 0, 0]]"
    using f(1) apps.mset_qsort [of "apps_of d5 0"] by (metis as_def mset_map)
  have "length (map a_apid as) = 2" "set (map a_apid as) = {[0x41, 0, 0, 0]}"
    using mset_eq_length [OF m] mset_eq_setD [OF m] by simp_all
  then have "map a_apid as = replicate 2 [0x41, 0, 0, 0]" by (intro replicate_eqI) auto
  moreover have "fst (snd (dlt_daemon_application_add example_table_env example_daemon1 [0x41, 0, 0x42, 0] 8 None (- 1) [0x45, 0x43, 0x55, 0x31])) =
      update_users d5 0 (\<lambda>us. us\<lparr>applications := qsort dlt_daemon_cmp_apid (applications us)\<rparr>)"
    using d2(1) d5 by (simp add: dlt_daemon_application_add_def example_tables_ok d3_def Let_def)
  ultimately show ?thesis using find_users_bounds [OF f(2)] by (simp add: nth_update_users as_def numeral_2_eq_2)
qed

end
