(* ===== verification/Dlt_Buffer.thy ===== *)
theory Dlt_Buffer
  imports DLT_Prelude
begin

text \<open>
  The ring buffer of \<open>src/shared/dlt_common.c\<close> (\<open>dlt_buffer_*\<close>), in which the user library
  and the daemon keep the messages they cannot send. The shared area starts with a header of
  three \<open>int\<close>s (write position, read position, number of messages), the data area follows.
  A message is stored as a \<open>DltBufferBlockHead\<close> (twelve bytes, three of them padding the
  compiler leaves unset) and its bytes. Positions run from 0 to the size of the data area,
  both included.

  \<open>malloc\<close> is the argument \<open>alloc\<close>: the fresh block of a given size, or \<open>None\<close>. Pointers
  that may be \<open>NULL\<close> are options. The theory proves that the buffer is a first-in first-out
  queue of messages, through the interface \<open>message_fifo\<close>, and states the two cases where the
  code does not behave as one.
\<close>

section \<open>Data\<close>

record DltBufferHead =
  hwrite :: int
  hread :: int
  hcount :: int

record DltBufferArea = DltBufferHead +
  data :: "byte list"

text \<open>\<open>mem\<close> always points behind the header of \<open>shm\<close>, so one option stands for both pointers.\<close>

record DltBuffer =
  shm :: "DltBufferArea option"
  bsize :: nat
  min_size :: nat
  max_size :: nat
  step_size :: nat

abbreviation (input) SIZEOF_DltBufferHead :: nat where "SIZEOF_DltBufferHead \<equiv> 12"
abbreviation (input) SIZEOF_DltBufferBlockHead :: nat where "SIZEOF_DltBufferBlockHead \<equiv> 12"

definition DLT_BUFFER_HEAD :: "byte list" where
  "DLT_BUFFER_HEAD = [0x53, 0x48, 0x4D, 0]"

text \<open>The bytes of a \<open>DltBufferBlockHead\<close> on a little-endian machine; \<open>pad\<close> are the padding bytes.\<close>

definition block_head :: "byte list \<Rightarrow> int \<Rightarrow> byte list" where
  "block_head pad n = DLT_BUFFER_HEAD @ [2] @ pad @ le_bytes 4 n"

definition head_head :: "byte list \<Rightarrow> byte list" where "head_head h = take 4 h"
definition head_status :: "byte list \<Rightarrow> byte" where "head_status h = h ! 4"
definition head_size :: "byte list \<Rightarrow> int" where "head_size h = i32 (le_val (memget h 8 4))"

section \<open>Operations\<close>

definition set_area :: "DltBuffer \<Rightarrow> DltBufferArea \<Rightarrow> DltBuffer" where
  "set_area b a = b\<lparr>shm := Some a\<rparr>"

definition mem_write :: "DltBuffer \<Rightarrow> nat \<Rightarrow> byte list \<Rightarrow> DltBuffer" where
  "mem_write b off d = b\<lparr>shm := map_option (\<lambda>a. a\<lparr>data := memput (data a) off d\<rparr>) (shm b)\<rparr>"

definition mem_of :: "DltBuffer \<Rightarrow> byte list" where
  "mem_of b = (case shm b of None \<Rightarrow> [] | Some a \<Rightarrow> data a)"

definition dlt_buffer_init_static_server ::
  "DltBuffer option \<Rightarrow> DltBufferArea option \<Rightarrow> nat \<Rightarrow> int \<times> DltBuffer option" where
  "dlt_buffer_init_static_server buf ptr sz =
     (case (buf, ptr) of
        (Some b, Some p) \<Rightarrow>
          let n = u32 (int sz - int SIZEOF_DltBufferHead)
          in (DLT_RETURN_OK,
              Some (b\<lparr>shm := Some (p\<lparr>hread := 0, hwrite := 0, hcount := 0,
                                    data := memput (data p) 0 (replicate n 0)\<rparr>),
                     bsize := n, min_size := sz, max_size := sz, step_size := 0\<rparr>))
      | _ \<Rightarrow> (DLT_RETURN_WRONG_PARAMETER, buf))"

definition dlt_buffer_init_static_client ::
  "DltBuffer option \<Rightarrow> DltBufferArea option \<Rightarrow> nat \<Rightarrow> int \<times> DltBuffer option" where
  "dlt_buffer_init_static_client buf ptr sz =
     (case (buf, ptr) of
        (Some b, Some p) \<Rightarrow>
          (DLT_RETURN_OK,
           Some (b\<lparr>shm := Some p, bsize := u32 (int sz - int SIZEOF_DltBufferHead),
                  min_size := sz, max_size := sz, step_size := 0\<rparr>))
      | _ \<Rightarrow> (DLT_RETURN_WRONG_PARAMETER, buf))"

definition dlt_buffer_init_dynamic ::
  "(nat \<Rightarrow> byte list option) \<Rightarrow> DltBuffer option \<Rightarrow> nat \<Rightarrow> nat \<Rightarrow> nat \<Rightarrow> int \<times> DltBuffer option" where
  "dlt_buffer_init_dynamic alloc buf mins maxs step =
     (case buf of None \<Rightarrow> (DLT_RETURN_WRONG_PARAMETER, None)
      | Some b \<Rightarrow>
        if mins = 0 \<or> maxs = 0 \<or> step = 0 then (DLT_RETURN_WRONG_PARAMETER, buf)
        else if mins > maxs then (DLT_RETURN_WRONG_PARAMETER, buf)
        else if step > maxs then (DLT_RETURN_WRONG_PARAMETER, buf)
        else
          let b1 = b\<lparr>min_size := mins, max_size := maxs, step_size := step\<rparr>
          in case alloc mins of
               None \<Rightarrow> (DLT_RETURN_ERROR, Some (b1\<lparr>shm := None\<rparr>))
             | Some blk \<Rightarrow>
               let a = \<lparr>hwrite = 0, hread = 0, hcount = 0, data = drop SIZEOF_DltBufferHead blk\<rparr>
               in if mins < SIZEOF_DltBufferHead
                  then (DLT_RETURN_WRONG_PARAMETER, Some (b1\<lparr>shm := Some a\<rparr>))
                  else let n = mins - SIZEOF_DltBufferHead
                       in (DLT_RETURN_OK,
                           Some (b1\<lparr>shm := Some (a\<lparr>data := memput (data a) 0 (replicate n 0)\<rparr>),
                                   bsize := n\<rparr>)))"

definition dlt_buffer_free_static :: "DltBuffer option \<Rightarrow> int" where
  "dlt_buffer_free_static buf =
     (case buf of None \<Rightarrow> DLT_RETURN_WRONG_PARAMETER
      | Some b \<Rightarrow> if shm b = None then DLT_RETURN_ERROR else DLT_RETURN_OK)"

definition dlt_buffer_free_dynamic :: "DltBuffer option \<Rightarrow> int \<times> DltBuffer option" where
  "dlt_buffer_free_dynamic buf =
     (case buf of None \<Rightarrow> (DLT_RETURN_WRONG_PARAMETER, None)
      | Some b \<Rightarrow> if shm b = None then (DLT_RETURN_ERROR, buf)
                 else (DLT_RETURN_OK, Some (b\<lparr>shm := None\<rparr>)))"

text \<open>
  The block writer and reader: \<open>data = None\<close> is the \<open>NULL\<close> pointer. The callers check that the
  positions lie inside the area before they call.
\<close>

definition dlt_buffer_write_block ::
  "DltBuffer \<Rightarrow> int \<Rightarrow> byte list option \<Rightarrow> nat \<Rightarrow> DltBuffer \<times> int" where
  "dlt_buffer_write_block b write d sz =
     (case d of None \<Rightarrow> (b, write)
      | Some src \<Rightarrow>
        if sz \<le> bsize b then
          if (u32 write + sz) mod 4294967296 \<le> bsize b then
            (mem_write b (nat write) (take sz src), i32 (write + int sz))
          else if u32 write \<le> bsize b then
            (mem_write (mem_write b (nat write) (take (bsize b - u32 write) src)) 0
               (take (sz - (bsize b - u32 write)) (drop (bsize b - u32 write) src)),
             i32 (write + i32 (int sz - int (bsize b))))
          else (b, write)
        else (b, write))"

text \<open>\<open>Some\<close> of the bytes copied to the destination, \<open>None\<close> when nothing is copied.\<close>

definition dlt_buffer_read_block :: "DltBuffer \<Rightarrow> int \<Rightarrow> nat \<Rightarrow> byte list option \<times> int" where
  "dlt_buffer_read_block b read sz =
     (if (u32 read + sz) mod 4294967296 \<le> bsize b then
        (Some (memget (mem_of b) (nat read) sz), i32 (read + int sz))
      else if u32 read \<le> bsize b then
        (Some (memget (mem_of b) (nat read) (bsize b - u32 read) @
               memget (mem_of b) 0 (sz - (bsize b - u32 read))),
         i32 (read + i32 (int sz - int (bsize b))))
      else (None, read))"

definition dlt_buffer_check_size :: "DltBuffer option \<Rightarrow> int \<Rightarrow> int" where
  "dlt_buffer_check_size buf needed =
     (case buf of None \<Rightarrow> DLT_RETURN_WRONG_PARAMETER
      | Some b \<Rightarrow>
        if nat ((int (bsize b) + int SIZEOF_DltBufferHead + needed) mod 18446744073709551616) > max_size b
        then DLT_RETURN_ERROR else DLT_RETURN_OK)"

definition dlt_buffer_increase_size ::
  "(nat \<Rightarrow> byte list option) \<Rightarrow> DltBuffer \<Rightarrow> int \<times> DltBuffer" where
  "dlt_buffer_increase_size alloc b =
     (if step_size b = 0 then (DLT_RETURN_ERROR, b)
      else if bsize b + SIZEOF_DltBufferHead + step_size b > max_size b then (DLT_RETURN_ERROR, b)
      else case alloc (bsize b + SIZEOF_DltBufferHead + step_size b) of
             None \<Rightarrow> (DLT_RETURN_ERROR, b)
           | Some new_ptr \<Rightarrow>
             (case shm b of None \<Rightarrow> (DLT_RETURN_ERROR, b)
             | Some head \<Rightarrow>
               let new_mem = drop SIZEOF_DltBufferHead new_ptr;
                   new_head =
                     (if hread head < hwrite head then
                        head\<lparr>hread := 0, hwrite := hwrite head - hread head,
                             data := memput new_mem 0
                                (memget (data head) (nat (hread head)) (nat (hwrite head - hread head)))\<rparr>
                      else
                        head\<lparr>hread := 0, hwrite := int (bsize b) + hwrite head - hread head,
                             data := memput (memput new_mem 0
                                (memget (data head) (nat (hread head)) (bsize b - nat (hread head))))
                                (bsize b - nat (hread head)) (memget (data head) 0 (nat (hwrite head)))\<rparr>)
               in (DLT_RETURN_OK, b\<lparr>shm := Some new_head, bsize := bsize b + step_size b\<rparr>)))"

definition dlt_buffer_minimize_size ::
  "(nat \<Rightarrow> byte list option) \<Rightarrow> DltBuffer \<Rightarrow> int \<times> DltBuffer" where
  "dlt_buffer_minimize_size alloc b =
     (if bsize b + SIZEOF_DltBufferHead = min_size b then (DLT_RETURN_OK, b)
      else case alloc (min_size b) of
             None \<Rightarrow> (DLT_RETURN_ERROR, b)
           | Some new_ptr \<Rightarrow>
             let n = u32 (int (min_size b) - int SIZEOF_DltBufferHead)
             in (DLT_RETURN_OK,
                 b\<lparr>shm := Some \<lparr>hwrite = 0, hread = 0, hcount = 0,
                       data = memput (drop SIZEOF_DltBufferHead new_ptr) 0 (replicate n 0)\<rparr>,
                   bsize := n\<rparr>))"

definition dlt_buffer_reset :: "DltBuffer \<Rightarrow> int \<times> DltBuffer" where
  "dlt_buffer_reset b =
     (DLT_RETURN_OK,
      b\<lparr>shm := map_option (\<lambda>a. a\<lparr>hwrite := 0, hread := 0, hcount := 0,
                 data := memput (data a) 0 (replicate (bsize b) 0)\<rparr>) (shm b)\<rparr>)"

text \<open>The free space as \<open>dlt_buffer_push3\<close> computes it, before and inside its loop.\<close>

definition push3_free_size :: "nat \<Rightarrow> int \<Rightarrow> int \<Rightarrow> int \<Rightarrow> int" where
  "push3_free_size sz write read count =
     (if read > write then read - write
      else if count \<noteq> 0 \<and> write = read then 0
      else i32 (int sz) - write + read)"

lemma increase_size_grows:
  "dlt_buffer_increase_size alloc b = (0, b') \<Longrightarrow>
   max_size b' = max_size b \<and> bsize b < bsize b' \<and> bsize b' + 12 \<le> max_size b \<and> shm b \<noteq> None"
  by (auto simp: dlt_buffer_increase_size_def Let_def split: if_splits option.splits)

text \<open>The loop of \<open>dlt_buffer_push3\<close>: grow until the message fits, or fail.\<close>

function push3_loop ::
  "(nat \<Rightarrow> byte list option) \<Rightarrow> int \<Rightarrow> int \<Rightarrow> int \<Rightarrow> DltBuffer \<Rightarrow> int \<times> DltBuffer" where
  "push3_loop alloc count needed free_size b =
     (if free_size < needed then
        let (rc, b') = dlt_buffer_increase_size alloc b
        in if rc \<noteq> 0 then (DLT_RETURN_ERROR, b')
           else case shm b' of
                  None \<Rightarrow> (DLT_RETURN_ERROR, b')
                | Some a \<Rightarrow>
                  push3_loop alloc count needed (push3_free_size (bsize b') (hwrite a) (hread a) count) b'
      else (DLT_RETURN_OK, b))"
  by pat_completeness auto
termination
proof (relation "measure (\<lambda>(_, _, _, _, b). max_size b - bsize b)", goal_cases)
  case (2 alloc count needed free_size b x rc b' a)
  then have "dlt_buffer_increase_size alloc b = (0, b')" by simp
  from increase_size_grows [OF this] show ?case by auto
qed simp

declare push3_loop.simps [simp del]

text \<open>One of the three \<open>if (size) dlt_buffer_write_block (...)\<close> statements.\<close>

definition write_opt :: "DltBuffer \<times> int \<Rightarrow> byte list option \<Rightarrow> nat \<Rightarrow> DltBuffer \<times> int" where
  "write_opt bw d n = (if n \<noteq> 0 then dlt_buffer_write_block (fst bw) (snd bw) d n else bw)"

definition dlt_buffer_push3 ::
  "(nat \<Rightarrow> byte list option) \<Rightarrow> byte list \<Rightarrow> DltBuffer option \<Rightarrow>
   byte list option \<Rightarrow> nat \<Rightarrow> byte list option \<Rightarrow> nat \<Rightarrow> byte list option \<Rightarrow> nat \<Rightarrow>
   int \<times> DltBuffer option" where
  "dlt_buffer_push3 alloc pad buf data1 size1 data2 size2 data3 size3 =
     (case buf of None \<Rightarrow> (DLT_RETURN_WRONG_PARAMETER, None)
      | Some b \<Rightarrow>
        (case shm b of None \<Rightarrow> (DLT_RETURN_ERROR, buf)
        | Some a \<Rightarrow>
          if u32 (hread a) > bsize b \<or> u32 (hwrite a) > bsize b then
            (DLT_RETURN_ERROR, Some (snd (dlt_buffer_reset b)))
          else
            let needed = i32 (int (SIZEOF_DltBufferBlockHead + size1 + size2 + size3));
                (rc, b1) = push3_loop alloc (hcount a) needed
                             (push3_free_size (bsize b) (hwrite a) (hread a) (hcount a)) b
            in if rc \<noteq> 0 then (DLT_RETURN_ERROR, Some b1)
               else
                 let write = (case shm b1 of None \<Rightarrow> 0 | Some a1 \<Rightarrow> hwrite a1);
                     head = block_head pad (i32 (int ((size1 + size2 + size3) mod 4294967296)));
                     bw = write_opt (write_opt (write_opt
                            (dlt_buffer_write_block b1 write (Some head) SIZEOF_DltBufferBlockHead)
                            data1 size1) data2 size2) data3 size3
                 in (DLT_RETURN_OK,
                     Some ((fst bw)\<lparr>shm := map_option (\<lambda>s. s\<lparr>hwrite := snd bw, hcount := i32 (hcount s + 1)\<rparr>)
                                       (shm (fst bw))\<rparr>))))"

definition dlt_buffer_push ::
  "(nat \<Rightarrow> byte list option) \<Rightarrow> byte list \<Rightarrow> DltBuffer option \<Rightarrow> byte list option \<Rightarrow> nat \<Rightarrow>
   int \<times> DltBuffer option" where
  "dlt_buffer_push alloc pad buf d sz = dlt_buffer_push3 alloc pad buf d sz None 0 None 0"

text \<open>
  \<open>dlt_buffer_get\<close>: \<open>dest\<close> is the caller's buffer (\<open>None\<close> for \<open>NULL\<close>). The result is the
  return value, the ring buffer and the caller's buffer.
\<close>

definition dlt_buffer_get ::
  "(nat \<Rightarrow> byte list option) \<Rightarrow> DltBuffer option \<Rightarrow> byte list option \<Rightarrow> int \<Rightarrow> bool \<Rightarrow>
   int \<times> DltBuffer option \<times> byte list option" where
  "dlt_buffer_get alloc buf dest maxs del =
     (case buf of None \<Rightarrow> (DLT_RETURN_WRONG_PARAMETER, None, dest)
      | Some b \<Rightarrow>
        let fail = (DLT_RETURN_ERROR, buf, dest);
            reset = (DLT_RETURN_ERROR, Some (snd (dlt_buffer_reset b)), dest)
        in (case shm b of None \<Rightarrow> fail
        | Some a \<Rightarrow>
          if u32 (hread a) > bsize b \<or> u32 (hwrite a) > bsize b \<or> hcount a < 0 then reset
          else if hcount a = 0 then (if hwrite a \<noteq> hread a then reset else fail)
          else
            let used_size = (if hwrite a > hread a then hwrite a - hread a
                             else i32 (int (bsize b)) - hread a + hwrite a)
            in if used_size < int SIZEOF_DltBufferBlockHead then reset
               else (case dlt_buffer_read_block b (hread a) SIZEOF_DltBufferBlockHead of
                 (None, _) \<Rightarrow> reset
               | (Some head, read) \<Rightarrow>
                 if head_head head \<noteq> DLT_BUFFER_HEAD then reset
                 else if head_status head \<noteq> 2 then reset
                 else if used_size < int SIZEOF_DltBufferBlockHead + head_size head then reset
                 else
                   let n = head_size head;
                       (dest', read') =
                         (case dest of
                            Some d \<Rightarrow>
                              if maxs \<noteq> 0 then
                                (case dlt_buffer_read_block b read (u32 n) of
                                   (Some bytes, r) \<Rightarrow> (Some (memput d 0 bytes), r)
                                 | (None, r) \<Rightarrow> (dest, r))
                              else (dest, if u32 (read + n) \<le> bsize b then read + n
                                          else read + n - int (bsize b))
                          | None \<Rightarrow> (dest, if u32 (read + n) \<le> bsize b then read + n
                                           else read + n - int (bsize b)));
                       b1 = (if del then set_area b (a\<lparr>hread := read', hcount := hcount a - 1\<rparr>) else b);
                       b2 = (if del \<and> hcount a - 1 = 0 then snd (dlt_buffer_minimize_size alloc b1) else b1)
                   in (n, Some b2, dest'))))"

definition dlt_buffer_pull ::
  "(nat \<Rightarrow> byte list option) \<Rightarrow> DltBuffer option \<Rightarrow> byte list option \<Rightarrow> int \<Rightarrow>
   int \<times> DltBuffer option \<times> byte list option" where
  "dlt_buffer_pull alloc buf dest maxs = dlt_buffer_get alloc buf dest maxs True"

definition dlt_buffer_copy ::
  "(nat \<Rightarrow> byte list option) \<Rightarrow> DltBuffer option \<Rightarrow> byte list option \<Rightarrow> int \<Rightarrow>
   int \<times> DltBuffer option \<times> byte list option" where
  "dlt_buffer_copy alloc buf dest maxs = dlt_buffer_get alloc buf dest maxs False"

definition dlt_buffer_remove :: "(nat \<Rightarrow> byte list option) \<Rightarrow> DltBuffer option \<Rightarrow> int \<times> DltBuffer option" where
  "dlt_buffer_remove alloc buf = (case dlt_buffer_get alloc buf None 0 True of (n, b, _) \<Rightarrow> (n, b))"

definition dlt_buffer_get_total_size :: "DltBuffer option \<Rightarrow> nat" where
  "dlt_buffer_get_total_size buf =
     (case buf of None \<Rightarrow> u32 DLT_RETURN_WRONG_PARAMETER | Some b \<Rightarrow> max_size b)"

definition dlt_buffer_get_used_size :: "DltBuffer option \<Rightarrow> int" where
  "dlt_buffer_get_used_size buf =
     (case buf of None \<Rightarrow> DLT_RETURN_WRONG_PARAMETER
      | Some b \<Rightarrow>
        (case shm b of None \<Rightarrow> DLT_RETURN_OK
         | Some a \<Rightarrow>
           if hcount a = 0 then DLT_RETURN_OK
           else if hwrite a > hread a then hwrite a - hread a
           else i32 (int (bsize b)) - hread a + hwrite a))"

definition dlt_buffer_get_message_count :: "DltBuffer option \<Rightarrow> int" where
  "dlt_buffer_get_message_count buf =
     (case buf of None \<Rightarrow> DLT_RETURN_WRONG_PARAMETER
      | Some b \<Rightarrow> (case shm b of None \<Rightarrow> DLT_RETURN_OK | Some a \<Rightarrow> hcount a))"

section \<open>The invariant and the queue a buffer stands for\<close>

definition ring_used :: "nat \<Rightarrow> DltBufferArea \<Rightarrow> nat" where
  "ring_used n a =
     (if hcount a = 0 then 0
      else if hwrite a > hread a then nat (hwrite a - hread a)
      else n - nat (hread a) + nat (hwrite a))"

definition area_ok :: "nat \<Rightarrow> DltBufferArea \<Rightarrow> bool" where
  "area_ok n a \<longleftrightarrow>
     length (data a) = n \<and> 0 \<le> hread a \<and> hread a \<le> int n \<and> 0 \<le> hwrite a \<and> hwrite a \<le> int n \<and>
     0 \<le> hcount a \<and> (hcount a = 0 \<longrightarrow> hread a = hwrite a) \<and> (hcount a > 0 \<longrightarrow> hwrite a > 0)"

definition sizes_ok :: "DltBuffer \<Rightarrow> bool" where
  "sizes_ok b \<longleftrightarrow> 12 \<le> min_size b \<and> min_size b \<le> bsize b + 12 \<and> bsize b + 12 \<le> max_size b \<and>
     max_size b < 2147483648"

text \<open>The bytes between the read and the write position, in reading order.\<close>

definition contents :: "nat \<Rightarrow> DltBufferArea \<Rightarrow> byte list" where
  "contents n a = take (ring_used n a) (ring (data a) (nat (hread a)))"

definition is_frame :: "byte list \<Rightarrow> byte list \<Rightarrow> bool" where
  "is_frame f m \<longleftrightarrow> (\<exists>pad. length pad = 3 \<and> f = block_head pad (int (length m)) @ m)"

text \<open>\<open>buffer_rep b ms\<close>: the buffer holds exactly the messages \<open>ms\<close>, oldest first.\<close>

definition buffer_rep :: "DltBuffer \<Rightarrow> byte list list \<Rightarrow> bool" where
  "buffer_rep b ms \<longleftrightarrow> sizes_ok b \<and>
     (\<exists>a fs. shm b = Some a \<and> area_ok (bsize b) a \<and> list_all2 is_frame fs ms \<and>
        contents (bsize b) a = concat fs \<and> hcount a = int (length ms))"

definition alloc_ok :: "(nat \<Rightarrow> byte list option) \<Rightarrow> bool" where
  "alloc_ok alloc \<longleftrightarrow> (\<forall>n blk. alloc n = Some blk \<longrightarrow> length blk = n)"

section \<open>Positions\<close>

lemma ring_used_le: "area_ok n a \<Longrightarrow> ring_used n a \<le> n"
  by (auto simp: area_ok_def ring_used_def)

lemma length_contents: "area_ok n a \<Longrightarrow> length (contents n a) = ring_used n a"
  using ring_used_le [of n a] by (simp add: contents_def area_ok_def)

lemma write_pos: "area_ok n a \<Longrightarrow> nat (hwrite a) = ring_adv n (nat (hread a)) (ring_used n a)"
  by (auto simp: area_ok_def ring_used_def ring_adv_def)

lemma free_size_eq:
  "area_ok n a \<Longrightarrow> n < 2147483648 \<Longrightarrow>
   push3_free_size n (hwrite a) (hread a) (hcount a) = int (n - ring_used n a)"
proof -
  assume ok: "area_ok n a" and "n < 2147483648"
  then have i: "i32 (int n) = int n" by (simp add: cconv)
  consider "hcount a = 0" | "hcount a > 0" "hread a < hwrite a" | "hcount a > 0" "hwrite a \<le> hread a"
    using ok by (fastforce simp: area_ok_def)
  then show ?thesis
    using ok by cases (auto simp: area_ok_def push3_free_size_def ring_used_def i of_nat_diff)
qed

lemma write_block_ring:
  assumes "shm b = Some a" "length (data a) = bsize b" "bsize b < 2147483648"
    and "w \<le> bsize b" "length src \<le> bsize b"
  shows "dlt_buffer_write_block b (int w) (Some src) (length src) =
     (set_area b (a\<lparr>data := ring_put (data a) w src\<rparr>), int (ring_adv (bsize b) w (length src)))"
  using assms
  by (auto simp: dlt_buffer_write_block_def mem_write_def set_area_def ring_put_def ring_adv_def cconv)

lemma read_block_ring:
  assumes "shm b = Some a" "length (data a) = bsize b" "bsize b < 2147483648"
    and "r \<le> bsize b" "n \<le> bsize b"
  shows "dlt_buffer_read_block b (int r) n =
     (Some (take n (ring (data a) r)), int (ring_adv (bsize b) r n))"
  using assms
  by (auto simp: dlt_buffer_read_block_def mem_of_def memget_def ring_def ring_adv_def cconv)

section \<open>Frames\<close>

lemma length_block_head [simp]: "length pad = 3 \<Longrightarrow> length (block_head pad n) = 12"
  by (simp add: block_head_def DLT_BUFFER_HEAD_def)

lemma frame_length: "is_frame f m \<Longrightarrow> length f = 12 + length m"
  by (auto simp: is_frame_def)

lemma frame_read:
  assumes "is_frame f m" "length m < 2147483648"
  shows "head_head (take 12 f) = DLT_BUFFER_HEAD" "head_status (take 12 f) = 2"
    and "head_size (take 12 f) = int (length m)" "drop 12 f = m"
proof -
  obtain pad where pad: "length pad = 3" and f: "f = block_head pad (int (length m)) @ m"
    using assms(1) by (auto simp: is_frame_def)
  then obtain p0 p1 p2 where p: "pad = [p0, p1, p2]"
    by (auto simp: length_Suc_conv numeral_3_eq_3)
  have h: "take 12 f = block_head pad (int (length m))" and d: "drop 12 f = m"
    using pad by (simp_all add: f)
  show "head_head (take 12 f) = DLT_BUFFER_HEAD"
    by (simp add: h block_head_def head_head_def DLT_BUFFER_HEAD_def)
  show "head_status (take 12 f) = 2"
    by (simp add: h block_head_def head_status_def DLT_BUFFER_HEAD_def)
  have "memget (block_head pad (int (length m))) 8 4 = le_bytes 4 (int (length m))"
    by (simp add: block_head_def memget_def DLT_BUFFER_HEAD_def p)
  then show "head_size (take 12 f) = int (length m)"
    using assms(2) by (simp add: h head_size_def le_val_le_bytes cconv)
  show "drop 12 f = m" by (rule d)
qed

lemma frames_length: "list_all2 is_frame fs ms \<Longrightarrow> 12 * length ms \<le> length (concat fs)"
  by (induction rule: list_all2_induct) (auto simp: frame_length)

lemma buffer_repE:
  assumes "buffer_rep b ms"
  obtains a fs where "shm b = Some a" "area_ok (bsize b) a" "list_all2 is_frame fs ms"
    "contents (bsize b) a = concat fs" "hcount a = int (length ms)" "sizes_ok b"
    "ring_used (bsize b) a = length (concat fs)" "bsize b < 2147483648" "12 * length ms \<le> bsize b"
proof -
  obtain a fs where a: "shm b = Some a" "area_ok (bsize b) a" "list_all2 is_frame fs ms"
    "contents (bsize b) a = concat fs" "hcount a = int (length ms)" "sizes_ok b"
    using assms by (auto simp: buffer_rep_def)
  have u: "ring_used (bsize b) a = length (concat fs)"
    using length_contents [OF a(2)] a(4) by simp
  have "12 * length ms \<le> bsize b"
    using frames_length [OF a(3)] ring_used_le [OF a(2)] u by linarith
  moreover have "bsize b < 2147483648" using a(6) by (simp add: sizes_ok_def)
  ultimately show ?thesis using that a u by blast
qed

section \<open>Growing\<close>

lemma increase_size_data:
  assumes "area_ok n a" "hcount a > 0" "length new = n + k"
  shows "take (ring_used n a)
     (if hread a < hwrite a
      then memput new 0 (memget (data a) (nat (hread a)) (nat (hwrite a - hread a)))
      else memput (memput new 0 (memget (data a) (nat (hread a)) (n - nat (hread a))))
             (n - nat (hread a)) (memget (data a) 0 (nat (hwrite a)))) = contents n a"
  using assms by (auto simp: area_ok_def contents_def ring_used_def memput_def memget_def ring_def nat_diff_distrib)

lemma increase_size_rep:
  assumes rep: "buffer_rep b ms" and ne: "ms \<noteq> []" and alloc: "alloc_ok alloc"
    and inc: "dlt_buffer_increase_size alloc b = (rc, b')"
  shows "(rc = 0 \<and> buffer_rep b' ms \<and> bsize b' = bsize b + step_size b \<and> step_size b > 0 \<or> rc = -1 \<and> b' = b)
     \<and> min_size b' = min_size b \<and> max_size b' = max_size b \<and> step_size b' = step_size b"
proof -
  from rep obtain a fs where a: "shm b = Some a" "area_ok (bsize b) a" "list_all2 is_frame fs ms"
    "contents (bsize b) a = concat fs" "hcount a = int (length ms)" "sizes_ok b"
    "ring_used (bsize b) a = length (concat fs)" by (elim buffer_repE)
  have c: "hcount a > 0" using a(5) ne by simp
  show ?thesis
  proof (cases "rc = 0")
    case False
    with inc show ?thesis
      using a(1) by (auto simp: dlt_buffer_increase_size_def Let_def split: if_splits option.splits)
  next
    case True
    with inc a(1) obtain blk where g: "step_size b \<noteq> 0" "bsize b + 12 + step_size b \<le> max_size b"
      "alloc (bsize b + 12 + step_size b) = Some blk"
      by (auto simp: dlt_buffer_increase_size_def Let_def split: if_splits option.splits)
    let ?new = "drop 12 blk"
    let ?d = "if hread a < hwrite a
      then memput ?new 0 (memget (data a) (nat (hread a)) (nat (hwrite a - hread a)))
      else memput (memput ?new 0 (memget (data a) (nat (hread a)) (bsize b - nat (hread a))))
             (bsize b - nat (hread a)) (memget (data a) 0 (nat (hwrite a)))"
    let ?a = "a\<lparr>hread := 0, hwrite := int (ring_used (bsize b) a), data := ?d\<rparr>"
    have new: "length ?new = bsize b + step_size b"
      using g(3) alloc by (auto simp: alloc_ok_def)
    have b': "b' = b\<lparr>shm := Some ?a, bsize := bsize b + step_size b\<rparr>"
      using inc a(1,2) c g by (auto simp: dlt_buffer_increase_size_def Let_def ring_used_def area_ok_def
          split: if_splits)
    have len: "length ?d = bsize b + step_size b"
      using new a(2) by (auto simp: area_ok_def nat_diff_distrib)
    have used: "ring_used (bsize b) a > 0" using c a(2) by (auto simp: ring_used_def area_ok_def)
    have ok: "area_ok (bsize b + step_size b) ?a"
      using len ring_used_le [OF a(2)] used c by (simp add: area_ok_def)
    have used': "ring_used (bsize b + step_size b) ?a = ring_used (bsize b) a"
      using used c by (simp add: ring_used_def)
    have "contents (bsize b + step_size b) ?a = concat fs"
      using increase_size_data [OF a(2) c new] a(4) by (simp add: contents_def used' ring_def)
    then have "buffer_rep b' ms"
      unfolding buffer_rep_def using a ok g b' by (auto simp: sizes_ok_def)
    with b' g True show ?thesis by simp
  qed
qed

definition free_space :: "DltBuffer \<Rightarrow> int" where
  "free_space b = (case shm b of None \<Rightarrow> 0 | Some a \<Rightarrow> int (bsize b - ring_used (bsize b) a))"

lemma free_space_rep:
  assumes "buffer_rep b ms" "shm b = Some a"
  shows "push3_free_size (bsize b) (hwrite a) (hread a) (int (length ms)) = free_space b"
proof -
  from assms have "area_ok (bsize b) a" "hcount a = int (length ms)" "bsize b < 2147483648"
    by (auto elim!: buffer_repE)
  with free_size_eq [of "bsize b" a] assms(2) show ?thesis by (simp add: free_space_def)
qed

definition full_grown :: "DltBuffer \<Rightarrow> bool" where
  "full_grown b \<longleftrightarrow> step_size b = 0 \<or> bsize b + 12 + step_size b > max_size b"

lemma increase_size_fails:
  assumes "buffer_rep b ms" "dlt_buffer_increase_size alloc b = (- 1, b')" "\<forall>n. alloc n \<noteq> None"
  shows "full_grown b"
proof -
  obtain a where "shm b = Some a" using assms(1) by (elim buffer_repE)
  moreover obtain blk where "alloc (bsize b + 12 + step_size b) = Some blk" using assms(3) by blast
  ultimately show ?thesis
    using assms(2) by (auto simp: full_grown_def dlt_buffer_increase_size_def Let_def split: if_splits)
qed

lemma push3_loop_rep:
  assumes "buffer_rep b ms" "alloc_ok alloc" "ms \<noteq> [] \<or> needed \<le> free_space b"
    and "push3_loop alloc (int (length ms)) needed (free_space b) b = (rc, b')"
  shows "buffer_rep b' ms \<and> min_size b' = min_size b \<and> max_size b' = max_size b \<and> step_size b' = step_size b
     \<and> (rc = 0 \<and> needed \<le> free_space b' \<or>
        rc = - 1 \<and> free_space b' < needed \<and> ((\<forall>n. alloc n \<noteq> None) \<longrightarrow> full_grown b'))"
  using assms
proof (induction "max_size b - bsize b" arbitrary: b rule: less_induct)
  case less
  show ?case
  proof (cases "needed \<le> free_space b")
    case True
    with less.prems show ?thesis by (subst (asm) push3_loop.simps) auto
  next
    case False
    with less.prems have ne: "ms \<noteq> []" by simp
    obtain rc1 b1 where inc: "dlt_buffer_increase_size alloc b = (rc1, b1)" by fastforce
    note r = increase_size_rep [OF less.prems(1) ne less.prems(2) inc]
    show ?thesis
    proof (cases "rc1 = 0")
      case True
      with r have rep1: "buffer_rep b1 ms" and grow: "bsize b1 = bsize b + step_size b" "step_size b > 0" by auto
      from rep1 obtain a1 where a1: "shm b1 = Some a1" by (elim buffer_repE)
      from rep1 have "bsize b1 + 12 \<le> max_size b1" by (simp add: buffer_rep_def sizes_ok_def)
      with r grow have m: "max_size b1 - bsize b1 < max_size b - bsize b" by auto
      have "push3_loop alloc (int (length ms)) needed (free_space b1) b1 = (rc, b')"
        using less.prems(4) False inc True a1 free_space_rep [OF rep1 a1]
        by (subst (asm) push3_loop.simps) simp
      from less.hyps [OF m rep1 less.prems(2) _ this] ne r show ?thesis by auto
    next
      case fail: False
      with r have "rc1 = - 1" "b1 = b" by auto
      moreover have "rc = - 1" "b' = b"
        using less.prems(4) False inc fail calculation
        by (simp_all add: push3_loop.simps [of alloc "int (length ms)" needed "free_space b" b])
      ultimately show ?thesis
        using False less.prems(1) increase_size_fails [OF less.prems(1)] inc by auto
    qed
  qed
qed

section \<open>Writing a message\<close>

definition arg_bytes :: "byte list option \<Rightarrow> byte list" where
  "arg_bytes x = (case x of None \<Rightarrow> [] | Some d \<Rightarrow> d)"

text \<open>\<open>wrote b a bs (b', w)\<close>: the ring from the read position on starts with \<open>bs\<close>, and \<open>w\<close> is behind it.\<close>

definition wrote :: "DltBuffer \<Rightarrow> DltBufferArea \<Rightarrow> byte list \<Rightarrow> DltBuffer \<times> int \<Rightarrow> bool" where
  "wrote b a bs bw \<longleftrightarrow>
     (\<exists>d. fst bw = b\<lparr>shm := Some (a\<lparr>data := d\<rparr>)\<rparr> \<and> length d = bsize b \<and>
          take (length bs) (ring d (nat (hread a))) = bs \<and>
          snd bw = int (ring_adv (bsize b) (nat (hread a)) (length bs)))"

lemma wrote_step:
  assumes w: "wrote b a bs bw" and ok: "area_ok (bsize b) a" "bsize b < 2147483648"
    and fit: "length bs + length src \<le> bsize b"
  shows "wrote b a (bs @ src) (dlt_buffer_write_block (fst bw) (snd bw) (Some src) (length src))"
proof -
  obtain d where d: "fst bw = b\<lparr>shm := Some (a\<lparr>data := d\<rparr>)\<rparr>" "length d = bsize b"
    "take (length bs) (ring d (nat (hread a))) = bs"
    "snd bw = int (ring_adv (bsize b) (nat (hread a)) (length bs))"
    using w by (auto simp: wrote_def)
  let ?q = "ring_adv (bsize b) (nat (hread a)) (length bs)"
  have r: "nat (hread a) \<le> bsize b" using ok by (auto simp: area_ok_def)
  have q: "?q \<le> bsize b" using r fit by (intro ring_adv_le) auto
  have "dlt_buffer_write_block (fst bw) (snd bw) (Some src) (length src) =
     (set_area (fst bw) (a\<lparr>data := ring_put d ?q src\<rparr>), int (ring_adv (bsize b) ?q (length src)))"
    using write_block_ring [of "fst bw" "a\<lparr>data := d\<rparr>" ?q src] d ok q fit by simp
  moreover have "take (length (bs @ src)) (ring (ring_put d ?q src) (nat (hread a))) = bs @ src"
    using ring_append_put [of "nat (hread a)" d "length bs" src] d r fit by simp
  moreover have "ring_adv (bsize b) ?q (length src) = ring_adv (bsize b) (nat (hread a)) (length (bs @ src))"
    using r fit by (simp add: ring_adv_add)
  ultimately show ?thesis
    unfolding wrote_def using d q fit by (intro exI [of _ "ring_put d ?q src"]) (simp add: set_area_def)
qed

lemma wrote_arg:
  assumes "wrote b a bs bw" "area_ok (bsize b) a" "bsize b < 2147483648"
    and "length bs + length (arg_bytes x) \<le> bsize b" "n = length (arg_bytes x)"
  shows "wrote b a (bs @ arg_bytes x) (write_opt bw x n)"
  using assms wrote_step [OF assms(1-3), of "arg_bytes x"]
  by (cases x) (auto simp: arg_bytes_def write_opt_def)

lemma wrote_start: "area_ok (bsize b) a \<Longrightarrow> shm b = Some a \<Longrightarrow> wrote b a (contents (bsize b) a) (b, hwrite a)"
  using write_pos [of "bsize b" a] length_contents [of "bsize b" a]
  unfolding wrote_def by (intro exI [of _ "data a"]) (auto simp: contents_def area_ok_def)

lemma push3_write_rep:
  assumes rep: "buffer_rep b ms" and a: "shm b = Some a" and pad: "length pad = 3"
    and w: "wrote b a (contents (bsize b) a @ block_head pad (int (length m)) @ m) (b', w')"
    and fit: "12 + int (length m) \<le> free_space b"
  shows "buffer_rep (b'\<lparr>shm := map_option (\<lambda>s. s\<lparr>hwrite := w', hcount := i32 (hcount s + 1)\<rparr>) (shm b')\<rparr>) (ms @ [m])"
proof -
  from rep a obtain fs where ok: "area_ok (bsize b) a" "list_all2 is_frame fs ms"
    "contents (bsize b) a = concat fs" "hcount a = int (length ms)" "sizes_ok b"
    "ring_used (bsize b) a = length (concat fs)" "bsize b < 2147483648" "12 * length ms \<le> bsize b"
    by (auto elim: buffer_repE)
  let ?f = "block_head pad (int (length m)) @ m" let ?n = "bsize b" let ?r = "nat (hread a)"
  define k where "k = length (concat fs @ ?f)"
  obtain d where d: "b' = b\<lparr>shm := Some (a\<lparr>data := d\<rparr>)\<rparr>" "length d = ?n"
    "take k (ring d ?r) = concat fs @ ?f" "w' = int (ring_adv ?n ?r k)"
    using w ok(3) by (auto simp: wrote_def k_def)
  let ?a = "a\<lparr>data := d, hwrite := w', hcount := int (length ms) + 1\<rparr>"
  have k: "k \<le> ?n" "0 < k" using fit a ok(6) pad ring_used_le [OF ok(1)]
    by (auto simp: free_space_def k_def)
  have c: "i32 (hcount a + 1) = int (length ms) + 1" using ok by (simp add: cconv)
  have r: "?r \<le> ?n" "0 \<le> hread a" using ok(1) by (auto simp: area_ok_def)
  have used: "ring_used ?n ?a = k"
    using d(4) k r by (auto simp: ring_used_def ring_adv_def)
  have "area_ok ?n ?a"
    using ok(1) d k r by (auto simp: area_ok_def ring_adv_def)
  moreover have "contents ?n ?a = concat (fs @ [?f])"
    using d(3) by (simp add: contents_def used)
  moreover have "list_all2 is_frame (fs @ [?f]) (ms @ [m])"
    using ok(2) pad by (intro list_all2_snoc) (auto simp: is_frame_def)
  ultimately show ?thesis
    unfolding buffer_rep_def using d(1) ok(4,5) c
    by (intro conjI exI [of _ ?a] exI [of _ "fs @ [?f]"]) (auto simp: sizes_ok_def)
qed

lemma push3_rep:
  assumes rep: "buffer_rep b ms" and alloc: "alloc_ok alloc" and pad: "length pad = 3"
    and m: "m = arg_bytes x1 @ arg_bytes x2 @ arg_bytes x3"
    and n: "n1 = length (arg_bytes x1)" "n2 = length (arg_bytes x2)" "n3 = length (arg_bytes x3)"
    and room: "ms \<noteq> [] \<or> 12 + length m \<le> bsize b" and len: "length m + 12 < 2147483648"
    and push: "dlt_buffer_push3 alloc pad (Some b) x1 n1 x2 n2 x3 n3 = (rc, buf')"
  shows "\<exists>b'. buf' = Some b' \<and> min_size b' = min_size b \<and> max_size b' = max_size b \<and> step_size b' = step_size b \<and>
    (rc = 0 \<and> buffer_rep b' (ms @ [m]) \<or>
     rc = - 1 \<and> buffer_rep b' ms \<and> free_space b' < 12 + int (length m) \<and>
       ((\<forall>k. alloc k \<noteq> None) \<longrightarrow> full_grown b'))"
proof -
  from rep obtain a fs where a: "shm b = Some a" and ok: "area_ok (bsize b) a" "bsize b < 2147483648"
    and c: "hcount a = int (length ms)" "ring_used (bsize b) a = length (concat fs)" "list_all2 is_frame fs ms"
    by (elim buffer_repE)
  have inrange: "\<not> (u32 (hread a) > bsize b \<or> u32 (hwrite a) > bsize b)"
    using ok by (auto simp: area_ok_def cconv)
  have needed: "i32 (int (12 + n1 + n2 + n3)) = 12 + int (length m)"
    using len by (simp add: m n cconv)
  have sz: "i32 (int ((n1 + n2 + n3) mod 4294967296)) = int (length m)"
    using len by (simp add: m n cconv)
  have room': "ms \<noteq> [] \<or> 12 + int (length m) \<le> free_space b"
    using room a c by (auto simp: free_space_def)
  obtain rc1 b1 where loop: "push3_loop alloc (int (length ms)) (12 + int (length m)) (free_space b) b = (rc1, b1)"
    by fastforce
  note L = push3_loop_rep [OF rep alloc room' loop]
  show ?thesis
  proof (cases "rc1 = 0")
    case False
    then have "rc = - 1" "buf' = Some b1"
      using push a inrange loop needed c(1) free_space_rep [OF rep a]
      by (auto simp: dlt_buffer_push3_def Let_def)
    with L False show ?thesis by auto
  next
    case True
    with L have rep1: "buffer_rep b1 ms" and fit: "12 + int (length m) \<le> free_space b1" by auto
    from rep1 obtain a1 where a1: "shm b1 = Some a1" and ok1: "area_ok (bsize b1) a1" "bsize b1 < 2147483648"
      by (elim buffer_repE)
    have total: "length (contents (bsize b1) a1) + 12 + length m \<le> bsize b1"
      using fit a1 length_contents [OF ok1(1)] ring_used_le [OF ok1(1)] by (simp add: free_space_def)
    let ?h = "block_head pad (int (length m))"
    define w2 where "w2 = dlt_buffer_write_block b1 (hwrite a1) (Some ?h) 12"
    define w3 where "w3 = write_opt w2 x1 n1"
    define w4 where "w4 = write_opt w3 x2 n2"
    define w5 where "w5 = write_opt w4 x3 n3"
    have s2: "wrote b1 a1 (contents (bsize b1) a1 @ ?h) w2"
      using wrote_step [OF wrote_start [OF ok1(1) a1] ok1, of ?h] pad total by (simp add: w2_def)
    have s3: "wrote b1 a1 ((contents (bsize b1) a1 @ ?h) @ arg_bytes x1) w3"
      unfolding w3_def using pad total m by (intro wrote_arg [OF s2 ok1 _ n(1)]) simp
    have s4: "wrote b1 a1 (((contents (bsize b1) a1 @ ?h) @ arg_bytes x1) @ arg_bytes x2) w4"
      unfolding w4_def using pad total m by (intro wrote_arg [OF s3 ok1 _ n(2)]) simp
    have s5: "wrote b1 a1 ((((contents (bsize b1) a1 @ ?h) @ arg_bytes x1) @ arg_bytes x2) @ arg_bytes x3) w5"
      unfolding w5_def using pad total m by (intro wrote_arg [OF s4 ok1 _ n(3)]) simp
    have "rc = 0" and buf': "buf' = Some ((fst w5)\<lparr>shm :=
        map_option (\<lambda>s. s\<lparr>hwrite := snd w5, hcount := i32 (hcount s + 1)\<rparr>) (shm (fst w5))\<rparr>)"
      using push a inrange loop needed c(1) free_space_rep [OF rep a] True a1 sz
      by (auto simp: dlt_buffer_push3_def Let_def w2_def w3_def w4_def w5_def)
    moreover have "buffer_rep ((fst w5)\<lparr>shm :=
        map_option (\<lambda>s. s\<lparr>hwrite := snd w5, hcount := i32 (hcount s + 1)\<rparr>) (shm (fst w5))\<rparr>) (ms @ [m])"
      using push3_write_rep [OF rep1 a1 pad, of m "fst w5" "snd w5"] s5 fit by (simp add: m)
    moreover have "min_size (fst w5) = min_size b1 \<and> max_size (fst w5) = max_size b1 \<and> step_size (fst w5) = step_size b1"
      using s5 by (auto simp: wrote_def)
    ultimately show ?thesis using L by simp
  qed
qed

section \<open>Reading a message\<close>

text \<open>The area after the first \<open>k\<close> used bytes, one message, were consumed.\<close>

definition consumed :: "nat \<Rightarrow> DltBufferArea \<Rightarrow> nat \<Rightarrow> DltBufferArea" where
  "consumed n a k = a\<lparr>hread := int (ring_adv n (nat (hread a)) k), hcount := hcount a - 1\<rparr>"

lemma consumed_used:
  assumes "area_ok n a" "0 < hcount a" "0 < k" "k \<le> ring_used n a" "hcount a = 1 \<longleftrightarrow> k = ring_used n a"
  shows "ring_used n (consumed n a k) = ring_used n a - k"
proof -
  define r where "r = nat (hread a)"
  define w where "w = nat (hwrite a)"
  have rw: "hread a = int r" "hwrite a = int w" "r \<le> n" "w \<le> n" "0 < w"
    using assms(1,2) by (auto simp: area_ok_def r_def w_def)
  show ?thesis
    using assms rw by (auto simp: ring_used_def ring_adv_def consumed_def split: if_splits)
qed

lemma consumed_ok:
  assumes "area_ok n a" "0 < hcount a" "0 < k" "k \<le> ring_used n a" "hcount a = 1 \<longleftrightarrow> k = ring_used n a"
  shows "area_ok n (consumed n a k)"
proof -
  have "ring_adv n (nat (hread a)) k \<le> n"
    using assms ring_used_le [OF assms(1)] by (intro ring_adv_le) (auto simp: area_ok_def)
  moreover have "hcount a = 1 \<Longrightarrow> int (ring_adv n (nat (hread a)) k) = hwrite a"
    using assms write_pos [OF assms(1)] by (auto simp: area_ok_def)
  ultimately show ?thesis using assms(1,2) by (auto simp: area_ok_def consumed_def)
qed

lemma consumed_contents:
  assumes "area_ok n a" "0 < hcount a" "0 < k" "k \<le> ring_used n a" "hcount a = 1 \<longleftrightarrow> k = ring_used n a"
  shows "contents n (consumed n a k) = drop k (contents n a)"
proof -
  have "length (data a) = n" "nat (hread a) \<le> n" using assms(1) by (auto simp: area_ok_def)
  then show ?thesis
    using ring_drop [of "nat (hread a)" "data a" k "ring_used n a - k"] assms(4) ring_used_le [OF assms(1)]
      consumed_used [OF assms]
    by (simp add: contents_def consumed_def)
qed

lemma minimize_rep:
  assumes "buffer_rep b []" "alloc_ok alloc"
  shows "buffer_rep (snd (dlt_buffer_minimize_size alloc b)) []"
proof -
  from assms(1) have s: "sizes_ok b" by (simp add: buffer_rep_def)
  then have n: "u32 (int (min_size b) - 12) = min_size b - 12"
    by (auto simp: sizes_ok_def cconv)
  show ?thesis
  proof (cases "bsize b + 12 = min_size b \<or> alloc (min_size b) = None")
    case True
    with assms show ?thesis by (auto simp: dlt_buffer_minimize_size_def)
  next
    case False
    then obtain blk where blk: "alloc (min_size b) = Some blk" "bsize b + 12 \<noteq> min_size b" by auto
    then have "length (drop 12 blk) = min_size b - 12" using assms(2) by (auto simp: alloc_ok_def)
    then show ?thesis
      using blk s n by (auto simp: dlt_buffer_minimize_size_def buffer_rep_def sizes_ok_def area_ok_def
          contents_def ring_used_def Let_def)
  qed
qed

lemma minimize_sizes:
  "min_size (snd (dlt_buffer_minimize_size alloc b)) = min_size b"
  "max_size (snd (dlt_buffer_minimize_size alloc b)) = max_size b"
  "step_size (snd (dlt_buffer_minimize_size alloc b)) = step_size b"
  by (auto simp: dlt_buffer_minimize_size_def Let_def split: option.splits)

lemma consume_rep:
  assumes rep: "buffer_rep b (m # ms)" and a: "shm b = Some a" and alloc: "alloc_ok alloc"
    and b1: "b1 = set_area b (consumed (bsize b) a (12 + length m))"
  shows "buffer_rep (if hcount a - 1 = 0 then snd (dlt_buffer_minimize_size alloc b1) else b1) ms"
proof -
  from rep a obtain f fs where ok: "area_ok (bsize b) a" "is_frame f m" "list_all2 is_frame fs ms"
    "contents (bsize b) a = f @ concat fs" "hcount a = int (length (m # ms))" "sizes_ok b"
    "ring_used (bsize b) a = length (f @ concat fs)"
    by (auto elim!: buffer_repE simp: list_all2_Cons2)
  have k: "length f = 12 + length m" by (rule frame_length [OF ok(2)])
  have one: "hcount a = 1 \<longleftrightarrow> 12 + length m = ring_used (bsize b) a"
  proof -
    have "length (concat fs) = 0 \<longleftrightarrow> length ms = 0"
      using ok(3) frames_length [OF ok(3)] by (cases ms) (auto simp del: length_0_conv)
    then show ?thesis using ok(5,7) k by auto
  qed
  have pre: "0 < hcount a" "0 < 12 + length m" "12 + length m \<le> ring_used (bsize b) a"
    using ok k by auto
  have rep1: "buffer_rep b1 ms"
    unfolding buffer_rep_def b1
    using consumed_ok [OF ok(1) pre one] consumed_contents [OF ok(1) pre one] ok k
    by (intro conjI exI [of _ "consumed (bsize b) a (12 + length m)"] exI [of _ fs])
       (auto simp: set_area_def sizes_ok_def consumed_def)
  show ?thesis
  proof (cases "hcount a - 1 = 0")
    case True
    with ok(5) have "ms = []" by simp
    with rep1 minimize_rep [OF _ alloc, of b1] True show ?thesis by simp
  qed (use rep1 in auto)
qed

lemma skip_adv:
  assumes "q \<le> n" "k \<le> n" "n < 2147483648"
  shows "(if u32 (int q + int k) \<le> n then int q + int k else int q + int k - int n) = int (ring_adv n q k)"
  using assms by (auto simp: ring_adv_def cconv nat_add_distrib)

text \<open>The two block reads of \<open>dlt_buffer_get\<close>: the header of the oldest message and its bytes.\<close>

lemma get_reads:
  assumes a: "shm b = Some a" and ok: "area_ok (bsize b) a" "is_frame f m"
    "contents (bsize b) a = f @ rest" "bsize b < 2147483648"
    and q: "q = ring_adv (bsize b) (nat (hread a)) 12"
  shows "dlt_buffer_read_block b (hread a) 12 = (Some (take 12 f), int q)"
    and "dlt_buffer_read_block b (int q) (u32 (int (length m))) =
           (Some m, int (ring_adv (bsize b) (nat (hread a)) (12 + length m)))"
    and "ring_adv (bsize b) q (length m) = ring_adv (bsize b) (nat (hread a)) (12 + length m)"
    and "q \<le> bsize b" "12 + length m \<le> bsize b" "12 + length m \<le> ring_used (bsize b) a"
proof -
  let ?n = "bsize b" let ?r = "nat (hread a)" let ?R = "ring (data a) ?r"
  have k: "length f = 12 + length m" by (rule frame_length [OF ok(2)])
  show used: "12 + length m \<le> ring_used ?n a"
    using length_contents [OF ok(1)] ok(3) k by simp
  then show n: "12 + length m \<le> ?n" using ring_used_le [OF ok(1)] by simp
  have r: "?r \<le> ?n" "int ?r = hread a" "length (data a) = ?n" using ok(1) by (auto simp: area_ok_def)
  have "take (length f) (contents ?n a) = f" using ok(3) by simp
  then have R: "take (12 + length m) ?R = f" using used k by (simp add: contents_def min_def)
  have "dlt_buffer_read_block b (int ?r) 12 = (Some (take 12 ?R), int q)"
    unfolding q using n ok(4) r by (intro read_block_ring [OF a]) auto
  moreover have "take 12 ?R = take 12 f"
    using arg_cong [OF R, of "take 12"] by (simp add: min_def)
  ultimately show "dlt_buffer_read_block b (hread a) 12 = (Some (take 12 f), int q)" using r(2) by simp
  show q_le: "q \<le> ?n" unfolding q using r n by (intro ring_adv_le) auto
  show r3: "ring_adv ?n q (length m) = ring_adv ?n ?r (12 + length m)"
    unfolding q using r n by (intro ring_adv_add) auto
  have "dlt_buffer_read_block b (int q) (length m) =
      (Some (take (length m) (ring (data a) q)), int (ring_adv ?n ?r (12 + length m)))"
    unfolding r3 [symmetric] using n ok(4) r q_le by (intro read_block_ring [OF a]) auto
  moreover have "take (length m) (ring (data a) q) = m"
    using ring_drop [of ?r "data a" 12 "length m"] R n r frame_read(4) [OF ok(2)] ok(4) by (simp add: q)
  ultimately show "dlt_buffer_read_block b (int q) (u32 (int (length m))) =
      (Some m, int (ring_adv ?n ?r (12 + length m)))"
    using n ok(4) by (simp add: cconv)
qed

lemma get_rep:
  assumes rep: "buffer_rep b (m # ms)" and alloc: "alloc_ok alloc"
  shows "\<exists>b'. dlt_buffer_get alloc (Some b) dest maxs del =
      (int (length m), Some b',
       case dest of Some d \<Rightarrow> if maxs \<noteq> 0 then Some (memput d 0 m) else dest | None \<Rightarrow> None) \<and>
    buffer_rep b' (if del then ms else m # ms) \<and>
    min_size b' = min_size b \<and> max_size b' = max_size b \<and> step_size b' = step_size b"
proof -
  from rep obtain a f fs where a: "shm b = Some a" and ok: "area_ok (bsize b) a" "is_frame f m"
    "contents (bsize b) a = f @ concat fs" "hcount a = int (length (m # ms))" "bsize b < 2147483648"
    by (auto elim!: buffer_repE simp: list_all2_Cons2)
  let ?n = "bsize b" let ?q = "ring_adv ?n (nat (hread a)) 12"
  note rd = get_reads [OF a ok(1-3,5) refl]
  have m31: "length m < 2147483648" using rd(5) ok(5) by simp
  have skip: "(if u32 (int ?q + int (length m)) \<le> ?n then int ?q + int (length m)
               else int ?q + int (length m) - int ?n) = int (ring_adv ?n (nat (hread a)) (12 + length m))"
    unfolding rd(3) [symmetric] using rd(4,5) ok(5) by (intro skip_adv) auto
  have checks: "\<not> (u32 (hread a) > ?n \<or> u32 (hwrite a) > ?n \<or> hcount a < 0)" "hcount a \<noteq> 0"
    using ok(1,4,5) by (auto simp: area_ok_def cconv)
  have usz: "(if hwrite a > hread a then hwrite a - hread a else i32 (int ?n) - hread a + hwrite a)
     = int (ring_used ?n a)"
    using ok(1,5) checks(2) by (auto simp: area_ok_def ring_used_def cconv of_nat_diff)
  have big: "\<not> int (ring_used ?n a) < 12" "\<not> int (ring_used ?n a) < 12 + int (length m)"
    "\<not> ring_used ?n a < 12" using rd(6) by auto
  let ?b1 = "set_area b (consumed ?n a (12 + length m))"
  let ?b' = "if del then if hcount a - 1 = 0 then snd (dlt_buffer_minimize_size alloc ?b1) else ?b1 else b"
  have "dlt_buffer_get alloc (Some b) dest maxs del =
      (int (length m), Some ?b',
       case dest of Some d \<Rightarrow> if maxs \<noteq> 0 then Some (memput d 0 m) else dest | None \<Rightarrow> None)"
    unfolding dlt_buffer_get_def
    by (cases dest; cases "maxs = 0"; cases del)
       (simp_all add: a checks usz big rd(1,2) skip frame_read [OF ok(2) m31] consumed_def Let_def)
  moreover have "buffer_rep ?b' (if del then ms else m # ms)"
    using consume_rep [OF rep a alloc refl] rep by simp
  ultimately show ?thesis by (auto simp: minimize_sizes set_area_def)
qed

lemma get_empty:
  assumes "buffer_rep b []"
  shows "dlt_buffer_get alloc (Some b) dest maxs del = (- 1, Some b, dest)"
proof -
  from assms obtain a where a: "shm b = Some a" "area_ok (bsize b) a" "hcount a = 0" "bsize b < 2147483648"
    by (auto elim!: buffer_repE)
  then have "\<not> (u32 (hread a) > bsize b \<or> u32 (hwrite a) > bsize b)" "hwrite a = hread a"
    by (auto simp: area_ok_def cconv)
  with a show ?thesis by (simp add: dlt_buffer_get_def Let_def)
qed

lemma init_dynamic_rep:
  assumes "alloc_ok alloc" "maxs < 2147483648"
    and "dlt_buffer_init_dynamic alloc (Some b) mins maxs step = (0, buf')"
  shows "\<exists>b'. buf' = Some b' \<and> buffer_rep b' [] \<and> min_size b' = mins \<and> max_size b' = maxs \<and> step_size b' = step"
proof -
  obtain blk where blk: "alloc mins = Some blk" "12 \<le> mins" "mins \<le> maxs" "length blk = mins"
    using assms by (auto simp: dlt_buffer_init_dynamic_def Let_def alloc_ok_def split: if_splits option.splits)
  let ?a = "\<lparr>hwrite = 0, hread = 0, hcount = 0, data = memput (drop 12 blk) 0 (replicate (mins - 12) (0::byte))\<rparr>"
  have "buf' = Some (b\<lparr>min_size := mins, max_size := maxs, step_size := step, shm := Some ?a, bsize := mins - 12\<rparr>)"
    using assms(3) blk by (auto simp: dlt_buffer_init_dynamic_def Let_def split: if_splits)
  then show ?thesis
    using blk assms(2) by (auto simp: buffer_rep_def sizes_ok_def area_ok_def contents_def ring_used_def)
qed

section \<open>The buffer as a first-in first-out queue\<close>

text \<open>
  What the clients of the buffer (\<open>dlt_user.c\<close> and the daemon) rely on: a state that stands for
  a list of messages, a push that appends or refuses, a look at the oldest message and its
  removal. \<open>accept\<close> is the class of messages the provider promises to keep.
\<close>

datatype 'm fifo_op = Push 'm | Pop

locale message_fifo =
  fixes rep :: "'s \<Rightarrow> 'm list \<Rightarrow> bool"
    and accept :: "'s \<Rightarrow> 'm \<Rightarrow> bool"
    and push :: "'m \<Rightarrow> 's \<Rightarrow> bool \<times> 's"
    and peek :: "'s \<Rightarrow> 'm option"
    and discard :: "'s \<Rightarrow> 's"
  assumes push_rep: "rep s ms \<Longrightarrow> accept s m \<Longrightarrow> push m s = (ok, s') \<Longrightarrow> rep s' (if ok then ms @ [m] else ms)"
    and push_accept: "rep s ms \<Longrightarrow> accept s m \<Longrightarrow> push m s = (ok, s') \<Longrightarrow> accept s' = accept s"
    and peek_rep: "rep s ms \<Longrightarrow> peek s = (case ms of [] \<Rightarrow> None | m # _ \<Rightarrow> Some m)"
    and discard_rep: "rep s ms \<Longrightarrow> rep (discard s) (tl ms)"
    and discard_accept: "rep s ms \<Longrightarrow> accept (discard s) = accept s"
begin

text \<open>
  A run of operations: the final state, the messages the queue took and the messages read
  and removed, both in order.
\<close>

fun run :: "'m fifo_op list \<Rightarrow> 's \<Rightarrow> 's \<times> 'm list \<times> 'm list" where
  "run [] s = (s, [], [])"
| "run (Push m # ops) s =
     (let (ok, s1) = push m s; (s', taken, read) = run ops s1
      in (s', if ok then m # taken else taken, read))"
| "run (Pop # ops) s =
     (case peek s of
        None \<Rightarrow> run ops s
      | Some m \<Rightarrow> let (s', taken, read) = run ops (discard s) in (s', taken, m # read))"

lemma run_history:
  assumes "rep s ms" "\<forall>m. Push m \<in> set ops \<longrightarrow> accept s m" "run ops s = (s', taken, read)"
  shows "\<exists>ms'. rep s' ms' \<and> ms @ taken = read @ ms'"
  using assms
proof (induction ops s arbitrary: ms s' taken read rule: run.induct)
  case (1 s)
  then show ?case by auto
next
  case (2 m ops s)
  obtain ok s1 where p: "push m s = (ok, s1)" by fastforce
  obtain t where r: "run ops s1 = (s', t, read)" and t: "taken = (if ok then m # t else t)"
    using "2.prems"(3) p by (auto split: prod.splits)
  have acc: "accept s m" "accept s1 = accept s"
    using "2.prems"(1,2) p push_accept by auto
  have "\<exists>ms'. rep s' ms' \<and> (if ok then ms @ [m] else ms) @ t = read @ ms'"
    using "2.prems"(2) acc by (intro "2.IH" [OF p [symmetric] refl push_rep [OF "2.prems"(1) acc(1) p] _ r]) simp
  then show ?case using t by auto
next
  case (3 ops s)
  show ?case
  proof (cases ms)
    case Nil
    then have "peek s = None" using peek_rep [OF "3.prems"(1)] by simp
    with 3 show ?thesis by auto
  next
    case (Cons m ms1)
    then have pk: "peek s = Some m" using peek_rep [OF "3.prems"(1)] by simp
    then obtain rd where r: "run ops (discard s) = (s', taken, rd)" and rd: "read = m # rd"
      using "3.prems"(3) by (auto split: prod.splits)
    have "\<exists>ms'. rep s' ms' \<and> tl ms @ taken = rd @ ms'"
      using "3.prems"(2) discard_accept [OF "3.prems"(1)]
      by (intro "3.IH"(2) [OF pk discard_rep [OF "3.prems"(1)] _ r]) simp
    then show ?thesis using rd Cons by auto
  qed
qed

end

text \<open>The provider: a buffer with the allocator and the padding bytes its calls meet.\<close>

type_synonym buffer_env = "(nat \<Rightarrow> byte list option) \<times> (DltBuffer \<Rightarrow> byte list) \<times> DltBuffer"

definition env_rep :: "buffer_env \<Rightarrow> byte list list \<Rightarrow> bool" where
  "env_rep e ms = (case e of (alloc, pad, b) \<Rightarrow>
     alloc_ok alloc \<and> (\<forall>x. length (pad x) = 3) \<and> buffer_rep b ms)"

text \<open>Messages that fit into the buffer at its minimal size, with their block header.\<close>

definition env_accept :: "buffer_env \<Rightarrow> byte list \<Rightarrow> bool" where
  "env_accept e m = (case e of (alloc, pad, b) \<Rightarrow> length m + 24 \<le> min_size b)"

definition env_push :: "byte list \<Rightarrow> buffer_env \<Rightarrow> bool \<times> buffer_env" where
  "env_push m e = (case e of (alloc, pad, b) \<Rightarrow>
     (case dlt_buffer_push alloc (pad b) (Some b) (Some m) (length m) of
        (rc, Some b') \<Rightarrow> (rc = 0, (alloc, pad, b')) | (rc, None) \<Rightarrow> (rc = 0, e)))"

definition env_peek :: "buffer_env \<Rightarrow> byte list option" where
  "env_peek e = (case e of (alloc, pad, b) \<Rightarrow>
     (case dlt_buffer_copy alloc (Some b) (Some (replicate (bsize b) 0)) (int (bsize b)) of
        (n, _, Some d) \<Rightarrow> if n < 0 then None else Some (take (nat n) d) | _ \<Rightarrow> None))"

definition env_discard :: "buffer_env \<Rightarrow> buffer_env" where
  "env_discard e = (case e of (alloc, pad, b) \<Rightarrow>
     (case dlt_buffer_remove alloc (Some b) of (n, Some b') \<Rightarrow> (alloc, pad, b') | _ \<Rightarrow> e))"

lemma env_push_rep:
  assumes "env_rep e ms" "env_accept e m" "env_push m e = (ok, e')"
  shows "env_rep e' (if ok then ms @ [m] else ms) \<and> env_accept e' = env_accept e"
proof -
  obtain alloc pad b where e: "e = (alloc, pad, b)" by (cases e) auto
  obtain rc buf' where p: "dlt_buffer_push3 alloc (pad b) (Some b) (Some m) (length m) None 0 None 0 = (rc, buf')"
    by fastforce
  have h: "alloc_ok alloc" "length (pad b) = 3" "buffer_rep b ms" "length m + 24 \<le> min_size b"
    using assms(1,2) by (auto simp: env_rep_def env_accept_def e)
  then have s: "min_size b \<le> bsize b + 12" "min_size b < 2147483648"
    by (auto simp: buffer_rep_def sizes_ok_def)
  obtain b' where "buf' = Some b'" "min_size b' = min_size b"
    "rc = 0 \<and> buffer_rep b' (ms @ [m]) \<or> rc = - 1 \<and> buffer_rep b' ms"
    using push3_rep [OF h(3,1,2) _ _ _ _ _ _ p, of m] h(4) s by (auto simp: arg_bytes_def)
  with assms p h e show ?thesis
    by (auto simp: env_push_def dlt_buffer_push_def env_rep_def env_accept_def fun_eq_iff)
qed

lemma env_peek_rep: "env_rep e ms \<Longrightarrow> env_peek e = (case ms of [] \<Rightarrow> None | m # _ \<Rightarrow> Some m)"
proof -
  assume rep: "env_rep e ms"
  obtain alloc pad b where e: "e = (alloc, pad, b)" by (cases e) auto
  with rep have h: "alloc_ok alloc" "buffer_rep b ms" by (auto simp: env_rep_def)
  show ?thesis
  proof (cases ms)
    case Nil
    with h get_empty [of b] show ?thesis by (simp add: e env_peek_def dlt_buffer_copy_def)
  next
    case (Cons m ms1)
    then have "12 * length ms \<le> bsize b" "bsize b > 0" using h by (auto elim!: buffer_repE)
    with get_rep [of b m ms1 alloc "Some (replicate (bsize b) 0)" "int (bsize b)" False] h Cons
    show ?thesis by (auto simp: e env_peek_def dlt_buffer_copy_def memput_def)
  qed
qed

lemma env_discard_rep: "env_rep e ms \<Longrightarrow> env_rep (env_discard e) (tl ms) \<and> env_accept (env_discard e) = env_accept e"
proof -
  assume rep: "env_rep e ms"
  obtain alloc pad b where e: "e = (alloc, pad, b)" by (cases e) auto
  with rep have h: "alloc_ok alloc" "buffer_rep b ms" "\<forall>x. length (pad x) = 3" by (auto simp: env_rep_def)
  show ?thesis
  proof (cases ms)
    case Nil
    with h get_empty [of b] show ?thesis by (simp add: e env_discard_def dlt_buffer_remove_def env_rep_def)
  next
    case (Cons m ms1)
    with get_rep [of b m ms1 alloc None 0 True] h
    show ?thesis by (auto simp: e env_discard_def dlt_buffer_remove_def env_rep_def env_accept_def intro!: ext)
  qed
qed

interpretation ringbuffer: message_fifo env_rep env_accept env_push env_peek env_discard
  by unfold_locales (auto simp: env_peek_rep dest: env_push_rep env_discard_rep)

section \<open>Properties\<close>

text \<open>
  C3. \<open>dlt_buffer_push3\<close> on a buffer that holds the messages \<open>ms\<close>, and that is not empty or has a data
  area large enough for the new message with its header, either returns \<open>DLT_RETURN_OK\<close>
  and the buffer then holds \<open>ms\<close> followed by the concatenation of the three parts, whatever
  wrap-around or growth was needed, or returns \<open>DLT_RETURN_ERROR\<close> with the messages intact
  and, if the allocator never fails, only because the buffer is at its maximal size and the
  message does not fit. An empty buffer that must grow for the message is excluded: there the message
  is lost (\<open>push_on_empty_growth_loses_message\<close>).
\<close>

theorem push3_appends_or_refuses:
  assumes "buffer_rep b ms" "alloc_ok alloc" "length pad = 3"
    and "m = arg_bytes x1 @ arg_bytes x2 @ arg_bytes x3"
    and "n1 = length (arg_bytes x1)" "n2 = length (arg_bytes x2)" "n3 = length (arg_bytes x3)"
    and "ms \<noteq> [] \<or> 12 + length m \<le> bsize b" "length m + 12 < 2147483648"
    and "dlt_buffer_push3 alloc pad (Some b) x1 n1 x2 n2 x3 n3 = (rc, buf')"
  shows "\<exists>b'. buf' = Some b' \<and>
    (rc = 0 \<and> buffer_rep b' (ms @ [m]) \<or>
     rc = - 1 \<and> buffer_rep b' ms \<and> free_space b' < 12 + int (length m) \<and>
       ((\<forall>k. alloc k \<noteq> None) \<longrightarrow> full_grown b'))"
  using push3_rep [OF assms] by auto

definition example_alloc :: "nat \<Rightarrow> byte list option" where
  "example_alloc n = Some (replicate n 0)"

definition example_buffer :: DltBuffer where
  "example_buffer = \<lparr>shm = None, bsize = 0, min_size = 0, max_size = 0, step_size = 0\<rparr>"

lemma example_alloc_ok: "alloc_ok example_alloc"
  by (simp add: alloc_ok_def example_alloc_def)

definition example_started :: DltBuffer where
  "example_started = \<lparr>shm = Some \<lparr>hwrite = 0, hread = 0, hcount = 0, data = replicate 30 0\<rparr>,
     bsize = 30, min_size = 42, max_size = 200, step_size = 50\<rparr>"

lemma example_started_rep: "buffer_rep example_started []"
  by (simp add: buffer_rep_def example_started_def sizes_ok_def area_ok_def contents_def ring_used_def)

theorem push3_appends_or_refuses_witness:
  "\<exists>b'. snd (dlt_buffer_push3 example_alloc [0, 0, 0] (Some example_started)
        (Some [1, 2]) 2 (Some [3]) 1 None 0) = Some b' \<and>
     (fst (dlt_buffer_push3 example_alloc [0, 0, 0] (Some example_started)
        (Some [1, 2]) 2 (Some [3]) 1 None 0) = 0 \<and> buffer_rep b' [[1, 2, 3]] \<or>
      fst (dlt_buffer_push3 example_alloc [0, 0, 0] (Some example_started)
        (Some [1, 2]) 2 (Some [3]) 1 None 0) = - 1)"
  using push3_appends_or_refuses [OF example_started_rep example_alloc_ok, of "[0, 0, 0]" "[1, 2, 3]" "Some [1, 2]" "Some [3]" None 2 1 0
      "fst (dlt_buffer_push3 example_alloc [0, 0, 0] (Some example_started) (Some [1, 2]) 2 (Some [3]) 1 None 0)"
      "snd (dlt_buffer_push3 example_alloc [0, 0, 0] (Some example_started) (Some [1, 2]) 2 (Some [3]) 1 None 0)"]
  by (auto simp: arg_bytes_def example_started_def)

text \<open>
  C4. \<open>dlt_buffer_get\<close> (\<open>pull\<close>, \<open>copy\<close> and \<open>remove\<close>) on a buffer whose oldest message is \<open>m\<close>
  returns the length of \<open>m\<close>, copies \<open>m\<close> to the caller's buffer when there is one and a
  non-zero \<open>max_size\<close>, and leaves the remaining messages: with \<open>delete\<close> without \<open>m\<close> (also when
  that shrinks the buffer to its minimal size), otherwise unchanged.
\<close>

theorem get_returns_oldest:
  assumes "buffer_rep b (m # ms)" "alloc_ok alloc"
  shows "\<exists>b'. dlt_buffer_get alloc (Some b) dest maxs del =
      (int (length m), Some b',
       case dest of Some d \<Rightarrow> if maxs \<noteq> 0 then Some (memput d 0 m) else dest | None \<Rightarrow> None) \<and>
    buffer_rep b' (if del then ms else m # ms)"
  using get_rep [OF assms] by blast

definition example_filled :: DltBuffer where
  "example_filled = \<lparr>shm = Some \<lparr>hwrite = 15, hread = 0, hcount = 1,
       data = block_head [0, 0, 0] 3 @ [1, 2, 3] @ replicate 15 0\<rparr>,
     bsize = 30, min_size = 42, max_size = 200, step_size = 50\<rparr>"

lemma example_filled_rep: "buffer_rep example_filled [[1, 2, 3]]"
proof -
  have "is_frame (block_head [0, 0, 0] 3 @ [1, 2, 3]) [1, 2, 3]"
    unfolding is_frame_def by (intro exI [of _ "[0, 0, 0]"]) simp
  then show ?thesis
    unfolding buffer_rep_def example_filled_def
    by (intro conjI exI [of _ "the (shm example_filled)"] exI [of _ "[block_head [0, 0, 0] 3 @ [1, 2, 3]]"])
       (simp_all add: sizes_ok_def area_ok_def contents_def ring_used_def example_filled_def ring_def)
qed

theorem get_returns_oldest_witness:
  "\<exists>b'. dlt_buffer_get example_alloc (Some example_filled) (Some [0, 0, 0, 0]) 4 True =
     (3, Some b', Some [1, 2, 3, 0]) \<and> buffer_rep b' []"
  using get_returns_oldest [OF example_filled_rep example_alloc_ok, of "Some [0, 0, 0, 0]" 4 True]
  by (simp add: memput_def)

text \<open>
  C5. First in, first out over any run of pushes, reads and removals in which every message that is pushed
  fits the smallest size of the buffer, with its header: the messages the buffer
  held and accepted, in order, are the messages read, in order, followed by what it still
  holds. No accepted message is lost, duplicated or reordered, whatever allocations fail. A larger message can be lost
  when it is pushed on the empty buffer (\<open>push_on_empty_growth_loses_message\<close>).
\<close>

theorem buffer_history:
  assumes "env_rep e ms" "\<forall>m. Push m \<in> set ops \<longrightarrow> env_accept e m"
    and "ringbuffer.run ops e = (e', taken, read)"
  shows "\<exists>ms'. env_rep e' ms' \<and> ms @ taken = read @ ms'"
  using assms by (rule ringbuffer.run_history)

definition example_env :: buffer_env where
  "example_env = (example_alloc, \<lambda>_. [0, 0, 0], example_filled)"

theorem buffer_history_witness:
  "\<exists>ms'. env_rep (fst (ringbuffer.run [Push [7, 8], Pop] example_env)) ms' \<and>
     [[1, 2, 3]] @ fst (snd (ringbuffer.run [Push [7, 8], Pop] example_env)) =
     snd (snd (ringbuffer.run [Push [7, 8], Pop] example_env)) @ ms'"
proof -
  have rep: "env_rep example_env [[1, 2, 3]]"
    by (simp add: env_rep_def example_env_def example_alloc_ok example_filled_rep)
  have acc: "\<forall>m. Push m \<in> set [Push [7, 8], Pop] \<longrightarrow> env_accept example_env m"
    by (simp add: env_accept_def example_env_def example_filled_def)
  obtain e' taken read where run: "ringbuffer.run [Push [7, 8], Pop] example_env = (e', taken, read)"
    by (rule prod_cases3)
  show ?thesis using buffer_history [OF rep acc run] by (simp only: run fst_conv snd_conv)
qed

text \<open>
  A \<open>max_size\<close> smaller than the stored message does not limit the copy: \<open>dlt_buffer_get\<close>
  only logs a warning and writes the whole message, past the end of the caller's buffer.
\<close>

theorem get_ignores_max_size:
  assumes "buffer_rep b (m # ms)" "alloc_ok alloc" "length d = nat maxs" "0 < maxs" "maxs < int (length m)"
  shows "\<exists>b' d'. dlt_buffer_get alloc (Some b) (Some d) maxs del = (int (length m), Some b', Some d') \<and>
     d' = m \<and> length d < length d'"
  using get_rep [OF assms(1,2), of "Some d" maxs del] assms(3-5) by (auto simp: memput_def)

text \<open>
  A message larger than the data area of an empty buffer is lost although the push returns
  \<open>DLT_RETURN_OK\<close>: \<open>dlt_buffer_increase_size\<close> takes equal positions for a full ring, the message
  is stored behind the stale bytes and the next read finds no header and resets the buffer.
\<close>

theorem push_on_empty_growth_loses_message:
  "let b0 = snd (dlt_buffer_init_dynamic example_alloc (Some example_buffer) 20 100 40);
       (rc, b1) = dlt_buffer_push example_alloc [0, 0, 0] b0 (Some [1, 2, 3]) 3;
       (n, b2, out) = dlt_buffer_pull example_alloc b1 (Some (replicate 10 0)) 10
   in fst (dlt_buffer_init_dynamic example_alloc (Some example_buffer) 20 100 40) = 0 \<and>
      rc = 0 \<and> dlt_buffer_get_message_count b1 = 1 \<and>
      n = - 1 \<and> dlt_buffer_get_message_count b2 = 0"
proof -
  have "replicate 4 (0 :: byte) = [0, 0, 0, 0]" by (simp add: eval_nat_numeral)
  then have "replicate 4 (0 :: byte) \<noteq> [83, 72, 77, 0]" by simp
  then show ?thesis
    by (simp add: dlt_buffer_init_dynamic_def example_alloc_def example_buffer_def dlt_buffer_push_def
      dlt_buffer_push3_def push3_loop.simps push3_free_size_def dlt_buffer_increase_size_def
      dlt_buffer_write_block_def write_opt_def mem_write_def block_head_def dlt_buffer_pull_def dlt_buffer_get_def
      dlt_buffer_read_block_def mem_of_def memput_def memget_def head_head_def DLT_BUFFER_HEAD_def
      dlt_buffer_reset_def dlt_buffer_get_message_count_def i32_def u32_def Let_def)
qed

end
