(* ===== verification/Dlt_Receiver.thy ===== *)
theory Dlt_Receiver
  imports DLT_Prelude
begin

text \<open>
  The receiver of \<open>src/shared/dlt_common.c\<close>: the buffer in which bytes from a socket, a pipe or a
  file wait until a message is complete. Blocks of memory are named by addresses and kept in a
  store, because all application receivers of the daemon share one block
  (\<open>dlt_receiver_init_global_buffer\<close>). The position \<open>buf\<close> is an offset into the block of the
  receiver. The system calls \<open>recv\<close>, \<open>read\<close> and \<open>recvfrom\<close> are the parameter \<open>rd\<close>: for the
  number of bytes asked for it gives the bytes delivered, or None for an error.
\<close>

unbundle bit_operations_syntax

section \<open>State\<close>

datatype DltReceiverType = DLT_RECEIVE_SOCKET | DLT_RECEIVE_UDP_SOCKET | DLT_RECEIVE_FD

type_synonym store = "nat \<Rightarrow> byte list"

record DltReceiver =
  lastBytesRcvd :: int
  bytesRcvd :: int
  totalBytesRcvd :: int
  rbuffer :: "nat option"
  buf :: "nat option"
  backup_buf :: "byte list option"
  fd :: int
  rtype :: DltReceiverType
  buffersize :: int

abbreviation (input) DLT_RECEIVE_BUFSIZE :: nat where "DLT_RECEIVE_BUFSIZE \<equiv> 65535"
abbreviation (input) SIZEOF_DltUserHeader :: nat where "SIZEOF_DltUserHeader \<equiv> 8"

section \<open>Operations\<close>

text \<open>\<open>calloc_at\<close> is the address of a fresh block of the given size, if there is one.\<close>

definition dlt_receiver_init ::
  "(nat \<Rightarrow> nat option) \<Rightarrow> store \<Rightarrow> DltReceiver option \<Rightarrow> int \<Rightarrow> DltReceiverType \<Rightarrow> int \<Rightarrow>
   int \<times> store \<times> DltReceiver option" where
  "dlt_receiver_init calloc_at mem rcv fd' type' buffersize' =
     (case rcv of None \<Rightarrow> (DLT_RETURN_WRONG_PARAMETER, mem, None)
      | Some r \<Rightarrow>
        let r1 = r\<lparr>fd := fd', rtype := type'\<rparr>;
            r2 = (if rbuffer r1 \<noteq> None \<and> buffersize' \<noteq> buffersize r1 then r1\<lparr>rbuffer := None\<rparr> else r1);
            bytes = nat (buffersize' mod 2 ^ 64);
            r3 = (if rbuffer r2 = None
                  then r2\<lparr>lastBytesRcvd := 0, bytesRcvd := 0, totalBytesRcvd := 0, buf := None, backup_buf := None,
                         rbuffer := calloc_at bytes, buffersize := i32 (int (u32 buffersize'))\<rparr>
                  else r2);
            mem' = (case (rbuffer r2, calloc_at bytes) of (None, Some a) \<Rightarrow> mem(a := replicate bytes 0) | _ \<Rightarrow> mem)
        in if rbuffer r3 = None then (DLT_RETURN_ERROR, mem', Some r3)
           else (DLT_RETURN_OK, mem', Some (r3\<lparr>buf := Some 0\<rparr>)))"

text \<open>The shared block; \<open>malloc_block\<close> is its uninitialised content when it has to be allocated.\<close>

definition dlt_receiver_init_global_buffer ::
  "(nat \<times> byte list) option \<Rightarrow> store \<Rightarrow> DltReceiver option \<Rightarrow> int \<Rightarrow> DltReceiverType \<Rightarrow> nat option \<Rightarrow>
   int \<times> store \<times> DltReceiver option \<times> nat option" where
  "dlt_receiver_init_global_buffer malloc_block mem rcv fd' type' global =
     (case rcv of None \<Rightarrow> (DLT_RETURN_WRONG_PARAMETER, mem, None, global)
      | Some r \<Rightarrow>
        let global' = (if global = None then map_option fst malloc_block else global);
            mem' = (case (global, malloc_block) of (None, Some (a, blk)) \<Rightarrow> mem(a := blk) | _ \<Rightarrow> mem)
        in if global' = None then (DLT_RETURN_ERROR, mem', rcv, global')
           else (DLT_RETURN_OK, mem',
                 Some (r\<lparr>lastBytesRcvd := 0, bytesRcvd := 0, totalBytesRcvd := 0,
                        buffersize := int DLT_RECEIVE_BUFSIZE, fd := fd', rtype := type',
                        rbuffer := global', backup_buf := None, buf := Some 0\<rparr>), global'))"

definition dlt_receiver_free :: "DltReceiver option \<Rightarrow> int \<times> DltReceiver option" where
  "dlt_receiver_free rcv =
     (case rcv of None \<Rightarrow> (DLT_RETURN_WRONG_PARAMETER, None)
      | Some r \<Rightarrow> (DLT_RETURN_OK, Some (r\<lparr>rbuffer := None, buf := None, backup_buf := None\<rparr>)))"

definition dlt_receiver_free_global_buffer :: "DltReceiver option \<Rightarrow> int \<times> DltReceiver option" where
  "dlt_receiver_free_global_buffer rcv =
     (case rcv of None \<Rightarrow> (DLT_RETURN_WRONG_PARAMETER, None)
      | Some r \<Rightarrow> (DLT_RETURN_OK, Some (r\<lparr>rbuffer := None, buf := None, backup_buf := None\<rparr>)))"

text \<open>The number of bytes asked for: 32 bit arithmetic for sockets and files, \<open>size_t\<close> for UDP.\<close>

definition receive_count :: "DltReceiver \<Rightarrow> nat" where
  "receive_count r =
     (if rtype r = DLT_RECEIVE_UDP_SOCKET then nat (i32 (buffersize r - lastBytesRcvd r) mod 2 ^ 64)
      else u32 (buffersize r - lastBytesRcvd r))"

definition dlt_receiver_receive ::
  "(nat \<Rightarrow> byte list option) \<Rightarrow> store \<Rightarrow> DltReceiver option \<Rightarrow> int \<times> store \<times> DltReceiver option" where
  "dlt_receiver_receive rd mem rcv =
     (case rcv of None \<Rightarrow> (- 1, mem, None)
      | Some r \<Rightarrow>
        (case rbuffer r of None \<Rightarrow> (- 1, mem, rcv)
         | Some a \<Rightarrow>
           let r1 = r\<lparr>buf := Some 0, lastBytesRcvd := bytesRcvd r\<rparr>;
               restore = (lastBytesRcvd r1 \<noteq> 0 \<and> backup_buf r1 \<noteq> None);
               mem1 = (if restore
                       then mem(a := memput (mem a) 0 (take (nat (lastBytesRcvd r1)) (the (backup_buf r1))))
                       else mem);
               r2 = (if restore then r1\<lparr>backup_buf := None\<rparr> else r1)
           in (case rd (receive_count r2) of
                 None \<Rightarrow> (0, mem1, Some (r2\<lparr>bytesRcvd := 0\<rparr>))
               | Some bs \<Rightarrow>
                 if bs = [] then (0, mem1, Some (r2\<lparr>bytesRcvd := 0\<rparr>))
                 else
                   let n = i32 (int (length bs));
                       mem2 = mem1(a := memput (mem1 a) (nat (lastBytesRcvd r2)) bs);
                       r3 = r2\<lparr>totalBytesRcvd := i32 (totalBytesRcvd r2 + n), bytesRcvd := i32 (n + lastBytesRcvd r2)\<rparr>
                   in (bytesRcvd r3, mem2, Some r3))))"

definition dlt_receiver_remove :: "DltReceiver option \<Rightarrow> int \<Rightarrow> int \<times> DltReceiver option" where
  "dlt_receiver_remove rcv n =
     (case rcv of None \<Rightarrow> (DLT_RETURN_WRONG_PARAMETER, None)
      | Some r \<Rightarrow>
        (case buf r of None \<Rightarrow> (DLT_RETURN_ERROR, rcv)
         | Some p \<Rightarrow>
           if n > bytesRcvd r \<or> n \<le> 0
           then (DLT_RETURN_WRONG_PARAMETER, Some (r\<lparr>buf := Some (p + nat (bytesRcvd r)), bytesRcvd := 0\<rparr>))
           else (DLT_RETURN_OK, Some (r\<lparr>bytesRcvd := bytesRcvd r - n, buf := Some (p + nat n)\<rparr>))))"

text \<open>\<open>calloc_ok\<close> says whether the copy of the unread bytes can be allocated.\<close>

definition dlt_receiver_move_to_begin :: "bool \<Rightarrow> store \<Rightarrow> DltReceiver option \<Rightarrow> int \<times> DltReceiver option" where
  "dlt_receiver_move_to_begin calloc_ok mem rcv =
     (case rcv of None \<Rightarrow> (DLT_RETURN_WRONG_PARAMETER, None)
      | Some r \<Rightarrow>
        (case (rbuffer r, buf r) of
           (Some a, Some p) \<Rightarrow>
             if p \<noteq> 0 \<and> bytesRcvd r \<noteq> 0
             then (DLT_RETURN_OK,
                   Some (r\<lparr>backup_buf := (if calloc_ok then Some (memget (mem a) p (nat (bytesRcvd r)) @ [0]) else None)\<rparr>))
             else (DLT_RETURN_OK, rcv)
         | _ \<Rightarrow> (DLT_RETURN_ERROR, rcv)))"

text \<open>Return value, receiver, and destination with the bytes copied.\<close>

definition dlt_receiver_check_and_get ::
  "store \<Rightarrow> DltReceiver option \<Rightarrow> byte list option \<Rightarrow> nat \<Rightarrow> 32 word \<Rightarrow> int \<times> DltReceiver option \<times> byte list option" where
  "dlt_receiver_check_and_get mem rcv dest to_get flags =
     (let skip = (flags AND 1 \<noteq> 0);
          min_size = to_get + (if skip then SIZEOF_DltUserHeader else 0)
      in case (rcv, dest) of
           (Some r, Some d) \<Rightarrow>
             if bytesRcvd r < i32 (int min_size) \<or> buf r = None then (DLT_RETURN_WRONG_PARAMETER, rcv, dest)
             else
               let src = the (buf r) + (if skip then SIZEOF_DltUserHeader else 0);
                   d' = memput d 0 (memget (case rbuffer r of None \<Rightarrow> [] | Some a \<Rightarrow> mem a) src to_get)
               in if flags AND 2 \<noteq> 0 then
                    (case dlt_receiver_remove rcv (i32 (int min_size)) of
                       (rc, rcv') \<Rightarrow> (if rc \<noteq> DLT_RETURN_OK then DLT_RETURN_ERROR else i32 (int to_get), rcv', Some d'))
                  else (i32 (int to_get), rcv, Some d')
         | _ \<Rightarrow> (DLT_RETURN_WRONG_PARAMETER, rcv, dest))"

section \<open>Byte streams\<close>

text \<open>
  What the users of a receiver rely on: the bytes that wait are a queue of bytes, taking bytes
  removes them at the front and the next read adds bytes at the end.
\<close>

locale byte_stream =
  fixes ok :: "'s \<Rightarrow> bool" and waiting :: "'s \<Rightarrow> byte list" and room :: "'s \<Rightarrow> nat"
    and consume :: "nat \<Rightarrow> 's \<Rightarrow> 's" and refill :: "byte list \<Rightarrow> 's \<Rightarrow> 's"
  assumes consume_ok: "ok s \<Longrightarrow> 0 < k \<Longrightarrow> k \<le> length (waiting s) \<Longrightarrow>
      ok (consume k s) \<and> waiting (consume k s) = drop k (waiting s)"
    and refill_ok: "ok s \<Longrightarrow> bs \<noteq> [] \<Longrightarrow> length bs \<le> room s \<Longrightarrow>
      ok (refill bs s) \<and> waiting (refill bs s) = waiting s @ bs"
begin

text \<open>Runs of a stream with the bytes that were taken and the bytes that were received.\<close>

inductive stream_run :: "'s \<Rightarrow> byte list \<Rightarrow> byte list \<Rightarrow> 's \<Rightarrow> bool" for s0 where
  start: "stream_run s0 [] [] s0"
| take: "stream_run s0 took got s \<Longrightarrow> 0 < k \<Longrightarrow> k \<le> length (waiting s) \<Longrightarrow>
    stream_run s0 (took @ take k (waiting s)) got (consume k s)"
| fill: "stream_run s0 took got s \<Longrightarrow> bs \<noteq> [] \<Longrightarrow> length bs \<le> room s \<Longrightarrow>
    stream_run s0 took (got @ bs) (refill bs s)"

lemma stream_run_keeps:
  assumes "stream_run s0 took got s" "ok s0"
  shows "ok s \<and> waiting s0 @ got = took @ waiting s"
  using assms
proof induction
  case (take took got s k)
  then show ?case using append_take_drop_id [of k "waiting s"] by (simp add: consume_ok)
next
  case (fill took got s bs)
  then show ?case by (simp add: refill_ok flip: append_assoc)
qed simp

end

section \<open>Receivers as byte streams\<close>

definition waiting_bytes :: "store \<times> DltReceiver \<Rightarrow> byte list" where
  "waiting_bytes s = (case s of (mem, r) \<Rightarrow>
     memget (mem (the (rbuffer r))) (the (buf r)) (nat (bytesRcvd r)))"

definition rcv_ok :: "store \<times> DltReceiver \<Rightarrow> bool" where
  "rcv_ok s = (case s of (mem, r) \<Rightarrow>
     rbuffer r \<noteq> None \<and> buf r \<noteq> None \<and> 0 \<le> bytesRcvd r \<and> int (the (buf r)) + bytesRcvd r \<le> buffersize r \<and>
     length (mem (the (rbuffer r))) = nat (buffersize r) \<and> buffersize r < 2147483648 \<and> backup_buf r = None)"

definition rcv_room :: "store \<times> DltReceiver \<Rightarrow> nat" where
  "rcv_room s = nat (buffersize (snd s) - bytesRcvd (snd s))"

definition rcv_consume :: "nat \<Rightarrow> store \<times> DltReceiver \<Rightarrow> store \<times> DltReceiver" where
  "rcv_consume k s = (case s of (mem, r) \<Rightarrow> (mem, the (snd (dlt_receiver_remove (Some r) (int k)))))"

text \<open>One turn of the callers' loop: unread bytes are saved, then the next read is made.\<close>

definition rcv_refill :: "byte list \<Rightarrow> store \<times> DltReceiver \<Rightarrow> store \<times> DltReceiver" where
  "rcv_refill bs s = (case s of (mem, r) \<Rightarrow>
     (case dlt_receiver_receive (\<lambda>_. Some bs) mem (snd (dlt_receiver_move_to_begin True mem (Some r))) of
        (n, mem', r') \<Rightarrow> (mem', the r')))"

lemma length_waiting: "rcv_ok s \<Longrightarrow> length (waiting_bytes s) = nat (bytesRcvd (snd s))"
  by (auto simp: rcv_ok_def waiting_bytes_def split: prod.splits)

lemma remove_waiting:
  assumes "rcv_ok (mem, r)" "0 < n" "n \<le> bytesRcvd r"
  shows "\<exists>r'. dlt_receiver_remove (Some r) n = (0, Some r') \<and> rcv_ok (mem, r') \<and>
    waiting_bytes (mem, r') = drop (nat n) (waiting_bytes (mem, r)) \<and> bytesRcvd r' = bytesRcvd r - n"
  using assms
  by (auto simp: dlt_receiver_remove_def rcv_ok_def waiting_bytes_def memget_def drop_take nat_diff_distrib add.commute)

lemma receive_count_room:
  "0 \<le> lastBytesRcvd r \<Longrightarrow> lastBytesRcvd r \<le> buffersize r \<Longrightarrow> buffersize r < 2147483648 \<Longrightarrow>
   receive_count r = nat (buffersize r - lastBytesRcvd r)"
  by (simp add: receive_count_def cconv)

text \<open>
  A read after \<open>dlt_receiver_move_to_begin\<close>, where \<open>mem'\<close> is the store at the time of the read:
  other receivers may have written to a shared block in between.
\<close>

lemma receive_after_move:
  assumes ok: "rcv_ok (mem, r)" and a: "rbuffer r = Some a" "length (mem' a) = length (mem a)"
    and bs: "rd (nat (buffersize r - bytesRcvd r)) = Some bs" "bs \<noteq> []" "length bs \<le> nat (buffersize r - bytesRcvd r)"
    and mv: "dlt_receiver_move_to_begin True mem (Some r) = (rc, r1)"
  shows "\<exists>mem2 r2. dlt_receiver_receive rd mem' r1 = (bytesRcvd r + int (length bs), mem2, Some r2) \<and>
    rcv_ok (mem2, r2) \<and> waiting_bytes (mem2, r2) =
      (if buf r = Some 0 then take (nat (bytesRcvd r)) (mem' a) else waiting_bytes (mem, r)) @ bs"
proof -
  obtain p where p: "buf r = Some p" using ok by (auto simp: rcv_ok_def)
  define n where "n = nat (bytesRcvd r)"
  have n: "bytesRcvd r = int n" "p + n \<le> length (mem a)" "length (mem a) = nat (buffersize r)" "buffersize r < 2147483648"
    "backup_buf r = None" "0 \<le> buffersize r"
    using ok a p by (auto simp: rcv_ok_def n_def)
  define saved where "saved = (if p \<noteq> 0 \<and> n \<noteq> 0 then Some (memget (mem a) p n @ [0]) else None)"
  have r1: "r1 = Some (r\<lparr>backup_buf := saved\<rparr>)"
    using mv a p n by (cases r) (auto simp: dlt_receiver_move_to_begin_def saved_def)
  define base where "base = (if p \<noteq> 0 \<and> n \<noteq> 0 then memput (mem' a) 0 (memget (mem a) p n) else mem' a)"
  have lb: "length base = length (mem a)" using a(2) n by (simp add: base_def)
  have fit: "n + length bs \<le> length (mem a)" using bs(3) n by linarith
  have i: "i32 (int (length bs)) = int (length bs)" "i32 (int (length bs) + int n) = int n + int (length bs)"
    using fit n by (simp_all add: cconv)
  have base_n: "take n base = (if p = 0 then take n (mem' a) else memget (mem a) p n)"
    using n a(2) by (auto simp: base_def memput_def memget_def)
  have w: "memget (memput base n bs) 0 (n + length bs) = take n base @ bs"
    using fit lb by (simp add: memget_def memput_def)
  have "\<exists>mem2 r2. dlt_receiver_receive rd mem' r1 = (int n + int (length bs), mem2, Some r2) \<and>
      mem2 a = memput base n bs \<and> rbuffer r2 = Some a \<and> buf r2 = Some 0 \<and> bytesRcvd r2 = int n + int (length bs) \<and>
      buffersize r2 = buffersize r \<and> backup_buf r2 = None"
    unfolding r1 using a(1) n(1) bs(1,2) p n
    by (auto simp: dlt_receiver_receive_def saved_def base_def receive_count_room i Let_def)
  then obtain mem2 r2 where rcv: "dlt_receiver_receive rd mem' r1 = (int n + int (length bs), mem2, Some r2)"
    and r2: "mem2 a = memput base n bs" "rbuffer r2 = Some a" "buf r2 = Some 0" "bytesRcvd r2 = int n + int (length bs)"
      "buffersize r2 = buffersize r" "backup_buf r2 = None"
    by blast
  have "nat (int n + int (length bs)) = n + length bs" by simp
  then have "waiting_bytes (mem2, r2) = (if p = 0 then take n (mem' a) else memget (mem a) p n) @ bs"
    using w base_n by (simp add: waiting_bytes_def r2)
  moreover have "rcv_ok (mem2, r2)" using fit lb n by (simp add: rcv_ok_def r2)
  moreover have "waiting_bytes (mem, r) = memget (mem a) p n" by (simp add: waiting_bytes_def a p n(1))
  ultimately show ?thesis using rcv p n(1) by auto
qed

lemma refill_waiting:
  assumes "rcv_ok s" "bs \<noteq> []" "length bs \<le> rcv_room s"
  shows "rcv_ok (rcv_refill bs s)" "waiting_bytes (rcv_refill bs s) = waiting_bytes s @ bs"
proof -
  obtain mem r where s: "s = (mem, r)" by fastforce
  obtain a where a: "rbuffer r = Some a" using assms(1) by (auto simp: s rcv_ok_def)
  obtain rc r1 where mv: "dlt_receiver_move_to_begin True mem (Some r) = (rc, r1)" by fastforce
  have start: "take (nat (bytesRcvd r)) (mem a) = waiting_bytes s" if "buf r = Some 0"
    using that by (simp add: s waiting_bytes_def a memget_def)
  obtain mem2 r2 where "dlt_receiver_receive (\<lambda>_. Some bs) mem r1 = (bytesRcvd r + int (length bs), mem2, Some r2)"
    "rcv_ok (mem2, r2)" "waiting_bytes (mem2, r2) = waiting_bytes s @ bs"
    using receive_after_move [of mem r a mem "\<lambda>_. Some bs" bs rc r1] a mv assms start
    by (auto simp: s rcv_room_def split: if_splits)
  then show "rcv_ok (rcv_refill bs s)" "waiting_bytes (rcv_refill bs s) = waiting_bytes s @ bs"
    by (simp_all add: rcv_refill_def s mv)
qed

interpretation receiver: byte_stream rcv_ok waiting_bytes rcv_room rcv_consume rcv_refill
proof unfold_locales
  fix s and k :: nat assume a: "rcv_ok s" "0 < k" "k \<le> length (waiting_bytes s)"
  obtain mem r where s: "s = (mem, r)" by fastforce
  with a length_waiting [OF a(1)] show "rcv_ok (rcv_consume k s) \<and> waiting_bytes (rcv_consume k s) = drop k (waiting_bytes s)"
    using remove_waiting [of mem r "int k"] a by (auto simp: rcv_consume_def le_nat_iff)
qed (simp add: refill_waiting)

section \<open>Properties\<close>

text \<open>
  C11. A receiver delivers the byte stream unchanged: over any sequence of successful reads, each of which first
  moves the waiting bytes to the start of the buffer and has the memory to do so, and of removals of bytes that
  wait, the bytes that waited at the start and all bytes received, in order, are the bytes removed followed by the
  bytes that still wait; the receiver stays within its memory. Between the calls nothing else writes to the
  memory of the receiver. A failed read ends the stream: \<open>dlt_receiver_receive\<close> then drops what waits.
\<close>

theorem receiver_stream_integrity:
  assumes "receiver.stream_run s0 took got s" "rcv_ok s0"
  shows "waiting_bytes s0 @ got = took @ waiting_bytes s \<and> rcv_ok s"
  using receiver.stream_run_keeps [OF assms] by simp

definition example_receiver :: "store \<times> DltReceiver" where
  "example_receiver = ((\<lambda>_. [1, 2, 3, 4]), \<lparr>lastBytesRcvd = 0, bytesRcvd = 2, totalBytesRcvd = 2, rbuffer = Some 0,
     buf = Some 1, backup_buf = None, fd = 5, rtype = DLT_RECEIVE_SOCKET, buffersize = 4\<rparr>)"

lemma example_receiver_ok: "rcv_ok example_receiver" "waiting_bytes example_receiver = [2, 3]"
  by (simp_all add: example_receiver_def rcv_ok_def waiting_bytes_def memget_def numeral_2_eq_2)

theorem receiver_stream_integrity_witness:
  "[2, 3] @ [9] = take 2 [2, 3, 9] @ waiting_bytes (rcv_consume 2 (rcv_refill [9] example_receiver))"
proof -
  have room: "length [9 :: byte] \<le> rcv_room example_receiver" by (simp add: rcv_room_def example_receiver_def)
  note f = refill_waiting [OF example_receiver_ok(1) _ room]
  have "receiver.stream_run example_receiver [] [9] (rcv_refill [9] example_receiver)"
    using receiver.stream_run.fill [OF receiver.stream_run.start _ room] by simp
  then have "receiver.stream_run example_receiver (take 2 [2, 3, 9]) [9] (rcv_consume 2 (rcv_refill [9] example_receiver))"
    using receiver.stream_run.take [of example_receiver "[]" "[9]" "rcv_refill [9] example_receiver" 2] f example_receiver_ok by simp
  from receiver_stream_integrity [OF this example_receiver_ok(1)] show ?thesis by (simp add: example_receiver_ok)
qed

text \<open>
  The block that the application receivers share: \<open>mem'\<close> is the store after the other
  receivers have written to it. Unread bytes survive when some bytes were already removed,
  because \<open>dlt_receiver_move_to_begin\<close> then keeps a copy; when the unread bytes start at the
  beginning of the block there is no copy, and the next read continues whatever the others
  left there.
\<close>

theorem shared_block_receive:
  assumes "rcv_ok (mem, r)" "rbuffer r = Some a" "length (mem' a) = length (mem a)"
    and "rd (nat (buffersize r - bytesRcvd r)) = Some bs" "bs \<noteq> []" "length bs \<le> nat (buffersize r - bytesRcvd r)"
    and "dlt_receiver_move_to_begin True mem (Some r) = (rc, r1)"
  shows "\<exists>mem2 r2. dlt_receiver_receive rd mem' r1 = (bytesRcvd r + int (length bs), mem2, Some r2) \<and>
    rcv_ok (mem2, r2) \<and> waiting_bytes (mem2, r2) =
      (if buf r = Some 0 then take (nat (bytesRcvd r)) (mem' a) else waiting_bytes (mem, r)) @ bs"
  using assms by (rule receive_after_move)

lemma check_and_get_spec:
  assumes ok: "rcv_ok (mem, r)" and sz: "to_get + 8 < 2147483648" "to_get \<le> length d"
    and skip: "skip = (if flags AND (1 :: 32 word) \<noteq> 0 then 8 else 0)" and rem: "flags AND 2 \<noteq> 0 \<longrightarrow> 0 < to_get + skip"
  shows "if length (waiting_bytes (mem, r)) < to_get + skip
    then dlt_receiver_check_and_get mem (Some r) (Some d) to_get flags = (- 5, Some r, Some d)
    else \<exists>r'. dlt_receiver_check_and_get mem (Some r) (Some d) to_get flags =
        (int to_get, Some r', Some (memget (waiting_bytes (mem, r)) skip to_get @ drop to_get d)) \<and> rcv_ok (mem, r') \<and>
      waiting_bytes (mem, r') = (if flags AND 2 \<noteq> 0 then drop (to_get + skip) (waiting_bytes (mem, r)) else waiting_bytes (mem, r))"
proof -
  obtain a p where ap: "rbuffer r = Some a" "buf r = Some p" using ok by (auto simp: rcv_ok_def)
  have len: "length (waiting_bytes (mem, r)) = nat (bytesRcvd r)" using length_waiting [OF ok] by simp
  have sk: "skip \<le> 8" by (simp add: skip)
  have i: "i32 (int (to_get + skip)) = int (to_get + skip)" "i32 (int to_get) = int to_get" using sz sk by (simp_all add: cconv)
  have b: "0 \<le> bytesRcvd r" "int p + bytesRcvd r \<le> buffersize r" "length (mem a) = nat (buffersize r)"
    using ok by (auto simp: rcv_ok_def ap)
  have fl: "(if flags AND 1 \<noteq> 0 then 8 else 0) = skip" by (simp add: skip)
  show ?thesis
  proof (cases "nat (bytesRcvd r) < to_get + skip")
    case True
    then have "bytesRcvd r < int (to_get + skip)" using b(1) by linarith
    then show ?thesis using True unfolding len dlt_receiver_check_and_get_def Let_def fl i by simp
  next
    case False
    then have le: "int (to_get + skip) \<le> bytesRcvd r" using b(1) by linarith
    have g: "memget (mem a) (p + skip) to_get = memget (waiting_bytes (mem, r)) skip to_get"
      using False by (simp add: waiting_bytes_def ap memget_memget)
    have "to_get = length (memget (waiting_bytes (mem, r)) skip to_get)"
      using False len by (simp add: memget_def)
    then have put: "memput d 0 (memget (waiting_bytes (mem, r)) skip to_get) = memget (waiting_bytes (mem, r)) skip to_get @ drop to_get d"
      by (simp add: memput_def)
    have "\<exists>r'. dlt_receiver_remove (Some r) (int (to_get + skip)) = (0, Some r') \<and> rcv_ok (mem, r') \<and>
        waiting_bytes (mem, r') = drop (to_get + skip) (waiting_bytes (mem, r))" if "flags AND 2 \<noteq> 0"
      using remove_waiting [OF ok, of "int (to_get + skip)"] le rem that by (metis nat_int of_nat_0_less_iff)
    then show ?thesis
      using False le ok unfolding len dlt_receiver_check_and_get_def Let_def fl i
      by (auto simp: ap g put)
  qed
qed

text \<open>
  \<open>dlt_receiver_check_and_get\<close> copies exactly the requested bytes, behind the user header when
  it is to be skipped, and consumes header and bytes together when they are to be removed;
  when too few bytes wait it refuses and changes nothing.
\<close>

theorem check_and_get_reads:
  assumes ok: "rcv_ok (mem, r)" and sz: "to_get + 8 < 2147483648" "to_get \<le> length d"
    and skip: "skip = (if flags AND (1 :: 32 word) \<noteq> 0 then 8 else 0)" and rem: "flags AND 2 \<noteq> 0 \<longrightarrow> 0 < to_get + skip"
  shows "if length (waiting_bytes (mem, r)) < to_get + skip
    then dlt_receiver_check_and_get mem (Some r) (Some d) to_get flags = (- 5, Some r, Some d)
    else \<exists>r'. dlt_receiver_check_and_get mem (Some r) (Some d) to_get flags =
        (int to_get, Some r', Some (memget (waiting_bytes (mem, r)) skip to_get @ drop to_get d)) \<and> rcv_ok (mem, r') \<and>
      waiting_bytes (mem, r') = (if flags AND 2 \<noteq> 0 then drop (to_get + skip) (waiting_bytes (mem, r)) else waiting_bytes (mem, r))"
  using assms by (rule check_and_get_spec)

end
