(* ===== verification/Event_Handler.thy ===== *)
theory Event_Handler
  imports Dlt_Receiver
begin

text \<open>
  Connections and the poll table of the daemon (\<open>src/daemon/dlt_daemon_event_handler.c\<close>,
  \<open>src/daemon/dlt_daemon_connection.c\<close>). The linked list of connections is a list of records;
  \<open>c_addr\<close> is the address of a connection, which is compared when one is removed. The descriptors
  handed to \<open>close\<close> are a result of the operations that close them. \<open>realloc_ok\<close> and the other
  boolean parameters say whether an allocation succeeds.
\<close>

section \<open>State\<close>

record pollfd =
  p_fd :: int
  p_events :: int
  p_revents :: int

datatype DltConnectionStatus = UNDEFINED | INACTIVE | ACTIVE | DEACTIVATE | ACTIVATE

datatype DltConnectionType =
    DLT_CONNECTION_NONE | DLT_CONNECTION_CLIENT_CONNECT | DLT_CONNECTION_CLIENT_MSG_TCP
  | DLT_CONNECTION_CLIENT_MSG_SERIAL | DLT_CONNECTION_APP_CONNECT | DLT_CONNECTION_APP_MSG
  | DLT_CONNECTION_ONE_S_TIMER | DLT_CONNECTION_SIXTY_S_TIMER | DLT_CONNECTION_SYSTEMD_TIMER
  | DLT_CONNECTION_CONTROL_CONNECT | DLT_CONNECTION_CONTROL_MSG | DLT_CONNECTION_GATEWAY
  | DLT_CONNECTION_GATEWAY_TIMER | DLT_CONNECTION_TYPE_MAX

record DltConnection =
  c_addr :: nat
  c_id :: nat
  receiver :: "DltReceiver option"
  ctype :: DltConnectionType
  status :: DltConnectionStatus
  ev_mask :: int

record DltEventHandler =
  pfd :: "pollfd list"
  nfds :: nat
  max_nfds :: nat
  connections :: "DltConnection list"

record DltDaemonLocal =
  pEvent :: DltEventHandler
  client_connections :: int

abbreviation (input) DLT_EV_BASE_FD :: nat where "DLT_EV_BASE_FD \<equiv> 16"

section \<open>The poll table\<close>

definition init_poll_fd :: pollfd where
  "init_poll_fd = \<lparr>p_fd = - 1, p_events = 0, p_revents = 0\<rparr>"

definition dlt_daemon_prepare_event_handling :: "bool \<Rightarrow> DltEventHandler option \<Rightarrow> int \<times> DltEventHandler option" where
  "dlt_daemon_prepare_event_handling calloc_ok ev =
     (case ev of None \<Rightarrow> (DLT_RETURN_ERROR, None)
      | Some e \<Rightarrow>
        if \<not> calloc_ok then (- 1, Some (e\<lparr>pfd := []\<rparr>))
        else (0, Some (e\<lparr>pfd := replicate DLT_EV_BASE_FD init_poll_fd, nfds := 0, max_nfds := DLT_EV_BASE_FD\<rparr>)))"

definition dlt_event_handler_enable_fd :: "bool \<Rightarrow> DltEventHandler \<Rightarrow> int \<Rightarrow> int \<Rightarrow> DltEventHandler" where
  "dlt_event_handler_enable_fd realloc_ok ev fd' msk =
     (let full = (max_nfds ev \<le> nfds ev);
          mx = 2 * max_nfds ev
      in if full \<and> \<not> realloc_ok then ev
         else
           let ev1 = (if full
                      then ev\<lparr>pfd := take (nfds ev) (pfd ev) @ replicate (mx - nfds ev) init_poll_fd, max_nfds := mx\<rparr>
                      else ev);
               slot = (pfd ev1 ! nfds ev1)\<lparr>p_fd := fd', p_events := msk\<rparr>
           in ev1\<lparr>pfd := (pfd ev1)[nfds ev1 := slot], nfds := nfds ev1 + 1\<rparr>)"

text \<open>The loop of \<open>dlt_event_handler_disable_fd\<close>; \<open>n\<close> is the number of entries at its start.\<close>

function disable_loop :: "int \<Rightarrow> nat \<Rightarrow> nat \<Rightarrow> nat \<Rightarrow> pollfd list \<Rightarrow> nat \<Rightarrow> pollfd list \<times> nat" where
  "disable_loop fd' n i j ps cnt =
     (if i < n then
        let hit = (p_fd (ps ! i) = fd');
            ps1 = (if hit then ps[i := init_poll_fd] else ps);
            j1 = (if hit then j + 1 else j);
            cnt1 = (if hit then cnt - 1 else cnt);
            ps2 = (if i = j1 then ps1 else if i < cnt1 then ps1[i := ps1 ! j1] else ps1[i := init_poll_fd])
        in disable_loop fd' n (i + 1) (j1 + 1) ps2 cnt1
      else (ps, cnt))"
  by pat_completeness auto
termination by (relation "measure (\<lambda>(_, n, i, _). n - i)") auto

declare disable_loop.simps [simp del]

definition dlt_event_handler_disable_fd :: "DltEventHandler \<Rightarrow> int \<Rightarrow> DltEventHandler" where
  "dlt_event_handler_disable_fd ev fd' =
     (case disable_loop fd' (nfds ev) 0 0 (pfd ev) (nfds ev) of (ps, cnt) \<Rightarrow> ev\<lparr>pfd := ps, nfds := cnt\<rparr>)"

section \<open>Connections\<close>

fun find_con :: "DltConnection list \<Rightarrow> int \<Rightarrow> DltConnection option" where
  "find_con [] fd' = None"
| "find_con (c # cs) fd' =
     (case receiver c of
        Some r \<Rightarrow> if fd r = fd' then Some c else find_con cs fd'
      | None \<Rightarrow> find_con cs fd')"

definition dlt_event_handler_find_connection :: "DltEventHandler \<Rightarrow> int \<Rightarrow> DltConnection option" where
  "dlt_event_handler_find_connection ev fd' = find_con (connections ev) fd'"

definition dlt_daemon_add_connection :: "DltEventHandler \<Rightarrow> DltConnection \<Rightarrow> DltEventHandler" where
  "dlt_daemon_add_connection ev c = ev\<lparr>connections := connections ev @ [c]\<rparr>"

text \<open>A change of the connection object itself, through its address.\<close>

definition update_con :: "DltEventHandler \<Rightarrow> nat \<Rightarrow> (DltConnection \<Rightarrow> DltConnection) \<Rightarrow> DltEventHandler" where
  "update_con ev addr f = ev\<lparr>connections := map (\<lambda>c. if c_addr c = addr then f c else c) (connections ev)\<rparr>"

text \<open>\<open>dlt_connection_destroy\<close>: the descriptor that is closed.\<close>

definition dlt_connection_destroy :: "DltConnection \<Rightarrow> int list" where
  "dlt_connection_destroy c = [fd (the (receiver c))]"

fun remove_con :: "DltConnection list \<Rightarrow> nat \<Rightarrow> DltConnection list" where
  "remove_con [] addr = []"
| "remove_con (c # cs) addr = (if c_addr c = addr then cs else c # remove_con cs addr)"

definition dlt_daemon_remove_connection ::
  "DltEventHandler option \<Rightarrow> DltConnection option \<Rightarrow> int \<times> DltEventHandler option \<times> int list" where
  "dlt_daemon_remove_connection ev to_remove =
     (case (ev, to_remove) of
        (Some e, Some c) \<Rightarrow>
          if c_addr c \<notin> set (map c_addr (connections e)) then (- 1, ev, [])
          else (0, Some (e\<lparr>connections := remove_con (connections e) (c_addr c)\<rparr>), dlt_connection_destroy c)
      | _ \<Rightarrow> (DLT_RETURN_ERROR, ev, []))"

fun cleanup_loop :: "DltConnection list \<Rightarrow> int list" where
  "cleanup_loop [] = []"
| "cleanup_loop (c # cs) = dlt_connection_destroy c @ cleanup_loop cs"

definition dlt_event_handler_cleanup_connections :: "DltEventHandler option \<Rightarrow> DltEventHandler option \<times> int list" where
  "dlt_event_handler_cleanup_connections ev =
     (case ev of None \<Rightarrow> (None, [])
      | Some e \<Rightarrow> (Some (e\<lparr>connections := [], pfd := []\<rparr>), cleanup_loop (connections e)))"

text \<open>Activation and deactivation; the connection is given by its address in the list.\<close>

definition dlt_connection_check_activate ::
  "bool \<Rightarrow> DltEventHandler option \<Rightarrow> DltConnection option \<Rightarrow> DltConnectionStatus \<Rightarrow> int \<times> DltEventHandler option" where
  "dlt_connection_check_activate realloc_ok evhdl con activation_type =
     (case (evhdl, con) of
        (Some e, Some c) \<Rightarrow>
          (case receiver c of
             None \<Rightarrow> (- 1, evhdl)
           | Some r \<Rightarrow>
             (case status c of
                ACTIVE \<Rightarrow>
                  if activation_type = DEACTIVATE then
                    (0, Some (update_con (dlt_event_handler_disable_fd e (fd r)) (c_addr c)
                        (\<lambda>x. x\<lparr>receiver := (if ctype c = DLT_CONNECTION_CLIENT_CONNECT then Some (r\<lparr>fd := - 1\<rparr>) else receiver x),
                             status := INACTIVE\<rparr>)))
                  else (0, evhdl)
              | INACTIVE \<Rightarrow>
                  if activation_type = ACTIVATE then
                    (0, Some (update_con (dlt_event_handler_enable_fd realloc_ok e (fd r) (ev_mask c)) (c_addr c)
                        (\<lambda>x. x\<lparr>status := ACTIVE\<rparr>)))
                  else (0, evhdl)
              | _ \<Rightarrow> (- 1, evhdl)))
      | _ \<Rightarrow> (- 1, evhdl))"

definition is_client :: "DltConnectionType \<Rightarrow> bool" where
  "is_client t \<longleftrightarrow> t = DLT_CONNECTION_CLIENT_MSG_TCP \<or> t = DLT_CONNECTION_CLIENT_MSG_SERIAL"

definition dlt_event_handler_register_connection ::
  "bool \<Rightarrow> DltDaemonLocal \<Rightarrow> DltConnection option \<Rightarrow> int \<Rightarrow> int \<times> DltDaemonLocal" where
  "dlt_event_handler_register_connection realloc_ok dl connection msk =
     (case connection of None \<Rightarrow> (- 1, dl)
      | Some c \<Rightarrow>
        if receiver c = None then (- 1, dl)
        else
          let c' = c\<lparr>status := INACTIVE, ev_mask := msk\<rparr>;
              ev = dlt_daemon_add_connection (pEvent dl) c';
              n = (if is_client (ctype c) then client_connections dl + 1 else client_connections dl)
          in (case dlt_connection_check_activate realloc_ok (Some ev) (Some c') ACTIVATE of
                (rc, ev') \<Rightarrow> (rc, dl\<lparr>pEvent := the ev', client_connections := n\<rparr>)))"

definition dlt_event_handler_unregister_connection ::
  "DltDaemonLocal \<Rightarrow> int \<Rightarrow> int \<times> DltDaemonLocal \<times> int list" where
  "dlt_event_handler_unregister_connection dl fd' =
     (case dlt_event_handler_find_connection (pEvent dl) fd' of
        None \<Rightarrow> (- 1, dl, [])
      | Some c \<Rightarrow>
        let n = (if is_client (ctype c)
                 then (if client_connections dl - 1 < 0 then 0 else client_connections dl - 1)
                 else client_connections dl);
            ev1 = the (snd (dlt_connection_check_activate True (Some (pEvent dl)) (Some c) DEACTIVATE));
            c1 = (case filter (\<lambda>x. c_addr x = c_addr c) (connections ev1) of [] \<Rightarrow> c | x # _ \<Rightarrow> x)
        in (case dlt_daemon_remove_connection (Some ev1) (Some c1) of
              (rc, ev2, closed) \<Rightarrow> (rc, dl\<lparr>pEvent := the ev2, client_connections := n\<rparr>, closed)))"

section \<open>Creating connections\<close>

abbreviation (input) DLT_DAEMON_RCVBUFSIZE :: int where "DLT_DAEMON_RCVBUFSIZE \<equiv> 10024"
abbreviation (input) DLT_DAEMON_RCVBUFSIZESOCK :: int where "DLT_DAEMON_RCVBUFSIZESOCK \<equiv> 10024"
abbreviation (input) DLT_DAEMON_RCVBUFSIZESERIAL :: int where "DLT_DAEMON_RCVBUFSIZESERIAL \<equiv> 10024"

definition zero_receiver :: DltReceiver where
  "zero_receiver = \<lparr>lastBytesRcvd = 0, bytesRcvd = 0, totalBytesRcvd = 0, rbuffer = None, buf = None,
     backup_buf = None, fd = 0, rtype = DLT_RECEIVE_SOCKET, buffersize = 0\<rparr>"

text \<open>
  The environment of a creation: the allocations, whether the descriptor is a socket
  (\<open>fstat\<close>) and the receivers of the gateway (\<open>dlt_gateway_get_connection_receiver\<close>).
\<close>

record create_env =
  calloc_ok :: bool
  calloc_at :: "nat \<Rightarrow> nat option"
  shared_block :: "(nat \<times> byte list) option"
  is_socket :: "int \<Rightarrow> bool"
  gateway_receiver :: "int \<Rightarrow> DltReceiver option"
  malloc_addr :: "nat option"
  realloc_ok :: bool

definition dlt_connection_get_receiver ::
  "create_env \<Rightarrow> store \<Rightarrow> nat option \<Rightarrow> DltConnectionType \<Rightarrow> int \<Rightarrow> DltReceiver option \<times> store \<times> nat option" where
  "dlt_connection_get_receiver env mem app_recv_buffer t fd' =
     (let fresh = (\<lambda>rt bs.
            if calloc_ok env
            then (case dlt_receiver_init (calloc_at env) mem (Some zero_receiver) fd' rt bs of
                    (rc, mem', r) \<Rightarrow> (r, mem', app_recv_buffer))
            else (None, mem, app_recv_buffer))
      in case t of
           DLT_CONNECTION_CONTROL_CONNECT \<Rightarrow> fresh DLT_RECEIVE_SOCKET DLT_DAEMON_RCVBUFSIZESOCK
         | DLT_CONNECTION_CONTROL_MSG \<Rightarrow> fresh DLT_RECEIVE_SOCKET DLT_DAEMON_RCVBUFSIZESOCK
         | DLT_CONNECTION_CLIENT_CONNECT \<Rightarrow> fresh DLT_RECEIVE_SOCKET DLT_DAEMON_RCVBUFSIZESOCK
         | DLT_CONNECTION_CLIENT_MSG_TCP \<Rightarrow> fresh DLT_RECEIVE_SOCKET DLT_DAEMON_RCVBUFSIZESOCK
         | DLT_CONNECTION_CLIENT_MSG_SERIAL \<Rightarrow> fresh DLT_RECEIVE_FD DLT_DAEMON_RCVBUFSIZESERIAL
         | DLT_CONNECTION_APP_MSG \<Rightarrow>
             if calloc_ok env
             then (case dlt_receiver_init_global_buffer (shared_block env) mem (Some zero_receiver) fd'
                          (if is_socket env fd' then DLT_RECEIVE_SOCKET else DLT_RECEIVE_FD) app_recv_buffer of
                     (rc, mem', r, global) \<Rightarrow> (r, mem', global))
             else (None, mem, app_recv_buffer)
         | DLT_CONNECTION_ONE_S_TIMER \<Rightarrow> fresh DLT_RECEIVE_FD DLT_DAEMON_RCVBUFSIZE
         | DLT_CONNECTION_SIXTY_S_TIMER \<Rightarrow> fresh DLT_RECEIVE_FD DLT_DAEMON_RCVBUFSIZE
         | DLT_CONNECTION_GATEWAY_TIMER \<Rightarrow> fresh DLT_RECEIVE_FD DLT_DAEMON_RCVBUFSIZE
         | DLT_CONNECTION_GATEWAY \<Rightarrow> (gateway_receiver env fd', mem, app_recv_buffer)
         | _ \<Rightarrow> (None, mem, app_recv_buffer))"

text \<open>The state beside the event handler: the static counter, the store and the shared block.\<close>

record con_state =
  dlocal :: DltDaemonLocal
  connectionId :: nat
  mem_store :: store
  app_buffer :: "nat option"

definition dlt_connection_create :: "create_env \<Rightarrow> con_state \<Rightarrow> int \<Rightarrow> int \<Rightarrow> DltConnectionType \<Rightarrow> int \<times> con_state" where
  "dlt_connection_create env s fd' msk t =
     (if fd' < 0 then (0, s)
      else if dlt_event_handler_find_connection (pEvent (dlocal s)) fd' \<noteq> None then (0, s)
      else case malloc_addr env of
        None \<Rightarrow> (- 1, s)
      | Some addr \<Rightarrow>
        (case dlt_connection_get_receiver env (mem_store s) (app_buffer s) t fd' of
           (None, mem', global) \<Rightarrow> (- 1, s\<lparr>mem_store := mem', app_buffer := global\<rparr>)
         | (Some r, mem', global) \<Rightarrow>
             let k = (if connectionId s = 0 then 1 else connectionId s);
                 c = \<lparr>c_addr = addr, c_id = k, receiver = Some r, ctype = t, status = ACTIVE, ev_mask = 0\<rparr>
             in (case dlt_event_handler_register_connection (realloc_ok env) (dlocal s) (Some c) msk of
                   (rc, dl) \<Rightarrow> (rc, s\<lparr>dlocal := dl, connectionId := (k + 1) mod 2 ^ 64, mem_store := mem', app_buffer := global\<rparr>))))"

section \<open>Lemmas on the poll table\<close>

definition polled :: "DltEventHandler \<Rightarrow> int list" where
  "polled ev = map p_fd (take (nfds ev) (pfd ev))"

definition table_ok :: "DltEventHandler \<Rightarrow> bool" where
  "table_ok ev \<longleftrightarrow> length (pfd ev) = max_nfds ev \<and> nfds ev \<le> max_nfds ev \<and> 0 < max_nfds ev"

lemma enable_fd:
  assumes "table_ok ev"
  shows "polled (dlt_event_handler_enable_fd True ev fd' msk) = polled ev @ [fd']"
    "table_ok (dlt_event_handler_enable_fd True ev fd' msk)"
    "connections (dlt_event_handler_enable_fd True ev fd' msk) = connections ev"
  using assms
  by (auto simp: dlt_event_handler_enable_fd_def polled_def table_ok_def Let_def take_Suc_conv_app_nth nth_append)

lemma shift_step:
  assumes "k < n" "n \<le> length ps" and ps': "ps' = (if k < n - 1 then ps[k := ps ! (k + 1)] else ps[k := init_poll_fd])"
  shows "take (n - 1) (take (k + 1) ps' @ drop (k + 1 + 1) (take n ps')) = take k ps @ drop (k + 1) (take n ps)"
proof (cases "k < n - 1")
  case True
  then have "drop (k + 1) (take n ps) = ps ! (k + 1) # drop (k + 2) (take n ps)"
    using assms(2) Cons_nth_drop_Suc [of "k + 1" "take n ps"] by simp
  with True assms(2) show ?thesis
    by (simp add: ps' take_Suc_conv_app_nth take_update_swap list_update_append min_def)
next
  case False
  with assms(1) have "k = n - 1" by simp
  then show ?thesis using assms(1,2) by (simp add: ps' take_Suc_conv_app_nth)
qed

text \<open>Once the entry was found, the loop moves the entries behind it down by one.\<close>

lemma disable_loop_shift:
  assumes "i \<le> n" "0 < n" "n \<le> length ps" "\<forall>k. i \<le> k \<and> k < n \<longrightarrow> p_fd (ps ! k) \<noteq> fd'"
    and "disable_loop fd' n i (i + 1) ps (n - 1) = (ps', cnt)"
  shows "cnt = n - 1 \<and> length ps' = length ps \<and> take (n - 1) ps' = take (n - 1) (take i ps @ drop (i + 1) (take n ps))"
  using assms
proof (induction "n - i" arbitrary: i ps)
  case 0
  then show ?case by (auto simp: disable_loop.simps min_def)
next
  case (Suc d)
  then have i: "i < n" by simp
  let ?ps = "if i < n - 1 then ps[i := ps ! (i + 1)] else ps[i := init_poll_fd]"
  have step: "disable_loop fd' n (i + 1) (i + 1 + 1) ?ps (n - 1) = (ps', cnt)"
    using Suc.prems i by (subst (asm) disable_loop.simps) (auto simp: Let_def)
  have "cnt = n - 1 \<and> length ps' = length ?ps \<and>
      take (n - 1) ps' = take (n - 1) (take (i + 1) ?ps @ drop (i + 1 + 1) (take n ?ps))"
    using Suc.prems i Suc.hyps(2) by (intro Suc.hyps(1) [OF _ _ _ _ _ step]) auto
  moreover have "take (n - 1) (take (i + 1) ?ps @ drop (i + 1 + 1) (take n ?ps)) =
      take (n - 1) (take i ps @ drop (i + 1) (take n ps))"
    using shift_step [OF i Suc.prems(3) refl] Suc.prems(3) i by simp
  ultimately show ?case by simp
qed

lemma disable_loop_search:
  assumes "k < n" "n \<le> length ps" "p_fd (ps ! k) = fd'" "\<forall>m. m < n \<and> m \<noteq> k \<longrightarrow> p_fd (ps ! m) \<noteq> fd'" "i \<le> k"
    and "disable_loop fd' n i i ps n = (ps', cnt)"
  shows "cnt = n - 1 \<and> length ps' = length ps \<and> take (n - 1) ps' = take k ps @ drop (k + 1) (take n ps)"
  using assms(5,6)
proof (induction "k - i" arbitrary: i)
  case 0
  then have [simp]: "i = k" by simp
  let ?ps = "if k < n - 1 then ps[k := ps ! (k + 1)] else ps[k := init_poll_fd]"
  have "disable_loop fd' n (k + 1) (k + 1 + 1) ?ps (n - 1) = (ps', cnt)"
    using 0 assms by (subst (asm) disable_loop.simps) (auto simp: Let_def)
  then have "cnt = n - 1 \<and> length ps' = length ?ps \<and>
      take (n - 1) ps' = take (n - 1) (take (k + 1) ?ps @ drop (k + 1 + 1) (take n ?ps))"
    using assms by (intro disable_loop_shift) auto
  moreover have "take (n - 1) (take (k + 1) ?ps @ drop (k + 1 + 1) (take n ?ps)) = take k ps @ drop (k + 1) (take n ps)"
    using shift_step [OF assms(1,2) refl] .
  ultimately show ?case by simp
next
  case (Suc d)
  then have "i < k" by simp
  moreover from this have "disable_loop fd' n i i ps n = disable_loop fd' n (i + 1) (i + 1) ps n"
    using assms by (subst disable_loop.simps) (simp add: Let_def)
  ultimately show ?case using Suc by (intro Suc.hyps(1)) auto
qed

lemma disable_loop_absent:
  assumes "\<forall>m < n. p_fd (ps ! m) \<noteq> fd'"
  shows "disable_loop fd' n i i ps n = (ps, n)"
  using assms
proof (induction "n - i" arbitrary: i)
  case 0
  then show ?case by (simp add: disable_loop.simps)
next
  case (Suc d)
  then have "disable_loop fd' n (i + 1) (i + 1) ps n = (ps, n)" by (intro Suc.hyps(1)) auto
  with Suc show ?case by (subst disable_loop.simps) (simp add: Let_def)
qed

lemma disable_fd:
  assumes ok: "table_ok ev" and d: "distinct (polled ev)"
  shows "polled (dlt_event_handler_disable_fd ev fd') = filter (\<lambda>x. x \<noteq> fd') (polled ev)" (is ?A)
    and "table_ok (dlt_event_handler_disable_fd ev fd')" (is ?B)
    and "connections (dlt_event_handler_disable_fd ev fd') = connections ev"
proof -
  let ?n = "nfds ev" and ?ps = "pfd ev"
  have len: "?n \<le> length ?ps" using ok by (simp add: table_ok_def)
  have at: "polled ev ! m = p_fd (?ps ! m)" "m < length (polled ev)" if "m < ?n" for m
    using that len by (simp_all add: polled_def)
  have "?A \<and> ?B"
  proof (cases "fd' \<in> set (polled ev)")
    case False
    then have "\<forall>m < ?n. p_fd (?ps ! m) \<noteq> fd'" using at by (metis nth_mem)
    then have "dlt_event_handler_disable_fd ev fd' = ev"
      by (simp add: dlt_event_handler_disable_fd_def disable_loop_absent)
    moreover have "filter (\<lambda>x. x \<noteq> fd') (polled ev) = polled ev" using False by (intro filter_True) auto
    ultimately show ?thesis using ok by simp
  next
    case True
    then obtain k where k: "k < ?n" "p_fd (?ps ! k) = fd'"
      using len by (auto simp: in_set_conv_nth polled_def)
    have others: "\<forall>m. m < ?n \<and> m \<noteq> k \<longrightarrow> p_fd (?ps ! m) \<noteq> fd'"
      using d k at by (metis nth_eq_iff_index_eq)
    obtain ps' cnt where dl: "disable_loop fd' ?n 0 0 ?ps ?n = (ps', cnt)" by fastforce
    note r = disable_loop_search [OF k(1) len k(2) others le0 dl]
    have split: "take ?n ?ps = take k ?ps @ ?ps ! k # drop (k + 1) (take ?n ?ps)"
      using k(1) len id_take_nth_drop [of k "take ?n ?ps"] by (simp add: min_def)
    have pol: "polled ev = map p_fd (take k ?ps) @ fd' # map p_fd (drop (k + 1) (take ?n ?ps))"
      unfolding polled_def by (subst split) (simp add: k(2))
    have "polled (dlt_event_handler_disable_fd ev fd') = map p_fd (take k ?ps @ drop (k + 1) (take ?n ?ps))"
      using r dl by (simp add: dlt_event_handler_disable_fd_def polled_def)
    also have "\<dots> = filter (\<lambda>x. x \<noteq> fd') (polled ev)"
    proof -
      have "fd' \<notin> set (map p_fd (take k ?ps)) \<union> set (map p_fd (drop (k + 1) (take ?n ?ps)))"
        using d unfolding pol by auto
      then have "filter (\<lambda>x. x \<noteq> fd') (map p_fd (take k ?ps)) = map p_fd (take k ?ps)"
        "filter (\<lambda>x. x \<noteq> fd') (map p_fd (drop (k + 1) (take ?n ?ps))) = map p_fd (drop (k + 1) (take ?n ?ps))"
        by (auto simp: filter_id_conv)
      then show ?thesis unfolding pol by simp
    qed
    finally have "polled (dlt_event_handler_disable_fd ev fd') = filter (\<lambda>x. x \<noteq> fd') (polled ev)" .
    moreover have "table_ok (dlt_event_handler_disable_fd ev fd')"
      using r dl ok by (auto simp: dlt_event_handler_disable_fd_def table_ok_def)
    ultimately show ?thesis by blast
  qed
  then show ?A ?B by blast+
  show "connections (dlt_event_handler_disable_fd ev fd') = connections ev"
    by (simp add: dlt_event_handler_disable_fd_def split: prod.splits)
qed

section \<open>The event handler\<close>

definition con_fd :: "DltConnection \<Rightarrow> int" where
  "con_fd c = fd (the (receiver c))"

definition active_cons :: "DltEventHandler \<Rightarrow> DltConnection list" where
  "active_cons ev = filter (\<lambda>c. status c = ACTIVE) (connections ev)"

text \<open>
  The descriptors in the poll table are those of the active connections, each once; connections
  are distinct objects with a receiver; the number of clients is the counter of the daemon.
\<close>

definition handler_ok :: "DltDaemonLocal \<Rightarrow> bool" where
  "handler_ok dl \<longleftrightarrow>
     table_ok (pEvent dl) \<and> distinct (polled (pEvent dl)) \<and> distinct (map c_addr (connections (pEvent dl))) \<and>
     distinct (map con_fd (active_cons (pEvent dl))) \<and>
     set (polled (pEvent dl)) = con_fd ` set (active_cons (pEvent dl)) \<and>
     (\<forall>c \<in> set (connections (pEvent dl)). receiver c \<noteq> None \<and> (status c = ACTIVE \<or> status c = INACTIVE)) \<and>
     client_connections dl = int (length (filter (\<lambda>c. is_client (ctype c)) (connections (pEvent dl))))"

lemma find_con_Some:
  assumes "find_con cs f = Some c"
  shows "c \<in> set cs \<and> (\<exists>r. receiver c = Some r \<and> fd r = f)"
  using assms by (induction cs f rule: find_con.induct) (auto split: option.splits if_splits)

lemma find_con_None:
  assumes "find_con cs f = None" "\<forall>c \<in> set cs. receiver c \<noteq> None"
  shows "f \<notin> con_fd ` set cs"
  using assms by (induction cs f rule: find_con.induct) (auto simp: con_fd_def split: option.splits if_splits)

lemma remove_con_split:
  "remove_con (before @ c # after) (c_addr c) = before @ after" if "c_addr c \<notin> set (map c_addr before)"
  using that by (induction before) auto

lemma map_update_split:
  assumes "distinct (map c_addr (before @ c # after))"
  shows "map (\<lambda>x. if c_addr x = c_addr c then f x else x) (before @ c # after) = before @ f c # after"
  using assms by (auto intro!: map_idI) (metis imageI)+

text \<open>A registration adds the connection, starts polling its descriptor and counts clients.\<close>

lemma register_ok:
  assumes ok: "handler_ok dl" and c: "receiver c \<noteq> None"
    and new: "find_con (connections (pEvent dl)) (con_fd c) = None" "c_addr c \<notin> set (map c_addr (connections (pEvent dl)))"
    and r: "dlt_event_handler_register_connection True dl (Some c) msk = (rc, dl')"
  shows "rc = 0 \<and> handler_ok dl' \<and> connections (pEvent dl') = connections (pEvent dl) @ [c\<lparr>status := ACTIVE, ev_mask := msk\<rparr>] \<and>
    polled (pEvent dl') = polled (pEvent dl) @ [con_fd c] \<and>
    client_connections dl' = client_connections dl + (if is_client (ctype c) then 1 else 0)"
proof -
  let ?c = "c\<lparr>status := INACTIVE, ev_mask := msk\<rparr>" and ?cs = "connections (pEvent dl)"
  let ?ev = "(pEvent dl)\<lparr>connections := ?cs @ [?c]\<rparr>"
  obtain r' where r': "receiver c = Some r'" using c by auto
  have tab: "table_ok ?ev" using ok by (simp add: handler_ok_def table_ok_def)
  have pol: "polled ?ev = polled (pEvent dl)" by (simp add: polled_def)
  define e where "e = dlt_event_handler_enable_fd True ?ev (fd r') msk"
  note en = enable_fd [OF tab, of "fd r'" msk, folded e_def]
  have cs: "connections e = ?cs @ ?c # []" using en(3) by simp
  have "distinct (map c_addr (?cs @ ?c # []))" using ok new(2) by (simp add: handler_ok_def)
  from map_update_split [OF this, of "\<lambda>x. x\<lparr>status := ACTIVE\<rparr>"]
  have upd: "update_con e (c_addr c) (\<lambda>x. x\<lparr>status := ACTIVE\<rparr>) = e\<lparr>connections := ?cs @ [c\<lparr>status := ACTIVE, ev_mask := msk\<rparr>]\<rparr>"
    unfolding update_con_def cs by simp
  have "dlt_connection_check_activate True (Some ?ev) (Some ?c) ACTIVATE =
      (0, Some (e\<lparr>connections := ?cs @ [c\<lparr>status := ACTIVE, ev_mask := msk\<rparr>]\<rparr>))"
    unfolding dlt_connection_check_activate_def by (simp add: r' upd flip: e_def)
  then have res: "rc = 0" "pEvent dl' = e\<lparr>connections := ?cs @ [c\<lparr>status := ACTIVE, ev_mask := msk\<rparr>]\<rparr>"
    "client_connections dl' = client_connections dl + (if is_client (ctype c) then 1 else 0)"
    using r by (auto simp: dlt_event_handler_register_connection_def dlt_daemon_add_connection_def Let_def r' split: if_splits)
  have pol': "polled (pEvent dl') = polled (pEvent dl) @ [con_fd c]"
    using en(1) pol by (simp add: res(2) polled_def con_fd_def r')
  have tab': "table_ok (pEvent dl')" using en(2) by (simp add: res(2) table_ok_def)
  have act: "active_cons (pEvent dl') = active_cons (pEvent dl) @ [c\<lparr>status := ACTIVE, ev_mask := msk\<rparr>]"
    by (simp add: active_cons_def res(2))
  have "con_fd c \<notin> con_fd ` set ?cs" using find_con_None [OF new(1)] ok by (simp add: handler_ok_def)
  then have nfd: "con_fd c \<notin> con_fd ` set (active_cons (pEvent dl))" by (auto simp: active_cons_def)
  have cf: "con_fd (c\<lparr>status := ACTIVE, ev_mask := msk\<rparr>) = con_fd c" by (simp add: con_fd_def)
  have "handler_ok dl'"
    using ok nfd new(2) c tab' unfolding handler_ok_def pol' act by (auto simp: res(2,3) cf)
  with res pol' show ?thesis by simp
qed

text \<open>
  The descriptor that \<open>dlt_event_handler_unregister_connection\<close> closes: deactivating a listening
  client socket overwrites the descriptor before \<open>dlt_connection_destroy\<close> reads it.
\<close>

definition closed_fd :: "DltConnection \<Rightarrow> int" where
  "closed_fd c = (if status c = ACTIVE \<and> ctype c = DLT_CONNECTION_CLIENT_CONNECT then - 1 else con_fd c)"

lemma deactivate_con:
  assumes ok: "handler_ok dl" and cs: "connections (pEvent dl) = before @ c # after"
  obtains e c' where "dlt_connection_check_activate True (Some (pEvent dl)) (Some c) DEACTIVATE = (0, Some e)"
    "connections e = before @ c' # after" "c_addr c' = c_addr c" "con_fd c' = closed_fd c" "ctype c' = ctype c" "status c' = INACTIVE"
    "receiver c' \<noteq> None" "table_ok e" "polled e = (if status c = ACTIVE then filter (\<lambda>x. x \<noteq> con_fd c) (polled (pEvent dl)) else polled (pEvent dl))"
proof -
  have d: "distinct (map c_addr (before @ c # after))" and tab: "table_ok (pEvent dl)" and pol: "distinct (polled (pEvent dl))"
    using ok cs by (simp_all add: handler_ok_def)
  obtain r where r: "receiver c = Some r" using ok cs by (auto simp: handler_ok_def)
  show ?thesis
  proof (cases "status c = ACTIVE")
    case True
    let ?f = "\<lambda>x. x\<lparr>receiver := (if ctype c = DLT_CONNECTION_CLIENT_CONNECT then Some (r\<lparr>fd := - 1\<rparr>) else receiver x), status := INACTIVE\<rparr>"
    define e where "e = dlt_event_handler_disable_fd (pEvent dl) (fd r)"
    note dis = disable_fd [OF tab pol, of "fd r", folded e_def]
    have "update_con e (c_addr c) ?f = e\<lparr>connections := before @ ?f c # after\<rparr>"
      unfolding update_con_def dis(3) cs by (subst map_update_split [OF d]) (rule refl)
    then have "dlt_connection_check_activate True (Some (pEvent dl)) (Some c) DEACTIVATE =
        (0, Some (e\<lparr>connections := before @ ?f c # after\<rparr>))"
      unfolding dlt_connection_check_activate_def by (simp add: r True flip: e_def)
    then show ?thesis using dis r True
      by (intro that [of "e\<lparr>connections := before @ ?f c # after\<rparr>" "?f c"])
         (auto simp: con_fd_def closed_fd_def table_ok_def polled_def)
  next
    case False
    then have "status c = INACTIVE" using ok cs by (auto simp: handler_ok_def)
    with r cs tab show ?thesis
      by (intro that [of "pEvent dl" c]) (auto simp: dlt_connection_check_activate_def closed_fd_def)
  qed
qed

lemma unregister_ok:
  assumes ok: "handler_ok dl" and f: "find_con (connections (pEvent dl)) fd' = Some c"
    and r: "dlt_event_handler_unregister_connection dl fd' = (rc, dl', closed)"
  shows "rc = 0 \<and> handler_ok dl' \<and> closed = [closed_fd c] \<and>
    (\<exists>before after. connections (pEvent dl) = before @ c # after \<and> connections (pEvent dl') = before @ after) \<and>
    polled (pEvent dl') = (if status c = ACTIVE then filter (\<lambda>x. x \<noteq> fd') (polled (pEvent dl)) else polled (pEvent dl)) \<and>
    client_connections dl' = client_connections dl - (if is_client (ctype c) then 1 else 0)"
proof -
  from find_con_Some [OF f] have "c \<in> set (connections (pEvent dl))" and fd': "con_fd c = fd'" by (auto simp: con_fd_def)
  then obtain before after where cs: "connections (pEvent dl) = before @ c # after" by (meson split_list)
  obtain e c' where de: "dlt_connection_check_activate True (Some (pEvent dl)) (Some c) DEACTIVATE = (0, Some e)"
    and e: "connections e = before @ c' # after" "c_addr c' = c_addr c" "con_fd c' = closed_fd c" "ctype c' = ctype c" "status c' = INACTIVE"
      "receiver c' \<noteq> None" "table_ok e" "polled e = (if status c = ACTIVE then filter (\<lambda>x. x \<noteq> con_fd c) (polled (pEvent dl)) else polled (pEvent dl))"
    using deactivate_con [OF ok cs] by blast
  have d: "distinct (map c_addr (before @ c # after))" using ok cs by (simp add: handler_ok_def)
  then have "filter (\<lambda>x. c_addr x = c_addr c) before = []" "filter (\<lambda>x. c_addr x = c_addr c) after = []"
    by (auto simp: filter_empty_conv) (metis imageI)+
  then have "filter (\<lambda>x. c_addr x = c_addr c) (before @ c' # after) = [c']" using e(2) by simp
  moreover have "remove_con (before @ c' # after) (c_addr c') = before @ after"
    using d e(2) by (intro remove_con_split) simp
  moreover have "0 < length (filter (\<lambda>c. is_client (ctype c)) (connections (pEvent dl)))" if "is_client (ctype c)"
    using that by (simp add: cs)
  ultimately have res: "rc = 0" "closed = [con_fd c']" "pEvent dl' = e\<lparr>connections := before @ after\<rparr>"
    "client_connections dl' = client_connections dl - (if is_client (ctype c) then 1 else 0)"
    using r f ok e de unfolding dlt_event_handler_unregister_connection_def dlt_event_handler_find_connection_def
    by (auto simp: dlt_daemon_remove_connection_def dlt_connection_destroy_def con_fd_def Let_def handler_ok_def split: if_splits)
  have act: "active_cons (pEvent dl') = filter (\<lambda>c. status c = ACTIVE) before @ filter (\<lambda>c. status c = ACTIVE) after"
    "active_cons (pEvent dl) = filter (\<lambda>c. status c = ACTIVE) before @ (if status c = ACTIVE then [c] else []) @ filter (\<lambda>c. status c = ACTIVE) after"
    by (simp_all add: active_cons_def res(3) cs)
  have tp: "table_ok (pEvent dl')" "polled (pEvent dl') = polled e" using e(7) by (simp_all add: res(3) table_ok_def polled_def)
  have "set (polled (pEvent dl')) = con_fd ` set (active_cons (pEvent dl'))"
    using ok unfolding handler_ok_def tp e(8) act by auto
  then have "handler_ok dl'"
    using ok tp e(8) unfolding handler_ok_def act by (auto simp: res(3,4) cs)
  with res tp e cs fd' show ?thesis by auto
qed

section \<open>Reachable states\<close>

definition env_ok :: "create_env \<Rightarrow> con_state \<Rightarrow> bool" where
  "env_ok env s \<longleftrightarrow> realloc_ok env \<and> shared_block env \<noteq> None \<and>
     (\<forall>a. malloc_addr env = Some a \<longrightarrow> a \<notin> set (map c_addr (connections (pEvent (dlocal s))))) \<and>
     (\<forall>f r. gateway_receiver env f = Some r \<longrightarrow> fd r = f)"

inductive con_reach :: "con_state \<Rightarrow> bool" where
  prepared: "dlt_daemon_prepare_event_handling True (Some e) = (0, Some (pEvent (dlocal s))) \<Longrightarrow> connections e = [] \<Longrightarrow>
    client_connections (dlocal s) = 0 \<Longrightarrow> con_reach s"
| created: "con_reach s \<Longrightarrow> env_ok env s \<Longrightarrow> dlt_connection_create env s f msk t = (rc, s') \<Longrightarrow> con_reach s'"
| unregistered: "con_reach s \<Longrightarrow> dlt_event_handler_unregister_connection (dlocal s) f = (rc, dl', closed) \<Longrightarrow>
    con_reach (s\<lparr>dlocal := dl'\<rparr>)"

lemma receiver_fd:
  assumes "dlt_connection_get_receiver env mem g t f = (Some r, mem', g')" "\<forall>f r. gateway_receiver env f = Some r \<longrightarrow> fd r = f"
    and "shared_block env \<noteq> None"
  shows "fd r = f"
  using assms
  by (cases t)
     (auto simp: dlt_connection_get_receiver_def dlt_receiver_init_def dlt_receiver_init_global_buffer_def zero_receiver_def Let_def
      split: if_splits option.splits)

lemma create_ok:
  assumes ok: "handler_ok (dlocal s)" and env: "env_ok env s" and c: "dlt_connection_create env s f msk t = (rc, s')"
  shows "handler_ok (dlocal s')"
proof (cases "dlocal s' = dlocal s")
  case False
  then obtain addr r mem' g' where
    g: "find_con (connections (pEvent (dlocal s))) f = None" "malloc_addr env = Some addr"
      "dlt_connection_get_receiver env (mem_store s) (app_buffer s) t f = (Some r, mem', g')"
    using c by (auto simp: dlt_connection_create_def dlt_event_handler_find_connection_def Let_def
        split: if_splits option.splits prod.splits)
  then obtain k where reg: "dlt_event_handler_register_connection True (dlocal s)
      (Some \<lparr>c_addr = addr, c_id = k, receiver = Some r, ctype = t, status = ACTIVE, ev_mask = 0\<rparr>) msk = (rc, dlocal s')"
    using c env False by (auto simp: dlt_connection_create_def dlt_event_handler_find_connection_def Let_def env_ok_def
        split: if_splits prod.splits)
  have "fd r = f" using receiver_fd [OF g(3)] env by (auto simp: env_ok_def)
  with g env register_ok [OF ok _ _ _ reg] show ?thesis by (simp add: con_fd_def env_ok_def)
qed (use ok in simp)

lemma reach_handler_ok: "con_reach s \<Longrightarrow> handler_ok (dlocal s)"
proof (induction rule: con_reach.induct)
  case (prepared e s)
  then have "pEvent (dlocal s) = e\<lparr>pfd := replicate 16 init_poll_fd, nfds := 0, max_nfds := 16\<rparr>"
    by (simp add: dlt_daemon_prepare_event_handling_def)
  with prepared(2,3) show ?case by (simp add: handler_ok_def table_ok_def polled_def active_cons_def)
next
  case (created s env f msk t rc s')
  show ?case by (rule create_ok [OF created.IH created.hyps(2,3)])
next
  case (unregistered s f rc dl' closed)
  show ?case
  proof (cases "find_con (connections (pEvent (dlocal s))) f")
    case None
    with unregistered show ?thesis
      by (simp add: dlt_event_handler_unregister_connection_def dlt_event_handler_find_connection_def)
  next
    case (Some c)
    with unregistered unregister_ok [OF _ Some unregistered.hyps(2)] show ?thesis by simp
  qed
qed

section \<open>Properties\<close>

text \<open>
  C16. In every state reached by creating and unregistering connections, in any order, also when creations are
  refused or fail for want of memory for the connection or its receiver, as long as the poll table can grow, the shared block of the
  application receivers is allocated and a gateway receiver has the descriptor it is created for, the poll table holds exactly the descriptors of the active
  connections, each once, the table has room for its entries, and
  \<open>client_connections\<close> is the number of TCP and serial clients in the list. Without room in the poll table or
  without the shared block it does not hold (\<open>register_without_poll_slot\<close>, \<open>app_receiver_without_buffer\<close>).
\<close>

theorem event_handler_invariant:
  assumes "con_reach s"
  shows "set (polled (pEvent (dlocal s))) = con_fd ` set (active_cons (pEvent (dlocal s))) \<and>
    distinct (polled (pEvent (dlocal s))) \<and>
    nfds (pEvent (dlocal s)) \<le> length (pfd (pEvent (dlocal s))) \<and>
    client_connections (dlocal s) = int (length (filter (\<lambda>c. is_client (ctype c)) (connections (pEvent (dlocal s)))))"
  using reach_handler_ok [OF assms] by (simp add: handler_ok_def table_ok_def)

definition example_create_env :: create_env where
  "example_create_env = \<lparr>calloc_ok = True, calloc_at = (\<lambda>_. Some 1), shared_block = Some (2, []), is_socket = (\<lambda>_. True),
     gateway_receiver = (\<lambda>_. None), malloc_addr = Some 100, realloc_ok = True\<rparr>"

definition example_state :: con_state where
  "example_state = \<lparr>dlocal = \<lparr>pEvent = \<lparr>pfd = replicate 16 init_poll_fd, nfds = 0, max_nfds = 16, connections = []\<rparr>,
     client_connections = 0\<rparr>, connectionId = 0, mem_store = (\<lambda>_. []), app_buffer = None\<rparr>"

lemma example_reach: "con_reach example_state"
  by (rule con_reach.prepared [of "\<lparr>pfd = [], nfds = 0, max_nfds = 0, connections = []\<rparr>"])
     (simp_all add: dlt_daemon_prepare_event_handling_def example_state_def)

lemma example_create_env_ok: "env_ok example_create_env example_state"
  by (simp add: env_ok_def example_create_env_def example_state_def)

definition example_connected :: con_state where
  "example_connected = snd (dlt_connection_create example_create_env example_state 7 1 DLT_CONNECTION_CLIENT_MSG_TCP)"

lemma example_connected_reach: "con_reach example_connected"
proof -
  obtain rc s' where c: "dlt_connection_create example_create_env example_state 7 1 DLT_CONNECTION_CLIENT_MSG_TCP = (rc, s')" by fastforce
  then have "con_reach s'" by (rule con_reach.created [OF example_reach example_create_env_ok])
  then show ?thesis by (simp add: example_connected_def c)
qed

theorem event_handler_invariant_witness:
  "set (polled (pEvent (dlocal example_connected))) = con_fd ` set (active_cons (pEvent (dlocal example_connected)))"
  using event_handler_invariant [OF example_connected_reach] by simp

text \<open>
  Unregistering a descriptor removes the first connection that uses it and nothing else, takes
  its descriptor out of the poll table, keeps the order of the others and the invariant. The
  descriptor is handed to \<open>close\<close>, except for an active listening client socket: there the
  deactivation has already overwritten it with \<open>-1\<close>, and the socket stays open.
\<close>

theorem unregister_removes:
  assumes "handler_ok dl" "find_con (connections (pEvent dl)) f = Some c"
    and "dlt_event_handler_unregister_connection dl f = (rc, dl', closed)"
  shows "rc = 0 \<and> handler_ok dl' \<and>
    closed = [if status c = ACTIVE \<and> ctype c = DLT_CONNECTION_CLIENT_CONNECT then - 1 else f] \<and>
    (\<exists>before after. connections (pEvent dl) = before @ c # after \<and> connections (pEvent dl') = before @ after) \<and>
    polled (pEvent dl') = (if status c = ACTIVE then filter (\<lambda>x. x \<noteq> f) (polled (pEvent dl)) else polled (pEvent dl)) \<and>
    client_connections dl' = client_connections dl - (if is_client (ctype c) then 1 else 0)"
  using unregister_ok [OF assms] find_con_Some [OF assms(2)] by (auto simp: closed_fd_def con_fd_def)

definition example_listener :: DltConnection where
  "example_listener = \<lparr>c_addr = 5, c_id = 1, receiver = Some (zero_receiver\<lparr>fd := 9\<rparr>), ctype = DLT_CONNECTION_CLIENT_CONNECT,
     status = ACTIVE, ev_mask = 1\<rparr>"

definition example_local :: DltDaemonLocal where
  "example_local = \<lparr>pEvent = \<lparr>pfd = [\<lparr>p_fd = 9, p_events = 1, p_revents = 0\<rparr>], nfds = 1, max_nfds = 1, connections = [example_listener]\<rparr>,
     client_connections = 0\<rparr>"

lemma example_local_ok: "handler_ok example_local" "find_con (connections (pEvent example_local)) 9 = Some example_listener"
  by (simp_all add: handler_ok_def table_ok_def polled_def active_cons_def con_fd_def is_client_def example_local_def example_listener_def)

text \<open>
  When the poll table is full and cannot be enlarged, the registration still reports success:
  the connection is active and counted, but its descriptor is never polled.
\<close>

theorem register_without_poll_slot:
  assumes "nfds (pEvent dl) = max_nfds (pEvent dl)" "receiver c \<noteq> None" "is_client (ctype c)"
    and "dlt_event_handler_register_connection False dl (Some c) msk = (rc, dl')"
  shows "rc = 0 \<and> client_connections dl' = client_connections dl + 1 \<and>
    c\<lparr>status := ACTIVE, ev_mask := msk\<rparr> \<in> set (connections (pEvent dl')) \<and> polled (pEvent dl') = polled (pEvent dl)"
  using assms
  by (auto simp: dlt_event_handler_register_connection_def dlt_daemon_add_connection_def dlt_connection_check_activate_def
      dlt_event_handler_enable_fd_def update_con_def polled_def Let_def)

text \<open>
  A connection to an application whose receiver gets no buffer is created with descriptor 0:
  \<open>dlt_receiver_init_global_buffer\<close> fails before it stores the descriptor, and its return value
  is not looked at.
\<close>

lemma app_receiver_without_buffer:
  assumes "calloc_ok env" "shared_block env = None"
  shows "\<exists>r. dlt_connection_get_receiver env mem None DLT_CONNECTION_APP_MSG f = (Some r, mem, None) \<and> fd r = 0 \<and> rbuffer r = None"
  using assms by (simp add: dlt_connection_get_receiver_def dlt_receiver_init_global_buffer_def zero_receiver_def Let_def)

end
