(* ===== verification/Daemon_Send.thy ===== *)
theory Daemon_Send
  imports Dlt_Buffer Dlt_Message Event_Handler
begin

text \<open>
  Delivery of messages by the daemon (\<open>src/daemon/dlt_daemon_client.c\<close>, \<open>src/daemon/dlt-daemon.c\<close>,
  \<open>src/daemon/dlt_daemon_common.c\<close>): the states of \<open>DltDaemonState\<close>, sending a message to all clients or into
  the client ring buffer, the control messages that report overflows and disconnections, closing
  a client socket and sending the ring buffer to the first client that connects.

  The functions call each other: a failing send closes the socket, which sends two further
  messages. The model gives each of them fuel; None means that the fuel is used up. Lemmas show
  how much fuel is enough, and one property shows a case in which no fuel is enough.

  The outside world is a parameter: whether the \<open>k\<close>-th write to a descriptor succeeds (\<open>net\<close>), how many
  bytes leave when it is not the whole (\<open>cut\<close>), the clock, allocations. The writes, the offline writers and the notifications to applications are events in
  the order in which they happen.
\<close>

section \<open>State\<close>

datatype DltDaemonState =
    DLT_DAEMON_STATE_INIT | DLT_DAEMON_STATE_BUFFER | DLT_DAEMON_STATE_BUFFER_FULL
  | DLT_DAEMON_STATE_SEND_BUFFER | DLT_DAEMON_STATE_SEND_DIRECT

datatype DltUserLogMode =
    DLT_USER_MODE_UNDEFINED | DLT_USER_MODE_OFF | DLT_USER_MODE_EXTERNAL | DLT_USER_MODE_INTERNAL
  | DLT_USER_MODE_BOTH | DLT_USER_MODE_MAX

record DltDaemon =
  dstate :: DltDaemonState
  dmode :: DltUserLogMode
  sendserialheader :: bool
  client_ringbuffer :: DltBuffer
  overflow_counter :: nat
  connectionState :: int
  ecuid :: "byte list"

datatype event =
    ToClient int "byte list"
  | OfflineTrace "byte list"
  | LogStorage "byte list"
  | Closed int
  | LogStateToApplications int

record world =
  daemon :: DltDaemon
  wlocal :: DltDaemonLocal
  uiMsgCount :: nat
  ticks :: nat
  out :: "event list"

record outside =
  net :: "nat \<Rightarrow> int \<Rightarrow> bool"
  cut :: "nat \<Rightarrow> int \<Rightarrow> nat option"
  isatty :: "int \<Rightarrow> bool"
  uptime :: "nat \<Rightarrow> int"
  now :: "nat \<Rightarrow> int \<times> int"
  pid :: int
  balloc :: "nat \<Rightarrow> byte list option"
  bpad :: "DltBuffer \<Rightarrow> byte list"
  msg_alloc :: bool
  offlineTraceDirectory :: bool
  offlineLogstorage :: bool
  yvalue :: bool

abbreviation (input) DLT_DAEMON_SEND_TO_ALL :: int where "DLT_DAEMON_SEND_TO_ALL \<equiv> - 3"
abbreviation (input) DLT_DAEMON_SEND_FORCE :: int where "DLT_DAEMON_SEND_FORCE \<equiv> - 4"
abbreviation (input) DLT_DAEMON_ERROR_OK :: int where "DLT_DAEMON_ERROR_OK \<equiv> 0"
abbreviation (input) DLT_DAEMON_ERROR_UNKNOWN :: int where "DLT_DAEMON_ERROR_UNKNOWN \<equiv> - 1"
abbreviation (input) DLT_DAEMON_ERROR_BUFFER_FULL :: int where "DLT_DAEMON_ERROR_BUFFER_FULL \<equiv> - 2"
abbreviation (input) DLT_DAEMON_ERROR_SEND_FAILED :: int where "DLT_DAEMON_ERROR_SEND_FAILED \<equiv> - 3"

definition dlt_daemon_change_state :: "DltDaemon \<Rightarrow> DltDaemonState \<Rightarrow> DltDaemon" where
  "dlt_daemon_change_state d newState =
     (case newState of
        DLT_DAEMON_STATE_INIT \<Rightarrow> d\<lparr>dstate := DLT_DAEMON_STATE_INIT\<rparr>
      | DLT_DAEMON_STATE_BUFFER \<Rightarrow> d\<lparr>dstate := DLT_DAEMON_STATE_BUFFER\<rparr>
      | DLT_DAEMON_STATE_BUFFER_FULL \<Rightarrow> d\<lparr>dstate := DLT_DAEMON_STATE_BUFFER_FULL\<rparr>
      | DLT_DAEMON_STATE_SEND_BUFFER \<Rightarrow> d\<lparr>dstate := DLT_DAEMON_STATE_SEND_BUFFER\<rparr>
      | DLT_DAEMON_STATE_SEND_DIRECT \<Rightarrow> d\<lparr>dstate := DLT_DAEMON_STATE_SEND_DIRECT\<rparr>)"

section \<open>Writing to one connection\<close>

text \<open>
  Reliable sending to a socket: whether it succeeds, and the event. When it fails, \<open>cut\<close> says how many bytes
  were sent before.
\<close>

definition write_fd :: "outside \<Rightarrow> world \<Rightarrow> int \<Rightarrow> byte list \<Rightarrow> bool \<times> world" where
  "write_fd env w f bytes =
     (let ok = net env (ticks w) f;
          es = (if ok then [ToClient f bytes]
                else case cut env (ticks w) f of None \<Rightarrow> [] | Some n \<Rightarrow> [ToClient f (take n bytes)])
      in (ok, w\<lparr>ticks := ticks w + 1, out := out w @ es\<rparr>))"

text \<open>One call of \<open>write\<close>: its result and the event. It may take a part of the bytes only.\<close>

definition write_once :: "outside \<Rightarrow> world \<Rightarrow> int \<Rightarrow> byte list \<Rightarrow> int \<times> world" where
  "write_once env w f bytes =
     (if net env (ticks w) f then
        let taken = (case cut env (ticks w) f of None \<Rightarrow> bytes | Some n \<Rightarrow> take n bytes)
        in (int (length taken), w\<lparr>ticks := ticks w + 1, out := out w @ [ToClient f taken]\<rparr>)
      else (- 1, w\<lparr>ticks := ticks w + 1\<rparr>))"

definition dlt_connection_send :: "outside \<Rightarrow> world \<Rightarrow> DltConnection \<Rightarrow> byte list \<Rightarrow> int \<times> world" where
  "dlt_connection_send env w conn msg =
     (case receiver conn of None \<Rightarrow> (DLT_DAEMON_ERROR_UNKNOWN, w)
      | Some r \<Rightarrow>
        (case ctype conn of
           DLT_CONNECTION_CLIENT_MSG_SERIAL \<Rightarrow>
             (case write_once env w (fd r) msg of
                (n, w') \<Rightarrow> (if n > 0 then DLT_DAEMON_ERROR_OK else DLT_DAEMON_ERROR_UNKNOWN, w'))
         | DLT_CONNECTION_CLIENT_MSG_TCP \<Rightarrow>
             (case write_fd env w (fd r) msg of
                (ok, w') \<Rightarrow> (if ok then DLT_DAEMON_ERROR_OK else DLT_DAEMON_ERROR_SEND_FAILED, w'))
         | _ \<Rightarrow> (DLT_DAEMON_ERROR_UNKNOWN, w)))"

definition send_part :: "outside \<Rightarrow> DltConnection \<Rightarrow> byte list option \<Rightarrow> int \<times> world \<Rightarrow> int \<times> world" where
  "send_part env con d rw =
     (case d of Some bytes \<Rightarrow> if fst rw = DLT_RETURN_OK then dlt_connection_send env (snd rw) con bytes else rw
      | None \<Rightarrow> rw)"

definition dlt_connection_send_multiple ::
  "outside \<Rightarrow> world \<Rightarrow> DltConnection option \<Rightarrow> byte list option \<Rightarrow> byte list option \<Rightarrow> bool \<Rightarrow> int \<times> world" where
  "dlt_connection_send_multiple env w con data1 data2 serial =
     (case con of None \<Rightarrow> (DLT_DAEMON_ERROR_UNKNOWN, w)
      | Some c \<Rightarrow>
        send_part env c data2 (send_part env c data1
          (if serial then dlt_connection_send env w c dltSerialHeader else (0, w))))"

text \<open>The loop of \<open>dlt_daemon_socket_sendreliable\<close> on the results of its calls of \<open>send\<close>.\<close>

fun sendreliable_loop :: "byte list \<Rightarrow> nat \<Rightarrow> int list \<Rightarrow> (int \<times> byte list list) option" where
  "sendreliable_loop data_buffer data_sent answers =
     (if data_sent < length data_buffer then
        (case answers of
           [] \<Rightarrow> None
         | a # rest \<Rightarrow>
           if a < 0 then Some (DLT_DAEMON_ERROR_SEND_FAILED, [])
           else map_option (\<lambda>(rc, chunks). (rc, take (nat a) (drop data_sent data_buffer) # chunks))
                  (sendreliable_loop data_buffer (data_sent + nat a) rest))
      else Some (DLT_DAEMON_ERROR_OK, []))"

definition dlt_daemon_socket_sendreliable :: "byte list \<Rightarrow> int list \<Rightarrow> (int \<times> byte list list) option" where
  "dlt_daemon_socket_sendreliable data_buffer answers = sendreliable_loop data_buffer 0 answers"

text \<open>\<open>dlt_daemon_socket_send\<close> and \<open>dlt_daemon_serial_send\<close> to one descriptor. \<open>wr\<close> writes the parts.\<close>

definition write_part :: "(world \<Rightarrow> byte list \<Rightarrow> bool \<times> world) \<Rightarrow> byte list option \<Rightarrow> bool \<times> world \<Rightarrow> bool \<times> world" where
  "write_part wr d okw =
     (case d of Some bytes \<Rightarrow> if fst okw \<and> bytes \<noteq> [] then wr (snd okw) bytes else okw | None \<Rightarrow> okw)"

definition dlt_daemon_socket_send ::
  "outside \<Rightarrow> world \<Rightarrow> int \<Rightarrow> byte list option \<Rightarrow> byte list option \<Rightarrow> bool \<Rightarrow> int \<times> world" where
  "dlt_daemon_socket_send env w sock data1 data2 serial =
     (let wr = (\<lambda>w. write_fd env w sock)
      in case write_part wr data2 (write_part wr data1 (if serial then wr w dltSerialHeader else (True, w))) of
           (ok, w') \<Rightarrow> (if ok then DLT_RETURN_OK else DLT_DAEMON_ERROR_SEND_FAILED, w'))"

text \<open>A serial line is written without a loop: a part that was written is a success.\<close>

definition dlt_daemon_serial_send ::
  "outside \<Rightarrow> world \<Rightarrow> int \<Rightarrow> byte list option \<Rightarrow> byte list option \<Rightarrow> bool \<Rightarrow> int \<times> world" where
  "dlt_daemon_serial_send env w sock data1 data2 serial =
     (let wr = (\<lambda>w bytes. case write_once env w sock bytes of (n, w') \<Rightarrow> (0 \<le> n, w'))
      in case write_part wr data2 (write_part wr data1 (if serial then wr w dltSerialHeader else (True, w))) of
           (ok, w') \<Rightarrow> (if ok then DLT_DAEMON_ERROR_OK else DLT_DAEMON_ERROR_SEND_FAILED, w'))"

section \<open>Control messages and internal messages\<close>

definition storage_bytes :: "DltStorageHeader \<Rightarrow> byte list" where
  "storage_bytes s = sh_pattern s @ le_bytes 4 (int (sh_seconds s)) @ le_bytes 4 (sh_microseconds s) @ sh_ecu s"

definition zero_storage :: DltStorageHeader where
  "zero_storage = \<lparr>sh_pattern = [0, 0, 0, 0], sh_seconds = 0, sh_microseconds = 0, sh_ecu = [0, 0, 0, 0]\<rparr>"

definition zero_msg :: DltMessage where
  "zero_msg = \<lparr>found_serialheader = False, resync_offset = 0, headersize = 0, datasize = 0,
     headerbuffer = replicate 42 0, databuffer = None, databuffersize = 0, storageheader = None,
     standardheader = None, headerextra = \<lparr>ecu = [0, 0, 0, 0], seid = 0, tmsp = 0\<rparr>, extendedheader = None\<rparr>"

definition text_bytes :: "string \<Rightarrow> byte list" where
  "text_bytes s = map of_char s @ [0]"

text \<open>
  The message that \<open>dlt_daemon_client_send_control_message\<close> builds before it sends it; None when it
  is too long for the length field. \<open>msg\<close> holds the payload.
\<close>

definition control_message :: "outside \<Rightarrow> world \<Rightarrow> DltMessage \<Rightarrow> byte list \<Rightarrow> byte list \<Rightarrow> DltMessage option" where
  "control_message env w msg apid ctid =
     (let sto = the (snd (dlt_set_storageheader (now env (ticks w)) (Some zero_storage) (Some (ecuid (daemon w)))));
          m1 = msg\<lparr>headerbuffer := memput (headerbuffer msg) 0 (storage_bytes sto), storageheader := Some 0, standardheader := Some 16\<rparr>;
          m2 = m1\<lparr>headerbuffer := memput (headerbuffer m1) 16 [0x35, 0],
                headerextra := (headerextra m1)\<lparr>ecu := the (dlt_set_id (Some (ecu (headerextra m1))) (Some (ecuid (daemon w)))),
                                tmsp := uptime env (ticks w)\<rparr>\<rparr>;
          m3 = the (snd (dlt_message_set_extraparameters (Some m2)));
          ext = 20 + DLT_STANDARD_HEADER_EXTRA_SIZE 0x35;
          a = the (dlt_set_id (Some [0, 0, 0, 0]) (Some (if apid ! 0 = 0 then text_bytes ''DA1'' else apid)));
          c = the (dlt_set_id (Some [0, 0, 0, 0]) (Some (if ctid ! 0 = 0 then text_bytes ''DC1'' else ctid)));
          m4 = m3\<lparr>headerbuffer := memput (headerbuffer m3) ext ([0x26, 1] @ a @ c), extendedheader := Some ext,
                 headersize := int (16 + 4 + 10 + DLT_STANDARD_HEADER_EXTRA_SIZE 0x35)\<rparr>;
          len = headersize m4 - 16 + datasize m4
      in if len > 65535 then None
         else Some (m4\<lparr>headerbuffer := memput (headerbuffer m4) 18 (be_bytes 2 len)\<rparr>))"

definition payload_msg :: "byte list \<Rightarrow> DltMessage" where
  "payload_msg p = zero_msg\<lparr>datasize := int (length p), databuffer := Some p, databuffersize := int (length p)\<rparr>"

definition connection_info_payload :: "byte \<Rightarrow> byte list \<Rightarrow> byte list" where
  "connection_info_payload st comid = le_bytes 4 0xF02 @ [0, st] @ the (dlt_set_id (Some [0, 0, 0, 0]) (Some comid))"

definition overflow_payload :: "nat \<Rightarrow> byte list" where
  "overflow_payload n = le_bytes 4 0x14 @ [0, 1] @ le_bytes 4 (int n)"

definition message_parts :: "DltMessage \<Rightarrow> byte list option \<times> byte list option" where
  "message_parts m = (Some (memget (headerbuffer m) 16 (nat (headersize m - 16))),
     map_option (take (nat (datasize m))) (databuffer m))"

text \<open>The message of \<open>dlt_daemon_log_internal\<close>: headers with all optional parameters, one string.\<close>

definition internal_message :: "outside \<Rightarrow> world \<Rightarrow> byte list \<Rightarrow> byte list option \<times> byte list option" where
  "internal_message env w str =
     (let p = le_bytes 4 0x200 @ le_bytes 2 (int (length str)) @ str
      in (Some ([0x3D, word_of_nat (uiMsgCount w)] @ be_bytes 2 (4 + 22 + int (length p)) @
                 the (dlt_set_id (Some [0, 0, 0, 0]) (Some (ecuid (daemon w)))) @ be_bytes 4 (pid env) @ be_bytes 4 (uptime env (ticks w)) @
                 [0x41, 1] @ the (dlt_set_id (Some [0, 0, 0, 0]) (Some (text_bytes ''DLTD''))) @
                 the (dlt_set_id (Some [0, 0, 0, 0]) (Some (text_bytes ''INTM'')))), Some p))"

text \<open>\<open>%d\<close> of \<open>snprintf\<close>.\<close>

fun dec_nat :: "nat \<Rightarrow> byte list" where
  "dec_nat n = (if n < 10 then [of_nat (48 + n)] else dec_nat (n div 10) @ [of_nat (48 + n mod 10)])"

declare dec_nat.simps [simp del]

definition dec_int :: "int \<Rightarrow> byte list" where
  "dec_int i = (if i < 0 then 0x2D # dec_nat (nat (- i)) else dec_nat (nat i))"

definition closed_text :: "int \<Rightarrow> int \<Rightarrow> byte list" where
  "closed_text sock n = map of_char ''Client connection #'' @ dec_int sock @ map of_char '' closed. Total Clients : '' @ dec_int n @ [0]"

section \<open>Sending to all clients\<close>

text \<open>The writers that get every message that is not sent by force or from the buffer.\<close>

definition offline_writes :: "outside \<Rightarrow> world \<Rightarrow> int \<Rightarrow> byte list option \<Rightarrow> byte list option \<Rightarrow> world" where
  "offline_writes env w sock data1 data2 =
     (if sock \<noteq> DLT_DAEMON_SEND_FORCE \<and> dstate (daemon w) \<noteq> DLT_DAEMON_STATE_SEND_BUFFER then
        let bytes = arg_bytes data1 @ arg_bytes data2
        in w\<lparr>out := out w
             @ (if (dmode (daemon w) = DLT_USER_MODE_INTERNAL \<or> dmode (daemon w) = DLT_USER_MODE_BOTH) \<and> offlineTraceDirectory env
                then [OfflineTrace bytes] else [])
             @ (if offlineLogstorage env then [LogStorage bytes] else [])\<rparr>
      else w)"

text \<open>The part of \<open>dlt_daemon_client_send\<close> that stores a message in the ring buffer or counts it as lost.\<close>

definition store_message :: "outside \<Rightarrow> world \<Rightarrow> byte list option \<Rightarrow> byte list option \<Rightarrow> int \<times> world" where
  "store_message env w data1 data2 =
     (let d = daemon w;
          d1 = (if dstate d \<noteq> DLT_DAEMON_STATE_BUFFER_FULL then
                  (case dlt_buffer_push3 (balloc env) (bpad env (client_ringbuffer d)) (Some (client_ringbuffer d))
                          data1 (length (arg_bytes data1)) data2 (length (arg_bytes data2)) None 0 of
                     (ret, b) \<Rightarrow>
                       let d' = d\<lparr>client_ringbuffer := the b\<rparr>
                       in if ret < DLT_RETURN_OK then dlt_daemon_change_state d' DLT_DAEMON_STATE_BUFFER_FULL else d')
                else d)
      in if dstate d1 = DLT_DAEMON_STATE_BUFFER_FULL
         then (DLT_DAEMON_ERROR_BUFFER_FULL, w\<lparr>daemon := d1\<lparr>overflow_counter := u32 (int (overflow_counter d1) + 1)\<rparr>\<rparr>)
         else (DLT_DAEMON_ERROR_OK, w\<lparr>daemon := d1\<rparr>))"

text \<open>
  The functions below call \<open>dlt_daemon_client_send\<close> and are called by it. They take it as the
  parameter \<open>send\<close>; the recursion is closed at the end, with fuel.
\<close>

type_synonym sender = "world \<Rightarrow> int \<Rightarrow> byte list option \<Rightarrow> byte list option \<Rightarrow> (int \<times> world) option"

definition dlt_daemon_client_send_control_message ::
  "sender \<Rightarrow> outside \<Rightarrow> world \<Rightarrow> int \<Rightarrow> DltMessage \<Rightarrow> byte list \<Rightarrow> byte list \<Rightarrow> (int \<times> world) option" where
  "dlt_daemon_client_send_control_message send env w sock msg apid ctid =
     (case control_message env w msg apid ctid of
        None \<Rightarrow> Some (DLT_DAEMON_ERROR_UNKNOWN, w)
      | Some m \<Rightarrow> (case message_parts m of (d1, d2) \<Rightarrow> send w sock d1 d2))"

definition dlt_daemon_control_message_connection_info ::
  "sender \<Rightarrow> outside \<Rightarrow> world \<Rightarrow> int \<Rightarrow> byte \<Rightarrow> byte list \<Rightarrow> (int \<times> world) option" where
  "dlt_daemon_control_message_connection_info send env w sock st comid =
     (if \<not> msg_alloc env then Some (- 1, w)
      else map_option (\<lambda>(rc, w'). (if rc \<noteq> 0 then - 1 else 0, w'))
             (dlt_daemon_client_send_control_message send env w sock (payload_msg (connection_info_payload st comid)) [0] [0]))"

definition dlt_daemon_control_message_buffer_overflow ::
  "sender \<Rightarrow> outside \<Rightarrow> world \<Rightarrow> int \<Rightarrow> nat \<Rightarrow> byte list \<Rightarrow> (int \<times> world) option" where
  "dlt_daemon_control_message_buffer_overflow send env w sock n apid =
     (if \<not> msg_alloc env then Some (DLT_DAEMON_ERROR_UNKNOWN, w)
      else dlt_daemon_client_send_control_message send env w sock (payload_msg (overflow_payload n)) apid [0])"

definition dlt_daemon_send_message_overflow :: "sender \<Rightarrow> outside \<Rightarrow> world \<Rightarrow> (int \<times> world) option" where
  "dlt_daemon_send_message_overflow send env w =
     dlt_daemon_control_message_buffer_overflow send env w DLT_DAEMON_SEND_TO_ALL (overflow_counter (daemon w)) [0]"

definition dlt_daemon_log_internal :: "sender \<Rightarrow> outside \<Rightarrow> world \<Rightarrow> byte list \<Rightarrow> (int \<times> world) option" where
  "dlt_daemon_log_internal send env w str =
     (let w1 = w\<lparr>uiMsgCount := uiMsgCount w + 1\<rparr>
      in if \<not> msg_alloc env then Some (- 1, w1)
         else case internal_message env w str of
                (d1, d2) \<Rightarrow> map_option (\<lambda>(_, w'). (0, w')) (send w1 DLT_DAEMON_SEND_TO_ALL d1 d2))"

definition dlt_daemon_close_socket :: "sender \<Rightarrow> outside \<Rightarrow> world \<Rightarrow> int \<Rightarrow> (int \<times> world) option" where
  "dlt_daemon_close_socket send env w sock =
     (case dlt_event_handler_unregister_connection (wlocal w) sock of
        (_, dl, closed) \<Rightarrow>
          let w1 = w\<lparr>wlocal := dl, out := out w @ map Closed closed\<rparr>;
              d1 = (daemon w1)\<lparr>connectionState := 0\<rparr>;
              w2 = (if client_connections dl = 0
                    then w1\<lparr>daemon := (if yvalue env then d1 else dlt_daemon_change_state d1 DLT_DAEMON_STATE_BUFFER),
                           out := out w1 @ [LogStateToApplications 0]\<rparr>
                    else w1)
          in case dlt_daemon_control_message_connection_info send env w2 DLT_DAEMON_SEND_TO_ALL 1 [0] of
               None \<Rightarrow> None
             | Some (_, w3) \<Rightarrow>
               map_option (\<lambda>(_, w'). (0, w'))
                 (dlt_daemon_log_internal send env w3 (closed_text sock (client_connections (wlocal w3)))))"

text \<open>
  The loop over the poll table. Closing a socket removes its entry from the table while the loop
  runs. The table never grows in the loop, so its size at the start bounds the iterations.
\<close>

primrec send_all_loop ::
  "sender \<Rightarrow> outside \<Rightarrow> nat \<Rightarrow> world \<Rightarrow> nat \<Rightarrow> byte list option \<Rightarrow> byte list option \<Rightarrow> bool \<Rightarrow> (bool \<times> world) option" where
  "send_all_loop send env 0 w i data1 data2 sent = (if i < nfds (pEvent (wlocal w)) then None else Some (sent, w))"
| "send_all_loop send env (Suc n) w i data1 data2 sent =
     (let ev = pEvent (wlocal w)
      in if i < nfds ev then
           (case dlt_event_handler_find_connection ev (p_fd (pfd ev ! i)) of
              None \<Rightarrow> send_all_loop send env n w (i + 1) data1 data2 sent
            | Some c \<Rightarrow>
              if receiver c = None \<or> \<not> is_client (ctype c) then send_all_loop send env n w (i + 1) data1 data2 sent
              else
                (case dlt_connection_send_multiple env w (Some c) data1 data2 (sendserialheader (daemon w)) of
                   (ret, w1) \<Rightarrow>
                     (case (if ret \<noteq> DLT_DAEMON_ERROR_OK \<and> ctype c = DLT_CONNECTION_CLIENT_MSG_TCP
                            then dlt_daemon_close_socket send env w1 (fd (the (receiver c))) else Some (0, w1)) of
                        None \<Rightarrow> None
                      | Some (_, w2) \<Rightarrow>
                        send_all_loop send env n w2 (i + 1) data1 data2 (if ret \<noteq> DLT_DAEMON_ERROR_OK then sent else True))))
         else Some (sent, w))"

definition dlt_daemon_client_send_all_multiple ::
  "sender \<Rightarrow> outside \<Rightarrow> world \<Rightarrow> byte list option \<Rightarrow> byte list option \<Rightarrow> (bool \<times> world) option" where
  "dlt_daemon_client_send_all_multiple send env w data1 data2 =
     send_all_loop send env (nfds (pEvent (wlocal w))) w 0 data1 data2 False"

definition client_send_step :: "sender \<Rightarrow> outside \<Rightarrow> sender" where
  "client_send_step send env w sock data1 data2 =
     (if sock \<noteq> DLT_DAEMON_SEND_TO_ALL \<and> sock \<noteq> DLT_DAEMON_SEND_FORCE then
        Some (if isatty env sock
              then dlt_daemon_serial_send env w sock data1 data2 (sendserialheader (daemon w))
              else dlt_daemon_socket_send env w sock data1 data2 (sendserialheader (daemon w)))
      else
        let w1 = offline_writes env w sock data1 data2;
            external = (dmode (daemon w1) = DLT_USER_MODE_EXTERNAL \<or> dmode (daemon w1) = DLT_USER_MODE_BOTH);
            direct = (sock = DLT_DAEMON_SEND_FORCE \<or> dstate (daemon w1) = DLT_DAEMON_STATE_SEND_DIRECT)
        in case (if external \<and> direct then dlt_daemon_client_send_all_multiple send env w1 data1 data2 else Some (True, w1)) of
             None \<Rightarrow> None
           | Some (sent, w2) \<Rightarrow>
             if sock = DLT_DAEMON_SEND_FORCE \<and> \<not> sent then Some (DLT_DAEMON_ERROR_SEND_FAILED, w2)
             else if sock \<noteq> DLT_DAEMON_SEND_FORCE \<and>
                     (dstate (daemon w2) = DLT_DAEMON_STATE_BUFFER \<or> dstate (daemon w2) = DLT_DAEMON_STATE_SEND_BUFFER \<or>
                      dstate (daemon w2) = DLT_DAEMON_STATE_BUFFER_FULL) then
               Some (store_message env w2 data1 data2)
             else if overflow_counter (daemon w2) > 0 \<and> client_connections (wlocal w2) > 0 then
               (case dlt_daemon_send_message_overflow send env w2 of
                  None \<Rightarrow> None
                | Some (rc, w3) \<Rightarrow>
                  Some (DLT_DAEMON_ERROR_OK,
                        if rc = DLT_DAEMON_ERROR_OK then w3\<lparr>daemon := (daemon w3)\<lparr>overflow_counter := 0\<rparr>\<rparr> else w3))
             else Some (DLT_DAEMON_ERROR_OK, w2))"

primrec dlt_daemon_client_send :: "nat \<Rightarrow> outside \<Rightarrow> sender" where
  "dlt_daemon_client_send 0 env = (\<lambda>w sock data1 data2. None)"
| "dlt_daemon_client_send (Suc n) env = client_send_step (dlt_daemon_client_send n env) env"

text \<open>\<open>dlt_daemon_send_ringbuffer_to_client\<close>; \<open>dta\<close> is its static buffer of 10024 bytes.\<close>

fun ringbuffer_loop :: "nat \<Rightarrow> outside \<Rightarrow> world \<Rightarrow> byte list \<Rightarrow> (int \<times> world \<times> byte list) option" where
  "ringbuffer_loop 0 env w dta = None"
| "ringbuffer_loop (Suc n) env w dta =
     (case dlt_buffer_copy (balloc env) (Some (client_ringbuffer (daemon w))) (Some dta) 10024 of
        (len, b, dta') \<Rightarrow>
          let w0 = w\<lparr>daemon := (daemon w)\<lparr>client_ringbuffer := the b\<rparr>\<rparr>
          in if len > 0 then
               (case dlt_daemon_client_send n env w0 DLT_DAEMON_SEND_FORCE (Some (take (nat len) (the dta'))) None of
                  None \<Rightarrow> None
                | Some (ret, w1) \<Rightarrow>
                  if ret \<noteq> 0 then Some (ret, w1, the dta')
                  else
                    let b1 = the (snd (dlt_buffer_remove (balloc env) (Some (client_ringbuffer (daemon w1)))));
                        d1 = (daemon w1)\<lparr>client_ringbuffer := b1\<rparr>;
                        d2 = (if dstate d1 \<noteq> DLT_DAEMON_STATE_SEND_BUFFER
                              then dlt_daemon_change_state d1 DLT_DAEMON_STATE_SEND_BUFFER else d1)
                    in if dlt_buffer_get_message_count (Some b1) \<le> 0
                       then Some (DLT_DAEMON_ERROR_OK, w1\<lparr>daemon := dlt_daemon_change_state d2 DLT_DAEMON_STATE_SEND_DIRECT\<rparr>, the dta')
                       else ringbuffer_loop n env (w1\<lparr>daemon := d2\<rparr>) (the dta'))
             else Some (DLT_DAEMON_ERROR_OK, w0, the dta'))"

declare ringbuffer_loop.simps [simp del]

definition dlt_daemon_send_ringbuffer_to_client :: "nat \<Rightarrow> outside \<Rightarrow> world \<Rightarrow> byte list \<Rightarrow> (int \<times> world \<times> byte list) option" where
  "dlt_daemon_send_ringbuffer_to_client n env w dta =
     (if dlt_buffer_get_message_count (Some (client_ringbuffer (daemon w))) \<le> 0
      then Some (DLT_DAEMON_ERROR_OK, w\<lparr>daemon := dlt_daemon_change_state (daemon w) DLT_DAEMON_STATE_SEND_DIRECT\<rparr>, dta)
      else ringbuffer_loop n env w dta)"

section \<open>Lemmas on broadcasts\<close>

definition all_ok :: "outside \<Rightarrow> int list \<Rightarrow> bool" where
  "all_ok env fs \<longleftrightarrow> (\<forall>f \<in> set fs. \<forall>k. net env k f \<and> cut env k f = None)"

definition opt_list :: "'a option \<Rightarrow> 'a list" where
  "opt_list x = (case x of None \<Rightarrow> [] | Some y \<Rightarrow> [y])"

text \<open>The writes that one message takes on one connection.\<close>

definition wire :: "bool \<Rightarrow> byte list option \<Rightarrow> byte list option \<Rightarrow> byte list list" where
  "wire serial d1 d2 = (if serial then [dltSerialHeader] else []) @ opt_list d1 @ opt_list d2"

definition is_client_fd :: "DltEventHandler \<Rightarrow> int \<Rightarrow> bool" where
  "is_client_fd ev f = (case find_con (connections ev) f of None \<Rightarrow> False | Some c \<Rightarrow> is_client (ctype c))"

definition client_fds :: "DltEventHandler \<Rightarrow> int list" where
  "client_fds ev = filter (is_client_fd ev) (polled ev)"

definition sent_to :: "bool \<Rightarrow> byte list option \<Rightarrow> byte list option \<Rightarrow> int list \<Rightarrow> event list" where
  "sent_to serial d1 d2 fs = concat (map (\<lambda>f. map (ToClient f) (wire serial d1 d2)) fs)"

definition after_writes :: "world \<Rightarrow> event list \<Rightarrow> world" where
  "after_writes w es = w\<lparr>ticks := ticks w + length es, out := out w @ es\<rparr>"

lemma after_writes_simps [simp]:
  "daemon (after_writes w es) = daemon w" "wlocal (after_writes w es) = wlocal w" "out (after_writes w es) = out w @ es"
  "uiMsgCount (after_writes w es) = uiMsgCount w" "after_writes (after_writes w es) es' = after_writes w (es @ es')"
  "after_writes w [] = w"
  by (simp_all add: after_writes_def)

lemma connection_send_ok:
  assumes "all_ok env [fd r]" "receiver c = Some r" "is_client (ctype c)"
  shows "\<exists>rc. dlt_connection_send env w c m = (rc, after_writes w [ToClient (fd r) m]) \<and>
    (m \<noteq> [] \<or> ctype c = DLT_CONNECTION_CLIENT_MSG_TCP \<longrightarrow> rc = 0)"
  using assms by (auto simp: dlt_connection_send_def write_fd_def write_once_def all_ok_def is_client_def after_writes_def Let_def)

text \<open>An empty part on a serial line counts as a failure, so what comes behind it is not sent.\<close>

lemma send_multiple_ok:
  assumes "all_ok env [fd r]" "receiver c = Some r" "is_client (ctype c)" "d1 \<noteq> Some []"
  shows "\<exists>rc. dlt_connection_send_multiple env w (Some c) d1 d2 serial = (rc, after_writes w (map (ToClient (fd r)) (wire serial d1 d2))) \<and>
    (d2 \<noteq> Some [] \<or> ctype c = DLT_CONNECTION_CLIENT_MSG_TCP \<longrightarrow> rc = 0)"
proof -
  have n: "dlt_connection_send env w c m = (0, after_writes w [ToClient (fd r) m])" if "m \<noteq> []" for w m
    using connection_send_ok [OF assms(1-3), of w m] that by auto
  have h: "dltSerialHeader \<noteq> []" by (simp add: dltSerialHeader_def)
  define s where "s = (if serial then dlt_connection_send env w c dltSerialHeader else (0, w))"
  have s: "s = (0, after_writes w (map (ToClient (fd r)) (if serial then [dltSerialHeader] else [])))" by (simp add: s_def n [OF h])
  define t where "t = send_part env c d1 s"
  have t: "t = (0, after_writes w (map (ToClient (fd r)) ((if serial then [dltSerialHeader] else []) @ opt_list d1)))"
    using assms(4) by (cases d1) (simp_all add: t_def send_part_def s n opt_list_def)
  have "dlt_connection_send_multiple env w (Some c) d1 d2 serial = send_part env c d2 t"
    by (simp add: dlt_connection_send_multiple_def s_def t_def)
  then show ?thesis
    using connection_send_ok [OF assms(1-3), of "after_writes w (map (ToClient (fd r)) ((if serial then [dltSerialHeader] else []) @ opt_list d1))"]
    by (cases d2) (fastforce simp: send_part_def t wire_def opt_list_def)+
qed

text \<open>Whatever happens to the writes, the daemon and its connections stay; with successful writes TCP does not fail.\<close>

lemma connection_send_keeps:
  "daemon (snd (dlt_connection_send env w c m)) = daemon w \<and> wlocal (snd (dlt_connection_send env w c m)) = wlocal w"
  by (simp add: dlt_connection_send_def write_fd_def write_once_def Let_def split: option.split DltConnectionType.split)

lemma send_multiple_keeps:
  "daemon (snd (dlt_connection_send_multiple env w c d1 d2 serial)) = daemon w \<and>
   wlocal (snd (dlt_connection_send_multiple env w c d1 d2 serial)) = wlocal w"
  by (cases c; cases d1; cases d2) (auto simp: dlt_connection_send_multiple_def send_part_def connection_send_keeps)

lemma send_multiple_tcp:
  assumes "all_ok env [fd r]" "receiver c = Some r" "ctype c = DLT_CONNECTION_CLIENT_MSG_TCP"
  shows "fst (dlt_connection_send_multiple env w (Some c) d1 d2 serial) = 0"
proof -
  have n: "fst (dlt_connection_send env w c m) = 0" for w m
    using connection_send_ok [OF assms(1,2), of w m] assms(3) by (auto simp: is_client_def)
  show ?thesis by (cases d1; cases d2) (auto simp: dlt_connection_send_multiple_def send_part_def n)
qed

lemma send_all_loop_keeps:
  assumes "table_ok (pEvent (wlocal w))" "nfds (pEvent (wlocal w)) \<le> i + k"
    and "all_ok env (filter (is_client_fd (pEvent (wlocal w))) (drop i (polled (pEvent (wlocal w)))))"
  shows "\<exists>sent' w'. send_all_loop send env k w i d1 d2 sent = Some (sent', w') \<and> daemon w' = daemon w \<and> wlocal w' = wlocal w"
  using assms
proof (induction k arbitrary: w i sent)
  case (Suc k)
  let ?ev = "pEvent (wlocal w)" and ?f = "p_fd (pfd (pEvent (wlocal w)) ! i)"
  show ?case
  proof (cases "i < nfds ?ev")
    case True
    have "i < length (polled ?ev)" "polled ?ev ! i = ?f"
      using True Suc.prems(1) by (simp_all add: polled_def table_ok_def)
    then have d: "drop i (polled ?ev) = ?f # drop (i + 1) (polled ?ev)" by (metis Cons_nth_drop_Suc Suc_eq_plus1)
    have IH: "\<exists>sent' w'. send_all_loop send env k w1 (i + 1) d1 d2 st = Some (sent', w') \<and> daemon w' = daemon w \<and> wlocal w' = wlocal w"
      if "daemon w1 = daemon w" "wlocal w1 = wlocal w" for w1 st
      using Suc.IH [of w1 "i + 1" st] Suc.prems that d by (auto simp: all_ok_def split: if_splits)
    show ?thesis
    proof (cases "find_con (connections ?ev) ?f")
      case None
      with True IH [of w sent] show ?thesis by (simp add: dlt_event_handler_find_connection_def Let_def)
    next
      case (Some c)
      obtain r where r: "receiver c = Some r" "fd r = ?f" using find_con_Some [OF Some] by blast
      obtain rc w1 where m: "dlt_connection_send_multiple env w (Some c) d1 d2 (sendserialheader (daemon w)) = (rc, w1)" by fastforce
      have w1: "daemon w1 = daemon w" "wlocal w1 = wlocal w"
        using send_multiple_keeps [of env w "Some c" d1 d2 "sendserialheader (daemon w)"] by (simp_all add: m)
      have "rc = 0" if "ctype c = DLT_CONNECTION_CLIENT_MSG_TCP"
      proof -
        have "is_client_fd ?ev ?f" using that Some by (simp add: is_client_fd_def is_client_def)
        then have "all_ok env [fd r]" using Suc.prems(3) d r(2) by (simp add: all_ok_def)
        from send_multiple_tcp [OF this r(1) that, of w d1 d2 "sendserialheader (daemon w)"] show ?thesis by (simp add: m)
      qed
      then show ?thesis
        using True IH [of w sent] IH [OF w1, of sent] IH [OF w1, of True]
        by (auto simp: dlt_event_handler_find_connection_def Some m Let_def)
    qed
  qed auto
qed auto

lemma send_all_loop_ok:
  assumes "table_ok (pEvent (wlocal w))" "nfds (pEvent (wlocal w)) \<le> i + k" "all_ok env fs"
    and fs: "fs = filter (is_client_fd (pEvent (wlocal w))) (drop i (polled (pEvent (wlocal w))))" and d1: "d1 \<noteq> Some []"
  shows "\<exists>sent'. send_all_loop send env k w i d1 d2 sent = Some (sent', after_writes w (sent_to (sendserialheader (daemon w)) d1 d2 fs)) \<and>
    (d2 \<noteq> Some [] \<longrightarrow> sent' = (sent \<or> fs \<noteq> []))"
  using assms(1-4)
proof (induction k arbitrary: w i sent fs)
  case 0
  then show ?case by (simp add: polled_def sent_to_def)
next
  case (Suc k)
  let ?ev = "pEvent (wlocal w)" and ?f = "p_fd (pfd (pEvent (wlocal w)) ! i)"
  show ?case
  proof (cases "i < nfds ?ev")
    case False
    with Suc.prems show ?thesis by (simp add: polled_def sent_to_def)
  next
    case True
    let ?fs = "filter (is_client_fd ?ev) (drop (i + 1) (polled ?ev))"
    have "i < length (polled ?ev)" "polled ?ev ! i = ?f"
      using True Suc.prems(1) by (simp_all add: polled_def table_ok_def)
    then have "drop i (polled ?ev) = ?f # drop (i + 1) (polled ?ev)" by (metis Cons_nth_drop_Suc Suc_eq_plus1)
    then have fs: "fs = (if is_client_fd ?ev ?f then ?f # ?fs else ?fs)" using Suc.prems(4) by simp
    then have ok: "all_ok env ?fs" using Suc.prems(3) by (auto simp: all_ok_def split: if_splits)
    have IH: "\<exists>sent'. send_all_loop send env k (after_writes w es) (i + 1) d1 d2 st =
        Some (sent', after_writes w (es @ sent_to (sendserialheader (daemon w)) d1 d2 ?fs)) \<and> (d2 \<noteq> Some [] \<longrightarrow> sent' = (st \<or> ?fs \<noteq> []))" for es st
      using Suc.IH [of "after_writes w es" "i + 1" ?fs st] Suc.prems(1,2) ok by simp
    show ?thesis
    proof (cases "is_client_fd ?ev ?f")
      case False
      have "find_con (connections ?ev) ?f = None \<or> (\<exists>c. find_con (connections ?ev) ?f = Some c \<and> \<not> is_client (ctype c))"
        using False by (auto simp: is_client_fd_def split: option.splits)
      with True False IH [of "[]" sent] fs show ?thesis
        by (auto simp: dlt_event_handler_find_connection_def Let_def)
    next
      case 1: True
      then obtain c where c: "find_con (connections ?ev) ?f = Some c" "is_client (ctype c)"
        by (auto simp: is_client_fd_def split: option.splits)
      from find_con_Some [OF c(1)] obtain r where r: "receiver c = Some r" "fd r = ?f" by blast
      then have okf: "all_ok env [fd r]" using Suc.prems(3) fs 1 by (simp add: all_ok_def)
      let ?es = "map (ToClient ?f) (wire (sendserialheader (daemon w)) d1 d2)"
      obtain rc where m: "dlt_connection_send_multiple env w (Some c) d1 d2 (sendserialheader (daemon w)) = (rc, after_writes w ?es)"
        "d2 \<noteq> Some [] \<or> ctype c = DLT_CONNECTION_CLIENT_MSG_TCP \<longrightarrow> rc = 0"
        using send_multiple_ok [OF okf r(1) c(2) d1, of w d2 "sendserialheader (daemon w)"] r(2) by auto
      have "send_all_loop send env (Suc k) w i d1 d2 sent = send_all_loop send env k (after_writes w ?es) (i + 1) d1 d2 (if rc \<noteq> 0 then sent else True)"
        using True c m(2) r by (auto simp: dlt_event_handler_find_connection_def m(1) Let_def)
      then show ?thesis
        using 1 IH [of ?es "if rc \<noteq> 0 then sent else True"] fs m(2) by (auto simp: sent_to_def)
    qed
  qed
qed

lemma send_all_ok:
  assumes "table_ok (pEvent (wlocal w))" "all_ok env (client_fds (pEvent (wlocal w)))" "d1 \<noteq> Some []"
  shows "\<exists>sent. dlt_daemon_client_send_all_multiple send env w d1 d2 =
      Some (sent, after_writes w (sent_to (sendserialheader (daemon w)) d1 d2 (client_fds (pEvent (wlocal w))))) \<and>
    (d2 \<noteq> Some [] \<longrightarrow> sent = (client_fds (pEvent (wlocal w)) \<noteq> []))"
  using send_all_loop_ok [OF assms(1) _ assms(2) _ assms(3), of 0 "nfds (pEvent (wlocal w))" send d2 False]
  by (simp add: dlt_daemon_client_send_all_multiple_def client_fds_def)

lemma send_all_keeps:
  assumes "table_ok (pEvent (wlocal w))" "all_ok env (client_fds (pEvent (wlocal w)))"
  shows "\<exists>sent w'. dlt_daemon_client_send_all_multiple send env w d1 d2 = Some (sent, w') \<and> daemon w' = daemon w \<and> wlocal w' = wlocal w"
  using send_all_loop_keeps [OF assms(1), of 0 "nfds (pEvent (wlocal w))" env send d1 d2 False] assms(2)
  by (simp add: dlt_daemon_client_send_all_multiple_def client_fds_def)

definition external :: "world \<Rightarrow> bool" where
  "external w \<longleftrightarrow> dmode (daemon w) = DLT_USER_MODE_EXTERNAL \<or> dmode (daemon w) = DLT_USER_MODE_BOTH"

definition offline_events :: "outside \<Rightarrow> world \<Rightarrow> byte list option \<Rightarrow> byte list option \<Rightarrow> event list" where
  "offline_events env w d1 d2 =
     (if (dmode (daemon w) = DLT_USER_MODE_INTERNAL \<or> dmode (daemon w) = DLT_USER_MODE_BOTH) \<and> offlineTraceDirectory env
      then [OfflineTrace (arg_bytes d1 @ arg_bytes d2)] else []) @
     (if offlineLogstorage env then [LogStorage (arg_bytes d1 @ arg_bytes d2)] else [])"

text \<open>A message in the state \<open>SEND_DIRECT\<close>, and one sent by force from the buffer.\<close>

lemma step_direct:
  assumes "all_ok env (client_fds (pEvent (wlocal w)))" "table_ok (pEvent (wlocal w))" "external w" "dstate (daemon w) = DLT_DAEMON_STATE_SEND_DIRECT"
    and d1: "d1 \<noteq> Some []" and w2: "w2 = after_writes (w\<lparr>out := out w @ offline_events env w d1 d2\<rparr>)
       (sent_to (sendserialheader (daemon w)) d1 d2 (client_fds (pEvent (wlocal w))))"
  shows "client_send_step send env w DLT_DAEMON_SEND_TO_ALL d1 d2 =
    (if overflow_counter (daemon w) > 0 \<and> client_connections (wlocal w) > 0 then
       (case dlt_daemon_send_message_overflow send env w2 of
          None \<Rightarrow> None
        | Some (rc, w3) \<Rightarrow> Some (0, if rc = 0 then w3\<lparr>daemon := (daemon w3)\<lparr>overflow_counter := 0\<rparr>\<rparr> else w3))
     else Some (0, w2))"
proof -
  let ?w1 = "w\<lparr>out := out w @ offline_events env w d1 d2\<rparr>"
  have off: "offline_writes env w DLT_DAEMON_SEND_TO_ALL d1 d2 = ?w1"
    using assms(4) by (simp add: offline_writes_def offline_events_def Let_def)
  obtain sent where "dlt_daemon_client_send_all_multiple send env ?w1 d1 d2 = Some (sent, w2)"
    using send_all_ok [of ?w1 env d1 send d2] assms(1,2) d1 by (auto simp: w2)
  moreover have "daemon w2 = daemon w" "wlocal w2 = wlocal w" by (simp_all add: w2)
  ultimately show ?thesis
    using assms(3,4) by (simp add: client_send_step_def off external_def split: option.splits)
qed

lemma step_force:
  assumes "all_ok env (client_fds (pEvent (wlocal w)))" "table_ok (pEvent (wlocal w))" "external w" "overflow_counter (daemon w) = 0"
    and "client_fds (pEvent (wlocal w)) \<noteq> []" "d1 \<noteq> Some []" "d2 \<noteq> Some []"
  shows "client_send_step send env w DLT_DAEMON_SEND_FORCE d1 d2 =
    Some (0, after_writes w (sent_to (sendserialheader (daemon w)) d1 d2 (client_fds (pEvent (wlocal w)))))"
  using assms(3-5,7) send_all_ok [OF assms(2,1,6), of send d2]
  by (auto simp: client_send_step_def offline_writes_def external_def)

section \<open>Sending the ring buffer\<close>

lemma message_count_rep: "buffer_rep b ms \<Longrightarrow> dlt_buffer_get_message_count (Some b) = int (length ms)"
  by (auto simp: buffer_rep_def dlt_buffer_get_message_count_def)

lemma change_state_simps [simp]:
  "dstate (dlt_daemon_change_state d s) = s" "client_ringbuffer (dlt_daemon_change_state d s) = client_ringbuffer d"
  "overflow_counter (dlt_daemon_change_state d s) = overflow_counter d" "dmode (dlt_daemon_change_state d s) = dmode d"
  "sendserialheader (dlt_daemon_change_state d s) = sendserialheader d"
  by (cases s; simp add: dlt_daemon_change_state_def)+

lemma ringbuffer_loop_ok:
  assumes "all_ok env (client_fds (pEvent (wlocal w)))" "table_ok (pEvent (wlocal w))" "external w"
    and "overflow_counter (daemon w) = 0" "client_fds (pEvent (wlocal w)) \<noteq> []" "alloc_ok (balloc env)"
    and "buffer_rep (client_ringbuffer (daemon w)) ms" "ms \<noteq> []" "\<forall>m \<in> set ms. m \<noteq> [] \<and> length m \<le> length dta"
    and "length ms < n"
  shows "\<exists>w' dta'. ringbuffer_loop n env w dta = Some (0, w', dta') \<and>
    out w' = out w @ concat (map (\<lambda>m. sent_to (sendserialheader (daemon w)) (Some m) None (client_fds (pEvent (wlocal w)))) ms) \<and>
    dstate (daemon w') = DLT_DAEMON_STATE_SEND_DIRECT \<and> buffer_rep (client_ringbuffer (daemon w')) [] \<and>
    wlocal w' = wlocal w \<and> length dta' = length dta"
  using assms
proof (induction ms arbitrary: n w dta)
  case (Cons m ms)
  from Cons.prems(10) obtain k where n: "n = Suc (Suc k)" and k: "length ms < Suc k"
    by (cases n; cases "n - 1") auto
  let ?fs = "client_fds (pEvent (wlocal w))" and ?d = "daemon w"
  let ?es = "sent_to (sendserialheader ?d) (Some m) None ?fs"
  obtain b where copy: "dlt_buffer_copy (balloc env) (Some (client_ringbuffer ?d)) (Some dta) 10024 = (int (length m), Some b, Some (memput dta 0 m))"
    and b: "buffer_rep b (m # ms)"
    using get_rep [OF Cons.prems(7,6), of "Some dta" 10024 False] by (auto simp: dlt_buffer_copy_def)
  let ?w0 = "w\<lparr>daemon := ?d\<lparr>client_ringbuffer := b\<rparr>\<rparr>"
  have len: "length (memput dta 0 m) = length dta" "take (length m) (memput dta 0 m) = m" "0 < length m"
    using Cons.prems(9) by (auto simp: memput_def)
  have send: "dlt_daemon_client_send (Suc k) env ?w0 DLT_DAEMON_SEND_FORCE (Some m) None = Some (0, after_writes ?w0 ?es)"
    using step_force [of env ?w0 "Some m" None] Cons.prems(1-5) len(3) by (simp add: external_def)
  obtain b1 where rem: "snd (dlt_buffer_remove (balloc env) (Some b)) = Some b1" and b1: "buffer_rep b1 ms"
    using get_rep [OF b Cons.prems(6), of None 0 True] by (auto simp: dlt_buffer_remove_def)
  define d2 where "d2 = (if dstate ?d \<noteq> DLT_DAEMON_STATE_SEND_BUFFER
     then dlt_daemon_change_state (?d\<lparr>client_ringbuffer := b1\<rparr>) DLT_DAEMON_STATE_SEND_BUFFER else ?d\<lparr>client_ringbuffer := b1\<rparr>)"
  have d2: "client_ringbuffer d2 = b1" "overflow_counter d2 = overflow_counter ?d" "dmode d2 = dmode ?d" "sendserialheader d2 = sendserialheader ?d"
    by (simp_all add: d2_def)
  have loop: "ringbuffer_loop n env w dta =
     (if ms = [] then Some (0, (after_writes ?w0 ?es)\<lparr>daemon := dlt_daemon_change_state d2 DLT_DAEMON_STATE_SEND_DIRECT\<rparr>, memput dta 0 m)
      else ringbuffer_loop (Suc k) env ((after_writes ?w0 ?es)\<lparr>daemon := d2\<rparr>) (memput dta 0 m))"
    unfolding n using len by (subst ringbuffer_loop.simps) (simp add: copy send rem message_count_rep [OF b1] d2_def Let_def del: dlt_daemon_client_send.simps)
  show ?case
  proof (cases "ms = []")
    case True
    then show ?thesis using loop b1 d2 len by (simp add: after_writes_def)
  next
    case False
    let ?w2 = "(after_writes ?w0 ?es)\<lparr>daemon := d2\<rparr>"
    have "\<exists>w' dta'. ringbuffer_loop (Suc k) env ?w2 (memput dta 0 m) = Some (0, w', dta') \<and>
      out w' = out ?w2 @ concat (map (\<lambda>m. sent_to (sendserialheader (daemon ?w2)) (Some m) None (client_fds (pEvent (wlocal ?w2)))) ms) \<and>
      dstate (daemon w') = DLT_DAEMON_STATE_SEND_DIRECT \<and> buffer_rep (client_ringbuffer (daemon w')) [] \<and>
      wlocal w' = wlocal ?w2 \<and> length dta' = length (memput dta 0 m)"
      using Cons.prems b1 d2 len False k by (intro Cons.IH) (auto simp: external_def after_writes_def)
    then show ?thesis using loop False d2 len by (auto simp: after_writes_def)
  qed
qed simp

section \<open>Reliable sending\<close>

declare sendreliable_loop.simps [simp del]

lemma sendreliable_loop_bytes:
  assumes "sendreliable_loop dta k answers = Some (rc, chunks)"
  shows "rc = 0 \<and> concat chunks = drop k dta \<or> rc = - 3 \<and> (\<exists>rest. rest \<noteq> [] \<and> concat chunks @ rest = drop k dta)"
  using assms
proof (induction dta k answers arbitrary: chunks rule: sendreliable_loop.induct)
  case (1 dta k answers)
  show ?case
  proof (cases "k < length dta")
    case False
    with "1.prems" show ?thesis by (simp add: sendreliable_loop.simps [of dta k])
  next
    case True
    then obtain a rest where ans: "answers = a # rest" using "1.prems" by (cases answers) (simp_all add: sendreliable_loop.simps [of dta k])
    show ?thesis
    proof (cases "a < 0")
      case neg: True
      with True ans "1.prems" show ?thesis by (auto simp: sendreliable_loop.simps [of dta k] intro!: exI [of _ "drop k dta"])
    next
      case False
      with True ans "1.prems" obtain ch where ch: "sendreliable_loop dta (k + nat a) rest = Some (rc, ch)" "chunks = take (nat a) (drop k dta) # ch"
        by (auto simp: sendreliable_loop.simps [of dta k])
      have "drop k dta = take (nat a) (drop k dta) @ drop (k + nat a) dta"
        by (metis append_take_drop_id drop_drop add.commute)
      with "1.IH" [OF True ans False ch(1)] ch(2) show ?thesis by auto
    qed
  qed
qed

section \<open>Control messages\<close>

lemma control_message_short:
  "length p \<le> 65000 \<Longrightarrow> control_message env w (payload_msg p) apid ctid \<noteq> None"
  by (simp add: control_message_def Let_def payload_msg_def zero_msg_def dlt_message_set_extraparameters_def
      DLT_STANDARD_HEADER_EXTRA_SIZE_def DLT_IS_HTYP_WEID_def DLT_IS_HTYP_WSID_def DLT_IS_HTYP_WTMS_def)

lemma le_bytes_swap32: "le_bytes 4 (swap32 x) = be_bytes 4 x"
  using le_bytes_le_val [of "rev (le_bytes 4 x)"] by (simp add: swap32_def be_val_def be_bytes_def)

lemma length_storage_bytes:
  assumes "length (sh_pattern s) = 4" "length (sh_ecu s) = 4"
  shows "length (storage_bytes s) = 16"
  using assms by (simp add: storage_bytes_def)

lemma replicate_split: "replicate 26 (0 :: byte) = [0, 0] @ replicate 2 0 @ replicate 4 0 @ replicate 4 0 @ replicate 10 0 @ replicate 4 0"
  by (simp add: numeral_eq_Suc)

lemma control_message_frame:
  assumes id: "readable_id (ecuid (daemon w))" "readable_id apid" "readable_id ctid" and p: "length p \<le> 65000"
  shows "\<exists>m extra. control_message env w (payload_msg p) apid ctid = Some m \<and> length extra = extra_len 0x35 \<and>
    (\<exists>h. message_parts m = (Some h, Some p) \<and> h @ p = dlt_frame 0x35 0 extra p)"
proof -
  have flags: "DLT_IS_HTYP_WEID 0x35" "\<not> DLT_IS_HTYP_WSID 0x35" "DLT_IS_HTYP_WTMS 0x35" "DLT_IS_HTYP_UEH 0x35"
    by (simp_all add: DLT_IS_HTYP_WEID_def DLT_IS_HTYP_WSID_def DLT_IS_HTYP_WTMS_def DLT_IS_HTYP_UEH_def)
  have size: "DLT_STANDARD_HEADER_EXTRA_SIZE 0x35 = 8" "extra_len 0x35 = 18"
    by (simp_all add: DLT_STANDARD_HEADER_EXTRA_SIZE_def extra_len_def flags)
  define e where "e = id4 (ecuid (daemon w))"
  define a where "a = the (dlt_set_id (Some [0, 0, 0, 0]) (Some (if apid ! 0 = 0 then text_bytes ''DA1'' else apid)))"
  define c where "c = the (dlt_set_id (Some [0, 0, 0, 0]) (Some (if ctid ! 0 = 0 then text_bytes ''DC1'' else ctid)))"
  have "readable_id (text_bytes ''DA1'')" "readable_id (text_bytes ''DC1'')" by (simp_all add: readable_id_def text_bytes_def)
  then have la: "length a = 4" "length c = 4" using id by (simp_all add: a_def c_def set_id_id4)
  have e: "length e = 4" by (simp add: e_def)
  define sto where "sto = storage_bytes (the (snd (dlt_set_storageheader (now env (ticks w)) (Some zero_storage) (Some (ecuid (daemon w))))))"
  have ls: "length sto = 16"
    unfolding sto_def using id by (intro length_storage_bytes) (simp_all add: dlt_set_storageheader_def zero_storage_def set_id_id4)
  define t where "t = uptime env (ticks w)"
  let ?len = "38 - 16 + int (length p)"
  let ?hb = "sto @ [0x35, 0] @ be_bytes 2 ?len @ e @ be_bytes 4 t @ ([0x26, 1] @ a @ c) @ replicate 4 0"
  have b42: "replicate 42 (0 :: byte) = replicate 16 0 @ replicate 26 0" by (simp flip: replicate_add)
  have hb1: "memput (memput (replicate 42 0) 0 sto) 16 [0x35, 0] = sto @ [0x35, 0] @ replicate 2 0 @ replicate 4 0 @ replicate 4 0 @ replicate 10 0 @ replicate 4 0"
    using ls by (simp add: memput_def b42) (simp add: numeral_eq_Suc)
  have nth16: "(sto @ 0x35 # z) ! 16 = 0x35" for z using ls by (simp add: nth_append)
  have "control_message env w (payload_msg p) apid ctid \<noteq> None" using p by (rule control_message_short)
  then obtain m where m: "control_message env w (payload_msg p) apid ctid = Some m" by blast
  moreover have "headerbuffer m = ?hb \<and> headersize m = 38 \<and> datasize m = int (length p) \<and> databuffer m = Some p"
    using m p id ls e la
    by (auto simp: control_message_def Let_def payload_msg_def zero_msg_def dlt_message_set_extraparameters_def msg_htyp_def
        size flags hb1 nth16 set_id_id4 le_bytes_swap32 sto_def [symmetric] a_def [symmetric] c_def [symmetric] e_def [symmetric] t_def [symmetric]
        memput_def split: if_splits)
  then have "message_parts m = (Some ([0x35, 0] @ be_bytes 2 ?len @ e @ be_bytes 4 t @ ([0x26, 1] @ a @ c)), Some p)"
    using ls e la by (simp add: message_parts_def memget_def)
  moreover have "([0x35, 0] @ be_bytes 2 ?len @ e @ be_bytes 4 t @ ([0x26, 1] @ a @ c)) @ p =
      dlt_frame 0x35 0 (e @ be_bytes 4 t @ ([0x26, 1] @ a @ c)) p"
    using e la by (simp add: dlt_frame_def)
  moreover have "length (e @ be_bytes 4 t @ ([0x26, 1] @ a @ c)) = extra_len 0x35" using e la by (simp add: size)
  ultimately show ?thesis by blast
qed

section \<open>The overflow report\<close>

text \<open>
  While messages were lost and a client is connected, each message that is sent directly makes the
  daemon send a report; the counter is reset only after the report was sent, and the report is
  itself a message that is sent directly.
\<close>

lemma overflow_report_diverges_aux:
  assumes "all_ok env (client_fds (pEvent (wlocal w)))" "table_ok (pEvent (wlocal w))" "external w" "msg_alloc env"
    and "dstate (daemon w) = DLT_DAEMON_STATE_SEND_DIRECT"
    and "overflow_counter (daemon w) > 0" "client_connections (wlocal w) > 0"
  shows "dlt_daemon_client_send n env w DLT_DAEMON_SEND_TO_ALL d1 d2 = None"
  using assms
proof (induction n arbitrary: w d1 d2)
  case (Suc n)
  let ?w1 = "offline_writes env w DLT_DAEMON_SEND_TO_ALL d1 d2" and ?send = "dlt_daemon_client_send n env"
  have w1: "daemon ?w1 = daemon w" "wlocal ?w1 = wlocal w" by (simp_all add: offline_writes_def Let_def)
  obtain sent w2 where w2: "dlt_daemon_client_send_all_multiple ?send env ?w1 d1 d2 = Some (sent, w2)" "daemon w2 = daemon w" "wlocal w2 = wlocal w"
    using send_all_keeps [of ?w1 env ?send d1 d2] Suc.prems(1,2) w1 by auto
  have IH: "?send w2 DLT_DAEMON_SEND_TO_ALL x y = None" for x y
    using Suc.prems w2 by (intro Suc.IH) (simp_all add: external_def)
  have "length (overflow_payload (overflow_counter (daemon w2))) \<le> 65000" by (simp add: overflow_payload_def)
  from control_message_short [OF this, of env w2 "[0]" "[0]"]
  have "dlt_daemon_send_message_overflow ?send env w2 = None"
    using Suc.prems(4) IH
    by (auto simp: dlt_daemon_send_message_overflow_def dlt_daemon_control_message_buffer_overflow_def
        dlt_daemon_client_send_control_message_def split: option.splits prod.splits)
  then show ?case using Suc.prems(3,5-7) w1 w2 by (simp add: client_send_step_def external_def)
qed simp

lemma length_polled: "table_ok ev \<Longrightarrow> length (polled ev) = nfds ev"
  by (simp add: polled_def table_ok_def)

section \<open>Sending returns when no report is pending\<close>

text \<open>
  Without lost messages, or while messages are stored, sending returns whatever the writes do: a failing write
  closes a client, which sends two messages to the clients that are left. The fuel must exceed the number of
  connections.
\<close>

definition buffering :: "world \<Rightarrow> bool" where
  "buffering w \<longleftrightarrow> dstate (daemon w) = DLT_DAEMON_STATE_BUFFER \<or> dstate (daemon w) = DLT_DAEMON_STATE_SEND_BUFFER \<or>
     dstate (daemon w) = DLT_DAEMON_STATE_BUFFER_FULL"

definition steady :: "world \<Rightarrow> bool" where
  "steady w \<longleftrightarrow> handler_ok (wlocal w) \<and> (overflow_counter (daemon w) = 0 \<or> buffering w)"

definition conns :: "world \<Rightarrow> nat" where
  "conns w = length (connections (pEvent (wlocal w)))"

definition below :: "world \<Rightarrow> world \<Rightarrow> bool" where
  "below w w' \<longleftrightarrow> conns w' \<le> conns w \<and> nfds (pEvent (wlocal w')) \<le> nfds (pEvent (wlocal w))"

definition send_returns :: "nat \<Rightarrow> sender \<Rightarrow> bool" where
  "send_returns n send \<longleftrightarrow> (\<forall>w d1 d2. steady w \<and> conns w < n \<longrightarrow>
     (\<exists>rc w'. send w DLT_DAEMON_SEND_TO_ALL d1 d2 = Some (rc, w') \<and> steady w' \<and> below w w' \<and> (rc \<noteq> 0 \<longrightarrow> buffering w')))"

lemma below_refl [simp]: "below w w"
  by (simp add: below_def)

lemma below_trans: "below w w' \<Longrightarrow> below w' w'' \<Longrightarrow> below w w''"
  by (auto simp: below_def)

lemma same_state:
  assumes "daemon w' = daemon w" "wlocal w' = wlocal w"
  shows "steady w' = steady w" "conns w' = conns w" "below w' v = below w v" "below v w' = below v w"
  using assms by (simp_all add: steady_def conns_def below_def buffering_def)

lemma send_returnsD:
  assumes "send_returns n send" "steady w" "conns w < n"
  shows "\<exists>rc w'. send w DLT_DAEMON_SEND_TO_ALL d1 d2 = Some (rc, w') \<and> steady w' \<and> below w w' \<and> (rc \<noteq> 0 \<longrightarrow> buffering w')"
  using assms by (simp add: send_returns_def)

lemma control_returns:
  assumes "send_returns n send" "steady w" "conns w < n"
  shows "\<exists>rc w'. dlt_daemon_client_send_control_message send env w DLT_DAEMON_SEND_TO_ALL msg apid ctid = Some (rc, w') \<and> steady w' \<and> below w w' \<and>
    (control_message env w msg apid ctid \<noteq> None \<longrightarrow> rc \<noteq> 0 \<longrightarrow> buffering w')"
proof (cases "control_message env w msg apid ctid")
  case (Some m)
  obtain d1 d2 where "message_parts m = (d1, d2)" by fastforce
  then show ?thesis using send_returnsD [OF assms, of d1 d2] Some by (auto simp: dlt_daemon_client_send_control_message_def)
qed (use assms in \<open>simp add: dlt_daemon_client_send_control_message_def\<close>)

lemma connection_info_returns:
  assumes "send_returns n send" "steady w" "conns w < n"
  shows "\<exists>rc w'. dlt_daemon_control_message_connection_info send env w DLT_DAEMON_SEND_TO_ALL st comid = Some (rc, w') \<and> steady w' \<and> below w w'"
proof -
  obtain rc w' where c: "dlt_daemon_client_send_control_message send env w DLT_DAEMON_SEND_TO_ALL (payload_msg (connection_info_payload st comid)) [0] [0] =
      Some (rc, w')" "steady w'" "below w w'"
    using control_returns [OF assms] by blast
  then show ?thesis using assms(2) by (cases "msg_alloc env") (simp_all add: dlt_daemon_control_message_connection_info_def)
qed

lemma log_internal_returns:
  assumes "send_returns n send" "steady w" "conns w < n"
  shows "\<exists>rc w'. dlt_daemon_log_internal send env w str = Some (rc, w') \<and> steady w' \<and> below w w'"
proof -
  let ?w1 = "w\<lparr>uiMsgCount := uiMsgCount w + 1\<rparr>"
  have s: "steady ?w1" "conns ?w1 < n" "below w ?w1" using assms(2,3) by (simp_all add: steady_def conns_def below_def buffering_def)
  obtain d1 d2 where i: "internal_message env w str = (d1, d2)" by fastforce
  obtain rc w' where "send ?w1 DLT_DAEMON_SEND_TO_ALL d1 d2 = Some (rc, w')" "steady w'" "below ?w1 w'"
    using send_returnsD [OF assms(1) s(1,2), of d1 d2] by blast
  then show ?thesis using s below_trans [OF s(3)] by (simp add: dlt_daemon_log_internal_def i Let_def)
qed

lemma close_returns:
  assumes send: "send_returns n send" and w: "steady w" "conns w < n \<or> conns w = n \<and> find_con (connections (pEvent (wlocal w))) f \<noteq> None"
  shows "\<exists>rc w'. dlt_daemon_close_socket send env w f = Some (rc, w') \<and> steady w' \<and> below w w'"
proof -
  obtain rc dl closed where un: "dlt_event_handler_unregister_connection (wlocal w) f = (rc, dl, closed)" by (metis prod_cases3)
  let ?w1 = "w\<lparr>wlocal := dl, out := out w @ map Closed closed\<rparr>"
  have dl: "handler_ok dl \<and> length (connections (pEvent dl)) < n \<and> length (connections (pEvent dl)) \<le> conns w \<and>
      nfds (pEvent dl) \<le> nfds (pEvent (wlocal w))"
  proof (cases "find_con (connections (pEvent (wlocal w))) f")
    case None
    then have "dl = wlocal w" using un by (simp add: dlt_event_handler_unregister_connection_def dlt_event_handler_find_connection_def)
    then show ?thesis using w None by (auto simp: steady_def conns_def)
  next
    case (Some c)
    have ok: "handler_ok (wlocal w)" using w(1) by (simp add: steady_def)
    note u = unregister_ok [OF ok Some un]
    have "length (polled (pEvent dl)) \<le> length (polled (pEvent (wlocal w)))" using u by auto
    moreover have "table_ok (pEvent dl)" "table_ok (pEvent (wlocal w))" using u ok by (simp_all add: handler_ok_def)
    ultimately have "nfds (pEvent dl) \<le> nfds (pEvent (wlocal w))" by (simp only: length_polled)
    then show ?thesis using u w(2) by (auto simp: conns_def)
  qed
  let ?d1 = "(daemon w)\<lparr>connectionState := 0\<rparr>"
  define w2 where "w2 = (if client_connections dl = 0
    then ?w1\<lparr>daemon := (if yvalue env then ?d1 else dlt_daemon_change_state ?d1 DLT_DAEMON_STATE_BUFFER), out := out ?w1 @ [LogStateToApplications 0]\<rparr>
    else ?w1)"
  have w2: "steady w2" "conns w2 < n" "below w w2"
    using w(1) dl by (auto simp: w2_def steady_def conns_def below_def buffering_def dlt_daemon_change_state_def)
  obtain r3 w3 where w3: "dlt_daemon_control_message_connection_info send env w2 DLT_DAEMON_SEND_TO_ALL 1 [0] = Some (r3, w3)" "steady w3" "below w2 w3"
    using connection_info_returns [OF send w2(1,2)] by blast
  obtain r4 w4 where w4: "dlt_daemon_log_internal send env w3 (closed_text f (client_connections (wlocal w3))) = Some (r4, w4)" "steady w4" "below w3 w4"
    using log_internal_returns [OF send w3(2)] w3(3) w2(2) by (fastforce simp: below_def)
  have "dlt_daemon_close_socket send env w f = Some (0, w4)"
    unfolding dlt_daemon_close_socket_def un using w3(1) w4(1) by (simp add: w2_def Let_def split: if_splits)
  then show ?thesis using w4 below_trans [OF w2(3) below_trans [OF w3(3) w4(3)]] by blast
qed

lemma send_all_loop_returns:
  assumes "send_returns n send" "steady w" "conns w \<le> n" "nfds (pEvent (wlocal w)) \<le> i + k"
  shows "\<exists>sent' w'. send_all_loop send env k w i d1 d2 sent = Some (sent', w') \<and> steady w' \<and> below w w'"
  using assms(2-4)
proof (induction k arbitrary: w i sent)
  case (Suc k)
  let ?ev = "pEvent (wlocal w)" let ?f = "p_fd (pfd ?ev ! i)"
  have IH: "\<exists>sent' w'. send_all_loop send env k w1 (i + 1) d1 d2 st = Some (sent', w') \<and> steady w' \<and> below w w'" if "steady w1" "below w w1" for w1 st
    using Suc.IH [of w1 "i + 1" st] Suc.prems(2,3) that below_trans [OF that(2)] by (fastforce simp: below_def)
  show ?case
  proof (cases "i < nfds ?ev \<and> find_con (connections ?ev) ?f \<noteq> None")
    case False
    then show ?thesis using IH [OF Suc.prems(1) below_refl] Suc.prems(1) by (auto simp: dlt_event_handler_find_connection_def Let_def)
  next
    case True
    then obtain c where c: "find_con (connections ?ev) ?f = Some c" "i < nfds ?ev" by blast
    obtain r where r: "receiver c = Some r" "fd r = ?f" using find_con_Some [OF c(1)] by blast
    obtain rc w1 where m: "dlt_connection_send_multiple env w (Some c) d1 d2 (sendserialheader (daemon w)) = (rc, w1)" by fastforce
    have w1: "daemon w1 = daemon w" "wlocal w1 = wlocal w"
      using send_multiple_keeps [of env w "Some c" d1 d2 "sendserialheader (daemon w)"] by (simp_all add: m)
    have s1: "steady w1" "below w w1" "conns w1 = conns w" using Suc.prems(1) same_state [OF w1] by simp_all
    have "conns w1 < n \<or> conns w1 = n \<and> find_con (connections (pEvent (wlocal w1))) ?f \<noteq> None" using Suc.prems(2) s1(3) c(1) w1(2) by auto
    from close_returns [OF assms(1) s1(1) this] obtain rc2 w2 where
      w2: "dlt_daemon_close_socket send env w1 ?f = Some (rc2, w2)" "steady w2" "below w1 w2" by blast
    have s2: "below w w2" using below_trans [OF s1(2) w2(3)] .
    show ?thesis
      using IH [OF s1(1,2)] IH [OF w2(2) s2] IH [OF Suc.prems(1) below_refl]
      by (simp add: dlt_event_handler_find_connection_def c r m w2(1) Let_def)
  qed
qed auto

lemma store_message_steady:
  assumes "steady w" "buffering w" "store_message env w d1 d2 = (rc, w')"
  shows "steady w' \<and> below w w' \<and> buffering w'"
  using assms
  by (auto simp: store_message_def steady_def buffering_def below_def conns_def Let_def dlt_daemon_change_state_def split: prod.splits if_splits)

lemma client_send_returns: "send_returns n (dlt_daemon_client_send n env)"
proof (induction n)
  case (Suc n)
  show ?case unfolding send_returns_def
  proof (intro allI impI, elim conjE)
    fix w d1 d2 assume w: "steady w" "conns w < Suc n"
    let ?w1 = "offline_writes env w DLT_DAEMON_SEND_TO_ALL d1 d2" and ?send = "dlt_daemon_client_send n env"
    have w1: "daemon ?w1 = daemon w" "wlocal ?w1 = wlocal w" by (simp_all add: offline_writes_def Let_def)
    have s1: "steady ?w1" "conns ?w1 \<le> n" "below w ?w1" using w same_state [OF w1] by simp_all
    obtain sent1 v where v: "dlt_daemon_client_send_all_multiple ?send env ?w1 d1 d2 = Some (sent1, v)" "steady v" "below ?w1 v"
      using send_all_loop_returns [OF Suc s1(1,2), of 0 "nfds (pEvent (wlocal ?w1))" env d1 d2 False]
      by (auto simp: dlt_daemon_client_send_all_multiple_def)
    let ?b = "(dmode (daemon ?w1) = DLT_USER_MODE_EXTERNAL \<or> dmode (daemon ?w1) = DLT_USER_MODE_BOTH) \<and>
      dstate (daemon ?w1) = DLT_DAEMON_STATE_SEND_DIRECT"
    have "\<exists>sent w2. (if ?b then dlt_daemon_client_send_all_multiple ?send env ?w1 d1 d2 else Some (True, ?w1)) = Some (sent, w2) \<and>
        steady w2 \<and> below ?w1 w2"
    proof (cases ?b)
      case True
      with v show ?thesis by simp
    next
      case False
      with s1(1) show ?thesis by (intro exI [of _ True] exI [of _ ?w1]) (simp only: if_False below_refl simp_thms)
    qed
    then obtain sent w2 where w2: "(if ?b then dlt_daemon_client_send_all_multiple ?send env ?w1 d1 d2 else Some (True, ?w1)) = Some (sent, w2)"
      "steady w2" "below ?w1 w2" by blast
    have b2: "below w w2" using below_trans [OF s1(3) w2(3)] .
    obtain rc w3 where st: "store_message env w2 d1 d2 = (rc, w3)" by fastforce
    have eq: "dlt_daemon_client_send (Suc n) env w DLT_DAEMON_SEND_TO_ALL d1 d2 = (if buffering w2 then Some (rc, w3) else Some (0, w2))"
      using w2(1,2) st by (cases "overflow_counter (daemon w2) = 0") (auto simp add: client_send_step_def Let_def buffering_def steady_def)
    show "\<exists>rc w'. dlt_daemon_client_send (Suc n) env w DLT_DAEMON_SEND_TO_ALL d1 d2 = Some (rc, w') \<and> steady w' \<and> below w w' \<and> (rc \<noteq> 0 \<longrightarrow> buffering w')"
      using eq w2(2) b2 store_message_steady [OF w2(2) _ st] below_trans [OF b2] by (cases "buffering w2") auto
  qed
qed (simp add: send_returns_def)

section \<open>Closing a client\<close>

text \<open>The two messages that are sent to the clients that stay when a client is closed.\<close>

lemma direct_send:
  assumes "all_ok env (client_fds (pEvent (wlocal w)))" "table_ok (pEvent (wlocal w))" "external w"
    and "dstate (daemon w) = DLT_DAEMON_STATE_SEND_DIRECT" "overflow_counter (daemon w) = 0" "0 < n" "d1 \<noteq> Some []"
  shows "dlt_daemon_client_send n env w DLT_DAEMON_SEND_TO_ALL d1 d2 =
    Some (0, after_writes (w\<lparr>out := out w @ offline_events env w d1 d2\<rparr>)
       (sent_to (sendserialheader (daemon w)) d1 d2 (client_fds (pEvent (wlocal w)))))"
  using step_direct [OF assms(1-4,7) refl] assms(5,6) by (cases n) simp_all

lemma memput_extends: "k \<le> length m \<Longrightarrow> k \<le> length (memput m off d)"
  by (simp add: memput_def)

lemma control_parts:
  assumes "control_message env w (payload_msg p) apid ctid = Some m"
  shows "fst (message_parts m) \<noteq> Some []"
proof -
  have "42 \<le> length (headerbuffer m) \<and> headersize m = 38"
    using assms
    by (auto simp: control_message_def Let_def payload_msg_def zero_msg_def dlt_message_set_extraparameters_def
        DLT_STANDARD_HEADER_EXTRA_SIZE_def DLT_IS_HTYP_WEID_def DLT_IS_HTYP_WSID_def DLT_IS_HTYP_WTMS_def
        intro!: memput_extends split: if_splits)
  then show ?thesis by (simp add: message_parts_def memget_def)
qed

lemma close_with_others:
  assumes ok: "handler_ok (wlocal w)" and c: "find_con (connections (pEvent (wlocal w))) f = Some c" "is_client (ctype c)"
    and un: "dlt_event_handler_unregister_connection (wlocal w) f = (rc, dl, closed)"
    and others: "client_connections dl > 0" and env: "all_ok env (client_fds (pEvent dl))" "msg_alloc env"
    and w: "external w" "dstate (daemon w) = DLT_DAEMON_STATE_SEND_DIRECT" "overflow_counter (daemon w) = 0" "0 < n"
  shows "\<exists>w' m t1 t2. dlt_daemon_close_socket (dlt_daemon_client_send n env) env w f = Some (0, w') \<and>
    wlocal w' = dl \<and> daemon w' = daemon w \<and>
    out w' = out w @ [Closed f] @
      offline_events env w (fst (message_parts m)) (snd (message_parts m)) @
      sent_to (sendserialheader (daemon w)) (fst (message_parts m)) (snd (message_parts m)) (client_fds (pEvent dl)) @
      offline_events env w t1 t2 @ sent_to (sendserialheader (daemon w)) t1 t2 (client_fds (pEvent dl))"
proof -
  note u = unregister_ok [OF ok c(1) un]
  have tab: "table_ok (pEvent dl)" using u by (simp add: handler_ok_def)
  have "closed_fd c = f" using c find_con_Some [OF c(1)] by (auto simp: closed_fd_def is_client_def con_fd_def)
  then have cl: "closed = [f]" using u by simp
  let ?w1 = "w\<lparr>wlocal := dl, out := out w @ map Closed closed\<rparr>"
  have "length (connection_info_payload 1 [0]) \<le> 65000"
    using set_id_id4 [of "[0, 0, 0, 0]" "[0]"] by (simp add: connection_info_payload_def readable_id_def)
  then obtain m where m: "control_message env ?w1 (payload_msg (connection_info_payload 1 [0])) [0] [0] = Some m"
    using control_message_short by blast
  define w2 where "w2 = after_writes (?w1\<lparr>out := out ?w1 @ offline_events env ?w1 (fst (message_parts m)) (snd (message_parts m))\<rparr>)
     (sent_to (sendserialheader (daemon w)) (fst (message_parts m)) (snd (message_parts m)) (client_fds (pEvent dl)))"
  have s1: "dlt_daemon_client_send n env ?w1 DLT_DAEMON_SEND_TO_ALL (fst (message_parts m)) (snd (message_parts m)) = Some (0, w2)"
    using direct_send [of env ?w1 n] env tab w control_parts [OF m] by (simp add: external_def w2_def)
  have w2: "daemon w2 = daemon w" "wlocal w2 = dl" by (simp_all add: w2_def)
  obtain t1 t2 where t: "internal_message env w2 (closed_text f (client_connections dl)) = (t1, t2)" by fastforce
  let ?w3 = "w2\<lparr>uiMsgCount := uiMsgCount w2 + 1\<rparr>"
  have "t1 \<noteq> Some []" using t by (auto simp: internal_message_def Let_def)
  have s2: "dlt_daemon_client_send n env ?w3 DLT_DAEMON_SEND_TO_ALL t1 t2 =
     Some (0, after_writes (?w3\<lparr>out := out ?w3 @ offline_events env ?w3 t1 t2\<rparr>)
       (sent_to (sendserialheader (daemon w)) t1 t2 (client_fds (pEvent dl))))"
    using direct_send [of env ?w3 n t1] env tab w w2 \<open>t1 \<noteq> Some []\<close> by (simp add: external_def)
  have "dlt_daemon_close_socket (dlt_daemon_client_send n env) env w f =
     Some (0, after_writes (?w3\<lparr>out := out ?w3 @ offline_events env ?w3 t1 t2\<rparr>)
       (sent_to (sendserialheader (daemon w)) t1 t2 (client_fds (pEvent dl))))"
    using others env(2) s1 s2 t w2
    by (simp add: dlt_daemon_close_socket_def un Let_def dlt_daemon_control_message_connection_info_def m
        dlt_daemon_client_send_control_message_def dlt_daemon_log_internal_def split_beta)
  moreover have "offline_events env ?w1 x y = offline_events env w x y" "offline_events env ?w3 x y = offline_events env w x y" for x y
    by (simp_all add: offline_events_def w2)
  ultimately show ?thesis
    by (intro exI conjI) (assumption | simp add: w2 w2_def cl)+
qed

lemma find_con_without:
  "fd (the (receiver c)) \<noteq> f \<Longrightarrow> find_con (before @ c # after) f = find_con (before @ after) f"
  by (induction before) (auto split: option.splits)

lemma send_multiple_fails:
  assumes "receiver c = Some r" "ctype c = DLT_CONNECTION_CLIENT_MSG_TCP" "\<forall>k. \<not> net env k (fd r) \<and> cut env k (fd r) = None"
  shows "dlt_connection_send_multiple env w (Some c) (Some d) d2 serial = (- 3, w\<lparr>ticks := ticks w + 1\<rparr>)"
  using assms by (cases d2) (simp_all add: dlt_connection_send_multiple_def dlt_connection_send_def send_part_def write_fd_def)

lemma failed_client_aux:
  assumes ok: "handler_ok (wlocal w)" and pol: "polled (pEvent (wlocal w)) = [f1, f2]" "f1 \<noteq> f2"
    and c1: "find_con (connections (pEvent (wlocal w))) f1 = Some c1" "ctype c1 = DLT_CONNECTION_CLIENT_MSG_TCP" "status c1 = ACTIVE"
    and c2: "find_con (connections (pEvent (wlocal w))) f2 = Some c2" "is_client (ctype c2)"
    and env: "\<forall>k. \<not> net env k f1 \<and> net env k f2 \<and> cut env k f1 = None \<and> cut env k f2 = None" "msg_alloc env"
    and w: "external w" "dstate (daemon w) = DLT_DAEMON_STATE_SEND_DIRECT" "overflow_counter (daemon w) = 0" "0 < n"
  shows "\<exists>w' m t1 t2. dlt_daemon_client_send (Suc n) env w DLT_DAEMON_SEND_TO_ALL (Some d) d2 = Some (0, w') \<and>
    client_fds (pEvent (wlocal w')) = [f2] \<and>
    out w' = out w @ offline_events env w (Some d) d2 @ [Closed f1] @
      offline_events env w (fst (message_parts m)) (snd (message_parts m)) @
      sent_to (sendserialheader (daemon w)) (fst (message_parts m)) (snd (message_parts m)) [f2] @
      offline_events env w t1 t2 @ sent_to (sendserialheader (daemon w)) t1 t2 [f2]"
proof -
  let ?send = "dlt_daemon_client_send n env"
  let ?w1 = "w\<lparr>out := out w @ offline_events env w (Some d) d2\<rparr>" and ?ev = "pEvent (wlocal w)"
  let ?w1' = "?w1\<lparr>ticks := ticks w + 1\<rparr>"
  have off: "offline_writes env w DLT_DAEMON_SEND_TO_ALL (Some d) d2 = ?w1"
    using w(2) by (simp add: offline_writes_def offline_events_def Let_def)
  obtain rc dl closed where un: "dlt_event_handler_unregister_connection (wlocal w) f1 = (rc, dl, closed)" by (rule prod_cases3)
  note u = unregister_ok [OF ok c1(1) un]
  obtain before after where cs: "connections ?ev = before @ c1 # after" "connections (pEvent dl) = before @ after" using u by blast
  obtain r1 where r1: "receiver c1 = Some r1" "fd r1 = f1" using find_con_Some [OF c1(1)] by blast
  have f2: "find_con (connections (pEvent dl)) f2 = Some c2" using c2(1) pol(2) r1 find_con_without [of c1 f2] by (simp add: cs)
  have pdl: "polled (pEvent dl) = [f2]" using u pol c1(3) by auto
  then have cf: "client_fds (pEvent dl) = [f2]" using f2 c2(2) by (simp add: client_fds_def is_client_fd_def)
  have "c2 \<in> set (connections (pEvent dl))" using find_con_Some [OF f2] by simp
  then have cc: "client_connections dl > 0"
    using u c2(2) by (auto simp: handler_ok_def filter_empty_conv)
  have tab: "table_ok ?ev" "table_ok (pEvent dl)" using ok u by (auto simp: handler_ok_def)
  have n2: "nfds ?ev = 2" "nfds (pEvent dl) = 1" using length_polled [OF tab(1)] length_polled [OF tab(2)] pol pdl by simp_all
  have p0: "p_fd (pfd ?ev ! 0) = f1"
  proof -
    have "polled ?ev ! 0 = p_fd (pfd ?ev ! 0)" using tab(1) n2(1) by (simp add: polled_def table_ok_def)
    then show ?thesis by (simp add: pol)
  qed
  have "\<exists>w' m t1 t2. dlt_daemon_close_socket ?send env ?w1' f1 = Some (0, w') \<and> wlocal w' = dl \<and> daemon w' = daemon ?w1' \<and>
    out w' = out ?w1' @ [Closed f1] @ offline_events env ?w1' (fst (message_parts m)) (snd (message_parts m)) @
      sent_to (sendserialheader (daemon ?w1')) (fst (message_parts m)) (snd (message_parts m)) (client_fds (pEvent dl)) @
      offline_events env ?w1' t1 t2 @ sent_to (sendserialheader (daemon ?w1')) t1 t2 (client_fds (pEvent dl))"
    using ok c1 cc w env un by (intro close_with_others [where c = c1]) (simp_all add: all_ok_def cf external_def is_client_def)
  moreover have "offline_events env ?w1' x y = offline_events env w x y" for x y by (simp add: offline_events_def)
  ultimately obtain w' m t1 t2 where close: "dlt_daemon_close_socket ?send env ?w1' f1 = Some (0, w')" "wlocal w' = dl" "daemon w' = daemon w"
    and out: "out w' = out w @ offline_events env w (Some d) d2 @ [Closed f1] @
      offline_events env w (fst (message_parts m)) (snd (message_parts m)) @
      sent_to (sendserialheader (daemon w)) (fst (message_parts m)) (snd (message_parts m)) [f2] @
      offline_events env w t1 t2 @ sent_to (sendserialheader (daemon w)) t1 t2 [f2]"
    by (auto simp: cf)
  have "dlt_connection_send_multiple env ?w1 (Some c1) (Some d) d2 (sendserialheader (daemon w)) = (- 3, ?w1')"
    using send_multiple_fails [OF r1(1) c1(2), of env ?w1] env(1) r1(2) by simp
  then have "dlt_daemon_client_send_all_multiple ?send env ?w1 (Some d) d2 = Some (False, w')"
    using close n2 c1(1,2) r1 p0
    by (simp add: dlt_daemon_client_send_all_multiple_def numeral_2_eq_2 dlt_event_handler_find_connection_def is_client_def)
  then have "dlt_daemon_client_send (Suc n) env w DLT_DAEMON_SEND_TO_ALL (Some d) d2 = Some (0, w')"
    using w close by (simp add: client_send_step_def off external_def)
  with out close cf show ?thesis by blast
qed

section \<open>Properties\<close>

definition example_con :: "nat \<Rightarrow> int \<Rightarrow> DltConnection" where
  "example_con a f = \<lparr>c_addr = a, c_id = a, receiver = Some (zero_receiver\<lparr>fd := f\<rparr>), ctype = DLT_CONNECTION_CLIENT_MSG_TCP,
     status = ACTIVE, ev_mask = 1\<rparr>"

definition example_clients :: DltDaemonLocal where
  "example_clients = \<lparr>pEvent = \<lparr>pfd = [\<lparr>p_fd = 7, p_events = 1, p_revents = 0\<rparr>, \<lparr>p_fd = 8, p_events = 1, p_revents = 0\<rparr>],
     nfds = 2, max_nfds = 2, connections = [example_con 1 7, example_con 2 8]\<rparr>, client_connections = 2\<rparr>"

definition example_world :: "DltDaemonState \<Rightarrow> nat \<Rightarrow> world" where
  "example_world st lost = \<lparr>daemon = \<lparr>dstate = st, dmode = DLT_USER_MODE_EXTERNAL, sendserialheader = False,
       client_ringbuffer = example_filled, overflow_counter = lost, connectionState = 1, ecuid = [0x45, 0x43, 0x55, 0x31]\<rparr>,
     wlocal = example_clients, uiMsgCount = 0, ticks = 0, out = []\<rparr>"

definition example_outside :: "(int \<Rightarrow> bool) \<Rightarrow> outside" where
  "example_outside up = \<lparr>net = (\<lambda>_. up), cut = (\<lambda>_ _. None), isatty = (\<lambda>_. False), uptime = (\<lambda>_. 0), now = (\<lambda>_. (0, 0)), pid = 1,
     balloc = example_alloc, bpad = (\<lambda>_. [0, 0, 0]), msg_alloc = True, offlineTraceDirectory = False,
     offlineLogstorage = False, yvalue = False\<rparr>"

lemma example_clients_ok:
  "handler_ok example_clients" "table_ok (pEvent example_clients)" "polled (pEvent example_clients) = [7, 8]"
  "client_fds (pEvent example_clients) = [7, 8]"
  "find_con (connections (pEvent example_clients)) 7 = Some (example_con 1 7)"
  "find_con (connections (pEvent example_clients)) 8 = Some (example_con 2 8)"
  by (simp_all add: handler_ok_def table_ok_def polled_def active_cons_def con_fd_def is_client_def example_clients_def example_con_def
      client_fds_def is_client_fd_def numeral_2_eq_2)

lemma example_world_simps:
  "wlocal (example_world st lost) = example_clients" "dstate (daemon (example_world st lost)) = st" "external (example_world st lost)"
  "overflow_counter (daemon (example_world st lost)) = lost" "client_ringbuffer (daemon (example_world st lost)) = example_filled"
  "out (example_world st lost) = []" "sendserialheader (daemon (example_world st lost)) = False" "ecuid (daemon (example_world st lost)) = [0x45, 0x43, 0x55, 0x31]"
  by (simp_all add: example_world_def external_def)

lemma example_outside_simps:
  "all_ok (example_outside (\<lambda>_. True)) fs" "net (example_outside up) k f = up f" "msg_alloc (example_outside up)"
  "alloc_ok (balloc (example_outside up))" "length (bpad (example_outside up) b) = 3" "offline_events (example_outside up) (example_world st lost) x y = []"
  by (simp_all add: all_ok_def example_outside_def example_alloc_ok offline_events_def example_world_def)

text \<open>
  In the state \<open>SEND_DIRECT\<close> a message goes to every TCP and serial client, in the order of the
  poll table, with the serial header first when it is enabled, and to the offline writers that
  are active; nothing is stored and the daemon does not change.
\<close>

theorem direct_broadcast:
  assumes "all_ok env (client_fds (pEvent (wlocal w)))" "table_ok (pEvent (wlocal w))" "external w"
    and "dstate (daemon w) = DLT_DAEMON_STATE_SEND_DIRECT" "overflow_counter (daemon w) = 0" "0 < n" "d1 \<noteq> Some []"
  shows "\<exists>w'. dlt_daemon_client_send n env w DLT_DAEMON_SEND_TO_ALL d1 d2 = Some (0, w') \<and>
    daemon w' = daemon w \<and> wlocal w' = wlocal w \<and>
    out w' = out w @ offline_events env w d1 d2 @
      concat (map (\<lambda>f. map (ToClient f) ((if sendserialheader (daemon w) then [dltSerialHeader] else []) @ opt_list d1 @ opt_list d2))
        (client_fds (pEvent (wlocal w))))"
  using direct_send [OF assms, of d2] by (simp add: sent_to_def wire_def)

text \<open>
  While no client is served (\<open>BUFFER\<close>, \<open>SEND_BUFFER\<close>, \<open>BUFFER_FULL\<close>) a message is either appended
  to the client ring buffer and the state stays, or it is refused: the stored messages are
  intact, the state is \<open>BUFFER_FULL\<close> and the overflow counter grows by one. No client gets it.
\<close>

theorem buffered_or_counted:
  assumes st: "dstate (daemon w) \<in> {DLT_DAEMON_STATE_BUFFER, DLT_DAEMON_STATE_SEND_BUFFER, DLT_DAEMON_STATE_BUFFER_FULL}"
    and rep: "buffer_rep (client_ringbuffer (daemon w)) ms" and env: "alloc_ok (balloc env)" "\<forall>b. length (bpad env b) = 3"
    and m: "m = arg_bytes d1 @ arg_bytes d2" "length m + 12 < 2147483648" "ms \<noteq> [] \<or> 12 + length m \<le> bsize (client_ringbuffer (daemon w))"
    and n: "0 < n"
  shows "\<exists>rc w'. dlt_daemon_client_send n env w DLT_DAEMON_SEND_TO_ALL d1 d2 = Some (rc, w') \<and>
    wlocal w' = wlocal w \<and> (\<forall>f x. ToClient f x \<in> set (out w') \<longrightarrow> ToClient f x \<in> set (out w)) \<and>
    (rc = 0 \<and> buffer_rep (client_ringbuffer (daemon w')) (ms @ [m]) \<and> dstate (daemon w') = dstate (daemon w) \<and>
       overflow_counter (daemon w') = overflow_counter (daemon w) \<or>
     rc = - 2 \<and> buffer_rep (client_ringbuffer (daemon w')) ms \<and> dstate (daemon w') = DLT_DAEMON_STATE_BUFFER_FULL \<and>
       overflow_counter (daemon w') = u32 (int (overflow_counter (daemon w)) + 1))"
proof -
  obtain k where k: "n = Suc k" using n by (cases n) auto
  let ?w1 = "offline_writes env w DLT_DAEMON_SEND_TO_ALL d1 d2"
  have w1: "daemon ?w1 = daemon w" "wlocal ?w1 = wlocal w"
    "\<forall>f x. ToClient f x \<in> set (out ?w1) \<longrightarrow> ToClient f x \<in> set (out w)"
    by (auto simp: offline_writes_def Let_def)
  have eq: "dlt_daemon_client_send n env w DLT_DAEMON_SEND_TO_ALL d1 d2 = Some (store_message env ?w1 d1 d2)"
    using st w1 by (auto simp: k client_send_step_def Let_def)
  show ?thesis
  proof (cases "dstate (daemon w) = DLT_DAEMON_STATE_BUFFER_FULL")
    case True
    then show ?thesis using eq w1 rep by (auto simp: store_message_def Let_def)
  next
    case False
    let ?b = "client_ringbuffer (daemon w)"
    obtain rc b where p: "dlt_buffer_push3 (balloc env) (bpad env ?b) (Some ?b) d1 (length (arg_bytes d1)) d2 (length (arg_bytes d2)) None 0 = (rc, b)"
      by fastforce
    have "m = arg_bytes d1 @ arg_bytes d2 @ arg_bytes None" "0 = length (arg_bytes None)" using m(1) by (simp_all add: arg_bytes_def)
    from push3_rep [OF rep env(1) spec [OF env(2)] this(1) refl refl this(2) m(3,2) p]
    obtain b' where "b = Some b'" "rc = 0 \<and> buffer_rep b' (ms @ [m]) \<or> rc = - 1 \<and> buffer_rep b' ms" by blast
    with eq w1 p False show ?thesis by (auto simp: store_message_def Let_def)
  qed
qed

text \<open>
  C7. When the first client connects, the ring buffer is sent to it completely: every stored
  message goes to every client, in the order in which it was stored, the ring buffer is empty
  afterwards and the daemon sends directly. The static buffer of the function is not overrun
  when no message is longer than it, and one unit of fuel per message is enough.
\<close>

theorem ringbuffer_sent_in_order:
  assumes "all_ok env (client_fds (pEvent (wlocal w)))" "table_ok (pEvent (wlocal w))" "external w"
    and "overflow_counter (daemon w) = 0" "client_fds (pEvent (wlocal w)) \<noteq> []" "alloc_ok (balloc env)"
    and "buffer_rep (client_ringbuffer (daemon w)) ms" "\<forall>m \<in> set ms. m \<noteq> [] \<and> length m \<le> length dta"
    and "length ms < n"
  shows "\<exists>w' dta'. dlt_daemon_send_ringbuffer_to_client n env w dta = Some (0, w', dta') \<and>
    out w' = out w @ concat (map (\<lambda>m. sent_to (sendserialheader (daemon w)) (Some m) None (client_fds (pEvent (wlocal w)))) ms) \<and>
    dstate (daemon w') = DLT_DAEMON_STATE_SEND_DIRECT \<and> buffer_rep (client_ringbuffer (daemon w')) [] \<and>
    wlocal w' = wlocal w \<and> length dta' = length dta"
proof (cases "ms = []")
  case True
  with assms(7) show ?thesis by (simp add: dlt_daemon_send_ringbuffer_to_client_def message_count_rep [of _ "[]"])
next
  case False
  then have "dlt_daemon_send_ringbuffer_to_client n env w dta = ringbuffer_loop n env w dta"
    using message_count_rep [OF assms(7)] by (simp add: dlt_daemon_send_ringbuffer_to_client_def)
  then show ?thesis using ringbuffer_loop_ok [OF assms(1-7) False assms(8,9)] by simp
qed

theorem ringbuffer_sent_in_order_witness:
  "\<exists>w' dta'. dlt_daemon_send_ringbuffer_to_client 2 (example_outside (\<lambda>_. True)) (example_world DLT_DAEMON_STATE_SEND_BUFFER 0) (replicate 10024 0)
      = Some (0, w', dta') \<and> out w' = [ToClient 7 [1, 2, 3], ToClient 8 [1, 2, 3]] \<and> dstate (daemon w') = DLT_DAEMON_STATE_SEND_DIRECT"
  using ringbuffer_sent_in_order [of "example_outside (\<lambda>_. True)" "example_world DLT_DAEMON_STATE_SEND_BUFFER 0" "[[1, 2, 3]]" "replicate 10024 0" 2]
  by (auto simp: example_world_simps example_outside_simps example_clients_ok example_filled_rep sent_to_def wire_def opt_list_def)

text \<open>
  C17. After messages were lost, a message that is sent directly to a connected client never
  returns: the report of the loss is sent with \<open>dlt_daemon_client_send\<close> before the counter is
  reset, finds the counter still set and sends the report again, without end. No amount of fuel
  gives a result.
\<close>

theorem overflow_report_diverges:
  assumes "all_ok env (client_fds (pEvent (wlocal w)))" "table_ok (pEvent (wlocal w))" "external w" "msg_alloc env"
    and "dstate (daemon w) = DLT_DAEMON_STATE_SEND_DIRECT"
    and "overflow_counter (daemon w) > 0" "client_connections (wlocal w) > 0"
  shows "\<forall>n. dlt_daemon_client_send n env w DLT_DAEMON_SEND_TO_ALL d1 d2 = None"
  using overflow_report_diverges_aux [OF assms] by blast

theorem overflow_report_diverges_witness:
  "\<forall>n. dlt_daemon_client_send n (example_outside (\<lambda>_. True)) (example_world DLT_DAEMON_STATE_SEND_DIRECT 1) DLT_DAEMON_SEND_TO_ALL
     (Some [1, 2]) None = None"
  using overflow_report_diverges [of "example_outside (\<lambda>_. True)" "example_world DLT_DAEMON_STATE_SEND_DIRECT 1" "Some [1, 2]" None]
  by (simp add: example_world_simps example_outside_simps example_clients_ok) (simp add: example_clients_def)

text \<open>
  When the write to a client fails, the client behind it in the poll table does not get the
  message: closing the socket moves the table down while the loop goes on to the next index. The
  client stays connected and gets the two messages about the disconnection, and the daemon
  reports success.
\<close>

theorem failed_client_skips_next:
  assumes "handler_ok (wlocal w)" "polled (pEvent (wlocal w)) = [f1, f2]" "f1 \<noteq> f2"
    and "find_con (connections (pEvent (wlocal w))) f1 = Some c1" "ctype c1 = DLT_CONNECTION_CLIENT_MSG_TCP" "status c1 = ACTIVE"
    and "find_con (connections (pEvent (wlocal w))) f2 = Some c2" "is_client (ctype c2)"
    and "\<forall>k. \<not> net env k f1 \<and> net env k f2 \<and> cut env k f1 = None \<and> cut env k f2 = None" "msg_alloc env"
    and "external w" "dstate (daemon w) = DLT_DAEMON_STATE_SEND_DIRECT" "overflow_counter (daemon w) = 0" "0 < n"
  shows "\<exists>w' m t1 t2. dlt_daemon_client_send (Suc n) env w DLT_DAEMON_SEND_TO_ALL (Some d) d2 = Some (0, w') \<and>
    client_fds (pEvent (wlocal w')) = [f2] \<and>
    out w' = out w @ offline_events env w (Some d) d2 @ [Closed f1] @
      offline_events env w (fst (message_parts m)) (snd (message_parts m)) @
      sent_to (sendserialheader (daemon w)) (fst (message_parts m)) (snd (message_parts m)) [f2] @
      offline_events env w t1 t2 @ sent_to (sendserialheader (daemon w)) t1 t2 [f2]"
  using assms by (rule failed_client_aux)

text \<open>
  C18. A control message of the daemon is a well-formed DLT message: the bytes that go to a client
  behind the serial header are read by \<open>dlt_message_read\<close> as one message with exactly the
  payload of the control message.
\<close>

theorem control_message_parses:
  assumes "readable_id (ecuid (daemon w))" "readable_id apid" "readable_id ctid" "length p \<le> 65000"
    and "length (headerbuffer msg) = 42" "databuffer_ok msg" "\<forall>k. \<exists>blk. alloc k = Some blk \<and> length blk = k"
  shows "\<exists>m d1 d2 bytes msg'. control_message env w (payload_msg p) apid ctid = Some m \<and> message_parts m = (d1, d2) \<and>
    bytes = concat (wire True d1 d2) \<and>
    dlt_message_read alloc (Some msg) (Some bytes) (length bytes) False = (0, Some msg') \<and>
    found_serialheader msg' \<and> datasize msg' = int (length p) \<and> take (length p) (the (databuffer msg')) = p"
proof -
  obtain m extra h where m: "control_message env w (payload_msg p) apid ctid = Some m" "length extra = extra_len 0x35"
    "message_parts m = (Some h, Some p)" "h @ p = dlt_frame 0x35 0 extra p"
    using control_message_frame [OF assms(1-4), of env] by blast
  let ?b = "dltSerialHeader @ h @ p" and ?m = "msg\<lparr>resync_offset := 0, found_serialheader := True\<rparr>"
  have ls: "length dltSerialHeader = 4" by (simp add: dltSerialHeader_def)
  have w: "concat (wire True (Some h) (Some p)) = ?b" by (simp add: wire_def opt_list_def)
  have e22: "extra_len 0x35 \<le> 22" by (rule extra_len_le)
  have "databuffer_ok ?m" using databuffer_ok_cong [OF assms(6)] by simp
  moreover have "\<exists>blk. alloc (length p) = Some blk \<and> length blk = length p" using assms(7) by blast
  moreover have "length (headerbuffer ?m) = 42" using assms(5) by simp
  moreover have "4 + length extra + length p < 65536" using assms(4) e22 m(2) by simp
  moreover have "h @ p = dlt_frame 0x35 0 extra p @ []" using m(4) by simp
  ultimately obtain msg' where "read_body alloc ?m (h @ p) (length (h @ p)) = (0, msg')" "found_serialheader msg' = found_serialheader ?m"
    "datasize msg' = int (length p)" "take (length p) (the (databuffer msg')) = p"
    using read_body_frame [of ?m alloc p extra "0x35" "h @ p" 0 "[]"] m(2) by blast
  moreover have "read_sync (msg\<lparr>resync_offset := 0\<rparr>) ?b (length ?b) False = (?m, h @ p, length (h @ p))"
    using ls by (simp add: read_sync_def memget_def)
  ultimately have "dlt_message_read alloc (Some msg) (Some ?b) (length ?b) False = (0, Some msg')"
    using ls by (simp add: dlt_message_read_def)
  then show ?thesis using m w \<open>found_serialheader msg' = _\<close> \<open>datasize msg' = _\<close> \<open>take _ _ = p\<close> by auto
qed

theorem control_message_parses_witness:
  "\<exists>m d1 d2 bytes msg'. control_message (example_outside (\<lambda>_. True)) (example_world DLT_DAEMON_STATE_INIT 0) (payload_msg (overflow_payload 3)) [0] [0] = Some m \<and>
    message_parts m = (d1, d2) \<and> bytes = concat (wire True d1 d2) \<and>
    dlt_message_read (\<lambda>k. Some (replicate k 0)) (Some zero_msg) (Some bytes) (length bytes) False = (0, Some msg') \<and>
    take 10 (the (databuffer msg')) = overflow_payload 3"
proof -
  have l: "length (overflow_payload 3) = 10" by (simp add: overflow_payload_def)
  have "length (headerbuffer zero_msg) = 42" "databuffer_ok zero_msg" by (simp_all add: zero_msg_def databuffer_ok_def)
  with control_message_parses [of "example_world DLT_DAEMON_STATE_INIT 0" "[0]" "[0]" "overflow_payload 3" zero_msg
      "\<lambda>k. Some (replicate k 0)" "example_outside (\<lambda>_. True)"] l
  show ?thesis by (simp add: example_world_simps readable_id_def) blast
qed

text \<open>
  \<open>dlt_daemon_socket_sendreliable\<close> reports success only when the chunks given to \<open>send\<close>, in
  order and whatever their sizes were, are exactly the message; when it reports a failure a
  proper prefix of the message was handed over.
\<close>

theorem sendreliable_complete:
  assumes "dlt_daemon_socket_sendreliable dta answers = Some (rc, chunks)"
  shows "rc = 0 \<and> concat chunks = dta \<or> rc = - 3 \<and> (\<exists>rest. rest \<noteq> [] \<and> concat chunks @ rest = dta)"
  using sendreliable_loop_bytes [of dta 0 answers rc chunks] assms by (simp add: dlt_daemon_socket_sendreliable_def)

end
