(* ===== verification/Tables_Files.thy ===== *)
theory Tables_Files
  imports Daemon_Registry Daemon_Send
begin

text \<open>
  The files in which the daemon keeps its applications, its contexts and its logging mode
  (\<open>src/daemon/dlt_daemon_common.c\<close>): what is written and how the lines are split and read back with
  \<open>fgets\<close>, \<open>strtok\<close> and \<open>sscanf\<close>. A file is the list of its bytes, None when it cannot be opened.
  Reading is without errors.
\<close>

section \<open>Lines and tokens\<close>

abbreviation (input) DLT_DAEMON_COMMON_TEXTBUFSIZE :: nat where "DLT_DAEMON_COMMON_TEXTBUFSIZE \<equiv> 255"
abbreviation (input) colon :: byte where "colon \<equiv> 0x3A"
abbreviation (input) newline :: byte where "newline \<equiv> 0x0A"

text \<open>\<open>fgets\<close> with a buffer of \<open>n\<close> bytes on a file that is not at its end: the line and the rest.\<close>

definition fgets_line :: "nat \<Rightarrow> byte list \<Rightarrow> byte list \<times> byte list" where
  "fgets_line n f =
     (let k = min (n - 1) (length (takeWhile (\<lambda>b. b \<noteq> newline) f) + 1) in (take k f, drop k f))"

text \<open>\<open>strtok\<close> on what is left of the string: the token and what is left behind it.\<close>

definition strtok :: "byte list \<Rightarrow> byte list \<Rightarrow> (byte list \<times> byte list) option" where
  "strtok delims s =
     (let s1 = dropWhile (\<lambda>b. b \<in> set delims) s
      in if s1 = [] then None
         else Some (takeWhile (\<lambda>b. b \<notin> set delims) s1, drop 1 (dropWhile (\<lambda>b. b \<notin> set delims) s1)))"

definition is_digit :: "byte \<Rightarrow> bool" where
  "is_digit b \<longleftrightarrow> 0x30 \<le> b \<and> b \<le> 0x39"

definition digits_value :: "byte list \<Rightarrow> int" where
  "digits_value ds = foldl (\<lambda>v b. 10 * v + (uint b - 48)) 0 ds"

text \<open>The conversion \<open>%d\<close>; None when there is no number.\<close>

definition scan_int :: "byte list \<Rightarrow> int option" where
  "scan_int s =
     (let s1 = dropWhile (\<lambda>b. b = 0x20 \<or> 9 \<le> b \<and> b \<le> 0x0D) s;
          negative = (s1 \<noteq> [] \<and> hd s1 = 0x2D);
          s2 = (if s1 \<noteq> [] \<and> (hd s1 = 0x2D \<or> hd s1 = 0x2B) then tl s1 else s1);
          ds = takeWhile is_digit s2
      in if ds = [] then None else Some (i32 (if negative then - digits_value ds else digits_value ds)))"

section \<open>Applications\<close>

definition application_line :: "DltDaemonApplication \<Rightarrow> byte list" where
  "application_line a =
     (let apid = c_string (id4 (a_apid a))
      in case a_description a of
           Some t \<Rightarrow> if c_string t \<noteq> [] then apid @ [colon] @ c_string t @ [colon, newline] else apid @ [colon, colon, newline]
         | None \<Rightarrow> apid @ [colon, colon, newline])"

text \<open>The result is the return value and the new content of the file, or None when it is not written.\<close>

definition dlt_daemon_applications_save :: "bool \<Rightarrow> daemon_users \<Rightarrow> byte list option \<Rightarrow> int \<times> byte list option" where
  "dlt_daemon_applications_save open_ok d filename =
     (case filename of None \<Rightarrow> (- 1, None)
      | Some nm \<Rightarrow>
        if c_string nm = [] then (- 1, None)
        else case dlt_daemon_find_users_list d (own_ecuid d) of
               None \<Rightarrow> (- 1, None)
             | Some u \<Rightarrow>
               (0, if applications (user_list d ! u) \<noteq> [] \<and> open_ok
                   then Some (concat (map application_line (applications (user_list d ! u)))) else None))"

text \<open>One line; the Boolean is False when the application cannot be added.\<close>

definition load_application_line :: "table_env \<Rightarrow> daemon_users \<Rightarrow> byte list \<Rightarrow> bool \<times> daemon_users" where
  "load_application_line env d line =
     (case strtok [colon] (c_string line) of
        None \<Rightarrow> (True, d)
      | Some (t1, s1) \<Rightarrow>
        let apid = the (dlt_set_id (Some [0, 0, 0, 0]) (Some (t1 @ [0])))
        in case strtok [colon] s1 of
             None \<Rightarrow> (True, d)
           | Some (t2, s2) \<Rightarrow>
             (case dlt_daemon_application_add env d apid 0 (Some t2) (- 1) (own_ecuid d) of
                (r, d', _) \<Rightarrow> (r \<noteq> None, d')))"

lemma fgets_rest: "f \<noteq> [] \<Longrightarrow> 2 \<le> n \<Longrightarrow> length (snd (fgets_line n f)) < length f"
  by (cases f) (auto simp: fgets_line_def Let_def)

function load_lines :: "('s \<Rightarrow> byte list \<Rightarrow> bool \<times> 's) \<Rightarrow> byte list \<Rightarrow> 's \<Rightarrow> int \<times> 's" where
  "load_lines load f s =
     (if f = [] then (0, s)
      else case load s (fst (fgets_line DLT_DAEMON_COMMON_TEXTBUFSIZE f)) of
             (ok, s') \<Rightarrow> if ok then load_lines load (snd (fgets_line DLT_DAEMON_COMMON_TEXTBUFSIZE f)) s' else (- 1, s'))"
  by pat_completeness auto
termination by (relation "measure (\<lambda>(_, f, _). length f)") (simp_all add: fgets_rest)

declare load_lines.simps [simp del]

definition dlt_daemon_applications_load :: "table_env \<Rightarrow> daemon_users \<Rightarrow> byte list option \<Rightarrow> byte list option \<Rightarrow> int \<times> daemon_users" where
  "dlt_daemon_applications_load env d filename file =
     (case filename of None \<Rightarrow> (- 1, d)
      | Some nm \<Rightarrow>
        if c_string nm = [] then (- 1, d)
        else case file of None \<Rightarrow> (- 1, d) | Some f \<Rightarrow> load_lines (load_application_line env) f d)"

section \<open>Contexts\<close>

definition context_line :: "DltDaemonContext \<Rightarrow> byte list" where
  "context_line x =
     c_string (id4 (x_apid x)) @ [colon] @ c_string (id4 (x_ctid x)) @ [colon] @ dec_int (x_log_level x) @ [colon] @ dec_int (x_trace_status x) @ [colon] @
     (case x_description x of Some t \<Rightarrow> if c_string t \<noteq> [] then c_string t @ [colon, newline] else [colon, newline] | None \<Rightarrow> [colon, newline])"

definition dlt_daemon_contexts_save :: "bool \<Rightarrow> daemon_users \<Rightarrow> byte list option \<Rightarrow> int \<times> byte list option" where
  "dlt_daemon_contexts_save open_ok d filename =
     (case filename of None \<Rightarrow> (- 1, None)
      | Some nm \<Rightarrow>
        if c_string nm = [] then (- 1, None)
        else case dlt_daemon_find_users_list d (own_ecuid d) of
               None \<Rightarrow> (- 1, None)
             | Some u \<Rightarrow>
               (0, if contexts (user_list d ! u) \<noteq> [] \<and> open_ok
                   then Some (concat (map context_line (contexts (user_list d ! u)))) else None))"

text \<open>
  The variables \<open>ll\<close> and \<open>ts\<close> are not initialised and keep their values from line to line, also
  when a number cannot be read; they are part of the state of the loop.
\<close>

definition load_context_line :: "table_env \<Rightarrow> daemon_users \<times> int \<times> int \<Rightarrow> byte list \<Rightarrow> bool \<times> daemon_users \<times> int \<times> int" where
  "load_context_line env p line =
     (case p of (d, ll, ts) \<Rightarrow>
        (case strtok [colon] (c_string line) of
           None \<Rightarrow> (True, p)
         | Some (t1, s1) \<Rightarrow>
        (case strtok [colon] s1 of
           None \<Rightarrow> (True, p)
         | Some (t2, s2) \<Rightarrow>
        (case strtok [colon] s2 of
           None \<Rightarrow> (True, p)
         | Some (t3, s3) \<Rightarrow>
           let ll1 = (case scan_int t3 of None \<Rightarrow> ll | Some v \<Rightarrow> v)
           in (case strtok [colon] s3 of
                 None \<Rightarrow> (True, d, ll1, ts)
               | Some (t4, s4) \<Rightarrow>
                 let ts1 = (case scan_int t4 of None \<Rightarrow> ts | Some v \<Rightarrow> v)
                 in (case strtok [colon] s4 of
                       None \<Rightarrow> (True, d, ll1, ts1)
                     | Some (t5, s5) \<Rightarrow>
                       (case dlt_daemon_context_add env d (the (dlt_set_id (Some [0, 0, 0, 0]) (Some (t1 @ [0]))))
                               (the (dlt_set_id (Some [0, 0, 0, 0]) (Some (t2 @ [0])))) (i8 ll1) (i8 ts1) 0 0 (Some t5) (own_ecuid d) of
                          (r, d') \<Rightarrow> (r \<noteq> None, d', ll1, ts1))))))))"

definition dlt_daemon_contexts_load ::
  "table_env \<Rightarrow> int \<times> int \<Rightarrow> daemon_users \<Rightarrow> byte list option \<Rightarrow> byte list option \<Rightarrow> int \<times> daemon_users" where
  "dlt_daemon_contexts_load env junk d filename file =
     (case filename of None \<Rightarrow> (- 1, d)
      | Some nm \<Rightarrow>
        if c_string nm = [] then (- 1, d)
        else case file of
               None \<Rightarrow> (- 1, d)
             | Some f \<Rightarrow> (case load_lines (load_context_line env) f (d, junk) of (r, d', _) \<Rightarrow> (r, d')))"

section \<open>Configuration\<close>

definition dlt_daemon_configuration_save :: "bool \<Rightarrow> int \<Rightarrow> byte list option \<Rightarrow> int \<times> byte list option" where
  "dlt_daemon_configuration_save open_ok mode filename =
     (case filename of None \<Rightarrow> (- 1, None)
      | Some nm \<Rightarrow>
        if c_string nm = [] then (- 1, None)
        else (0, if open_ok
                 then Some (map of_char ''# 0 = off, 1 = external, 2 = internal, 3 = both'' @ [newline] @
                            map of_char ''LoggingMode = '' @ dec_int mode @ [newline])
                 else None))"

text \<open>The first two words of a line before a \<open>#\<close>.\<close>

definition config_delims :: "byte list" where "config_delims = [0x20, 0x3D, 0x0D, 0x0A]"

definition config_words :: "byte list \<Rightarrow> (byte list \<times> byte list) option" where
  "config_words line =
     (case strtok config_delims (c_string line) of
        None \<Rightarrow> None
      | Some (w1, s1) \<Rightarrow>
        if w1 = [0x23] then None
        else case strtok config_delims s1 of
               None \<Rightarrow> None
             | Some (w2, s2) \<Rightarrow> if w2 = [0x23] then None else Some (w1, w2))"

function configuration_loop :: "byte list \<Rightarrow> int \<Rightarrow> int" where
  "configuration_loop f mode =
     (if f = [] then mode
      else configuration_loop (snd (fgets_line 1024 f))
             (case config_words (fst (fgets_line 1024 f)) of
                None \<Rightarrow> mode
              | Some (w1, w2) \<Rightarrow>
                if w1 = map of_char ''LoggingMode'' then (case scan_int w2 of None \<Rightarrow> 0 | Some v \<Rightarrow> v) else mode))"
  by pat_completeness auto
termination by (relation "measure (\<lambda>(f, _). length f)") (simp_all add: fgets_rest)

declare configuration_loop.simps [simp del]

definition dlt_daemon_configuration_load :: "int \<Rightarrow> byte list option \<Rightarrow> byte list option \<Rightarrow> int \<times> int" where
  "dlt_daemon_configuration_load mode filename file =
     (case filename of None \<Rightarrow> (- 1, mode)
      | Some _ \<Rightarrow> (0, case file of None \<Rightarrow> mode | Some f \<Rightarrow> configuration_loop f mode))"

section \<open>Reading back lines\<close>

lemma fgets_line_whole:
  assumes "newline \<notin> set l" "length l + 1 < n"
  shows "fgets_line n (l @ newline # rest) = (l @ [newline], rest)"
proof -
  have "takeWhile (\<lambda>b. b \<noteq> newline) (l @ newline # rest) = l"
    using assms(1) by (subst takeWhile_append2) auto
  moreover have "min (n - 1) (length l + 1) = length l + 1" using assms(2) by simp
  ultimately show ?thesis by (simp add: fgets_line_def Let_def)
qed

lemma strtok_field:
  assumes "t \<noteq> []" "set t \<inter> set delims = {}" "c \<in> set delims"
  shows "strtok delims (t @ c # rest) = Some (t, rest)"
proof -
  have "dropWhile (\<lambda>b. b \<in> set delims) (t @ c # rest) = t @ c # rest" using assms by (cases t) auto
  moreover have "takeWhile (\<lambda>b. b \<notin> set delims) (t @ c # rest) = t" using assms by (subst takeWhile_append2) auto
  moreover have "dropWhile (\<lambda>b. b \<notin> set delims) (t @ c # rest) = c # rest" using assms by (subst dropWhile_append2) auto
  ultimately show ?thesis by (simp add: strtok_def)
qed

lemma c_string_id: "0 \<notin> set s \<Longrightarrow> c_string s = s"
  by (simp add: c_string_def takeWhile_eq_all_conv) metis

lemma c_string_valid:
  assumes "valid_id i"
  shows "c_string i \<noteq> []" "set (c_string i) \<subseteq> set i" "length (c_string i) \<le> 4" "dlt_set_id (Some [0, 0, 0, 0]) (Some (c_string i @ [0])) = Some i"
proof -
  have i: "length i = 4" "id4 i = i" "i ! 0 \<noteq> 0" using assms by (simp_all add: valid_id_def)
  then show "c_string i \<noteq> []" by (cases i) (auto simp: c_string_def)
  show "set (c_string i) \<subseteq> set i" by (auto simp: c_string_def dest: set_takeWhileD)
  show le: "length (c_string i) \<le> 4" using length_takeWhile_le [of "\<lambda>b. b \<noteq> 0" i] i(1) by (simp add: c_string_def)
  have tw: "takeWhile (\<lambda>b. b \<noteq> 0) (take 4 (c_string i @ [0])) = c_string i"
  proof (cases "length (c_string i) = 4")
    case True
    then show ?thesis by (simp add: c_string_def)
  next
    case False
    then have "take 4 (c_string i @ [0]) = c_string i @ [0]" using le by simp
    moreover have "takeWhile (\<lambda>b. b \<noteq> 0) (c_string i @ [0]) = c_string i"
      by (subst takeWhile_append2) (auto simp: c_string_def dest: set_takeWhileD)
    ultimately show ?thesis by simp
  qed
  have "id4 (c_string i @ [0]) = id4 i" using tw i(1) by (simp add: id4_def c_string_def)
  then show "dlt_set_id (Some [0, 0, 0, 0]) (Some (c_string i @ [0])) = Some i"
    using set_id_id4 [of "[0, 0, 0, 0]" "c_string i @ [0]"] i(2) by (simp add: readable_id_def)
qed

text \<open>An application whose line in the file is read back: a short description without separators.\<close>

definition file_safe :: "DltDaemonApplication \<Rightarrow> bool" where
  "file_safe a \<longleftrightarrow> (\<exists>t. a_description a = Some t \<and> t \<noteq> [] \<and> length t \<le> 247 \<and> set t \<inter> {0, colon, newline} = {}) \<and>
     set (a_apid a) \<inter> {colon, newline} = {}"

lemma application_line_read:
  assumes "file_safe a" "valid_id (a_apid a)" "a_description a = Some t"
  shows "fgets_line 255 (application_line a @ rest) = (application_line a, rest)"
    and "load_application_line env d (application_line a) =
      (case dlt_daemon_application_add env d (a_apid a) 0 (Some t) (- 1) (own_ecuid d) of (r, d', _) \<Rightarrow> (r \<noteq> None, d'))"
proof -
  let ?i = "c_string (a_apid a)"
  have t: "t \<noteq> []" "length t \<le> 247" "0 \<notin> set t" "colon \<notin> set t" "newline \<notin> set t" using assms by (auto simp: file_safe_def)
  note i = c_string_valid [OF assms(2)]
  have sep: "colon \<notin> set ?i" "newline \<notin> set ?i" using assms(1) i(2) by (auto simp: file_safe_def)
  have zero: "0 \<notin> set ?i" by (auto simp: c_string_def dest: set_takeWhileD)
  have line: "application_line a = (?i @ colon # t @ [colon]) @ [newline]"
    using assms(2,3) t c_string_id [OF t(3)] by (simp add: application_line_def Let_def valid_id_def)
  show "fgets_line 255 (application_line a @ rest) = (application_line a, rest)"
    using fgets_line_whole [of "?i @ colon # t @ [colon]" 255 rest] t sep i(3) by (simp add: line)
  have "c_string (application_line a) = ?i @ colon # t @ colon # [newline]"
    using c_string_id [of "application_line a"] zero t by (simp add: line)
  moreover have "strtok [colon] (?i @ colon # t @ colon # [newline]) = Some (?i, t @ colon # [newline])"
    using i(1) sep by (intro strtok_field) auto
  moreover have "strtok [colon] (t @ colon # [newline]) = Some (t, [newline])" using t by (intro strtok_field) auto
  ultimately show "load_application_line env d (application_line a) =
      (case dlt_daemon_application_add env d (a_apid a) 0 (Some t) (- 1) (own_ecuid d) of (r, d', _) \<Rightarrow> (r \<noteq> None, d'))"
    using i(4) by (simp add: load_application_line_def)
qed

lemma own_ecuid_parts [simp]:
  "own_ecuid (set_application d u i f) = own_ecuid d"
  "own_ecuid (fst (dlt_daemon_application_reset_user_handle d u i)) = own_ecuid d"
  "own_ecuid (snd (dlt_daemon_applications_invalidate_fd d e h)) = own_ecuid d"
  "own_ecuid (snd (dlt_daemon_contexts_invalidate_fd d e h)) = own_ecuid d"
  by (simp_all add: set_application_def dlt_daemon_application_reset_user_handle_def dlt_daemon_applications_invalidate_fd_def
      dlt_daemon_contexts_invalidate_fd_def Let_def split: option.split)

lemma own_ecuid_connect [simp]: "own_ecuid (fst (application_connect env d u i p f e)) = own_ecuid d"
  by (simp add: application_connect_def Let_def split_beta)

lemma own_ecuid_slot: "application_slot env d u apid e = Some (d2, i, new) \<Longrightarrow> own_ecuid d2 = own_ecuid d"
  by (auto simp: application_slot_def Let_def split: option.splits if_splits)

lemma own_ecuid_add: "own_ecuid (fst (snd (dlt_daemon_application_add env d apid p desc f e))) = own_ecuid d"
  using own_ecuid_slot by (auto simp: dlt_daemon_application_add_def Let_def split_beta split: option.split)

lemma load_step:
  assumes ok: "tables_ok d" "dlt_daemon_find_users_list d (own_ecuid d) = Some u"
    and env: "table_env_ok env" "first_alloc env" "grow_alloc env" "desc_alloc env"
    and a: "file_safe a" "valid_id (a_apid a)"
  shows "\<exists>d'. load_application_line env d (application_line a) = (True, d') \<and> tables_ok d' \<and> own_ecuid d' = own_ecuid d \<and>
    dlt_daemon_find_users_list d' (own_ecuid d) = Some u \<and>
    set (app_texts d' u) = insert (a_apid a, a_description a) {t \<in> set (app_texts d u). fst t \<noteq> a_apid a}"
proof -
  obtain t where t: "a_description a = Some t" using a(1) by (auto simp: file_safe_def)
  obtain r d' c where r: "dlt_daemon_application_add env d (a_apid a) 0 (Some t) (- 1) (own_ecuid d) = (r, d', c)" by (metis prod_cases3)
  note s = application_add_spec [OF ok(1) env(1) a(2) ok(2) disjI1 [OF env(4)] r]
  obtain i where "r = Some i" "app_added d u (a_apid a) 0 (Some t) i d'" using s env by (auto split: option.splits)
  moreover have "own_ecuid d' = own_ecuid d" using own_ecuid_add [of env d "a_apid a" 0 "Some t" "- 1" "own_ecuid d"] r by simp
  ultimately show ?thesis using s r application_line_read(2) [OF a t] by (simp add: t app_added_def)
qed

lemma load_all:
  assumes "tables_ok d" "dlt_daemon_find_users_list d (own_ecuid d) = Some u"
    and env: "table_env_ok env" "first_alloc env" "grow_alloc env" "desc_alloc env"
    and "\<forall>a \<in> set as. file_safe a \<and> valid_id (a_apid a)" "distinct (map a_apid as)"
  shows "\<exists>d'. load_lines (load_application_line env) (concat (map application_line as)) d = (0, d') \<and> tables_ok d' \<and> own_ecuid d' = own_ecuid d \<and>
    dlt_daemon_find_users_list d' (own_ecuid d) = Some u \<and>
    set (app_texts d' u) = (\<lambda>a. (a_apid a, a_description a)) ` set as \<union> {t \<in> set (app_texts d u). fst t \<notin> a_apid ` set as}"
  using assms(1,2,7,8)
proof (induction as arbitrary: d)
  case (Cons a as)
  have a: "file_safe a" "valid_id (a_apid a)" using Cons.prems by simp_all
  then obtain t where t: "a_description a = Some t" by (auto simp: file_safe_def)
  obtain d1 where d1: "load_application_line env d (application_line a) = (True, d1)" "tables_ok d1" "own_ecuid d1 = own_ecuid d"
    "dlt_daemon_find_users_list d1 (own_ecuid d) = Some u"
    "set (app_texts d1 u) = insert (a_apid a, a_description a) {t \<in> set (app_texts d u). fst t \<noteq> a_apid a}"
    using load_step [OF Cons.prems(1,2) env a] by auto
  obtain d' where d': "load_lines (load_application_line env) (concat (map application_line as)) d1 = (0, d')" "tables_ok d'"
    "own_ecuid d' = own_ecuid d" "dlt_daemon_find_users_list d' (own_ecuid d) = Some u"
    "set (app_texts d' u) = (\<lambda>a. (a_apid a, a_description a)) ` set as \<union> {t \<in> set (app_texts d1 u). fst t \<notin> a_apid ` set as}"
    using Cons.IH [of d1] Cons.prems d1 by auto
  have "application_line a \<noteq> []" using t by (simp add: application_line_def Let_def)
  then have "load_lines (load_application_line env) (concat (map application_line (a # as))) d = (0, d')"
    using application_line_read(1) [OF a t, of "concat (map application_line as)"] d1(1) d'(1) by (subst load_lines.simps) simp
  moreover have "set (app_texts d' u) = (\<lambda>a. (a_apid a, a_description a)) ` set (a # as) \<union>
      {t \<in> set (app_texts d u). fst t \<notin> a_apid ` set (a # as)}"
    unfolding d'(5) d1(5) using Cons.prems(4) by auto
  ultimately show ?case using d'(2-4) by auto
qed (simp add: load_lines.simps)

lemma same_texts:
  assumes "tables_ok d0" "u0 < length (user_list d0)" "tables_ok d1" "u1 < length (user_list d1)"
    and s: "set (app_texts d1 u1) = set (app_texts d0 u0)"
  shows "app_texts d1 u1 = app_texts d0 u0"
proof -
  let ?k = "\<lambda>t. be_val (fst t :: byte list)"
  have sorted: "sorted_wrt (<) (map ?k (app_texts d u))" if "tables_ok d" "u < length (user_list d)" for d u
    using users_ok_of [OF that] by (simp add: users_ok_def apps.table_def app_texts_def sorted_wrt_map akey_def)
  have "map ?k (app_texts d1 u1) = map ?k (app_texts d0 u0)"
    using sorted [OF assms(1,2)] sorted [OF assms(3,4)] s by (intro strict_sorted_equal) simp_all
  moreover have "inj_on ?k (set (app_texts d0 u0))"
    using sorted [OF assms(1,2)] by (simp add: strict_sorted_iff distinct_map)
  ultimately show ?thesis using s by (intro map_inj_on [of ?k]) simp_all
qed

section \<open>Numbers\<close>

lemma digit_byte:
  assumes "n < 10"
  shows "is_digit (of_nat (48 + n))" "uint (of_nat (48 + n) :: byte) = int n + 48"
proof -
  have "uint (of_nat k :: byte) = int k" if "k < 256" for k using that by (simp add: unsigned_of_nat take_bit_nat_eq_self)
  from this [of "48 + n"] have u: "uint (of_nat (48 + n) :: byte) = int n + 48" using assms by (simp del: of_nat_add)
  then show "uint (of_nat (48 + n) :: byte) = int n + 48" .
  show "is_digit (of_nat (48 + n))" using assms u by (simp add: is_digit_def word_le_def del: of_nat_add)
qed

lemma dec_nat_digits: "dec_nat n \<noteq> [] \<and> (\<forall>b \<in> set (dec_nat n). is_digit b) \<and> digits_value (dec_nat n) = int n"
proof (induction n rule: dec_nat.induct)
  case (1 n)
  show ?case
  proof (cases "n < 10")
    case True
    then show ?thesis using digit_byte [OF True] by (subst (1 2 3) dec_nat.simps) (simp add: digits_value_def)
  next
    case False
    have m: "n mod 10 < 10" by simp
    have d: "dec_nat n = dec_nat (n div 10) @ [of_nat (48 + n mod 10)]" using False by (subst dec_nat.simps) simp
    have "digits_value (dec_nat n) = 10 * digits_value (dec_nat (n div 10)) + int (n mod 10)"
      using digit_byte(2) [OF m] by (simp add: d digits_value_def del: of_nat_add of_nat_mod)
    also have "\<dots> = 10 * int (n div 10) + int (n mod 10)" using 1 False by simp
    also have "\<dots> = int n" by (metis mult_div_mod_eq of_nat_add of_nat_mult of_nat_numeral)
    finally show ?thesis using 1 False digit_byte(1) [OF m] d by auto
  qed
qed

lemma scan_dec_int:
  assumes "- 2147483648 \<le> m" "m < 2147483648"
  shows "scan_int (dec_int m) = Some m"
proof -
  have all: "takeWhile is_digit (dec_nat n) = dec_nat n" for n using dec_nat_digits [of n] by (simp add: takeWhile_eq_all_conv)
  show ?thesis
  proof (cases "m < 0")
    case True
    have "dropWhile (\<lambda>b. b = 0x20 \<or> 9 \<le> b \<and> b \<le> (0x0D :: byte)) (0x2D # dec_nat (nat (- m))) = 0x2D # dec_nat (nat (- m))"
      by simp
    then show ?thesis using True dec_nat_digits [of "nat (- m)"] assms by (simp add: scan_int_def dec_int_def cconv all Let_def)
  next
    case False
    obtain b bs where b: "dec_nat (nat m) = b # bs" "is_digit b" using dec_nat_digits [of "nat m"] by (cases "dec_nat (nat m)") auto
    then have ne: "b \<noteq> 0x20" "\<not> b \<le> 0x0D" "b \<noteq> 0x2D" "b \<noteq> 0x2B" using order.trans [of "0x30 :: byte" b "0x0D"] by (auto simp: is_digit_def)
    then have "dropWhile (\<lambda>b. b = 0x20 \<or> 9 \<le> b \<and> b \<le> (0x0D :: byte)) (dec_nat (nat m)) = dec_nat (nat m)" using b by simp
    moreover have tw: "takeWhile is_digit bs = bs" using dec_nat_digits [of "nat m"] b(1) by (simp add: takeWhile_eq_all_conv)
    ultimately show ?thesis using False dec_nat_digits [of "nat m"] assms ne
      by (simp only: scan_int_def dec_int_def Let_def b(1) if_False list.sel) (simp add: cconv tw)
  qed
qed

lemma config_comment: "config_words (map of_char ''# 0 = off, 1 = external, 2 = internal, 3 = both'' @ [newline]) = None"
  by code_simp

lemma config_mode:
  "config_words (map of_char ''LoggingMode = '' @ dec_int m @ [newline]) = Some (map of_char ''LoggingMode'', dec_int m)"
proof -
  have digit: "b \<noteq> 0 \<and> b \<noteq> 0x20 \<and> b \<noteq> 0x3D \<and> b \<noteq> 0x0D \<and> b \<noteq> 0x0A \<and> b \<noteq> 0x23" if "is_digit b" for b
    using that by (auto simp: is_digit_def)
  have dig: "\<forall>b \<in> set (dec_int m). (is_digit b \<or> b = 0x2D)" "dec_int m \<noteq> []"
    using dec_nat_digits by (auto simp: dec_int_def)
  have e: "b \<noteq> 0 \<and> b \<noteq> 0x20 \<and> b \<noteq> 0x3D \<and> b \<noteq> 0x0D \<and> b \<noteq> 0x0A \<and> b \<noteq> 0x23" if "b \<in> set (dec_int m)" for b
  proof -
    have "is_digit b \<or> b = 0x2D" using dig(1) that by blast
    then show ?thesis using digit [of b] by auto
  qed
  have free: "set (dec_int m) \<inter> set config_delims = {}" "0 \<notin> set (dec_int m)" "dec_int m \<noteq> [0x23]"
    using e [of "0"] e [of "0x20"] e [of "0x3D"] e [of "0x0D"] e [of "0x0A"] e [of "0x23"] by (auto simp: config_delims_def)
  have w: "set (map of_char ''LoggingMode'' :: byte list) \<inter> set config_delims = {}" "(map of_char ''LoggingMode'' :: byte list) \<noteq> []"
      "0 \<notin> set (map of_char ''LoggingMode'' :: byte list)" "(map of_char ''LoggingMode'' :: byte list) \<noteq> [0x23]"
      "map of_char ''LoggingMode = '' = map of_char ''LoggingMode'' @ [0x20, 0x3D, 0x20 :: byte]"
    by code_simp+
  let ?w = "map of_char ''LoggingMode'' :: byte list"
  have "c_string (?w @ 0x20 # [0x3D, 0x20] @ dec_int m @ [newline]) = ?w @ 0x20 # [0x3D, 0x20] @ dec_int m @ [newline]"
    using w(3) free(2) by (intro c_string_id) auto
  moreover have "strtok config_delims (?w @ 0x20 # [0x3D, 0x20] @ dec_int m @ [newline]) = Some (?w, [0x3D, 0x20] @ dec_int m @ [newline])"
    using w by (intro strtok_field) (auto simp: config_delims_def)
  moreover have "strtok config_delims ([0x3D, 0x20] @ dec_int m @ [newline]) = strtok config_delims (dec_int m @ newline # [])"
    by (simp add: strtok_def config_delims_def)
  moreover have "strtok config_delims (dec_int m @ newline # []) = Some (dec_int m, [])"
    using free dig(2) by (intro strtok_field) (auto simp: config_delims_def)
  ultimately show ?thesis using w free by (simp add: config_words_def)
qed

lemma length_dec_nat: "n < 10 ^ Suc k \<Longrightarrow> length (dec_nat n) \<le> Suc k"
proof (induction k arbitrary: n)
  case 0
  then show ?case by (subst dec_nat.simps) simp
next
  case (Suc k)
  then have "n div 10 < 10 ^ Suc k" by (simp add: less_mult_imp_div_less mult.commute)
  then show ?case using Suc.IH [of "n div 10"] by (subst dec_nat.simps) simp
qed

lemma length_dec_int:
  assumes "- 2147483648 \<le> m" "m < 2147483648"
  shows "length (dec_int m) \<le> 11"
proof -
  have "nat m < 10000000000" "nat (- m) < 10000000000" using assms by linarith+
  then show ?thesis using length_dec_nat [of "nat m" 9] length_dec_nat [of "nat (- m)" 9] by (simp add: dec_int_def)
qed

lemma newline_free: "newline \<notin> set (dec_int m)"
proof
  assume n: "newline \<in> set (dec_int m)"
  have "\<forall>b \<in> set (dec_int m). is_digit b \<or> b = 0x2D" using dec_nat_digits by (auto simp: dec_int_def)
  then have "is_digit newline" using n by fastforce
  then show False by (simp add: is_digit_def)
qed

lemma configuration_read:
  assumes m: "- 2147483648 \<le> m" "m < 2147483648"
  shows "configuration_loop (map of_char ''# 0 = off, 1 = external, 2 = internal, 3 = both'' @ [newline] @
    map of_char ''LoggingMode = '' @ dec_int m @ [newline]) mode = m"
proof -
  define l1 :: "byte list" where "l1 = map of_char ''# 0 = off, 1 = external, 2 = internal, 3 = both''"
  define l2 where "l2 = map of_char ''LoggingMode = '' @ dec_int m"
  have l1: "newline \<notin> set l1" "length l1 + 1 < 1024" unfolding l1_def by code_simp+
  have "newline \<notin> set (map of_char ''LoggingMode = '' :: byte list)" "length ''LoggingMode = '' = 14" by code_simp+
  then have l2: "newline \<notin> set l2" "length l2 + 1 < 1024" using newline_free length_dec_int [OF m] by (simp_all add: l2_def)
  note f1 = fgets_line_whole [OF l1, of "l2 @ [newline]"]
  note f2 = fgets_line_whole [OF l2, of "[]"]
  have w1: "config_words (l1 @ [newline]) = None" using config_comment by (simp add: l1_def)
  have w2: "config_words (l2 @ [newline]) = Some (map of_char ''LoggingMode'', dec_int m)" using config_mode by (simp add: l2_def)
  have "configuration_loop (l1 @ newline # l2 @ [newline]) mode = configuration_loop (l2 @ [newline]) mode"
    using f1 w1 by (subst configuration_loop.simps) simp
  also have "\<dots> = configuration_loop [] m"
    using f2 w2 scan_dec_int [OF m] by (subst configuration_loop.simps) simp
  also have "\<dots> = m" by (simp add: configuration_loop.simps)
  finally show ?thesis by (simp add: l1_def l2_def)
qed

text \<open>An application without a description comes back with one that is a line end.\<close>

lemma empty_description_read:
  assumes "a_description a = None" "valid_id (a_apid a)" "colon \<notin> set (a_apid a)"
  shows "load_application_line env d (application_line a) =
    (case dlt_daemon_application_add env d (a_apid a) 0 (Some [newline]) (- 1) (own_ecuid d) of (r, d', _) \<Rightarrow> (r \<noteq> None, d'))"
proof -
  let ?i = "c_string (a_apid a)"
  note i = c_string_valid [OF assms(2)]
  have zero: "0 \<notin> set ?i" by (auto simp: c_string_def dest: set_takeWhileD)
  have line: "application_line a = ?i @ colon # [colon, newline]"
    using assms(1,2) by (simp add: application_line_def Let_def valid_id_def)
  have "c_string (application_line a) = ?i @ colon # [colon, newline]" using c_string_id [of "application_line a"] zero by (simp add: line)
  moreover have "strtok [colon] (?i @ colon # [colon, newline]) = Some (?i, [colon, newline])"
    using i(1,2) assms(3) by (intro strtok_field) auto
  moreover have "strtok [colon] [colon, newline] = Some ([newline], [])" by (simp add: strtok_def)
  ultimately show ?thesis using i(4) by (simp add: load_application_line_def)
qed

section \<open>Properties\<close>

text \<open>
  C24. The file of the applications: when every description is a non-empty string of at most 247
  characters without separators, the daemon that loads the saved file into an empty table has
  the same applications with the same descriptions in the same order.
\<close>

theorem applications_file_roundtrip:
  assumes "tables_ok d0" "dlt_daemon_find_users_list d0 (own_ecuid d0) = Some u0" "applications (user_list d0 ! u0) \<noteq> []"
    and "\<forall>a \<in> set (applications (user_list d0 ! u0)). file_safe a"
    and "tables_ok d1" "dlt_daemon_find_users_list d1 (own_ecuid d1) = Some u1" "applications (user_list d1 ! u1) = []"
    and "table_env_ok env" "first_alloc env" "grow_alloc env" "desc_alloc env" "c_string nm \<noteq> []"
  shows "\<exists>file d2. dlt_daemon_applications_save True d0 (Some nm) = (0, Some file) \<and>
    dlt_daemon_applications_load env d1 (Some nm) (Some file) = (0, d2) \<and> tables_ok d2 \<and>
    map (\<lambda>a. (a_apid a, a_description a)) (applications (user_list d2 ! u1)) =
      map (\<lambda>a. (a_apid a, a_description a)) (applications (user_list d0 ! u0))"
proof -
  let ?as = "applications (user_list d0 ! u0)"
  have us: "users_ok (user_list d0 ! u0)" using users_ok_of [OF assms(1) find_users_bounds [OF assms(2)]] .
  have "distinct (map a_apid ?as)"
    using us apps.table_distinct [of ?as] by (auto simp: users_ok_def distinct_map akey_def inj_on_def)
  moreover have "\<forall>a \<in> set ?as. file_safe a \<and> valid_id (a_apid a)" using us assms(4) by (simp add: users_ok_def users_core_def)
  ultimately obtain d2 where d2: "load_lines (load_application_line env) (concat (map application_line ?as)) d1 = (0, d2)" "tables_ok d2"
      "dlt_daemon_find_users_list d2 (own_ecuid d1) = Some u1" "set (app_texts d2 u1) = set (app_texts d0 u0)"
    using load_all [where as = ?as, OF assms(5,6,8-11)] assms(7) by (auto simp: app_texts_def)
  have "app_texts d2 u1 = app_texts d0 u0"
    using same_texts [OF assms(1) find_users_bounds [OF assms(2)] d2(2) find_users_bounds [OF d2(3)] d2(4)] .
  then show ?thesis using d2(1,2) assms(2,3,12)
    by (simp add: dlt_daemon_applications_save_def dlt_daemon_applications_load_def app_texts_def)
qed

definition example_described :: daemon_users where
  "example_described = example_daemon\<lparr>user_list := [example_users\<lparr>applications := [example_app\<lparr>a_description := Some [0x78]\<rparr>], applications_cap := 500\<rparr>]\<rparr>"

lemma example_described_ok: "tables_ok example_described" "dlt_daemon_find_users_list example_described (own_ecuid example_described) = Some 0"
  "dlt_daemon_find_users_list example_daemon (own_ecuid example_daemon) = Some 0"
  using example_ids_valid
  by (simp_all add: example_app_def tables_ok_def example_daemon_def example_described_def example_users_def
      users_ok_def users_core_def cap_ok_def dlt_daemon_find_users_list_def apps.table_def app_wf_def)

theorem applications_file_roundtrip_witness:
  "\<exists>file d2. dlt_daemon_applications_save True example_described (Some [0x66]) = (0, Some file) \<and>
    dlt_daemon_applications_load example_table_env example_daemon (Some [0x66]) (Some file) = (0, d2) \<and>
    map (\<lambda>a. (a_apid a, a_description a)) (applications (user_list d2 ! 0)) = [([0x41, 0, 0, 0], Some [0x78])]"
proof -
  have "applications (user_list example_described ! 0) = [example_app\<lparr>a_description := Some [0x78]\<rparr>]" by (simp add: example_described_def)
  moreover have "file_safe (example_app\<lparr>a_description := Some [0x78]\<rparr>)" by (simp add: file_safe_def example_app_def)
  moreover have "applications (user_list example_daemon ! 0) = []" by (simp add: example_tables_ok example_users_def)
  ultimately show ?thesis
    using applications_file_roundtrip [OF example_described_ok(1,2) _ _ example_tables_ok(2) example_described_ok(3) _ example_tables_ok(1), of "[0x66]"]
    by (auto simp: example_table_env_def example_app_def c_string_def)
qed

text \<open>
  The logging mode survives the configuration file: whatever the mode was, loading the saved
  file sets it to the value that was saved.
\<close>

theorem configuration_roundtrip:
  assumes "- 2147483648 \<le> m" "m < 2147483648" "c_string nm \<noteq> []"
  shows "\<exists>file. dlt_daemon_configuration_save True m (Some nm) = (0, Some file) \<and>
    dlt_daemon_configuration_load mode (Some nm) (Some file) = (0, m)"
  using configuration_read [OF assms(1,2)] assms(3)
  by (simp add: dlt_daemon_configuration_save_def dlt_daemon_configuration_load_def)

end
