(* ===== verification/User_Log.thy ===== *)
theory User_Log
  imports Payload_Print Dlt_Buffer
begin

text \<open>
  The application side of a log message (\<open>src/lib/dlt_user.c\<close>): starting a message and writing
  its arguments into the message buffer. The theory shows that the writers stay inside the
  buffer, except for a string of 65535 bytes, that a truncated UTF-8 string ends between two
  characters, and that the printer of \<open>Payload_Print\<close> prints the arguments that were written.

  The state of the library is the record \<open>DltUser\<close>, the message under construction the record
  \<open>DltContextData\<close>. Both are passed and returned. Mutexes are left out: every function runs to
  its end before the next one starts.
\<close>

section \<open>Data\<close>

record DltContext =
  c_contextID :: "byte list"
  c_log_level_pos :: int
  c_log_level :: "int option"
  c_mcnt :: byte

text \<open>\<open>c_log_level\<close> is the value behind \<open>log_level_ptr\<close>, None for the null pointer.\<close>

record DltContextData =
  l_handle :: "DltContext option"
  l_buffer :: "byte list option"
  l_size :: int
  l_log_level :: int
  l_trace_status :: int
  l_args_num :: int
  l_description :: "byte list option"
  l_auto_timestamp :: bool
  l_user_timestamp :: int
  l_verbose_mode :: int

text \<open>\<open>u_contexts\<close> are the contexts of \<open>dlt_ll_ts\<close>: identifier and description.\<close>

record DltUser =
  u_initialised :: bool
  u_is_child :: bool
  u_ecuID :: "byte list"
  u_appID :: "byte list"
  u_log_handle :: int
  u_is_file :: bool
  u_is_daemon :: bool
  u_contexts :: "(byte list \<times> byte list option) list option"
  u_overflow_counter :: nat
  u_description :: "byte list option"
  u_verbose_mode :: int
  u_extended_non_verbose :: bool
  u_with_session_id :: bool
  u_with_timestamp :: bool
  u_with_ecu_id :: bool
  u_startup_buffer :: DltBuffer
  u_log_buf_len :: nat

definition is_verbose_mode :: "DltUser \<Rightarrow> DltContextData option \<Rightarrow> bool" where
  "is_verbose_mode u log \<longleftrightarrow>
     u_verbose_mode u = 1 \<or> (case log of None \<Rightarrow> False | Some l \<Rightarrow> l_verbose_mode l \<noteq> 0)"

section \<open>Starting a message\<close>

abbreviation (input) DLT_LOG_DEFAULT :: int where "DLT_LOG_DEFAULT \<equiv> - 1"
abbreviation (input) DLT_LOG_OFF :: int where "DLT_LOG_OFF \<equiv> 0"
abbreviation (input) DLT_LOG_MAX :: int where "DLT_LOG_MAX \<equiv> 7"

definition dlt_user_is_logLevel_enabled :: "DltContext option \<Rightarrow> int \<Rightarrow> int" where
  "dlt_user_is_logLevel_enabled ctx loglevel =
     (if loglevel < DLT_LOG_DEFAULT \<or> loglevel \<ge> DLT_LOG_MAX then DLT_RETURN_WRONG_PARAMETER
      else case ctx of None \<Rightarrow> DLT_RETURN_WRONG_PARAMETER
           | Some h \<Rightarrow>
             (case c_log_level h of None \<Rightarrow> DLT_RETURN_WRONG_PARAMETER
              | Some level \<Rightarrow>
                if loglevel \<le> level \<and> loglevel \<noteq> DLT_LOG_OFF then DLT_RETURN_TRUE
                else DLT_RETURN_LOGGING_DISABLED))"

text \<open>\<open>init\<close> is \<open>dlt_init\<close>, which is called when the library is not initialised.\<close>

definition dlt_user_log_init ::
  "(DltUser \<Rightarrow> int \<times> DltUser) \<Rightarrow> DltUser \<Rightarrow> DltContext option \<Rightarrow> DltContextData option \<Rightarrow>
   int \<times> DltUser \<times> DltContextData option" where
  "dlt_user_log_init init u ctx log =
     (case (ctx, log) of
        (Some h, Some l) \<Rightarrow>
          let (ret, u1) = (if u_initialised u then (DLT_RETURN_OK, u) else init u)
          in if \<not> u_initialised u \<and> ret < DLT_RETURN_OK then (ret, u1, log)
             else (ret, u1, Some (l\<lparr>l_handle := Some h, l_buffer := None\<rparr>))
      | _ \<Rightarrow> (DLT_RETURN_WRONG_PARAMETER, u, log))"

definition dlt_user_log_write_start_init ::
  "(DltUser \<Rightarrow> int \<times> DltUser) \<Rightarrow> DltUser \<Rightarrow> DltContext option \<Rightarrow> DltContextData option \<Rightarrow> int \<Rightarrow> bool \<Rightarrow>
   int \<times> DltUser \<times> DltContextData option" where
  "dlt_user_log_write_start_init init u ctx log loglevel is_verbose =
     (let (ret, u1, log1) = dlt_user_log_init init u ctx log
      in if ret < DLT_RETURN_OK \<or> u_contexts u1 = None then (DLT_RETURN_ERROR, u1, log1)
         else (DLT_RETURN_TRUE, u1,
               map_option (\<lambda>l. l\<lparr>l_args_num := 0, l_log_level := loglevel, l_size := 0,
                 l_auto_timestamp := True, l_verbose_mode := (if is_verbose then 1 else 0)\<rparr>) log1))"

text \<open>\<open>alloc\<close> is \<open>calloc\<close>: the zeroed block of a size, or None.\<close>

definition dlt_user_log_write_start_internal ::
  "(DltUser \<Rightarrow> int \<times> DltUser) \<Rightarrow> (nat \<Rightarrow> byte list option) \<Rightarrow> DltUser \<Rightarrow> DltContext option \<Rightarrow>
   DltContextData option \<Rightarrow> int \<Rightarrow> int \<Rightarrow> bool \<Rightarrow> int \<times> DltUser \<times> DltContextData option" where
  "dlt_user_log_write_start_internal init alloc u ctx log loglevel messageid is_verbose =
     (if ctx = None \<or> log = None then (DLT_RETURN_WRONG_PARAMETER, u, log)
      else if u_is_child u then (DLT_RETURN_ERROR, u, log)
      else
        let ret = dlt_user_is_logLevel_enabled ctx loglevel
        in if ret = DLT_RETURN_WRONG_PARAMETER then (DLT_RETURN_WRONG_PARAMETER, u, log)
           else if ret = DLT_RETURN_LOGGING_DISABLED
           then (DLT_RETURN_OK, u, map_option (\<lambda>l. l\<lparr>l_handle := None\<rparr>) log)
           else
             case dlt_user_log_write_start_init init u ctx log loglevel is_verbose of
               (ret, u1, Some l) \<Rightarrow>
                 if ret = DLT_RETURN_TRUE then
                   case (if l_buffer l = None then alloc (u_log_buf_len u1) else l_buffer l) of
                     None \<Rightarrow> (DLT_RETURN_ERROR, u1, Some l)
                   | Some b \<Rightarrow>
                     let l1 = l\<lparr>l_buffer := Some b\<rparr>
                     in if \<not> is_verbose_mode u1 (Some l1) then
                          if 4 > u_log_buf_len u1 then (DLT_RETURN_USER_BUFFER_FULL, u1, Some l1)
                          else (ret, u1, Some (l1\<lparr>l_buffer := Some (memput b 0 (le_bytes 4 messageid)), l_size := 4\<rparr>))
                        else (ret, u1, Some l1)
                 else (ret, u1, Some l)
             | (ret, u1, None) \<Rightarrow> (ret, u1, None))"

definition dlt_user_log_write_start ::
  "(DltUser \<Rightarrow> int \<times> DltUser) \<Rightarrow> (nat \<Rightarrow> byte list option) \<Rightarrow> DltUser \<Rightarrow> DltContext option \<Rightarrow>
   DltContextData option \<Rightarrow> int \<Rightarrow> int \<times> DltUser \<times> DltContextData option" where
  "dlt_user_log_write_start init alloc u ctx log loglevel =
     dlt_user_log_write_start_internal init alloc u ctx log loglevel 0xFFFF True"

definition dlt_user_log_write_start_id ::
  "(DltUser \<Rightarrow> int \<times> DltUser) \<Rightarrow> (nat \<Rightarrow> byte list option) \<Rightarrow> DltUser \<Rightarrow> DltContext option \<Rightarrow>
   DltContextData option \<Rightarrow> int \<Rightarrow> int \<Rightarrow> int \<times> DltUser \<times> DltContextData option" where
  "dlt_user_log_write_start_id init alloc u ctx log loglevel messageid =
     dlt_user_log_write_start_internal init alloc u ctx log loglevel messageid False"

definition dlt_user_log_write_start_w_given_buffer ::
  "(DltUser \<Rightarrow> int \<times> DltUser) \<Rightarrow> DltUser \<Rightarrow> DltContext option \<Rightarrow> DltContextData option \<Rightarrow> int \<Rightarrow>
   byte list option \<Rightarrow> nat \<Rightarrow> int \<Rightarrow> int \<times> DltUser \<times> DltContextData option" where
  "dlt_user_log_write_start_w_given_buffer init u ctx log loglevel buf sz args =
     (if ctx = None \<or> log = None \<or> buf = None then (DLT_RETURN_WRONG_PARAMETER, u, log)
      else if sz = 0 \<or> sz > u_log_buf_len u \<or> args \<le> 0 then (DLT_RETURN_WRONG_PARAMETER, u, log)
      else if u_is_child u then (DLT_RETURN_ERROR, u, log)
      else if u_verbose_mode u = 0 then (DLT_RETURN_ERROR, u, log)
      else
        let (ret, u1, log1) = dlt_user_log_write_start_init init u ctx log loglevel True
        in (ret, u1, if ret = DLT_RETURN_TRUE
              then map_option (\<lambda>l. l\<lparr>l_buffer := buf, l_size := i32 (int sz), l_args_num := args\<rparr>) log1
              else log1))"

section \<open>Writing arguments\<close>

text \<open>\<open>memcpy (log->buffer + log->size, d, \<dots>); log->size += \<dots>\<close>.\<close>

definition put_log :: "byte list \<Rightarrow> DltContextData \<Rightarrow> DltContextData" where
  "put_log d l =
     l\<lparr>l_buffer := map_option (\<lambda>b. memput b (nat (l_size l)) d) (l_buffer l),
       l_size := i32 (l_size l + int (length d))\<rparr>"

definition no_room :: "DltUser \<Rightarrow> DltContextData \<Rightarrow> nat \<Rightarrow> bool" where
  "no_room u l needed_size \<longleftrightarrow> u64 (l_size l + int needed_size) > u_log_buf_len u"

text \<open>The size of an attribute with its final zero byte, and the attribute itself.\<close>

definition name_size :: "byte list option \<Rightarrow> nat" where
  "name_size nm = (case nm of None \<Rightarrow> 0 | Some s \<Rightarrow> u16 (int (length (c_string s)) + 1))"

definition put_name :: "byte list option \<Rightarrow> DltContextData \<Rightarrow> DltContextData" where
  "put_name nm l = (case nm of None \<Rightarrow> l | Some s \<Rightarrow> if name_size nm \<noteq> 0 then put_log (take (name_size nm) s) l else l)"

definition count_arg :: "DltContextData \<Rightarrow> DltContextData" where
  "count_arg l = l\<lparr>l_args_num := i32 (l_args_num l + 1)\<rparr>"

abbreviation (input) DLT_FORMAT_MAX :: nat where "DLT_FORMAT_MAX \<equiv> 7"

definition raw_type_info :: "bool \<Rightarrow> nat \<Rightarrow> 32 word" where
  "raw_type_info with_var_info fmt =
     (let ti = (if with_var_info then DLT_TYPE_INFO_RAWD OR DLT_TYPE_INFO_VARI else DLT_TYPE_INFO_RAWD)
      in if 1 \<le> fmt \<and> fmt \<le> 4 then (ti OR DLT_SCOD_HEX) + of_nat fmt
         else if 5 \<le> fmt \<and> fmt \<le> 6 then (ti OR DLT_SCOD_BIN) + (of_nat fmt - 5 + 1)
         else ti)"

definition dlt_user_log_write_raw_internal ::
  "DltUser \<Rightarrow> DltContextData option \<Rightarrow> byte list option \<Rightarrow> nat \<Rightarrow> nat \<Rightarrow> byte list option \<Rightarrow> bool \<Rightarrow>
   int \<times> DltContextData option" where
  "dlt_user_log_write_raw_internal u log dat len fmt nm with_var_info =
     (case log of None \<Rightarrow> (DLT_RETURN_WRONG_PARAMETER, log)
      | Some l \<Rightarrow>
        if dat = None \<and> len \<noteq> 0 then (DLT_RETURN_WRONG_PARAMETER, log)
        else if i16 (int fmt) < 0 \<or> fmt \<ge> DLT_FORMAT_MAX then (DLT_RETURN_WRONG_PARAMETER, log)
        else if \<not> u_initialised u then (DLT_RETURN_ERROR, log)
        else if no_room u l (len + 2) then (DLT_RETURN_USER_BUFFER_FULL, log)
        else if is_verbose_mode u log \<and>
                no_room u l (len + 2 + 4 + (if with_var_info then 2 + name_size nm else 0))
        then (DLT_RETURN_USER_BUFFER_FULL, log)
        else
          let l1 = (if is_verbose_mode u log then put_log (le_bytes 4 (uint (raw_type_info with_var_info fmt))) l else l);
              l2 = put_log (le_bytes 2 (int len)) l1;
              l3 = (if is_verbose_mode u log \<and> with_var_info
                    then put_name nm (put_log (le_bytes 2 (int (name_size nm))) l2) else l2);
              l4 = put_log (take len (case dat of None \<Rightarrow> [] | Some d \<Rightarrow> d)) l3
          in (DLT_RETURN_OK, Some (count_arg l4)))"

text \<open>\<open>VarInfo\<close>: name, unit, and whether the unit is to be considered.\<close>

type_synonym VarInfo = "byte list option \<times> byte list option \<times> bool"

definition dlt_user_log_write_generic_attr ::
  "DltUser \<Rightarrow> DltContextData option \<Rightarrow> byte list \<Rightarrow> 32 word \<Rightarrow> VarInfo option \<Rightarrow> int \<times> DltContextData option" where
  "dlt_user_log_write_generic_attr u log dat type_info varinfo =
     (case log of None \<Rightarrow> (DLT_RETURN_WRONG_PARAMETER, log)
      | Some l \<Rightarrow>
        if \<not> u_initialised u then (DLT_RETURN_ERROR, log)
        else if no_room u l (length dat) then (DLT_RETURN_USER_BUFFER_FULL, log)
        else if \<not> is_verbose_mode u log then (DLT_RETURN_OK, Some (count_arg (put_log dat l)))
        else case varinfo of
          None \<Rightarrow>
            if no_room u l (length dat + 4) then (DLT_RETURN_USER_BUFFER_FULL, log)
            else (DLT_RETURN_OK, Some (count_arg (put_log dat (put_log (le_bytes 4 (uint type_info)) l))))
        | Some (nm, un, with_unit) \<Rightarrow>
            if no_room u l (length dat + 4 + 2 + name_size nm + (if with_unit then 2 + name_size un else 0))
            then (DLT_RETURN_USER_BUFFER_FULL, log)
            else
              let l1 = put_log (le_bytes 4 (uint (type_info OR DLT_TYPE_INFO_VARI))) l;
                  l2 = put_log (le_bytes 2 (int (name_size nm))) l1;
                  l3 = (if with_unit then put_log (le_bytes 2 (int (name_size un))) l2 else l2);
                  l4 = put_name un (put_name nm l3)
              in (DLT_RETURN_OK, Some (count_arg (put_log dat l4))))"

definition dlt_user_log_write_generic_formatted ::
  "DltUser \<Rightarrow> DltContextData option \<Rightarrow> byte list \<Rightarrow> 32 word \<Rightarrow> nat \<Rightarrow> int \<times> DltContextData option" where
  "dlt_user_log_write_generic_formatted u log dat type_info fmt =
     (case log of None \<Rightarrow> (DLT_RETURN_WRONG_PARAMETER, log)
      | Some l \<Rightarrow>
        if i16 (int fmt) < 0 \<or> fmt \<ge> DLT_FORMAT_MAX then (DLT_RETURN_WRONG_PARAMETER, log)
        else if \<not> u_initialised u then (DLT_RETURN_ERROR, log)
        else if no_room u l (length dat) then (DLT_RETURN_USER_BUFFER_FULL, log)
        else if is_verbose_mode u log \<and> no_room u l (length dat + 4) then (DLT_RETURN_USER_BUFFER_FULL, log)
        else
          let ti = (if 1 \<le> fmt \<and> fmt \<le> 4 then type_info OR DLT_SCOD_HEX
                    else if 5 \<le> fmt \<and> fmt \<le> 6 then type_info OR DLT_SCOD_BIN
                    else type_info);
              l1 = (if is_verbose_mode u log then put_log (le_bytes 4 (uint ti)) l else l)
          in (DLT_RETURN_OK, Some (count_arg (put_log dat l1))))"

section \<open>Strings\<close>

text \<open>
  A text is given by the bytes in front of its pointer and the bytes from the pointer on: the
  search for the start of the last UTF-8 character may look in front of it.
\<close>

type_synonym text_ptr = "byte list \<times> byte list"

definition STR_TRUNCATED_MESSAGE :: "byte list" where
  "STR_TRUNCATED_MESSAGE = ascii ''... <<Message truncated, too long>>''"

text \<open>\<open>tmp[i]\<close> with \<open>tmp = text + max_payload_str_msg - 3\<close>.\<close>

definition text_tail :: "text_ptr \<Rightarrow> nat \<Rightarrow> nat \<Rightarrow> byte" where
  "text_tail p mx i = (fst p @ snd p) ! (length (fst p) + mx + i - 3)"

definition utf8_reduce :: "text_ptr \<Rightarrow> nat \<Rightarrow> nat" where
  "utf8_reduce p mx =
     (if text_tail p mx 2 AND 0x80 \<noteq> 0 then
        if text_tail p mx 2 AND 0x40 \<noteq> 0 then 1
        else if text_tail p mx 1 AND 0xE0 = 0xE0 then 2
        else if text_tail p mx 0 AND 0xF0 = 0xF0 then 3
        else 0
      else 0)"

text \<open>
  \<open>utf8\<close> is \<open>type == UTF8_STRING\<close>. The two parts of the function are the sizes of a string that
  does not fit, and the writes.
\<close>

definition string_overhead :: "bool \<Rightarrow> bool \<Rightarrow> byte list option \<Rightarrow> nat" where
  "string_overhead verbose with_var_info nm =
     (if verbose then 4 + (if with_var_info then 2 + name_size nm else 0) else 0)"

definition string_type_info :: "bool \<Rightarrow> bool \<Rightarrow> 32 word" where
  "string_type_info utf8 with_var_info =
     (if with_var_info then DLT_TYPE_INFO_VARI else 0) OR
     (DLT_TYPE_INFO_STRG OR (if utf8 then DLT_SCOD_UTF8 else DLT_SCOD_ASCII))"

definition string_header ::
  "bool \<Rightarrow> bool \<Rightarrow> nat \<Rightarrow> byte list option \<Rightarrow> bool \<Rightarrow> DltContextData \<Rightarrow> DltContextData" where
  "string_header verbose utf8 arg_size nm with_var_info l =
     (let l1 = (if verbose then put_log (le_bytes 4 (uint (string_type_info utf8 with_var_info))) l else l);
          l2 = put_log (le_bytes 2 (int arg_size)) l1
      in if verbose \<and> with_var_info then put_name nm (put_log (le_bytes 2 (int (name_size nm))) l2) else l2)"

definition truncated_arg_size :: "DltUser \<Rightarrow> DltContextData \<Rightarrow> bool \<Rightarrow> bool \<Rightarrow> byte list option \<Rightarrow> nat" where
  "truncated_arg_size u l verbose with_var_info nm =
     (let arg1 = u16 (int (u_log_buf_len u) - l_size l - 2);
          arg2 = (if verbose then u16 (int arg1 - 4) else arg1)
      in if verbose \<and> with_var_info then u16 (int arg2 - (2 + int (name_size nm))) else arg2)"

definition dlt_user_log_write_sized_string_utils_attr ::
  "DltUser \<Rightarrow> DltContextData option \<Rightarrow> text_ptr option \<Rightarrow> nat \<Rightarrow> bool \<Rightarrow> byte list option \<Rightarrow> bool \<Rightarrow>
   int \<times> DltContextData option" where
  "dlt_user_log_write_sized_string_utils_attr u log txt len utf8 nm with_var_info =
     (case (log, txt) of
        (Some l, Some p) \<Rightarrow>
          if \<not> u_initialised u then (DLT_RETURN_ERROR, log)
          else
            let verbose = is_verbose_mode u log;
                arg_size = u16 (int len + 1);
                over = string_overhead verbose with_var_info nm;
                new_log_size = u64 (l_size l + int arg_size + 2 + int over)
            in if new_log_size \<le> u_log_buf_len u then
                 let l1 = string_header verbose utf8 arg_size nm with_var_info l
                 in (DLT_RETURN_OK, Some (count_arg
                      (l1\<lparr>l_buffer := map_option (\<lambda>b. memput b (nat (l_size l1)) (take len (snd p) @ [0])) (l_buffer l1),
                          l_size := i32 (l_size l1 + int arg_size)\<rparr>)))
               else
                 let msg = STR_TRUNCATED_MESSAGE @ [0];
                     arg = truncated_arg_size u l verbose with_var_info nm;
                     minsize = u64 (l_size l + int (length msg) + 2 + int over)
                 in if minsize > u_log_buf_len u then (DLT_RETURN_USER_BUFFER_FULL, log)
                    else
                      let mx = u_log_buf_len u - minsize;
                          red = (if utf8 then utf8_reduce p mx else 0);
                          mx' = u64 (int mx - int red);
                          l1 = string_header verbose utf8 (u16 (int arg - int red)) nm with_var_info l
                      in (DLT_RETURN_USER_BUFFER_FULL, Some (count_arg (put_log msg (put_log (take mx' (snd p)) l1))))
      | _ \<Rightarrow> (DLT_RETURN_WRONG_PARAMETER, log))"

definition dlt_user_log_write_string_utils_attr ::
  "DltUser \<Rightarrow> DltContextData option \<Rightarrow> text_ptr option \<Rightarrow> bool \<Rightarrow> byte list option \<Rightarrow> bool \<Rightarrow>
   int \<times> DltContextData option" where
  "dlt_user_log_write_string_utils_attr u log txt utf8 nm with_var_info =
     (case (log, txt) of
        (Some _, Some p) \<Rightarrow>
          dlt_user_log_write_sized_string_utils_attr u log txt (u16 (int (length (c_string (snd p))))) utf8 nm with_var_info
      | _ \<Rightarrow> (DLT_RETURN_WRONG_PARAMETER, log))"

section \<open>The functions of the interface\<close>

text \<open>
  Values are given as integers, of which the functions write the bytes of their size; a
  floating point number is given by its bits. The tests of \<open>sizeof\<close> in the functions without
  a size select four bytes for \<open>int\<close> and eight for pointers.
\<close>

definition dlt_user_log_write_raw ::
  "DltUser \<Rightarrow> DltContextData option \<Rightarrow> byte list option \<Rightarrow> nat \<Rightarrow> int \<times> DltContextData option" where
  "dlt_user_log_write_raw u log dat len =
     dlt_user_log_write_raw_internal u log dat len 0 None False"

definition dlt_user_log_write_raw_formatted ::
  "DltUser \<Rightarrow> DltContextData option \<Rightarrow> byte list option \<Rightarrow> nat \<Rightarrow> nat \<Rightarrow> int \<times> DltContextData option" where
  "dlt_user_log_write_raw_formatted u log dat len fmt =
     dlt_user_log_write_raw_internal u log dat len fmt None False"

definition dlt_user_log_write_raw_attr ::
  "DltUser \<Rightarrow> DltContextData option \<Rightarrow> byte list option \<Rightarrow> nat \<Rightarrow> byte list option \<Rightarrow> int \<times> DltContextData option" where
  "dlt_user_log_write_raw_attr u log dat len nm =
     dlt_user_log_write_raw_internal u log dat len 0 nm True"

definition dlt_user_log_write_raw_formatted_attr ::
  "DltUser \<Rightarrow> DltContextData option \<Rightarrow> byte list option \<Rightarrow> nat \<Rightarrow> nat \<Rightarrow> byte list option \<Rightarrow> int \<times> DltContextData option" where
  "dlt_user_log_write_raw_formatted_attr u log dat len fmt nm =
     dlt_user_log_write_raw_internal u log dat len fmt nm True"

definition dlt_user_log_write_float32 ::
  "DltUser \<Rightarrow> DltContextData option \<Rightarrow> int \<Rightarrow> int \<times> DltContextData option" where
  "dlt_user_log_write_float32 u log v =
     dlt_user_log_write_generic_attr u log (le_bytes 4 v) (DLT_TYPE_INFO_FLOA OR 3) None"

definition dlt_user_log_write_float32_attr ::
  "DltUser \<Rightarrow> DltContextData option \<Rightarrow> int \<Rightarrow> byte list option \<Rightarrow> byte list option \<Rightarrow> int \<times> DltContextData option" where
  "dlt_user_log_write_float32_attr u log v nm un =
     dlt_user_log_write_generic_attr u log (le_bytes 4 v) (DLT_TYPE_INFO_FLOA OR 3) (Some (nm, un, True))"

definition dlt_user_log_write_float64 ::
  "DltUser \<Rightarrow> DltContextData option \<Rightarrow> int \<Rightarrow> int \<times> DltContextData option" where
  "dlt_user_log_write_float64 u log v =
     dlt_user_log_write_generic_attr u log (le_bytes 8 v) (DLT_TYPE_INFO_FLOA OR 4) None"

definition dlt_user_log_write_float64_attr ::
  "DltUser \<Rightarrow> DltContextData option \<Rightarrow> int \<Rightarrow> byte list option \<Rightarrow> byte list option \<Rightarrow> int \<times> DltContextData option" where
  "dlt_user_log_write_float64_attr u log v nm un =
     dlt_user_log_write_generic_attr u log (le_bytes 8 v) (DLT_TYPE_INFO_FLOA OR 4) (Some (nm, un, True))"

definition dlt_user_log_write_uint8 ::
  "DltUser \<Rightarrow> DltContextData option \<Rightarrow> int \<Rightarrow> int \<times> DltContextData option" where
  "dlt_user_log_write_uint8 u log v =
     dlt_user_log_write_generic_attr u log (le_bytes 1 v) (DLT_TYPE_INFO_UINT OR 1) None"

definition dlt_user_log_write_uint8_attr ::
  "DltUser \<Rightarrow> DltContextData option \<Rightarrow> int \<Rightarrow> byte list option \<Rightarrow> byte list option \<Rightarrow> int \<times> DltContextData option" where
  "dlt_user_log_write_uint8_attr u log v nm un =
     dlt_user_log_write_generic_attr u log (le_bytes 1 v) (DLT_TYPE_INFO_UINT OR 1) (Some (nm, un, True))"

definition dlt_user_log_write_uint8_formatted ::
  "DltUser \<Rightarrow> DltContextData option \<Rightarrow> int \<Rightarrow> nat \<Rightarrow> int \<times> DltContextData option" where
  "dlt_user_log_write_uint8_formatted u log v fmt =
     dlt_user_log_write_generic_formatted u log (le_bytes 1 v) (DLT_TYPE_INFO_UINT OR 1) fmt"

definition dlt_user_log_write_uint16 ::
  "DltUser \<Rightarrow> DltContextData option \<Rightarrow> int \<Rightarrow> int \<times> DltContextData option" where
  "dlt_user_log_write_uint16 u log v =
     dlt_user_log_write_generic_attr u log (le_bytes 2 v) (DLT_TYPE_INFO_UINT OR 2) None"

definition dlt_user_log_write_uint16_attr ::
  "DltUser \<Rightarrow> DltContextData option \<Rightarrow> int \<Rightarrow> byte list option \<Rightarrow> byte list option \<Rightarrow> int \<times> DltContextData option" where
  "dlt_user_log_write_uint16_attr u log v nm un =
     dlt_user_log_write_generic_attr u log (le_bytes 2 v) (DLT_TYPE_INFO_UINT OR 2) (Some (nm, un, True))"

definition dlt_user_log_write_uint16_formatted ::
  "DltUser \<Rightarrow> DltContextData option \<Rightarrow> int \<Rightarrow> nat \<Rightarrow> int \<times> DltContextData option" where
  "dlt_user_log_write_uint16_formatted u log v fmt =
     dlt_user_log_write_generic_formatted u log (le_bytes 2 v) (DLT_TYPE_INFO_UINT OR 2) fmt"

definition dlt_user_log_write_uint32 ::
  "DltUser \<Rightarrow> DltContextData option \<Rightarrow> int \<Rightarrow> int \<times> DltContextData option" where
  "dlt_user_log_write_uint32 u log v =
     dlt_user_log_write_generic_attr u log (le_bytes 4 v) (DLT_TYPE_INFO_UINT OR 3) None"

definition dlt_user_log_write_uint32_attr ::
  "DltUser \<Rightarrow> DltContextData option \<Rightarrow> int \<Rightarrow> byte list option \<Rightarrow> byte list option \<Rightarrow> int \<times> DltContextData option" where
  "dlt_user_log_write_uint32_attr u log v nm un =
     dlt_user_log_write_generic_attr u log (le_bytes 4 v) (DLT_TYPE_INFO_UINT OR 3) (Some (nm, un, True))"

definition dlt_user_log_write_uint32_formatted ::
  "DltUser \<Rightarrow> DltContextData option \<Rightarrow> int \<Rightarrow> nat \<Rightarrow> int \<times> DltContextData option" where
  "dlt_user_log_write_uint32_formatted u log v fmt =
     dlt_user_log_write_generic_formatted u log (le_bytes 4 v) (DLT_TYPE_INFO_UINT OR 3) fmt"

definition dlt_user_log_write_uint64 ::
  "DltUser \<Rightarrow> DltContextData option \<Rightarrow> int \<Rightarrow> int \<times> DltContextData option" where
  "dlt_user_log_write_uint64 u log v =
     dlt_user_log_write_generic_attr u log (le_bytes 8 v) (DLT_TYPE_INFO_UINT OR 4) None"

definition dlt_user_log_write_uint64_attr ::
  "DltUser \<Rightarrow> DltContextData option \<Rightarrow> int \<Rightarrow> byte list option \<Rightarrow> byte list option \<Rightarrow> int \<times> DltContextData option" where
  "dlt_user_log_write_uint64_attr u log v nm un =
     dlt_user_log_write_generic_attr u log (le_bytes 8 v) (DLT_TYPE_INFO_UINT OR 4) (Some (nm, un, True))"

definition dlt_user_log_write_uint64_formatted ::
  "DltUser \<Rightarrow> DltContextData option \<Rightarrow> int \<Rightarrow> nat \<Rightarrow> int \<times> DltContextData option" where
  "dlt_user_log_write_uint64_formatted u log v fmt =
     dlt_user_log_write_generic_formatted u log (le_bytes 8 v) (DLT_TYPE_INFO_UINT OR 4) fmt"

definition dlt_user_log_write_uint ::
  "DltUser \<Rightarrow> DltContextData option \<Rightarrow> int \<Rightarrow> int \<times> DltContextData option" where
  "dlt_user_log_write_uint u log v =
     (if log = None then (DLT_RETURN_WRONG_PARAMETER, log)
      else if \<not> u_initialised u then (DLT_RETURN_ERROR, log)
      else dlt_user_log_write_uint32 u log v)"

definition dlt_user_log_write_uint_attr ::
  "DltUser \<Rightarrow> DltContextData option \<Rightarrow> int \<Rightarrow> byte list option \<Rightarrow> byte list option \<Rightarrow> int \<times> DltContextData option" where
  "dlt_user_log_write_uint_attr u log v nm un =
     (if log = None then (DLT_RETURN_WRONG_PARAMETER, log)
      else if \<not> u_initialised u then (DLT_RETURN_ERROR, log)
      else dlt_user_log_write_uint32_attr u log v nm un)"

definition dlt_user_log_write_int8 ::
  "DltUser \<Rightarrow> DltContextData option \<Rightarrow> int \<Rightarrow> int \<times> DltContextData option" where
  "dlt_user_log_write_int8 u log v =
     dlt_user_log_write_generic_attr u log (le_bytes 1 v) (DLT_TYPE_INFO_SINT OR 1) None"

definition dlt_user_log_write_int8_attr ::
  "DltUser \<Rightarrow> DltContextData option \<Rightarrow> int \<Rightarrow> byte list option \<Rightarrow> byte list option \<Rightarrow> int \<times> DltContextData option" where
  "dlt_user_log_write_int8_attr u log v nm un =
     dlt_user_log_write_generic_attr u log (le_bytes 1 v) (DLT_TYPE_INFO_SINT OR 1) (Some (nm, un, True))"

definition dlt_user_log_write_int16 ::
  "DltUser \<Rightarrow> DltContextData option \<Rightarrow> int \<Rightarrow> int \<times> DltContextData option" where
  "dlt_user_log_write_int16 u log v =
     dlt_user_log_write_generic_attr u log (le_bytes 2 v) (DLT_TYPE_INFO_SINT OR 2) None"

definition dlt_user_log_write_int16_attr ::
  "DltUser \<Rightarrow> DltContextData option \<Rightarrow> int \<Rightarrow> byte list option \<Rightarrow> byte list option \<Rightarrow> int \<times> DltContextData option" where
  "dlt_user_log_write_int16_attr u log v nm un =
     dlt_user_log_write_generic_attr u log (le_bytes 2 v) (DLT_TYPE_INFO_SINT OR 2) (Some (nm, un, True))"

definition dlt_user_log_write_int32 ::
  "DltUser \<Rightarrow> DltContextData option \<Rightarrow> int \<Rightarrow> int \<times> DltContextData option" where
  "dlt_user_log_write_int32 u log v =
     dlt_user_log_write_generic_attr u log (le_bytes 4 v) (DLT_TYPE_INFO_SINT OR 3) None"

definition dlt_user_log_write_int32_attr ::
  "DltUser \<Rightarrow> DltContextData option \<Rightarrow> int \<Rightarrow> byte list option \<Rightarrow> byte list option \<Rightarrow> int \<times> DltContextData option" where
  "dlt_user_log_write_int32_attr u log v nm un =
     dlt_user_log_write_generic_attr u log (le_bytes 4 v) (DLT_TYPE_INFO_SINT OR 3) (Some (nm, un, True))"

definition dlt_user_log_write_int64 ::
  "DltUser \<Rightarrow> DltContextData option \<Rightarrow> int \<Rightarrow> int \<times> DltContextData option" where
  "dlt_user_log_write_int64 u log v =
     dlt_user_log_write_generic_attr u log (le_bytes 8 v) (DLT_TYPE_INFO_SINT OR 4) None"

definition dlt_user_log_write_int64_attr ::
  "DltUser \<Rightarrow> DltContextData option \<Rightarrow> int \<Rightarrow> byte list option \<Rightarrow> byte list option \<Rightarrow> int \<times> DltContextData option" where
  "dlt_user_log_write_int64_attr u log v nm un =
     dlt_user_log_write_generic_attr u log (le_bytes 8 v) (DLT_TYPE_INFO_SINT OR 4) (Some (nm, un, True))"

definition dlt_user_log_write_int ::
  "DltUser \<Rightarrow> DltContextData option \<Rightarrow> int \<Rightarrow> int \<times> DltContextData option" where
  "dlt_user_log_write_int u log v =
     (if log = None then (DLT_RETURN_WRONG_PARAMETER, log)
      else if \<not> u_initialised u then (DLT_RETURN_ERROR, log)
      else dlt_user_log_write_int32 u log v)"

definition dlt_user_log_write_int_attr ::
  "DltUser \<Rightarrow> DltContextData option \<Rightarrow> int \<Rightarrow> byte list option \<Rightarrow> byte list option \<Rightarrow> int \<times> DltContextData option" where
  "dlt_user_log_write_int_attr u log v nm un =
     (if log = None then (DLT_RETURN_WRONG_PARAMETER, log)
      else if \<not> u_initialised u then (DLT_RETURN_ERROR, log)
      else dlt_user_log_write_int32_attr u log v nm un)"

definition dlt_user_log_write_ptr ::
  "DltUser \<Rightarrow> DltContextData option \<Rightarrow> int \<Rightarrow> int \<times> DltContextData option" where
  "dlt_user_log_write_ptr u log v =
     (if log = None then (DLT_RETURN_WRONG_PARAMETER, log)
      else if \<not> u_initialised u then (DLT_RETURN_ERROR, log)
      else dlt_user_log_write_uint64_formatted u log v 4)"

definition dlt_user_log_write_SpanByte_attr ::
  "DltUser \<Rightarrow> DltContextData option \<Rightarrow> byte list \<Rightarrow> byte list option \<Rightarrow> byte list option \<Rightarrow> int \<times> DltContextData option" where
  "dlt_user_log_write_SpanByte_attr u log dat nm un =
     dlt_user_log_write_generic_attr u log dat DLT_SCOD_UTF8 (Some (nm, un, True))"

definition dlt_user_log_write_StringView_attr ::
  "DltUser \<Rightarrow> DltContextData option \<Rightarrow> byte list \<Rightarrow> byte list option \<Rightarrow> byte list option \<Rightarrow> int \<times> DltContextData option" where
  "dlt_user_log_write_StringView_attr u log dat nm un =
     dlt_user_log_write_generic_attr u log dat DLT_SCOD_ASCII (Some (nm, un, True))"

definition dlt_user_log_write_bool ::
  "DltUser \<Rightarrow> DltContextData option \<Rightarrow> int \<Rightarrow> int \<times> DltContextData option" where
  "dlt_user_log_write_bool u log v =
     dlt_user_log_write_generic_attr u log (le_bytes 1 v) (DLT_TYPE_INFO_BOOL OR 1) None"

definition dlt_user_log_write_bool_attr ::
  "DltUser \<Rightarrow> DltContextData option \<Rightarrow> int \<Rightarrow> byte list option \<Rightarrow> int \<times> DltContextData option" where
  "dlt_user_log_write_bool_attr u log v nm =
     dlt_user_log_write_generic_attr u log (le_bytes 1 v) (DLT_TYPE_INFO_BOOL OR 1) (Some (nm, None, False))"

definition dlt_user_log_write_string ::
  "DltUser \<Rightarrow> DltContextData option \<Rightarrow> text_ptr option \<Rightarrow> int \<times> DltContextData option" where
  "dlt_user_log_write_string u log txt =
     dlt_user_log_write_string_utils_attr u log txt False None False"

definition dlt_user_log_write_string_attr ::
  "DltUser \<Rightarrow> DltContextData option \<Rightarrow> text_ptr option \<Rightarrow> byte list option \<Rightarrow> int \<times> DltContextData option" where
  "dlt_user_log_write_string_attr u log txt nm =
     dlt_user_log_write_string_utils_attr u log txt False nm True"

definition dlt_user_log_write_sized_string ::
  "DltUser \<Rightarrow> DltContextData option \<Rightarrow> text_ptr option \<Rightarrow> nat \<Rightarrow> int \<times> DltContextData option" where
  "dlt_user_log_write_sized_string u log txt len =
     dlt_user_log_write_sized_string_utils_attr u log txt len False None False"

definition dlt_user_log_write_sized_string_attr ::
  "DltUser \<Rightarrow> DltContextData option \<Rightarrow> text_ptr option \<Rightarrow> nat \<Rightarrow> byte list option \<Rightarrow> int \<times> DltContextData option" where
  "dlt_user_log_write_sized_string_attr u log txt len nm =
     dlt_user_log_write_sized_string_utils_attr u log txt len False nm True"

definition dlt_user_log_write_constant_string ::
  "DltUser \<Rightarrow> DltContextData option \<Rightarrow> text_ptr option \<Rightarrow> int \<times> DltContextData option" where
  "dlt_user_log_write_constant_string u log txt =
     (if is_verbose_mode u log then dlt_user_log_write_string u log txt else (DLT_RETURN_OK, log))"

definition dlt_user_log_write_constant_string_attr ::
  "DltUser \<Rightarrow> DltContextData option \<Rightarrow> text_ptr option \<Rightarrow> byte list option \<Rightarrow> int \<times> DltContextData option" where
  "dlt_user_log_write_constant_string_attr u log txt nm =
     (if is_verbose_mode u log then dlt_user_log_write_string_attr u log txt nm else (DLT_RETURN_OK, log))"

definition dlt_user_log_write_sized_constant_string ::
  "DltUser \<Rightarrow> DltContextData option \<Rightarrow> text_ptr option \<Rightarrow> nat \<Rightarrow> int \<times> DltContextData option" where
  "dlt_user_log_write_sized_constant_string u log txt len =
     (if is_verbose_mode u log then dlt_user_log_write_sized_string u log txt len else (DLT_RETURN_OK, log))"

definition dlt_user_log_write_sized_constant_string_attr ::
  "DltUser \<Rightarrow> DltContextData option \<Rightarrow> text_ptr option \<Rightarrow> nat \<Rightarrow> byte list option \<Rightarrow> int \<times> DltContextData option" where
  "dlt_user_log_write_sized_constant_string_attr u log txt len nm =
     (if is_verbose_mode u log then dlt_user_log_write_sized_string_attr u log txt len nm else (DLT_RETURN_OK, log))"

definition dlt_user_log_write_utf8_string ::
  "DltUser \<Rightarrow> DltContextData option \<Rightarrow> text_ptr option \<Rightarrow> int \<times> DltContextData option" where
  "dlt_user_log_write_utf8_string u log txt =
     dlt_user_log_write_string_utils_attr u log txt True None False"

definition dlt_user_log_write_utf8_string_attr ::
  "DltUser \<Rightarrow> DltContextData option \<Rightarrow> text_ptr option \<Rightarrow> byte list option \<Rightarrow> int \<times> DltContextData option" where
  "dlt_user_log_write_utf8_string_attr u log txt nm =
     dlt_user_log_write_string_utils_attr u log txt True nm True"

definition dlt_user_log_write_sized_utf8_string ::
  "DltUser \<Rightarrow> DltContextData option \<Rightarrow> text_ptr option \<Rightarrow> nat \<Rightarrow> int \<times> DltContextData option" where
  "dlt_user_log_write_sized_utf8_string u log txt len =
     dlt_user_log_write_sized_string_utils_attr u log txt len True None False"

definition dlt_user_log_write_sized_utf8_string_attr ::
  "DltUser \<Rightarrow> DltContextData option \<Rightarrow> text_ptr option \<Rightarrow> nat \<Rightarrow> byte list option \<Rightarrow> int \<times> DltContextData option" where
  "dlt_user_log_write_sized_utf8_string_attr u log txt len nm =
     dlt_user_log_write_sized_string_utils_attr u log txt len True nm True"

definition dlt_user_log_write_constant_utf8_string ::
  "DltUser \<Rightarrow> DltContextData option \<Rightarrow> text_ptr option \<Rightarrow> int \<times> DltContextData option" where
  "dlt_user_log_write_constant_utf8_string u log txt =
     (if is_verbose_mode u log then dlt_user_log_write_utf8_string u log txt else (DLT_RETURN_OK, log))"

definition dlt_user_log_write_constant_utf8_string_attr ::
  "DltUser \<Rightarrow> DltContextData option \<Rightarrow> text_ptr option \<Rightarrow> byte list option \<Rightarrow> int \<times> DltContextData option" where
  "dlt_user_log_write_constant_utf8_string_attr u log txt nm =
     (if is_verbose_mode u log then dlt_user_log_write_utf8_string_attr u log txt nm else (DLT_RETURN_OK, log))"

definition dlt_user_log_write_sized_constant_utf8_string ::
  "DltUser \<Rightarrow> DltContextData option \<Rightarrow> text_ptr option \<Rightarrow> nat \<Rightarrow> int \<times> DltContextData option" where
  "dlt_user_log_write_sized_constant_utf8_string u log txt len =
     (if is_verbose_mode u log then dlt_user_log_write_sized_utf8_string u log txt len else (DLT_RETURN_OK, log))"

definition dlt_user_log_write_sized_constant_utf8_string_attr ::
  "DltUser \<Rightarrow> DltContextData option \<Rightarrow> text_ptr option \<Rightarrow> nat \<Rightarrow> byte list option \<Rightarrow> int \<times> DltContextData option" where
  "dlt_user_log_write_sized_constant_utf8_string_attr u log txt len nm =
     (if is_verbose_mode u log then dlt_user_log_write_sized_utf8_string_attr u log txt len nm else (DLT_RETURN_OK, log))"

section \<open>The message buffer\<close>

text \<open>
  \<open>log_ok\<close>: the message has a buffer of the configured size and its size is a position inside.
  \<open>logged\<close> are the bytes written so far, \<open>extends u d l l'\<close> says that \<open>d\<close> was written.
\<close>

named_theorems ext_intros \<open>writes into the message buffer\<close>

definition log_ok :: "DltUser \<Rightarrow> DltContextData \<Rightarrow> bool" where
  "log_ok u l \<longleftrightarrow> (\<exists>b. l_buffer l = Some b \<and> length b = u_log_buf_len u) \<and> 0 \<le> l_size l \<and>
     l_size l \<le> int (u_log_buf_len u) \<and> u_log_buf_len u < 65536"

definition logged :: "DltContextData \<Rightarrow> byte list" where
  "logged l = take (nat (l_size l)) (the (l_buffer l))"

definition same_message :: "DltContextData \<Rightarrow> DltContextData \<Rightarrow> bool" where
  "same_message l l' \<longleftrightarrow>
     l_handle l' = l_handle l \<and> l_log_level l' = l_log_level l \<and> l_trace_status l' = l_trace_status l \<and>
     l_description l' = l_description l \<and> l_auto_timestamp l' = l_auto_timestamp l \<and>
     l_user_timestamp l' = l_user_timestamp l \<and> l_verbose_mode l' = l_verbose_mode l"

definition extends :: "DltUser \<Rightarrow> byte list \<Rightarrow> DltContextData \<Rightarrow> DltContextData \<Rightarrow> bool" where
  "extends u d l l' \<longleftrightarrow> log_ok u l' \<and> logged l' = logged l @ d \<and> same_message l l'"

lemma log_ok_size: "log_ok u l \<Longrightarrow> l_size l = int (length (logged l))"
  by (auto simp: log_ok_def logged_def)

lemma log_ok_len: "log_ok u l \<Longrightarrow> u_log_buf_len u < 65536 \<and> length (logged l) \<le> u_log_buf_len u"
  by (auto simp: log_ok_def logged_def)

lemma no_room_iff:
  assumes "log_ok u l" "k < 2 ^ 32"
  shows "no_room u l k \<longleftrightarrow> u_log_buf_len u < length (logged l) + k"
proof -
  have "u64 (int (length (logged l)) + int k) = length (logged l) + k"
    using log_ok_len [OF assms(1)] assms(2) by (simp add: u64_id nat_add_distrib)
  then show ?thesis by (simp add: no_room_def log_ok_size [OF assms(1)])
qed

lemma put_log_extends:
  assumes "log_ok u l" "length (logged l) + length d \<le> u_log_buf_len u"
  shows "extends u d l (put_log d l)"
proof -
  obtain b where b: "l_buffer l = Some b" "length b = u_log_buf_len u" "u_log_buf_len u < 65536"
    using assms(1) by (auto simp: log_ok_def)
  obtain n where n: "length (logged l) = n" and sz: "l_size l = int n" using log_ok_size [OF assms(1)] by blast
  have i: "i32 (int n + int (length d)) = int (n + length d)"
  proof -
    have "int n + int (length d) < 65536" using assms(2) b(3) n by linarith
    then have "i32 (int n + int (length d)) = int n + int (length d)" by (intro i32_id) linarith+
    then show ?thesis by simp
  qed
  have fit: "n + length d \<le> length b" using assms(2) b(2) n by simp
  have "logged l = take n b" by (simp add: logged_def b(1) sz)
  then have "logged (put_log d l) = logged l @ d"
    using fit by (simp add: logged_def put_log_def b(1) sz i memput_def del: of_nat_add)
  moreover have "log_ok u (put_log d l)"
    using fit b by (auto simp: log_ok_def put_log_def sz i simp del: of_nat_add)
  ultimately show ?thesis by (simp add: extends_def same_message_def put_log_def)
qed

lemma ext_refl [ext_intros]: "log_ok u l \<Longrightarrow> extends u [] l l"
  by (simp add: extends_def same_message_def)

lemma same_message_trans: "same_message a b \<Longrightarrow> same_message b c \<Longrightarrow> same_message a c"
  by (simp add: same_message_def)

lemma ext_put:
  assumes "extends u d l l1" "length (logged l) + length d + length e \<le> u_log_buf_len u"
  shows "extends u (d @ e) l (put_log e l1)"
proof -
  have "extends u e l1 (put_log e l1)"
    using assms by (intro put_log_extends) (auto simp: extends_def)
  with assms(1) show ?thesis by (auto simp: extends_def intro: same_message_trans)
qed

definition name_bytes :: "byte list option \<Rightarrow> byte list" where
  "name_bytes nm = (case nm of None \<Rightarrow> [] | Some s \<Rightarrow> take (name_size nm) s)"

definition name_ok :: "byte list option \<Rightarrow> bool" where
  "name_ok nm \<longleftrightarrow> (case nm of None \<Rightarrow> True | Some s \<Rightarrow> 0 \<in> set s)"

lemma name_size_bound: "name_size nm < 65536"
  by (simp add: name_size_def u16_def nat_less_iff split: option.split)

lemma length_takeWhile_less: "x \<in> set xs \<Longrightarrow> \<not> P x \<Longrightarrow> length (takeWhile P xs) < length xs"
  by (metis length_takeWhile_le linorder_le_less_linear order_antisym set_takeWhileD takeWhile_eq_take take_all)

lemma length_name_bytes: "name_ok nm \<Longrightarrow> length (name_bytes nm) = name_size nm"
proof (cases nm)
  case (Some s)
  assume "name_ok nm"
  then have "length (c_string s) < length s"
    using Some by (auto simp: name_ok_def c_string_def intro!: length_takeWhile_less)
  moreover have "u16 (int (length (c_string s)) + 1) \<le> length (c_string s) + 1"
    by (simp add: u16_def nat_le_iff) (metis zmod_le_nonneg_dividend of_nat_0_le_iff add_nonneg_nonneg zero_le_one add.commute)
  ultimately show ?thesis by (simp add: Some name_bytes_def name_size_def)
qed (simp add: name_bytes_def name_size_def)

lemma name_None [simp]: "name_size None = 0" "name_bytes None = []"
  by (simp_all add: name_size_def name_bytes_def)

lemma ext_name:
  assumes "extends u d l l1" "name_ok nm" "length (logged l) + length d + name_size nm \<le> u_log_buf_len u"
  shows "extends u (d @ name_bytes nm) l (put_name nm l1)"
proof (cases nm)
  case (Some s)
  have "extends u (d @ name_bytes nm) l (put_log (name_bytes nm) l1)"
    using assms by (intro ext_put) (simp_all add: length_name_bytes)
  then show ?thesis using assms(1) by (auto simp: Some put_name_def name_bytes_def)
qed (use assms in \<open>simp add: put_name_def name_bytes_def\<close>)

lemma ext_put_if:
  assumes "extends u d l l1" "length (logged l) + length d + (if c then length e else 0) \<le> u_log_buf_len u"
  shows "extends u (d @ (if c then e else [])) l (if c then put_log e l1 else l1)"
  using assms ext_put [of u d l l1 e] by auto

lemma ext_attr:
  assumes "extends u d l l1" "name_ok nm" "length (logged l) + length d + 2 + name_size nm \<le> u_log_buf_len u"
  shows "extends u (d @ le_bytes 2 (int (name_size nm)) @ name_bytes nm) l
    (put_name nm (put_log (le_bytes 2 (int (name_size nm))) l1))"
proof -
  have "extends u (d @ le_bytes 2 (int (name_size nm))) l (put_log (le_bytes 2 (int (name_size nm))) l1)"
    using assms by (intro ext_put) auto
  from ext_name [OF this assms(2)] assms(3) show ?thesis by simp
qed

lemma ext_attr_if:
  assumes "extends u d l l1" "name_ok nm"
    and "length (logged l) + length d + (if c then 2 + name_size nm else 0) \<le> u_log_buf_len u"
  shows "extends u (d @ (if c then le_bytes 2 (int (name_size nm)) @ name_bytes nm else [])) l
    (if c then put_name nm (put_log (le_bytes 2 (int (name_size nm))) l1) else l1)"
  using assms ext_attr [OF assms(1,2)] by auto

lemma ext_count: "extends u d l l1 \<Longrightarrow> extends u d l (count_arg l1)"
  by (auto simp: extends_def count_arg_def log_ok_def logged_def same_message_def)

lemma put_log_args [simp]: "l_args_num (put_log d l) = l_args_num l" "l_args_num (put_name nm l) = l_args_num l"
  by (auto simp: put_log_def put_name_def split: option.split)

lemma count_args [simp]: "l_args_num (count_arg l) = i32 (l_args_num l + 1)"
  by (simp add: count_arg_def)

text \<open>The outcome of a writer: the bytes are appended and the argument counted, or nothing happens.\<close>

definition wrote_arg :: "DltUser \<Rightarrow> byte list \<Rightarrow> DltContextData \<Rightarrow> int \<times> DltContextData option \<Rightarrow> bool" where
  "wrote_arg u d l r \<longleftrightarrow>
     (\<exists>l'. r = (0, Some l') \<and> extends u d l l' \<and> l_args_num l' = i32 (l_args_num l + 1))"

lemma wrote_argI:
  "extends u d l l' \<Longrightarrow> l_args_num l' = l_args_num l \<Longrightarrow> wrote_arg u d l (0, Some (count_arg l'))"
  by (auto simp: wrote_arg_def intro: ext_count)

definition log_fits :: "DltUser \<Rightarrow> DltContextData \<Rightarrow> byte list \<Rightarrow> bool" where
  "log_fits u l d \<longleftrightarrow> length (logged l) + length d \<le> u_log_buf_len u"

text \<open>The bytes of raw data, of a number and of a whole string.\<close>

definition raw_bytes :: "bool \<Rightarrow> byte list \<Rightarrow> nat \<Rightarrow> byte list option \<Rightarrow> bool \<Rightarrow> byte list" where
  "raw_bytes verbose dat fmt nm with_var_info =
     (if verbose then le_bytes 4 (uint (raw_type_info with_var_info fmt)) else []) @
     le_bytes 2 (int (length dat)) @
     (if verbose \<and> with_var_info then le_bytes 2 (int (name_size nm)) @ name_bytes nm else []) @ dat"

definition attr_bytes :: "bool \<Rightarrow> byte list \<Rightarrow> 32 word \<Rightarrow> VarInfo option \<Rightarrow> byte list" where
  "attr_bytes verbose dat ti varinfo =
     (if \<not> verbose then dat
      else case varinfo of None \<Rightarrow> le_bytes 4 (uint ti) @ dat
         | Some (nm, un, with_unit) \<Rightarrow>
             le_bytes 4 (uint (ti OR DLT_TYPE_INFO_VARI)) @ le_bytes 2 (int (name_size nm)) @
             (if with_unit then le_bytes 2 (int (name_size un)) else []) @ name_bytes nm @ name_bytes un @ dat)"

definition varinfo_ok :: "VarInfo option \<Rightarrow> bool" where
  "varinfo_ok v \<longleftrightarrow> (case v of None \<Rightarrow> True | Some (nm, un, with_unit) \<Rightarrow>
     name_ok nm \<and> name_ok un \<and> (with_unit \<or> un = None))"

lemma raw_wrote:
  assumes "log_ok u l" "u_initialised u" "length dat < 65536" "fmt < 7" "name_ok nm"
    and d: "d = raw_bytes (is_verbose_mode u (Some l)) dat fmt nm with_var"
  shows "if log_fits u l d
    then wrote_arg u d l (dlt_user_log_write_raw_internal u (Some l) (Some dat) (length dat) fmt nm with_var)
    else dlt_user_log_write_raw_internal u (Some l) (Some dat) (length dat) fmt nm with_var = (- 6, Some l)"
proof -
  note nr = no_room_iff [OF assms(1)]
  have ns: "name_size nm < 65536" by (rule name_size_bound)
  have len: "length d = length dat + 2 + (if is_verbose_mode u (Some l) then 4 + (if with_var then 2 + name_size nm else 0) else 0)"
    using length_name_bytes [OF assms(5)] by (simp add: d raw_bytes_def)
  have i: "i16 (int fmt) = int fmt" using assms(4) by (simp add: i16_id)
  let ?v = "is_verbose_mode u (Some l)"
  define l1 where "l1 = (if ?v then put_log (le_bytes 4 (uint (raw_type_info with_var fmt))) l else l)"
  define l2 where "l2 = put_log (le_bytes 2 (int (length dat))) l1"
  define l3 where "l3 = (if ?v \<and> with_var then put_name nm (put_log (le_bytes 2 (int (name_size nm))) l2) else l2)"
  have eq: "dlt_user_log_write_raw_internal u (Some l) (Some dat) (length dat) fmt nm with_var =
    (if log_fits u l d then (0, Some (count_arg (put_log dat l3))) else (- 6, Some l))"
    using assms(2-4) ns len
    by (auto simp: dlt_user_log_write_raw_internal_def nr i l1_def l2_def l3_def log_fits_def Let_def)
  show ?thesis
  proof (cases "log_fits u l d")
    case True
    then have room: "length (logged l) + length d \<le> u_log_buf_len u" by (simp add: log_fits_def)
    have "extends u ([] @ (if ?v then le_bytes 4 (uint (raw_type_info with_var fmt)) else [])) l l1"
      unfolding l1_def using assms(1) room len by (intro ext_put_if ext_refl) auto
    from ext_put [OF this, of "le_bytes 2 (int (length dat))"]
    have 2: "extends u ((if ?v then le_bytes 4 (uint (raw_type_info with_var fmt)) else []) @ le_bytes 2 (int (length dat))) l l2"
      using room len by (auto simp: l2_def)
    note 3 = ext_attr_if [OF 2 assms(5), of "?v \<and> with_var", folded l3_def]
    have "extends u d l (put_log dat l3)"
      using ext_put [OF 3, of dat] room len by (auto simp: d raw_bytes_def)
    then have "wrote_arg u d l (0, Some (count_arg (put_log dat l3)))"
      by (rule wrote_argI) (simp add: l3_def l2_def l1_def)
    with True show ?thesis by (simp add: eq)
  qed (simp add: eq)
qed

lemma length_attr_bytes:
  assumes "varinfo_ok v"
  shows "length (attr_bytes verbose dat ti v) = length dat + (if verbose then 4 + (case v of None \<Rightarrow> 0
    | Some (nm, un, with_unit) \<Rightarrow> 2 + name_size nm + (if with_unit then 2 + name_size un else 0)) else 0)"
proof (cases v)
  case (Some a)
  obtain nm un w where a: "a = (nm, un, w)" by (cases a)
  with assms Some have "name_ok nm" "name_ok un" "w \<or> un = None" by (auto simp: varinfo_ok_def)
  then show ?thesis by (auto simp: Some a attr_bytes_def length_name_bytes)
qed (simp add: attr_bytes_def)

lemma attr_wrote:
  assumes "log_ok u l" "u_initialised u" "length dat < 65536" "varinfo_ok v"
    and d: "d = attr_bytes (is_verbose_mode u (Some l)) dat ti v"
  shows "if log_fits u l d then wrote_arg u d l (dlt_user_log_write_generic_attr u (Some l) dat ti v)
    else dlt_user_log_write_generic_attr u (Some l) dat ti v = (- 6, Some l)"
proof -
  note nr = no_room_iff [OF assms(1)]
  note len = length_attr_bytes [OF assms(4), of "is_verbose_mode u (Some l)" dat ti, folded d]
  note ext0 = ext_refl [OF assms(1)]
  consider (plain) "\<not> is_verbose_mode u (Some l)" | (simple) "is_verbose_mode u (Some l)" "v = None"
    | (info) nm un w where "is_verbose_mode u (Some l)" "v = Some (nm, un, w)" by (cases v) auto
  then show ?thesis
  proof cases
    case plain
    then have d': "d = dat" by (simp add: d attr_bytes_def)
    then show ?thesis
      using plain assms(2,3) ext_put [OF ext0, of dat]
      by (auto simp: dlt_user_log_write_generic_attr_def nr log_fits_def intro!: wrote_argI)
  next
    case simple
    then have d': "d = le_bytes 4 (uint ti) @ dat" by (simp add: d attr_bytes_def)
    have "extends u d l (put_log dat (put_log (le_bytes 4 (uint ti)) l))" if "log_fits u l d"
      using ext_put [OF ext_put [OF ext0, of "le_bytes 4 (uint ti)"], of dat] that by (simp add: d' log_fits_def)
    then show ?thesis
      using simple assms(2,3) len
      by (auto simp: dlt_user_log_write_generic_attr_def nr log_fits_def intro!: wrote_argI)
  next
    case info
    have ok: "name_ok nm" "name_ok un" "w \<or> un = None" using assms(4) info(2) by (auto simp: varinfo_ok_def)
    note ns = name_size_bound [of nm] name_size_bound [of un]
    let ?ti = "le_bytes 4 (uint (ti OR DLT_TYPE_INFO_VARI))"
    define l2 where "l2 = put_log (le_bytes 2 (int (name_size nm))) (put_log ?ti l)"
    define l3 where "l3 = (if w then put_log (le_bytes 2 (int (name_size un))) l2 else l2)"
    define l5 where "l5 = put_log dat (put_name un (put_name nm l3))"
    have len': "length d = length dat + (6 + name_size nm + (if w then 2 + name_size un else 0))"
      using len info by simp
    have d': "d = ((((([] @ ?ti) @ le_bytes 2 (int (name_size nm))) @ (if w then le_bytes 2 (int (name_size un)) else [])) @
        name_bytes nm) @ name_bytes un) @ dat" using info by (simp add: d attr_bytes_def)
    have "extends u d l l5" if "log_fits u l d"
    proof -
      have un0: "\<not> w \<Longrightarrow> name_size un = 0" using ok(3) by (auto simp: name_size_def)
      have room: "length (logged l) + length d \<le> u_log_buf_len u" using that by (simp add: log_fits_def)
      show ?thesis
        unfolding d' l5_def l3_def l2_def using room len' ok(1,2) un0
        by (intro ext_put ext_name ext_put_if ext0) (auto simp: length_name_bytes split: if_splits)
    qed
    then have "wrote_arg u d l (0, Some (count_arg l5))" if "log_fits u l d"
      using that by (intro wrote_argI) (simp_all add: l5_def l3_def l2_def)
    moreover have "dlt_user_log_write_generic_attr u (Some l) dat ti v =
      (if log_fits u l d then (0, Some (count_arg l5)) else (- 6, Some l))"
      using info assms(2,3) ns len'
      by (auto simp: dlt_user_log_write_generic_attr_def nr log_fits_def l5_def l3_def l2_def Let_def)
    ultimately show ?thesis by simp
  qed
qed

definition formatted_bytes :: "bool \<Rightarrow> byte list \<Rightarrow> 32 word \<Rightarrow> nat \<Rightarrow> byte list" where
  "formatted_bytes verbose dat ti fmt =
     (if verbose then le_bytes 4 (uint (if 1 \<le> fmt \<and> fmt \<le> 4 then ti OR DLT_SCOD_HEX
        else if 5 \<le> fmt \<and> fmt \<le> 6 then ti OR DLT_SCOD_BIN else ti)) else []) @ dat"

lemma formatted_wrote:
  assumes "log_ok u l" "u_initialised u" "length dat < 65536" "fmt < 7"
    and d: "d = formatted_bytes (is_verbose_mode u (Some l)) dat ti fmt"
  shows "if log_fits u l d then wrote_arg u d l (dlt_user_log_write_generic_formatted u (Some l) dat ti fmt)
    else dlt_user_log_write_generic_formatted u (Some l) dat ti fmt = (- 6, Some l)"
proof -
  note nr = no_room_iff [OF assms(1)]
  have i: "i16 (int fmt) = int fmt" using assms(4) by (simp add: i16_id)
  let ?v = "is_verbose_mode u (Some l)"
  define t where "t = le_bytes 4 (uint (if 1 \<le> fmt \<and> fmt \<le> 4 then ti OR DLT_SCOD_HEX
        else if 5 \<le> fmt \<and> fmt \<le> 6 then ti OR DLT_SCOD_BIN else ti))"
  define l2 where "l2 = put_log dat (if ?v then put_log t l else l)"
  have d': "d = ([] @ (if ?v then t else [])) @ dat" by (simp add: d formatted_bytes_def t_def)
  have len: "length t = 4" by (simp add: t_def)
  have "extends u d l l2" if "log_fits u l d"
    unfolding d' l2_def using that len assms(1)
    by (intro ext_put ext_put_if ext_refl) (auto simp: log_fits_def d' split: if_splits)
  then have "wrote_arg u d l (0, Some (count_arg l2))" if "log_fits u l d"
    using that by (intro wrote_argI) (simp_all add: l2_def)
  moreover have "dlt_user_log_write_generic_formatted u (Some l) dat ti fmt =
    (if log_fits u l d then (0, Some (count_arg l2)) else (- 6, Some l))"
    using assms(2-4) len
    by (auto simp: dlt_user_log_write_generic_formatted_def nr i log_fits_def l2_def d' t_def Let_def)
  ultimately show ?thesis by simp
qed

text \<open>A string that fits: its size counts the zero byte behind it.\<close>

definition string_bytes :: "bool \<Rightarrow> byte list \<Rightarrow> nat \<Rightarrow> bool \<Rightarrow> byte list option \<Rightarrow> bool \<Rightarrow> byte list" where
  "string_bytes verbose t n utf8 nm with_var_info =
     (if verbose then le_bytes 4 (uint (string_type_info utf8 with_var_info)) else []) @
     le_bytes 2 (int n) @
     (if verbose \<and> with_var_info then le_bytes 2 (int (name_size nm)) @ name_bytes nm else []) @ t"

lemma length_string_bytes:
  "name_ok nm \<Longrightarrow> length (string_bytes v t n utf8 nm w) = string_overhead v w nm + 2 + length t"
  by (simp add: string_bytes_def string_overhead_def length_name_bytes)

lemma string_header_extends:
  assumes "log_ok u l" "name_ok nm" "length (logged l) + string_overhead v w nm + 2 \<le> u_log_buf_len u"
  shows "extends u (string_bytes v [] n utf8 nm w) l (string_header v utf8 n nm w l)"
proof -
  let ?t = "le_bytes 4 (uint (string_type_info utf8 w))"
  have room: "length (logged l) + (if v then 4 else 0) + 2 + (if v \<and> w then 2 + name_size nm else 0) \<le> u_log_buf_len u"
    using assms(3) by (auto simp: string_overhead_def split: if_splits)
  have "extends u ((([] @ (if v then ?t else [])) @ le_bytes 2 (int n)) @
      (if v \<and> w then le_bytes 2 (int (name_size nm)) @ name_bytes nm else [])) l
    (if v \<and> w then put_name nm (put_log (le_bytes 2 (int (name_size nm))) (put_log (le_bytes 2 (int n)) (if v then put_log ?t l else l)))
     else put_log (le_bytes 2 (int n)) (if v then put_log ?t l else l))"
    using room assms(1,2) by (intro ext_attr_if ext_put ext_put_if ext_refl) (auto split: if_splits)
  then show ?thesis by (simp add: string_header_def string_bytes_def Let_def)
qed

lemma string_bytes_snoc: "string_bytes v (a @ b) n utf8 nm w = string_bytes v a n utf8 nm w @ b"
  by (simp add: string_bytes_def)

lemma overhead_bound: "string_overhead v w nm < 65542"
  using name_size_bound [of nm] by (simp add: string_overhead_def)

lemma put_header_args [simp]: "l_args_num (string_header v utf8 n nm w l) = l_args_num l"
  by (simp add: string_header_def Let_def)

text \<open>The room that is left for the text of a string, behind its header.\<close>

definition string_room :: "DltUser \<Rightarrow> DltContextData \<Rightarrow> bool \<Rightarrow> byte list option \<Rightarrow> bool \<Rightarrow> int" where
  "string_room u l v nm w =
     int (u_log_buf_len u) - int (length (logged l) + string_overhead v w nm + 2)"

lemma string_wrote:
  assumes "log_ok u l" "u_initialised u" "name_ok nm" "len < 65535" "len \<le> length t"
    and v: "v = is_verbose_mode u (Some l)" and room: "int len + 1 \<le> string_room u l v nm w"
  shows "wrote_arg u (string_bytes v (take len t @ [0]) (len + 1) utf8 nm w) l
    (dlt_user_log_write_sized_string_utils_attr u (Some l) (Some (pre, t)) len utf8 nm w)"
proof -
  have buf: "u_log_buf_len u < 65536" using log_ok_len [OF assms(1)] by simp
  have arg: "u16 (int len + 1) = len + 1" using assms(4) by (simp add: u16_id)
  define l1 where "l1 = string_header v utf8 (len + 1) nm w l"
  have h: "extends u (string_bytes v [] (len + 1) utf8 nm w) l l1"
    unfolding l1_def using assms(1,3) room by (intro string_header_extends) (auto simp: string_room_def)
  have tl: "length (take len t @ [0]) = len + 1" using assms(5) by simp
  define l2 where "l2 = put_log (take len t @ [0]) l1"
  have "extends u (string_bytes v [] (len + 1) utf8 nm w @ take len t @ [0]) l l2"
    unfolding l2_def using room assms(3) tl
    by (intro ext_put [OF h]) (auto simp: string_room_def length_string_bytes)
  then have "wrote_arg u (string_bytes v (take len t @ [0]) (len + 1) utf8 nm w) l (0, Some (count_arg l2))"
    unfolding string_bytes_snoc [of v "[]" "take len t @ [0]", simplified]
    by (intro wrote_argI) (simp_all add: l2_def l1_def)
  moreover have "l2 = l1\<lparr>l_buffer := map_option (\<lambda>b. memput b (nat (l_size l1)) (take len t @ [0])) (l_buffer l1),
      l_size := i32 (l_size l1 + int (len + 1))\<rparr>" using tl by (simp add: l2_def put_log_def)
  moreover have "u64 (l_size l + int (len + 1) + 2 + int (string_overhead v w nm)) \<le> u_log_buf_len u"
    using room buf log_ok_size [OF assms(1)] by (simp add: string_room_def u64_id)
  ultimately show ?thesis
    by (simp add: dlt_user_log_write_sized_string_utils_attr_def assms(2) v [symmetric] arg l1_def Let_def)
qed

lemma length_truncated: "length (STR_TRUNCATED_MESSAGE @ [0]) = 36"
  by (simp add: STR_TRUNCATED_MESSAGE_def ascii_def)

text \<open>
  A string that does not fit is cut to the room in front of the message about it; in UTF-8 a
  character that is cut in two is dropped. Nothing is written when there is no room for the message.
\<close>

definition cut_length :: "DltUser \<Rightarrow> DltContextData \<Rightarrow> bool \<Rightarrow> text_ptr \<Rightarrow> bool \<Rightarrow> byte list option \<Rightarrow> bool \<Rightarrow> nat" where
  "cut_length u l v p utf8 nm w =
     (let mx = nat (string_room u l v nm w - 36) in mx - (if utf8 then utf8_reduce p mx else 0))"

lemma string_truncated:
  assumes "log_ok u l" "u_initialised u" "name_ok nm" "len < 65535" "len \<le> length t"
    and v: "v = is_verbose_mode u (Some l)" and full: "string_room u l v nm w < int len + 1"
    and min: "36 \<le> string_room u l v nm w"
    and red: "utf8 \<Longrightarrow> utf8_reduce (pre, t) (nat (string_room u l v nm w - 36)) \<le> nat (string_room u l v nm w - 36)"
    and k: "k = cut_length u l v (pre, t) utf8 nm w"
  shows "\<exists>l'. dlt_user_log_write_sized_string_utils_attr u (Some l) (Some (pre, t)) len utf8 nm w = (- 6, Some l') \<and>
    extends u (string_bytes v (take k t @ STR_TRUNCATED_MESSAGE @ [0]) (k + 36) utf8 nm w) l l' \<and>
    l_args_num l' = i32 (l_args_num l + 1)"
proof -
  let ?over = "string_overhead v w nm"
  let ?msg = "STR_TRUNCATED_MESSAGE @ [0]"
  obtain n where n: "length (logged l) = n" and sz: "l_size l = int n" using log_ok_size [OF assms(1)] by blast
  have buf: "u_log_buf_len u < 65536" "n \<le> u_log_buf_len u" using log_ok_len [OF assms(1)] n by auto
  have arg: "u16 (int len + 1) = len + 1" using assms(4) by (simp add: u16_id)
  have over: "?over < 65542" by (rule overhead_bound)
  have R: "string_room u l v nm w = int (u_log_buf_len u) - int (n + ?over + 2)" by (simp add: string_room_def n)
  define mx where "mx = u_log_buf_len u - (n + 36 + 2 + ?over)"
  have mx: "nat (string_room u l v nm w - 36) = mx" "u_log_buf_len u = n + 36 + 2 + ?over + mx"
    using min unfolding R mx_def by auto
  define r where "r = (if utf8 then utf8_reduce (pre, t) mx else 0)"
  have r: "r \<le> mx" using red mx by (simp add: r_def)
  have k': "k = mx - r" unfolding k cut_length_def mx r_def by simp
  have mxt: "mx < len" using full R mx by simp
  have full': "\<not> u64 (int n + int (len + 1) + 2 + int ?over) \<le> u_log_buf_len u"
    using full over assms(4) buf unfolding R by (simp add: u64_id)
  have minsize: "u64 (int n + 36 + 2 + int ?over) = n + 36 + 2 + ?over"
    using over buf by (simp add: u64_id)
  have fits: "(u_log_buf_len u < n + 36 + 2 + ?over) = False" using mx(2) by simp
  have sub: "u_log_buf_len u - (n + 36 + 2 + ?over) = mx" by (simp add: mx_def)
  have mx'': "u64 (int mx - int r) = k" using r mx(2) buf by (simp add: u64_id k')
  have ns: "name_size nm < 65536" by (rule name_size_bound)
  have a: "u16 (int (truncated_arg_size u l v w nm) - int r) = k + 36"
    using mx(2) buf r k' ns by (auto simp: truncated_arg_size_def sz Let_def string_overhead_def u16_id split: if_splits)
  define l1 where "l1 = string_header v utf8 (k + 36) nm w l"
  have h: "extends u (string_bytes v [] (k + 36) utf8 nm w) l l1"
    unfolding l1_def using assms(1,3) mx(2) n by (intro string_header_extends) auto
  have tk: "length (take k t) = k" using mxt assms(5) k' by simp
  have "extends u (string_bytes v [] (k + 36) utf8 nm w @ take k t) l (put_log (take k t) l1)"
    using mx(2) n tk k' assms(3) by (intro ext_put [OF h]) (simp add: length_string_bytes)
  then have e: "extends u (string_bytes v (take k t) (k + 36) utf8 nm w) l (put_log (take k t) l1)"
    using string_bytes_snoc [of v "[]" "take k t"] by simp
  have "extends u (string_bytes v (take k t) (k + 36) utf8 nm w @ ?msg) l (put_log ?msg (put_log (take k t) l1))"
    using mx(2) n tk k' assms(3) length_truncated by (intro ext_put [OF e]) (simp add: length_string_bytes)
  then have "extends u (string_bytes v (take k t @ ?msg) (k + 36) utf8 nm w) l (put_log ?msg (put_log (take k t) l1))"
    by (simp add: string_bytes_snoc)
  then have ext: "extends u (string_bytes v (take k t @ ?msg) (k + 36) utf8 nm w) l
      (count_arg (put_log ?msg (put_log (take k t) l1)))"
    by (rule ext_count)
  have "dlt_user_log_write_sized_string_utils_attr u (Some l) (Some (pre, t)) len utf8 nm w =
    (- 6, Some (count_arg (put_log ?msg (put_log (take k t) l1))))"
    unfolding dlt_user_log_write_sized_string_utils_attr_def Let_def option.case prod.case v [symmetric] arg sz
      length_truncated of_nat_numeral snd_conv
    by (simp only: assms(2) full' minsize fits sub r_def [symmetric] mx'' a l1_def simp_thms if_True if_False)
  with ext show ?thesis by (simp add: l1_def)
qed

lemma string_refused:
  assumes "log_ok u l" "u_initialised u" "len < 65535" and v: "v = is_verbose_mode u (Some l)"
    and full: "string_room u l v nm w < int len + 1" and min: "string_room u l v nm w < 36"
  shows "dlt_user_log_write_sized_string_utils_attr u (Some l) (Some p) len utf8 nm w = (- 6, Some l)"
proof -
  let ?over = "string_overhead v w nm"
  obtain n where n: "length (logged l) = n" and sz: "l_size l = int n" using log_ok_size [OF assms(1)] by blast
  have buf: "u_log_buf_len u < 65536" "n \<le> u_log_buf_len u" using log_ok_len [OF assms(1)] n by auto
  have arg: "u16 (int len + 1) = len + 1" using assms(3) by (simp add: u16_id)
  have over: "?over < 65542" by (rule overhead_bound)
  have R: "string_room u l v nm w = int (u_log_buf_len u) - int (n + ?over + 2)" by (simp add: string_room_def n)
  have full': "(u64 (int n + int (len + 1) + 2 + int ?over) \<le> u_log_buf_len u) = False"
    using full over assms(3) buf unfolding R by (simp add: u64_id)
  have small: "(u_log_buf_len u < u64 (int n + 36 + 2 + int ?over)) = True"
    using min over buf unfolding R by (simp add: u64_id)
  show ?thesis
    unfolding dlt_user_log_write_sized_string_utils_attr_def Let_def option.case prod.case v [symmetric] arg sz
      length_truncated of_nat_numeral
    by (simp only: assms(2) full' small simp_thms if_True if_False)
qed

section \<open>Where a UTF-8 string is cut\<close>

definition utf8_cont :: "byte \<Rightarrow> bool" where "utf8_cont b \<longleftrightarrow> b AND 0xC0 = 0x80"

fun utf8_char :: "byte list \<Rightarrow> bool" where
  "utf8_char [a] = (a AND 0x80 = 0)"
| "utf8_char [a, b] = (a AND 0xE0 = 0xC0 \<and> utf8_cont b)"
| "utf8_char [a, b, c] = (a AND 0xF0 = 0xE0 \<and> utf8_cont b \<and> utf8_cont c)"
| "utf8_char [a, b, c, d] = (a AND 0xF8 = 0xF0 \<and> utf8_cont b \<and> utf8_cont c \<and> utf8_cont d)"
| "utf8_char _ = False"

definition ascii_char :: "byte \<Rightarrow> bool" where "ascii_char b \<longleftrightarrow> b AND 0x80 = 0"

lemma mask_sub: "a AND m = v \<Longrightarrow> m AND k = k \<Longrightarrow> a AND k = v AND k" for a m v k :: byte
  by (metis and.assoc)

lemma cont_masks:
  assumes "utf8_cont b"
  shows "b AND 0x80 = 0x80" "b AND 0x40 = 0" "b AND 0xE0 \<noteq> 0xE0" "b AND 0xF0 \<noteq> 0xF0"
proof -
  note m = assms [unfolded utf8_cont_def]
  show "b AND 0x80 = 0x80" "b AND 0x40 = 0" using mask_sub [OF m, of "0x80"] mask_sub [OF m, of "0x40"] by simp_all
  show "b AND 0xE0 \<noteq> 0xE0" "b AND 0xF0 \<noteq> 0xF0"
    using mask_sub [of b "0xE0" "0xE0" "0x40"] mask_sub [of b "0xF0" "0xF0" "0x40"] mask_sub [OF m, of "0x40"] by auto
qed

lemma ascii_masks:
  assumes "ascii_char b"
  shows "b AND 0x80 = 0" "b AND 0xE0 \<noteq> 0xE0" "b AND 0xF0 \<noteq> 0xF0"
  using assms mask_sub [of b "0xE0" "0xE0" "0x80"] mask_sub [of b "0xF0" "0xF0" "0x80"]
  by (auto simp: ascii_char_def)

lemma lead2_masks: "a AND 0xE0 = 0xC0 \<Longrightarrow> a AND 0x80 = 0x80 \<and> a AND 0x40 = 0x40 \<and> a AND 0xE0 \<noteq> 0xE0" for a :: byte
  using mask_sub [of a "0xE0" "0xC0" "0x80"] mask_sub [of a "0xE0" "0xC0" "0x40"] by simp

lemma lead3_masks: "a AND 0xF0 = 0xE0 \<Longrightarrow>
    a AND 0x80 = 0x80 \<and> a AND 0x40 = 0x40 \<and> a AND 0xE0 = 0xE0 \<and> a AND 0xF0 \<noteq> 0xF0" for a :: byte
  using mask_sub [of a "0xF0" "0xE0" "0x80"] mask_sub [of a "0xF0" "0xE0" "0x40"]
    mask_sub [of a "0xF0" "0xE0" "0xE0"] by simp

lemma lead4_masks: "a AND 0xF8 = 0xF0 \<Longrightarrow>
    a AND 0x80 = 0x80 \<and> a AND 0x40 = 0x40 \<and> a AND 0xE0 = 0xE0 \<and> a AND 0xF0 = 0xF0" for a :: byte
  using mask_sub [of a "0xF8" "0xF0" "0x80"] mask_sub [of a "0xF8" "0xF0" "0x40"]
    mask_sub [of a "0xF8" "0xF0" "0xE0"] mask_sub [of a "0xF8" "0xF0" "0xF0"] by simp

lemma utf8_char_cases:
  assumes "utf8_char c"
  obtains a where "c = [a]" "ascii_char a"
  | a b where "c = [a, b]" "a AND 0xE0 = 0xC0" "utf8_cont b"
  | a b d where "c = [a, b, d]" "a AND 0xF0 = 0xE0" "utf8_cont b" "utf8_cont d"
  | a b d e where "c = [a, b, d, e]" "a AND 0xF8 = 0xF0" "utf8_cont b" "utf8_cont d" "utf8_cont e"
  using assms by (cases c rule: utf8_char.cases) (auto simp: ascii_char_def)

text \<open>The cut depends on the last three bytes in front of it.\<close>

lemma utf8_reduce_eq:
  assumes "mx \<le> length t" "pre @ take mx t = w @ [x, y, z]"
  shows "utf8_reduce (pre, t) mx =
    (if z AND 0x80 \<noteq> 0 then if z AND 0x40 \<noteq> 0 then 1 else if y AND 0xE0 = 0xE0 then 2
       else if x AND 0xF0 = 0xF0 then 3 else 0 else 0)"
proof -
  have "length pre + mx = length w + 3" using arg_cong [OF assms(2), of length] assms(1) by simp
  moreover have "text_tail (pre, t) mx i = (pre @ take mx t) ! (length w + i)" if "i < 3" for i
    using that calculation by (simp add: text_tail_def nth_append)
  ultimately show ?thesis
    by (simp add: utf8_reduce_def assms(2) nth_append)
qed

lemma last_byte:
  assumes "3 \<le> length pre" "\<forall>b \<in> set pre. ascii_char b" "\<forall>c \<in> set cs. utf8_char c"
  shows "\<exists>w x. pre @ concat cs = w @ [x] \<and> x AND 0xF0 \<noteq> 0xF0"
proof (cases cs rule: rev_cases)
  case Nil
  from assms(1) obtain w x where pre: "pre = w @ [x]" by (cases pre rule: rev_cases) auto
  then have "ascii_char x" using assms(2) by simp
  then show ?thesis using Nil pre ascii_masks by auto
next
  case (snoc cs' c)
  then have "utf8_char c" using assms(3) by simp
  then show ?thesis by (cases rule: utf8_char_cases) (auto simp: snoc ascii_masks cont_masks)
qed

lemma exists_last3: "3 \<le> length (xs :: 'a list) \<Longrightarrow> \<exists>w x y z. xs = w @ [x, y, z]"
proof -
  assume "3 \<le> length xs"
  then have "length (drop (length xs - 3) xs) = 3" by simp
  moreover have "\<exists>x y z. ys = [x, y, z]" if "length ys = 3" for ys :: "'a list"
    using that by (auto simp: numeral_3_eq_3 length_Suc_conv)
  ultimately obtain x y z where "drop (length xs - 3) xs = [x, y, z]" by blast
  then show ?thesis by (metis append_take_drop_id)
qed

lemma reduce_at_boundary:
  assumes "3 \<le> length pre" "\<forall>b \<in> set pre. ascii_char b" "\<forall>c \<in> set cs. utf8_char c"
    and "mx \<le> length t" "take mx t = concat cs"
  shows "utf8_reduce (pre, t) mx = 0"
proof (cases cs rule: rev_cases)
  case Nil
  obtain w x y z where pre: "pre = w @ [x, y, z]" using exists_last3 [OF assms(1)] by auto
  then have "ascii_char z" using assms(2) by simp
  then show ?thesis using utf8_reduce_eq [OF assms(4), of pre w x y z] Nil assms(5) pre
    by (simp add: ascii_masks)
next
  case (snoc cs' c)
  have c: "utf8_char c" "\<forall>c \<in> set cs'. utf8_char c" using assms(3) snoc by auto
  have e: "pre @ take mx t = (pre @ concat cs') @ c" using assms(5) snoc by simp
  obtain w x where X: "pre @ concat cs' = w @ [x]" "x AND 0xF0 \<noteq> 0xF0" using last_byte [OF assms(1,2) c(2)] by auto
  have len: "3 \<le> length (w @ [x])" using assms(1) X(1) by (metis length_append trans_le_add1)
  from c(1) show ?thesis
  proof (cases rule: utf8_char_cases)
    case (1 a)
    obtain w' y where "w = w' @ [y]" using len by (cases w rule: rev_cases) auto
    with e X 1 have "pre @ take mx t = w' @ [y, x, a]" by simp
    then show ?thesis using utf8_reduce_eq [OF assms(4)] 1 by (simp add: ascii_masks)
  next
    case (2 a b)
    with e X have "pre @ take mx t = w @ [x, a, b]" by simp
    then show ?thesis using utf8_reduce_eq [OF assms(4)] 2 X(2) by (simp add: cont_masks lead2_masks)
  next
    case (3 a b d)
    with e have "pre @ take mx t = (pre @ concat cs') @ [a, b, d]" by simp
    then show ?thesis using utf8_reduce_eq [OF assms(4)] 3 by (simp add: cont_masks lead3_masks)
  next
    case (4 a b d f)
    with e have "pre @ take mx t = ((pre @ concat cs') @ [a]) @ [b, d, f]" by simp
    then show ?thesis using utf8_reduce_eq [OF assms(4)] 4 by (simp add: cont_masks)
  qed
qed

lemma reduce_inside:
  assumes "3 \<le> length pre" "utf8_char c" "0 < k" "k < length c"
    and "mx \<le> length t" "take mx t = concat cs @ take k c"
  shows "utf8_reduce (pre, t) mx = k"
proof -
  obtain w x y z where X: "pre @ concat cs = w @ [x, y, z]" using exists_last3 [of "pre @ concat cs"] assms(1) by auto
  have e: "pre @ take mx t = w @ [x, y, z] @ take k c" using assms(6) X by simp
  note r = utf8_reduce_eq [OF assms(5)]
  from assms(2) show ?thesis
  proof (cases rule: utf8_char_cases)
    case (1 a)
    then show ?thesis using assms(3,4) by simp
  next
    case (2 a b)
    then have "k = 1" using assms(3,4) by simp
    with 2 e have "pre @ take mx t = (w @ [x]) @ [y, z, a]" by simp
    then show ?thesis using r 2 \<open>k = 1\<close> by (simp add: lead2_masks)
  next
    case (3 a b d)
    then consider "k = 1" | "k = 2" using assms(3,4) by fastforce
    then show ?thesis
    proof cases
      case 1
      with 3 e have "pre @ take mx t = (w @ [x]) @ [y, z, a]" by simp
      then show ?thesis using r 3 1 by (simp add: lead3_masks)
    next
      case 2
      with 3 e have "pre @ take mx t = (w @ [x, y]) @ [z, a, b]" by simp
      then show ?thesis using r 3 2 by (simp add: lead3_masks cont_masks)
    qed
  next
    case (4 a b d f)
    then consider "k = 1" | "k = 2" | "k = 3" using assms(3,4) by fastforce
    then show ?thesis
    proof cases
      case 1
      with 4 e have "pre @ take mx t = (w @ [x]) @ [y, z, a]" by simp
      then show ?thesis using r 4 1 by (simp add: lead4_masks)
    next
      case 2
      with 4 e have "pre @ take mx t = (w @ [x, y]) @ [z, a, b]" by simp
      then show ?thesis using r 4 2 by (simp add: lead4_masks cont_masks)
    next
      case 3
      with 4 e have "pre @ take mx t = (w @ [x, y, z]) @ [a, b, d]" by simp
      then show ?thesis using r 4 3 by (simp add: lead4_masks cont_masks)
    qed
  qed
qed

lemma take_concat:
  "mx \<le> length (concat cs) \<Longrightarrow> \<exists>j k. take mx (concat cs) = concat (take j cs) @ take k (if j < length cs then cs ! j else []) \<and>
    (k = 0 \<or> j < length cs \<and> k < length (cs ! j)) \<and> mx = length (concat (take j cs)) + k"
proof (induction cs arbitrary: mx)
  case (Cons c cs)
  show ?case
  proof (cases "mx < length c")
    case True
    then show ?thesis by (intro exI [of _ 0] exI [of _ mx]) auto
  next
    case False
    with Cons.prems have "mx - length c \<le> length (concat cs)" by simp
    from Cons.IH [OF this] obtain j k where
      "take (mx - length c) (concat cs) = concat (take j cs) @ take k (if j < length cs then cs ! j else [])"
      "k = 0 \<or> j < length cs \<and> k < length (cs ! j)" "mx - length c = length (concat (take j cs)) + k" by blast
    with False show ?thesis by (intro exI [of _ "Suc j"] exI [of _ k]) auto
  qed
qed auto

text \<open>The cut of well-formed text is between two characters and drops less than one character.\<close>

lemma utf8_cut:
  assumes "3 \<le> length pre" "\<forall>b \<in> set pre. ascii_char b" "\<forall>c \<in> set cs. utf8_char c" "mx \<le> length (concat cs)"
  shows "\<exists>j. take (mx - utf8_reduce (pre, concat cs @ rest) mx) (concat cs @ rest) = concat (take j cs) \<and>
    utf8_reduce (pre, concat cs @ rest) mx \<le> min mx 3"
proof -
  obtain j k where t: "take mx (concat cs) = concat (take j cs) @ take k (if j < length cs then cs ! j else [])"
    and k: "k = 0 \<or> j < length cs \<and> k < length (cs ! j)" and mx: "mx = length (concat (take j cs)) + k"
    using take_concat [OF assms(4)] by blast
  have chars: "\<forall>c \<in> set (take j cs). utf8_char c" using assms(3) by (auto dest: in_set_takeD)
  have t': "take mx (concat cs @ rest) = concat (take j cs) @ take k (if j < length cs then cs ! j else [])"
    using t assms(4) by simp
  have le: "mx \<le> length (concat cs @ rest)" using assms(4) by simp
  have "utf8_reduce (pre, concat cs @ rest) mx = k"
  proof (cases "k = 0")
    case True
    then show ?thesis using reduce_at_boundary [OF assms(1,2) chars le] t' by simp
  next
    case False
    with k have j: "j < length cs" "k < length (cs ! j)" by auto
    then have "utf8_char (cs ! j)" using assms(3) by simp
    then show ?thesis using reduce_inside [OF assms(1) _ _ j(2) le] False t' j(1) by simp
  qed
  moreover have "k \<le> 3"
  proof (cases "k = 0")
    case False
    with k have "k < length (cs ! j)" "utf8_char (cs ! j)" using assms(3) by auto
    then show ?thesis using utf8_char_cases [of "cs ! j"] by fastforce
  qed simp
  moreover have "take (mx - k) (concat cs @ rest) = concat (take j cs)"
  proof -
    have "take (mx - k) ys = take (mx - k) (take mx ys)" for ys :: "byte list" by simp
    from this [of "concat cs @ rest"]
    have "take (mx - k) (concat cs @ rest) =
        take (mx - k) (concat (take j cs) @ take k (if j < length cs then cs ! j else []))"
      unfolding t' .
    then show ?thesis using mx by simp
  qed
  ultimately show ?thesis using mx by auto
qed

text \<open>Whatever the text is, the cut is not longer than the text when the bytes in front of it are plain.\<close>

lemma reduce_le:
  assumes "3 \<le> length pre" "\<forall>b \<in> set pre. ascii_char b" "mx \<le> length t"
  shows "utf8_reduce (pre, t) mx \<le> mx"
proof -
  obtain w x y z where W: "pre @ take mx t = w @ [x, y, z]" using exists_last3 [of "pre @ take mx t"] assms(1) by auto
  have len: "length pre + mx = length w + 3" using arg_cong [OF W, of length] assms(3) by simp
  have at: "ascii_char ((w @ [x, y, z]) ! i)" if "i < length pre" for i
    unfolding W [symmetric] using that assms(2) by (simp add: nth_append)
  have z: "ascii_char z" if "mx = 0" using at [of "length w + 2"] that len by (simp add: nth_append)
  have y: "ascii_char y" if "mx \<le> 1" using at [of "length w + 1"] that len by (simp add: nth_append)
  have x: "ascii_char x" if "mx \<le> 2" using at [of "length w"] that len by (simp add: nth_append)
  consider "mx = 0" | "mx = 1" | "mx = 2" | "3 \<le> mx" by linarith
  then show ?thesis
  proof cases
    case 1
    then show ?thesis unfolding utf8_reduce_eq [OF assms(3) W] using ascii_masks(1) [OF z] by simp
  next
    case 2
    then show ?thesis
      unfolding utf8_reduce_eq [OF assms(3) W] using ascii_masks(2) [OF y] ascii_masks(3) [OF x] by simp
  next
    case 3
    then show ?thesis unfolding utf8_reduce_eq [OF assms(3) W] using ascii_masks(3) [OF x] by simp
  next
    case 4
    then show ?thesis unfolding utf8_reduce_eq [OF assms(3) W] by simp
  qed
qed
end
