(* ===== verification/User_Args.thy ===== *)
theory User_Args
  imports User_Log
begin

text \<open>
  Whole messages: the arguments a program passes to the functions of \<open>User_Log\<close>, one after
  the other, and what \<open>Payload_Print\<close> makes of the buffer. An argument is written with or
  without variable information (name and unit).
\<close>

section \<open>Arguments\<close>

datatype width = W8 | W16 | W32 | W64

fun width_bytes :: "width \<Rightarrow> nat" where
  "width_bytes W8 = 1" | "width_bytes W16 = 2" | "width_bytes W32 = 4" | "width_bytes W64 = 8"

type_synonym attr_name = "byte list option option"
type_synonym attr_unit = "(byte list option \<times> byte list option) option"

datatype log_arg =
    ABool int attr_name
  | AUInt width int attr_unit
  | ASInt width int attr_unit
  | AHex width int
  | ABin8 int
  | ABin16 int
  | AFloat32 int attr_unit
  | AFloat64 int attr_unit
  | AString bool text_ptr attr_name
  | ARaw "byte list" attr_name

text \<open>The function of the interface for an argument; format 1 to 4 is hexadecimal.\<close>

fun write_arg :: "DltUser \<Rightarrow> DltContextData option \<Rightarrow> log_arg \<Rightarrow> int \<times> DltContextData option" where
  "write_arg u log (ABool v a) =
     (case a of None \<Rightarrow> dlt_user_log_write_bool u log v | Some nm \<Rightarrow> dlt_user_log_write_bool_attr u log v nm)"
| "write_arg u log (AUInt w v None) =
     (case w of W8 \<Rightarrow> dlt_user_log_write_uint8 u log v | W16 \<Rightarrow> dlt_user_log_write_uint16 u log v
      | W32 \<Rightarrow> dlt_user_log_write_uint32 u log v | W64 \<Rightarrow> dlt_user_log_write_uint64 u log v)"
| "write_arg u log (AUInt w v (Some (nm, un))) =
     (case w of W8 \<Rightarrow> dlt_user_log_write_uint8_attr u log v nm un | W16 \<Rightarrow> dlt_user_log_write_uint16_attr u log v nm un
      | W32 \<Rightarrow> dlt_user_log_write_uint32_attr u log v nm un | W64 \<Rightarrow> dlt_user_log_write_uint64_attr u log v nm un)"
| "write_arg u log (ASInt w v None) =
     (case w of W8 \<Rightarrow> dlt_user_log_write_int8 u log v | W16 \<Rightarrow> dlt_user_log_write_int16 u log v
      | W32 \<Rightarrow> dlt_user_log_write_int32 u log v | W64 \<Rightarrow> dlt_user_log_write_int64 u log v)"
| "write_arg u log (ASInt w v (Some (nm, un))) =
     (case w of W8 \<Rightarrow> dlt_user_log_write_int8_attr u log v nm un | W16 \<Rightarrow> dlt_user_log_write_int16_attr u log v nm un
      | W32 \<Rightarrow> dlt_user_log_write_int32_attr u log v nm un | W64 \<Rightarrow> dlt_user_log_write_int64_attr u log v nm un)"
| "write_arg u log (AHex w v) =
     (case w of W8 \<Rightarrow> dlt_user_log_write_uint8_formatted u log v 1 | W16 \<Rightarrow> dlt_user_log_write_uint16_formatted u log v 2
      | W32 \<Rightarrow> dlt_user_log_write_uint32_formatted u log v 3 | W64 \<Rightarrow> dlt_user_log_write_uint64_formatted u log v 4)"
| "write_arg u log (ABin8 v) = dlt_user_log_write_uint8_formatted u log v 5"
| "write_arg u log (ABin16 v) = dlt_user_log_write_uint16_formatted u log v 6"
| "write_arg u log (AFloat32 v a) =
     (case a of None \<Rightarrow> dlt_user_log_write_float32 u log v | Some (nm, un) \<Rightarrow> dlt_user_log_write_float32_attr u log v nm un)"
| "write_arg u log (AFloat64 v a) =
     (case a of None \<Rightarrow> dlt_user_log_write_float64 u log v | Some (nm, un) \<Rightarrow> dlt_user_log_write_float64_attr u log v nm un)"
| "write_arg u log (AString False p a) =
     (case a of None \<Rightarrow> dlt_user_log_write_string u log (Some p) | Some nm \<Rightarrow> dlt_user_log_write_string_attr u log (Some p) nm)"
| "write_arg u log (AString True p a) =
     (case a of None \<Rightarrow> dlt_user_log_write_utf8_string u log (Some p) | Some nm \<Rightarrow> dlt_user_log_write_utf8_string_attr u log (Some p) nm)"
| "write_arg u log (ARaw bs a) =
     (case a of None \<Rightarrow> dlt_user_log_write_raw u log (Some bs) (length bs)
      | Some nm \<Rightarrow> dlt_user_log_write_raw_attr u log (Some bs) (length bs) nm)"

text \<open>Several arguments; \<open>write_args\<close> stops at an error, \<open>log_args\<close> ignores the results as the macros do.\<close>

fun write_args :: "DltUser \<Rightarrow> DltContextData option \<Rightarrow> log_arg list \<Rightarrow> int \<times> DltContextData option" where
  "write_args u log [] = (0, log)"
| "write_args u log (a # as) =
     (case write_arg u log a of (rc, log') \<Rightarrow> if rc = 0 then write_args u log' as else (rc, log'))"

fun log_args :: "DltUser \<Rightarrow> DltContextData option \<Rightarrow> log_arg list \<Rightarrow> DltContextData option" where
  "log_args u log [] = log"
| "log_args u log (a # as) = log_args u (snd (write_arg u log a)) as"

section \<open>The bytes of an argument\<close>

definition unit_info :: "attr_unit \<Rightarrow> VarInfo option" where
  "unit_info a = map_option (\<lambda>(nm, un). (nm, un, True)) a"

definition the_name :: "attr_name \<Rightarrow> byte list option" where
  "the_name a = (case a of None \<Rightarrow> None | Some nm \<Rightarrow> nm)"

definition width_tyle :: "width \<Rightarrow> 32 word" where
  "width_tyle w = (case w of W8 \<Rightarrow> 1 | W16 \<Rightarrow> 2 | W32 \<Rightarrow> 3 | W64 \<Rightarrow> 4)"

definition text_of :: "text_ptr \<Rightarrow> byte list" where "text_of p = c_string (snd p)"

fun log_arg_bytes :: "bool \<Rightarrow> log_arg \<Rightarrow> byte list" where
  "log_arg_bytes v (ABool x a) = attr_bytes v (le_bytes 1 x) (DLT_TYPE_INFO_BOOL OR 1) (map_option (\<lambda>nm. (nm, None, False)) a)"
| "log_arg_bytes v (AUInt w x a) = attr_bytes v (le_bytes (width_bytes w) x) (DLT_TYPE_INFO_UINT OR width_tyle w) (unit_info a)"
| "log_arg_bytes v (ASInt w x a) = attr_bytes v (le_bytes (width_bytes w) x) (DLT_TYPE_INFO_SINT OR width_tyle w) (unit_info a)"
| "log_arg_bytes v (AHex w x) =
     formatted_bytes v (le_bytes (width_bytes w) x) (DLT_TYPE_INFO_UINT OR width_tyle w) (nat (uint (width_tyle w)))"
| "log_arg_bytes v (ABin8 x) = formatted_bytes v (le_bytes 1 x) (DLT_TYPE_INFO_UINT OR 1) 5"
| "log_arg_bytes v (ABin16 x) = formatted_bytes v (le_bytes 2 x) (DLT_TYPE_INFO_UINT OR 2) 6"
| "log_arg_bytes v (AFloat32 x a) = attr_bytes v (le_bytes 4 x) (DLT_TYPE_INFO_FLOA OR 3) (unit_info a)"
| "log_arg_bytes v (AFloat64 x a) = attr_bytes v (le_bytes 8 x) (DLT_TYPE_INFO_FLOA OR 4) (unit_info a)"
| "log_arg_bytes v (AString utf8 p a) =
     string_bytes v (text_of p @ [0]) (length (text_of p) + 1) utf8 (the_name a) (a \<noteq> None)"
| "log_arg_bytes v (ARaw bs a) = raw_bytes v bs 0 (the_name a) (a \<noteq> None)"

text \<open>
  Attributes are strings with an end, raw data and texts are shorter than 65535 bytes, and the
  three bytes in front of a UTF-8 text are plain characters.
\<close>

definition unit_ok :: "attr_unit \<Rightarrow> bool" where
  "unit_ok a \<longleftrightarrow> (case a of None \<Rightarrow> True | Some (nm, un) \<Rightarrow> name_ok nm \<and> name_ok un)"

fun arg_ok :: "log_arg \<Rightarrow> bool" where
  "arg_ok (ABool x a) = name_ok (the_name a)"
| "arg_ok (AUInt w x a) = unit_ok a"
| "arg_ok (ASInt w x a) = unit_ok a"
| "arg_ok (AFloat32 x a) = unit_ok a"
| "arg_ok (AFloat64 x a) = unit_ok a"
| "arg_ok (AString utf8 p a) =
     (name_ok (the_name a) \<and> 0 \<in> set (snd p) \<and> length (text_of p) < 65535 \<and>
      (utf8 \<longrightarrow> 3 \<le> length (fst p) \<and> (\<forall>b \<in> set (fst p). ascii_char b)))"
| "arg_ok (ARaw bs a) = (name_ok (the_name a) \<and> length bs < 65536)"
| "arg_ok _ = True"

lemmas writer_defs =
  dlt_user_log_write_bool_def dlt_user_log_write_bool_attr_def
  dlt_user_log_write_uint8_def dlt_user_log_write_uint16_def dlt_user_log_write_uint32_def dlt_user_log_write_uint64_def
  dlt_user_log_write_uint8_attr_def dlt_user_log_write_uint16_attr_def dlt_user_log_write_uint32_attr_def
  dlt_user_log_write_uint64_attr_def
  dlt_user_log_write_int8_def dlt_user_log_write_int16_def dlt_user_log_write_int32_def dlt_user_log_write_int64_def
  dlt_user_log_write_int8_attr_def dlt_user_log_write_int16_attr_def dlt_user_log_write_int32_attr_def
  dlt_user_log_write_int64_attr_def
  dlt_user_log_write_uint8_formatted_def dlt_user_log_write_uint16_formatted_def
  dlt_user_log_write_uint32_formatted_def dlt_user_log_write_uint64_formatted_def
  dlt_user_log_write_float32_def dlt_user_log_write_float64_def
  dlt_user_log_write_float32_attr_def dlt_user_log_write_float64_attr_def
  dlt_user_log_write_string_def dlt_user_log_write_string_attr_def
  dlt_user_log_write_utf8_string_def dlt_user_log_write_utf8_string_attr_def
  dlt_user_log_write_raw_def dlt_user_log_write_raw_attr_def

lemma write_arg_generic:
  "write_arg u log (ABool x b) =
     dlt_user_log_write_generic_attr u log (le_bytes 1 x) (DLT_TYPE_INFO_BOOL OR 1) (map_option (\<lambda>nm. (nm, None, False)) b)"
  "write_arg u log (AUInt w x a) =
     dlt_user_log_write_generic_attr u log (le_bytes (width_bytes w) x) (DLT_TYPE_INFO_UINT OR width_tyle w) (unit_info a)"
  "write_arg u log (ASInt w x a) =
     dlt_user_log_write_generic_attr u log (le_bytes (width_bytes w) x) (DLT_TYPE_INFO_SINT OR width_tyle w) (unit_info a)"
  "write_arg u log (AFloat32 x a) =
     dlt_user_log_write_generic_attr u log (le_bytes 4 x) (DLT_TYPE_INFO_FLOA OR 3) (unit_info a)"
  "write_arg u log (AFloat64 x a) =
     dlt_user_log_write_generic_attr u log (le_bytes 8 x) (DLT_TYPE_INFO_FLOA OR 4) (unit_info a)"
  "write_arg u log (AHex w x) = dlt_user_log_write_generic_formatted u log (le_bytes (width_bytes w) x)
     (DLT_TYPE_INFO_UINT OR width_tyle w) (nat (uint (width_tyle w)))"
  "write_arg u log (ARaw bs b) =
     dlt_user_log_write_raw_internal u log (Some bs) (length bs) 0 (the_name b) (b \<noteq> None)"
  "write_arg u log (AString utf8 p b) =
     dlt_user_log_write_string_utils_attr u log (Some p) utf8 (the_name b) (b \<noteq> None)"
  by (cases a; cases w; cases b; cases utf8; simp add: writer_defs unit_info_def the_name_def width_tyle_def split: prod.split)+

declare write_arg.simps [simp del]

lemma unit_info_ok: "unit_ok a \<Longrightarrow> varinfo_ok (unit_info a)"
  by (cases a) (auto simp: unit_ok_def unit_info_def varinfo_ok_def)

lemma name_info_ok: "name_ok (the_name a) \<Longrightarrow> varinfo_ok (map_option (\<lambda>nm. (nm, None, False)) a)"
  by (cases a) (auto simp: the_name_def varinfo_ok_def name_ok_def)

text \<open>The outcome of one argument: its bytes are appended, or a cut string, or nothing.\<close>

definition outcome :: "DltUser \<Rightarrow> DltContextData \<Rightarrow> byte list \<Rightarrow> int \<times> DltContextData option \<Rightarrow> bool" where
  "outcome u l d r \<longleftrightarrow> wrote_arg u d l r \<or>
     (fst r = - 6 \<and> (\<exists>l' d'. snd r = Some l' \<and> extends u d' l l'))"

lemma outcome_if:
  assumes "log_ok u l" "if c then wrote_arg u d l r else r = (- 6, Some l)"
  shows "outcome u l d r"
  using assms ext_refl [OF assms(1)] by (auto simp: outcome_def split: if_splits)

lemma string_outcome:
  assumes "log_ok u l" "u_initialised u" "name_ok nm" "0 \<in> set (snd p)" "length (text_of p) < 65535"
    and "utf8 \<Longrightarrow> 3 \<le> length (fst p) \<and> (\<forall>b \<in> set (fst p). ascii_char b)"
  shows "outcome u l (string_bytes (is_verbose_mode u (Some l)) (text_of p @ [0]) (length (text_of p) + 1) utf8 nm w)
    (dlt_user_log_write_string_utils_attr u (Some l) (Some p) utf8 nm w)"
proof -
  obtain pre t where p: "p = (pre, t)" by (cases p)
  let ?v = "is_verbose_mode u (Some l)" and ?n = "length (text_of p)"
  have n: "?n \<le> length t" "take ?n t = text_of p"
    by (auto simp: text_of_def p c_string_def length_takeWhile_le takeWhile_eq_take [symmetric])
  have eq: "dlt_user_log_write_string_utils_attr u (Some l) (Some p) utf8 nm w =
      dlt_user_log_write_sized_string_utils_attr u (Some l) (Some (pre, t)) ?n utf8 nm w"
    using assms(5) by (simp add: dlt_user_log_write_string_utils_attr_def p text_of_def u16_id)
  consider (fits) "int ?n + 1 \<le> string_room u l ?v nm w"
    | (cut) "string_room u l ?v nm w < int ?n + 1" "36 \<le> string_room u l ?v nm w"
    | (none) "string_room u l ?v nm w < int ?n + 1" "string_room u l ?v nm w < 36" by linarith
  then show ?thesis
  proof cases
    case fits
    from string_wrote [OF assms(1-3,5) n(1) refl fits] show ?thesis by (simp add: outcome_def eq n(2))
  next
    case cut
    have "utf8 \<Longrightarrow> utf8_reduce (pre, t) (nat (string_room u l ?v nm w - 36)) \<le> nat (string_room u l ?v nm w - 36)"
      using assms(6) p cut n(1) by (intro reduce_le) auto
    from string_truncated [of u l nm ?n t ?v w utf8 pre, OF assms(1-3,5) n(1) refl cut this refl]
    obtain l' d where "dlt_user_log_write_sized_string_utils_attr u (Some l) (Some (pre, t)) ?n utf8 nm w = (- 6, Some l')"
      "extends u d l l'" by blast
    then show ?thesis by (auto simp: outcome_def eq)
  next
    case none
    from string_refused [OF assms(1,2,5) refl none] ext_refl [OF assms(1)] show ?thesis
      by (auto simp: outcome_def eq)
  qed
qed

lemma write_arg_outcome:
  assumes "log_ok u l" "u_initialised u" "arg_ok a"
  shows "outcome u l (log_arg_bytes (is_verbose_mode u (Some l)) a) (write_arg u (Some l) a)"
proof -
  note attr = outcome_if [OF assms(1) attr_wrote [OF assms(1,2) _ _ refl]]
  note formatted = outcome_if [OF assms(1) formatted_wrote [OF assms(1,2) _ _ refl]]
  note raw = outcome_if [OF assms(1) raw_wrote [OF assms(1,2) _ _ _ refl]]
  have w: "width_bytes w < 65536" for w by (cases w) auto
  have f: "nat (uint (width_tyle w)) < 7" for w by (cases w) (auto simp: width_tyle_def)
  show ?thesis
  proof (cases a)
    case (AString utf8 p b)
    then show ?thesis using string_outcome [OF assms(1,2), of "the_name b" p utf8] assms(3)
      by (simp add: write_arg_generic)
  next
    case (ARaw bs b)
    then show ?thesis using raw [of bs 0 "the_name b" "b \<noteq> None"] assms(3) by (simp add: write_arg_generic)
  next
    case (AHex w x)
    then show ?thesis using formatted [of "le_bytes (width_bytes w) x" "nat (uint (width_tyle w))"] w f
      by (simp add: write_arg_generic)
  next
    case (ABin8 x)
    then show ?thesis using formatted [of "le_bytes 1 x" 5] by (simp add: write_arg.simps writer_defs)
  next
    case (ABin16 x)
    then show ?thesis using formatted [of "le_bytes 2 x" 6] by (simp add: write_arg.simps writer_defs)
  qed (use assms(3) w in \<open>simp_all add: write_arg_generic attr unit_info_ok name_info_ok\<close>)
qed

lemma verbose_same: "same_message l l' \<Longrightarrow> is_verbose_mode u (Some l') = is_verbose_mode u (Some l)"
  by (simp add: is_verbose_mode_def same_message_def)

lemma outcome_extends: "outcome u l d r \<Longrightarrow> \<exists>d' l'. snd r = Some l' \<and> extends u d' l l'"
  by (auto simp: outcome_def wrote_arg_def)

lemma log_args_extends:
  assumes "log_ok u l" "u_initialised u" "\<forall>a \<in> set args. arg_ok a"
  shows "\<exists>d l'. log_args u (Some l) args = Some l' \<and> extends u d l l'"
  using assms(1,3)
proof (induction args arbitrary: l)
  case Nil
  then show ?case using ext_refl by auto
next
  case (Cons a as)
  obtain d1 l1 where 1: "snd (write_arg u (Some l) a) = Some l1" "extends u d1 l l1"
    using outcome_extends [OF write_arg_outcome [OF Cons.prems(1) assms(2), of a]] Cons.prems(2) by auto
  then have "log_ok u l1" by (simp add: extends_def)
  from Cons.IH [OF this] Cons.prems(2) obtain d2 l2 where
    2: "log_args u (Some l1) as = Some l2" "extends u d2 l1 l2" by auto
  with 1 have "extends u (d1 @ d2) l l2" by (auto simp: extends_def intro: same_message_trans)
  with 1 2 show ?case by auto
qed

lemma write_args_bytes:
  assumes "log_ok u l" "u_initialised u" "\<forall>a \<in> set args. arg_ok a" "write_args u (Some l) args = (0, Some l')"
    and "0 \<le> l_args_num l" "l_args_num l + int (length args) < 2147483648"
  shows "extends u (concat (map (log_arg_bytes (is_verbose_mode u (Some l))) args)) l l' \<and>
    l_args_num l' = l_args_num l + int (length args)"
  using assms(1,3-6)
proof (induction args arbitrary: l)
  case Nil
  then show ?case using ext_refl by simp
next
  case (Cons a as)
  obtain rc log1 where w: "write_arg u (Some l) a = (rc, log1)" by fastforce
  then have rc: "rc = 0" "write_args u log1 as = (0, Some l')" using Cons.prems(3) by (auto split: if_splits)
  have "wrote_arg u (log_arg_bytes (is_verbose_mode u (Some l)) a) l (rc, log1)"
    using write_arg_outcome [OF Cons.prems(1) assms(2), of a] Cons.prems(2) w rc by (auto simp: outcome_def)
  then obtain l1 where l1: "log1 = Some l1" "extends u (log_arg_bytes (is_verbose_mode u (Some l)) a) l l1"
    "l_args_num l1 = i32 (l_args_num l + 1)" by (auto simp: wrote_arg_def)
  have n: "l_args_num l1 = l_args_num l + 1" using l1(3) Cons.prems(4,5) by (simp add: i32_id)
  have ok: "log_ok u l1" "same_message l l1" using l1(2) by (auto simp: extends_def)
  have "extends u (concat (map (log_arg_bytes (is_verbose_mode u (Some l1))) as)) l1 l' \<and>
    l_args_num l' = l_args_num l1 + int (length as)"
    using Cons.prems rc l1(1) n by (intro Cons.IH ok) auto
  with l1(2) n show ?case
    by (auto simp: extends_def verbose_same [OF ok(2)] intro: same_message_trans)
qed

section \<open>The text of the arguments\<close>

definition width_value :: "width \<Rightarrow> int \<Rightarrow> int" where
  "width_value w x = x mod 256 ^ width_bytes w"

fun arg_text :: "(int \<Rightarrow> byte list) \<times> (int \<Rightarrow> byte list) \<Rightarrow> log_arg \<Rightarrow> byte list" where
  "arg_text fl (ABool x a) = dec_text (x mod 256)"
| "arg_text fl (AUInt w x a) = dec_text (width_value w x)"
| "arg_text fl (ASInt w x a) = dec_text (sign_extend (width_bytes w) (width_value w x))"
| "arg_text fl (AHex w x) = ascii ''0x'' @
     (if w = W64 then hex_padded 8 (nat (x div 4294967296 mod 4294967296)) @ hex_padded 8 (nat (x mod 4294967296))
      else hex_padded (2 * width_bytes w) (nat (width_value w x)))"
| "arg_text fl (ABin8 x) = ascii ''0b'' @ bin_text 8 {3} (nat (x mod 256))"
| "arg_text fl (ABin16 x) = ascii ''0b'' @ bin_text 16 {3, 7, 11} (nat (x mod 65536))"
| "arg_text fl (AFloat32 x a) = fst fl (x mod 4294967296)"
| "arg_text fl (AFloat64 x a) = snd fl (x mod 18446744073709551616)"
| "arg_text fl (AString utf8 p a) = the (dlt_clean_string (Some (text_of p)) (int (length (text_of p))))"
| "arg_text fl (ARaw bs a) = hex_text 0x27 bs"

text \<open>The texts, separated by spaces.\<close>

fun spaced :: "byte list list \<Rightarrow> byte list" where
  "spaced [] = []"
| "spaced [x] = x"
| "spaced (x # y # ys) = x @ 0x20 # spaced (y # ys)"

text \<open>
  \<open>printing e n p q R s\<close>: the text is \<open>p @ q\<close>, where \<open>p\<close> ends at \<open>value_text\<close>, and the bytes \<open>R\<close>
  of the payload are left. \<open>yields\<close> says what a step reads and prints.
\<close>

definition shows_text :: "nat \<Rightarrow> byte list \<Rightarrow> byte list \<Rightarrow> bool" where
  "shows_text n p t \<longleftrightarrow> n \<le> length t \<and> take (length p + 1) t = p @ [0] \<and> 0 \<notin> set p"

definition printing :: "print_env \<Rightarrow> nat \<Rightarrow> byte list \<Rightarrow> byte list \<Rightarrow> byte list \<Rightarrow> argument_state \<Rightarrow> bool" where
  "printing e n p q R s \<longleftrightarrow> shows_text n (p @ q) (ps_text s) \<and> ps_value s = length p \<and>
     ps_length s = n - length p \<and> drop (ps_ptr s) (pe_payload e) = R \<and> ps_data s = int (length R)"

definition yields :: "print_env \<Rightarrow> nat \<Rightarrow> byte list \<Rightarrow> byte list \<Rightarrow> byte list \<Rightarrow> 'a reader \<Rightarrow> 'a \<Rightarrow> byte list \<Rightarrow> byte list \<Rightarrow> bool" where
  "yields e n p q R m x q' R' \<longleftrightarrow>
     (\<forall>s. printing e n p q R s \<longrightarrow> (\<exists>s'. m s = (Some x, s') \<and> printing e n p q' R' s'))"

lemma yields_bind:
  "yields e n p q R m x q1 R1 \<Longrightarrow> yields e n p q1 R1 (f x) y q2 R2 \<Longrightarrow> yields e n p q R (bind_r m f) y q2 R2"
  unfolding yields_def bind_r_def by fastforce

lemma yields_return: "yields e n p q R (return_r x) x q R"
  by (simp add: yields_def return_r_def)

lemma yields_read:
  "length bs = k \<Longrightarrow> yields e n p q (bs @ R) (read_value e k) bs q R"
  by (auto simp: yields_def printing_def read_value_def memget_def drop_drop [symmetric] add.commute
      simp del: drop_drop)

lemma yields_u16:
  assumes "k < 65536" "pe_htyp e AND DLT_HTYP_MSBF = 0"
  shows "yields e n p q (le_bytes 2 (int k) @ R) (read_u16 e) k q R"
proof -
  have "u16 (endian_get (pe_htyp e) (le_bytes 2 (int k))) = k"
    using assms by (simp add: endian_get_def le_val_le_bytes u16_def)
  then show ?thesis
    unfolding read_u16_def using yields_bind [OF yields_read yields_return] by (metis length_le_bytes)
qed

lemma shows_string: "shows_text n p t \<Longrightarrow> c_string t = p"
proof -
  assume s: "shows_text n p t"
  then have "t = p @ 0 # drop (length p + 1) t"
    by (metis append.assoc append_Cons append_Nil append_take_drop_id shows_text_def)
  moreover have "takeWhile (\<lambda>b. b \<noteq> 0) (p @ 0 # r) = p" for r
    using s by (auto simp: shows_text_def takeWhile_append)
  ultimately show "c_string t = p" unfolding c_string_def by metis
qed

lemma shows_strlen: "shows_text n p t \<Longrightarrow> strlen_at t 0 = length p"
  by (simp add: strlen_at_def shows_string)

lemma shows_put:
  assumes "shows_text n p t" "0 \<notin> set w" "length p + length w + 1 + length z \<le> length t"
  shows "shows_text n (p @ w) (memput t (length p) (w @ [0] @ z))"
proof -
  have "take (length p) t = take (length p) (take (length p + 1) t)" by simp
  also have "\<dots> = p" using assms(1) by (simp add: shows_text_def del: take_take)
  finally have p: "take (length p) t = p" .
  have le: "length p \<le> length t" using assms(3) by simp
  show ?thesis
    using assms p le by (simp add: shows_text_def memput_def) linarith
qed

lemma shows_snprintf:
  assumes "shows_text n p t" "0 \<notin> set w" "length w < k" "length p + k \<le> n"
  shows "shows_text n (p @ w) (snprintf_at t (length p) k w)"
proof -
  have "n \<le> length t" using assms(1) by (simp add: shows_text_def)
  then have "shows_text n (p @ w) (memput t (length p) (w @ [0] @ []))" using assms by (intro shows_put) auto
  then show ?thesis using assms(3) by (simp add: snprintf_at_def)
qed

lemma yields_put:
  assumes "0 \<notin> set w" "length p + length w < n"
  shows "yields e n p [] R (update_r (put_text w)) () w R"
  unfolding yields_def update_r_def put_text_def
proof (intro allI impI)
  fix s assume pr: "printing e n p [] R s"
  then have "shows_text n (p @ w) (snprintf_at (ps_text s) (length p) (n - length p) w)"
    using assms by (intro shows_snprintf) (auto simp: printing_def)
  with pr show "\<exists>s'. (Some (), s\<lparr>ps_text := snprintf_at (ps_text s) (ps_value s) (ps_length s) w\<rparr>) = (Some (), s') \<and>
      printing e n p w R s'" by (simp add: printing_def)
qed

lemma yields_skip: "yields e n p q (bs @ R) (skip_bytes (length bs)) () q R"
  by (auto simp: yields_def printing_def skip_bytes_def drop_drop [symmetric] add.commute simp del: drop_drop)

lemma clean_text: "dlt_clean_string (Some t) (int (length t)) = Some (map (\<lambda>c. if c = 0x0D \<or> c = 0x0A then 0x20 else c) t)"
  by (simp add: dlt_clean_string_def)

lemma yields_string:
  assumes "0 \<notin> set t" "length p + length t + 2 \<le> n"
  shows "yields e n p [] (t @ [0] @ R) (read_string e (length t + 1)) () (the (dlt_clean_string (Some t) (int (length t)))) R"
  unfolding yields_def
proof (intro allI impI)
  fix s assume pr: "printing e n p [] (t @ [0] @ R) s"
  let ?c = "map (\<lambda>c. if c = 0x0D \<or> c = 0x0A then 0x20 else c) t"
  have drop: "drop (ps_ptr s) (pe_payload e) = (t @ [0]) @ R" and data: "ps_data s = int (length ((t @ [0]) @ R))"
    using pr by (auto simp: printing_def)
  then have get: "memget (pe_payload e) (ps_ptr s) (length t + 1) = t @ [0]" by (simp add: memget_def)
  have drop': "drop (ps_ptr s + (length t + 1)) (pe_payload e) = R"
    using arg_cong [OF drop, of "drop (length t + 1)"] by (simp add: add.commute)
  have clean: "dlt_clean_string (Some (t @ [0])) (int (length t + 1)) = Some (?c @ [0])"
    by (simp add: dlt_clean_string_def)
  have "shows_text n (p @ ?c) (memput (ps_text s) (length p) (?c @ [0] @ [0]))"
  proof (rule shows_put)
    show "shows_text n p (ps_text s)" using pr by (simp add: printing_def)
    then show "length p + length ?c + 1 + length [0 :: byte] \<le> length (ps_text s)"
      using assms(2) by (simp add: shows_text_def)
  qed (use assms(1) in auto)
  moreover have "read_string e (length t + 1) s =
      (Some (), s\<lparr>ps_text := memput (ps_text s) (length p) ((?c @ [0]) @ [0]),
        ps_ptr := ps_ptr s + (length t + 1), ps_data := int (length R)\<rparr>)"
    using pr assms(2) data unfolding read_string_def get clean by (auto simp: printing_def)
  ultimately show "\<exists>s'. read_string e (length t + 1) s = (Some (), s') \<and>
      printing e n p (the (dlt_clean_string (Some t) (int (length t)))) R s'"
    using pr drop' by (auto simp: printing_def clean_text)
qed

lemma dec_number_nonzero: "0 \<notin> set (dec_number n)"
proof (induction n rule: dec_number.induct)
  case (1 n)
  have "hex_digit (n mod 10) \<noteq> 0" "n < 10 \<longrightarrow> hex_digit n \<noteq> 0"
    using hex_value_digit [of "n mod 10"] hex_value_digit [of n] by auto
  then show ?case using 1 by (subst dec_number.simps) auto
qed

lemma hex_number_nonzero: "0 \<notin> set (hex_number n)"
proof (induction n rule: hex_number.induct)
  case (1 n)
  have "hex_digit (n mod 16) \<noteq> 0" "n < 16 \<longrightarrow> hex_digit n \<noteq> 0"
    using hex_value_digit [of "n mod 16"] hex_value_digit [of n] by auto
  then show ?case using 1 by (subst hex_number.simps) auto
qed

lemma hex_text_nonzero: "d \<noteq> 0 \<Longrightarrow> 0 \<notin> set (hex_text d bs)"
  by (induction d bs rule: hex_text.induct) (auto simp: hex2_def hex2_digits)

lemma text_nonzero [simp]:
  "0 \<notin> set (dec_text i)" "0 \<notin> set (hex_padded w m)" "0 \<notin> set (bin_text k S v)"
  "0 \<notin> set (ascii ''0x'')" "0 \<notin> set (ascii ''0b'')"
  by (auto simp: dec_text_def hex_padded_def zero_filled_def bin_text_def ascii_def dec_number_nonzero
      hex_number_nonzero)

lemma yields_raw:
  assumes "length p + 3 * length bs < n" "n < 2 ^ 31"
  shows "yields e n p [] (bs @ R) (\<lambda>s. if ps_data s < int (length bs) then (None, s)
      else skip_bytes (length bs) (put_hex_string e 0x27 (length bs) s)) () (hex_text 0x27 bs) R"
  unfolding yields_def
proof (intro allI impI)
  fix s assume pr: "printing e n p [] (bs @ R) s"
  have len: "i32 (int (ps_length s)) = int (n - length p)"
    using pr assms by (simp add: printing_def i32_id)
  have drop: "drop (ps_ptr s) (pe_payload e) = bs @ R" using pr by (simp add: printing_def)
  have w: "written (dlt_print_hex_string_delim True (i32 (int (ps_length s))) (Some (drop (ps_ptr s) (pe_payload e)))
      (int (length bs)) 0x27) = hex_text 0x27 bs"
    unfolding len drop using assms(1) by (simp add: dlt_print_hex_string_delim_def written_def)
  have put: "shows_text n (p @ hex_text 0x27 bs) (memput (ps_text s) (length p) (hex_text 0x27 bs @ [0] @ []))"
    using pr assms(1) by (intro shows_put) (auto simp: printing_def shows_text_def hex_text_nonzero length_hex_text)
  have "printing e n p (hex_text 0x27 bs) (bs @ R) (put_hex_string e 0x27 (length bs) s)"
  proof (cases "hex_text 0x27 bs = []")
    case False
    then show ?thesis using pr put unfolding put_hex_string_def w by (simp add: printing_def)
  qed (use pr in \<open>unfold put_hex_string_def w, simp\<close>)
  then obtain s' where "skip_bytes (length bs) (put_hex_string e 0x27 (length bs) s) = (Some (), s')"
    "printing e n p (hex_text 0x27 bs) R s'" using yields_skip [of e n p "hex_text 0x27 bs" bs R] by (auto simp: yields_def)
  moreover have "\<not> ps_data s < int (length bs)" using pr by (simp add: printing_def)
  ultimately show "\<exists>s'. (if ps_data s < int (length bs) then (None, s)
      else skip_bytes (length bs) (put_hex_string e 0x27 (length bs) s)) = (Some (), s') \<and>
      printing e n p (hex_text 0x27 bs) R s'" by simp
qed

text \<open>Variable information is skipped.\<close>

lemma drop_prefix: "drop a xs = bs @ r \<Longrightarrow> length bs = k \<Longrightarrow> drop (a + k) xs = r"
  by (metis add.commute append_eq_conv_conj drop_drop)

lemma yields_name:
  assumes "name_ok nm" "\<not> pe_attributes e" "pe_htyp e AND DLT_HTYP_MSBF = 0"
  shows "yields e n p q (le_bytes 2 (int (name_size nm)) @ name_bytes nm @ R) (read_name e k) () q R"
  unfolding read_name_def
  using yields_skip [of e n p q "name_bytes nm" R] length_name_bytes [OF assms(1)]
  by (intro yields_bind [OF yields_u16]) (simp_all add: skip_name_plain assms name_size_bound)

lemma yields_name_unit:
  assumes "name_ok nm" "name_ok un" "\<not> pe_attributes e" "pe_htyp e AND DLT_HTYP_MSBF = 0"
  shows "yields e n p q (le_bytes 2 (int (name_size nm)) @ le_bytes 2 (int (name_size un)) @ name_bytes nm @ name_bytes un @ R)
    (read_name_unit e) () q R"
  unfolding read_name_unit_def
proof (intro yields_bind [OF yields_u16] yields_bind)
  show "yields e n p q (name_bytes nm @ name_bytes un @ R) (skip_name e 0 (name_size nm)) () q (name_bytes un @ R)"
    using yields_skip [of e n p q "name_bytes nm"] length_name_bytes [OF assms(1)] by (simp add: skip_name_plain assms)
  show "yields e n p q (name_bytes un @ R) (\<lambda>s. if ps_data s < int (name_size un) then (None, s)
      else skip_bytes (name_size un) (s\<lparr>ps_unit := (ps_ptr s, name_size un)\<rparr>)) () q R"
    using length_name_bytes [OF assms(2)]
    by (auto simp: yields_def printing_def skip_bytes_def intro!: drop_prefix)
qed (simp_all add: assms name_size_bound)

section \<open>Printing one argument\<close>

fun arg_type :: "log_arg \<Rightarrow> 32 word" where
  "arg_type (ABool x a) = (if a = None then 0x11 else 0x811)"
| "arg_type (AUInt w x a) = (DLT_TYPE_INFO_UINT OR width_tyle w) OR (if a = None then 0 else DLT_TYPE_INFO_VARI)"
| "arg_type (ASInt w x a) = (DLT_TYPE_INFO_SINT OR width_tyle w) OR (if a = None then 0 else DLT_TYPE_INFO_VARI)"
| "arg_type (AHex w x) = (DLT_TYPE_INFO_UINT OR width_tyle w) OR DLT_SCOD_HEX"
| "arg_type (ABin8 x) = 0x18041"
| "arg_type (ABin16 x) = 0x18042"
| "arg_type (AFloat32 x a) = (if a = None then 0x83 else 0x883)"
| "arg_type (AFloat64 x a) = (if a = None then 0x84 else 0x884)"
| "arg_type (AString utf8 p a) = string_type_info utf8 (a \<noteq> None)"
| "arg_type (ARaw bs a) = (if a = None then 0x400 else 0xC00)"

definition info_bytes :: "attr_unit \<Rightarrow> byte list" where
  "info_bytes a = (case a of None \<Rightarrow> []
     | Some (nm, un) \<Rightarrow> le_bytes 2 (int (name_size nm)) @ le_bytes 2 (int (name_size un)) @ name_bytes nm @ name_bytes un)"

definition named_bytes :: "attr_name \<Rightarrow> byte list" where
  "named_bytes a = (if a = None then [] else le_bytes 2 (int (name_size (the_name a))) @ name_bytes (the_name a))"

fun arg_body :: "log_arg \<Rightarrow> byte list" where
  "arg_body (ABool x a) = named_bytes a @ le_bytes 1 x"
| "arg_body (AUInt w x a) = info_bytes a @ le_bytes (width_bytes w) x"
| "arg_body (ASInt w x a) = info_bytes a @ le_bytes (width_bytes w) x"
| "arg_body (AHex w x) = le_bytes (width_bytes w) x"
| "arg_body (ABin8 x) = le_bytes 1 x"
| "arg_body (ABin16 x) = le_bytes 2 x"
| "arg_body (AFloat32 x a) = info_bytes a @ le_bytes 4 x"
| "arg_body (AFloat64 x a) = info_bytes a @ le_bytes 8 x"
| "arg_body (AString utf8 p a) = le_bytes 2 (int (length (text_of p) + 1)) @ named_bytes a @ text_of p @ [0]"
| "arg_body (ARaw bs a) = le_bytes 2 (int (length bs)) @ named_bytes a @ bs"

lemma arg_bytes_verbose: "log_arg_bytes True a = le_bytes 4 (uint (arg_type a)) @ arg_body a"
proof (cases a)
  case (AHex w x)
  then show ?thesis by (cases w) (auto simp: formatted_bytes_def width_tyle_def)
next
  case (AUInt w x b)
  then show ?thesis by (cases b) (auto simp: attr_bytes_def unit_info_def info_bytes_def)
next
  case (ASInt w x b)
  then show ?thesis by (cases b) (auto simp: attr_bytes_def unit_info_def info_bytes_def)
next
  case (ABool x b)
  then show ?thesis by (cases b) (auto simp: attr_bytes_def named_bytes_def the_name_def)
next
  case (AFloat32 x b)
  then show ?thesis by (cases b) (auto simp: attr_bytes_def unit_info_def info_bytes_def)
next
  case (AFloat64 x b)
  then show ?thesis by (cases b) (auto simp: attr_bytes_def unit_info_def info_bytes_def)
next
  case (AString utf8 p b)
  then show ?thesis by (cases b) (auto simp: string_bytes_def named_bytes_def the_name_def)
next
  case (ARaw bs b)
  then show ?thesis by (cases b) (auto simp: raw_bytes_def raw_type_info_def named_bytes_def the_name_def Let_def)
qed (simp_all add: formatted_bytes_def)

lemma endian_le: "htyp AND DLT_HTYP_MSBF = 0 \<Longrightarrow> endian_get htyp (le_bytes k x) = x mod 256 ^ k"
  by (simp add: endian_get_def le_val_le_bytes)

text \<open>\<open>good_env\<close>: little-endian message, attributes are not printed, the texts of the numbers have an end.\<close>

definition good_env :: "print_env \<Rightarrow> bool" where
  "good_env e \<longleftrightarrow> \<not> pe_attributes e \<and> pe_htyp e AND DLT_HTYP_MSBF = 0"

lemma yields_info:
  assumes "unit_ok a" "good_env e"
  shows "yields e n p q (info_bytes a @ R) (if a \<noteq> None then read_name_unit e else return_r ()) () q R"
  using assms by (cases a) (auto simp: info_bytes_def unit_ok_def good_env_def intro: yields_return yields_name_unit)

lemma yields_named:
  assumes "name_ok (the_name a)" "good_env e"
  shows "yields e n p q (named_bytes a @ R) (if a \<noteq> None then read_name e k else return_r ()) () q R"
  using assms by (auto simp: named_bytes_def good_env_def intro: yields_return yields_name)

lemma byte_value: "uint (word_of_int x :: byte) = x mod 256"
  by (simp add: unsigned_of_int take_bit_eq_mod)

lemma yields_update:
  "length bs = k \<Longrightarrow> f bs = put_text w \<Longrightarrow> 0 \<notin> set w \<Longrightarrow> length p + length w < n \<Longrightarrow>
   yields e n p [] (bs @ R) (bind_r (read_value e k) (\<lambda>bs. update_r (f bs))) () w R"
  by (rule yields_bind [OF yields_read]) (simp_all add: yields_put)

lemma width_cases [simp]:
  "has (DLT_TYPE_INFO_UINT OR width_tyle w) DLT_TYPE_INFO_SINT = False"
  "width_bytes w = 1 \<longleftrightarrow> w = W8"
  by (cases w; simp add: width_tyle_def has_def)+

lemma yields_number:
  assumes "good_env e" "tyle ti = width_tyle w" "has ti DLT_TYPE_INFO_VARI = (a \<noteq> None)" "unit_ok a"
    and "\<not> has ti DLT_TYPE_INFO_FIXP"
    and t: "t = dec_text (if has ti DLT_TYPE_INFO_SINT then sign_extend (width_bytes w) (width_value w x) else width_value w x)"
    and "length p + length t < n"
  shows "yields e n p [] (info_bytes a @ le_bytes (width_bytes w) x @ R) (print_number_arg e ti) () t R"
proof -
  have num: "yields e n p [] (le_bytes (width_bytes w) x @ R) (print_number e ti (width_bytes w)) () t R"
    unfolding print_number_def Let_def
    using assms(1,7) by (intro yields_update) (auto simp: t width_value_def endian_le good_env_def le_val_le_bytes byte_value)
  have sel: "(if tyle ti = 1 then print_number e ti 1
       else if tyle ti = 2 then print_number e ti 2
       else if tyle ti = 3 then print_number e ti 4
       else if tyle ti = 4 then print_number e ti 8
       else if tyle ti = 5 then print_hex_bytes e 16
       else fail_r) = print_number e ti (width_bytes w)"
    unfolding assms(2) by (cases w) (simp_all add: width_tyle_def)
  show ?thesis
    unfolding print_number_arg_def sel assms(3) using assms(5) num
    by (intro yields_bind [OF yields_info [OF assms(4,1)]]) (auto intro: yields_bind [OF yields_return])
qed

lemma yields_float:
  assumes "good_env e" "unit_ok a" "has ti DLT_TYPE_INFO_VARI = (a \<noteq> None)" "0 \<notin> set t" "length p + length t < n"
    and "tyle ti = 3 \<and> b = le_bytes 4 x \<and> t = pe_float32 e (x mod 4294967296) \<or>
      tyle ti = 4 \<and> b = le_bytes 8 x \<and> t = pe_float64 e (x mod 18446744073709551616)"
  shows "yields e n p [] (info_bytes a @ b @ R) (print_float_arg e ti) () t R"
proof -
  have "yields e n p [] (b @ R) (bind_r (read_value e 4) (\<lambda>bs. update_r (put_text (pe_float32 e (endian_get (pe_htyp e) bs))))) () t R"
    if "tyle ti = 3" using assms that by (intro yields_update) (auto simp: good_env_def endian_le)
  moreover have "yields e n p [] (b @ R) (bind_r (read_value e 8) (\<lambda>bs. update_r (put_text (pe_float64 e (endian_get (pe_htyp e) bs))))) () t R"
    if "tyle ti = 4" using assms that by (intro yields_update) (auto simp: good_env_def endian_le)
  ultimately show ?thesis
    unfolding print_float_arg_def assms(3) using assms(6)
    by (intro yields_bind [OF yields_info [OF assms(2,1)]]) auto
qed

lemma yields_hex_number:
  assumes "length p + length t < n" "t = ascii ''0x'' @ hex_padded (2 * k) (nat (x mod 256 ^ k))"
  shows "yields e n p [] (le_bytes k x @ R) (print_hex_number e k) () t R"
  unfolding print_hex_number_def using assms
  by (intro yields_update) (auto simp: le_val_le_bytes)

lemma le_bytes_add: "le_bytes (j + k) x = le_bytes j x @ le_bytes k (x div 256 ^ j)"
  by (induction j arbitrary: x) (auto simp: zdiv_zmult2_eq)

lemma strlen_at_value:
  assumes "shows_text n (p @ q) t"
  shows "strlen_at t (length p) = length q"
proof -
  have e: "take (length (p @ q) + 1) t = p @ q @ [0]" using assms by (simp add: shows_text_def)
  have "t = take (length (p @ q) + 1) t @ drop (length (p @ q) + 1) t" by simp
  then have "drop (length p) t = q @ 0 # drop (length (p @ q) + 1) t"
    unfolding e by (metis append.assoc append_Cons append_Nil append_eq_conv_conj)
  moreover have "0 \<notin> set q" using assms by (simp add: shows_text_def)
  ultimately have "c_string (drop (length p) t) = q" by (simp add: c_string_def takeWhile_append)
  then show ?thesis by (simp add: strlen_at_def)
qed

lemma yields_hex64:
  assumes "length p + length (hi @ lo) < n" "n < 2 ^ 31"
    and hi: "hi = ascii ''0x'' @ hex_padded 8 (nat (x div 4294967296 mod 4294967296))"
    and lo: "lo = hex_padded 8 (nat (x mod 4294967296))"
  shows "yields e n p [] (le_bytes 8 x @ R) (print_hex64 e) () (hi @ lo) R"
  unfolding yields_def
proof (intro allI impI)
  fix s assume pr: "printing e n p [] (le_bytes 8 x @ R) s"
  let ?y = "x div 4294967296"
  have b: "le_bytes 8 x = le_bytes 4 x @ le_bytes 4 ?y" using le_bytes_add [of 4 4 x] by simp
  define s1 where "s1 = s\<lparr>ps_ptr := ps_ptr s + 4\<rparr>"
  have drop: "drop (ps_ptr s) (pe_payload e) = le_bytes 4 x @ le_bytes 4 ?y @ R" using pr by (simp add: printing_def b)
  have data: "ps_data s = int (length R) + 8" using pr by (simp add: printing_def)
  have g1: "memget (pe_payload e) (ps_ptr s + 4) 4 = le_bytes 4 ?y"
    using drop_prefix [OF drop, of 4] by (simp add: memget_def)
  have g2: "memget (pe_payload e) (ps_ptr s) 4 = le_bytes 4 x" using drop by (simp add: memget_def)
  have st: "shows_text n p (ps_text s)" "ps_value s = length p" "ps_length s = n - length p"
    using pr by (auto simp: printing_def)
  define t1 where "t1 = snprintf_at (ps_text s) (length p) (n - length p) hi"
  have t1: "shows_text n (p @ hi) t1"
    unfolding t1_def using st(1) assms(1) by (intro shows_snprintf) (auto simp: hi)
  define t2 where "t2 = snprintf_at t1 (length (p @ hi)) (n - length p - length hi) lo"
  have t2: "shows_text n ((p @ hi) @ lo) t2"
    unfolding t2_def using t1 assms(1) by (intro shows_snprintf) (auto simp: lo)
  have len: "u64 (int (n - length p) - int (length hi)) = n - length p - length hi"
    using assms(1,2) by (simp add: u64_id nat_diff_distrib)
  have e1: "le_val (le_bytes 4 ?y) = ?y mod 4294967296" "le_val (le_bytes 4 x) = x mod 4294967296"
    by (simp_all add: le_val_le_bytes)
  have "print_hex64 e s = (Some (), s\<lparr>ps_text := t2, ps_ptr := ps_ptr s + 4 + 4, ps_data := int (length R)\<rparr>)"
    using data st strlen_at_value [OF t1]
    by (simp add: print_hex64_def bind_r_def update_r_def print_hex_number_def read_value_def put_text_def
        g1 g2 e1 hi [symmetric] lo [symmetric] t1_def [symmetric] len t2_def)
  moreover have "drop (ps_ptr s + 4 + 4) (pe_payload e) = R"
    using drop_prefix [OF drop_prefix [OF drop]] by simp
  ultimately show "\<exists>s'. print_hex64 e s = (Some (), s') \<and> printing e n p (hi @ lo) R s'"
    using t2 st by (simp add: printing_def)
qed

text \<open>The texts of the floating point numbers of an argument end where they should.\<close>

definition float_ok :: "(int \<Rightarrow> byte list) \<times> (int \<Rightarrow> byte list) \<Rightarrow> bool" where
  "float_ok fl \<longleftrightarrow> (\<forall>i. 0 \<notin> set (fst fl i) \<and> 0 \<notin> set (snd fl i))"

text \<open>The bits of the type information that decide how an argument is read.\<close>

lemma arg_type_bits:
  "has (arg_type (ABool x b)) DLT_TYPE_INFO_VARI = (b \<noteq> None)"
  "has (arg_type (AUInt w x c)) DLT_TYPE_INFO_VARI = (c \<noteq> None)"
  "has (arg_type (ASInt w x c)) DLT_TYPE_INFO_VARI = (c \<noteq> None)"
  "has (arg_type (AFloat32 x c)) DLT_TYPE_INFO_VARI = (c \<noteq> None)"
  "has (arg_type (AFloat64 x c)) DLT_TYPE_INFO_VARI = (c \<noteq> None)"
  "has (arg_type (AString utf8 p b)) DLT_TYPE_INFO_VARI = (b \<noteq> None)"
  "has (arg_type (ARaw bs b)) DLT_TYPE_INFO_VARI = (b \<noteq> None)"
  "tyle (arg_type (AUInt w x c)) = width_tyle w" "tyle (arg_type (ASInt w x c)) = width_tyle w"
  "tyle (arg_type (AHex w x)) = width_tyle w"
  "tyle (arg_type (AFloat32 x c)) = 3" "tyle (arg_type (AFloat64 x c)) = 4"
  "tyle (arg_type (ABin8 x)) = 1" "tyle (arg_type (ABin16 x)) = 2"
  "\<not> has (arg_type (AUInt w x c)) DLT_TYPE_INFO_FIXP" "\<not> has (arg_type (ASInt w x c)) DLT_TYPE_INFO_FIXP"
  "\<not> has (arg_type (AUInt w x c)) DLT_TYPE_INFO_SINT" "has (arg_type (ASInt w x c)) DLT_TYPE_INFO_SINT"
  by (cases w; simp add: has_def tyle_def width_tyle_def string_type_info_def)+

lemma print_value_arg:
  "print_value e (arg_type (ABool x b)) bl = print_bool_arg e (arg_type (ABool x b))"
  "print_value e (arg_type (AUInt w x c)) bl = print_number_arg e (arg_type (AUInt w x c))"
  "print_value e (arg_type (ASInt w x c)) bl = print_number_arg e (arg_type (ASInt w x c))"
  "print_value e (arg_type (AHex w x)) bl = print_hex_arg e (arg_type (AHex w x))"
  "print_value e (arg_type (ABin8 x)) bl = print_bin_arg e (arg_type (ABin8 x))"
  "print_value e (arg_type (ABin16 x)) bl = print_bin_arg e (arg_type (ABin16 x))"
  "print_value e (arg_type (AFloat32 x c)) bl = print_float_arg e (arg_type (AFloat32 x c))"
  "print_value e (arg_type (AFloat64 x c)) bl = print_float_arg e (arg_type (AFloat64 x c))"
  "print_value e (arg_type (AString utf8 p b)) bl = print_string_arg e (arg_type (AString utf8 p b)) bl"
  "print_value e (arg_type (ARaw bs b)) bl = print_raw_arg e (arg_type (ARaw bs b))"
  by (cases w; simp add: print_value_def has_def width_tyle_def string_type_info_def)+

declare arg_type.simps [simp del]

lemma yields_bool:
  assumes "good_env e" "arg_ok (ABool x b)" "length p + length (dec_text (x mod 256)) < n"
  shows "yields e n p [] (arg_body (ABool x b) @ R) (print_value e (arg_type (ABool x b)) bl) () (dec_text (x mod 256)) R"
proof -
  have "yields e n p [] (le_bytes 1 x @ R) (bind_r (read_value e 1) (\<lambda>bs. update_r (put_text (dec_text (le_val bs))))) ()
      (dec_text (x mod 256)) R"
    using assms(3) by (intro yields_update) (auto simp: byte_value)
  with assms show ?thesis
    unfolding print_value_arg print_bool_arg_def arg_type_bits arg_body.simps append_assoc
    by (intro yields_bind [OF yields_named]) auto
qed

lemma yields_string_arg:
  assumes e: "good_env e" "arg_ok (AString utf8 q b)"
    and t: "t = arg_text fl (AString utf8 q b)" "length p + length t + 2 \<le> n"
  shows "yields e n p [] (arg_body (AString utf8 q b) @ R) (print_value e (arg_type (AString utf8 q b)) (- 1)) () t R"
proof -
  have neg: "- 1 < (0 :: int)" by simp
  have "0 \<notin> set (text_of q)" by (auto simp: text_of_def c_string_def dest: set_takeWhileD)
  then have s: "yields e n p [] (text_of q @ [0] @ R) (read_string e (length (text_of q) + 1)) () t R"
    using t by (auto simp: clean_text intro!: yields_string [of "text_of q", unfolded clean_text, simplified])
  show ?thesis
    unfolding print_value_arg print_string_arg_def arg_type_bits arg_body.simps append_assoc if_P [OF neg]
    using assms(1,2) s
    by (intro yields_bind [OF yields_u16] yields_bind [OF yields_named]) (auto simp: good_env_def)
qed

lemma yields_raw_arg:
  assumes e: "good_env e" "arg_ok (ARaw bs b)" and t: "length p + length (hex_text 0x27 bs) + 2 \<le> n" "n < 2 ^ 31"
  shows "yields e n p [] (arg_body (ARaw bs b) @ R) (print_value e (arg_type (ARaw bs b)) bl) () (hex_text 0x27 bs) R"
proof -
  have "length p + 3 * length bs < n" using t(1) by (simp add: length_hex_text)
  from yields_raw [OF this t(2)] show ?thesis
    unfolding print_value_arg print_raw_arg_def arg_type_bits arg_body.simps append_assoc
    using assms(1,2)
    by (intro yields_bind [OF yields_u16] yields_bind [OF yields_named]) (auto simp: good_env_def)
qed

lemma yields_hex_arg:
  assumes t: "t = arg_text fl (AHex w x)" "length p + length t < n" "n < 2 ^ 31"
  shows "yields e n p [] (arg_body (AHex w x) @ R) (print_value e (arg_type (AHex w x)) bl) () t R"
proof (cases "w = W64")
  case True
  have "yields e n p [] (le_bytes 8 x @ R) (print_hex64 e) () t R"
    using t True yields_hex64 [OF _ t(3) refl refl, of p x e R] by simp
  then show ?thesis unfolding print_value_arg print_hex_arg_def arg_type_bits by (simp add: True width_tyle_def)
next
  case False
  have "yields e n p [] (le_bytes (width_bytes w) x @ R) (print_hex_number e (width_bytes w)) () t R"
    using t False by (intro yields_hex_number) (auto simp: width_value_def)
  then show ?thesis using False
    unfolding print_value_arg print_hex_arg_def arg_type_bits by (cases w) (simp_all add: width_tyle_def)
qed

lemma yields_bin_arg:
  assumes "a = ABin8 x \<or> a = ABin16 x" and t: "t = arg_text fl a" "length p + length t < n"
  shows "yields e n p [] (arg_body a @ R) (print_value e (arg_type a) bl) () t R"
proof -
  have 8: "yields e n p [] (le_bytes 1 x @ R) (bind_r (read_value e 1)
      (\<lambda>bs. update_r (put_text (ascii ''0b'' @ bin_text 8 {3} (nat (le_val bs)))))) () t R" if "a = ABin8 x"
    using t that by (intro yields_update) (auto simp: byte_value)
  have 16: "yields e n p [] (le_bytes 2 x @ R) (bind_r (read_value e 2)
      (\<lambda>bs. update_r (put_text (ascii ''0b'' @ bin_text 16 {3, 7, 11} (nat (le_val bs)))))) () t R" if "a = ABin16 x"
    using t that by (intro yields_update) (auto simp: le_val_le_bytes)
  from assms(1) show ?thesis
  proof
    assume a: "a = ABin8 x"
    show ?thesis unfolding a print_value_arg print_bin_arg_def arg_type_bits arg_body.simps
      using 8 [OF a] by (intro yields_bind) (auto intro: yields_return)
  next
    assume a: "a = ABin16 x"
    show ?thesis unfolding a print_value_arg print_bin_arg_def arg_type_bits arg_body.simps
      using 16 [OF a] by (auto intro: yields_bind [OF yields_return])
  qed
qed

lemma yields_value:
  assumes e: "good_env e" "float_ok (pe_float32 e, pe_float64 e)" and a: "arg_ok a" and n: "n < 2 ^ 31"
    and t: "t = arg_text (pe_float32 e, pe_float64 e) a" "length p + length t + 2 \<le> n"
  shows "yields e n p [] (arg_body a @ R) (print_value e (arg_type a) (- 1)) () t R"
proof (cases a)
  case (ABool x b)
  then show ?thesis using yields_bool [OF e(1), of x b p n] a t by simp
next
  case (AUInt w x c)
  then show ?thesis
    using yields_number [OF e(1) arg_type_bits(8,2) _ arg_type_bits(15), of c t w x x p n R] a t
    by (simp add: print_value_arg arg_type_bits)
next
  case (ASInt w x c)
  then show ?thesis
    using yields_number [OF e(1) arg_type_bits(9,3) _ arg_type_bits(16), of c t w x x p n R] a t
    by (simp add: print_value_arg arg_type_bits)
next
  case (AHex w x)
  then show ?thesis using yields_hex_arg [OF _ _ n, of t _ w x p] t by simp
next
  case (ABin8 x)
  then show ?thesis using yields_bin_arg [of a x t] t by simp
next
  case (ABin16 x)
  then show ?thesis using yields_bin_arg [of a x t] t by simp
next
  case (AFloat32 x c)
  have "yields e n p [] (info_bytes c @ le_bytes 4 x @ R) (print_float_arg e (arg_type (AFloat32 x c))) () t R"
    using e a t AFloat32 by (intro yields_float) (auto simp: arg_type_bits float_ok_def)
  then show ?thesis by (simp add: AFloat32 print_value_arg)
next
  case (AFloat64 x c)
  have "yields e n p [] (info_bytes c @ le_bytes 8 x @ R) (print_float_arg e (arg_type (AFloat64 x c))) () t R"
    using e a t AFloat64 by (intro yields_float) (auto simp: arg_type_bits float_ok_def)
  then show ?thesis by (simp add: AFloat64 print_value_arg)
next
  case (AString utf8 q b)
  then show ?thesis using yields_string_arg [OF e(1), of utf8 q b t _ p n] a t by blast
next
  case (ARaw bs b)
  then show ?thesis using yields_raw_arg [OF e(1), of bs b p n] a t n by simp
qed

section \<open>Printing all arguments\<close>

text \<open>The texts from the argument with number \<open>num\<close> on, with their separators.\<close>

fun texts_from :: "nat \<Rightarrow> byte list list \<Rightarrow> byte list" where
  "texts_from num [] = []"
| "texts_from num (t # ts) = (if num \<noteq> 0 then [0x20] else []) @ t @ texts_from (num + 1) ts"

lemma texts_from_Suc: "texts_from (Suc k) ts = concat (map (\<lambda>t. 0x20 # t) ts)"
  by (induction ts arbitrary: k) auto

lemma spaced_Cons: "spaced (t # ts) = t @ concat (map (\<lambda>t. 0x20 # t) ts)"
  by (induction ts arbitrary: t) auto

lemma texts_from_0: "texts_from 0 ts = spaced ts"
  by (cases ts) (simp_all add: texts_from_Suc spaced_Cons)

definition text_reading :: "print_env \<Rightarrow> nat \<Rightarrow> byte list \<Rightarrow> byte list \<Rightarrow> argument_state \<Rightarrow> bool" where
  "text_reading e n p R s \<longleftrightarrow> shows_text n p (ps_text s) \<and> drop (ps_ptr s) (pe_payload e) = R \<and>
     ps_data s = int (length R)"

lemma word32_value: "htyp AND DLT_HTYP_MSBF = 0 \<Longrightarrow>
    word_of_int (endian_get htyp (le_bytes 4 (uint (ti :: 32 word)))) = ti"
proof -
  assume "htyp AND DLT_HTYP_MSBF = 0"
  then have "endian_get htyp (le_bytes 4 (uint ti)) = uint ti mod 4294967296" by (simp add: endian_le)
  moreover have "uint ti < 4294967296" using uint_lt2p [of ti] by simp
  ultimately show ?thesis by simp
qed

lemma append_space:
  assumes "shows_text n p t" "length p + 2 \<le> n" "n < 2 ^ 31"
  shows "shows_text n (p @ [0x20]) (append_text n [0x20] t)"
proof -
  have "u64 (int n - int (length p)) = n - length p" using assms(2,3) by (simp add: u64_id nat_diff_distrib)
  then show ?thesis
    unfolding append_text_def shows_strlen [OF assms(1)] using assms by (simp add: shows_snprintf)
qed

lemma arguments_printed:
  assumes e: "good_env e" "float_ok (pe_float32 e, pe_float64 e)" and n: "n < 2 ^ 31"
    and "\<forall>a \<in> set as. arg_ok a" "text_reading e n p (concat (map (log_arg_bytes True) as)) s"
    and "length p + length (texts_from num (map (arg_text (pe_float32 e, pe_float64 e)) as)) + 2 \<le> n"
  shows "\<exists>s'. print_arguments e n num (length as) tmp s = (0, s') \<and>
    shows_text n (p @ texts_from num (map (arg_text (pe_float32 e, pe_float64 e)) as)) (ps_text s')"
  using assms(4-6)
proof (induction as arbitrary: p s num tmp)
  case Nil
  then show ?case by (auto simp: text_reading_def)
next
  case (Cons a as)
  let ?fl = "(pe_float32 e, pe_float64 e)"
  let ?R = "concat (map (log_arg_bytes True) as)" and ?t = "arg_text ?fl a"
  let ?ts = "texts_from (num + 1) (map (arg_text ?fl) as)"
  define sep :: "byte list" where "sep = (if num \<noteq> 0 then [0x20] else [])"
  have room: "length p + length sep + length ?t + length ?ts + 2 \<le> n" using Cons.prems(3) by (simp add: sep_def)
  define s1 where "s1 = (if num \<noteq> 0 then s\<lparr>ps_text := append_text n [0x20] (ps_text s)\<rparr> else s)"
  have s1: "shows_text n (p @ sep) (ps_text s1)" "ps_ptr s1 = ps_ptr s" "ps_data s1 = ps_data s"
    using Cons.prems(2) room n append_space [of n p "ps_text s"] by (auto simp: s1_def sep_def text_reading_def)
  have drop: "drop (ps_ptr s) (pe_payload e) = le_bytes 4 (uint (arg_type a)) @ arg_body a @ ?R"
    and data: "ps_data s = int (4 + length (arg_body a @ ?R))"
    using Cons.prems(2) by (auto simp: text_reading_def arg_bytes_verbose [of a])
  define s2 where "s2 = s1\<lparr>ps_ptr := ps_ptr s + 4, ps_data := int (length (arg_body a @ ?R))\<rparr>"
  have get: "memget (pe_payload e) (ps_ptr s) 4 = le_bytes 4 (uint (arg_type a))" using drop by (simp add: memget_def)
  have r: "read_value e 4 s1 = (Some (le_bytes 4 (uint (arg_type a))), s2)"
    using s1 data by (simp add: read_value_def s2_def get)
  have off: "length (p @ sep) = strlen_at (ps_text s2) 0" using shows_strlen [OF s1(1)] by (simp add: s2_def)
  have ti: "word_of_int (endian_get (pe_htyp e) (le_bytes 4 (uint (arg_type a)))) = arg_type a"
    using e(1) by (intro word32_value) (simp add: good_env_def)
  define s2' where "s2' = s2\<lparr>ps_value := length (p @ sep), ps_length := u64 (int n - int (length (p @ sep))), ps_unit := (0, 0)\<rparr>"
  have len: "u64 (int n - int (length (p @ sep))) = n - length (p @ sep)"
    using room n by (simp add: u64_id nat_diff_distrib)
  have "printing e n (p @ sep) [] (arg_body a @ ?R) s2'"
    using s1 drop_prefix [OF drop, of 4] len by (simp add: printing_def s2'_def s2_def)
  moreover have "yields e n (p @ sep) [] (arg_body a @ ?R) (print_value e (arg_type a) (- 1)) () ?t ?R"
    using e n Cons.prems(1) room by (intro yields_value) auto
  ultimately obtain s3 where v: "print_value e (arg_type a) (- 1) s2' = (Some (), s3)"
    "printing e n (p @ sep) ?t ?R s3" by (auto simp: yields_def)
  have u: "print_unit e s3 = s3" using e(1) by (simp add: print_unit_def good_env_def)
  have a: "dlt_message_argument_print e (arg_type a) (- 1) s2' = (0, s3)"
    using v by (simp add: dlt_message_argument_print_def u printing_def)
  have step: "print_arguments e n num (Suc (length as)) tmp s =
      print_arguments e n (num + 1) (length as) (le_bytes 4 (uint (arg_type a))) s3"
    using print_arguments_step [OF s1_def r _ off, of "le_bytes 4 (uint (arg_type a))" tmp 0 s3] a
    by (simp add: ti s2'_def)
  have "text_reading e n (p @ sep @ ?t) ?R s3" using v(2) by (simp add: text_reading_def printing_def)
  from Cons.IH [OF _ this, of "num + 1" "le_bytes 4 (uint (arg_type a))"] Cons.prems(1) room
  show ?case unfolding length_Cons step by (auto simp: sep_def)
qed

section \<open>Properties\<close>

text \<open>
  C26. For well-formed arguments the writers never leave the message buffer: whatever such arguments a program logs,
  in any order, and although the macros ignore the return values, the message keeps its buffer of the configured
  size with its position inside, what was written before stays, and no other field of the message
  changes. Well-formed (\<open>arg_ok\<close>) means: names, units and texts end in a zero, a text has less than 65535 bytes,
  raw data less than 65536, and the three bytes in front of a UTF-8 text can be read and are plain. A text
  of 65535 bytes does leave the buffer (last section).
\<close>

theorem log_args_inside_buffer:
  assumes "log_ok u l" "u_initialised u" "\<forall>a \<in> set args. arg_ok a"
  shows "\<exists>l' d. log_args u (Some l) args = Some l' \<and> log_ok u l' \<and> logged l' = logged l @ d \<and> same_message l l'"
  using log_args_extends [OF assms] by (auto simp: extends_def)

definition example_user :: DltUser where
  "example_user = \<lparr>u_initialised = True, u_is_child = False, u_ecuID = [0x45, 0, 0, 0], u_appID = [0x41, 0, 0, 0],
     u_log_handle = 5, u_is_file = False, u_is_daemon = True, u_contexts = Some [], u_overflow_counter = 0,
     u_description = None, u_verbose_mode = 1, u_extended_non_verbose = True, u_with_session_id = True,
     u_with_timestamp = True, u_with_ecu_id = True, u_startup_buffer = example_buffer, u_log_buf_len = 60\<rparr>"

definition example_log :: DltContextData where
  "example_log = \<lparr>l_handle = Some \<lparr>c_contextID = [0x43, 0, 0, 0], c_log_level_pos = 0, c_log_level = Some 4, c_mcnt = 7\<rparr>,
     l_buffer = Some (replicate 60 0), l_size = 0, l_log_level = 4, l_trace_status = 0, l_args_num = 0,
     l_description = None, l_auto_timestamp = True, l_user_timestamp = 0, l_verbose_mode = 1\<rparr>"

lemma example_log_ok: "log_ok example_user example_log" "u_initialised example_user"
  "is_verbose_mode example_user (Some example_log)" "logged example_log = []"
  by (simp_all add: log_ok_def example_user_def example_log_def is_verbose_mode_def logged_def)

theorem log_args_inside_buffer_witness:
  "\<exists>l' d. log_args example_user (Some example_log) [AUInt W16 700 None, ABool 1 None] = Some l' \<and>
    log_ok example_user l' \<and> logged l' = logged example_log @ d \<and> same_message example_log l'"
  using log_args_inside_buffer [OF example_log_ok(1,2), of "[AUInt W16 700 None, ABool 1 None]"]
  by (simp add: unit_ok_def name_ok_def the_name_def)

text \<open>
  Round trip of a verbose log message: the arguments a program writes into an empty message
  (numbers of every width, with and without attributes, formatted numbers, truth values, floating point
  numbers, strings and raw data) are printed by \<open>dlt_message_payload\<close> as exactly their texts,
  separated by spaces, when all of them were accepted and the text buffer has room for the text,
  its end and one more byte. The message only has to be verbose, little-endian and to carry the payload
  and the number of arguments the writers left.
\<close>

theorem log_args_printed:
  assumes "log_ok u l" "u_initialised u" "is_verbose_mode u (Some l)" "logged l = []" "l_args_num l = 0"
    and "\<forall>a \<in> set args. arg_ok a" "length args < 256" "write_args u (Some l) args = (0, Some l')"
    and "databuffer m = Some (logged l')" "datasize m = int (length (logged l'))"
    and "int (msg_noar m) = l_args_num l'" "\<not> DLT_MSG_IS_NONVERBOSE m" "msg_htyp m AND DLT_HTYP_MSBF = 0"
    and "float_ok floats" "length (spaced (map (arg_text floats) args)) + 2 \<le> n" "n \<le> length t" "n < 2 ^ 31"
  shows "\<exists>t'. dlt_message_payload floats False (Some m) (Some t) n 2 = (0, Some t') \<and>
    c_string t' = spaced (map (arg_text floats) args)"
proof -
  let ?e = "payload_env floats False m (logged l')"
  let ?s = "\<lparr>ps_text = memput t 0 [0], ps_value = 0, ps_length = n, ps_ptr = 0, ps_data = datasize m, ps_unit = (0, 0)\<rparr>"
  have w: "logged l' = concat (map (log_arg_bytes True) args)" "msg_noar m = length args"
    using write_args_bytes [OF assms(1,2,6,8)] assms(3,4,5,7,11) by (auto simp: extends_def)
  have fl: "(pe_float32 ?e, pe_float64 ?e) = floats" by (simp add: payload_env_def)
  have "good_env ?e" using assms(13) by (simp add: good_env_def payload_env_def)
  moreover have "shows_text n [] (memput t 0 [0])" using assms(15,16) by (auto simp: shows_text_def memput_def)
  then have "text_reading ?e n [] (concat (map (log_arg_bytes True) args)) ?s"
    using w assms(10) by (simp add: text_reading_def payload_env_def)
  ultimately obtain s' where s': "print_arguments ?e n 0 (length args) [0, 0, 0, 0] ?s = (0, s')"
    "shows_text n (spaced (map (arg_text floats) args)) (ps_text s')"
    using arguments_printed [of ?e n args "[]" ?s 0 "[0, 0, 0, 0]"] assms(6,14,15,17)
    unfolding fl texts_from_0 by auto
  have "dlt_message_payload floats False (Some m) (Some t) n 2 = (0, Some (ps_text s'))"
    using assms(9,12,15) s'(1) w(2) by (simp add: dlt_message_payload_def Let_def)
  moreover have "c_string (ps_text s') = spaced (map (arg_text floats) args)"
    using s'(2) by (rule shows_string)
  ultimately show ?thesis by blast
qed

definition example_args :: "log_arg list" where
  "example_args = [ASInt W16 (- 7) None, AString False ([], [0x61, 0x62, 0]) None]"

definition example_written :: DltContextData where
  "example_written = example_log\<lparr>l_buffer := Some ([0x22, 0, 0, 0, 0xF9, 0xFF, 0, 2, 0, 0, 3, 0, 0x61, 0x62, 0] @ replicate 45 0),
     l_size := 15, l_args_num := 2\<rparr>"

lemma example_args_written: "write_args example_user (Some example_log) example_args = (0, Some example_written)"
  by code_simp

lemma example_args_text: "spaced (map (arg_text (\<lambda>_. [], \<lambda>_. [])) example_args) = [0x2D, 0x37, 0x20, 0x61, 0x62]"
  by code_simp

lemma example_args_ok: "\<forall>a \<in> set example_args. arg_ok a"
  by (simp add: example_args_def unit_ok_def name_ok_def the_name_def text_of_def c_string_def)

section \<open>Strings at the limits of the message\<close>


lemma example_utf8: "\<forall>c \<in> set (replicate 30 [0xC3 :: byte, 0xA4]). utf8_char c" "length (concat (replicate 30 [0xC3 :: byte, 0xA4])) = 60"
  "\<forall>b \<in> set [0x20 :: byte, 0x20, 0x20]. ascii_char b"
  by (simp_all add: utf8_cont_def ascii_char_def eval_nat_numeral)


text \<open>
  C28. Memory safety fails for a string of 65535 bytes: its size with the end is computed in 16 bits
  and becomes 0, so it passes the check of the room whenever the header of the argument fits. The
  function reports success, but copies the string over the end of the message buffer, while the
  recorded size only covers the header.
\<close>

theorem longest_string_overflows_buffer:
  assumes "log_ok u l" "u_initialised u" "is_verbose_mode u (Some l)"
    and "length (logged l) + 6 \<le> u_log_buf_len u" "65535 \<le> length t"
  shows "\<exists>l' b. dlt_user_log_write_sized_string u (Some l) (Some (pre, t)) 65535 = (DLT_RETURN_OK, Some l') \<and>
    l_buffer l' = Some b \<and> u_log_buf_len u < length b \<and> l_size l' = int (length (logged l) + 6)"
proof -
  define l1 where "l1 = string_header True False 0 None False l"
  have e: "extends u (string_bytes True [] 0 False None False) l l1"
    unfolding l1_def using assms(4) by (intro string_header_extends [OF assms(1)]) (simp_all add: name_ok_def string_overhead_def)
  then have ok: "log_ok u l1" and n: "length (logged l1) = length (logged l) + 6"
    by (simp_all add: extends_def length_string_bytes name_ok_def string_overhead_def)
  obtain b where b: "l_buffer l1 = Some b" "length b = u_log_buf_len u" "u_log_buf_len u < 65536" using ok by (auto simp: log_ok_def)
  have sz: "l_size l1 = int (length (logged l) + 6)" using log_ok_size [OF ok] n by simp
  have i: "i32 (l_size l1 + 0) = l_size l1" using sz assms(4) b(3) by (simp add: i32_id)
  have new: "u64 (l_size l + int (u16 (int 65535 + 1)) + 2 + int (string_overhead True False None)) \<le> u_log_buf_len u"
    using log_ok_size [OF assms(1)] assms(4) b(2,3) log_ok_len [OF assms(1)] by (simp add: u16_def u64_id string_overhead_def)
  have "dlt_user_log_write_sized_string u (Some l) (Some (pre, t)) 65535 = (0, Some (count_arg
     (l1\<lparr>l_buffer := Some (memput b (length (logged l) + 6) (take 65535 t @ [0])), l_size := int (length (logged l) + 6)\<rparr>)))"
    using new i unfolding dlt_user_log_write_sized_string_def dlt_user_log_write_sized_string_utils_attr_def
    by (simp add: assms(2,3) Let_def u16_def l1_def [symmetric] b(1) sz nat_add_distrib)
  moreover have "u_log_buf_len u < length (memput b (length (logged l) + 6) (take 65535 t @ [0]))"
    using assms(4,5) b(2,3) by (simp add: memput_def)
  ultimately show ?thesis by (auto simp: count_arg_def)
qed

theorem longest_string_overflows_buffer_witness:
  "\<exists>l' b. dlt_user_log_write_sized_string example_user (Some example_log) (Some ([], replicate 65535 0x61)) 65535 =
      (DLT_RETURN_OK, Some l') \<and>
    l_buffer l' = Some b \<and> u_log_buf_len example_user < length b \<and> l_size l' = int (length (logged example_log) + 6)"
  using longest_string_overflows_buffer [OF example_log_ok(1-3), of "replicate 65535 0x61" "[]"]
  by (simp add: example_log_ok(4)) (simp add: example_user_def)
end
