(* ===== verification/User_Messages.thy ===== *)
theory User_Messages
  imports Daemon_Registry Dlt_Receiver Daemon_Send
begin

text \<open>
  The messages of applications to the daemon (\<open>src/daemon/dlt-daemon.c\<close>): the loop that cuts the
  bytes of a receiver into user messages and the handlers that register and unregister
  applications and contexts. The tables are those of \<open>Daemon_Tables\<close>, the received bytes those of
  \<open>Dlt_Receiver\<close>. What a handler sends, logs or closes is the list of its events; the result of a
  write to an application is a parameter.
\<close>

section \<open>State\<close>

datatype user_event =
    Log_Internal "byte list"
  | To_User int "byte list"
  | Close_Fd int
  | Close_Socket int
  | Get_Log_Info nat "byte list" "byte list"
  | Unregister_Context "byte list" "byte list"
  | Marker
  | Overflow nat "byte list"
  | Send_Message DltMessage

text \<open>
  The events of a handler are its calls to the rest of the daemon, in order: \<open>Log_Internal\<close> for
  \<open>dlt_daemon_log_internal\<close>, \<open>Close_Socket\<close> for \<open>dlt_daemon_close_socket\<close>, \<open>Get_Log_Info\<close>, \<open>Unregister_Context\<close> and
  \<open>Marker\<close> for the control messages, \<open>Send_Message\<close> for \<open>dlt_daemon_client_send_message_to_all_client\<close>, and
  \<open>Overflow\<close> for the report of messages that an application lost, which are counted when it cannot be sent.

  \<open>user_out\<close> is the result of \<open>dlt_user_log_out2\<close> for a handle and the bytes, and whether the
  error is \<open>EPIPE\<close>. \<open>storage_level\<close> is \<open>dlt_daemon_logstorage_get_loglevel\<close>, or None without
  offline log storage.
\<close>

record user_env =
  tables :: table_env
  user_out :: "int \<Rightarrow> byte list \<Rightarrow> int \<times> bool"
  connectionState :: int
  rflag :: bool
  autoResponseGetLogInfoOption :: int
  verbose :: bool
  msg_alloc :: bool
  storage_level :: "byte list \<Rightarrow> byte list \<Rightarrow> int option"

abbreviation (input) DLT_DAEMON_DESCSIZE :: nat where "DLT_DAEMON_DESCSIZE \<equiv> 256"
abbreviation (input) DLT_DAEMON_TEXTBUFSIZE :: nat where "DLT_DAEMON_TEXTBUFSIZE \<equiv> 512"
abbreviation (input) DLT_USER_MESSAGE_LOG_LEVEL :: int where "DLT_USER_MESSAGE_LOG_LEVEL \<equiv> 6"
abbreviation (input) DLT_USER_MESSAGE_LOG_STATE :: int where "DLT_USER_MESSAGE_LOG_STATE \<equiv> 12"
abbreviation (input) DLT_USER_MESSAGE_NOT_SUPPORTED :: nat where "DLT_USER_MESSAGE_NOT_SUPPORTED \<equiv> 16"
abbreviation (input) DLT_USER_LOG_LEVEL_NOT_SET :: int where "DLT_USER_LOG_LEVEL_NOT_SET \<equiv> - 2"

section \<open>Messages to applications\<close>

definition dlt_user_set_userheader :: "int \<Rightarrow> byte list option" where
  "dlt_user_set_userheader mtype = (if mtype \<le> 0 then None else Some ([0x44, 0x55, 0x48, 1] @ le_bytes 4 mtype))"

definition dlt_user_check_userheader :: "byte list \<Rightarrow> bool" where
  "dlt_user_check_userheader h \<longleftrightarrow> h ! 0 = 0x44 \<and> h ! 1 = 0x55 \<and> h ! 2 = 0x48 \<and> h ! 3 = 1"

definition dlt_daemon_user_send_log_level ::
  "user_env \<Rightarrow> daemon_users \<Rightarrow> DltDaemonContext \<Rightarrow> int \<times> daemon_users \<times> user_event list" where
  "dlt_daemon_user_send_log_level env d x =
     (case dlt_user_set_userheader DLT_USER_MESSAGE_LOG_LEVEL of
        None \<Rightarrow> (- 1, d, [])
      | Some h \<Rightarrow>
        let bytes = h @ le_bytes 1 (int (sent_log_level d x)) @ le_bytes 1 (int (sent_trace_status d x)) @ le_bytes 4 (x_log_level_pos x)
        in case user_out env (x_user_handle x) bytes of
             (ret, epipe) \<Rightarrow>
               let (d1, closed) = (if ret < DLT_RETURN_OK \<and> epipe
                                   then (case dlt_daemon_application_find d (x_apid x) (own_ecuid d) of
                                           None \<Rightarrow> (d, [])
                                         | Some i \<Rightarrow> dlt_daemon_application_reset_user_handle d (the (dlt_daemon_find_users_list d (own_ecuid d))) i)
                                   else (d, []))
               in (if ret = DLT_RETURN_OK then DLT_RETURN_OK else DLT_RETURN_ERROR, d1,
                   To_User (x_user_handle x) bytes # map Close_Fd closed))"

definition dlt_daemon_user_send_log_state ::
  "user_env \<Rightarrow> daemon_users \<Rightarrow> nat \<Rightarrow> nat option \<Rightarrow> int \<times> daemon_users \<times> user_event list" where
  "dlt_daemon_user_send_log_state env d u app =
     (case (app, dlt_user_set_userheader DLT_USER_MESSAGE_LOG_STATE) of
        (Some i, Some h) \<Rightarrow>
          let f = a_user_handle (applications (user_list d ! u) ! i);
              bytes = h @ le_bytes 1 (connectionState env)
          in (case user_out env f bytes of
                (ret, epipe) \<Rightarrow>
                  let (d1, closed) = (if ret < DLT_RETURN_OK \<and> epipe then dlt_daemon_application_reset_user_handle d u i else (d, []))
                  in (if ret = DLT_RETURN_OK then DLT_RETURN_OK else DLT_RETURN_ERROR, d1, To_User f bytes # map Close_Fd closed))
      | _ \<Rightarrow> (- 1, d, []))"

section \<open>Handlers\<close>

text \<open>\<open>snprintf\<close> into a text buffer of the daemon.\<close>

definition local_text :: "byte list \<Rightarrow> byte list" where
  "local_text s = take (DLT_DAEMON_TEXTBUFSIZE - 1) s @ [0]"

definition dlt_daemon_process_user_message_not_sup :: "'s \<times> DltReceiver \<Rightarrow> int \<times> 's \<times> DltReceiver" where
  "dlt_daemon_process_user_message_not_sup p =
     (case p of (s, rec) \<Rightarrow> (- 1, s, the (snd (dlt_receiver_remove (Some rec) (int SIZEOF_DltUserHeader)))))"

text \<open>
  The common start of the two registrations: a fixed part of \<open>n\<close> bytes behind the user header,
  whose last four bytes are the length of a description that follows. The second test looks at
  \<open>bytesRcvd\<close>, which still counts the header and the fixed part. The result is the fixed part, the
  description buffer and the receiver, or the receiver when the handler gives up.
\<close>

definition get_description ::
  "store \<Rightarrow> DltReceiver \<Rightarrow> nat \<Rightarrow> DltReceiver + (byte list \<times> byte list \<times> DltReceiver)" where
  "get_description mem rec n =
     (case dlt_receiver_check_and_get mem (Some rec) (Some (replicate n 0)) n 1 of
        (temp, _, dest) \<Rightarrow>
          if temp < 0 then Inl rec
          else
            let msg = the dest; to_remove = nat temp;
                dl = nat (le_val (memget msg (n - 4) 4));
                len = (if dl > DLT_DAEMON_DESCSIZE then DLT_DAEMON_DESCSIZE else dl);
                rec1 = rec\<lparr>buf := Some (the (buf rec) + (to_remove + SIZEOF_DltUserHeader))\<rparr>
            in (case dlt_receiver_check_and_get mem (Some rec1) (Some (replicate (DLT_DAEMON_DESCSIZE + 1) 0)) len 0 of
                  (r2, _, desc) \<Rightarrow>
                    let description = (if r2 < 0 then memput (the desc) 0 (map of_char ''Unknown'' @ [0]) else the desc);
                        len' = (if r2 < 0 then 0 else len)
                    in case dlt_receiver_remove (Some rec) (i32 (int (to_remove + SIZEOF_DltUserHeader + len'))) of
                         (rc, rec') \<Rightarrow> if rc \<noteq> DLT_RETURN_OK then Inl (the rec') else Inr (msg, description, the rec')))"

definition dlt_daemon_process_user_message_register_application ::
  "user_env \<Rightarrow> store \<Rightarrow> daemon_users \<Rightarrow> DltReceiver \<Rightarrow> int \<times> daemon_users \<times> DltReceiver \<times> user_event list" where
  "dlt_daemon_process_user_message_register_application env mem d rec =
     (case get_description mem rec 12 of
        Inl rec' \<Rightarrow> (- 1, d, rec', [])
      | Inr (userapp, description, rec') \<Rightarrow>
        let apid = memget userapp 0 4; pid = i32 (le_val (memget userapp 4 4));
            u = the (dlt_daemon_find_users_list d (own_ecuid d));
            old_pid = (case dlt_daemon_application_find d apid (own_ecuid d) of
                         None \<Rightarrow> 0 | Some i \<Rightarrow> a_pid (applications (user_list d ! u) ! i));
            f = (if rtype rec' = DLT_RECEIVE_SOCKET then fd rec' else - 1)
        in (case dlt_daemon_application_add (tables env) d apid pid (Some (c_string description)) f (own_ecuid d) of
              (app, d1, closed) \<Rightarrow>
                (case dlt_daemon_user_send_log_state env d1 u app of
                   (_, d2, ev) \<Rightarrow>
                     let ev' = map Close_Fd closed @ ev
                     in (case app of
                           None \<Rightarrow> (- 1, d2, rec', ev')
                         | Some i \<Rightarrow>
                           let a = applications (user_list d2 ! u) ! i
                           in (0, d2, rec',
                               if old_pid \<noteq> a_pid a
                               then ev' @ [Log_Internal (local_text (map of_char ''ApplicationID '' @ [0x27] @ c_string (a_apid a) @ [0x27] @
                                      map of_char '' registered for PID '' @ dec_int (a_pid a) @ map of_char '', Description='' @
                                      the (a_description a)))]
                               else ev')))))"

text \<open>The level or status of a registration: None when it is out of range.\<close>

definition registered_value :: "int \<Rightarrow> int \<Rightarrow> int option" where
  "registered_value highest v =
     (if v = DLT_USER_LOG_LEVEL_NOT_SET then Some (- 1) else if v < - 1 \<or> v > highest then None else Some v)"

text \<open>What follows the entry of the new context: the request for its log info and its log level.\<close>

definition context_registered ::
  "user_env \<Rightarrow> daemon_users \<Rightarrow> nat \<Rightarrow> nat \<Rightarrow> byte list \<Rightarrow> byte list \<Rightarrow> int \<Rightarrow> int \<Rightarrow> int \<times> daemon_users \<times> user_event list" where
  "context_registered env d u i apid ctid log_level trace_status =
     (let ev = (if rflag env then [Get_Log_Info (u8 (autoResponseGetLogInfoOption env)) (id4 apid) (id4 ctid)] else []);
          x = contexts (user_list d ! u) ! i
      in if rflag env \<and> \<not> msg_alloc env then (- 1, d, [])
         else if x_user_handle x \<ge> DLT_FD_MINIMUM \<and> (log_level = DLT_LOG_DEFAULT \<or> trace_status = DLT_TRACE_STATUS_DEFAULT)
         then (case dlt_daemon_user_send_log_level env d x of
                 (r, d1, ev1) \<Rightarrow> (if r = - 1 then - 1 else 0, d1, ev @ ev1))
         else (0, d, ev))"

definition dlt_daemon_process_user_message_register_context ::
  "user_env \<Rightarrow> store \<Rightarrow> daemon_users \<Rightarrow> DltReceiver \<Rightarrow> int \<times> daemon_users \<times> DltReceiver \<times> user_event list" where
  "dlt_daemon_process_user_message_register_context env mem d rec =
     (case get_description mem rec 22 of
        Inl rec' \<Rightarrow> (- 1, d, rec', [])
      | Inr (userctxt, description, rec') \<Rightarrow>
        let apid = memget userctxt 0 4; ctid = memget userctxt 4 4; pos = i32 (le_val (memget userctxt 8 4));
            u = the (dlt_daemon_find_users_list d (own_ecuid d))
        in (case dlt_daemon_application_find d apid (own_ecuid d) of
              None \<Rightarrow> (0, d, rec', [])
            | Some a \<Rightarrow>
              (case (registered_value DLT_LOG_VERBOSE (i8 (le_val (memget userctxt 12 1))),
                     registered_value DLT_TRACE_STATUS_ON (i8 (le_val (memget userctxt 13 1)))) of
                 (Some log_level, Some trace_status) \<Rightarrow>
                   (case dlt_daemon_context_add (tables env) d apid ctid log_level trace_status pos
                           (a_user_handle (applications (user_list d ! u) ! a)) (Some (c_string description)) (own_ecuid d) of
                      (None, d1) \<Rightarrow> (- 1, d1, rec', [])
                    | (Some i, d1) \<Rightarrow>
                      let x = contexts (user_list d1 ! u) ! i;
                          ev = (if verbose env
                                then [Log_Internal (local_text (map of_char ''ContextID '' @ [0x27] @ c_string (x_ctid x) @ [0x27] @
                                  map of_char '' registered for ApID '' @ [0x27] @ c_string (x_apid x) @ [0x27] @ map of_char '', Description='' @
                                  (case x_description x of None \<Rightarrow> map of_char ''(null)'' | Some t \<Rightarrow> t)))]
                                else []);
                          d2 = set_context d1 u i (\<lambda>x. x\<lparr>x_storage_log_level :=
                                 (case storage_level env apid ctid of None \<Rightarrow> DLT_LOG_DEFAULT | Some l \<Rightarrow> i8 l)\<rparr>)
                      in (case context_registered env d2 u i apid ctid log_level trace_status of
                            (r, d3, ev3) \<Rightarrow> (r, d3, rec', ev @ ev3)))
               | _ \<Rightarrow> (- 1, d, rec', []))))"

text \<open>The loop of \<open>unregister_application\<close> over the contexts \<open>offset + n - 1\<close> down to \<open>offset\<close>.\<close>

fun unregister_contexts :: "daemon_users \<Rightarrow> nat \<Rightarrow> nat \<Rightarrow> int \<times> daemon_users" where
  "unregister_contexts d offset 0 = (0, d)"
| "unregister_contexts d offset (Suc i) =
     (case dlt_daemon_context_del d (Some (offset + i)) (own_ecuid d) of
        (r, d1) \<Rightarrow> if r = - 1 then (- 1, d1) else unregister_contexts d1 offset i)"

definition dlt_daemon_process_user_message_unregister_application ::
  "store \<Rightarrow> daemon_users \<Rightarrow> DltReceiver \<Rightarrow> int \<times> daemon_users \<times> DltReceiver \<times> user_event list" where
  "dlt_daemon_process_user_message_unregister_application mem d rec =
     (case dlt_receiver_check_and_get mem (Some rec) (Some (replicate 8 0)) 8 3 of
        (r, rec', dest) \<Rightarrow>
          if r < 0 then (- 1, d, the rec', [])
          else
            let apid = memget (the dest) 0 4
            in (case dlt_daemon_find_users_list d (own_ecuid d) of
                  None \<Rightarrow> (- 1, d, the rec', [])
                | Some u \<Rightarrow>
                  if applications (user_list d ! u) = [] then (0, d, the rec', [])
                  else (case dlt_daemon_application_find d apid (own_ecuid d) of
                      None \<Rightarrow> (0, d, the rec', [])
                    | Some j \<Rightarrow>
                      let as = applications (user_list d ! u);
                          offset = sum_list (map a_num_contexts (take j as))
                      in (case unregister_contexts d (nat offset) (nat (a_num_contexts (as ! j))) of
                            (r1, d1) \<Rightarrow>
                              if r1 = - 1 then (- 1, d1, the rec', [])
                              else (case dlt_daemon_application_del d1 (Some j) (own_ecuid d1) of
                                      (r2, d2, closed) \<Rightarrow>
                                        if r2 = - 1 then (- 1, d2, the rec', map Close_Fd closed)
                                        else (0, d2, the rec', map Close_Fd closed @
                                                [Log_Internal (local_text (map of_char ''Unregistered ApID '' @ [0x27] @ c_string apid @ [0x27]))]))))))"

definition dlt_daemon_process_user_message_unregister_context ::
  "user_env \<Rightarrow> store \<Rightarrow> daemon_users \<Rightarrow> DltReceiver \<Rightarrow> int \<times> daemon_users \<times> DltReceiver \<times> user_event list" where
  "dlt_daemon_process_user_message_unregister_context env mem d rec =
     (case dlt_receiver_check_and_get mem (Some rec) (Some (replicate 12 0)) 12 3 of
        (r, rec', dest) \<Rightarrow>
          if r < 0 then (- 1, d, the rec', [])
          else
            let apid = memget (the dest) 0 4; ctid = memget (the dest) 4 4;
                u = the (dlt_daemon_find_users_list d (own_ecuid d));
                reply = (if rflag env then [Unregister_Context apid ctid] else [])
            in (case dlt_daemon_context_find d apid ctid (own_ecuid d) of
                  None \<Rightarrow> (0, d, the rec', reply)
                | Some i \<Rightarrow>
                  if x_predefined (contexts (user_list d ! u) ! i) then (0, d, the rec', reply)
                  else (case dlt_daemon_context_del d (Some i) (own_ecuid d) of
                          (r1, d1) \<Rightarrow>
                            if r1 = - 1 then (- 1, d1, the rec', [])
                            else (0, d1, the rec',
                              (if verbose env
                               then [Log_Internal (local_text (map of_char ''Unregistered CtID '' @ [0x27] @ c_string ctid @ [0x27] @
                                       map of_char '' for ApID '' @ [0x27] @ c_string apid @ [0x27]))]
                               else []) @ reply))))"

text \<open>One context of \<open>set_app_ll_ts\<close>: the new values are taken back when they cannot be sent.\<close>

definition set_context_ll_ts :: "user_env \<Rightarrow> int \<Rightarrow> int \<Rightarrow> nat \<Rightarrow> nat \<Rightarrow> daemon_users \<Rightarrow> daemon_users \<times> user_event list" where
  "set_context_ll_ts env ll ts u k d =
     (let old = contexts (user_list d ! u) ! k;
          d1 = set_context d u k (\<lambda>x. x\<lparr>x_log_level := ll, x_trace_status := ts\<rparr>)
      in if x_user_handle old \<ge> DLT_FD_MINIMUM
         then (case dlt_daemon_user_send_log_level env d1 (contexts (user_list d1 ! u) ! k) of
                 (r, d2, ev) \<Rightarrow>
                   (if r \<noteq> 0 then set_context d2 u k (\<lambda>x. x\<lparr>x_log_level := x_log_level old, x_trace_status := x_trace_status old\<rparr>) else d2, ev))
         else (d1, []))"

fun set_contexts_ll_ts :: "user_env \<Rightarrow> int \<Rightarrow> int \<Rightarrow> nat \<Rightarrow> nat list \<Rightarrow> daemon_users \<Rightarrow> daemon_users \<times> user_event list" where
  "set_contexts_ll_ts env ll ts u [] d = (d, [])"
| "set_contexts_ll_ts env ll ts u (k # ks) d =
     (case set_context_ll_ts env ll ts u k d of
        (d1, ev1) \<Rightarrow> (case set_contexts_ll_ts env ll ts u ks d1 of (d2, ev2) \<Rightarrow> (d2, ev1 @ ev2)))"

definition dlt_daemon_process_user_message_set_app_ll_ts ::
  "user_env \<Rightarrow> store \<Rightarrow> daemon_users \<Rightarrow> DltReceiver \<Rightarrow> int \<times> daemon_users \<times> DltReceiver \<times> user_event list" where
  "dlt_daemon_process_user_message_set_app_ll_ts env mem d rec =
     (case dlt_daemon_find_users_list d (own_ecuid d) of
        None \<Rightarrow> (DLT_RETURN_ERROR, d, rec, [])
      | Some u \<Rightarrow>
        (case dlt_receiver_check_and_get mem (Some rec) (Some (replicate 6 0)) 6 3 of
           (r, rec', dest) \<Rightarrow>
             if r < 0 then (DLT_RETURN_ERROR, d, the rec', [])
             else
               let apid = memget (the dest) 0 4; ll = i8 (uint (the dest ! 4)); ts = i8 (uint (the dest ! 5))
               in if applications (user_list d ! u) = [] then (DLT_RETURN_OK, d, the rec', [])
                  else (case dlt_daemon_application_find d apid (own_ecuid d) of
                          None \<Rightarrow> (DLT_RETURN_OK, d, the rec', [])
                        | Some j \<Rightarrow>
                          let as = applications (user_list d ! u);
                              offset = nat (sum_list (map a_num_contexts (take j as)))
                          in (case set_contexts_ll_ts env ll ts u [offset ..< offset + nat (a_num_contexts (as ! j))] d of
                                (d1, ev) \<Rightarrow> (DLT_RETURN_OK, d1, the rec', ev)))))"

definition dlt_daemon_process_user_message_marker ::
  "store \<Rightarrow> daemon_users \<Rightarrow> DltReceiver \<Rightarrow> int \<times> daemon_users \<times> DltReceiver \<times> user_event list" where
  "dlt_daemon_process_user_message_marker mem d rec =
     (case dlt_receiver_check_and_get mem (Some rec) (Some (replicate 1 0)) 1 3 of
        (r, rec', dest) \<Rightarrow> if r < 0 then (- 1, d, the rec', []) else (0, d, the rec', [Marker]))"

definition dlt_daemon_process_user_message_overflow ::
  "store \<Rightarrow> daemon_users \<Rightarrow> DltReceiver \<Rightarrow> int \<times> daemon_users \<times> DltReceiver \<times> user_event list" where
  "dlt_daemon_process_user_message_overflow mem d rec =
     (case dlt_receiver_check_and_get mem (Some rec) (Some (replicate 8 0)) 8 3 of
        (r, rec', dest) \<Rightarrow>
          if r < 0 then (- 1, d, the rec', [])
          else
            let n = nat (le_val (memget (the dest) 0 4)); apid = memget (the dest) 4 4
            in (0, d, the rec', [Overflow n apid]))"

text \<open>Without shared memory. The message structure of the daemon keeps its buffers between calls.\<close>

definition dlt_daemon_process_user_message_log ::
  "(nat \<Rightarrow> byte list option) \<Rightarrow> store \<Rightarrow> DltMessage \<Rightarrow> DltReceiver \<Rightarrow> int \<times> DltMessage \<times> DltReceiver \<times> user_event list" where
  "dlt_daemon_process_user_message_log alloc mem msg rec =
     (case dlt_message_read alloc (Some msg) (Some (drop (the (buf rec) + SIZEOF_DltUserHeader) (mem (the (rbuffer rec)))))
             (u32 (bytesRcvd rec - int SIZEOF_DltUserHeader)) False of
        (ret, m) \<Rightarrow>
          if ret \<noteq> 0 then (- 1, the m, rec, [])
          else
            let sz = i32 (headersize (the m) + datasize (the m) - 16 + int SIZEOF_DltUserHeader) + (if found_serialheader (the m) then 4 else 0)
            in (case dlt_receiver_remove (Some rec) sz of
                  (rc, rec') \<Rightarrow> (if rc \<noteq> DLT_RETURN_OK then - 1 else 0, the m, the rec', [Send_Message (the m)])))"

section \<open>The loop over received messages\<close>

text \<open>
  The search for a user header: \<open>bs\<close> is the memory from \<open>buf\<close> on, \<open>n\<close> is \<open>bytesRcvd\<close>.
\<close>

function userheader_offset :: "byte list \<Rightarrow> int \<Rightarrow> nat \<Rightarrow> nat" where
  "userheader_offset bs n off =
     (if \<not> dlt_user_check_userheader (drop off bs) \<and> int off + 8 \<le> n then userheader_offset bs n (off + 1) else off)"
  by pat_completeness auto
termination by (relation "measure (\<lambda>(_, n, off). nat (n - int off))") auto

declare userheader_offset.simps [simp del]

type_synonym 's handler = "'s \<times> DltReceiver \<Rightarrow> (int \<times> 's \<times> DltReceiver) option"

text \<open>None stands for a handler that does not return.\<close>

fun user_loop :: "(nat \<Rightarrow> 's handler) \<Rightarrow> store \<Rightarrow> nat \<Rightarrow> 's \<times> DltReceiver \<Rightarrow> ('s \<times> DltReceiver) option" where
  "user_loop func mem 0 p = None"
| "user_loop func mem (Suc k) (s, rec) =
     (if bytesRcvd rec \<ge> int SIZEOF_DltUserHeader then
        let bs = drop (the (buf rec)) (mem (the (rbuffer rec)));
            offset = userheader_offset bs (bytesRcvd rec) 0
        in if \<not> dlt_user_check_userheader (drop offset bs) then Some (s, rec)
           else
             let rec1 = (if offset > 0 then the (snd (dlt_receiver_remove (Some rec) (int offset))) else rec);
                 message = nat (le_val (memget bs (offset + 4) 4));
                 f = (if message \<ge> DLT_USER_MESSAGE_NOT_SUPPORTED then (\<lambda>p. Some (dlt_daemon_process_user_message_not_sup p)) else func message)
             in (case f (s, rec1) of
                   None \<Rightarrow> None
                 | Some (r, s', rec') \<Rightarrow> if r = - 1 then Some (s', rec') else user_loop func mem k (s', rec'))
      else Some (s, rec))"

text \<open>
  The state of the handlers: the tables, the message structure and the rest of the daemon. \<open>emit\<close> makes a
  call to the rest of the daemon; it may change the message structure, which the call shares, and it is None
  when the call does not return.
\<close>

type_synonym 'w user_state = "daemon_users \<times> DltMessage \<times> 'w"
type_synonym 'w emitter = "user_event \<Rightarrow> DltMessage \<times> 'w \<Rightarrow> (DltMessage \<times> 'w) option"

fun emit_all :: "'w emitter \<Rightarrow> user_event list \<Rightarrow> DltMessage \<times> 'w \<Rightarrow> (DltMessage \<times> 'w) option" where
  "emit_all emit [] w = Some w"
| "emit_all emit (e # es) w = (case emit e w of None \<Rightarrow> None | Some w' \<Rightarrow> emit_all emit es w')"

definition on_tables ::
  "'w emitter \<Rightarrow> (daemon_users \<Rightarrow> DltReceiver \<Rightarrow> int \<times> daemon_users \<times> DltReceiver \<times> user_event list) \<Rightarrow> 'w user_state handler" where
  "on_tables emit f p = (case p of ((d, w), rec) \<Rightarrow>
     (case f d rec of (r, d', rec', e) \<Rightarrow> map_option (\<lambda>w'. (r, (d', w'), rec')) (emit_all emit e w)))"

definition on_message ::
  "'w emitter \<Rightarrow> (DltMessage \<Rightarrow> DltReceiver \<Rightarrow> int \<times> DltMessage \<times> DltReceiver \<times> user_event list) \<Rightarrow> 'w user_state handler" where
  "on_message emit f p = (case p of ((d, m, w), rec) \<Rightarrow>
     (case f m rec of (r, m', rec', e) \<Rightarrow> map_option (\<lambda>w'. (r, (d, w'), rec')) (emit_all emit e (m', w))))"

definition process_user_func :: "user_env \<Rightarrow> 'w emitter \<Rightarrow> (nat \<Rightarrow> byte list option) \<Rightarrow> store \<Rightarrow> nat \<Rightarrow> 'w user_state handler" where
  "process_user_func env emit alloc mem message =
     (if message = 1 then on_message emit (dlt_daemon_process_user_message_log alloc mem)
      else if message = 2 then on_tables emit (dlt_daemon_process_user_message_register_application env mem)
      else if message = 3 then on_tables emit (dlt_daemon_process_user_message_unregister_application mem)
      else if message = 4 then on_tables emit (dlt_daemon_process_user_message_register_context env mem)
      else if message = 5 then on_tables emit (dlt_daemon_process_user_message_unregister_context env mem)
      else if message = 8 then on_tables emit (dlt_daemon_process_user_message_overflow mem)
      else if message = 9 then on_tables emit (dlt_daemon_process_user_message_set_app_ll_ts env mem)
      else if message = 13 then on_tables emit (dlt_daemon_process_user_message_marker mem)
      else (\<lambda>p. Some (dlt_daemon_process_user_message_not_sup p)))"

text \<open>
  One iteration more than there are bytes is enough: a handler that lets the loop go on has removed some. So
  None stands for a call that does not return.
\<close>

definition dlt_daemon_process_user_messages ::
  "user_env \<Rightarrow> 'w emitter \<Rightarrow> (nat \<Rightarrow> byte list option) \<Rightarrow> (nat \<Rightarrow> byte list option) \<Rightarrow> bool \<Rightarrow> store \<Rightarrow> 'w user_state \<times> DltReceiver \<Rightarrow>
    (int \<times> store \<times> 'w user_state \<times> DltReceiver) option" where
  "dlt_daemon_process_user_messages env emit alloc rd backup_ok mem p =
     (case p of (s, rec) \<Rightarrow>
        (case dlt_receiver_receive rd mem (Some rec) of
           (n, mem1, rec1) \<Rightarrow>
             if n \<le> 0 \<and> rtype (the rec1) = DLT_RECEIVE_SOCKET
             then (case s of (d, w) \<Rightarrow> map_option (\<lambda>w'. (0, mem1, (d, w'), the rec1)) (emit (Close_Socket (fd (the rec1))) w))
             else if n < 0 then Some (- 1, mem1, s, the rec1)
             else (case user_loop (process_user_func env emit alloc mem1) mem1 (nat (bytesRcvd (the rec1)) + 1) (s, the rec1) of
                     None \<Rightarrow> None
                   | Some (s2, rec2) \<Rightarrow>
                     (case dlt_receiver_move_to_begin backup_ok mem1 (Some rec2) of
                        (r, rec3) \<Rightarrow> Some (if r = - 1 then - 1 else 0, mem1, s2, the rec3)))))"

section \<open>Progress\<close>

text \<open>A handler that lets the loop go on has removed bytes.\<close>

definition progress :: "('a \<Rightarrow> DltReceiver \<Rightarrow> int \<times> 'a \<times> DltReceiver \<times> user_event list) \<Rightarrow> bool" where
  "progress f \<longleftrightarrow> (\<forall>d rec r d' rec' e. f d rec = (r, d', rec', e) \<longrightarrow> r \<noteq> - 1 \<longrightarrow> bytesRcvd rec' < bytesRcvd rec)"

text \<open>
  \<open>P\<close> is a condition on the rest of the daemon under which its calls return and which they keep. Then the
  handlers return, keep it, and make progress.
\<close>

definition calls_return :: "('w \<Rightarrow> bool) \<Rightarrow> 'w emitter \<Rightarrow> bool" where
  "calls_return P emit \<longleftrightarrow> (\<forall>e m w. P w \<longrightarrow> (\<exists>m' w'. emit e (m, w) = Some (m', w') \<and> P w'))"

definition returns :: "('s \<Rightarrow> bool) \<Rightarrow> 's handler \<Rightarrow> bool" where
  "returns Q h \<longleftrightarrow> (\<forall>s rec. Q s \<longrightarrow>
     (\<exists>r s' rec'. h (s, rec) = Some (r, s', rec') \<and> Q s' \<and> (r \<noteq> - 1 \<longrightarrow> bytesRcvd rec' < bytesRcvd rec)))"

lemma remove_progress: "dlt_receiver_remove (Some r) n = (0, r') \<Longrightarrow> bytesRcvd (the r') < bytesRcvd r"
  by (auto simp: dlt_receiver_remove_def split: option.splits if_splits)

lemma remove_shrinks: "0 \<le> bytesRcvd r \<Longrightarrow> bytesRcvd (the (snd (dlt_receiver_remove (Some r) n))) \<le> bytesRcvd r"
  by (auto simp: dlt_receiver_remove_def split: option.splits)

lemma get_progress:
  assumes "dlt_receiver_check_and_get mem (Some rec) (Some d) n 3 = (r, rec', dest)" "\<not> r < 0"
  shows "bytesRcvd (the rec') < bytesRcvd rec"
  using assms remove_progress [of rec]
  by (auto simp: dlt_receiver_check_and_get_def Let_def split: if_splits prod.splits)

lemma get_description_progress: "get_description mem rec n = Inr (m, desc, rec') \<Longrightarrow> bytesRcvd rec' < bytesRcvd rec"
  using remove_progress [of rec]
  by (auto simp: get_description_def Let_def split: if_splits prod.splits)

lemma emit_all_returns: "calls_return P emit \<Longrightarrow> P w \<Longrightarrow> \<exists>m' w'. emit_all emit es (m, w) = Some (m', w') \<and> P w'"
proof (induction es arbitrary: m w)
  case (Cons e es)
  then obtain m1 w1 where "emit e (m, w) = Some (m1, w1)" "P w1" unfolding calls_return_def by blast
  with Cons show ?case by simp
qed simp

lemma returns_on_tables:
  assumes "calls_return P emit" "progress f"
  shows "returns (\<lambda>(d, m, w). P w) (on_tables emit f)"
  unfolding returns_def
proof (clarify)
  fix d m w rec assume "P w"
  obtain r d' rec' e where f: "f d rec = (r, d', rec', e)" by (metis prod_cases4)
  then have p: "r \<noteq> - 1 \<longrightarrow> bytesRcvd rec' < bytesRcvd rec" using assms(2) unfolding progress_def by blast
  obtain m' w' where "emit_all emit e (m, w) = Some (m', w')" "P w'" using emit_all_returns [OF assms(1) \<open>P w\<close>] by blast
  then show "\<exists>r s' rec'. on_tables emit f ((d, m, w), rec) = Some (r, s', rec') \<and> (case s' of (d, m, w) \<Rightarrow> P w) \<and>
      (r \<noteq> - 1 \<longrightarrow> bytesRcvd rec' < bytesRcvd rec)"
    using f p by (simp add: on_tables_def)
qed

lemma returns_on_message:
  assumes "calls_return P emit" "progress f"
  shows "returns (\<lambda>(d, m, w). P w) (on_message emit f)"
  unfolding returns_def
proof (clarify)
  fix d m w rec assume "P w"
  obtain r m1 rec' e where f: "f m rec = (r, m1, rec', e)" by (metis prod_cases4)
  then have p: "r \<noteq> - 1 \<longrightarrow> bytesRcvd rec' < bytesRcvd rec" using assms(2) unfolding progress_def by blast
  obtain m' w' where "emit_all emit e (m1, w) = Some (m', w')" "P w'" using emit_all_returns [OF assms(1) \<open>P w\<close>] by blast
  then show "\<exists>r s' rec'. on_message emit f ((d, m, w), rec) = Some (r, s', rec') \<and> (case s' of (d, m, w) \<Rightarrow> P w) \<and>
      (r \<noteq> - 1 \<longrightarrow> bytesRcvd rec' < bytesRcvd rec)"
    using f p by (simp add: on_message_def)
qed

lemma progress_register_application: "progress (dlt_daemon_process_user_message_register_application env mem)"
  by (auto simp: progress_def dlt_daemon_process_user_message_register_application_def Let_def dest: get_description_progress
      split: sum.splits prod.splits option.splits)

lemma progress_register_context: "progress (dlt_daemon_process_user_message_register_context env mem)"
  by (auto simp: progress_def dlt_daemon_process_user_message_register_context_def Let_def dest: get_description_progress
      split: sum.splits prod.splits option.splits)

lemma progress_unregister_application: "progress (dlt_daemon_process_user_message_unregister_application mem)"
  by (auto simp: progress_def dlt_daemon_process_user_message_unregister_application_def Let_def dest: get_progress
      split: if_splits prod.splits option.splits)

lemma progress_unregister_context: "progress (dlt_daemon_process_user_message_unregister_context env mem)"
  by (auto simp: progress_def dlt_daemon_process_user_message_unregister_context_def Let_def dest: get_progress
      split: if_splits prod.splits option.splits)

lemma progress_set_app_ll_ts: "progress (dlt_daemon_process_user_message_set_app_ll_ts env mem)"
  by (auto simp: progress_def dlt_daemon_process_user_message_set_app_ll_ts_def Let_def dest: get_progress
      split: if_splits prod.splits option.splits)

lemma progress_overflow: "progress (dlt_daemon_process_user_message_overflow mem)"
  by (auto simp: progress_def dlt_daemon_process_user_message_overflow_def Let_def dest: get_progress split: if_splits prod.splits)

lemma progress_marker: "progress (dlt_daemon_process_user_message_marker mem)"
  by (auto simp: progress_def dlt_daemon_process_user_message_marker_def Let_def dest: get_progress split: if_splits prod.splits)

lemma progress_log: "progress (dlt_daemon_process_user_message_log alloc mem)"
  by (auto simp: progress_def dlt_daemon_process_user_message_log_def Let_def dest: remove_progress split: if_splits prod.splits)

lemmas handlers_progress =
  progress_register_application progress_register_context progress_unregister_application progress_unregister_context
  progress_set_app_ll_ts progress_overflow progress_marker

lemma returns_not_sup: "returns Q (\<lambda>p. Some (dlt_daemon_process_user_message_not_sup p))"
  by (auto simp: returns_def dlt_daemon_process_user_message_not_sup_def)

lemma returns_process_user_func: "calls_return P emit \<Longrightarrow> returns (\<lambda>(d, m, w). P w) (process_user_func env emit alloc mem n)"
  by (simp add: process_user_func_def returns_on_tables handlers_progress returns_on_message progress_log returns_not_sup)

lemma user_loop_ends:
  assumes "\<And>n. returns Q (func n)"
  shows "nat (bytesRcvd rec) < k \<Longrightarrow> Q s \<Longrightarrow> \<exists>s' rec'. user_loop func mem k (s, rec) = Some (s', rec') \<and> Q s'"
proof (induction k arbitrary: s rec)
  case (Suc k)
  define bs where "bs = drop (the (buf rec)) (mem (the (rbuffer rec)))"
  define off where "off = userheader_offset bs (bytesRcvd rec) 0"
  define rec1 where "rec1 = (if off > 0 then the (snd (dlt_receiver_remove (Some rec) (int off))) else rec)"
  define message where "message = nat (le_val (memget bs (off + 4) 4))"
  define f where "f = (if message \<ge> 16 then (\<lambda>p. Some (dlt_daemon_process_user_message_not_sup p)) else func message)"
  have f: "returns Q f" by (simp add: f_def assms returns_not_sup)
  obtain r s' rec' where fr: "f (s, rec1) = Some (r, s', rec')" "Q s'" "r \<noteq> - 1 \<longrightarrow> bytesRcvd rec' < bytesRcvd rec1"
    using f Suc.prems(2) unfolding returns_def by blast
  have "\<exists>s2 rec2. user_loop func mem k (s', rec') = Some (s2, rec2) \<and> Q s2" if "8 \<le> bytesRcvd rec" "r \<noteq> - 1"
  proof -
    have "bytesRcvd rec1 \<le> bytesRcvd rec" using remove_shrinks [of rec] that by (simp add: rec1_def)
    then show ?thesis using Suc.prems(1) fr that by (intro Suc.IH) linarith+
  qed
  moreover have "user_loop func mem (Suc k) (s, rec) =
    (if int 8 \<le> bytesRcvd rec
     then if \<not> dlt_user_check_userheader (drop off bs) then Some (s, rec)
          else (case f (s, rec1) of None \<Rightarrow> None
                | Some (r, s', rec') \<Rightarrow> if r = - 1 then Some (s', rec') else user_loop func mem k (s', rec'))
     else Some (s, rec))"
    by (simp only: user_loop.simps Let_def bs_def off_def rec1_def message_def f_def)
  ultimately show ?case using fr Suc.prems(2) by simp
qed simp

text \<open>When the calls return, the loop over the received messages does.\<close>

lemma user_messages_return:
  assumes "calls_return P emit" "P w"
  shows "\<exists>ret mem' d' m' w' rec'. dlt_daemon_process_user_messages env emit alloc rd backup_ok mem ((d, m, w), rec) =
    Some (ret, mem', (d', m', w'), rec') \<and> (ret = 0 \<or> ret = - 1) \<and> P w'"
proof -
  obtain n mem1 rec1 where r: "dlt_receiver_receive rd mem (Some rec) = (n, mem1, rec1)" by (metis prod_cases3)
  have "nat (bytesRcvd (the rec1)) < nat (bytesRcvd (the rec1)) + 1" by simp
  from user_loop_ends [where func = "process_user_func env emit alloc mem1" and mem = mem1 and s = "(d, m, w)",
      OF returns_process_user_func [OF assms(1)] this] assms(2)
  obtain d2 m2 w2 rec2 where l: "user_loop (process_user_func env emit alloc mem1) mem1 (nat (bytesRcvd (the rec1)) + 1) ((d, m, w), the rec1) =
      Some ((d2, m2, w2), rec2)" "P w2" by auto
  obtain m3 w3 where c: "emit (Close_Socket (fd (the rec1))) (m, w) = Some (m3, w3)" "P w3"
    using assms unfolding calls_return_def by blast
  show ?thesis using l c assms(2) by (auto simp: dlt_daemon_process_user_messages_def r split_beta simp del: user_loop.simps)
qed

section \<open>Unregistering an application\<close>

lemma remove_range_step:
  assumes "off + Suc i \<le> length xs"
  shows "take off (take (off + i) xs @ drop (off + i + 1) xs) @ drop (off + i) (take (off + i) xs @ drop (off + i + 1) xs) =
    take off xs @ drop (off + Suc i) xs"
  using assms by (simp add: min_def)

lemma unregister_contexts_spec:
  assumes "tables_ok d" "dlt_daemon_find_users_list d (own_ecuid d) = Some u" "off + n \<le> length (ctxs_of d u)"
  shows "\<exists>d'. unregister_contexts d off n = (0, d') \<and> tables_ok d' \<and> own_ecuid d' = own_ecuid d \<and>
    dlt_daemon_find_users_list d' (own_ecuid d) = Some u \<and>
    ctxs_of d' u = take off (ctxs_of d u) @ drop (off + n) (ctxs_of d u) \<and> map a_apid (apps_of d' u) = map a_apid (apps_of d u)"
  using assms
proof (induction n arbitrary: d)
  case (Suc i)
  obtain r d1 where r: "dlt_daemon_context_del d (Some (off + i)) (own_ecuid d) = (r, d1)" by fastforce
  have "off + i < length (ctxs_of d u)" using Suc.prems(3) by simp
  note s = context_del_spec [OF Suc.prems(1,2) this r]
  have "off + i \<le> length (ctxs_of d1 u)" using s Suc.prems(3) by simp
  with Suc.IH [of d1] s obtain d' where "unregister_contexts d1 off i = (0, d') \<and> tables_ok d' \<and> own_ecuid d' = own_ecuid d \<and>
    dlt_daemon_find_users_list d' (own_ecuid d) = Some u \<and>
    ctxs_of d' u = take off (ctxs_of d1 u) @ drop (off + i) (ctxs_of d1 u) \<and> map a_apid (apps_of d' u) = map a_apid (apps_of d1 u)" by auto
  then show ?case using r s remove_range_step [OF Suc.prems(3)] by simp
qed simp

text \<open>The contexts of the applications stand in the order of the applications.\<close>

lemma apid_key: "app_wf a \<Longrightarrow> ctx_wf x \<Longrightarrow> be_val (x_apid x) = akey a \<longleftrightarrow> x_apid x = a_apid a"
  using be_val_inj [of "x_apid x" "a_apid a"] by (auto simp: akey_def app_wf_def ctx_wf_def)

lemma contexts_grouped:
  assumes ok: "users_ok us"
  shows "concat (map (\<lambda>a. filter (\<lambda>x. x_apid x = a_apid a) (contexts us)) (applications us)) = contexts us"
proof -
  let ?as = "applications us" and ?xs = "contexts us" and ?k = "\<lambda>x. be_val (x_apid x)"
  have t: "apps.table ?as" "ctxs.table ?xs" and core: "users_core us" using ok by (simp_all add: users_ok_def)
  have aw: "app_wf a" if "a \<in> set ?as" for a using core that by (simp add: users_core_def app_wf_def)
  have xw: "ctx_wf x" if "x \<in> set ?xs" for x using core that by (simp add: users_core_def ctx_wf_def)
  have "sorted_wrt (\<lambda>x y. xkey x < xkey y) ?xs" using t(2) by (simp add: ctxs.table_def)
  then have "sorted_wrt (\<lambda>x y. ?k x \<le> ?k y) ?xs"
    by (rule sorted_wrt_mono_rel [rotated]) (use xw xkey_less(1) in fastforce)
  moreover have "sorted_wrt (<) (map akey ?as)" using t(1) by (simp add: apps.table_def sorted_wrt_map)
  moreover have "?k ` set ?xs \<subseteq> set (map akey ?as)" using core by (force simp: users_core_def akey_def)
  ultimately have "concat (map (\<lambda>c. filter (\<lambda>x. ?k x = c) ?xs) (map akey ?as)) = ?xs" by (rule sorted_groups)
  moreover have "map (\<lambda>c. filter (\<lambda>x. ?k x = c) ?xs) (map akey ?as) = map (\<lambda>a. filter (\<lambda>x. x_apid x = a_apid a) ?xs) ?as"
    using aw xw apid_key by (auto intro!: filter_cong)
  ultimately show ?thesis by (simp only:)
qed

lemma contexts_of_application:
  assumes ok: "users_ok us" and j: "j < length (applications us)"
    and off: "off = nat (sum_list (map a_num_contexts (take j (applications us))))" and n: "n = nat (a_num_contexts (applications us ! j))"
  shows "off + n \<le> length (contexts us)"
    and "take off (contexts us) @ drop (off + n) (contexts us) = filter (\<lambda>x. x_apid x \<noteq> a_apid (applications us ! j)) (contexts us)"
proof -
  let ?as = "applications us" and ?xs = "contexts us"
  let ?g = "\<lambda>a. filter (\<lambda>x. x_apid x = a_apid a) ?xs" and ?a = "applications us ! j"
  define P where "P = concat (map ?g (take j ?as))"
  define S where "S = concat (map ?g (drop (Suc j) ?as))"
  have num: "a_num_contexts a = int (length (?g a))" if "a \<in> set ?as" for a
    using ok that count_map_filter [of x_apid ?xs "a_apid a"] by (simp add: users_ok_def users_core_def)
  have xs: "?xs = P @ ?g ?a @ S"
    using contexts_grouped [OF ok] arg_cong [OF id_take_nth_drop [OF j], of "\<lambda>l. concat (map ?g l)"] by (simp add: P_def S_def)
  have "int (length (concat (map ?g bs))) = sum_list (map a_num_contexts bs)" if "set bs \<subseteq> set ?as" for bs
    using that num by (induction bs) auto
  from this [of "take j ?as"] have P: "length P = off" by (simp add: P_def off set_take_subset)
  have G: "length (?g ?a) = n" using num [of ?a] j by (simp add: n)
  have ne: "a_apid (?as ! i) \<noteq> a_apid ?a" if "i < length ?as" "i \<noteq> j" for i
    using apps.table_nth_inj [of ?as i j] ok that j by (auto simp: users_ok_def akey_def)
  have "filter (\<lambda>x. x_apid x \<noteq> a_apid ?a) P = P" "filter (\<lambda>x. x_apid x \<noteq> a_apid ?a) S = S"
    using ne j by (auto simp: P_def S_def filter_id_conv in_set_conv_nth)
  then have "filter (\<lambda>x. x_apid x \<noteq> a_apid ?a) ?xs = P @ S" by (subst xs) simp
  moreover have "take off ?xs = P" "drop (off + n) ?xs = S" using P G by (subst xs, simp)+
  ultimately show "take off ?xs @ drop (off + n) ?xs = filter (\<lambda>x. x_apid x \<noteq> a_apid ?a) ?xs" by simp
  show "off + n \<le> length ?xs" using arg_cong [OF xs, of length] P G by simp
qed

lemma get_and_remove:
  assumes "rcv_ok (mem, r)" "waiting_bytes (mem, r) = h @ m @ rest" "length h = 8" "length m = n" "n < 1000"
  shows "\<exists>r'. dlt_receiver_check_and_get mem (Some r) (Some (replicate n 0)) n 3 = (int n, Some r', Some m) \<and>
    rcv_ok (mem, r') \<and> waiting_bytes (mem, r') = rest"
proof -
  have f: "(8 :: nat) = (if (3 :: 32 word) AND 1 \<noteq> 0 then 8 else 0)" "(3 :: 32 word) AND 2 \<noteq> 0" by simp_all
  from check_and_get_spec [OF assms(1), of n "replicate n 0" 8 3] show ?thesis using assms(2-) f
    by (auto simp: memget_def)
qed

lemma users_ok_removed:
  assumes d: "tables_ok d" "u < length (user_list d)" "j < length (apps_of d u)"
    and n: "a_apid (apps_of d u ! j) \<notin> x_apid ` set (ctxs_of d u)"
  shows "a_num_contexts (apps_of d u ! j) = 0"
proof -
  have "a_num_contexts (apps_of d u ! j) = int (count (mset (map x_apid (ctxs_of d u))) (a_apid (apps_of d u ! j)))"
    using users_ok_of [OF d(1,2)] d(3) by (simp add: users_ok_def users_core_def)
  also have "count (mset (map x_apid (ctxs_of d u))) (a_apid (apps_of d u ! j)) = 0" using n by (simp add: count_eq_zero_iff)
  finally show ?thesis by simp
qed

lemma remove_distinct:
  assumes "distinct xs" "j < length xs"
  shows "take j xs @ drop (j + 1) xs = filter (\<lambda>x. x \<noteq> xs ! j) xs"
proof -
  have xs: "xs = take j xs @ xs ! j # drop (Suc j) xs" using assms(2) by (rule id_take_nth_drop)
  have "distinct (take j xs @ xs ! j # drop (Suc j) xs)" using assms(1) xs by simp
  then have "filter (\<lambda>x. x \<noteq> xs ! j) (take j xs) = take j xs" "filter (\<lambda>x. x \<noteq> xs ! j) (drop (Suc j) xs) = drop (Suc j) xs"
    by (auto simp: filter_id_conv)
  then have "filter (\<lambda>x. x \<noteq> xs ! j) (take j xs @ xs ! j # drop (Suc j) xs) = take j xs @ drop (j + 1) xs" by simp
  then show ?thesis using xs by simp
qed

lemma unregister_application_spec:
  assumes ok: "tables_ok d" and ecu: "dlt_daemon_find_users_list d (own_ecuid d) = Some u" and rec: "rcv_ok (mem, r)"
    and w: "waiting_bytes (mem, r) = h @ apid @ pd @ rest" "length h = 8" "length pd = 4" and v: "valid_id apid"
    and reg: "apid \<in> a_apid ` set (apps_of d u)"
  shows "\<exists>d' r' ev. dlt_daemon_process_user_message_unregister_application mem d r = (0, d', r', ev) \<and> tables_ok d' \<and>
    rcv_ok (mem, r') \<and> waiting_bytes (mem, r') = rest \<and>
    ctx_ids (user_list d' ! u) = filter (\<lambda>p. fst p \<noteq> apid) (ctx_ids (user_list d ! u)) \<and>
    map a_apid (apps_of d' u) = filter (\<lambda>i. i \<noteq> apid) (map a_apid (apps_of d u))"
proof -
  note u = find_users_bounds [OF ecu]
  note us = users_ok_of [OF ok u]
  obtain r' where r': "dlt_receiver_check_and_get mem (Some r) (Some (replicate 8 0)) 8 3 = (8, Some r', Some (apid @ pd))"
      "rcv_ok (mem, r')" "waiting_bytes (mem, r') = rest"
    using get_and_remove [OF rec, of h "apid @ pd" rest 8] w v by auto
  obtain j where j: "j < length (apps_of d u)" "a_apid (apps_of d u ! j) = apid" using reg by (metis imageE in_set_conv_nth)
  have find: "dlt_daemon_application_find d apid (own_ecuid d) = Some j" using application_find_Some [OF ok ecu v] j by simp
  define off where "off = nat (sum_list (map a_num_contexts (take j (apps_of d u))))"
  define n where "n = nat (a_num_contexts (apps_of d u ! j))"
  note c = contexts_of_application [OF us j(1) off_def n_def]
  obtain d1 where d1: "unregister_contexts d off n = (0, d1)" "tables_ok d1" "own_ecuid d1 = own_ecuid d"
      "dlt_daemon_find_users_list d1 (own_ecuid d) = Some u" "ctxs_of d1 u = filter (\<lambda>x. x_apid x \<noteq> apid) (ctxs_of d u)"
      "map a_apid (apps_of d1 u) = map a_apid (apps_of d u)"
    using unregister_contexts_spec [OF ok ecu c(1)] c(2) j(2) by auto
  have j1: "j < length (apps_of d1 u)" "a_apid (apps_of d1 u ! j) = apid"
    using arg_cong [OF d1(6), of length] arg_cong [OF d1(6), of "\<lambda>l. l ! j"] j by simp_all
  have z: "a_num_contexts (apps_of d1 u ! j) = 0"
    using d1(2,5) j1 find_users_bounds [OF d1(4)] by (intro users_ok_removed) auto
  obtain r2 d2 cl where d2: "dlt_daemon_application_del d1 (Some j) (own_ecuid d) = (r2, d2, cl)" by (metis prod_cases3)
  note s = application_del_spec [OF d1(2,4) j1(1) z d2]
  have "distinct (map a_apid (apps_of d u))"
    using us apps.table_distinct [of "apps_of d u"] by (auto simp: users_ok_def distinct_map akey_def inj_on_def)
  then have "take j (map a_apid (apps_of d u)) @ drop (j + 1) (map a_apid (apps_of d u)) = filter (\<lambda>i. i \<noteq> apid) (map a_apid (apps_of d u))"
    using remove_distinct [of "map a_apid (apps_of d u)" j] j by simp
  moreover have "map fst (app_ids (user_list d2 ! u)) = map fst (take j (app_ids (user_list d1 ! u)) @ drop (j + 1) (app_ids (user_list d1 ! u)))"
    using s by simp
  then have "map a_apid (apps_of d2 u) = take j (map a_apid (apps_of d u)) @ drop (j + 1) (map a_apid (apps_of d u))"
    by (simp add: app_ids_def take_map drop_map comp_def flip: d1(6))
  moreover have "ctx_ids (user_list d2 ! u) = filter (\<lambda>p. fst p \<noteq> apid) (ctx_ids (user_list d ! u))"
    using s d1(5) by (simp add: ctx_ids_def filter_map comp_def)
  moreover have "\<exists>ev. dlt_daemon_process_user_message_unregister_application mem d r = (0, d2, r', ev)"
    using r' ecu j find d1 d2 s v w
    by (cases "apps_of d u = []")
      (simp_all add: dlt_daemon_process_user_message_unregister_application_def memget_def Let_def flip: off_def n_def)
  ultimately show ?thesis using s r' by auto
qed

section \<open>Registrations with a description\<close>

lemma check_and_get_raw:
  assumes "rbuffer r = Some a" "buf r = Some p" "to_get < 1000"
  shows "dlt_receiver_check_and_get mem (Some r) (Some d) to_get 0 =
    (if bytesRcvd r < int to_get then (- 5, Some r, Some d) else (int to_get, Some r, Some (memput d 0 (memget (mem a) p to_get))))"
  using assms by (simp add: dlt_receiver_check_and_get_def Let_def cconv)

lemma get_fixed_part:
  assumes "rcv_ok (mem, r)" "waiting_bytes (mem, r) = h @ m @ rest" "length h = 8" "length m = n" "n < 1000"
  shows "\<exists>r'. dlt_receiver_check_and_get mem (Some r) (Some (replicate n 0)) n 1 = (int n, r', Some m)"
proof -
  have f: "(8 :: nat) = (if (1 :: 32 word) AND 1 \<noteq> 0 then 8 else 0)" "(1 :: 32 word) AND 2 = 0" by simp_all
  from check_and_get_spec [OF assms(1), of n "replicate n 0" 8 1] show ?thesis using assms(2-) f
    by (auto simp: memget_def)
qed

definition description_length :: "byte list \<Rightarrow> nat" where
  "description_length m = nat (le_val (memget m (length m - 4) 4))"

lemma get_description_unfold:
  assumes ok: "rcv_ok (mem, r)" and w: "waiting_bytes (mem, r) = h @ m @ rest" "length h = 8" "length m = n" "n < 1000"
    and l: "description_length m \<le> 256"
  shows "get_description mem r n =
    (if bytesRcvd r < int (description_length m)
     then (case dlt_receiver_remove (Some r) (int (n + 8)) of
             (rc, r') \<Rightarrow> if rc \<noteq> 0 then Inl (the r') else Inr (m, memput (replicate 257 0) 0 (map of_char ''Unknown'' @ [0]), the r'))
     else (case dlt_receiver_remove (Some r) (int (n + 8 + description_length m)) of
             (rc, r') \<Rightarrow> if rc \<noteq> 0 then Inl (the r')
               else Inr (m, memput (replicate 257 0) 0 (memget (mem (the (rbuffer r))) (the (buf r) + (n + 8)) (description_length m)), the r')))"
proof -
  obtain a p where ap: "rbuffer r = Some a" "buf r = Some p" using ok by (auto simp: rcv_ok_def)
  obtain r' where g: "dlt_receiver_check_and_get mem (Some r) (Some (replicate n 0)) n 1 = (int n, r', Some m)"
    using get_fixed_part [OF ok w] by blast
  let ?L = "description_length m"
  have g2: "dlt_receiver_check_and_get mem (Some (r\<lparr>buf := Some (p + (n + 8))\<rparr>)) (Some (replicate 257 0)) ?L 0 =
      (if bytesRcvd r < int ?L then (- 5, Some (r\<lparr>buf := Some (p + (n + 8))\<rparr>), Some (replicate 257 0))
       else (int ?L, Some (r\<lparr>buf := Some (p + (n + 8))\<rparr>), Some (memput (replicate 257 0) 0 (memget (mem a) (p + (n + 8)) ?L))))"
    using check_and_get_raw [of "r\<lparr>buf := Some (p + (n + 8))\<rparr>" a "p + (n + 8)" ?L mem] ap l by simp
  have dl: "nat (le_val (memget m (n - 4) 4)) = ?L" using w by (simp add: description_length_def)
  have lim: "(if ?L > 256 then 256 else ?L) = ?L" using l by simp
  have i: "i32 (int (n + 8 + k)) = int (n + 8 + k)" if "k \<le> 256" for k using that w by (simp add: cconv)
  show ?thesis
    unfolding get_description_def g Let_def prod.case option.sel ap dl nat_int lim using i [of 0] i [OF l]
    by (auto simp: g2 ap add.assoc split: prod.split)
qed

lemma get_description_complete:
  assumes ok: "rcv_ok (mem, r)" and w: "waiting_bytes (mem, r) = h @ m @ dsc @ rest" "length h = 8" "length m = n" "n < 1000"
    and l: "description_length m = length dsc" "length dsc \<le> 256"
  shows "\<exists>r'. get_description mem r n = Inr (m, dsc @ replicate (257 - length dsc) 0, r') \<and> rcv_ok (mem, r') \<and>
    waiting_bytes (mem, r') = rest \<and> rtype r' = rtype r \<and> fd r' = fd r"
proof -
  obtain a p where ap: "rbuffer r = Some a" "buf r = Some p" using ok by (auto simp: rcv_ok_def)
  have len: "int (length (waiting_bytes (mem, r))) = bytesRcvd r" using length_waiting [OF ok] ok by (auto simp: rcv_ok_def)
  then have b: "int (n + 8 + length dsc) \<le> bytesRcvd r" using w by simp
  have "memget (mem a) (p + (n + 8)) (length dsc) = memget (waiting_bytes (mem, r)) (n + 8) (length dsc)"
    using b by (simp add: waiting_bytes_def ap memget_memget)
  also have "\<dots> = dsc" using w by (simp add: memget_def)
  finally have g: "memget (mem a) (p + (n + 8)) (length dsc) = dsc" .
  have "0 < int (n + 8 + length dsc)" by simp
  from remove_waiting [OF ok this b] obtain r' where r': "dlt_receiver_remove (Some r) (int (n + 8 + length dsc)) = (0, Some r')"
      "rcv_ok (mem, r')" "waiting_bytes (mem, r') = rest"
    using w by (auto simp: nat_int_add)
  have "rtype r' = rtype r" "fd r' = fd r" using r'(1) ap by (auto simp: dlt_receiver_remove_def split: if_splits)
  moreover have "memput (replicate 257 0) 0 dsc = dsc @ replicate (257 - length dsc) 0" by (simp add: memput_def)
  ultimately show ?thesis
    using get_description_unfold [OF ok w(1) w(2-4)] l b r' g ap by simp
qed

lemma get_description_fragment:
  assumes ok: "rcv_ok (mem, r)" and w: "waiting_bytes (mem, r) = h @ m @ part" "length h = 8" "length m = n" "n < 1000"
    and l: "length part < description_length m" "description_length m \<le> 256" "description_length m \<le> 8 + n + length part"
  shows "\<exists>r'. get_description mem r n = Inl r' \<and> bytesRcvd r' = 0"
proof -
  obtain a p where ap: "rbuffer r = Some a" "buf r = Some p" using ok by (auto simp: rcv_ok_def)
  have "int (length (waiting_bytes (mem, r))) = bytesRcvd r" using length_waiting [OF ok] ok by (auto simp: rcv_ok_def)
  then have b: "bytesRcvd r = int (8 + n + length part)" using w by simp
  then have "dlt_receiver_remove (Some r) (int (n + 8 + description_length m)) =
      (- 5, Some (r\<lparr>buf := Some (p + (8 + n + length part)), bytesRcvd := 0\<rparr>))"
    using l(1) by (simp add: dlt_receiver_remove_def ap)
  then show ?thesis using get_description_unfold [OF ok w l(2)] b l by auto
qed

lemma c_string_padded: "0 < k \<Longrightarrow> c_string (dsc @ replicate k 0) = c_string dsc"
  by (cases k; induction dsc) (auto simp: c_string_def)

lemma send_log_state_spec:
  assumes u: "u < length (user_list d)" and i: "i < length (apps_of d u)"
    and r: "dlt_daemon_user_send_log_state env d u (Some i) = (res, d', ev)"
  shows "same_tables d d' \<and> a_pid (apps_of d' u ! i) = a_pid (apps_of d u ! i) \<and>
    a_description (apps_of d' u ! i) = a_description (apps_of d u ! i)"
proof -
  obtain d1 c where d1: "dlt_daemon_application_reset_user_handle d u i = (d1, c)" by fastforce
  note s = reset_user_handle_spec [OF u i d1]
  have "d' = d \<or> d' = d1"
    using r by (auto simp: dlt_daemon_user_send_log_state_def Let_def d1 split: option.splits prod.splits if_splits)
  then show ?thesis using s i by auto
qed

lemma register_application_spec:
  assumes ok: "tables_ok d" and e: "table_env_ok (tables env)" "first_alloc (tables env)" "grow_alloc (tables env)" "desc_alloc (tables env)"
    and ecu: "dlt_daemon_find_users_list d (own_ecuid d) = Some u" and rec: "rcv_ok (mem, r)"
    and w: "waiting_bytes (mem, r) = h @ apid @ pd @ le_bytes 4 (int (length dsc)) @ dsc @ rest"
      "length h = 8" "length pd = 4" "length dsc \<le> 256" and v: "valid_id apid"
  shows "\<exists>d' r' ev i. dlt_daemon_process_user_message_register_application env mem d r = (0, d', r', ev) \<and> tables_ok d' \<and>
    rcv_ok (mem, r') \<and> waiting_bytes (mem, r') = rest \<and> dlt_daemon_application_find d' apid (own_ecuid d) = Some i \<and>
    a_pid (apps_of d' u ! i) = i32 (le_val pd) \<and> a_description (apps_of d' u ! i) = Some (c_string dsc)"
proof -
  let ?m = "apid @ pd @ le_bytes 4 (int (length dsc))"
  have m: "length ?m = 12" "memget ?m 0 4 = apid" "memget ?m 4 4 = pd" "description_length ?m = length dsc"
    using w v by (simp_all add: memget_def description_length_def le_val_le_bytes)
  obtain r' where r': "get_description mem r 12 = Inr (?m, dsc @ replicate (257 - length dsc) 0, r')" "rcv_ok (mem, r')" "waiting_bytes (mem, r') = rest"
    using get_description_complete [OF rec, of h ?m dsc rest 12] w m by auto
  define f where "f = (if rtype r' = DLT_RECEIVE_SOCKET then fd r' else - 1)"
  obtain a d1 c where a: "dlt_daemon_application_add (tables env) d apid (i32 (le_val pd)) (Some (c_string dsc)) f (own_ecuid d) = (a, d1, c)"
    by (metis prod_cases3)
  note s = application_add_spec [OF ok e(1) v ecu disjI1 [OF e(4)] a]
  then obtain i where i: "a = Some i" "app_added d u apid (i32 (le_val pd)) (Some (c_string dsc)) i d1" using e by (auto split: option.splits)
  have u1: "u < length (user_list d1)" and i1: "i < length (apps_of d1 u)" using s i find_users_bounds [of d1] by (auto simp: app_added_def)
  obtain x d2 ev where x: "dlt_daemon_user_send_log_state env d1 u a = (x, d2, ev)" by (metis prod_cases3)
  note l = send_log_state_spec [OF u1 i1 x [unfolded i(1)]]
  have same: "same_tables d1 d2" using l by simp
  have ok2: "tables_ok d2" using same_tables_ok [OF same] s by simp
  have ecu2: "dlt_daemon_find_users_list d2 (own_ecuid d) = Some u" using same_tables_find_users [OF same] s by simp
  have "i < length (apps_of d2 u) \<and> a_apid (apps_of d2 u ! i) = apid"
    using same_tables_apid(1) [OF same u1] arg_cong [OF same_tables_apid(2) [OF same u1], of "\<lambda>l. l ! i"] i1 i(2) by (simp add: app_added_def)
  then have "dlt_daemon_application_find d2 apid (own_ecuid d) = Some i" using application_find_Some [OF ok2 ecu2 v] by simp
  moreover have "\<exists>ev. dlt_daemon_process_user_message_register_application env mem d r = (0, d2, r', ev)"
    using r'(1) m(2,3) a x i(1) ecu w(4) c_string_padded [of "257 - length dsc" dsc]
    by (simp add: dlt_daemon_process_user_message_register_application_def Let_def f_def)
  ultimately show ?thesis using r' ok2 l i(2) by (auto simp: app_added_def)
qed

section \<open>Properties\<close>

definition message_receiver :: "byte list \<Rightarrow> DltReceiver" where
  "message_receiver bs = \<lparr>lastBytesRcvd = 0, bytesRcvd = int (length bs), totalBytesRcvd = 0, rbuffer = Some 0, buf = Some 0, backup_buf = None,
     fd = 9, rtype = DLT_RECEIVE_FD, buffersize = int (length bs)\<rparr>"

lemma message_receiver_ok: "length bs < 1000 \<Longrightarrow> rcv_ok (\<lambda>_. bs, message_receiver bs)" "waiting_bytes (\<lambda>_. bs, message_receiver bs) = bs"
  by (simp_all add: rcv_ok_def waiting_bytes_def message_receiver_def memget_def)

definition example_daemon2 :: daemon_users where
  "example_daemon2 = example_daemon\<lparr>user_list := [example_users\<lparr>applications := [example_app\<lparr>a_num_contexts := 1\<rparr>], applications_cap := 500,
     contexts := [example_ctx], contexts_cap := 1000\<rparr>]\<rparr>"

definition example_header :: "byte list" where
  "example_header = [0x44, 0x55, 0x48, 1, 3, 0, 0, 0]"

definition example_user_env :: user_env where
  "example_user_env = \<lparr>tables = example_table_env, user_out = (\<lambda>_ _. (0, False)), connectionState = 0, rflag = False, autoResponseGetLogInfoOption = 7,
     verbose = False, msg_alloc = True, storage_level = (\<lambda>_ _. None)\<rparr>"

lemma example_daemon2_ok: "tables_ok example_daemon2" "dlt_daemon_find_users_list example_daemon2 (own_ecuid example_daemon2) = Some 0"
  "dlt_daemon_find_users_list example_daemon (own_ecuid example_daemon) = Some 0"
  using example_ids_valid
  by (simp_all add: example_app_def example_ctx_def tables_ok_def example_daemon_def example_daemon2_def example_users_def
      users_ok_def users_core_def cap_ok_def dlt_daemon_find_users_list_def apps.table_def app_wf_def ctxs.table_def ctx_wf_def)

text \<open>
  C22. Unregistering an application: the message is consumed, exactly the contexts of the
  application leave the table, the application leaves the table, all others stay in order, and
  the invariant of the tables is kept. The handler finds the contexts by adding up the counters
  of the applications before it.
\<close>

theorem unregister_application_removes:
  assumes "tables_ok d" "dlt_daemon_find_users_list d (own_ecuid d) = Some u" "rcv_ok (mem, r)"
    "waiting_bytes (mem, r) = h @ apid @ pd @ rest" "length h = 8" "length pd = 4" "valid_id apid"
    "apid \<in> a_apid ` set (applications (user_list d ! u))"
  shows "\<exists>d' r' ev. dlt_daemon_process_user_message_unregister_application mem d r = (0, d', r', ev) \<and> tables_ok d' \<and>
    rcv_ok (mem, r') \<and> waiting_bytes (mem, r') = rest \<and>
    map (\<lambda>x. (x_apid x, x_ctid x)) (contexts (user_list d' ! u)) =
      filter (\<lambda>p. fst p \<noteq> apid) (map (\<lambda>x. (x_apid x, x_ctid x)) (contexts (user_list d ! u))) \<and>
    map a_apid (applications (user_list d' ! u)) = filter (\<lambda>i. i \<noteq> apid) (map a_apid (applications (user_list d ! u)))"
  using unregister_application_spec [OF assms] by (simp add: ctx_ids_def)

theorem unregister_application_removes_witness:
  "\<exists>d' r' ev. dlt_daemon_process_user_message_unregister_application (\<lambda>_. example_header @ [0x41, 0, 0, 0] @ [7, 0, 0, 0])
      example_daemon2 (message_receiver (example_header @ [0x41, 0, 0, 0] @ [7, 0, 0, 0])) = (0, d', r', ev) \<and>
    contexts (user_list d' ! 0) = [] \<and> applications (user_list d' ! 0) = []"
proof -
  let ?b = "example_header @ [0x41, 0, 0, 0] @ [7, 0, 0, 0]"
  have "length ?b < 1000" "length example_header = 8" by (simp_all add: example_header_def)
  moreover have "[0x41, 0, 0, 0] \<in> a_apid ` set (applications (user_list example_daemon2 ! 0))"
    by (simp add: example_daemon2_def example_app_def)
  ultimately show ?thesis
    using unregister_application_removes [OF example_daemon2_ok(1,2) message_receiver_ok(1) [of ?b], of example_header "[0x41, 0, 0, 0]" "[7, 0, 0, 0]" "[]"]
      message_receiver_ok(2) [of ?b] example_ids_valid(1)
    by (auto simp: example_daemon2_def example_app_def example_ctx_def)
qed

text \<open>
  C23. A complete registration that waits in the receiver is taken as it was sent: the application
  is found afterwards with the process and the description of the message, and the bytes of the
  message, and no others, are consumed.
\<close>

theorem register_application_wire:
  assumes "tables_ok d" "table_env_ok (tables env)" "first_alloc (tables env)" "grow_alloc (tables env)" "desc_alloc (tables env)"
    "dlt_daemon_find_users_list d (own_ecuid d) = Some u" "rcv_ok (mem, r)"
    "waiting_bytes (mem, r) = h @ apid @ pd @ le_bytes 4 (int (length dsc)) @ dsc @ rest"
    "length h = 8" "length pd = 4" "length dsc \<le> 256" "valid_id apid"
  shows "\<exists>d' r' ev i. dlt_daemon_process_user_message_register_application env mem d r = (0, d', r', ev) \<and> tables_ok d' \<and>
    rcv_ok (mem, r') \<and> waiting_bytes (mem, r') = rest \<and> dlt_daemon_application_find d' apid (own_ecuid d) = Some i \<and>
    a_pid (applications (user_list d' ! u) ! i) = i32 (le_val pd) \<and>
    a_description (applications (user_list d' ! u) ! i) = Some (c_string dsc)"
  using assms by (rule register_application_spec)

theorem register_application_wire_witness:
  "\<exists>d' r' ev i. dlt_daemon_process_user_message_register_application example_user_env
      (\<lambda>_. example_header @ [0x41, 0, 0, 0] @ [7, 0, 0, 0] @ le_bytes 4 2 @ [0x78, 0x79] @ [5])
      example_daemon (message_receiver (example_header @ [0x41, 0, 0, 0] @ [7, 0, 0, 0] @ le_bytes 4 2 @ [0x78, 0x79] @ [5])) = (0, d', r', ev) \<and>
    dlt_daemon_application_find d' [0x41, 0, 0, 0] (own_ecuid example_daemon) = Some i \<and>
    a_description (applications (user_list d' ! 0) ! i) = Some [0x78, 0x79]"
proof -
  let ?b = "example_header @ [0x41, 0, 0, 0] @ [7, 0, 0, 0] @ le_bytes 4 2 @ [0x78, 0x79] @ [5]"
  have "length ?b < 1000" "length example_header = 8" by (simp_all add: example_header_def)
  moreover have "table_env_ok (tables example_user_env)" "first_alloc (tables example_user_env)" "grow_alloc (tables example_user_env)" "desc_alloc (tables example_user_env)"
    using example_tables_ok(1) by (simp_all add: example_user_env_def example_table_env_def)
  ultimately show ?thesis
    using register_application_wire [OF example_tables_ok(2) _ _ _ _ example_daemon2_ok(3) message_receiver_ok(1) [of ?b],
        of example_user_env example_header "[0x41, 0, 0, 0]" "[7, 0, 0, 0]" "[0x78, 0x79]" "[5]"]
      message_receiver_ok(2) [of ?b] example_ids_valid(1)
    by (auto simp: c_string_def)
qed

text \<open>
  A registration whose description has arrived only in part is lost: the handler compares the
  length of the description with all bytes received, the header and the fixed part included,
  goes on, drops every byte when it cannot remove the message and returns an error with the
  tables unchanged, although the rest may still arrive.
\<close>

theorem partial_registration_lost:
  assumes "rcv_ok (mem, r)" "waiting_bytes (mem, r) = h @ m @ part" "length h = 8" "length m = 12"
    "length part < description_length m" "description_length m \<le> 256" "description_length m \<le> 20 + length part"
  shows "\<exists>r'. dlt_daemon_process_user_message_register_application env mem d r = (- 1, d, r', []) \<and> bytesRcvd r' = 0"
  using get_description_fragment [OF assms(1-4) _ assms(5,6)] assms(7)
  by (auto simp: dlt_daemon_process_user_message_register_application_def)

end
