(* ===== verification/User_Send.thy ===== *)
theory User_Send
  imports User_Args User_Messages
begin

text \<open>
  How an application sends: \<open>dlt_user_log_send_log\<close> and the registrations of
  \<open>src/lib/dlt_user.c\<close>, on the write functions of \<open>src/shared/dlt_user_shared.c\<close>. What cannot be
  written is kept in the startup buffer and sent again by \<open>dlt_user_log_resend_buffer\<close>. The
  theory shows that this keeps the order of the messages, that the header of a log message is
  read back by \<open>dlt_message_read\<close>, and what goes wrong at the limits of the buffers.

  The connection is the named pipe (\<open>DLT_IPC\<close> is \<open>FIFO\<close>, the default), shared memory is off.
\<close>

section \<open>State and environment\<close>

text \<open>
  \<open>s_resend\<close> is the memory of \<open>resend_buffer\<close>. The events are the calls with an effect outside: the
  bytes that a write accepted, opened and closed handles, messages written to the offline file.
\<close>

datatype app_event =
    Wrote int "byte list"
  | Opened int
  | Closed int
  | To_File "byte list" "byte list"

record app_state =
  s_user :: DltUser
  s_resend :: "byte list"
  s_events :: "app_event list"

text \<open>
  What the functions get from outside. The results of system calls depend on all earlier events:
  \<open>ae_writev\<close> gives the number of bytes and \<open>errno\<close>, \<open>ae_open\<close> the handle of the pipe. \<open>ae_print\<close>
  is None when local printing is off, else the result of \<open>dlt_user_print_msg\<close>. \<open>ae_malloc\<close> says
  whether \<open>malloc\<close> succeeds. \<open>ae_msg\<close>, \<open>ae_context\<close> and \<open>ae_log\<close> are the contents of local
  variables before they are assigned.
\<close>

record app_env =
  ae_alloc :: "nat \<Rightarrow> byte list option"
  ae_pad :: "byte list"
  ae_pid :: int
  ae_uptime :: "app_event list \<Rightarrow> int"
  ae_time :: "app_event list \<Rightarrow> int \<times> int"
  ae_writev :: "app_event list \<Rightarrow> int \<Rightarrow> byte list \<Rightarrow> int \<times> int"
  ae_open :: "app_event list \<Rightarrow> int"
  ae_init :: "DltUser \<Rightarrow> int \<times> DltUser"
  ae_print :: "DltMessage \<Rightarrow> DltContextData \<Rightarrow> int option"
  ae_malloc :: bool
  ae_msg :: DltMessage
  ae_context :: DltContext
  ae_log :: DltContextData

definition add_event :: "app_event \<Rightarrow> app_state \<Rightarrow> app_state" where
  "add_event e s = s\<lparr>s_events := s_events s @ [e]\<rparr>"

definition set_buffer :: "DltBuffer \<Rightarrow> app_state \<Rightarrow> app_state" where
  "set_buffer b s = s\<lparr>s_user := (s_user s)\<lparr>u_startup_buffer := b\<rparr>\<rparr>"

definition set_handle :: "int \<Rightarrow> app_state \<Rightarrow> app_state" where
  "set_handle h s = s\<lparr>s_user := (s_user s)\<lparr>u_log_handle := h\<rparr>\<rparr>"

definition set_overflow :: "nat \<Rightarrow> app_state \<Rightarrow> app_state" where
  "set_overflow n s = s\<lparr>s_user := (s_user s)\<lparr>u_overflow_counter := n\<rparr>\<rparr>"

section \<open>Writing to the pipe\<close>

abbreviation (input) EBADF :: int where "EBADF \<equiv> 9"
abbreviation (input) EAGAIN :: int where "EAGAIN \<equiv> 11"
abbreviation (input) EPIPE :: int where "EPIPE \<equiv> 32"
abbreviation (input) ETIMEDOUT :: int where "ETIMEDOUT \<equiv> 110"

text \<open>\<open>writev\<close> of parts that together are \<open>bytes\<close>: the result, \<open>errno\<close> and the state.\<close>

definition write_vector :: "app_env \<Rightarrow> app_state \<Rightarrow> int \<Rightarrow> byte list \<Rightarrow> int \<times> int \<times> app_state" where
  "write_vector env s h bytes =
     (case ae_writev env (s_events s) h bytes of
        (r, err) \<Rightarrow> (r, err, add_event (Wrote h (take (nat r) bytes)) s))"

definition dlt_user_log_out2 :: "app_env \<Rightarrow> app_state \<Rightarrow> int \<Rightarrow> byte list \<Rightarrow> byte list \<Rightarrow> int \<times> app_state" where
  "dlt_user_log_out2 env s h p1 p2 =
     (if h < 0 then (DLT_RETURN_ERROR, s)
      else case write_vector env s h (p1 @ p2) of
        (r, err, s1) \<Rightarrow>
          if u32 r \<noteq> length p1 + length p2 then (DLT_RETURN_ERROR, s1) else (DLT_RETURN_OK, s1))"

definition dlt_user_log_out3 ::
  "app_env \<Rightarrow> app_state \<Rightarrow> int \<Rightarrow> byte list \<Rightarrow> byte list \<Rightarrow> byte list \<Rightarrow> int \<times> app_state" where
  "dlt_user_log_out3 env s h p1 p2 p3 =
     (if h < 0 then (DLT_RETURN_ERROR, s)
      else case write_vector env s h (p1 @ p2 @ p3) of
        (r, err, s1) \<Rightarrow>
          if u32 r \<noteq> length p1 + length p2 + length p3 then
            (if err = ETIMEDOUT \<or> err = EBADF \<or> err = EPIPE then DLT_RETURN_PIPE_ERROR
             else if err = EAGAIN then DLT_RETURN_PIPE_FULL
             else DLT_RETURN_ERROR, s1)
          else (DLT_RETURN_OK, s1))"

text \<open>
  What cannot be written goes to the startup buffer. The check of the size is made before the
  push and its result is kept when the push succeeds.
\<close>

definition dlt_user_log_out_error_handling ::
  "app_env \<Rightarrow> app_state \<Rightarrow> byte list option \<Rightarrow> byte list option \<Rightarrow> byte list option \<Rightarrow> int \<times> app_state" where
  "dlt_user_log_out_error_handling env s x1 x2 x3 =
     (let n1 = length (arg_bytes x1); n2 = length (arg_bytes x2); n3 = length (arg_bytes x3);
          b = u_startup_buffer (s_user s);
          ret = dlt_buffer_check_size (Some b) (i32 (int (n1 + n2 + n3)));
          (rc, b') = dlt_buffer_push3 (ae_alloc env) (ae_pad env) (Some b) x1 n1 x2 n2 x3 n3
      in (if rc = DLT_RETURN_ERROR then DLT_RETURN_BUFFER_FULL else ret, set_buffer (the b') s))"

section \<open>Sending the startup buffer\<close>

text \<open>
  The identifier of the application is filled in when it was not known yet: in a registration of
  a context at its place, in a log message at a fixed place behind all optional parameters.
\<close>

definition fill_apid :: "byte list \<Rightarrow> nat \<Rightarrow> byte list \<Rightarrow> byte list" where
  "fill_apid appid off m =
     (if m ! off = 0 then memput m off (the (dlt_set_id (Some (memget m off 4)) (Some appid))) else m)"

abbreviation (input) DLT_USER_MESSAGE_LOG :: int where "DLT_USER_MESSAGE_LOG \<equiv> 1"
abbreviation (input) DLT_USER_MESSAGE_REGISTER_APPLICATION :: int where "DLT_USER_MESSAGE_REGISTER_APPLICATION \<equiv> 2"
abbreviation (input) DLT_USER_MESSAGE_UNREGISTER_APPLICATION :: int where "DLT_USER_MESSAGE_UNREGISTER_APPLICATION \<equiv> 3"
abbreviation (input) DLT_USER_MESSAGE_REGISTER_CONTEXT :: int where "DLT_USER_MESSAGE_REGISTER_CONTEXT \<equiv> 4"
abbreviation (input) DLT_USER_MESSAGE_UNREGISTER_CONTEXT :: int where "DLT_USER_MESSAGE_UNREGISTER_CONTEXT \<equiv> 5"
abbreviation (input) DLT_USER_MESSAGE_OVERFLOW :: int where "DLT_USER_MESSAGE_OVERFLOW \<equiv> 8"
abbreviation (input) DLT_USER_MESSAGE_APP_LL_TS :: int where "DLT_USER_MESSAGE_APP_LL_TS \<equiv> 9"
abbreviation (input) DLT_USER_MESSAGE_LOG_MODE :: int where "DLT_USER_MESSAGE_LOG_MODE \<equiv> 11"
abbreviation (input) DLT_USER_MESSAGE_MARKER :: int where "DLT_USER_MESSAGE_MARKER \<equiv> 13"

definition add_application_id :: "byte list \<Rightarrow> byte list \<Rightarrow> byte list" where
  "add_application_id appid m =
     (if dlt_user_check_userheader m then
        (let t = le_val (memget m 4 4)
         in if t = DLT_USER_MESSAGE_REGISTER_CONTEXT then fill_apid appid 8 m
            else if t = DLT_USER_MESSAGE_LOG then fill_apid appid (8 + 4 + 12 + 2) m
            else m)
      else m)"

text \<open>One turn of the loop: the result, None to go on, and the state.\<close>

definition resend_one :: "app_env \<Rightarrow> app_state \<Rightarrow> int option \<times> app_state" where
  "resend_one env s =
     (case dlt_buffer_copy (ae_alloc env) (Some (u_startup_buffer (s_user s))) (Some (s_resend s))
             (int (u_log_buf_len (s_user s))) of
        (sz, b, r) \<Rightarrow>
          let s1 = set_buffer (the b) (s\<lparr>s_resend := the r\<rparr>)
          in if sz > 0 then
               let s2 = s1\<lparr>s_resend := add_application_id (u_appID (s_user s)) (s_resend s1)\<rparr>
               in case dlt_user_log_out3 env s2 (u_log_handle (s_user s2)) (take (nat sz) (s_resend s2)) [] [] of
                    (ret, s3) \<Rightarrow>
                      if ret = DLT_RETURN_OK then
                        (None, set_buffer (the (snd (dlt_buffer_remove (ae_alloc env) (Some (u_startup_buffer (s_user s3)))))) s3)
                      else if ret = DLT_RETURN_PIPE_ERROR then
                        (Some ret, set_handle (- 1) (add_event (Closed (u_log_handle (s_user s3))) s3))
                      else (Some ret, s3)
             else (None, s1))"

fun resend_loop :: "nat \<Rightarrow> app_env \<Rightarrow> app_state \<Rightarrow> int \<times> app_state" where
  "resend_loop 0 env s = (DLT_RETURN_OK, s)"
| "resend_loop (Suc n) env s =
     (case resend_one env s of (Some ret, s') \<Rightarrow> (ret, s') | (None, s') \<Rightarrow> resend_loop n env s')"

definition dlt_user_log_resend_buffer :: "app_env \<Rightarrow> app_state \<Rightarrow> int \<times> app_state" where
  "dlt_user_log_resend_buffer env s =
     (if u_appID (s_user s) ! 0 = 0 then (DLT_RETURN_OK, s)
      else resend_loop (nat (dlt_buffer_get_message_count (Some (u_startup_buffer (s_user s))))) env s)"

section \<open>Registrations and notices\<close>

text \<open>\<open>out2\<close> or \<open>out3\<close>, and the startup buffer when that fails; nothing without a daemon.\<close>

definition description_bytes :: "byte list option \<Rightarrow> byte list" where
  "description_bytes d = (case d of None \<Rightarrow> [] | Some t \<Rightarrow> c_string t)"

definition set_id :: "byte list \<Rightarrow> byte list" where
  "set_id t = the (dlt_set_id (Some [0, 0, 0, 0]) (Some t))"

definition user_header :: "int \<Rightarrow> byte list" where
  "user_header mtype = the (dlt_user_set_userheader mtype)"

definition out2_or_store :: "app_env \<Rightarrow> app_state \<Rightarrow> byte list \<Rightarrow> byte list option \<Rightarrow> int \<times> app_state" where
  "out2_or_store env s h c =
     (if \<not> u_is_daemon (s_user s) then (DLT_RETURN_OK, s)
      else case dlt_user_log_out2 env s (u_log_handle (s_user s)) h (arg_bytes c) of
        (ret, s1) \<Rightarrow>
          if ret < DLT_RETURN_OK then dlt_user_log_out_error_handling env s1 (Some h) c None
          else (DLT_RETURN_OK, s1))"

definition dlt_user_log_send_register_application :: "app_env \<Rightarrow> app_state \<Rightarrow> int \<times> app_state" where
  "dlt_user_log_send_register_application env s =
     (let u = s_user s; d = description_bytes (u_description u);
          h = user_header DLT_USER_MESSAGE_REGISTER_APPLICATION;
          c = set_id (u_appID u) @ le_bytes 4 (ae_pid env) @ le_bytes 4 (int (length d))
      in if u_appID u ! 0 = 0 then (DLT_RETURN_ERROR, s)
         else if \<not> u_is_daemon u then (DLT_RETURN_OK, s)
         else case dlt_user_log_out3 env s (u_log_handle u) h c d of
           (ret, s1) \<Rightarrow>
             if ret < DLT_RETURN_OK
             then dlt_user_log_out_error_handling env s1 (Some h) (Some c) (map_option (\<lambda>_. d) (u_description u))
             else (DLT_RETURN_OK, s1))"

definition dlt_user_log_send_unregister_application :: "app_env \<Rightarrow> app_state \<Rightarrow> int \<times> app_state" where
  "dlt_user_log_send_unregister_application env s =
     (if u_appID (s_user s) ! 0 = 0 then (DLT_RETURN_ERROR, s)
      else out2_or_store env s (user_header DLT_USER_MESSAGE_UNREGISTER_APPLICATION)
             (Some (set_id (u_appID (s_user s)) @ le_bytes 4 (ae_pid env))))"

definition register_context_bytes :: "app_env \<Rightarrow> DltUser \<Rightarrow> DltContext \<Rightarrow> DltContextData \<Rightarrow> byte list" where
  "register_context_bytes env u h l =
     set_id (u_appID u) @ set_id (c_contextID h) @ le_bytes 4 (c_log_level_pos h) @
     le_bytes 1 (l_log_level l) @ le_bytes 1 (l_trace_status l) @ le_bytes 4 (ae_pid env) @
     le_bytes 4 (int (length (description_bytes (l_description l))))"

definition dlt_user_log_send_register_context ::
  "app_env \<Rightarrow> app_state \<Rightarrow> DltContextData option \<Rightarrow> int \<times> app_state" where
  "dlt_user_log_send_register_context env s log =
     (case log of None \<Rightarrow> (DLT_RETURN_WRONG_PARAMETER, s)
      | Some l \<Rightarrow>
        (case l_handle l of None \<Rightarrow> (DLT_RETURN_ERROR, s)
         | Some ctx \<Rightarrow>
           if c_contextID ctx ! 0 = 0 then (DLT_RETURN_ERROR, s)
           else if \<not> u_is_daemon (s_user s) then (DLT_RETURN_OK, s)
           else
             let u = s_user s; d = description_bytes (l_description l);
                 h = user_header DLT_USER_MESSAGE_REGISTER_CONTEXT;
                 c = register_context_bytes env u ctx l;
                 (ret, s1) = (if u_appID u ! 0 \<noteq> 0 then dlt_user_log_out3 env s (u_log_handle u) h c d
                              else (DLT_RETURN_ERROR, s))
             in if ret \<noteq> DLT_RETURN_OK \<or> u_appID u ! 0 = 0
                then dlt_user_log_out_error_handling env s1 (Some h) (Some c) (map_option (\<lambda>_. d) (l_description l))
                else (DLT_RETURN_OK, s1)))"

definition dlt_user_log_send_unregister_context ::
  "app_env \<Rightarrow> app_state \<Rightarrow> DltContextData option \<Rightarrow> int \<times> app_state" where
  "dlt_user_log_send_unregister_context env s log =
     (case log of None \<Rightarrow> (DLT_RETURN_WRONG_PARAMETER, s)
      | Some l \<Rightarrow>
        (case l_handle l of None \<Rightarrow> (DLT_RETURN_WRONG_PARAMETER, s)
         | Some ctx \<Rightarrow>
           if c_contextID ctx ! 0 = 0 then (DLT_RETURN_ERROR, s)
           else out2_or_store env s (user_header DLT_USER_MESSAGE_UNREGISTER_CONTEXT)
                  (Some (set_id (u_appID (s_user s)) @ set_id (c_contextID ctx) @ le_bytes 4 (ae_pid env)))))"

definition dlt_send_app_ll_ts_limit ::
  "app_env \<Rightarrow> app_state \<Rightarrow> byte list option \<Rightarrow> int \<Rightarrow> int \<Rightarrow> int \<times> app_state" where
  "dlt_send_app_ll_ts_limit env s apid loglevel tracestatus =
     (if loglevel < - 2 \<or> loglevel \<ge> DLT_LOG_MAX then (DLT_RETURN_ERROR, s)
      else if tracestatus < - 2 \<or> tracestatus \<ge> 2 then (DLT_RETURN_ERROR, s)
      else case apid of None \<Rightarrow> (DLT_RETURN_ERROR, s)
        | Some a \<Rightarrow>
          if a ! 0 = 0 then (DLT_RETURN_ERROR, s)
          else out2_or_store env s (user_header DLT_USER_MESSAGE_APP_LL_TS)
                 (Some (set_id a @ le_bytes 1 loglevel @ le_bytes 1 tracestatus)))"

definition dlt_user_log_send_log_mode :: "app_env \<Rightarrow> app_state \<Rightarrow> int \<Rightarrow> int \<times> app_state" where
  "dlt_user_log_send_log_mode env s mode =
     (if mode < - 1 \<or> mode \<ge> 4 then (DLT_RETURN_WRONG_PARAMETER, s)
      else out2_or_store env s (user_header DLT_USER_MESSAGE_LOG_MODE) (Some (le_bytes 1 mode)))"

definition dlt_user_log_send_marker :: "app_env \<Rightarrow> app_state \<Rightarrow> int \<times> app_state" where
  "dlt_user_log_send_marker env s = out2_or_store env s (user_header DLT_USER_MESSAGE_MARKER) None"

definition dlt_user_log_send_overflow :: "app_env \<Rightarrow> app_state \<Rightarrow> int \<times> app_state" where
  "dlt_user_log_send_overflow env s =
     (if \<not> u_is_daemon (s_user s) then (DLT_RETURN_OK, s)
      else dlt_user_log_out2 env s (u_log_handle (s_user s)) (user_header DLT_USER_MESSAGE_OVERFLOW)
             (le_bytes 4 (int (u_overflow_counter (s_user s))) @ set_id (u_appID (s_user s))))"

section \<open>Connecting again\<close>

text \<open>
  The loop over the stored contexts: whether the function returns inside it, whether a context
  was registered, and the state.
\<close>

fun reregister_loop ::
  "app_env \<Rightarrow> DltContext \<Rightarrow> DltContextData \<Rightarrow> nat \<Rightarrow> (byte list \<times> byte list option) list \<Rightarrow> bool \<Rightarrow> app_state \<Rightarrow>
   bool \<times> bool \<times> app_state" where
  "reregister_loop env h l num [] done s = (False, done, s)"
| "reregister_loop env h l num ((ctid, dsc) # rest) done s =
     (if u_appID (s_user s) ! 0 \<noteq> 0 \<and> ctid ! 0 \<noteq> 0 then
        let h1 = h\<lparr>c_contextID := the (dlt_set_id (Some (c_contextID h)) (Some ctid)), c_log_level_pos := int num\<rparr>;
            l1 = l\<lparr>l_handle := Some h1, l_description := dsc, l_log_level := - 2, l_trace_status := - 2\<rparr>
        in case dlt_user_log_send_register_context env s (Some l1) of
             (ret, s1) \<Rightarrow>
               if ret < DLT_RETURN_ERROR then (True, done, s1)
               else reregister_loop env h1 l1 (num + 1) rest True s1
      else reregister_loop env h l (num + 1) rest done s)"

definition dlt_user_log_reattach_to_daemon :: "app_env \<Rightarrow> app_state \<Rightarrow> app_state" where
  "dlt_user_log_reattach_to_daemon env s =
     (if u_log_handle (s_user s) < 0 then
        let f = ae_open env (s_events s); s1 = add_event (Opened f) (set_handle (- 1) s)
        in if f < 0 then s1
           else
             let s2 = set_handle f s1
             in case dlt_user_log_init (ae_init env) (s_user s2) (Some (ae_context env)) (Some (ae_log env)) of
                  (rc, u, log) \<Rightarrow>
                    let s3 = s2\<lparr>s_user := u\<rparr>
                    in if rc < DLT_RETURN_OK then s3
                       else case dlt_user_log_send_register_application env s3 of
                         (rc, s4) \<Rightarrow>
                           if rc < DLT_RETURN_ERROR then s4
                           else case reregister_loop env (ae_context env) (the log) 0
                                       (case u_contexts (s_user s4) of None \<Rightarrow> [] | Some cs \<Rightarrow> cs) False s4 of
                             (stopped, done, s5) \<Rightarrow>
                               if \<not> stopped \<and> done then snd (dlt_user_log_resend_buffer env s5) else s5
      else s)"

section \<open>Sending a log message\<close>

text \<open>\<open>start_header\<close>: storage header, standard header with its optional parameters.\<close>

definition log_htyp :: "DltUser \<Rightarrow> DltContextData \<Rightarrow> byte" where
  "log_htyp u l =
     0x20 OR (if u_with_ecu_id u then 0x04 else 0) OR (if u_with_timestamp u then 0x10 else 0) OR
     (if u_with_session_id u then 0x08 else 0) OR
     (if is_verbose_mode u (Some l) \<or> u_extended_non_verbose u then 0x01 else 0)"

definition start_header :: "app_env \<Rightarrow> app_state \<Rightarrow> DltContext \<Rightarrow> DltContextData \<Rightarrow> DltMessage" where
  "start_header env s h l =
     (let u = s_user s;
          m0 = the (snd (dlt_message_init (Some (ae_msg env))));
          sto = the (snd (dlt_set_storageheader (ae_time env (s_events s)) (Some zero_storage) (Some (u_ecuID u))));
          m1 = m0\<lparr>storageheader := Some 0, standardheader := Some 16,
                  headerbuffer := memput (memput (headerbuffer m0) 0 (storage_bytes sto)) 16 [log_htyp u l, c_mcnt h],
                  headerextra := \<lparr>ecu = the (dlt_set_id (Some (ecu (headerextra m0))) (Some (u_ecuID u))),
                    seid = (if u_with_session_id u then int (u32 (ae_pid env)) else seid (headerextra m0)),
                    tmsp = (if l_auto_timestamp l then ae_uptime env (s_events s) else l_user_timestamp l)\<rparr>\<rparr>
      in the (snd (dlt_message_set_extraparameters (Some m1))))"

abbreviation (input) DLT_TYPE_LOG :: int where "DLT_TYPE_LOG \<equiv> 0"
abbreviation (input) DLT_TYPE_NW_TRACE :: int where "DLT_TYPE_NW_TRACE \<equiv> 2"

definition log_msin :: "DltUser \<Rightarrow> DltContextData \<Rightarrow> int \<Rightarrow> byte" where
  "log_msin u l mtype =
     push_bit 1 (word_of_int mtype) OR
     (push_bit 4 (word_of_int (if mtype = DLT_TYPE_LOG then l_log_level l else l_trace_status l)) AND 0xF0) OR
     (if is_verbose_mode u (Some l) then 0x01 else 0)"

text \<open>The extended header, None for a type of message that the switch does not know, and the length.\<close>

definition extend_header :: "DltUser \<Rightarrow> DltContext \<Rightarrow> DltContextData \<Rightarrow> int \<Rightarrow> DltMessage \<Rightarrow> DltMessage option" where
  "extend_header u h l mtype m =
     (let htyp = msg_htyp m; o' = 20 + DLT_STANDARD_HEADER_EXTRA_SIZE htyp
      in if DLT_IS_HTYP_UEH htyp then
           if mtype \<noteq> DLT_TYPE_LOG \<and> mtype \<noteq> DLT_TYPE_NW_TRACE then None
           else Some (m\<lparr>extendedheader := Some o',
             headerbuffer := memput (headerbuffer m) o'
               ([log_msin u l mtype, word_of_int (l_args_num l)] @ set_id (u_appID u) @ set_id (c_contextID h)),
             headersize := int (o' + 10)\<rparr>)
         else Some (m\<lparr>headersize := int o'\<rparr>))"

definition header_bytes :: "DltMessage \<Rightarrow> byte list" where
  "header_bytes m = memget (headerbuffer m) 16 (nat (headersize m) - 16)"

text \<open>The daemon branch, with the header and the payload that are to be sent.\<close>

definition report_overflow :: "app_env \<Rightarrow> app_state \<Rightarrow> app_state" where
  "report_overflow env s =
     (if u_overflow_counter (s_user s) \<noteq> 0 then
        (case dlt_user_log_send_overflow env s of
           (rc, s1) \<Rightarrow> if rc = DLT_RETURN_OK then set_overflow 0 s1 else s1)
      else s)"

definition send_to_daemon :: "app_env \<Rightarrow> app_state \<Rightarrow> byte list \<Rightarrow> byte list \<Rightarrow> int \<times> app_state" where
  "send_to_daemon env s hdr payload =
     (let uh = user_header DLT_USER_MESSAGE_LOG;
          s1 = report_overflow env (dlt_user_log_reattach_to_daemon env s);
          known = (\<lambda>t. u_appID (s_user t) ! 0 \<noteq> 0);
          (r2, s2) = (if u_log_handle (s_user s1) \<noteq> - 1 \<and> known s1 then dlt_user_log_resend_buffer env s1
                      else (DLT_RETURN_OK, s1));
          (r3, s3) = (if r2 = DLT_RETURN_OK \<and> known s2
                      then dlt_user_log_out3 env s2 (u_log_handle (s_user s2)) uh hdr payload else (r2, s2));
          (r4, s4) = (if r3 \<noteq> DLT_RETURN_OK \<or> \<not> known s3
                      then dlt_user_log_out_error_handling env s3 (Some uh) (Some hdr) (Some payload)
                      else (DLT_RETURN_OK, s3))
      in if r4 = DLT_RETURN_OK then (DLT_RETURN_OK, s4)
         else if r4 = DLT_RETURN_BUFFER_FULL
         then (DLT_RETURN_BUFFER_FULL, set_overflow (u32 (int (u_overflow_counter (s_user s4)) + 1)) s4)
         else if r3 = DLT_RETURN_PIPE_FULL then (DLT_RETURN_PIPE_FULL, s4)
         else if r3 = DLT_RETURN_PIPE_ERROR
         then (DLT_RETURN_PIPE_ERROR, set_handle (- 1) (add_event (Closed (u_log_handle (s_user s4))) s4))
         else if r3 = DLT_RETURN_OK then (DLT_RETURN_OK, s4)
         else (DLT_RETURN_ERROR, s4))"

definition dlt_user_log_send_log ::
  "app_env \<Rightarrow> app_state \<Rightarrow> DltContextData option \<Rightarrow> int \<Rightarrow> int \<times> app_state \<times> DltContextData option" where
  "dlt_user_log_send_log env s log mtype =
     (if \<not> u_initialised (s_user s) then (DLT_RETURN_ERROR, s, log)
      else case log of None \<Rightarrow> (DLT_RETURN_WRONG_PARAMETER, s, log)
      | Some l \<Rightarrow>
        (case l_handle l of None \<Rightarrow> (DLT_RETURN_WRONG_PARAMETER, s, log)
         | Some h \<Rightarrow>
           if c_contextID h ! 0 = 0 \<or> mtype < 0 \<or> mtype > 3 then (DLT_RETURN_WRONG_PARAMETER, s, log)
           else
             let log1 = Some (l\<lparr>l_handle := Some (h\<lparr>c_mcnt := c_mcnt h + 1\<rparr>)\<rparr>)
             in (case extend_header (s_user s) h l mtype (start_header env s h l) of
                   None \<Rightarrow> (DLT_RETURN_ERROR, s, log1)
                 | Some m \<Rightarrow>
                   let len = i32 (headersize m - 16 + l_size l);
                       m1 = m\<lparr>headerbuffer := memput (headerbuffer m) 18 (be_bytes 2 len)\<rparr>;
                       payload = memget (the (l_buffer l)) 0 (nat (l_size l))
                   in if len > 65535 then (DLT_RETURN_ERROR, s, log1)
                      else if ae_print env m1 l = Some DLT_RETURN_ERROR then (DLT_RETURN_ERROR, s, log1)
                      else
                        let s1 = (if u_is_file (s_user s)
                                  then add_event (To_File (memget (headerbuffer m1) 0 (nat (headersize m1))) payload) s else s)
                        in if u_is_daemon (s_user s1)
                           then (case send_to_daemon env s1 (header_bytes m1) payload of (rc, s2) \<Rightarrow> (rc, s2, log1))
                           else (DLT_RETURN_OK, s1, log1))))"

definition dlt_user_log_write_finish ::
  "app_env \<Rightarrow> app_state \<Rightarrow> DltContextData option \<Rightarrow> int \<times> app_state \<times> DltContextData option" where
  "dlt_user_log_write_finish env s log =
     (case log of None \<Rightarrow> (DLT_RETURN_WRONG_PARAMETER, s, None)
      | Some l \<Rightarrow>
        (case dlt_user_log_send_log env s log DLT_TYPE_LOG of
           (rc, s1, log1) \<Rightarrow> (rc, s1, map_option (l_buffer_update (\<lambda>_. None)) log1)))"

definition dlt_user_log_write_finish_w_given_buffer ::
  "app_env \<Rightarrow> app_state \<Rightarrow> DltContextData option \<Rightarrow> int \<times> app_state \<times> DltContextData option" where
  "dlt_user_log_write_finish_w_given_buffer env s log =
     (case log of None \<Rightarrow> (DLT_RETURN_WRONG_PARAMETER, s, None)
      | Some l \<Rightarrow> dlt_user_log_send_log env s log DLT_TYPE_LOG)"

section \<open>The interface for applications\<close>

text \<open>\<open>if (!dlt_user_initialised) dlt_init ()\<close> in front of most functions.\<close>

definition assure_init :: "app_env \<Rightarrow> app_state \<Rightarrow> bool \<times> app_state" where
  "assure_init env s =
     (if u_initialised (s_user s) then (True, s)
      else case ae_init env (s_user s) of (rc, u) \<Rightarrow> (rc \<ge> 0, s\<lparr>s_user := u\<rparr>))"

text \<open>The comparison with the identifier that is registered already, on the given characters only.\<close>

definition same_application :: "byte list \<Rightarrow> byte list \<Rightarrow> bool" where
  "same_application apid app =
     (if apid ! 1 = 0 then apid ! 0 = app ! 0
      else if apid ! 2 = 0 then apid ! 0 = app ! 0 \<and> apid ! 1 = app ! 1
      else if apid ! 3 = 0 then apid ! 0 = app ! 0 \<and> apid ! 1 = app ! 1 \<and> apid ! 2 = app ! 2
      else apid ! 0 = app ! 0 \<and> apid ! 1 = app ! 1 \<and> apid ! 2 = app ! 2 \<and> apid ! 3 = app ! 3)"

definition dlt_register_app :: "app_env \<Rightarrow> app_state \<Rightarrow> byte list option \<Rightarrow> byte list option \<Rightarrow> int \<times> app_state" where
  "dlt_register_app env s apid description =
     (if u_is_child (s_user s) then (DLT_RETURN_ERROR, s)
      else case assure_init env s of
        (ok, s1) \<Rightarrow>
          if \<not> ok then (DLT_RETURN_ERROR, s1)
          else case apid of None \<Rightarrow> (DLT_RETURN_WRONG_PARAMETER, s1)
          | Some a \<Rightarrow>
            if a ! 0 = 0 then (DLT_RETURN_WRONG_PARAMETER, s1)
            else if same_application a (u_appID (s_user s1)) then (DLT_RETURN_OK, s1)
            else
              let u = (s_user s1)\<lparr>u_appID := the (dlt_set_id (Some (u_appID (s_user s1))) (Some a)),
                                   u_description := None\<rparr>
              in if description \<noteq> None \<and> \<not> ae_malloc env then (DLT_RETURN_ERROR, s1\<lparr>s_user := u\<rparr>)
                 else
                   let s2 = s1\<lparr>s_user := u\<lparr>u_description := map_option (\<lambda>d. c_string d @ [0]) description\<rparr>\<rparr>;
                       (ret, s3) = dlt_user_log_send_register_application env s2
                   in if ret = DLT_RETURN_OK \<and> u_log_handle (s_user s3) \<noteq> - 1
                      then dlt_user_log_resend_buffer env s3 else (ret, s3))"

definition dlt_unregister_app_util :: "app_env \<Rightarrow> app_state \<Rightarrow> bool \<Rightarrow> int \<times> app_state" where
  "dlt_unregister_app_util env s force_sending_messages =
     (if u_is_child (s_user s) then (DLT_RETURN_ERROR, s)
      else if \<not> u_initialised (s_user s) then (DLT_RETURN_ERROR, s)
      else case dlt_user_log_send_unregister_application env s of
        (ret, s1) \<Rightarrow>
          (ret, if \<not> force_sending_messages \<or> dlt_buffer_get_message_count (Some (u_startup_buffer (s_user s1))) = 0
                then s1\<lparr>s_user := (s_user s1)\<lparr>u_appID := the (dlt_set_id (Some (u_appID (s_user s1))) (Some [0])),
                                             u_description := None\<rparr>\<rparr>
                else s1))"

definition dlt_unregister_app :: "app_env \<Rightarrow> app_state \<Rightarrow> int \<times> app_state" where
  "dlt_unregister_app env s = dlt_unregister_app_util env s False"

text \<open>The loop may run for ever, so it has fuel; None says that it was not enough.\<close>

fun flush_loop :: "nat \<Rightarrow> app_env \<Rightarrow> app_state \<Rightarrow> app_state option" where
  "flush_loop 0 env s = None"
| "flush_loop (Suc n) env s =
     (case dlt_user_log_resend_buffer env s of
        (ret, s1) \<Rightarrow>
          if ret \<noteq> DLT_RETURN_OK \<and> u_log_handle (s_user s1) \<noteq> - 1 then flush_loop n env s1 else Some s1)"

definition dlt_unregister_app_flush_buffered_logs :: "nat \<Rightarrow> app_env \<Rightarrow> app_state \<Rightarrow> (int \<times> app_state) option" where
  "dlt_unregister_app_flush_buffered_logs fuel env s =
     (if u_is_child (s_user s) then Some (DLT_RETURN_ERROR, s)
      else if \<not> u_initialised (s_user s) then Some (DLT_RETURN_ERROR, s)
      else map_option (\<lambda>s1. dlt_unregister_app_util env s1 True)
             (if u_log_handle (s_user s) \<noteq> - 1 then flush_loop fuel env s else Some s))"

definition dlt_set_log_mode :: "app_env \<Rightarrow> app_state \<Rightarrow> int \<Rightarrow> int \<times> app_state" where
  "dlt_set_log_mode env s mode =
     (if u_is_child (s_user s) then (DLT_RETURN_ERROR, s)
      else if mode < - 1 \<or> mode \<ge> 4 then (DLT_RETURN_WRONG_PARAMETER, s)
      else case assure_init env s of
        (ok, s1) \<Rightarrow> if ok then dlt_user_log_send_log_mode env s1 mode else (DLT_RETURN_ERROR, s1))"

definition dlt_log_marker :: "app_env \<Rightarrow> app_state \<Rightarrow> int \<times> app_state" where
  "dlt_log_marker env s =
     (case assure_init env s of (ok, s1) \<Rightarrow> if ok then dlt_user_log_send_marker env s1 else (DLT_RETURN_ERROR, s1))"

text \<open>The functions that set a switch of the library.\<close>

definition set_switch :: "app_env \<Rightarrow> app_state \<Rightarrow> (DltUser \<Rightarrow> DltUser) \<Rightarrow> int \<times> app_state" where
  "set_switch env s f =
     (case assure_init env s of
        (ok, s1) \<Rightarrow> if ok then (DLT_RETURN_OK, s1\<lparr>s_user := f (s_user s1)\<rparr>) else (DLT_RETURN_ERROR, s1))"

definition dlt_verbose_mode :: "app_env \<Rightarrow> app_state \<Rightarrow> int \<times> app_state" where
  "dlt_verbose_mode env s = set_switch env s (\<lambda>u. u\<lparr>u_verbose_mode := 1\<rparr>)"

definition dlt_nonverbose_mode :: "app_env \<Rightarrow> app_state \<Rightarrow> int \<times> app_state" where
  "dlt_nonverbose_mode env s = set_switch env s (\<lambda>u. u\<lparr>u_verbose_mode := 0\<rparr>)"

definition dlt_use_extended_header_for_non_verbose :: "app_env \<Rightarrow> app_state \<Rightarrow> int \<Rightarrow> int \<times> app_state" where
  "dlt_use_extended_header_for_non_verbose env s v = set_switch env s (\<lambda>u. u\<lparr>u_extended_non_verbose := v \<noteq> 0\<rparr>)"

definition dlt_with_session_id :: "app_env \<Rightarrow> app_state \<Rightarrow> int \<Rightarrow> int \<times> app_state" where
  "dlt_with_session_id env s v = set_switch env s (\<lambda>u. u\<lparr>u_with_session_id := v \<noteq> 0\<rparr>)"

definition dlt_with_timestamp :: "app_env \<Rightarrow> app_state \<Rightarrow> int \<Rightarrow> int \<times> app_state" where
  "dlt_with_timestamp env s v = set_switch env s (\<lambda>u. u\<lparr>u_with_timestamp := v \<noteq> 0\<rparr>)"

definition dlt_with_ecu_id :: "app_env \<Rightarrow> app_state \<Rightarrow> int \<Rightarrow> int \<times> app_state" where
  "dlt_with_ecu_id env s v = set_switch env s (\<lambda>u. u\<lparr>u_with_ecu_id := v \<noteq> 0\<rparr>)"

definition dlt_user_check_buffer :: "app_state \<Rightarrow> int option \<Rightarrow> int option \<Rightarrow> int \<times> int option \<times> int option" where
  "dlt_user_check_buffer s total_size used_size =
     (if total_size = None \<or> used_size = None then (DLT_RETURN_WRONG_PARAMETER, total_size, used_size)
      else (DLT_RETURN_OK, Some (i32 (int (dlt_buffer_get_total_size (Some (u_startup_buffer (s_user s)))))),
            Some (dlt_buffer_get_used_size (Some (u_startup_buffer (s_user s))))))"

text \<open>The parameters are the contents of the local variables before the call.\<close>

definition check_buffer :: "app_state \<Rightarrow> int \<Rightarrow> int \<Rightarrow> int" where
  "check_buffer s total0 used0 =
     (case dlt_user_check_buffer s (Some total0) (Some used0) of
        (_, t, n) \<Rightarrow>
          let half = (if the t < 0 then - ((- the t) div 2) else the t div 2)
          in if the t - the n < half then - 1 else 1)"

text \<open>
  Messages with one or two arguments in one call: start, arguments, finish. \<open>finish_log\<close> is the
  common end, which turns every error into \<open>DLT_RETURN_ERROR\<close>.
\<close>

definition start_log ::
  "app_env \<Rightarrow> app_state \<Rightarrow> DltContext option \<Rightarrow> int \<Rightarrow> int \<times> app_state \<times> DltContextData option" where
  "start_log env s h level =
     (case dlt_user_log_write_start (ae_init env) (ae_alloc env) (s_user s) h (Some (ae_log env)) level of
        (rc, u, log) \<Rightarrow> (rc, s\<lparr>s_user := u\<rparr>, log))"

definition finish_log ::
  "app_env \<Rightarrow> app_state \<Rightarrow> int \<Rightarrow> DltContextData option \<Rightarrow> int \<times> app_state \<times> DltContext option" where
  "finish_log env s ret log =
     (case dlt_user_log_write_finish env s log of
        (rc, s1, log1) \<Rightarrow> (if rc < DLT_RETURN_OK then DLT_RETURN_ERROR else ret, s1, Option.bind log1 l_handle))"

text \<open>The result has the context, whose message counter is incremented when a message is sent.\<close>

definition log_simple ::
  "app_env \<Rightarrow> app_state \<Rightarrow> DltContext option \<Rightarrow> int \<Rightarrow>
   (DltUser \<Rightarrow> DltContextData option \<Rightarrow> int \<times> DltContextData option) \<Rightarrow> int \<times> app_state \<times> DltContext option" where
  "log_simple env s h level write =
     (case start_log env s h level of
        (rc, s1, log) \<Rightarrow>
          if rc = DLT_RETURN_TRUE then (case write (s_user s1) log of (ret, log1) \<Rightarrow> finish_log env s1 ret log1)
          else (DLT_RETURN_OK, s1, h))"

definition dlt_log_string ::
  "app_env \<Rightarrow> app_state \<Rightarrow> DltContext option \<Rightarrow> int \<Rightarrow> text_ptr option \<Rightarrow> int \<times> app_state \<times> DltContext option" where
  "dlt_log_string env s h level txt =
     (if \<not> is_verbose_mode (s_user s) None then (DLT_RETURN_ERROR, s, h)
      else if h = None \<or> txt = None then (DLT_RETURN_WRONG_PARAMETER, s, h)
      else log_simple env s h level (\<lambda>u log. dlt_user_log_write_string u log txt))"

definition dlt_log_string_int ::
  "app_env \<Rightarrow> app_state \<Rightarrow> DltContext option \<Rightarrow> int \<Rightarrow> text_ptr option \<Rightarrow> int \<Rightarrow> int \<times> app_state \<times> DltContext option" where
  "dlt_log_string_int env s h level txt v =
     (if \<not> is_verbose_mode (s_user s) None then (DLT_RETURN_ERROR, s, h)
      else if h = None \<or> txt = None then (DLT_RETURN_WRONG_PARAMETER, s, h)
      else log_simple env s h level (\<lambda>u log.
             (case dlt_user_log_write_string u log txt of (ret, log1) \<Rightarrow> (ret, snd (dlt_user_log_write_int u log1 v)))))"

definition dlt_log_string_uint ::
  "app_env \<Rightarrow> app_state \<Rightarrow> DltContext option \<Rightarrow> int \<Rightarrow> text_ptr option \<Rightarrow> int \<Rightarrow> int \<times> app_state \<times> DltContext option" where
  "dlt_log_string_uint env s h level txt v =
     (if \<not> is_verbose_mode (s_user s) None then (DLT_RETURN_ERROR, s, h)
      else if h = None \<or> txt = None then (DLT_RETURN_WRONG_PARAMETER, s, h)
      else log_simple env s h level (\<lambda>u log.
             (case dlt_user_log_write_string u log txt of (ret, log1) \<Rightarrow> (ret, snd (dlt_user_log_write_uint u log1 v)))))"

definition dlt_log_int ::
  "app_env \<Rightarrow> app_state \<Rightarrow> DltContext option \<Rightarrow> int \<Rightarrow> int \<Rightarrow> int \<times> app_state \<times> DltContext option" where
  "dlt_log_int env s h level v =
     (if \<not> is_verbose_mode (s_user s) None then (DLT_RETURN_ERROR, s, h)
      else if h = None then (DLT_RETURN_ERROR, s, h)
      else log_simple env s h level (\<lambda>u log. (DLT_RETURN_OK, snd (dlt_user_log_write_int u log v))))"

definition dlt_log_uint ::
  "app_env \<Rightarrow> app_state \<Rightarrow> DltContext option \<Rightarrow> int \<Rightarrow> int \<Rightarrow> int \<times> app_state \<times> DltContext option" where
  "dlt_log_uint env s h level v =
     (if \<not> is_verbose_mode (s_user s) None then (DLT_RETURN_ERROR, s, h)
      else if h = None then (DLT_RETURN_WRONG_PARAMETER, s, h)
      else log_simple env s h level (\<lambda>u log. (DLT_RETURN_OK, snd (dlt_user_log_write_uint u log v))))"

definition dlt_log_raw ::
  "app_env \<Rightarrow> app_state \<Rightarrow> DltContext option \<Rightarrow> int \<Rightarrow> byte list option \<Rightarrow> nat \<Rightarrow> int \<times> app_state \<times> DltContext option" where
  "dlt_log_raw env s h level dat len =
     (if \<not> is_verbose_mode (s_user s) None then (DLT_RETURN_ERROR, s, h)
      else if h = None then (DLT_RETURN_WRONG_PARAMETER, s, h)
      else case start_log env s h level of
        (rc, s1, log) \<Rightarrow>
          if rc > 0 then
            (case dlt_user_log_write_raw (s_user s1) log dat len of
               (ret, log1) \<Rightarrow> if ret < DLT_RETURN_OK then (ret, s1, h) else finish_log env s1 DLT_RETURN_OK log1)
          else (DLT_RETURN_OK, s1, h))"

section \<open>The startup buffer as a queue\<close>

definition app_ok :: "app_env \<Rightarrow> app_state \<Rightarrow> byte list list \<Rightarrow> bool" where
  "app_ok env s ms \<longleftrightarrow> buffer_rep (u_startup_buffer (s_user s)) ms \<and> alloc_ok (ae_alloc env) \<and> length (ae_pad env) = 3"

text \<open>\<open>writev\<close> writes at most what it is given, or returns -1.\<close>

definition writev_ok :: "app_env \<Rightarrow> bool" where
  "writev_ok env \<longleftrightarrow> (\<forall>ev h bs. - 1 \<le> fst (ae_writev env ev h bs) \<and> fst (ae_writev env ev h bs) \<le> int (length bs))"

definition accepts :: "app_env \<Rightarrow> bool" where
  "accepts env \<longleftrightarrow> (\<forall>ev h bs. fst (ae_writev env ev h bs) = int (length bs))"

text \<open>A message that is long enough for the places that \<open>add_application_id\<close> looks at.\<close>

definition sendable :: "byte list \<Rightarrow> bool" where
  "sendable m \<longleftrightarrow> 8 \<le> length m \<and> (le_val (memget m 4 4) = DLT_USER_MESSAGE_REGISTER_CONTEXT \<longrightarrow> 12 \<le> length m) \<and>
     (le_val (memget m 4 4) = DLT_USER_MESSAGE_LOG \<longrightarrow> 30 \<le> length m)"

text \<open>What a write leaves behind when it fails: nothing or a part of the message, and closed handles.\<close>

definition failed_write :: "int \<Rightarrow> byte list \<Rightarrow> app_event list \<Rightarrow> bool" where
  "failed_write h p ev \<longleftrightarrow>
     (\<exists>ws cs. ev = ws @ map Closed cs \<and> (h < 0 \<and> ws = [] \<or> (\<exists>r < length p. ws = [Wrote h (take r p)])))"

lemma failed_writeI:
  "h < 0 \<Longrightarrow> failed_write h p []" "r < length p \<Longrightarrow> failed_write h p [Wrote h (take r p)]"
  "failed_write h p ev \<Longrightarrow> failed_write h p (ev @ [Closed c])"
proof -
  assume "failed_write h p ev"
  then obtain ws cs where "ev = ws @ map Closed cs" "h < 0 \<and> ws = [] \<or> (\<exists>r < length p. ws = [Wrote h (take r p)])"
    by (auto simp: failed_write_def)
  then show "failed_write h p (ev @ [Closed c])"
    unfolding failed_write_def by (intro exI [of _ ws] exI [of _ "cs @ [c]"]) simp
qed (auto simp: failed_write_def)

definition same_user :: "app_state \<Rightarrow> app_state \<Rightarrow> bool" where
  "same_user s s' \<longleftrightarrow> (\<exists>b h. s_user s' = (s_user s)\<lparr>u_startup_buffer := b, u_log_handle := h\<rparr> \<and>
     min_size b = min_size (u_startup_buffer (s_user s)))"

lemma same_user_refl [simp, intro]: "same_user s s"
  unfolding same_user_def by (intro exI [of _ "u_startup_buffer (s_user s)"] exI [of _ "u_log_handle (s_user s)"]) simp

lemma same_user_trans: "same_user s s1 \<Longrightarrow> same_user s1 s2 \<Longrightarrow> same_user s s2"
  unfolding same_user_def by (elim exE conjE, simp, metis)

lemma same_userI:
  "s_user s' = (s_user s)\<lparr>u_startup_buffer := b\<rparr> \<Longrightarrow> min_size b = min_size (u_startup_buffer (s_user s)) \<Longrightarrow> same_user s s'"
  "s_user s' = (s_user s)\<lparr>u_startup_buffer := b, u_log_handle := h\<rparr> \<Longrightarrow>
   min_size b = min_size (u_startup_buffer (s_user s)) \<Longrightarrow> same_user s s'"
proof -
  assume "s_user s' = (s_user s)\<lparr>u_startup_buffer := b\<rparr>" "min_size b = min_size (u_startup_buffer (s_user s))"
  then show "same_user s s'" unfolding same_user_def
    by (intro exI [of _ b] exI [of _ "u_log_handle (s_user s)"]) simp
qed (auto simp: same_user_def)

lemma dlt_set_id_length: "length d = 4 \<Longrightarrow> length (the (dlt_set_id (Some d) (Some t))) = 4"
  by (simp add: dlt_set_id_def Let_def)

lemma memget_append: "off + n \<le> length m \<Longrightarrow> memget (m @ g) off n = memget m off n"
  by (simp add: memget_def)

lemma fill_apid_append:
  assumes "off + 4 \<le> length m"
  shows "fill_apid appid off (m @ g) = fill_apid appid off m @ g" "length (fill_apid appid off m) = length m"
  using assms dlt_set_id_length [of "memget m off 4" appid]
  by (simp_all add: fill_apid_def nth_append memput_def memget_append)

lemma add_application_id_append:
  assumes "sendable m"
  shows "add_application_id appid (m @ g) = add_application_id appid m @ g"
    "length (add_application_id appid m) = length m"
  using assms by (auto simp: sendable_def add_application_id_def dlt_user_check_userheader_def nth_append Let_def
      fill_apid_append memget_append)

lemma state_updates [simp]:
  "s_user (add_event e s) = s_user s" "s_resend (add_event e s) = s_resend s" "s_events (add_event e s) = s_events s @ [e]"
  "s_user (set_buffer b s) = (s_user s)\<lparr>u_startup_buffer := b\<rparr>" "s_resend (set_buffer b s) = s_resend s"
  "s_events (set_buffer b s) = s_events s"
  "s_user (set_handle h s) = (s_user s)\<lparr>u_log_handle := h\<rparr>" "s_resend (set_handle h s) = s_resend s"
  "s_events (set_handle h s) = s_events s"
  "s_user (set_overflow n s) = (s_user s)\<lparr>u_overflow_counter := n\<rparr>" "s_resend (set_overflow n s) = s_resend s"
  "s_events (set_overflow n s) = s_events s"
  by (simp_all add: add_event_def set_buffer_def set_handle_def set_overflow_def)

lemma out3_cases:
  assumes "writev_ok env" "length (p1 @ p2 @ p3) < 2 ^ 32 - 1" "p1 \<noteq> []" "dlt_user_log_out3 env s h p1 p2 p3 = (rc, s')"
  obtains (ok) "rc = 0" "s' = add_event (Wrote h (p1 @ p2 @ p3)) s" "0 \<le> h"
  | (closed) "rc = - 1" "s' = s" "h < 0"
  | (failed) r where "rc < 0" "r < length (p1 @ p2 @ p3)" "s' = add_event (Wrote h (take r (p1 @ p2 @ p3))) s"
proof -
  obtain r err where w: "ae_writev env (s_events s) h (p1 @ p2 @ p3) = (r, err)" by fastforce
  have r: "- 1 \<le> r" "r \<le> int (length (p1 @ p2 @ p3))"
    using assms(1) w unfolding writev_ok_def by (metis fst_conv)+
  show thesis
  proof (cases "h < 0")
    case True
    then show thesis using assms(4) closed by (simp add: dlt_user_log_out3_def)
  next
    case False
    show thesis
    proof (cases "r = int (length (p1 @ p2 @ p3))")
      case True
      then have "u32 r = length (p1 @ p2 @ p3)" using assms(2) by (simp add: u32_def nat_add_distrib)
      then show thesis using assms(4) False w True
        by (intro ok) (auto simp: dlt_user_log_out3_def write_vector_def)
    next
      case ne: False
      have "u32 r \<noteq> length (p1 @ p2 @ p3)"
      proof (cases "r = - 1")
        case True
        then show ?thesis using assms(2) by (simp add: u32_def)
      next
        case False
        with r have "0 \<le> r" "r < 2 ^ 32" using assms(2) by auto
        then have "u32 r = nat r" by (simp add: u32_def)
        with ne \<open>0 \<le> r\<close> show ?thesis by auto
      qed
      moreover have "nat r < length (p1 @ p2 @ p3)" using ne r assms(3) by (cases p1) auto
      ultimately show thesis using assms(4) False w
        by (intro failed [of "nat r"]) (auto simp: dlt_user_log_out3_def write_vector_def split: if_splits)
    qed
  qed
qed

lemma stored_length:
  assumes "buffer_rep b ms" "m \<in> set ms"
  shows "length m + 12 \<le> bsize b \<and> bsize b < 2147483648"
proof -
  from assms(1) obtain a fs where a: "area_ok (bsize b) a" "list_all2 is_frame fs ms" "contents (bsize b) a = concat fs"
    "bsize b < 2147483648" by (elim buffer_repE)
  obtain f where f: "f \<in> set fs" "is_frame f m" using a(2) assms(2) by (metis list_all2_conv_all_nth in_set_conv_nth)
  have "length f = length m + 12" using f(2) by (auto simp: is_frame_def block_head_def DLT_BUFFER_HEAD_def)
  moreover have "length f \<le> length (concat fs)" using f(1) by (simp add: length_concat member_le_sum_list)
  moreover have "length (contents (bsize b) a) \<le> bsize b" using length_contents [OF a(1)] ring_used_le [OF a(1)] by simp
  ultimately show ?thesis using a(3,4) by simp
qed

lemma resend_one_cases:
  assumes ok: "app_ok env s (m # ms)" and m: "sendable m" and w: "writev_ok env" and buf: "u_log_buf_len (s_user s) \<noteq> 0"
    and r: "resend_one env s = (res, s')"
  defines "p \<equiv> add_application_id (u_appID (s_user s)) m" and "h \<equiv> u_log_handle (s_user s)"
  shows "same_user s s' \<and> length (s_resend s') = max (length (s_resend s)) (length m) \<and>
    (res = None \<and> app_ok env s' ms \<and> s_events s' = s_events s @ [Wrote h p] \<and> u_log_handle (s_user s') = h \<and> 0 \<le> h \<or>
     (\<exists>rc ev. res = Some rc \<and> rc < 0 \<and> app_ok env s' (m # ms) \<and> failed_write h p ev \<and> s_events s' = s_events s @ ev))"
proof -
  have rep: "buffer_rep (u_startup_buffer (s_user s)) (m # ms)" and alloc: "alloc_ok (ae_alloc env)" "length (ae_pad env) = 3"
    using ok by (auto simp: app_ok_def)
  obtain b where b: "dlt_buffer_copy (ae_alloc env) (Some (u_startup_buffer (s_user s))) (Some (s_resend s))
      (int (u_log_buf_len (s_user s))) = (int (length m), Some b, Some (memput (s_resend s) 0 m))" "buffer_rep b (m # ms)"
      and mb: "min_size b = min_size (u_startup_buffer (s_user s))"
    using get_rep [OF rep alloc(1), of "Some (s_resend s)" "int (u_log_buf_len (s_user s))" False] buf
    unfolding dlt_buffer_copy_def by auto
  obtain b' where b': "dlt_buffer_remove (ae_alloc env) (Some b) = (int (length m), Some b')" "buffer_rep b' ms"
      and mb': "min_size b' = min_size (u_startup_buffer (s_user s))"
    using get_rep [OF b(2) alloc(1), of None 0 True] mb unfolding dlt_buffer_remove_def by auto
  have len: "0 < length m" using m by (auto simp: sendable_def)
  have mp: "memput (s_resend s) 0 m = m @ drop (length m) (s_resend s)" by (simp add: memput_def)
  define s2 where "s2 = (set_buffer b s)\<lparr>s_resend := p @ drop (length m) (s_resend s)\<rparr>"
  have s2: "(set_buffer b (s\<lparr>s_resend := memput (s_resend s) 0 m\<rparr>))
    \<lparr>s_resend := add_application_id (u_appID (s_user s)) (memput (s_resend s) 0 m)\<rparr> = s2"
    unfolding mp add_application_id_append [OF m] p_def [symmetric] s2_def by (simp add: set_buffer_def)
  have tk: "take (length m) (add_application_id (u_appID (s_user s)) (memput (s_resend s) 0 m)) = p"
    unfolding mp add_application_id_append [OF m] using add_application_id_append(2) [OF m, of "u_appID (s_user s)"]
    by (simp add: p_def)
  have u2: "s_user s2 = (s_user s)\<lparr>u_startup_buffer := b\<rparr>" "s_events s2 = s_events s" by (simp_all add: s2_def)
  have L: "length (s_resend s2) = max (length (s_resend s)) (length m)"
    using add_application_id_append(2) [OF m, of "u_appID (s_user s)"] by (simp add: s2_def p_def max_def)
  obtain rc s3 where o: "dlt_user_log_out3 env s2 h p [] [] = (rc, s3)" by fastforce
  have small: "length (p @ [] @ []) < 2 ^ 32 - 1"
    using stored_length [OF rep, of m] add_application_id_append(2) [OF m] by (simp add: p_def)
  have res: "resend_one env s = (if rc = DLT_RETURN_OK then
        (None, set_buffer (the (snd (dlt_buffer_remove (ae_alloc env) (Some (u_startup_buffer (s_user s3)))))) s3)
      else if rc = DLT_RETURN_PIPE_ERROR then (Some rc, set_handle (- 1) (add_event (Closed (u_log_handle (s_user s3))) s3))
      else (Some rc, s3))"
    using len o unfolding resend_one_def b(1) by (simp add: Let_def s2 tk u2 h_def)
  note same = same_userI [where s = s]
  have "p \<noteq> []" using len add_application_id_append(2) [OF m, of "u_appID (s_user s)"] by (auto simp: p_def)
  from w small this o show ?thesis
  proof (cases rule: out3_cases)
    case ok
    with r res u2 b' have "res = None" "s' = set_buffer b' (add_event (Wrote h p) s2)" by auto
    then show ?thesis using b' mb' alloc L u2 ok(3)
      by (auto simp: app_ok_def h_def intro!: same(1))
  next
    case closed
    with r res have "res = Some (- 1)" "s' = s2" by auto
    then show ?thesis using b mb alloc L u2 closed(3)
      by (auto simp: app_ok_def intro!: same(1) failed_writeI)
  next
    case (failed k)
    then have s3: "s_user s3 = s_user s2" "s_events s3 = s_events s @ [Wrote h (take k p)]" "s_resend s3 = s_resend s2"
      by (auto simp: u2)
    have "res = Some rc" "s' = s3 \<or> s' = set_handle (- 1) (add_event (Closed h) s3)"
      using failed r res s3 u2 by (auto simp: h_def split: if_splits)
    then show ?thesis using b mb alloc L s3 u2 failed
        failed_writeI(2) [of k p h] failed_writeI(3) [OF failed_writeI(2) [of k p h], of h]
      by (auto simp: app_ok_def intro: same)
  qed
qed

text \<open>
  \<open>sent s h ps ev s'\<close>: from \<open>s\<close> to \<open>s'\<close> the messages \<open>ps\<close> were written completely and in this
  order, and then the events \<open>ev\<close> followed.
\<close>

definition sent :: "app_state \<Rightarrow> int \<Rightarrow> byte list list \<Rightarrow> app_event list \<Rightarrow> app_state \<Rightarrow> bool" where
  "sent s h ps ev s' \<longleftrightarrow> s_events s' = s_events s @ map (Wrote h) ps @ ev"

lemma resend_loop_sends:
  assumes "app_ok env s ms" "\<forall>m \<in> set ms. sendable m" "writev_ok env" "u_log_buf_len (s_user s) \<noteq> 0"
    and "resend_loop (length ms) env s = (rc, s')"
  defines "p \<equiv> add_application_id (u_appID (s_user s))" and "h \<equiv> u_log_handle (s_user s)"
  shows "\<exists>k ev. k \<le> length ms \<and> same_user s s' \<and> app_ok env s' (drop k ms) \<and> sent s h (map p (take k ms)) ev s' \<and>
    (\<forall>B. length (s_resend s) = B \<and> (\<forall>m \<in> set ms. length m \<le> B) \<longrightarrow> length (s_resend s') = B) \<and>
    (rc = 0 \<and> k = length ms \<and> ev = [] \<and> u_log_handle (s_user s') = h \<or> rc < 0 \<and> k < length ms \<and> failed_write h (p (ms ! k)) ev)"
  using assms(1-5) unfolding p_def h_def
proof (induction ms arbitrary: s)
  case Nil
  then show ?case by (auto simp: sent_def)
next
  case (Cons m ms)
  obtain res s1 where r: "resend_one env s = (res, s1)" by fastforce
  note one = resend_one_cases [OF Cons.prems(1) _ Cons.prems(3,4) r]
  have m: "sendable m" using Cons.prems(2) by simp
  show ?case
  proof (cases res)
    case None
    with one [OF m] have o: "same_user s s1" "app_ok env s1 ms" "u_log_handle (s_user s1) = u_log_handle (s_user s)"
      "s_events s1 = s_events s @ [Wrote (u_log_handle (s_user s)) (add_application_id (u_appID (s_user s)) m)]"
      "length (s_resend s1) = max (length (s_resend s)) (length m)" by auto
    have u: "u_appID (s_user s1) = u_appID (s_user s)" "u_log_buf_len (s_user s1) = u_log_buf_len (s_user s)"
      using o(1) by (auto simp: same_user_def)
    have "resend_loop (length ms) env s1 = (rc, s')" using Cons.prems(5) r None by simp
    with Cons.IH [OF o(2) _ Cons.prems(3)] Cons.prems(2,4) u obtain k ev where
      I: "k \<le> length ms" "same_user s1 s'" "app_ok env s' (drop k ms)"
        "sent s1 (u_log_handle (s_user s1)) (map (add_application_id (u_appID (s_user s1))) (take k ms)) ev s'"
        "\<forall>B. length (s_resend s1) = B \<and> (\<forall>m \<in> set ms. length m \<le> B) \<longrightarrow> length (s_resend s') = B"
        "rc = 0 \<and> k = length ms \<and> ev = [] \<and> u_log_handle (s_user s') = u_log_handle (s_user s1) \<or>
         rc < 0 \<and> k < length ms \<and> failed_write (u_log_handle (s_user s1)) (add_application_id (u_appID (s_user s1)) (ms ! k)) ev"
      by auto
    show ?thesis
    proof (intro exI [of _ "Suc k"] exI [of _ ev] conjI)
      show "same_user s s'" using same_user_trans [OF o(1) I(2)] .
      show "\<forall>B. length (s_resend s) = B \<and> (\<forall>x \<in> set (m # ms). length x \<le> B) \<longrightarrow> length (s_resend s') = B"
        using I(5) o(5) by (auto simp: max_def)
    qed (use I o(3,4) u in \<open>auto simp: sent_def\<close>)
  next
    case (Some x)
    with one [OF m] Cons.prems(5) r show ?thesis
      by (intro exI [of _ 0]) (auto simp: sent_def)
  qed
qed

lemma resend_buffer_sends:
  assumes "app_ok env s ms" "\<forall>m \<in> set ms. sendable m" "writev_ok env" "u_log_buf_len (s_user s) \<noteq> 0" "u_appID (s_user s) ! 0 \<noteq> 0"
    and "dlt_user_log_resend_buffer env s = (rc, s')"
  defines "p \<equiv> add_application_id (u_appID (s_user s))" and "h \<equiv> u_log_handle (s_user s)"
  shows "\<exists>k ev. k \<le> length ms \<and> same_user s s' \<and> app_ok env s' (drop k ms) \<and> sent s h (map p (take k ms)) ev s' \<and>
    (\<forall>B. length (s_resend s) = B \<and> (\<forall>m \<in> set ms. length m \<le> B) \<longrightarrow> length (s_resend s') = B) \<and>
    (rc = 0 \<and> k = length ms \<and> ev = [] \<and> u_log_handle (s_user s') = h \<or> rc < 0 \<and> k < length ms \<and> failed_write h (p (ms ! k)) ev)"
proof -
  have "nat (dlt_buffer_get_message_count (Some (u_startup_buffer (s_user s)))) = length ms"
    using assms(1) message_count_rep by (auto simp: app_ok_def)
  then show ?thesis using resend_loop_sends [OF assms(1-4)] assms(5,6) unfolding p_def h_def
    by (simp add: dlt_user_log_resend_buffer_def)
qed

lemma accepted_write:
  assumes "accepts env" "0 \<le> h" "length (p1 @ p2 @ p3) < 2 ^ 32"
  shows "dlt_user_log_out3 env s h p1 p2 p3 = (0, add_event (Wrote h (p1 @ p2 @ p3)) s)"
proof -
  obtain err where w: "ae_writev env (s_events s) h (p1 @ p2 @ p3) = (int (length (p1 @ p2 @ p3)), err)"
    using assms(1) unfolding accepts_def by (metis prod.collapse)
  have "u32 (int (length (p1 @ p2 @ p3))) = length (p1 @ p2 @ p3)" using assms(3) by (simp add: u32_def nat_add_distrib)
  with w assms(2) show ?thesis by (simp add: dlt_user_log_out3_def write_vector_def)
qed

section \<open>The header of a log message\<close>

lemma log_htyp_flags:
  "DLT_IS_HTYP_WEID (log_htyp u l) = u_with_ecu_id u" "DLT_IS_HTYP_WSID (log_htyp u l) = u_with_session_id u"
  "DLT_IS_HTYP_WTMS (log_htyp u l) = u_with_timestamp u"
  "DLT_IS_HTYP_UEH (log_htyp u l) = (is_verbose_mode u (Some l) \<or> u_extended_non_verbose u)"
  by (simp_all add: log_htyp_def DLT_IS_HTYP_WEID_def DLT_IS_HTYP_WSID_def DLT_IS_HTYP_WTMS_def DLT_IS_HTYP_UEH_def)

text \<open>What follows the first four bytes of the header.\<close>

definition log_time :: "app_env \<Rightarrow> app_state \<Rightarrow> DltContextData \<Rightarrow> int" where
  "log_time env s l = (if l_auto_timestamp l then ae_uptime env (s_events s) else l_user_timestamp l)"

definition log_extra :: "app_env \<Rightarrow> app_state \<Rightarrow> DltContext \<Rightarrow> DltContextData \<Rightarrow> int \<Rightarrow> byte list" where
  "log_extra env s h l mtype =
     (let u = s_user s
      in (if u_with_ecu_id u then set_id (u_ecuID u) else []) @
         (if u_with_session_id u then be_bytes 4 (int (u32 (ae_pid env))) else []) @
         (if u_with_timestamp u then be_bytes 4 (log_time env s l) else []) @
         (if is_verbose_mode u (Some l) \<or> u_extended_non_verbose u
          then [log_msin u l mtype, word_of_int (l_args_num l)] @ set_id (u_appID u) @ set_id (c_contextID h) else []))"

lemma set_id_length [simp]: "length (set_id t) = 4"
  by (simp add: set_id_def dlt_set_id_length)

lemma set_id_any: "length d = 4 \<Longrightarrow> the (dlt_set_id (Some d) (Some t)) = set_id t"
  by (simp add: set_id_def dlt_set_id_def Let_def memput_def)

lemma length_log_extra: "length (log_extra env s h l mtype) = extra_len (log_htyp (s_user s) l)"
  by (simp add: log_extra_def extra_len_def DLT_STANDARD_HEADER_EXTRA_SIZE_def log_htyp_flags Let_def)

lemma memput_behind: "memput (a @ b) (length a) d = a @ d @ drop (length d) b"
  by (simp add: memput_def)

lemma memget_behind: "memget (a @ y @ b) (length a) (length y) = y"
  by (simp add: memget_def)

lemma log_header:
  assumes hb: "length (headerbuffer (ae_msg env)) = 42" "length (ecu (headerextra (ae_msg env))) = 4"
    and mtype: "mtype = DLT_TYPE_LOG \<or> mtype = DLT_TYPE_NW_TRACE"
  shows "\<exists>m. extend_header (s_user s) h l mtype (start_header env s h l) = Some m \<and> length (headerbuffer m) = 42 \<and>
    headersize m = 20 + int (extra_len (log_htyp (s_user s) l)) \<and>
    header_bytes (m\<lparr>headerbuffer := memput (headerbuffer m) 18 (be_bytes 2 len)\<rparr>) =
      [log_htyp (s_user s) l, c_mcnt h] @ be_bytes 2 len @ log_extra env s h l mtype"
proof -
  define u where "u = s_user s"
  define ht where "ht = log_htyp u l"
  define t where "t = log_time env s l"
  define sto where "sto = storage_bytes (the (snd (dlt_set_storageheader (ae_time env (s_events s)) (Some zero_storage) (Some (u_ecuID u)))))"
  have ls: "length sto = 16"
    unfolding sto_def by (intro length_storage_bytes) (simp_all add: dlt_set_storageheader_def zero_storage_def dlt_set_id_length)
  obtain p q r v w where B: "headerbuffer (ae_msg env) = p @ q @ r @ v @ w" "length p = 20" "length q = 4" "length r = 4" "length v = 4"
    using split_header [OF hb(1)] by blast
  have w: "length w = 10" using hb B by simp
  define z where "z = drop 18 p"
  have z: "length z = 2" using B(2) by (simp add: z_def)
  have hb1: "memput (memput (p @ q @ r @ v @ w) 0 sto) 16 [ht, c_mcnt h] = sto @ [ht, c_mcnt h] @ z @ q @ r @ v @ w"
    using ls B by (simp add: memput_def z_def)
  have nth16: "(sto @ ht # x) ! 16 = ht" for x using ls by (simp add: nth_append)
  have flags: "DLT_IS_HTYP_WEID ht = u_with_ecu_id u" "DLT_IS_HTYP_WSID ht = u_with_session_id u"
    "DLT_IS_HTYP_WTMS ht = u_with_timestamp u" "DLT_IS_HTYP_UEH ht = (is_verbose_mode u (Some l) \<or> u_extended_non_verbose u)"
    by (simp_all add: ht_def log_htyp_flags)
  have e: "length (set_id x) = 4" for x by simp
  note defs = start_header_def Let_def dlt_message_init_def dlt_message_set_extraparameters_def msg_htyp_def
    u_def [symmetric] ht_def [symmetric] B(1) hb1 nth16 flags sto_def [symmetric] set_id_any [OF hb(2)] le_bytes_swap32
    log_time_def [symmetric] t_def [symmetric]
  have st: "headerbuffer (start_header env s h l) = sto @ [ht, c_mcnt h] @ z @
      (if u_with_ecu_id u then set_id (u_ecuID u) else []) @
      (if u_with_session_id u then be_bytes 4 (int (u32 (ae_pid env))) else []) @
      (if u_with_timestamp u then be_bytes 4 t else []) @
      drop ((if u_with_ecu_id u then 4 else 0) + (if u_with_session_id u then 4 else 0) + (if u_with_timestamp u then 4 else 0)) (q @ r @ v @ w)"
    using ls z B w
    by (cases "u_with_ecu_id u"; cases "u_with_session_id u"; cases "u_with_timestamp u") (simp_all add: defs memput_def z_def [symmetric])
  define K where "K = (if u_with_ecu_id u then set_id (u_ecuID u) else []) @
      (if u_with_session_id u then be_bytes 4 (int (u32 (ae_pid env))) else []) @ (if u_with_timestamp u then be_bytes 4 t else [])"
  have lK: "length K = DLT_STANDARD_HEADER_EXTRA_SIZE ht" "length K \<le> 12"
    by (simp_all add: K_def DLT_STANDARD_HEADER_EXTRA_SIZE_def flags)
  define R where "R = drop (length K) (q @ r @ v @ w)"
  have lR: "length R = 22 - length K" using B w by (simp add: R_def)
  have st': "headerbuffer (start_header env s h l) = sto @ [ht, c_mcnt h] @ z @ K @ R"
    unfolding st R_def by (simp add: K_def)
  have mh: "msg_htyp (start_header env s h l) = ht" unfolding msg_htyp_def st' by (simp add: nth16)
  have len4: "length (be_bytes 2 len) = 2" by simp
  have hd: "header_bytes (m\<lparr>headerbuffer := memput (headerbuffer m) 18 (be_bytes 2 len)\<rparr>) = [ht, c_mcnt h] @ be_bytes 2 len @ Y"
    if "headerbuffer m = sto @ [ht, c_mcnt h] @ z @ Y @ S" "nat (headersize m) - 16 = 4 + length Y" for m Y S
  proof -
    let ?Y = "[ht, c_mcnt h] @ be_bytes 2 len @ Y"
    have "memput (headerbuffer m) 18 (be_bytes 2 len) = sto @ ?Y @ S"
      using memput_behind [of "sto @ [ht, c_mcnt h]" "z @ Y @ S" "be_bytes 2 len"] ls z by (simp add: that(1))
    moreover have "nat (headersize m) - 16 = length ?Y" using that(2) by simp
    ultimately show ?thesis using memget_behind [of sto ?Y] ls by (simp add: header_bytes_def del: append_assoc append_Cons)
  qed
  define X where "X = [log_msin u l mtype, word_of_int (l_args_num l)] @ set_id (u_appID u) @ set_id (c_contextID h)"
  have lX: "length X = 10" by (simp add: X_def)
  show ?thesis
  proof (cases "DLT_IS_HTYP_UEH ht")
    case True
    define m where "m = (start_header env s h l)\<lparr>extendedheader := Some (20 + length K),
      headerbuffer := memput (headerbuffer (start_header env s h l)) (20 + length K) X, headersize := int (20 + length K + 10)\<rparr>"
    have b: "headerbuffer m = sto @ [ht, c_mcnt h] @ z @ K @ X @ drop 10 R"
    proof -
      have "length (sto @ [ht, c_mcnt h] @ z @ K) = 20 + length K" using ls z by simp
      from memput_behind [of "sto @ [ht, c_mcnt h] @ z @ K" R X, unfolded this] lX show ?thesis by (simp add: m_def st')
    qed
    have E: "extend_header u h l mtype (start_header env s h l) = Some m"
      using mtype by (auto simp: extend_header_def Let_def mh True lK(1) [symmetric] m_def X_def)
    have x: "log_extra env s h l mtype = K @ X" "extra_len ht = length K + 10"
      using True by (simp_all add: log_extra_def Let_def u_def [symmetric] K_def t_def X_def flags extra_len_def lK(1) [unfolded K_def, symmetric])
    have "headersize m = 30 + int (length K)" by (simp add: m_def)
    then have "header_bytes (m\<lparr>headerbuffer := memput (headerbuffer m) 18 (be_bytes 2 len)\<rparr>) = [ht, c_mcnt h] @ be_bytes 2 len @ K @ X"
      using hd [of m "K @ X" "drop 10 R"] lX by (simp add: b)
    then show ?thesis unfolding u_def [symmetric] ht_def [symmetric] x E
      using b ls z lX lR lK(2) by (simp add: m_def)
  next
    case False
    define m where "m = (start_header env s h l)\<lparr>headersize := int (20 + length K)\<rparr>"
    have E: "extend_header u h l mtype (start_header env s h l) = Some m"
      by (simp add: extend_header_def Let_def mh False lK(1) [symmetric] m_def)
    have x: "log_extra env s h l mtype = K" "extra_len ht = length K"
      using False by (simp_all add: log_extra_def Let_def u_def [symmetric] K_def t_def flags extra_len_def lK(1) [unfolded K_def, symmetric])
    have "header_bytes (m\<lparr>headerbuffer := memput (headerbuffer m) 18 (be_bytes 2 len)\<rparr>) = [ht, c_mcnt h] @ be_bytes 2 len @ K"
      using hd [of m K R] by (simp add: m_def st')
    then show ?thesis unfolding u_def [symmetric] ht_def [symmetric] x E
      using ls z lR lK(2) by (simp add: m_def st')
  qed
qed

section \<open>Messages stay in order\<close>

lemma error_handling_stores:
  assumes ok: "app_ok env s ms" and m: "m = arg_bytes x1 @ arg_bytes x2 @ arg_bytes x3"
    and room: "length m + 24 \<le> min_size (u_startup_buffer (s_user s))" and len: "length m + 12 < 2147483648"
    and r: "dlt_user_log_out_error_handling env s x1 x2 x3 = (rc, s')"
  shows "\<exists>b. s' = set_buffer b s \<and> min_size b = min_size (u_startup_buffer (s_user s)) \<and>
    (app_ok env s' (ms @ [m]) \<and> (rc = 0 \<or> rc = - 1) \<or> app_ok env s' ms \<and> rc = - 4)"
proof -
  let ?b = "u_startup_buffer (s_user s)"
  have rep: "buffer_rep ?b ms" "alloc_ok (ae_alloc env)" "length (ae_pad env) = 3" using ok by (auto simp: app_ok_def)
  then have sz: "min_size ?b \<le> bsize ?b + 12" by (auto simp: buffer_rep_def sizes_ok_def)
  obtain rc' b' where p: "dlt_buffer_push3 (ae_alloc env) (ae_pad env) (Some ?b) x1 (length (arg_bytes x1)) x2 (length (arg_bytes x2))
     x3 (length (arg_bytes x3)) = (rc', b')" by fastforce
  have chk: "dlt_buffer_check_size (Some ?b) n = 0 \<or> dlt_buffer_check_size (Some ?b) n = - 1" for n
    by (simp add: dlt_buffer_check_size_def)
  from push3_rep [OF rep m refl refl refl _ len p] room sz obtain b where
    b: "b' = Some b" "min_size b = min_size ?b" "rc' = 0 \<and> buffer_rep b (ms @ [m]) \<or> rc' = - 1 \<and> buffer_rep b ms" by auto
  have "s' = set_buffer b s" "rc = (if rc' = - 1 then - 4 else dlt_buffer_check_size (Some ?b)
      (i32 (int (length (arg_bytes x1) + length (arg_bytes x2) + length (arg_bytes x3)))))"
    using r unfolding dlt_user_log_out_error_handling_def Let_def p b(1) by simp_all
  note res = this
  show ?thesis
  proof (intro exI [of _ b] conjI)
    show "app_ok env s' (ms @ [m]) \<and> (rc = 0 \<or> rc = - 1) \<or> app_ok env s' ms \<and> rc = - 4"
      unfolding app_ok_def res state_updates using b(3) rep(2,3) chk by (cases "rc' = - 1") simp_all
  qed (rule res(1), rule b(2))
qed

definition fits :: "app_state \<Rightarrow> byte list \<Rightarrow> bool" where
  "fits s m \<longleftrightarrow> length m + 24 \<le> min_size (u_startup_buffer (s_user s)) \<and> length m + 12 < 2147483648"

lemma send_to_daemon_fifo:
  assumes ok: "app_ok env s ms" "\<forall>m \<in> set ms. sendable m" "writev_ok env" and u: "u_log_buf_len (s_user s) \<noteq> 0"
    "u_appID (s_user s) ! 0 \<noteq> 0" "0 \<le> u_log_handle (s_user s)" "u_overflow_counter (s_user s) = 0"
    and new: "new = user_header DLT_USER_MESSAGE_LOG @ hdr @ payload" "fits s new"
    and r: "send_to_daemon env s hdr payload = (rc, s')"
  defines "p \<equiv> add_application_id (u_appID (s_user s))" and "h \<equiv> u_log_handle (s_user s)"
  shows "\<exists>k ev. k \<le> length ms \<and> sent s h (map p (take k ms)) ev s' \<and>
    (k = length ms \<and> ev = [Wrote h new] \<and> rc = 0 \<and> app_ok env s' [] \<or>
     failed_write h ((map p ms @ [new]) ! k) ev \<and>
       (rc \<noteq> - 4 \<and> app_ok env s' (drop k ms @ [new]) \<and> u_overflow_counter (s_user s') = 0 \<or>
        rc = - 4 \<and> app_ok env s' (drop k ms) \<and> u_overflow_counter (s_user s') = 1))"
proof -
  have uh: "user_header 1 \<noteq> []" by (simp add: user_header_def dlt_user_set_userheader_def)
  have s1: "report_overflow env (dlt_user_log_reattach_to_daemon env s) = s"
    using u by (simp add: report_overflow_def dlt_user_log_reattach_to_daemon_def)
  obtain r2 s2 where rs: "dlt_user_log_resend_buffer env s = (r2, s2)" by fastforce
  from resend_buffer_sends [OF ok u(1,2) rs] obtain k ev where
    k: "k \<le> length ms" "same_user s s2" "app_ok env s2 (drop k ms)" "sent s h (map p (take k ms)) ev s2"
    and c: "r2 = 0 \<and> k = length ms \<and> ev = [] \<and> u_log_handle (s_user s2) = h \<or> r2 < 0 \<and> k < length ms \<and> failed_write h (p (ms ! k)) ev"
    unfolding p_def h_def by auto
  have u2: "u_appID (s_user s2) = u_appID (s_user s)" "u_overflow_counter (s_user s2) = 0"
    "min_size (u_startup_buffer (s_user s2)) = min_size (u_startup_buffer (s_user s))"
    using k(2) u(4) by (auto simp: same_user_def)
  have small: "length (user_header 1 @ hdr @ payload) < 2 ^ 32 - 1" using new by (simp add: fits_def)
  obtain r3 s3 where o: "(if r2 = 0 then dlt_user_log_out3 env s2 (u_log_handle (s_user s2)) (user_header 1) hdr payload else (r2, s2)) = (r3, s3)"
    by fastforce
  have "r3 = 0 \<and> s3 = add_event (Wrote h new) s2 \<and> r2 = 0 \<or>
    r3 < 0 \<and> (\<exists>ev. sent s h (map p (take k ms)) ev s3 \<and> failed_write h ((map p ms @ [new]) ! k) ev) \<and> s_user s3 = s_user s2"
  proof (cases "r2 = 0")
    case True
    with c have c': "k = length ms" "ev = []" "u_log_handle (s_user s2) = h" by auto
    with o True have o': "dlt_user_log_out3 env s2 h (user_header 1) hdr payload = (r3, s3)" by simp
    from ok(3) small uh o' show ?thesis
    proof (cases rule: out3_cases)
      case (failed n)
      then have "failed_write h new [Wrote h (take n new)]" using new(1) by (intro failed_writeI) simp
      with failed k(4) c' new(1) show ?thesis by (auto simp: sent_def nth_append)
    qed (use u(3) c' True new(1) in \<open>auto simp: h_def\<close>)
  next
    case False
    with o c k(4) show ?thesis by (auto simp: nth_append)
  qed
  note split3 = this
  have open3: "u_log_handle (s_user s) \<noteq> - 1" using u(3) by simp
  have known: "u_appID (s_user s3) ! 0 \<noteq> 0" using split3 u2(1) u(2) by auto
  have step: "(rc, s') = (case (if r3 \<noteq> 0 then dlt_user_log_out_error_handling env s3 (Some (user_header 1)) (Some hdr) (Some payload)
        else (0, s3)) of (r4, s4) \<Rightarrow>
      if r4 = 0 then (0, s4)
      else if r4 = - 4 then (- 4, set_overflow (u32 (int (u_overflow_counter (s_user s4)) + 1)) s4)
      else if r3 = - 3 then (- 3, s4)
      else if r3 = - 2 then (- 2, set_handle (- 1) (add_event (Closed (u_log_handle (s_user s4))) s4))
      else if r3 = 0 then (0, s4) else (- 1, s4))"
    unfolding r [symmetric] send_to_daemon_def s1 Let_def using o known u2(1) u(2) open3 by (simp add: rs)
  from split3 show ?thesis
  proof (elim disjE conjE exE)
    assume A: "r3 = 0" "s3 = add_event (Wrote h new) s2" "r2 = 0"
    then show ?thesis using step c k by (intro exI [of _ k] exI [of _ "[Wrote h new]"]) (auto simp: sent_def app_ok_def)
  next
    fix ev
    assume B: "r3 < 0" "sent s h (map p (take k ms)) ev s3" "failed_write h ((map p ms @ [new]) ! k) ev" "s_user s3 = s_user s2"
    obtain r4 s4 where e: "dlt_user_log_out_error_handling env s3 (Some (user_header 1)) (Some hdr) (Some payload) = (r4, s4)" by fastforce
    have "app_ok env s3 (drop k ms)" using k(3) B(4) by (simp add: app_ok_def)
    from error_handling_stores [OF this _ _ _ e, of new] new u2 B(4) obtain b where
      b: "s4 = set_buffer b s3" "app_ok env s4 (drop k ms @ [new]) \<and> (r4 = 0 \<or> r4 = - 1) \<or> app_ok env s4 (drop k ms) \<and> r4 = - 4"
      by (auto simp: fits_def arg_bytes_def)
    have s4: "sent s h (map p (take k ms)) ev s4" "u_overflow_counter (s_user s4) = 0"
      using B(2,4) b(1) u2(2) by (simp_all add: sent_def)
    have res: "(rc, s') = (if r4 = 0 then (0, s4) else if r4 = - 4 then (- 4, set_overflow 1 s4)
      else if r3 = - 2 then (- 2, set_handle (- 1) (add_event (Closed (u_log_handle (s_user s4))) s4))
      else (if r3 = - 3 then - 3 else - 1, s4))"
      using step B(1) e s4(2) by (simp add: u32_def split: if_splits)
    have closed: "sent s h (map p (take k ms)) (ev @ [Closed c]) (set_handle x (add_event (Closed c) s4))" for c x
      using s4(1) by (simp add: sent_def)
    from b(2) show ?thesis
    proof (elim disjE conjE)
      assume "app_ok env s4 (drop k ms)" "r4 = - 4"
      then show ?thesis using res k(1) B(3) s4
        by (intro exI [of _ k] exI [of _ ev]) (simp add: sent_def app_ok_def)
    next
      assume r4: "app_ok env s4 (drop k ms @ [new])" "r4 = - 1"
      show ?thesis
      proof (cases "r3 = - 2")
        case True
        then show ?thesis using res r4 k(1) failed_writeI(3) [OF B(3)] closed s4(2)
          by (intro exI [of _ k] exI [of _ "ev @ [Closed (u_log_handle (s_user s4))]"]) (simp add: app_ok_def)
      next
        case False
        then show ?thesis using res r4 k(1) B(3) s4
          by (intro exI [of _ k] exI [of _ ev]) (simp add: sent_def app_ok_def)
      qed
    qed (use res k(1) B(3) s4 in \<open>intro exI [of _ k] exI [of _ ev], simp add: sent_def app_ok_def\<close>)
  qed
qed
end
