(* ===== verification/User_Wire.thy ===== *)
theory User_Wire
  imports User_Send
begin

text \<open>
  What an application sends, end to end: the order of the messages on the pipe, a log message from
  the written arguments to the text that a receiver prints, the registrations as the daemon
  enters them, and the behaviour at the limits of the buffers.
\<close>

section \<open>A log message on the pipe\<close>

definition log_frame :: "app_env \<Rightarrow> app_state \<Rightarrow> DltContext \<Rightarrow> DltContextData \<Rightarrow> int \<Rightarrow> byte list" where
  "log_frame env s h l mtype =
     dlt_frame (log_htyp (s_user s) l) (c_mcnt h) (log_extra env s h l mtype) (logged l)"

text \<open>The state of a running library without offline file, and a message with its context.\<close>

definition library_ok :: "app_env \<Rightarrow> app_state \<Rightarrow> bool" where
  "library_ok env s \<longleftrightarrow> u_initialised (s_user s) \<and> u_is_daemon (s_user s) \<and> \<not> u_is_file (s_user s) \<and>
     u_appID (s_user s) ! 0 \<noteq> 0 \<and> u_log_buf_len (s_user s) \<noteq> 0 \<and> length (headerbuffer (ae_msg env)) = 42 \<and>
     length (ecu (headerextra (ae_msg env))) = 4 \<and> (\<forall>m l. ae_print env m l \<noteq> Some (- 1))"

definition message_ok :: "DltUser \<Rightarrow> DltContext \<Rightarrow> DltContextData \<Rightarrow> bool" where
  "message_ok u h l \<longleftrightarrow> log_ok u l \<and> l_handle l = Some h \<and> c_contextID h ! 0 \<noteq> 0 \<and> length (logged l) + 26 < 65536"

definition with_appid :: "byte list \<Rightarrow> app_state \<Rightarrow> app_state" where
  "with_appid a s = s\<lparr>s_user := (s_user s)\<lparr>u_appID := a\<rparr>\<rparr>"

lemma send_log_eq:
  assumes s: "library_ok env (with_appid a s)" and m: "message_ok (s_user s) h l" and mtype: "mtype = DLT_TYPE_LOG \<or> mtype = DLT_TYPE_NW_TRACE"
  shows "\<exists>hdr. hdr @ logged l = log_frame env s h l mtype \<and>
    dlt_user_log_send_log env s (Some l) mtype =
      (case send_to_daemon env s hdr (logged l) of
         (rc, s') \<Rightarrow> (rc, s', Some (l\<lparr>l_handle := Some (h\<lparr>c_mcnt := c_mcnt h + 1\<rparr>)\<rparr>)))"
proof -
  let ?ht = "log_htyp (s_user s) l"
  let ?len = "int (4 + extra_len ?ht + length (logged l))"
  obtain dm where dm: "extend_header (s_user s) h l mtype (start_header env s h l) = Some dm"
    "headersize dm = 20 + int (extra_len ?ht)"
    "header_bytes (dm\<lparr>headerbuffer := memput (headerbuffer dm) 18 (be_bytes 2 ?len)\<rparr>) =
      [?ht, c_mcnt h] @ be_bytes 2 ?len @ log_extra env s h l mtype"
    using log_header [OF _ _ mtype, of env s h l ?len] s by (auto simp: library_ok_def with_appid_def)
  have lo: "log_ok (s_user s) l" and big: "length (logged l) + 26 < 65536" and h: "l_handle l = Some h" "c_contextID h ! 0 \<noteq> 0"
    using m by (auto simp: message_ok_def)
  have len: "i32 (headersize dm - 16 + l_size l) = ?len"
    using big extra_len_le [of ?ht] by (simp add: dm(2) log_ok_size [OF lo] i32_id)
  have pay: "memget (the (l_buffer l)) 0 (nat (l_size l)) = logged l" by (simp add: logged_def memget_def)
  let ?hdr = "[?ht, c_mcnt h] @ be_bytes 2 ?len @ log_extra env s h l mtype"
  have "?hdr @ logged l = log_frame env s h l mtype"
    by (simp add: log_frame_def dlt_frame_def length_log_extra)
  moreover have "0 \<le> mtype" "mtype \<le> 3" using mtype by auto
  moreover have "?len \<le> 65535" using big extra_len_le [of ?ht] by simp
  ultimately show ?thesis using s h
    by (intro exI [of _ ?hdr])
      (simp add: dlt_user_log_send_log_def library_ok_def with_appid_def dm(1) len pay dm(3) Let_def del: of_nat_add of_nat_Suc)
qed

lemma with_own_appid [simp]: "with_appid (u_appID (s_user s)) s = s"
  by (simp add: with_appid_def)

lemmas send_log_eq_known = send_log_eq [where a = "u_appID (s_user s)" and s = s for s, unfolded with_own_appid]

lemma read_body_extended:
  assumes r: "read_body alloc m buffer (length buffer) = (0, m')" and hb: "length (headerbuffer m) = 42" "databuffer m = None"
    and ueh: "DLT_IS_HTYP_UEH (buffer ! 0)" and len: "4 \<le> length buffer" and n: "datasize m' = int n"
    and alloc: "\<exists>blk. alloc n = Some blk \<and> length blk = n" and e: "headersize m' = 20 + int e" and all: "4 + e + n \<le> length buffer"
  shows "extendedheader m' = Some (20 + DLT_STANDARD_HEADER_EXTRA_SIZE (buffer ! 0)) \<and>
    databuffer m' = Some (take n (drop (4 + e) buffer))"
proof -
  define m1 where "m1 = m\<lparr>headerbuffer := memput (headerbuffer m) 16 (take 4 buffer), storageheader := Some 0, standardheader := Some 16\<rparr>"
  note h = read_body_head [OF hb(1) len le_refl m1_def]
  define x where "x = DLT_STANDARD_HEADER_EXTRA_SIZE (buffer ! 0) + 10"
  have x0: "0 < x" by (simp add: x_def)
  define t where "t = msg_len m1 - int (16 + 4 + x) + 16"
  define m3 where "m3 = load_extra (m1\<lparr>headersize := int (16 + 4 + x), datasize := t\<rparr>) buffer x"
  have "load_payload alloc m3 (nat t) (drop (4 + x) buffer) = (0, m')"
    using r len ueh x0 unfolding read_body_def m1_def [symmetric] h(1) Let_def
    by (auto simp: x_def [symmetric] t_def m3_def split: if_splits)
  from load_payload_cases [OF this] have p: "headersize m' = headersize m3" "datasize m' = datasize m3"
    "extendedheader m' = extendedheader m3" "\<exists>d. fresh_payload alloc m3 (nat t) = Some d \<and> databuffer m' = Some (memput d 0 (take (nat t) (drop (4 + x) buffer)))"
    by auto
  have m3: "headersize m3 = int (20 + x)" "datasize m3 = t" "databuffer m3 = None"
    using hb(2) by (simp_all add: m3_def load_extra_sel m1_def)
  have "extendedheader m3 = Some (20 + DLT_STANDARD_HEADER_EXTRA_SIZE (buffer ! 0))"
    using ueh h(1) by (simp add: m3_def load_extra_def dlt_message_get_extraparameters_def Let_def msg_htyp_def hb
        memput_def)
  moreover have "x = e" "t = int n" using p m3 n e by simp_all
  ultimately show ?thesis using p m3(3) alloc all by (auto simp: fresh_payload_def memput_def)
qed

text \<open>What a receiver without a data buffer reads from the bytes of a verbose message.\<close>

definition reader_ok :: "(nat \<Rightarrow> byte list option) \<Rightarrow> DltMessage \<Rightarrow> bool" where
  "reader_ok alloc m \<longleftrightarrow> length (headerbuffer m) = 42 \<and> databuffer m = None \<and> (\<forall>n. \<exists>blk. alloc n = Some blk \<and> length blk = n)"

lemma nth_from_memget: "memget m p k = x \<Longrightarrow> i < length x \<Longrightarrow> m ! (p + i) = x ! i"
  by (auto simp: memget_def)

lemma memget_beyond: "memget (a @ b) (length a + i) n = memget b i n"
  by (simp add: memget_def)

lemma memget_from_memget: "memget m p k = x \<Longrightarrow> off + n \<le> k \<Longrightarrow> memget m (p + off) n = memget x off n"
  using memget_memget by metis

lemma read_log_frame:
  assumes m: "message_ok (s_user s) h l" and v: "is_verbose_mode (s_user s) (Some l)" and rd: "reader_ok alloc m"
  shows "\<exists>m'. dlt_message_read alloc (Some m) (Some (log_frame env s h l mtype)) (length (log_frame env s h l mtype)) False = (0, Some m') \<and>
    msg_htyp m' = log_htyp (s_user s) l \<and> DLT_IS_HTYP_UEH (msg_htyp m') \<and>
    datasize m' = int (length (logged l)) \<and> databuffer m' = Some (logged l) \<and>
    msg_msin m' = log_msin (s_user s) l mtype \<and> msg_noar m' = unat (word_of_int (l_args_num l) :: byte) \<and>
    msg_apid m' = set_id (u_appID (s_user s)) \<and> msg_ctid m' = set_id (c_contextID h)"
proof -
  let ?ht = "log_htyp (s_user s) l" let ?x = "log_extra env s h l mtype" let ?p = "logged l"
  let ?f = "dlt_frame ?ht (c_mcnt h) ?x ?p"
  have ueh: "DLT_IS_HTYP_UEH ?ht" using v by (simp add: log_htyp_flags)
  have fr: "4 + length ?x + length ?p < 65536" "length ?x = extra_len ?ht"
    using m extra_len_le [of ?ht] by (auto simp: message_ok_def length_log_extra)
  define K where "K = DLT_STANDARD_HEADER_EXTRA_SIZE ?ht"
  have x: "length ?x = K + 10" using fr(2) ueh by (simp add: extra_len_def K_def)
  define X where "X = [log_msin (s_user s) l mtype, word_of_int (l_args_num l)] @ set_id (u_appID (s_user s)) @ set_id (c_contextID h)"
  obtain Y where Y: "?x = Y @ X" unfolding log_extra_def X_def using v by (simp add: Let_def)
  have lY: "length Y = K" using x Y by (simp add: X_def)
  have ht: "?ht \<noteq> 0x44" by (simp add: log_htyp_def)
  define m0 where "m0 = m\<lparr>found_serialheader := False, resync_offset := 0\<rparr>"
  have sync: "read_sync (m\<lparr>resync_offset := 0\<rparr>) ?f (length ?f) False = (m0, ?f, length ?f)"
    using ht by (simp add: read_sync_def memget_def dlt_frame_def dltSerialHeader_def m0_def)
  have m0: "length (headerbuffer m0) = 42" "databuffer_ok m0" "databuffer m0 = None"
    using rd by (simp_all add: reader_ok_def m0_def databuffer_ok_def)
  have al: "\<exists>blk. alloc (length ?p) = Some blk \<and> length blk = length ?p" using rd by (simp add: reader_ok_def)
  obtain m' where m': "read_body alloc m0 ?f (length ?f) = (0, m')" "headersize m' = 20 + int (length ?x)"
    "datasize m' = int (length ?p)" "memget (headerbuffer m') 16 (4 + length ?x) = take (4 + length ?x) ?f"
    using read_body_frame [where alloc = alloc and m = m0 and payload = ?p and extra = ?x and htyp = ?ht and buffer = ?f and mcnt = "c_mcnt h"
        and rest = "[]", OF m0(1,2) al fr] by auto
  have f0: "?f ! 0 = ?ht" by (simp add: dlt_frame_def)
  have e: "extendedheader m' = Some (20 + K)" "databuffer m' = Some (take (length ?p) (drop (4 + length ?x) ?f))"
    using read_body_extended [OF m'(1) m0(1,3) _ _ m'(3) al m'(2)] f0 ueh by (simp_all add: K_def)
  have pay: "take (length ?p) (drop (4 + length ?x) ?f) = ?p" using frame_fields(3) [where payload = ?p and extra = ?x and htyp = ?ht and buffer = ?f and mcnt = "c_mcnt h" and rest = "[]", OF fr] by simp
  let ?F = "[?ht, c_mcnt h] @ be_bytes 2 (4 + int (length ?x) + int (length ?p)) @ ?x"
  have "?f = ?F @ ?p" "length ?F = 4 + length ?x" by (simp_all add: dlt_frame_def)
  then have "take (4 + length ?x) ?f = ?F" by (metis append_eq_conv_conj)
  then have head: "memget (headerbuffer m') 16 (14 + K) = ?F" using m'(4) x by simp
  let ?H = "[?ht, c_mcnt h] @ be_bytes 2 (4 + int (length ?x) + int (length ?p)) @ Y"
  have lH: "length ?H = 4 + K" by (simp add: lY)
  have head': "memget (headerbuffer m') 16 (14 + K) = ?H @ X" unfolding head by (simp add: Y)
  have X4: "memget (?H @ X) (4 + K + i) n = memget X i n" for i n
    using memget_beyond [of ?H X i n] unfolding lH .
  have "msg_htyp m' = ?ht" using nth_from_memget [OF head', of 0] by (simp add: msg_htyp_def)
  moreover have "msg_msin m' = log_msin (s_user s) l mtype"
    using nth_from_memget [OF head', of "4 + K"] lH by (simp add: msg_msin_def e X_def nth_append add.commute add.left_commute)
  moreover have "msg_noar m' = unat (word_of_int (l_args_num l) :: byte)"
    using nth_from_memget [OF head', of "5 + K"] lH by (simp add: msg_noar_def e X_def nth_append add.commute add.left_commute)
  moreover have "msg_apid m' = set_id (u_appID (s_user s))"
    using memget_from_memget [OF head', of "4 + K + 2" 4] X4 [of 2 4] by (simp add: msg_apid_def e X_def memget_def add.commute add.left_commute)
  moreover have "msg_ctid m' = set_id (c_contextID h)"
    using memget_from_memget [OF head', of "4 + K + 6" 4] X4 [of 6 4] by (simp add: msg_ctid_def e X_def memget_def add.commute add.left_commute)
  moreover have "dlt_message_read alloc (Some m) (Some ?f) (length ?f) False = (0, Some m')"
    using sync m'(1) by (simp add: dlt_message_read_def)
  ultimately show ?thesis using m'(3) e(2) pay ueh unfolding log_frame_def by auto
qed

section \<open>When the daemon takes every write\<close>

lemma accepts_ok: "accepts env \<Longrightarrow> writev_ok env"
  by (simp add: accepts_def writev_ok_def)

lemma resend_one_accepted:
  assumes ok: "app_ok env s (m # ms)" and acc: "accepts env" and u: "u_log_buf_len (s_user s) \<noteq> 0" "0 \<le> u_log_handle (s_user s)"
  shows "fst (resend_one env s) = None"
proof -
  have rep: "buffer_rep (u_startup_buffer (s_user s)) (m # ms)" and alloc: "alloc_ok (ae_alloc env)" using ok by (auto simp: app_ok_def)
  obtain b where b: "dlt_buffer_copy (ae_alloc env) (Some (u_startup_buffer (s_user s))) (Some (s_resend s))
      (int (u_log_buf_len (s_user s))) = (int (length m), Some b, Some (memput (s_resend s) 0 m))"
    using get_rep [OF rep alloc, of "Some (s_resend s)" "int (u_log_buf_len (s_user s))" False] u(1)
    unfolding dlt_buffer_copy_def by auto
  have w: "dlt_user_log_out3 env s2 (u_log_handle (s_user s)) (take (length m) x) [] [] =
      (0, add_event (Wrote (u_log_handle (s_user s)) (take (length m) x)) s2)" for s2 x
  proof -
    have "length m < 2147483648" using stored_length [OF rep, of m] by simp
    then have "length (take (length m) x @ [] @ []) < 2 ^ 32" by (simp add: min_less_iff_disj)
    from accepted_write [OF acc u(2) this] show ?thesis by simp
  qed
  show ?thesis unfolding resend_one_def b by (simp add: Let_def w)
qed

lemma resend_loop_accepted:
  assumes "app_ok env s ms" "\<forall>m \<in> set ms. sendable m" "accepts env" "u_log_buf_len (s_user s) \<noteq> 0" "0 \<le> u_log_handle (s_user s)"
  shows "fst (resend_loop (length ms) env s) = 0"
  using assms
proof (induction ms arbitrary: s)
  case (Cons m ms)
  obtain s1 where r: "resend_one env s = (None, s1)"
    using resend_one_accepted [OF Cons.prems(1,3-5)] by (cases "resend_one env s") auto
  have "sendable m" using Cons.prems(2) by simp
  from resend_one_cases [OF Cons.prems(1) this accepts_ok [OF Cons.prems(3)] Cons.prems(4) r]
  have o: "same_user s s1" "app_ok env s1 ms" "u_log_handle (s_user s1) = u_log_handle (s_user s)" by auto
  then have "u_log_buf_len (s_user s1) = u_log_buf_len (s_user s)" by (auto simp: same_user_def)
  then show ?case using Cons.IH [OF o(2) _ Cons.prems(3)] Cons.prems o(3) r by simp
qed simp

lemma resend_accepted:
  assumes ok: "app_ok env s ms" "\<forall>m \<in> set ms. sendable m" and acc: "accepts env"
    and u: "u_log_buf_len (s_user s) \<noteq> 0" "u_appID (s_user s) ! 0 \<noteq> 0" "0 \<le> u_log_handle (s_user s)"
  shows "\<exists>s'. dlt_user_log_resend_buffer env s = (0, s') \<and> same_user s s' \<and> app_ok env s' [] \<and>
    u_log_handle (s_user s') = u_log_handle (s_user s) \<and>
    sent s (u_log_handle (s_user s)) (map (add_application_id (u_appID (s_user s))) ms) [] s'"
proof -
  have n: "nat (dlt_buffer_get_message_count (Some (u_startup_buffer (s_user s)))) = length ms"
    using ok(1) message_count_rep by (auto simp: app_ok_def)
  obtain rc s' where r: "dlt_user_log_resend_buffer env s = (rc, s')" by fastforce
  have "rc = 0" using resend_loop_accepted [OF ok acc u(1,3)] r n u(2) by (simp add: dlt_user_log_resend_buffer_def)
  with resend_buffer_sends [OF ok accepts_ok [OF acc] u(1,2) r] r show ?thesis by auto
qed

lemma send_to_daemon_accepted:
  assumes ok: "app_ok env s ms" "\<forall>m \<in> set ms. sendable m" and acc: "accepts env"
    and u: "u_log_buf_len (s_user s) \<noteq> 0" "u_appID (s_user s) ! 0 \<noteq> 0" "0 \<le> u_log_handle (s_user s)" "u_overflow_counter (s_user s) = 0"
    and len: "length hdr + length payload < 2 ^ 32 - 8"
  shows "\<exists>s'. send_to_daemon env s hdr payload = (0, s') \<and> app_ok env s' [] \<and>
    sent s (u_log_handle (s_user s)) (map (add_application_id (u_appID (s_user s))) ms @ [user_header 1 @ hdr @ payload]) [] s'"
proof -
  obtain s2 where s2: "dlt_user_log_resend_buffer env s = (0, s2)" "same_user s s2" "app_ok env s2 []"
    "u_log_handle (s_user s2) = u_log_handle (s_user s)"
    "sent s (u_log_handle (s_user s)) (map (add_application_id (u_appID (s_user s))) ms) [] s2"
    using resend_accepted [OF ok acc u(1-3)] by blast
  have s1: "report_overflow env (dlt_user_log_reattach_to_daemon env s) = s"
    using u by (simp add: report_overflow_def dlt_user_log_reattach_to_daemon_def)
  have id: "u_appID (s_user s2) = u_appID (s_user s)" using s2(2) by (auto simp: same_user_def)
  have "length (user_header 1 @ hdr @ payload) < 2 ^ 32" using len by (simp add: user_header_def dlt_user_set_userheader_def)
  then have o: "dlt_user_log_out3 env s2 (u_log_handle (s_user s2)) (user_header 1) hdr payload =
      (0, add_event (Wrote (u_log_handle (s_user s)) (user_header 1 @ hdr @ payload)) s2)"
    using accepted_write [OF acc, of "u_log_handle (s_user s2)" "user_header 1" hdr payload s2] s2(4) u(3) by simp
  have "u_log_handle (s_user s) \<noteq> - 1" using u(3) by simp
  then have "send_to_daemon env s hdr payload = (0, add_event (Wrote (u_log_handle (s_user s)) (user_header 1 @ hdr @ payload)) s2)"
    unfolding send_to_daemon_def s1 Let_def using u(2) by (simp add: s2(1) o id)
  then show ?thesis using s2 by (auto simp: sent_def app_ok_def)
qed

lemma send_log_accepted:
  assumes "library_ok env s" "app_ok env s ms" "\<forall>m \<in> set ms. sendable m" "accepts env" "message_ok (s_user s) h l"
    and "mtype = DLT_TYPE_LOG \<or> mtype = DLT_TYPE_NW_TRACE" "0 \<le> u_log_handle (s_user s)" "u_overflow_counter (s_user s) = 0"
  shows "\<exists>s' log'. dlt_user_log_send_log env s (Some l) mtype = (0, s', log') \<and> app_ok env s' [] \<and>
    sent s (u_log_handle (s_user s)) (map (add_application_id (u_appID (s_user s))) ms @ [user_header 1 @ log_frame env s h l mtype]) [] s'"
proof -
  obtain hdr where hdr: "hdr @ logged l = log_frame env s h l mtype"
    "dlt_user_log_send_log env s (Some l) mtype = (case send_to_daemon env s hdr (logged l) of
       (rc, s') \<Rightarrow> (rc, s', Some (l\<lparr>l_handle := Some (h\<lparr>c_mcnt := c_mcnt h + 1\<rparr>)\<rparr>)))"
    using send_log_eq_known [OF assms(1,5,6)] by blast
  have "length hdr + length (logged l) = length (log_frame env s h l mtype)" using hdr(1) by (metis length_append)
  also have "\<dots> < 2 ^ 32 - 8" using assms(5) extra_len_le [of "log_htyp (s_user s) l"]
    by (simp add: log_frame_def length_log_extra message_ok_def)
  finally show ?thesis
    using send_to_daemon_accepted [OF assms(2-4) _ _ assms(7,8), of hdr "logged l"] assms(1) hdr by (auto simp: library_ok_def)
qed

section \<open>Connecting to the daemon\<close>

text \<open>The registrations that \<open>dlt_user_log_reattach_to_daemon\<close> sends for the contexts from \<open>num\<close> on.\<close>

definition registration :: "app_env \<Rightarrow> byte list \<Rightarrow> nat \<Rightarrow> byte list \<times> byte list option \<Rightarrow> byte list" where
  "registration env appid num c =
     user_header DLT_USER_MESSAGE_REGISTER_CONTEXT @ set_id appid @ set_id (fst c) @ le_bytes 4 (int num) @
     [0xFE, 0xFE] @ le_bytes 4 (ae_pid env) @ le_bytes 4 (int (length (description_bytes (snd c)))) @ description_bytes (snd c)"

fun registrations :: "app_env \<Rightarrow> byte list \<Rightarrow> nat \<Rightarrow> (byte list \<times> byte list option) list \<Rightarrow> byte list list" where
  "registrations env appid num [] = []"
| "registrations env appid num (c # cs) =
     (if fst c ! 0 \<noteq> 0 then [registration env appid num c] else []) @ registrations env appid (num + 1) cs"

definition application_registration :: "app_env \<Rightarrow> DltUser \<Rightarrow> byte list" where
  "application_registration env u =
     user_header DLT_USER_MESSAGE_REGISTER_APPLICATION @ set_id (u_appID u) @ le_bytes 4 (ae_pid env) @
     le_bytes 4 (int (length (description_bytes (u_description u)))) @ description_bytes (u_description u)"

lemma set_id_eq:
  "set_id t = (if t ! 0 = 0 then [0, 0, 0, 0] else if t ! 1 = 0 then [t ! 0, 0, 0, 0]
     else if t ! 2 = 0 then [t ! 0, t ! 1, 0, 0] else [t ! 0, t ! 1, t ! 2, t ! 3])"
  by (simp add: set_id_def dlt_set_id_def Let_def memput_def eval_nat_numeral)

lemma set_id_first: "set_id t ! 0 = t ! 0"
  by (simp add: set_id_eq)

lemma set_id_idem [simp]: "set_id (set_id t) = set_id t"
  by (simp add: set_id_eq [of "set_id t"]) (simp add: set_id_eq)

lemma registration_accepted:
  assumes acc: "accepts env" and u: "u_is_daemon (s_user s)" "u_appID (s_user s) ! 0 \<noteq> 0" "0 \<le> u_log_handle (s_user s)"
    and c: "fst c ! 0 \<noteq> 0" "length (description_bytes (snd c)) < 65536"
    and l: "l_handle l = Some h" "c_contextID h = set_id (fst c)" "c_log_level_pos h = int num" "l_description l = snd c"
      "l_log_level l = - 2" "l_trace_status l = - 2"
  shows "dlt_user_log_send_register_context env s (Some l) =
    (0, add_event (Wrote (u_log_handle (s_user s)) (registration env (u_appID (s_user s)) num c)) s)"
proof -
  have b: "le_bytes 1 (- 2) = [0xFE]" by (simp add: le_bytes_def)
  let ?r = "register_context_bytes env (s_user s) h l"
  have r: "user_header 4 @ ?r @ description_bytes (snd c) = registration env (u_appID (s_user s)) num c"
    by (simp add: register_context_bytes_def registration_def l b)
  have "length (user_header 4 @ ?r @ description_bytes (snd c)) < 2 ^ 32"
    using c(2) by (simp add: register_context_bytes_def user_header_def dlt_user_set_userheader_def)
  from accepted_write [OF acc u(3) this, of s] show ?thesis
    using u c(1) by (simp add: dlt_user_log_send_register_context_def l set_id_first r Let_def)
qed

definition write_all :: "int \<Rightarrow> byte list list \<Rightarrow> app_state \<Rightarrow> app_state" where
  "write_all h ms s = s\<lparr>s_events := s_events s @ map (Wrote h) ms\<rparr>"

lemma write_all [simp]:
  "s_user (write_all h ms s) = s_user s" "s_events (write_all h ms s) = s_events s @ map (Wrote h) ms" "write_all h [] s = s"
  "write_all h ms' (write_all h ms s) = write_all h (ms @ ms') s" "add_event (Wrote h m) s = write_all h [m] s"
  by (simp_all add: write_all_def add_event_def)

lemma reregister_accepted:
  assumes "accepts env" "u_is_daemon (s_user s)" "u_appID (s_user s) ! 0 \<noteq> 0" "0 \<le> u_log_handle (s_user s)"
    and "length (c_contextID h) = 4" "\<forall>c \<in> set cs. length (description_bytes (snd c)) < 65536"
  shows "reregister_loop env h l num cs done s =
    (False, done \<or> (\<exists>c \<in> set cs. fst c ! 0 \<noteq> 0), write_all (u_log_handle (s_user s)) (registrations env (u_appID (s_user s)) num cs) s)"
  using assms
proof (induction cs arbitrary: h l num "done" s)
  case (Cons c cs)
  obtain ctid dsc where c: "c = (ctid, dsc)" by fastforce
  show ?case
  proof (cases "ctid ! 0 = 0")
    case True
    then show ?thesis using Cons by (simp add: c)
  next
    case False
    define h1 where "h1 = h\<lparr>c_contextID := the (dlt_set_id (Some (c_contextID h)) (Some ctid)), c_log_level_pos := int num\<rparr>"
    define l1 where "l1 = l\<lparr>l_handle := Some h1, l_description := dsc, l_log_level := - 2, l_trace_status := - 2\<rparr>"
    have i: "the (dlt_set_id (Some (c_contextID h)) (Some ctid)) = set_id ctid"
      using Cons.prems(5) by (rule set_id_any)
    have "dlt_user_log_send_register_context env s (Some l1) =
        (0, add_event (Wrote (u_log_handle (s_user s)) (registration env (u_appID (s_user s)) num c)) s)"
      using Cons.prems False by (intro registration_accepted [where h = h1]) (simp_all add: c l1_def h1_def i)
    then have r: "dlt_user_log_send_register_context env s
        (Some (l\<lparr>l_handle := Some h1, l_description := dsc, l_log_level := - 2, l_trace_status := - 2\<rparr>)) =
      (0, write_all (u_log_handle (s_user s)) [registration env (u_appID (s_user s)) num c] s)" unfolding l1_def by simp
    have "length (c_contextID h1) = 4" by (simp add: h1_def i)
    then have "reregister_loop env h1 l1 (num + 1) cs True (write_all (u_log_handle (s_user s)) [registration env (u_appID (s_user s)) num c] s) =
      (False, True, write_all (u_log_handle (s_user s)) (registration env (u_appID (s_user s)) num c # registrations env (u_appID (s_user s)) (num + 1) cs) s)"
      using Cons by simp
    then show ?thesis using False Cons.prems(3) by (simp add: c Let_def h1_def [symmetric] r l1_def)
  qed
qed simp

lemma application_registration_accepted:
  assumes "accepts env" "u_is_daemon (s_user s)" "u_appID (s_user s) ! 0 \<noteq> 0" "0 \<le> u_log_handle (s_user s)"
    and "length (description_bytes (u_description (s_user s))) < 65536"
  shows "dlt_user_log_send_register_application env s =
    (0, write_all (u_log_handle (s_user s)) [application_registration env (s_user s)] s)"
proof -
  let ?d = "description_bytes (u_description (s_user s))"
  let ?c = "set_id (u_appID (s_user s)) @ le_bytes 4 (ae_pid env) @ le_bytes 4 (int (length ?d))"
  have "length (user_header 2 @ ?c @ ?d) < 2 ^ 32" using assms(5) by (simp add: user_header_def dlt_user_set_userheader_def)
  from accepted_write [OF assms(1,4) this, of s] show ?thesis
    using assms(2,3) by (simp add: dlt_user_log_send_register_application_def Let_def application_registration_def)
qed

lemma reattach_accepted:
  assumes open': "u_log_handle (s_user s) < 0" "ae_open env (s_events s) = f" "0 \<le> f"
    and u: "u_initialised (s_user s)" "u_is_daemon (s_user s)" "u_appID (s_user s) ! 0 \<noteq> 0" "u_log_buf_len (s_user s) \<noteq> 0"
    and acc: "accepts env" and st: "app_ok env s ms" "\<forall>m \<in> set ms. sendable m"
    and ctx: "u_contexts (s_user s) = Some cs" "\<exists>c \<in> set cs. fst c ! 0 \<noteq> 0" "length (c_contextID (ae_context env)) = 4"
    and dsc: "\<forall>c \<in> set cs. length (description_bytes (snd c)) < 65536" "length (description_bytes (u_description (s_user s))) < 65536"
  defines "s' \<equiv> dlt_user_log_reattach_to_daemon env s"
  shows "app_ok env s' [] \<and> u_log_handle (s_user s') = f \<and>
    s_events s' = s_events s @ Opened f # map (Wrote f)
      (application_registration env (s_user s) # registrations env (u_appID (s_user s)) 0 cs @
       map (add_application_id (u_appID (s_user s))) ms)"
proof -
  define s2 where "s2 = set_handle f (add_event (Opened f) (set_handle (- 1) s))"
  define a where "a = application_registration env (s_user s)"
  define rs where "rs = registrations env (u_appID (s_user s)) 0 cs"
  have u2: "s_user s2 = (s_user s)\<lparr>u_log_handle := f\<rparr>" "s_events s2 = s_events s @ [Opened f]" by (simp_all add: s2_def)
  have a2: "application_registration env (s_user s2) = a" by (simp add: a_def application_registration_def u2)
  have i: "dlt_user_log_init (ae_init env) (s_user s2) (Some (ae_context env)) (Some (ae_log env)) =
      (0, s_user s2, Some ((ae_log env)\<lparr>l_handle := Some (ae_context env), l_buffer := None\<rparr>))"
    using u(1) by (simp add: dlt_user_log_init_def u2)
  have r1: "dlt_user_log_send_register_application env s2 = (0, write_all f [a] s2)"
    using application_registration_accepted [OF acc, of s2] u dsc(2) open'(3) by (simp add: u2(1) a2 [unfolded u2(1)])
  have r2: "reregister_loop env (ae_context env) x 0 cs False (write_all f [a] s2) = (False, True, write_all f (a # rs) s2)" for x
    using reregister_accepted [OF acc, of "write_all f [a] s2" "ae_context env" cs x 0 False] u open'(3) ctx(2,3) dsc(1) by (simp add: u2 rs_def)
  let ?s = "write_all f (a # rs) s2"
  have "app_ok env ?s ms" using st(1) by (simp add: app_ok_def u2)
  then obtain s3 where s3: "dlt_user_log_resend_buffer env ?s = (0, s3)" "app_ok env s3 []" "u_log_handle (s_user s3) = f"
    "sent ?s f (map (add_application_id (u_appID (s_user s))) ms) [] s3"
    using resend_accepted [OF _ st(2) acc, of ?s] u open'(3) by (auto simp: u2)
  have e: "s2\<lparr>s_user := (s_user s)\<lparr>u_log_handle := f\<rparr>\<rparr> = s2" using u2(1) by (metis app_state.surjective app_state.update_convs(1))
  have "s' = s3" using open' ctx(1)
    by (simp add: s'_def dlt_user_log_reattach_to_daemon_def Let_def s2_def [symmetric] i [unfolded u2(1)] e r1 r2 s3 u2)
  then show ?thesis using s3 by (simp add: sent_def u2 a_def rs_def)
qed

section \<open>Identifiers that are filled in later\<close>

lemma sendable_log:
  assumes "mtype = DLT_USER_MESSAGE_LOG" "22 \<le> length x"
  shows "sendable (user_header mtype @ x)"
  using assms by (simp add: sendable_def user_header_def dlt_user_set_userheader_def memget_def le_val_def le_bytes_def)

lemma add_id_to_log:
  "add_application_id appid (user_header 1 @ x) = fill_apid appid 26 (user_header 1 @ x)"
  by (simp add: add_application_id_def user_header_def dlt_user_set_userheader_def dlt_user_check_userheader_def
      memget_def le_val_def le_bytes_def Let_def)

lemma fill_apid_at:
  assumes "length a = off" "length b = 4"
  shows "fill_apid appid off (a @ b @ c) = a @ (if b ! 0 = 0 then set_id appid else b) @ c"
  using assms set_id_any [OF assms(2), of appid] dlt_set_id_length [OF assms(2), of appid]
  by (cases b) (auto simp: fill_apid_def memget_def memput_def nth_append)

text \<open>The same message of an application with another identifier.\<close>

lemma with_appid [simp]:
  "log_htyp (s_user (with_appid a s)) l = log_htyp (s_user s) l"
  by (simp add: with_appid_def log_htyp_def is_verbose_mode_def)

lemma completed_frame:
  assumes "u_with_ecu_id (s_user s)" "u_with_session_id (s_user s)" "u_with_timestamp (s_user s)"
    and "is_verbose_mode (s_user s) (Some l) \<or> u_extended_non_verbose (s_user s)" "u_appID (s_user s) ! 0 = 0"
  shows "add_application_id appid (user_header 1 @ log_frame env s h l mtype) =
    user_header 1 @ log_frame env (with_appid appid s) h l mtype"
proof -
  let ?u = "s_user s"
  let ?len = "be_bytes 2 (4 + int (extra_len (log_htyp ?u l)) + int (length (logged l)))"
  let ?a = "user_header 1 @ [log_htyp ?u l, c_mcnt h] @ ?len @ set_id (u_ecuID ?u) @ be_bytes 4 (int (u32 (ae_pid env))) @
    be_bytes 4 (log_time env s l) @ [log_msin ?u l mtype, word_of_int (l_args_num l)]"
  have a: "length ?a = 26" by (simp add: user_header_def dlt_user_set_userheader_def)
  have f: "user_header 1 @ log_frame env s h l mtype = ?a @ set_id (u_appID ?u) @ set_id (c_contextID h) @ logged l"
    using assms(1-4) by (simp add: log_frame_def dlt_frame_def length_log_extra) (simp add: log_extra_def Let_def)
  have g: "user_header 1 @ log_frame env (with_appid appid s) h l mtype = ?a @ set_id appid @ set_id (c_contextID h) @ logged l"
    using assms(1-4) by (simp add: log_frame_def dlt_frame_def length_log_extra)
      (simp add: log_extra_def Let_def with_appid_def is_verbose_mode_def log_msin_def log_time_def)
  show ?thesis unfolding add_id_to_log unfolding f g using fill_apid_at [OF a, of "set_id (u_appID ?u)"] assms(5)
    by (simp add: set_id_first del: append_assoc append_Cons)
qed

text \<open>An empty startup buffer takes every message that fits its smallest size.\<close>

lemma error_handling_empty:
  assumes ok: "app_ok env s []" and m: "m = arg_bytes x1 @ arg_bytes x2 @ arg_bytes x3" and fits: "fits s m"
    and r: "dlt_user_log_out_error_handling env s x1 x2 x3 = (rc, s')"
  shows "rc \<noteq> - 4"
proof -
  let ?b = "u_startup_buffer (s_user s)"
  have rep: "buffer_rep ?b []" "alloc_ok (ae_alloc env)" "length (ae_pad env) = 3" using ok by (auto simp: app_ok_def)
  then have room: "12 + length m \<le> bsize ?b" "length m + 12 < 2147483648" using fits by (auto simp: buffer_rep_def sizes_ok_def fits_def)
  obtain rc' b' where p: "dlt_buffer_push3 (ae_alloc env) (ae_pad env) (Some ?b) x1 (length (arg_bytes x1)) x2 (length (arg_bytes x2))
     x3 (length (arg_bytes x3)) = (rc', b')" by fastforce
  from push3_rep [OF rep m refl refl refl _ room(2) p] room obtain b where b: "b' = Some b" "min_size b = min_size ?b"
    "rc' = 0 \<or> buffer_rep b [] \<and> free_space b < 12 + int (length m)" by auto
  have "rc' = 0"
  proof (rule ccontr)
    assume "rc' \<noteq> 0"
    then have e: "buffer_rep b []" "free_space b < 12 + int (length m)" using b(3) by auto
    then have "free_space b = int (bsize b)" by (auto simp: buffer_rep_def free_space_def ring_used_def)
    moreover have "min_size b \<le> bsize b + 12" using e(1) by (auto simp: buffer_rep_def sizes_ok_def)
    ultimately show False using e(2) b(2) fits by (simp add: fits_def)
  qed
  then show ?thesis using r unfolding dlt_user_log_out_error_handling_def Let_def p b(1)
    by (auto simp: dlt_buffer_check_size_def split: option.splits if_splits)
qed

text \<open>A message of an application that is not registered yet goes to the startup buffer, although the pipe is open.\<close>

lemma send_log_unregistered:
  assumes lib: "library_ok env (with_appid a s)" and none: "u_appID (s_user s) ! 0 = 0" and ok: "app_ok env s []"
    and u: "0 \<le> u_log_handle (s_user s)" "u_overflow_counter (s_user s) = 0"
    and m: "message_ok (s_user s) h l" "mtype = DLT_TYPE_LOG \<or> mtype = DLT_TYPE_NW_TRACE"
    and new: "new = user_header 1 @ log_frame env s h l mtype" "fits s new"
    and r: "dlt_user_log_send_log env s (Some l) mtype = (rc, s1, log1)"
  shows "rc = 0 \<and> (\<exists>b. s1 = set_buffer b s \<and> app_ok env s1 [new])"
proof -
  obtain hdr where hdr: "hdr @ logged l = log_frame env s h l mtype"
    "dlt_user_log_send_log env s (Some l) mtype = (case send_to_daemon env s hdr (logged l) of
       (rc, s') \<Rightarrow> (rc, s', Some (l\<lparr>l_handle := Some (h\<lparr>c_mcnt := c_mcnt h + 1\<rparr>)\<rparr>)))"
    using send_log_eq [OF lib m] by blast
  then have d: "send_to_daemon env s hdr (logged l) = (rc, s1)" using r by (auto split: prod.splits)
  have s0: "report_overflow env (dlt_user_log_reattach_to_daemon env s) = s"
    using u by (simp add: report_overflow_def dlt_user_log_reattach_to_daemon_def)
  obtain r4 s4 where e: "dlt_user_log_out_error_handling env s (Some (user_header 1)) (Some hdr) (Some (logged l)) = (r4, s4)" by fastforce
  have n: "new = arg_bytes (Some (user_header 1)) @ arg_bytes (Some hdr) @ arg_bytes (Some (logged l))"
    using new(1) hdr(1) by (simp add: arg_bytes_def)
  obtain b where b: "s4 = set_buffer b s" "app_ok env s4 [new]" "r4 = 0 \<or> r4 = - 1"
    using error_handling_stores [OF ok n _ _ e] error_handling_empty [OF ok n new(2) e] new(2) by (auto simp: fits_def)
  have "u_log_handle (s_user s) \<noteq> - 1" using u(1) by simp
  then have "send_to_daemon env s hdr (logged l) = (0, s4)"
    using b(3) unfolding send_to_daemon_def s0 Let_def by (elim disjE) (simp_all add: none e)
  then show ?thesis using d b by auto
qed

lemma damaged_frame:
  assumes "\<not> u_with_ecu_id (s_user s)" "\<not> u_with_session_id (s_user s)" "\<not> u_with_timestamp (s_user s)"
    and "\<not> is_verbose_mode (s_user s) (Some l)" "\<not> u_extended_non_verbose (s_user s)"
    and "logged l = pre @ b @ post" "length pre = 14" "length b = 4" "b ! 0 = 0"
  shows "add_application_id appid (user_header 1 @ log_frame env s h l mtype) =
    user_header 1 @ take 4 (log_frame env s h l mtype) @ pre @ set_id appid @ post"
proof -
  let ?a = "user_header 1 @ [log_htyp (s_user s) l, c_mcnt h] @ be_bytes 2 (4 + int (length (logged l)))"
  have x: "log_extra env s h l mtype = []" using assms(1-5) by (simp add: log_extra_def Let_def)
  have f: "user_header 1 @ log_frame env s h l mtype = (?a @ pre) @ b @ post"
    using assms(6) by (simp add: log_frame_def dlt_frame_def x)
  have a: "length (?a @ pre) = 26" using assms(7) by (simp add: user_header_def dlt_user_set_userheader_def)
  have t: "user_header 1 @ take 4 (log_frame env s h l mtype) = ?a" by (simp add: log_frame_def dlt_frame_def x)
  show ?thesis unfolding add_id_to_log unfolding f
    using fill_apid_at [OF a assms(8)] assms(9) t by simp
qed

section \<open>Limits of the resend buffer\<close>

lemma stored_registration:
  assumes ok: "app_ok env s []" and u: "u_is_daemon (s_user s)" "u_log_handle (s_user s) < 0"
    and l: "l_handle l = Some h" "c_contextID h ! 0 \<noteq> 0"
    and d: "d = description_bytes (l_description l)" "length d + 54 \<le> min_size (u_startup_buffer (s_user s))" "length d < 2 ^ 30"
    and r: "dlt_user_log_send_register_context env s (Some l) = (rc, s1)" "rc \<noteq> - 4"
  shows "\<exists>b. s1 = set_buffer b s \<and> app_ok env s1 [user_header 4 @ register_context_bytes env (s_user s) h l @ d]"
proof -
  let ?x3 = "map_option (\<lambda>_. d) (l_description l)"
  have x3: "arg_bytes ?x3 = d" using d(1) by (cases "l_description l") (simp_all add: description_bytes_def arg_bytes_def)
  have e: "dlt_user_log_out_error_handling env s (Some (user_header 4)) (Some (register_context_bytes env (s_user s) h l)) ?x3 = (rc, s1)"
    using r(1) l u d(1) by (simp add: dlt_user_log_send_register_context_def dlt_user_log_out3_def Let_def split: if_splits)
  show ?thesis
    using error_handling_stores [OF ok _ _ _ e, of "user_header 4 @ register_context_bytes env (s_user s) h l @ d"] r(2) d(2,3) x3
    by (auto simp: arg_bytes_def register_context_bytes_def user_header_def dlt_user_set_userheader_def)
qed

lemma sendable_registration: "sendable (user_header 4 @ register_context_bytes env u h l @ d)"
  by (simp add: sendable_def user_header_def dlt_user_set_userheader_def register_context_bytes_def memget_def le_val_def le_bytes_def)

lemma resend_single:
  assumes ok: "app_ok env s [m]" and m: "sendable m" and acc: "accepts env"
    and u: "u_log_buf_len (s_user s) \<noteq> 0" "u_appID (s_user s) ! 0 \<noteq> 0" "0 \<le> u_log_handle (s_user s)"
  shows "\<exists>s'. dlt_user_log_resend_buffer env s = (0, s') \<and> length (s_resend s') = max (length (s_resend s)) (length m)"
proof -
  have n: "nat (dlt_buffer_get_message_count (Some (u_startup_buffer (s_user s)))) = Suc 0"
    using ok message_count_rep by (auto simp: app_ok_def)
  obtain s1 where r: "resend_one env s = (None, s1)"
    using resend_one_accepted [OF ok acc u(1,3)] by (cases "resend_one env s") auto
  have "dlt_user_log_resend_buffer env s = (0, s1)" using u(2) n r by (simp add: dlt_user_log_resend_buffer_def)
  with resend_one_cases [OF ok m accepts_ok [OF acc] u(1) r] show ?thesis by blast
qed

section \<open>What the daemon makes of it\<close>

lemma takeWhile_nonzero: "c_string (c_string t) = c_string t"
  by (simp add: c_string_def)

lemma description_string [simp]: "c_string (description_bytes d) = description_bytes d"
  by (cases d) (simp_all add: description_bytes_def takeWhile_nonzero, simp add: c_string_def)

lemma id4_chars:
  "a \<noteq> 0 \<Longrightarrow> id4 [a, 0, 0, 0] = [a, 0, 0, 0]" "a \<noteq> 0 \<Longrightarrow> b \<noteq> 0 \<Longrightarrow> id4 [a, b, 0, 0] = [a, b, 0, 0]"
  "a \<noteq> 0 \<Longrightarrow> b \<noteq> 0 \<Longrightarrow> c \<noteq> 0 \<Longrightarrow> id4 [a, b, c, e] = [a, b, c, e]"
  by (simp_all add: id4_def Let_def eval_nat_numeral)

lemma set_id_valid_id: "t ! 0 \<noteq> 0 \<Longrightarrow> valid_id (set_id t)"
  using id4_chars by (simp add: valid_id_def set_id_eq)

lemma registration_reaches:
  assumes s: "u_is_daemon (s_user s)" "u_appID (s_user s) ! 0 \<noteq> 0" "0 \<le> u_log_handle (s_user s)" "accepts env"
    and len: "length (description_bytes (u_description (s_user s))) \<le> 256" and pid: "0 \<le> ae_pid env" "ae_pid env < 2 ^ 31"
    and d: "tables_ok d" "table_env_ok (tables uenv)" "first_alloc (tables uenv)" "grow_alloc (tables uenv)" "desc_alloc (tables uenv)"
      "dlt_daemon_find_users_list d (own_ecuid d) = Some u" "rcv_ok (mem, r)"
    and w: "waiting_bytes (mem, r) = application_registration env (s_user s) @ rest"
  shows "dlt_user_log_send_register_application env s =
      (0, write_all (u_log_handle (s_user s)) [application_registration env (s_user s)] s) \<and>
    (\<exists>d' r' ev i. dlt_daemon_process_user_message_register_application uenv mem d r = (0, d', r', ev) \<and> tables_ok d' \<and>
      waiting_bytes (mem, r') = rest \<and> dlt_daemon_application_find d' (set_id (u_appID (s_user s))) (own_ecuid d) = Some i \<and>
      a_pid (applications (user_list d' ! u) ! i) = ae_pid env \<and>
      a_description (applications (user_list d' ! u) ! i) = Some (description_bytes (u_description (s_user s))))"
proof -
  let ?d = "description_bytes (u_description (s_user s))"
  have "waiting_bytes (mem, r) = user_header 2 @ set_id (u_appID (s_user s)) @ le_bytes 4 (ae_pid env) @ le_bytes 4 (int (length ?d)) @ ?d @ rest"
    by (simp add: w application_registration_def)
  note n = register_application_spec [OF d this _ _ len set_id_valid_id [OF s(2)]]
  have p: "i32 (le_val (le_bytes 4 (ae_pid env))) = ae_pid env" using pid by (simp add: le_val_le_bytes i32_id)
  have h: "length (user_header 2) = 8" by (simp add: user_header_def dlt_user_set_userheader_def)
  from n [OF h] application_registration_accepted [OF s(4,1-3)] len p show ?thesis by auto
qed

section \<open>From the arguments to the text\<close>

lemma log_msin_verbose: "is_verbose_mode u (Some l) \<Longrightarrow> DLT_IS_MSIN_VERB (log_msin u l mtype)"
  by (simp add: log_msin_def DLT_IS_MSIN_VERB_def bit.conj_disj_distrib2)

lemma log_htyp_little: "log_htyp u l AND DLT_HTYP_MSBF = 0"
  by (simp add: log_htyp_def DLT_HTYP_MSBF_def)

lemma write_finish_frame:
  assumes lib: "library_ok env s" "app_ok env s []" "accepts env" "0 \<le> u_log_handle (s_user s)" "u_overflow_counter (s_user s) = 0"
    and l: "log_ok (s_user s) l" "is_verbose_mode (s_user s) (Some l)" "logged l = []" "l_args_num l = 0"
      "l_handle l = Some h" "c_contextID h ! 0 \<noteq> 0"
    and args: "\<forall>a \<in> set args. arg_ok a" "length args < 256" "write_args (s_user s) (Some l) args = (0, Some l')" "length (logged l') + 26 < 65536"
    and rd: "reader_ok alloc m" "float_ok floats" "length (spaced (map (arg_text floats) args)) + 2 \<le> n" "n \<le> length t" "n < 2 ^ 31"
  shows "\<exists>s' log' m' t'. dlt_user_log_write_finish env s (Some l') = (0, s', log') \<and>
    s_events s' = s_events s @ [Wrote (u_log_handle (s_user s)) (user_header 1 @ log_frame env s h l' 0)] \<and> message_ok (s_user s) h l' \<and>
    dlt_message_read alloc (Some m) (Some (log_frame env s h l' 0)) (length (log_frame env s h l' 0)) False = (0, Some m') \<and>
    msg_apid m' = set_id (u_appID (s_user s)) \<and> msg_ctid m' = set_id (c_contextID h) \<and>
    dlt_message_payload floats False (Some m') (Some t) n 2 = (0, Some t') \<and> c_string t' = spaced (map (arg_text floats) args)"
proof -
  have init: "u_initialised (s_user s)" using lib(1) by (simp add: library_ok_def)
  have x: "log_ok (s_user s) l'" "same_message l l'" "l_args_num l' = int (length args)"
    using write_args_bytes [OF l(1) init args(1,3)] l(4) args(2) by (auto simp: extends_def)
  have m: "message_ok (s_user s) h l'" using x l args(4) by (simp add: message_ok_def same_message_def)
  have v: "is_verbose_mode (s_user s) (Some l')" using x(2) l(2) by (simp add: is_verbose_mode_def same_message_def)
  let ?f = "log_frame env s h l' 0"
  obtain s' log' where s': "dlt_user_log_send_log env s (Some l') 0 = (0, s', log')"
    "s_events s' = s_events s @ [Wrote (u_log_handle (s_user s)) (user_header 1 @ ?f)]"
    using send_log_accepted [OF lib(1,2) _ lib(3) m _ lib(4,5), of 0] by (auto simp: sent_def)
  obtain m' where m': "dlt_message_read alloc (Some m) (Some ?f) (length ?f) False = (0, Some m')"
    "msg_htyp m' = log_htyp (s_user s) l'" "DLT_IS_HTYP_UEH (msg_htyp m')" "datasize m' = int (length (logged l'))"
    "databuffer m' = Some (logged l')" "msg_msin m' = log_msin (s_user s) l' 0" "msg_noar m' = unat (word_of_int (l_args_num l') :: byte)"
    "msg_apid m' = set_id (u_appID (s_user s))" "msg_ctid m' = set_id (c_contextID h)"
    using read_log_frame [OF m v rd(1)] by blast
  have "int (msg_noar m') = l_args_num l'" using m'(7) x(3) args(2) by (simp add: unsigned_of_nat unsigned_of_int take_bit_eq_mod)
  moreover have "\<not> DLT_MSG_IS_NONVERBOSE m'" using m'(3,6) log_msin_verbose [OF v] by (simp add: DLT_MSG_IS_NONVERBOSE_def)
  moreover have "msg_htyp m' AND DLT_HTYP_MSBF = 0" using m'(2) log_htyp_little by simp
  ultimately obtain t' where "dlt_message_payload floats False (Some m') (Some t) n 2 = (0, Some t')"
    "c_string t' = spaced (map (arg_text floats) args)"
    using log_args_printed [OF l(1) init l(2-4) args(1-3) m'(5,4) _ _ _ rd(2-5)] by blast
  with s' m'(1,8,9) m show ?thesis by (auto simp: dlt_user_log_write_finish_def)
qed

section \<open>Properties\<close>

definition example_queue :: "byte list list \<Rightarrow> DltBuffer" where
  "example_queue ms =
     (let d = concat (map (\<lambda>m. block_head [0, 0, 0] (int (length m)) @ m) ms)
      in \<lparr>shm = Some \<lparr>hwrite = int (length d), hread = 0, hcount = int (length ms), data = d @ replicate (100 - length d) 0\<rparr>,
          bsize = 100, min_size = 112, max_size = 200, step_size = 50\<rparr>)"

definition example_pending :: "byte list" where
  "example_pending = [0x44, 0x55, 0x48, 1, 3, 0, 0, 0, 9]"

definition example_app_env :: "(app_event list \<Rightarrow> int \<Rightarrow> byte list \<Rightarrow> int \<times> int) \<Rightarrow> app_env" where
  "example_app_env wr = \<lparr>ae_alloc = example_alloc, ae_pad = [0, 0, 0], ae_pid = 7, ae_uptime = (\<lambda>_. 1), ae_time = (\<lambda>_. (2, 3)),
     ae_writev = wr, ae_open = (\<lambda>_. 5), ae_init = (\<lambda>u. (0, u)), ae_print = (\<lambda>_ _. None), ae_malloc = True,
     ae_msg = example_log_msg\<lparr>databuffer := None\<rparr>, ae_context = the (l_handle example_log), ae_log = example_log\<rparr>"

definition example_client :: "byte list list \<Rightarrow> app_state" where
  "example_client ms = \<lparr>s_user = example_user\<lparr>u_startup_buffer := example_queue ms, u_contexts := Some [([0x43, 0], Some [0x78, 0])]\<rparr>,
     s_resend = replicate 40 0, s_events = []\<rparr>"

abbreviation (input) takes_all :: "app_event list \<Rightarrow> int \<Rightarrow> byte list \<Rightarrow> int \<times> int" where
  "takes_all \<equiv> \<lambda>_ _ bs. (int (length bs), 0)"

text \<open>The second write finds the pipe full.\<close>

abbreviation (input) takes_one :: "app_event list \<Rightarrow> int \<Rightarrow> byte list \<Rightarrow> int \<times> int" where
  "takes_one \<equiv> \<lambda>ev _ bs. if ev = [] then (int (length bs), 0) else (- 1, EAGAIN)"

lemma example_queue_rep: "buffer_rep (example_queue []) []" "buffer_rep (example_queue [example_pending]) [example_pending]"
proof -
  show "buffer_rep (example_queue []) []"
    by (simp add: buffer_rep_def example_queue_def sizes_ok_def area_ok_def contents_def ring_used_def)
  have "is_frame (block_head [0, 0, 0] 9 @ example_pending) example_pending"
    unfolding is_frame_def by (intro exI [of _ "[0, 0, 0]"]) (simp add: example_pending_def)
  then show "buffer_rep (example_queue [example_pending]) [example_pending]"
    unfolding buffer_rep_def
    by (intro conjI exI [of _ "the (shm (example_queue [example_pending]))"] exI [of _ "[block_head [0, 0, 0] 9 @ example_pending]"])
       (simp_all add: example_pending_def example_queue_def sizes_ok_def area_ok_def contents_def ring_used_def ring_def block_head_def DLT_BUFFER_HEAD_def le_bytes_def)
qed

lemma example_client_ok: "app_ok (example_app_env wr) (example_client []) []" "app_ok (example_app_env wr) (example_client [example_pending]) [example_pending]"
  "library_ok (example_app_env wr) (example_client ms)" "sendable example_pending" "accepts (example_app_env takes_all)"
  "writev_ok (example_app_env takes_one)"
  using example_queue_rep example_alloc_ok
  by (simp_all add: app_ok_def example_client_def example_app_env_def library_ok_def example_user_def example_log_msg_def sendable_def
      example_pending_def memget_def le_val_def accepts_def writev_ok_def)

lemma example_message_ok: "message_ok (s_user (example_client ms)) (the (l_handle example_log)) example_written"
  "length (logged example_written) = 15"
  by (simp_all add: message_ok_def log_ok_def example_client_def example_user_def example_log_def example_written_def logged_def)

lemma example_client_user: "u_log_handle (s_user (example_client ms)) = 5" "u_overflow_counter (s_user (example_client ms)) = 0"
  "u_log_buf_len (s_user (example_client ms)) = 60" "u_appID (s_user (example_client ms)) = [0x41, 0, 0, 0]"
  "u_contexts (s_user (example_client ms)) = Some [([0x43, 0], Some [0x78, 0])]" "u_description (s_user (example_client ms)) = None"
  "min_size (u_startup_buffer (s_user (example_client ms))) = 112" "s_resend (example_client ms) = replicate 40 0"
  "u_initialised (s_user (example_client ms))" "u_is_daemon (s_user (example_client ms))" "s_events (example_client ms) = []"
  by (simp_all add: example_client_def example_user_def example_queue_def Let_def)

text \<open>
  C2. Refinement of the way a log message takes to the pipe by a queue. Whatever the pipe accepts, the stored messages
  are written before the new one, in their order; when a write fails, the messages in front of it were
  written completely, the others and the new message are in the startup buffer in the
  same order, and only a full startup buffer loses the new one, which is counted and reported. Of a
  message whose write failed a part may have been written.
\<close>

theorem send_log_is_fifo:
  assumes "library_ok env s" "message_ok (s_user s) h l" "mtype = DLT_TYPE_LOG \<or> mtype = DLT_TYPE_NW_TRACE"
    and "app_ok env s ms" "\<forall>m \<in> set ms. sendable m" "writev_ok env"
    and "0 \<le> u_log_handle (s_user s)" "u_overflow_counter (s_user s) = 0"
    and "new = user_header DLT_USER_MESSAGE_LOG @ log_frame env s h l mtype" "fits s new"
    and "dlt_user_log_send_log env s (Some l) mtype = (rc, s', log')"
  shows "\<exists>k ev. k \<le> length ms \<and>
    sent s (u_log_handle (s_user s)) (map (add_application_id (u_appID (s_user s))) (take k ms)) ev s' \<and>
    (k = length ms \<and> ev = [Wrote (u_log_handle (s_user s)) new] \<and> rc = DLT_RETURN_OK \<and> app_ok env s' [] \<or>
     failed_write (u_log_handle (s_user s)) ((map (add_application_id (u_appID (s_user s))) ms @ [new]) ! k) ev \<and>
       (rc \<noteq> DLT_RETURN_BUFFER_FULL \<and> app_ok env s' (drop k ms @ [new]) \<and> u_overflow_counter (s_user s') = 0 \<or>
        rc = DLT_RETURN_BUFFER_FULL \<and> app_ok env s' (drop k ms) \<and> u_overflow_counter (s_user s') = 1))"
proof -
  obtain hdr where hdr: "hdr @ logged l = log_frame env s h l mtype"
    "dlt_user_log_send_log env s (Some l) mtype = (case send_to_daemon env s hdr (logged l) of
       (rc, s') \<Rightarrow> (rc, s', Some (l\<lparr>l_handle := Some (h\<lparr>c_mcnt := c_mcnt h + 1\<rparr>)\<rparr>)))"
    using send_log_eq_known [OF assms(1-3)] by blast
  have r: "send_to_daemon env s hdr (logged l) = (rc, s')" using hdr(2) assms(11) by (auto split: prod.splits)
  have new: "new = user_header 1 @ hdr @ logged l" using hdr(1) assms(9) by simp
  show ?thesis
    using send_to_daemon_fifo [OF assms(4-6) _ _ assms(7,8) new assms(10) r] assms(1) by (simp add: library_ok_def)
qed

theorem send_log_is_fifo_witness:
  "\<exists>k ev s' rc log'. dlt_user_log_send_log (example_app_env takes_one) (example_client [example_pending]) (Some example_written) 0 = (rc, s', log') \<and>
    k \<le> 1 \<and> sent (example_client [example_pending]) 5 (map (add_application_id [0x41, 0, 0, 0]) (take k [example_pending])) ev s'"
proof -
  let ?s = "example_client [example_pending]" let ?e = "example_app_env takes_one"
  obtain rc s' log' where r: "dlt_user_log_send_log ?e ?s (Some example_written) 0 = (rc, s', log')" by (metis prod_cases3)
  have f: "fits ?s (user_header 1 @ log_frame ?e ?s (the (l_handle example_log)) example_written 0)"
    using extra_len_le [of "log_htyp (s_user ?s) example_written"]
    by (simp add: fits_def log_frame_def length_log_extra example_client_user user_header_def dlt_user_set_userheader_def example_message_ok(2))
  show ?thesis
    using send_log_is_fifo [OF example_client_ok(3) example_message_ok(1) _ example_client_ok(2) _ example_client_ok(6) _ _ refl f r] r example_client_ok(4)
    by (fastforce simp: example_client_user)
qed

text \<open>
  C9. A library that is not connected catches up as soon as the pipe can be opened and takes what is written: the
  next attempt announces the application and every registered context, in the order of the table, and then
  writes all stored messages in their order; afterwards nothing is stored. At least one context must be
  registered, without one the stored messages stay where they are.
\<close>

theorem reattach_delivers:
  assumes "u_log_handle (s_user s) < 0" "ae_open env (s_events s) = f" "0 \<le> f"
    and "u_initialised (s_user s)" "u_is_daemon (s_user s)" "u_appID (s_user s) ! 0 \<noteq> 0" "u_log_buf_len (s_user s) \<noteq> 0"
    and "accepts env" "app_ok env s ms" "\<forall>m \<in> set ms. sendable m"
    and "u_contexts (s_user s) = Some cs" "\<exists>c \<in> set cs. fst c ! 0 \<noteq> 0" "length (c_contextID (ae_context env)) = 4"
    and "\<forall>c \<in> set cs. length (description_bytes (snd c)) < 65536" "length (description_bytes (u_description (s_user s))) < 65536"
  shows "app_ok env (dlt_user_log_reattach_to_daemon env s) [] \<and>
    u_log_handle (s_user (dlt_user_log_reattach_to_daemon env s)) = f \<and>
    s_events (dlt_user_log_reattach_to_daemon env s) = s_events s @ Opened f # map (Wrote f)
      (application_registration env (s_user s) # registrations env (u_appID (s_user s)) 0 cs @
       map (add_application_id (u_appID (s_user s))) ms)"
  using assms by (rule reattach_accepted)

theorem reattach_delivers_witness:
  "s_events (dlt_user_log_reattach_to_daemon (example_app_env takes_all) (set_handle (- 1) (example_client [example_pending]))) =
    [Opened 5, Wrote 5 ([0x44, 0x55, 0x48, 1, 2, 0, 0, 0, 0x41, 0, 0, 0, 7, 0, 0, 0, 0, 0, 0, 0]),
     Wrote 5 ([0x44, 0x55, 0x48, 1, 4, 0, 0, 0, 0x41, 0, 0, 0, 0x43, 0, 0, 0, 0, 0, 0, 0, 0xFE, 0xFE, 7, 0, 0, 0, 1, 0, 0, 0, 0x78]),
     Wrote 5 example_pending]"
proof -
  let ?e = "example_app_env takes_all" let ?s = "set_handle (- 1) (example_client [example_pending])"
  have a: "app_ok ?e ?s [example_pending]" using example_client_ok(2) by (simp add: app_ok_def)
  have e: "ae_open ?e (s_events ?s) = 5" "length (c_contextID (ae_context ?e)) = 4"
    by (simp_all add: example_app_env_def example_log_def)
  have b: "application_registration ?e (s_user ?s) = [0x44, 0x55, 0x48, 1, 2, 0, 0, 0, 0x41, 0, 0, 0, 7, 0, 0, 0, 0, 0, 0, 0]"
    "registrations ?e (u_appID (s_user ?s)) 0 [([0x43, 0], Some [0x78, 0])] =
      [[0x44, 0x55, 0x48, 1, 4, 0, 0, 0, 0x41, 0, 0, 0, 0x43, 0, 0, 0, 0, 0, 0, 0, 0xFE, 0xFE, 7, 0, 0, 0, 1, 0, 0, 0, 0x78]]"
    "map (add_application_id (u_appID (s_user ?s))) [example_pending] = [example_pending]"
    by code_simp+
  have u: "u_log_handle (s_user ?s) < 0" "u_initialised (s_user ?s)" "u_is_daemon (s_user ?s)" "u_appID (s_user ?s) ! 0 \<noteq> 0"
    "u_log_buf_len (s_user ?s) \<noteq> 0" "u_contexts (s_user ?s) = Some [([0x43, 0], Some [0x78, 0])]"
    "length (description_bytes (u_description (s_user ?s))) < 65536" "s_events ?s = []"
    by (simp_all add: example_client_user description_bytes_def)
  show ?thesis
    using reattach_delivers [OF u(1) e(1) _ u(2-5) example_client_ok(5) a _ u(6) _ e(2) _ u(7)] example_client_ok(4)
    unfolding b u(8) by (simp add: description_bytes_def c_string_def)
qed

text \<open>
  C12. The registration of an application reaches the tables of the daemon. What
  \<open>dlt_user_log_send_register_application\<close> writes, followed by anything, makes
  \<open>dlt_daemon_process_user_message_register_application\<close> enter the application under its four-character
  identifier, with the process and the description of the sender, and leaves the rest in the receiver.
\<close>

theorem application_registration_reaches_daemon:
  assumes "u_is_daemon (s_user s)" "u_appID (s_user s) ! 0 \<noteq> 0" "0 \<le> u_log_handle (s_user s)" "accepts env"
    and "length (description_bytes (u_description (s_user s))) \<le> 256" "0 \<le> ae_pid env" "ae_pid env < 2 ^ 31"
    and "tables_ok d" "table_env_ok (tables uenv)" "first_alloc (tables uenv)" "grow_alloc (tables uenv)" "desc_alloc (tables uenv)"
    and "dlt_daemon_find_users_list d (own_ecuid d) = Some u" "rcv_ok (mem, r)"
    and "waiting_bytes (mem, r) = application_registration env (s_user s) @ rest"
  shows "dlt_user_log_send_register_application env s =
      (DLT_RETURN_OK, write_all (u_log_handle (s_user s)) [application_registration env (s_user s)] s) \<and>
    (\<exists>d' r' ev i. dlt_daemon_process_user_message_register_application uenv mem d r = (0, d', r', ev) \<and> tables_ok d' \<and>
      waiting_bytes (mem, r') = rest \<and> dlt_daemon_application_find d' (set_id (u_appID (s_user s))) (own_ecuid d) = Some i \<and>
      a_pid (applications (user_list d' ! u) ! i) = ae_pid env \<and>
      a_description (applications (user_list d' ! u) ! i) = Some (description_bytes (u_description (s_user s))))"
  using assms by (rule registration_reaches)

theorem application_registration_reaches_daemon_witness:
  "\<exists>d' r' ev i. dlt_daemon_process_user_message_register_application example_user_env
      (\<lambda>_. application_registration (example_app_env takes_all) (s_user (example_client [])) @ [1, 2]) example_daemon
      (message_receiver (application_registration (example_app_env takes_all) (s_user (example_client [])) @ [1, 2])) = (0, d', r', ev) \<and>
    dlt_daemon_application_find d' [0x41, 0, 0, 0] (own_ecuid example_daemon) = Some i"
proof -
  let ?b = "application_registration (example_app_env takes_all) (s_user (example_client [])) @ [1, 2]"
  have "length ?b < 1000"
    by (simp add: application_registration_def example_client_user description_bytes_def user_header_def dlt_user_set_userheader_def)
  moreover have "table_env_ok (tables example_user_env)" "first_alloc (tables example_user_env)" "grow_alloc (tables example_user_env)" "desc_alloc (tables example_user_env)"
    using example_tables_ok(1) by (simp_all add: example_user_env_def example_table_env_def)
  ultimately show ?thesis
    using application_registration_reaches_daemon [OF _ _ _ example_client_ok(5) _ _ _ example_tables_ok(2) _ _ _ _ example_daemon2_ok(3) message_receiver_ok(1) [of ?b],
        of "example_client []" example_user_env "[1, 2]"]
      message_receiver_ok(2) [of ?b]
    by (fastforce simp: example_client_user description_bytes_def example_app_env_def set_id_eq)
qed

text \<open>
  C29. The memory for resending is as long as a log message may be, but \<open>dlt_buffer_copy\<close> does not look
  at that limit. A registration of a context that was stored while the library was not connected is
  copied with its whole description: resending it touches 30 bytes and the description, however long it is,
  and so writes behind the memory when that is shorter.
\<close>

theorem long_description_overflows_resend_memory:
  assumes "app_ok env s []" "u_is_daemon (s_user s)" "u_log_handle (s_user s) < 0" "u_appID (s_user s) ! 0 \<noteq> 0"
    and "u_log_buf_len (s_user s) \<noteq> 0" "l_handle l = Some h" "c_contextID h ! 0 \<noteq> 0"
    and "length (description_bytes (l_description l)) + 54 \<le> min_size (u_startup_buffer (s_user s))"
    and "length (description_bytes (l_description l)) < 2 ^ 30"
    and "dlt_user_log_send_register_context env s (Some l) = (rc, s1)" "rc \<noteq> DLT_RETURN_BUFFER_FULL" "accepts env" "0 \<le> f"
  shows "\<exists>s2. dlt_user_log_resend_buffer env (set_handle f s1) = (DLT_RETURN_OK, s2) \<and>
    length (s_resend s2) = max (length (s_resend s)) (30 + length (description_bytes (l_description l)))"
proof -
  obtain b where b: "s1 = set_buffer b s"
    "app_ok env s1 [user_header 4 @ register_context_bytes env (s_user s) h l @ description_bytes (l_description l)]"
    using stored_registration [OF assms(1-3,6,7) refl assms(8-11)] by blast
  have "app_ok env (set_handle f s1) [user_header 4 @ register_context_bytes env (s_user s) h l @ description_bytes (l_description l)]"
    using b(2) by (simp add: app_ok_def)
  from resend_single [OF this sendable_registration assms(12)] b(1) assms(4,5,13) show ?thesis
    by (simp add: register_context_bytes_def user_header_def dlt_user_set_userheader_def)
qed

theorem long_description_overflows_resend_memory_witness:
  "\<exists>rc s1 s2. dlt_user_log_send_register_context (example_app_env takes_all) (set_handle (- 1) (example_client []))
      (Some (example_log\<lparr>l_description := Some (replicate 20 0x78)\<rparr>)) = (rc, s1) \<and>
    dlt_user_log_resend_buffer (example_app_env takes_all) (set_handle 5 s1) = (0, s2) \<and> length (s_resend s2) = 50 \<and>
    length (s_resend (example_client [])) = 40"
proof -
  let ?e = "example_app_env takes_all" let ?s = "set_handle (- 1) (example_client [])"
  let ?l = "example_log\<lparr>l_description := Some (replicate 20 0x78)\<rparr>"
  have a: "app_ok ?e ?s []" using example_client_ok(1) by (simp add: app_ok_def)
  have d: "length (description_bytes (l_description ?l)) = 20" by (simp add: description_bytes_def c_string_def)
  obtain rc s1 where r: "dlt_user_log_send_register_context ?e ?s (Some ?l) = (rc, s1)" by fastforce
  have "fst (dlt_user_log_send_register_context ?e ?s (Some ?l)) \<noteq> - 4"
    using d by (simp add: example_app_env_def example_log_def example_client_def example_user_def example_queue_def
        dlt_user_log_send_register_context_def dlt_user_log_out3_def dlt_user_log_out_error_handling_def dlt_buffer_check_size_def
        dlt_buffer_push3_def push3_loop.simps push3_free_size_def Let_def register_context_bytes_def user_header_def
        dlt_user_set_userheader_def arg_bytes_def i32_id u32_def split: prod.splits)
  then have "rc \<noteq> - 4" using r by simp
  have u: "u_is_daemon (s_user ?s)" "u_log_handle (s_user ?s) < 0" "u_appID (s_user ?s) ! 0 \<noteq> 0" "u_log_buf_len (s_user ?s) \<noteq> 0"
    "length (description_bytes (l_description ?l)) + 54 \<le> min_size (u_startup_buffer (s_user ?s))"
    "length (description_bytes (l_description ?l)) < 2 ^ 30" "length (s_resend ?s) = 40"
    unfolding d by (simp_all add: example_client_user)
  have c: "l_handle ?l = l_handle example_log" "l_handle example_log = Some (the (l_handle example_log))"
    "c_contextID (the (l_handle example_log)) ! 0 \<noteq> 0" by (simp_all add: example_log_def)
  obtain s2 where "dlt_user_log_resend_buffer ?e (set_handle 5 s1) = (0, s2)" "length (s_resend s2) = 50"
    using long_description_overflows_resend_memory [OF a u(1-4) trans [OF c(1,2)] c(3) u(5,6) r \<open>rc \<noteq> - 4\<close> example_client_ok(5), of 5]
    unfolding d u(7) by auto
  with r show ?thesis by (intro exI conjI) (assumption | simp add: example_client_user)+
qed

text \<open>
  C30. A log message that is written on the open pipe before the application registered is stored, and nothing is
  written. When the identifier is known, resending the startup buffer writes exactly what
  \<open>dlt_user_log_send_log\<close> of the registered application would have written: the frame with the
  identifier at its place and every other field, the message counter and the payload
  unchanged. This needs all optional parameters and the extended header, which the fixed place of the
  identifier assumes.
\<close>

theorem resend_completes_log_message:
  assumes "library_ok env (with_appid appid s)" "u_appID (s_user s) ! 0 = 0" "app_ok env s []" "accepts env"
    and "0 \<le> u_log_handle (s_user s)" "u_overflow_counter (s_user s) = 0"
    and "message_ok (s_user s) h l" "mtype = DLT_TYPE_LOG \<or> mtype = DLT_TYPE_NW_TRACE"
    and "u_with_ecu_id (s_user s)" "u_with_session_id (s_user s)" "u_with_timestamp (s_user s)"
    and "is_verbose_mode (s_user s) (Some l) \<or> u_extended_non_verbose (s_user s)"
    and "fits s (user_header DLT_USER_MESSAGE_LOG @ log_frame env s h l mtype)"
    and "dlt_user_log_send_log env s (Some l) mtype = (rc, s1, log1)"
  shows "rc = DLT_RETURN_OK \<and> s_events s1 = s_events s \<and>
    (\<exists>s2 s3 log3. dlt_user_log_resend_buffer env (with_appid appid s1) = (DLT_RETURN_OK, s2) \<and>
      dlt_user_log_send_log env (with_appid appid s) (Some l) mtype = (DLT_RETURN_OK, s3, log3) \<and>
      s_events s2 = s_events s3 \<and> app_ok env s2 [] \<and>
      s_events s3 = s_events s @ [Wrote (u_log_handle (s_user s)) (user_header DLT_USER_MESSAGE_LOG @ log_frame env (with_appid appid s) h l mtype)])"
proof -
  let ?new = "user_header 1 @ log_frame env s h l mtype" and ?t = "with_appid appid s"
  obtain b where rc: "rc = 0" and b: "s1 = set_buffer b s" "app_ok env s1 [?new]"
    using send_log_unregistered [OF assms(1-3,5-8) refl assms(13,14)] by blast
  have t: "app_ok env ?t []" "message_ok (s_user ?t) h l" "0 \<le> u_log_handle (s_user ?t)" "u_overflow_counter (s_user ?t) = 0"
    "s_events ?t = s_events s" "u_log_handle (s_user ?t) = u_log_handle (s_user s)"
    using assms(3,5-7) by (auto simp: with_appid_def app_ok_def message_ok_def log_ok_def)
  obtain s3 log3 where s3: "dlt_user_log_send_log env ?t (Some l) mtype = (0, s3, log3)"
    "s_events s3 = s_events s @ [Wrote (u_log_handle (s_user s)) (user_header 1 @ log_frame env ?t h l mtype)]"
    using send_log_accepted [OF assms(1) t(1) _ assms(4) t(2) assms(8) t(3,4)] t(5,6) by (auto simp: sent_def)
  have u: "app_ok env (with_appid appid s1) [?new]" "u_log_buf_len (s_user (with_appid appid s1)) \<noteq> 0" "u_appID (s_user (with_appid appid s1)) ! 0 \<noteq> 0"
    "0 \<le> u_log_handle (s_user (with_appid appid s1))" "u_log_handle (s_user (with_appid appid s1)) = u_log_handle (s_user s)"
    "u_appID (s_user (with_appid appid s1)) = appid" "s_events (with_appid appid s1) = s_events s" "s_events s1 = s_events s"
    using b assms(1,5) by (auto simp: with_appid_def app_ok_def library_ok_def set_buffer_def)
  have "extra_len (log_htyp (s_user s) l) \<ge> 18" using assms(9-12) by (simp add: extra_len_def DLT_STANDARD_HEADER_EXTRA_SIZE_def log_htyp_flags)
  then have "\<forall>m \<in> set [?new]. sendable m" using sendable_log [of 1 "log_frame env s h l mtype"] by (simp add: log_frame_def length_log_extra)
  from resend_accepted [OF u(1) this assms(4) u(2-4)] obtain s2 where s2: "dlt_user_log_resend_buffer env (with_appid appid s1) = (0, s2)"
    "app_ok env s2 []" "s_events s2 = s_events s @ [Wrote (u_log_handle (s_user s)) (add_application_id appid ?new)]"
    by (auto simp: sent_def u)
  show ?thesis using rc u(8) s2 s3 completed_frame [OF assms(9-12,2)] by auto
qed

theorem resend_completes_log_message_witness:
  "\<exists>rc s1 log1 s2. dlt_user_log_send_log (example_app_env takes_all) (with_appid [0, 0, 0, 0] (example_client [])) (Some example_written) 0 = (rc, s1, log1) \<and>
    s_events s1 = [] \<and> dlt_user_log_resend_buffer (example_app_env takes_all) (with_appid [0x42, 0, 0, 0] s1) = (0, s2) \<and>
    s_events s2 = [Wrote 5 (user_header 1 @ log_frame (example_app_env takes_all) (with_appid [0x42, 0, 0, 0] (example_client []))
      (the (l_handle example_log)) example_written 0)]"
proof -
  let ?e = "example_app_env takes_all" let ?s = "with_appid [0, 0, 0, 0] (example_client [])"
  have w: "with_appid [0x42, 0, 0, 0] ?s = with_appid [0x42, 0, 0, 0] (example_client [])" by (simp add: with_appid_def)
  have ok: "library_ok ?e (with_appid [0x42, 0, 0, 0] ?s)" "app_ok ?e ?s []" "message_ok (s_user ?s) (the (l_handle example_log)) example_written"
    using example_client_ok(1,3) example_message_ok(1) by (auto simp: with_appid_def library_ok_def app_ok_def message_ok_def log_ok_def)
  have u: "u_appID (s_user ?s) ! 0 = 0" "0 \<le> u_log_handle (s_user ?s)" "u_overflow_counter (s_user ?s) = 0" "u_with_ecu_id (s_user ?s)"
    "u_with_session_id (s_user ?s)" "u_with_timestamp (s_user ?s)" "u_extended_non_verbose (s_user ?s)"
    "u_log_handle (s_user ?s) = 5" "s_events ?s = []"
    by (simp_all add: with_appid_def example_client_def example_user_def)
  have f: "fits ?s (user_header 1 @ log_frame ?e ?s (the (l_handle example_log)) example_written 0)"
    using extra_len_le [of "log_htyp (s_user ?s) example_written"] example_message_ok(2)
    by (simp add: fits_def log_frame_def length_log_extra user_header_def dlt_user_set_userheader_def)
      (simp add: with_appid_def example_client_def example_queue_def Let_def)
  obtain rc s1 log1 where r: "dlt_user_log_send_log ?e ?s (Some example_written) 0 = (rc, s1, log1)" by (metis prod_cases3)
  from resend_completes_log_message [OF ok(1) u(1) ok(2) example_client_ok(5) u(2,3) ok(3) _ u(4-6) _ f r] u(7-9) r show ?thesis
    unfolding w by fastforce
qed

text \<open>
  The place of the identifier is fixed, though, as if all optional parameters were there. When they are switched
  off, resending overwrites four bytes of the payload: a message without optional parameters and without
  extended header that has a zero at byte 14 of its payload leaves with the application identifier there, even
  if the application was registered all along.
\<close>

theorem resend_overwrites_payload:
  assumes "\<not> u_with_ecu_id (s_user s)" "\<not> u_with_session_id (s_user s)" "\<not> u_with_timestamp (s_user s)"
    and "\<not> is_verbose_mode (s_user s) (Some l)" "\<not> u_extended_non_verbose (s_user s)"
    and "logged l = pre @ b @ post" "length pre = 14" "length b = 4" "b ! 0 = 0"
  shows "add_application_id appid (user_header DLT_USER_MESSAGE_LOG @ log_frame env s h l mtype) =
    user_header DLT_USER_MESSAGE_LOG @ take 4 (log_frame env s h l mtype) @ pre @ set_id appid @ post"
  using assms by (rule damaged_frame)

end
