(* ===== verification/Env_Levels.thy ===== *)
theory Env_Levels
  imports Dlt_Text
begin

text \<open>
  The log levels that \<open>DLT_INITIAL_LOG_LEVEL\<close> gives to an application, \<open>src/lib/dlt_env_ll.c\<close>: the
  parser of the variable, the growing set of its items and the search for the item that fits a
  context. The theory shows that a well-formed variable is read as it was written, that the search
  returns the level of the first best match, that whatever the variable is only levels between -1 and 6
  come out of it, and how malformed variables take effect although they are reported as errors.
\<close>

section \<open>Data\<close>

record dlt_env_ll_item =
  appId :: "byte list"
  ctxId :: "byte list"
  ll :: int

text \<open>\<open>items\<close> is the allocated array, whose length is \<open>array_size\<close> when it is not null.\<close>

record dlt_env_ll_set =
  items :: "dlt_env_ll_item list option"
  array_size :: nat
  num_elem :: nat

abbreviation (input) DLT_ENV_LL_SET_INCREASE :: nat where "DLT_ENV_LL_SET_INCREASE \<equiv> 10"

text \<open>
  A position in the variable is the text from there on, None for a null pointer. \<open>cur\<close> is the
  character at the position, the end of the list stands for the terminator.
\<close>

definition cur :: "byte list \<Rightarrow> byte" where
  "cur s = (case s of [] \<Rightarrow> 0 | c # _ \<Rightarrow> c)"

abbreviation (input) colon :: byte where "colon \<equiv> 0x3A"
abbreviation (input) semicolon :: byte where "semicolon \<equiv> 0x3B"

section \<open>The parser\<close>

fun id_loop :: "nat \<Rightarrow> byte list \<Rightarrow> byte list \<times> byte list" where
  "id_loop 0 s = ([], s)"
| "id_loop (Suc n) s =
     (if cur s \<noteq> colon \<and> cur s \<noteq> 0 then (case id_loop n (tl s) of (w, r) \<Rightarrow> (cur s # w, r)) else ([], s))"

definition dlt_env_extract_id ::
  "byte list option \<Rightarrow> byte list option \<Rightarrow> int \<times> byte list option \<times> byte list option" where
  "dlt_env_extract_id env ident =
     (case (env, ident) of
        (Some s, Some d) \<Rightarrow>
          (case id_loop 4 s of
             (w, r) \<Rightarrow> (if cur r \<noteq> 0 \<and> cur r = colon then 0 else - 1, Some r, Some (memput (memput d 0 [0, 0, 0, 0]) 0 w)))
      | _ \<Rightarrow> (- 1, env, ident))"

fun lower_loop :: "nat \<Rightarrow> byte list \<Rightarrow> byte list \<times> byte list" where
  "lower_loop 0 s = ([], s)"
| "lower_loop (Suc n) s =
     (if cur s \<noteq> 0 \<and> cur s \<noteq> semicolon then
        (case lower_loop n (tl s) of
           (w, r) \<Rightarrow> ((if 0x41 \<le> cur s \<and> cur s \<le> 0x5A then cur s + 0x20 else cur s) # w, r))
      else ([], s))"

definition dlt_env_helper_to_lower ::
  "byte list option \<Rightarrow> byte list option \<Rightarrow> int \<Rightarrow> int \<times> byte list option \<times> byte list option" where
  "dlt_env_helper_to_lower env result res_len =
     (case (env, result) of
        (Some s, Some d) \<Rightarrow>
          (case lower_loop (nat (res_len - 1)) s of
             (w, r) \<Rightarrow> (if cur r = 0 \<or> cur r = semicolon then 0 else - 1, Some r, Some (memput d 0 (w @ [0]))))
      | _ \<Rightarrow> (- 1, env, result))"

text \<open>The names in the order of the comparisons.\<close>

definition level_names :: "(byte list \<times> int) list" where
  "level_names = [(map of_char ''default'', - 1), (map of_char ''off'', 0), (map of_char ''fatal'', 1),
     (map of_char ''error'', 2), (map of_char ''warning'', 3), (map of_char ''info'', 4),
     (map of_char ''debug'', 5), (map of_char ''verbose'', 6)]"

text \<open>\<open>junk\<close> is the local buffer of eight characters before it is written.\<close>

definition dlt_env_extract_symbolic_ll ::
  "byte list \<Rightarrow> byte list option \<Rightarrow> int option \<Rightarrow> int \<times> byte list option \<times> int option" where
  "dlt_env_extract_symbolic_ll junk env l =
     (case (env, l) of
        (Some s, Some old) \<Rightarrow>
          (case dlt_env_helper_to_lower env (Some junk) 8 of
             (rc, env1, result) \<Rightarrow>
               if rc = 0 then
                 (case map_of level_names (c_string (the result)) of
                    None \<Rightarrow> (- 1, env1, l)
                  | Some v \<Rightarrow> (0, if cur (the env1) \<noteq> 0 then map_option tl env1 else env1, Some v))
               else (- 1, env1, l))
      | _ \<Rightarrow> (- 1, env, l))"

definition dlt_env_extract_ll ::
  "byte list \<Rightarrow> byte list option \<Rightarrow> int option \<Rightarrow> int \<times> byte list option \<times> int option" where
  "dlt_env_extract_ll junk env l =
     (case (env, l) of
        (Some s, Some old) \<Rightarrow>
          (let fin = (\<lambda>s' v. (if cur s' = semicolon \<or> cur s' = 0 then 0 else - 1, Some s', Some v))
           in if cur s = 0x2D then (if cur (tl s) = 0x31 then fin (tl (tl s)) (- 1) else fin (tl s) old)
              else if 0x30 \<le> cur s \<and> cur s < 0x37 then fin (tl s) (uint (cur s) - 0x30)
              else (case dlt_env_extract_symbolic_ll junk env l of
                      (rc, env1, l1) \<Rightarrow> if rc \<noteq> 0 then (- 1, env1, l1) else fin (the env1) (the l1)))
      | _ \<Rightarrow> (- 1, env, l))"

definition zero_item :: dlt_env_ll_item where
  "zero_item = \<lparr>appId = [0, 0, 0, 0], ctxId = [0, 0, 0, 0], ll = 0\<rparr>"

text \<open>The item is returned as it is left, also on an error.\<close>

definition dlt_env_extract_ll_item ::
  "byte list \<Rightarrow> byte list option \<Rightarrow> dlt_env_ll_item option \<Rightarrow> int \<times> byte list option \<times> dlt_env_ll_item option" where
  "dlt_env_extract_ll_item junk env item =
     (case (env, item) of
        (Some s, Some _) \<Rightarrow>
          (case dlt_env_extract_id env (Some (appId zero_item)) of
             (rc, env1, a) \<Rightarrow>
               let i1 = zero_item\<lparr>appId := the a\<rparr>
               in if rc = - 1 then (- 1, env1, Some i1)
                  else (case dlt_env_extract_id (map_option tl env1) (Some (ctxId i1)) of
                    (rc, env2, c) \<Rightarrow>
                      let i2 = i1\<lparr>ctxId := the c\<rparr>
                      in if rc = - 1 then (- 1, env2, Some i2)
                         else (case dlt_env_extract_ll junk (map_option tl env2) (Some (ll i2)) of
                           (rc, env3, l) \<Rightarrow> (if rc = - 1 then - 1 else 0, env3, Some (i2\<lparr>ll := the l\<rparr>)))))
      | _ \<Rightarrow> (- 1, env, item))"

section \<open>The set\<close>

text \<open>\<open>alloc n\<close> is what \<open>malloc\<close> returns for \<open>n\<close> items.\<close>

definition dlt_env_init_ll_set ::
  "(nat \<Rightarrow> dlt_env_ll_item list option) \<Rightarrow> dlt_env_ll_set option \<Rightarrow> int \<times> dlt_env_ll_set option" where
  "dlt_env_init_ll_set alloc st =
     (case st of None \<Rightarrow> (- 1, None)
      | Some s \<Rightarrow>
        (case alloc DLT_ENV_LL_SET_INCREASE of
           None \<Rightarrow> (- 1, Some (s\<lparr>items := None, array_size := 0\<rparr>))
         | Some b \<Rightarrow> (0, Some (s\<lparr>items := Some b, array_size := DLT_ENV_LL_SET_INCREASE, num_elem := 0\<rparr>))))"

definition dlt_env_free_ll_set :: "dlt_env_ll_set option \<Rightarrow> dlt_env_ll_set option" where
  "dlt_env_free_ll_set st = map_option (\<lambda>s. s\<lparr>items := None, array_size := 0, num_elem := 0\<rparr>) st"

definition dlt_env_increase_ll_set ::
  "(nat \<Rightarrow> dlt_env_ll_item list option) \<Rightarrow> dlt_env_ll_set option \<Rightarrow> int \<times> dlt_env_ll_set option" where
  "dlt_env_increase_ll_set alloc st =
     (case st of None \<Rightarrow> (- 1, None)
      | Some s \<Rightarrow>
        (case alloc (array_size s + DLT_ENV_LL_SET_INCREASE) of
           None \<Rightarrow> (- 1, Some (s\<lparr>items := None\<rparr>))
         | Some b \<Rightarrow>
           (0, Some (s\<lparr>items := Some (memput b 0 (take (array_size s) (the (items s)))),
                       array_size := array_size s + DLT_ENV_LL_SET_INCREASE\<rparr>))))"

lemma id_loop_rest: "id_loop n s = (w, r) \<Longrightarrow> length w \<le> n \<and> s = w @ r"
proof (induction n arbitrary: s w)
  case (Suc n)
  then show ?case by (cases s) (auto simp: cur_def split: prod.splits if_splits)
qed auto

lemma id_loop_length: "length (snd (id_loop n s)) \<le> length s"
  using id_loop_rest [of n s] by (cases "id_loop n s") auto

lemma lower_loop_length: "length (snd (lower_loop n s)) \<le> length s"
proof (induction n s rule: lower_loop.induct)
  case (2 n s)
  then show ?case by (cases s) (auto simp: cur_def split: prod.splits)
qed simp

lemma tl_less: "cur s \<noteq> 0 \<Longrightarrow> length (tl s) < length s"
  by (cases s) (auto simp: cur_def)

lemma extract_ll_item_shorter:
  assumes "dlt_env_extract_ll_item junk (Some s) (Some i) = (rc, Some r, x)" "rc \<noteq> - 1"
  shows "length r < length s"
proof -
  have l: "length (the (fst (snd (dlt_env_extract_ll junk (Some t) (Some v))))) \<le> length t" for t v
    using lower_loop_length [of 7 t]
    by (auto simp: dlt_env_extract_ll_def dlt_env_extract_symbolic_ll_def dlt_env_helper_to_lower_def Let_def
        split: prod.splits option.splits)
  obtain w1 r1 where 1: "id_loop 4 s = (w1, r1)" by fastforce
  obtain w2 r2 where 2: "id_loop 4 (tl r1) = (w2, r2)" by fastforce
  obtain q t v where 3: "dlt_env_extract_ll junk (Some (tl r2)) (Some 0) = (q, t, v)" by (metis prod_cases3)
  have "cur r1 = colon" "r = the t" "t = Some r"
    using assms 1 2 3
    by (auto simp: dlt_env_extract_ll_item_def dlt_env_extract_id_def zero_item_def Let_def split: if_splits)
  moreover have "length r1 \<le> length s" "length r2 \<le> length (tl r1)"
    using id_loop_length [of 4 s] id_loop_length [of 4 "tl r1"] 1 2 by simp_all
  moreover have "length (the t) \<le> length (tl r2)" using l [of "tl r2" 0] 3 by simp
  moreover have "length (tl r1) < length r1" using \<open>cur r1 = colon\<close> by (intro tl_less) simp
  ultimately show ?thesis by simp
qed

text \<open>
  One turn of the loop of \<open>dlt_env_extract_ll_set\<close> and the loop: the result, the rest of the
  variable and the set.
\<close>

definition extract_turn ::
  "(nat \<Rightarrow> dlt_env_ll_item list option) \<Rightarrow> byte list \<Rightarrow> byte list \<Rightarrow> dlt_env_ll_set \<Rightarrow> int \<times> byte list \<times> dlt_env_ll_set" where
  "extract_turn alloc junk s st =
     (case (if num_elem st = array_size st then dlt_env_increase_ll_set alloc (Some st) else (0, Some st)) of
        (rc, st1) \<Rightarrow>
          if rc = - 1 then (- 1, s, the st1)
          else
            let n = num_elem (the st1)
            in (case dlt_env_extract_ll_item junk (Some s) (Some (the (items (the st1)) ! n)) of
                  (rc, env, it) \<Rightarrow>
                    let st2 = (the st1)\<lparr>items := map_option (\<lambda>a. a[n := the it]) (items (the st1)), num_elem := n + 1\<rparr>;
                        r = the env
                    in if rc = - 1 then (- 1, r, st2) else (0, if cur r = semicolon then tl r else r, st2)))"

lemma extract_turn_shorter:
  assumes "extract_turn alloc junk s st = (rc, r, st')" "rc \<noteq> - 1"
  shows "length r < length s"
proof -
  obtain q st1 where 1: "(if num_elem st = array_size st then dlt_env_increase_ll_set alloc (Some st) else (0, Some st)) = (q, st1)" by fastforce
  obtain k env it where 2: "dlt_env_extract_ll_item junk (Some s) (Some (the (items (the st1)) ! num_elem (the st1))) = (k, env, it)"
    by (metis prod_cases3)
  have "env \<noteq> None"
    using 2 by (auto simp: dlt_env_extract_ll_item_def dlt_env_extract_id_def dlt_env_extract_ll_def
        dlt_env_extract_symbolic_ll_def dlt_env_helper_to_lower_def Let_def split: prod.splits option.splits if_splits)
  then obtain r0 where r0: "env = Some r0" by blast
  have "k \<noteq> - 1" "r = (if cur r0 = semicolon then tl r0 else r0)"
    using assms 1 2 r0 by (auto simp: extract_turn_def Let_def split: if_splits)
  then show ?thesis using extract_ll_item_shorter [OF 2 [unfolded r0]] by auto
qed

function extract_loop ::
  "(nat \<Rightarrow> dlt_env_ll_item list option) \<Rightarrow> byte list \<Rightarrow> byte list \<Rightarrow> dlt_env_ll_set \<Rightarrow> int \<times> byte list \<times> dlt_env_ll_set" where
  "extract_loop alloc junk s st =
     (case extract_turn alloc junk s st of
        (rc, r, st1) \<Rightarrow>
          if rc = - 1 then (- 1, r, st1) else if cur r = 0 then (0, r, st1) else extract_loop alloc junk r st1)"
  by pat_completeness auto
termination
  by (relation "measure (\<lambda>(_, _, s, _). length s)") (simp, metis (no_types, lifting) case_prod_conv extract_turn_shorter in_measure)

declare extract_loop.simps [simp del]

definition dlt_env_extract_ll_set ::
  "(nat \<Rightarrow> dlt_env_ll_item list option) \<Rightarrow> byte list \<Rightarrow> byte list option \<Rightarrow> dlt_env_ll_set option \<Rightarrow>
   int \<times> byte list option \<times> dlt_env_ll_set option" where
  "dlt_env_extract_ll_set alloc junk env st =
     (case (env, st) of
        (Some s, Some _) \<Rightarrow>
          (case dlt_env_init_ll_set alloc st of
             (rc, st1) \<Rightarrow>
               if rc = - 1 then (- 1, env, st1)
               else (case extract_loop alloc junk s (the st1) of (rc, r, st2) \<Rightarrow> (rc, Some r, Some st2)))
      | _ \<Rightarrow> (- 1, env, st))"

section \<open>The search\<close>

definition dlt_env_ids_match :: "byte list \<Rightarrow> byte list \<Rightarrow> int" where
  "dlt_env_ids_match a b =
     (if a ! 0 \<noteq> b ! 0 then 0 else if a ! 1 \<noteq> b ! 1 then 0 else if a ! 2 \<noteq> b ! 2 then 0 else if a ! 3 \<noteq> b ! 3 then 0 else 1)"

definition dlt_env_ll_item_get_matching_prio ::
  "dlt_env_ll_item option \<Rightarrow> byte list option \<Rightarrow> byte list option \<Rightarrow> int" where
  "dlt_env_ll_item_get_matching_prio item apid ctid =
     (case (item, apid, ctid) of
        (Some i, Some a, Some c) \<Rightarrow>
          if appId i ! 0 = 0 then
            (if ctxId i ! 0 = 0 then 1 else if dlt_env_ids_match (ctxId i) c \<noteq> 0 then 2 else 0)
          else if dlt_env_ids_match (appId i) a \<noteq> 0 then
            (if ctxId i ! 0 = 0 then 3 else if dlt_env_ids_match (ctxId i) c \<noteq> 0 then 4 else 0)
          else 0
      | _ \<Rightarrow> - 1)"

fun adjust_loop :: "byte list \<Rightarrow> byte list \<Rightarrow> dlt_env_ll_item list \<Rightarrow> int \<Rightarrow> int \<Rightarrow> int" where
  "adjust_loop a c [] prio res = res"
| "adjust_loop a c (i # is) prio res =
     (let p = dlt_env_ll_item_get_matching_prio (Some i) (Some a) (Some c)
      in if p > prio then (if p = 4 then ll i else adjust_loop a c is p (ll i)) else adjust_loop a c is prio res)"

text \<open>A set without an array has no elements: \<open>dlt_env_free_ll_set\<close> clears both, and \<open>set_wf\<close> is kept by the parser.\<close>

definition dlt_env_adjust_ll_from_env ::
  "dlt_env_ll_set option \<Rightarrow> byte list option \<Rightarrow> byte list option \<Rightarrow> int \<Rightarrow> int" where
  "dlt_env_adjust_ll_from_env st apid ctid l =
     (case (st, apid, ctid) of
        (Some s, Some a, Some c) \<Rightarrow> adjust_loop a c (take (num_elem s) (case items s of None \<Rightarrow> [] | Some b \<Rightarrow> b)) 0 l
      | _ \<Rightarrow> l)"

section \<open>Reading a variable\<close>

definition plain_id :: "byte list \<Rightarrow> bool" where
  "plain_id w \<longleftrightarrow> length w \<le> 4 \<and> (\<forall>c \<in> set w. c \<noteq> colon \<and> c \<noteq> 0)"

definition level_ok :: "int \<Rightarrow> bool" where
  "level_ok l \<longleftrightarrow> - 1 \<le> l \<and> l \<le> 6"

text \<open>What a user writes: application, context and level, and how it is stored.\<close>

type_synonym setting = "byte list \<times> byte list \<times> int"

fun setting_ok :: "setting \<Rightarrow> bool" where
  "setting_ok (a, c, l) \<longleftrightarrow> plain_id a \<and> plain_id c \<and> level_ok l"

fun setting_text :: "setting \<Rightarrow> byte list" where
  "setting_text (a, c, l) = a @ [colon] @ c @ [colon] @ (if l = - 1 then [0x2D, 0x31] else [word_of_int (0x30 + l)])"

fun settings_text :: "setting list \<Rightarrow> byte list" where
  "settings_text [] = []"
| "settings_text [x] = setting_text x"
| "settings_text (x # xs) = setting_text x @ semicolon # settings_text xs"

definition padded :: "byte list \<Rightarrow> byte list" where
  "padded w = w @ replicate (4 - length w) 0"

fun stored :: "setting \<Rightarrow> dlt_env_ll_item" where
  "stored (a, c, l) = \<lparr>appId = padded a, ctxId = padded c, ll = l\<rparr>"

lemma cur_simps [simp]: "cur [] = 0" "cur (c # s) = c"
  by (simp_all add: cur_def)

lemma id_loop_plain: "length w \<le> n \<Longrightarrow> \<forall>c \<in> set w. c \<noteq> colon \<and> c \<noteq> 0 \<Longrightarrow> id_loop n (w @ colon # r) = (w, colon # r)"
proof (induction w arbitrary: n)
  case Nil
  then show ?case by (cases n) simp_all
next
  case (Cons c w)
  then show ?case by (cases n) simp_all
qed

lemma extract_id_plain:
  assumes "plain_id w" "length d = 4"
  shows "dlt_env_extract_id (Some (w @ colon # r)) (Some d) = (0, Some (colon # r), Some (padded w))"
proof -
  have z: "[0, 0, 0, 0] = replicate 4 (0 :: byte)" by (simp add: numeral_eq_Suc)
  have "memput (memput d 0 [0, 0, 0, 0]) 0 w = padded w"
    unfolding z using assms by (simp add: plain_id_def memput_def padded_def)
  then show ?thesis using assms id_loop_plain [of w 4 r] by (simp add: dlt_env_extract_id_def plain_id_def)
qed

lemma extract_level_digit:
  assumes "level_ok l" "cur r = 0 \<or> cur r = semicolon"
  shows "dlt_env_extract_ll junk (Some ((if l = - 1 then [0x2D, 0x31] else [word_of_int (0x30 + l)]) @ r)) (Some v) = (0, Some r, Some l)"
proof (cases "l = - 1")
  case True
  then show ?thesis using assms(2) by (auto simp: dlt_env_extract_ll_def Let_def)
next
  case False
  with assms(1) have "l \<in> {0, 1, 2, 3, 4, 5, 6}" by (auto simp: level_ok_def)
  then show ?thesis using assms(2) by (auto simp: dlt_env_extract_ll_def Let_def)
qed

lemma extract_item_plain:
  assumes "setting_ok x" "cur r = 0 \<or> cur r = semicolon"
  shows "dlt_env_extract_ll_item junk (Some (setting_text x @ r)) (Some i) = (0, Some r, Some (stored x))"
proof -
  obtain a c l where x: "x = (a, c, l)" by (metis prod_cases3)
  let ?t = "(if l = - 1 then [0x2D, 0x31] else [word_of_int (0x30 + l)]) @ r"
  have t: "setting_text x @ r = a @ colon # (c @ colon # ?t)" by (simp add: x)
  have 1: "dlt_env_extract_id (Some (a @ colon # (c @ colon # ?t))) (Some [0, 0, 0, 0]) = (0, Some (colon # (c @ colon # ?t)), Some (padded a))"
    using assms(1) by (intro extract_id_plain) (simp_all add: x)
  have 2: "dlt_env_extract_id (Some (c @ colon # ?t)) (Some [0, 0, 0, 0]) = (0, Some (colon # ?t), Some (padded c))"
    using assms(1) by (intro extract_id_plain) (simp_all add: x)
  have 3: "dlt_env_extract_ll junk (Some ?t) (Some 0) = (0, Some r, Some l)"
    using assms by (intro extract_level_digit) (simp_all add: x)
  show ?thesis unfolding t
    by (simp add: dlt_env_extract_ll_item_def zero_item_def Let_def 1 2 3 x del: append_Cons append.append_Cons)
qed

section \<open>The set\<close>

definition set_wf :: "dlt_env_ll_set \<Rightarrow> bool" where
  "set_wf st \<longleftrightarrow> (\<exists>b. items st = Some b \<and> length b = array_size st) \<and> num_elem st \<le> array_size st"

definition elements :: "dlt_env_ll_set \<Rightarrow> dlt_env_ll_item list" where
  "elements st = take (num_elem st) (case items st of None \<Rightarrow> [] | Some b \<Rightarrow> b)"

definition alloc_total :: "(nat \<Rightarrow> dlt_env_ll_item list option) \<Rightarrow> bool" where
  "alloc_total alloc \<longleftrightarrow> (\<forall>n. \<exists>b. alloc n = Some b \<and> length b = n)"

definition alloc_sized :: "(nat \<Rightarrow> dlt_env_ll_item list option) \<Rightarrow> bool" where
  "alloc_sized alloc \<longleftrightarrow> (\<forall>n b. alloc n = Some b \<longrightarrow> length b = n)"

text \<open>Room for one more item: either that fails and the array is gone, or it does not change the elements.\<close>

lemma room_for_item:
  assumes "set_wf st" "alloc_sized alloc"
    and "(if num_elem st = array_size st then dlt_env_increase_ll_set alloc (Some st) else (0, Some st)) = (rc, st1)"
  shows "\<exists>s1. st1 = Some s1 \<and> (rc = - 1 \<and> items s1 = None \<and> (\<exists>n. alloc n = None) \<or>
    rc = 0 \<and> set_wf s1 \<and> num_elem s1 = num_elem st \<and> num_elem s1 < array_size s1 \<and> elements s1 = elements st)"
proof (cases "num_elem st = array_size st")
  case True
  obtain b where b: "items st = Some b" "length b = array_size st" using assms(1) by (auto simp: set_wf_def)
  show ?thesis
  proof (cases "alloc (array_size st + 10)")
    case None
    then show ?thesis using True assms(3) by (auto simp: dlt_env_increase_ll_set_def)
  next
    case (Some b')
    then have "length b' = array_size st + 10" using assms(2) by (simp add: alloc_sized_def)
    with Some True assms(3) b show ?thesis
      by (auto simp: dlt_env_increase_ll_set_def set_wf_def elements_def memput_def)
  qed
qed (use assms in \<open>auto simp: set_wf_def\<close>)

lemma put_item:
  assumes "set_wf st" "num_elem st < array_size st"
  shows "set_wf (st\<lparr>items := map_option (\<lambda>a. a[num_elem st := x]) (items st), num_elem := num_elem st + 1\<rparr>) \<and>
    elements (st\<lparr>items := map_option (\<lambda>a. a[num_elem st := x]) (items st), num_elem := num_elem st + 1\<rparr>) = elements st @ [x]"
  using assms by (auto simp: set_wf_def elements_def take_Suc_conv_app_nth)

lemma turn_plain:
  assumes "set_wf st" "alloc_total alloc" "setting_ok x" "cur r = 0 \<or> cur r = semicolon"
  shows "\<exists>st'. extract_turn alloc junk (setting_text x @ r) st = (0, if cur r = semicolon then tl r else r, st') \<and>
    set_wf st' \<and> elements st' = elements st @ [stored x]"
proof -
  obtain q st1 where 1: "(if num_elem st = array_size st then dlt_env_increase_ll_set alloc (Some st) else (0, Some st)) = (q, st1)" by fastforce
  have "alloc_sized alloc" using assms(2) by (auto simp: alloc_total_def alloc_sized_def) (metis option.inject)
  moreover have "alloc n \<noteq> None" for n using assms(2) unfolding alloc_total_def by (metis option.distinct(1))
  ultimately obtain s1 where s1: "st1 = Some s1" "q = 0" "set_wf s1"
    "num_elem s1 < array_size s1" "elements s1 = elements st" using room_for_item [OF assms(1) _ 1] by blast
  show ?thesis
    using put_item [OF s1(3,4), of "stored x"] s1(5)
    unfolding extract_turn_def 1 s1(1,2) by (simp add: Let_def extract_item_plain [OF assms(3,4)])
qed

lemma setting_text_start: "\<exists>c t. setting_text x = c # t \<and> (setting_ok x \<longrightarrow> c \<noteq> 0)"
proof -
  obtain a c l where x: "x = (a, c, l)" by (metis prod_cases3)
  show ?thesis by (cases a) (auto simp: x plain_id_def)
qed

lemma loop_plain:
  assumes "set_wf st" "alloc_total alloc" "\<forall>x \<in> set xs. setting_ok x" "xs \<noteq> []"
  shows "\<exists>st'. extract_loop alloc junk (settings_text xs) st = (0, [], st') \<and> elements st' = elements st @ map stored xs"
  using assms
proof (induction xs arbitrary: st rule: settings_text.induct)
  case (2 x)
  obtain st' where "extract_turn alloc junk (setting_text x) st = (0, [], st')" "elements st' = elements st @ [stored x]"
    using turn_plain [OF 2(1,2), of x "[]" junk] 2 by auto
  then show ?case by (simp add: extract_loop.simps [of alloc junk "setting_text x"])
next
  case (3 x y ys)
  have ok: "setting_ok x" using 3 by simp
  obtain st' where st': "extract_turn alloc junk (setting_text x @ semicolon # settings_text (y # ys)) st = (0, settings_text (y # ys), st')"
    "set_wf st'" "elements st' = elements st @ [stored x]"
    using turn_plain [OF 3(2,3) ok, of "semicolon # settings_text (y # ys)" junk] by auto
  obtain t where t: "settings_text (y # ys) = setting_text y @ t" by (cases ys) auto
  have "cur (settings_text (y # ys)) \<noteq> 0"
    using setting_text_start [of y] 3(4) unfolding t by auto
  then have "extract_loop alloc junk (settings_text (x # y # ys)) st = extract_loop alloc junk (settings_text (y # ys)) st'"
    using st'(1) extract_loop.simps [of alloc junk "settings_text (x # y # ys)" st] by simp
  then show ?case using 3(1) [OF st'(2) 3(3)] 3(4) st'(3) by auto
qed simp

lemma settings_read:
  assumes "alloc_total alloc" "\<forall>x \<in> set xs. setting_ok x" "xs \<noteq> []"
  shows "\<exists>st'. dlt_env_extract_ll_set alloc junk (Some (settings_text xs)) (Some st) = (0, Some [], Some st') \<and>
    elements st' = map stored xs"
proof -
  obtain b where b: "alloc 10 = Some b" "length b = 10" using assms(1) by (auto simp: alloc_total_def)
  let ?s = "st\<lparr>items := Some b, array_size := 10, num_elem := 0\<rparr>"
  have "set_wf ?s" "elements ?s = []" using b by (simp_all add: set_wf_def elements_def)
  then obtain st' where "extract_loop alloc junk (settings_text xs) ?s = (0, [], st')" "elements st' = map stored xs"
    using loop_plain [OF _ assms, of ?s junk] by auto
  then show ?thesis by (simp add: dlt_env_extract_ll_set_def dlt_env_init_ll_set_def b)
qed

section \<open>Whatever the variable is\<close>

definition item_typed :: "dlt_env_ll_item \<Rightarrow> bool" where
  "item_typed i \<longleftrightarrow> length (appId i) = 4 \<and> length (ctxId i) = 4 \<and> level_ok (ll i)"

lemma extract_id_length:
  assumes "dlt_env_extract_id (Some s) (Some d) = (rc, e, Some x)" "length d = 4"
  shows "length x = 4"
proof -
  obtain w r where w: "id_loop 4 s = (w, r)" by fastforce
  have "length w \<le> 4" using id_loop_rest [OF w] by simp
  then show ?thesis using assms w by (auto simp: dlt_env_extract_id_def)
qed

lemma level_names_ok: "map_of level_names w = Some v \<Longrightarrow> level_ok v"
  by (auto simp: level_names_def level_ok_def split: if_splits)

lemma extract_ll_some: "dlt_env_extract_ll junk (Some s) (Some old) = (rc, e, v) \<Longrightarrow> \<exists>l. v = Some l"
proof -
  obtain q e1 l1 where 1: "dlt_env_extract_symbolic_ll junk (Some s) (Some old) = (q, e1, l1)" by (metis prod_cases3)
  have "\<exists>v. l1 = Some v"
    using 1 by (auto simp: dlt_env_extract_symbolic_ll_def dest: sym split: prod.splits option.splits if_splits)
  then show "dlt_env_extract_ll junk (Some s) (Some old) = (rc, e, v) \<Longrightarrow> \<exists>l. v = Some l"
    by (auto simp: dlt_env_extract_ll_def Let_def 1 split: if_splits)
qed

lemma extract_ll_level:
  assumes "dlt_env_extract_ll junk (Some s) (Some old) = (rc, e, Some v)" "level_ok old"
  shows "level_ok v"
proof -
  have d: "level_ok (uint c - 0x30)" if "0x30 \<le> c" "c < 0x37" for c :: byte
    using that by (simp add: level_ok_def word_le_def word_less_def)
  obtain q e1 l1 where 1: "dlt_env_extract_symbolic_ll junk (Some s) (Some old) = (q, e1, l1)" by (metis prod_cases3)
  have l1: "\<exists>v. l1 = Some v \<and> level_ok v"
    using 1 assms(2)
    by (auto simp: dlt_env_extract_symbolic_ll_def dlt_env_helper_to_lower_def dest: level_names_ok sym split: prod.splits option.splits if_splits)
  have m: "level_ok (- 1)" by (simp add: level_ok_def)
  show ?thesis using assms d m l1 by (auto simp: dlt_env_extract_ll_def Let_def 1 split: if_splits)
qed

lemma extract_item_typed:
  assumes "dlt_env_extract_ll_item junk (Some s) (Some i) = (rc, e, it)"
  shows "\<exists>x. it = Some x \<and> item_typed x"
proof -
  obtain q1 e1 a where 1: "dlt_env_extract_id (Some s) (Some [0, 0, 0, 0]) = (q1, Some e1, Some a)"
    by (cases "id_loop 4 s") (auto simp: dlt_env_extract_id_def)
  obtain q2 e2 c where 2: "dlt_env_extract_id (Some (tl e1)) (Some [0, 0, 0, 0]) = (q2, Some e2, Some c)"
    by (cases "id_loop 4 (tl e1)") (auto simp: dlt_env_extract_id_def)
  obtain q3 e3 v where 3: "dlt_env_extract_ll junk (Some (tl e2)) (Some 0) = (q3, e3, v)" by (metis prod_cases3)
  have z: "level_ok 0" by (simp add: level_ok_def)
  obtain l where l: "v = Some l" "level_ok l"
    using extract_ll_some [OF 3] extract_ll_level [of junk "tl e2" 0 q3 e3] 3 z by auto
  have "length a = 4" "length c = 4" using extract_id_length [OF 1] extract_id_length [OF 2] by simp_all
  then show ?thesis using assms z l
    by (simp add: dlt_env_extract_ll_item_def zero_item_def Let_def 1 2 3 item_typed_def split: if_splits; clarsimp)
qed

lemma turn_typed:
  assumes "set_wf st" "alloc_sized alloc" "\<forall>x \<in> set (elements st). item_typed x" "extract_turn alloc junk s st = (rc, r, st')"
  shows "(\<forall>x \<in> set (elements st'). item_typed x) \<and> (rc = - 1 \<or> set_wf st')"
proof -
  obtain q st1 where 1: "(if num_elem st = array_size st then dlt_env_increase_ll_set alloc (Some st) else (0, Some st)) = (q, st1)" by fastforce
  from room_for_item [OF assms(1,2) 1] obtain s1 where s1: "st1 = Some s1"
    "q = - 1 \<and> items s1 = None \<or> q = 0 \<and> set_wf s1 \<and> num_elem s1 < array_size s1 \<and> elements s1 = elements st" by blast
  obtain k e it where 2: "dlt_env_extract_ll_item junk (Some s) (Some (the (items s1) ! num_elem s1)) = (k, e, it)"
    by (metis prod_cases3)
  obtain x where x: "it = Some x" "item_typed x" using extract_item_typed [OF 2] by blast
  from s1(2) show ?thesis
  proof (elim disjE conjE)
    assume "q = - 1" "items s1 = None"
    then show ?thesis using assms(4) unfolding extract_turn_def 1 s1(1) by (auto simp: elements_def)
  next
    assume w: "q = 0" "set_wf s1" "num_elem s1 < array_size s1" "elements s1 = elements st"
    then have "st' = s1\<lparr>items := map_option (\<lambda>a. a[num_elem s1 := x]) (items s1), num_elem := num_elem s1 + 1\<rparr>"
      using assms(4) unfolding extract_turn_def 1 s1(1) by (auto simp: Let_def 2 x(1) split: if_splits)
    then show ?thesis using put_item [OF w(2,3), of x] w(4) assms(3) x(2) by auto
  qed
qed

lemma loop_typed:
  assumes "set_wf st" "alloc_sized alloc" "\<forall>x \<in> set (elements st). item_typed x" "extract_loop alloc junk s st = (rc, r, st')"
  shows "\<forall>x \<in> set (elements st'). item_typed x"
  using assms
proof (induction alloc junk s st rule: extract_loop.induct)
  case (1 alloc junk s st)
  obtain q r1 st1 where t: "extract_turn alloc junk s st = (q, r1, st1)" by (metis prod_cases3)
  note ty = turn_typed [OF 1(2-4) t]
  show ?case
  proof (cases "q = - 1 \<or> cur r1 = 0")
    case True
    then have "st' = st1" using 1(5) t by (auto simp: extract_loop.simps [of alloc junk s] split: if_splits)
    then show ?thesis using ty by simp
  next
    case False
    then have "extract_loop alloc junk r1 st1 = (rc, r, st')" using 1(5) t by (simp add: extract_loop.simps [of alloc junk s])
    then show ?thesis using 1(1) [OF t [symmetric] refl] False ty 1(3) by simp
  qed
qed

lemma set_typed:
  assumes "alloc_sized alloc" "num_elem st = 0" "dlt_env_extract_ll_set alloc junk (Some s) (Some st) = (rc, r, Some st')"
  shows "\<forall>x \<in> set (elements st'). item_typed x"
proof (cases "alloc 10")
  case None
  then show ?thesis using assms by (auto simp: dlt_env_extract_ll_set_def dlt_env_init_ll_set_def elements_def)
next
  case (Some b)
  let ?s = "st\<lparr>items := Some b, array_size := 10, num_elem := 0\<rparr>"
  have "length b = 10" using Some assms(1) by (simp add: alloc_sized_def)
  then have "set_wf ?s" "elements ?s = []" by (simp_all add: set_wf_def elements_def)
  moreover obtain q r1 where "extract_loop alloc junk s ?s = (q, r1, st')"
    using assms(3) Some by (auto simp: dlt_env_extract_ll_set_def dlt_env_init_ll_set_def split: prod.splits)
  ultimately show ?thesis using loop_typed [of ?s alloc junk s] assms(1) by simp
qed

section \<open>Levels given by their names\<close>

lemma lower_loop_word:
  "length w \<le> n \<Longrightarrow> \<forall>c \<in> set w. c \<noteq> 0 \<and> c \<noteq> semicolon \<and> \<not> (0x41 \<le> c \<and> c \<le> 0x5A) \<Longrightarrow> cur t = 0 \<or> cur t = semicolon \<Longrightarrow>
    lower_loop n (w @ t) = (w, t)"
proof (induction w arbitrary: n)
  case Nil
  then show ?case by (cases n) auto
next
  case (Cons c w)
  then obtain k where "n = Suc k" by (cases n) auto
  then show ?case using Cons by auto
qed

lemma level_name_chars:
  assumes "(w, v) \<in> set level_names"
  shows "length w \<le> 7 \<and> w \<noteq> [] \<and> (\<forall>c \<in> set w. 0x61 \<le> c \<and> c \<le> 0x7A) \<and> map_of level_names w = Some v"
proof -
  have "\<forall>(w, v) \<in> set level_names. length w \<le> 7 \<and> w \<noteq> [] \<and> (\<forall>c \<in> set w. 0x61 \<le> c \<and> c \<le> 0x7A) \<and> map_of level_names w = Some v"
    by code_simp
  then show ?thesis using assms by blast
qed

lemma named_level:
  assumes "(w, v) \<in> set level_names" "cur t = 0 \<or> cur t = semicolon"
  shows "dlt_env_extract_symbolic_ll junk (Some (w @ t)) (Some old) = (0, Some (if cur t \<noteq> 0 then tl t else t), Some v)"
proof -
  note n = level_name_chars [OF assms(1)]
  have c: "c \<noteq> 0 \<and> c \<noteq> semicolon \<and> \<not> (0x41 \<le> c \<and> c \<le> 0x5A)" if "0x61 \<le> c" for c :: byte
    using that by (auto simp: word_le_def)
  then have "lower_loop 7 (w @ t) = (w, t)" using n assms(2) by (intro lower_loop_word) blast+
  moreover have "c_string (memput junk 0 (w @ [0])) = w"
    using n c by (simp add: memput_def c_string_def takeWhile_append2)
  ultimately show ?thesis using n assms(2) by (auto simp: dlt_env_extract_symbolic_ll_def dlt_env_helper_to_lower_def)
qed

text \<open>
  A level given by its name may only be the last one. The name is followed past the semicolon, and the check
  for the end of the item then looks at the next item: the variable is refused there.
\<close>

lemma named_level_last:
  assumes "(name, v) \<in> set level_names" "cur r \<noteq> 0" "cur r \<noteq> semicolon"
  shows "dlt_env_extract_ll junk (Some (name @ semicolon # r)) (Some old) = (- 1, Some r, Some v) \<and>
    dlt_env_extract_ll junk (Some name) (Some old) = (0, Some [], Some v)"
proof -
  obtain c w where w: "name = c # w" "0x61 \<le> c" using level_name_chars [OF assms(1)] by (cases name) auto
  then have "c \<noteq> 0x2D \<and> \<not> (0x30 \<le> c \<and> c < 0x37)" by (auto simp: word_le_def word_less_def)
  then show ?thesis
    using assms(2,3) named_level [OF assms(1), of "semicolon # r" junk old] named_level [OF assms(1), of "[]" junk old] w(1)
    by (simp add: dlt_env_extract_ll_def Let_def)
qed

section \<open>The best match\<close>

abbreviation (input) prio :: "byte list \<Rightarrow> byte list \<Rightarrow> dlt_env_ll_item \<Rightarrow> int" where
  "prio a c i \<equiv> dlt_env_ll_item_get_matching_prio (Some i) (Some a) (Some c)"

lemma prio_range: "0 \<le> prio a c i \<and> prio a c i \<le> 4"
  by (simp add: dlt_env_ll_item_get_matching_prio_def)

text \<open>The reference: the level of the first item whose priority is the highest of all.\<close>

definition highest :: "byte list \<Rightarrow> byte list \<Rightarrow> dlt_env_ll_item list \<Rightarrow> int" where
  "highest a c is = fold (\<lambda>i. max (prio a c i)) is 0"

definition best_match :: "byte list \<Rightarrow> byte list \<Rightarrow> dlt_env_ll_item list \<Rightarrow> int \<Rightarrow> int" where
  "best_match a c is l =
     (if highest a c is = 0 then l else ll (hd (filter (\<lambda>i. prio a c i = highest a c is) is)))"

lemma fold_max: "fold (\<lambda>i. max (f i)) is m = max m (fold (\<lambda>i. max (f i)) is (0 :: int))" if "0 \<le> m" for f
  using that
proof (induction "is" arbitrary: m)
  case (Cons i "is")
  show ?case using Cons.IH [of "max (f i) m"] Cons.IH [of "max (f i) 0"] Cons.prems by simp
qed simp

lemma highest_Cons: "highest a c (i # is) = max (prio a c i) (highest a c is)"
  using prio_range [of i a c] fold_max [of "prio a c i" "prio a c" "is"] by (simp add: highest_def)

lemma highest_range: "0 \<le> highest a c is \<and> highest a c is \<le> 4"
proof (induction "is")
  case (Cons i "is")
  then show ?case using prio_range [of i a c] by (simp add: highest_Cons max_def)
qed (simp add: highest_def)

lemma adjust_loop_best:
  assumes "0 \<le> p" "p < 4"
  shows "adjust_loop a c is p l =
    (if highest a c is \<le> p then l else ll (hd (filter (\<lambda>i. prio a c i = highest a c is) is)))"
  using assms
proof (induction "is" arbitrary: p l)
  case (Cons i "is")
  note r = prio_range [of i a c] highest_range [of a c "is"]
  show ?case
  proof (cases "prio a c i > p")
    case True
    show ?thesis
    proof (cases "prio a c i = 4")
      case True
      then have "highest a c (i # is) = 4" using r by (simp add: highest_Cons)
      with True Cons.prems show ?thesis by simp
    next
      case False
      then have "adjust_loop a c (i # is) p l = adjust_loop a c is (prio a c i) (ll i)" using True by (simp add: Let_def)
      also have "\<dots> = (if highest a c is \<le> prio a c i then ll i else ll (hd (filter (\<lambda>x. prio a c x = highest a c is) is)))"
        using Cons.IH r False by simp
      also have "\<dots> = (if highest a c (i # is) \<le> p then l else ll (hd (filter (\<lambda>x. prio a c x = highest a c (i # is)) (i # is))))"
        using True by (auto simp: highest_Cons max_def)
      finally show ?thesis .
    qed
  next
    case False
    then have "adjust_loop a c (i # is) p l = adjust_loop a c is p l" by (simp add: Let_def)
    also have "\<dots> = (if highest a c is \<le> p then l else ll (hd (filter (\<lambda>x. prio a c x = highest a c is) is)))"
      using Cons by simp
    also have "\<dots> = (if highest a c (i # is) \<le> p then l else ll (hd (filter (\<lambda>x. prio a c x = highest a c (i # is)) (i # is))))"
      using False by (auto simp: highest_Cons max_def)
    finally show ?thesis .
  qed
qed (simp add: highest_def)

lemma adjust_level:
  assumes "\<forall>x \<in> set (elements st). item_typed x"
  shows "dlt_env_adjust_ll_from_env (Some st) a c l = l \<or> level_ok (dlt_env_adjust_ll_from_env (Some st) a c l)"
proof -
  have "adjust_loop a' c' is p l \<in> insert l (ll ` set is)" for a' c' "is" p
    by (induction "is" arbitrary: p l) (simp_all add: Let_def, blast)
  then have "dlt_env_adjust_ll_from_env (Some st) a c l \<in> insert l (ll ` set (elements st))"
    by (simp add: dlt_env_adjust_ll_from_env_def elements_def split: option.splits)
  then show ?thesis using assms by (auto simp: item_typed_def)
qed

section \<open>Properties\<close>

text \<open>
  C31. Round trip of the environment variable: what a user writes as application, context and level in digits,
  separated by semicolons, is read as exactly these settings in this order, whatever their number,
  and the whole variable is consumed.
\<close>

theorem settings_read_back:
  assumes "alloc_total alloc" "\<forall>x \<in> set xs. setting_ok x" "xs \<noteq> []"
  shows "\<exists>st'. dlt_env_extract_ll_set alloc junk (Some (settings_text xs)) (Some st) = (0, Some [], Some st') \<and>
    elements st' = map stored xs"
  using assms by (rule settings_read)

definition example_item_alloc :: "nat \<Rightarrow> dlt_env_ll_item list option" where
  "example_item_alloc n = Some (replicate n zero_item)"

definition example_set :: dlt_env_ll_set where
  "example_set = \<lparr>items = None, array_size = 0, num_elem = 0\<rparr>"

lemma example_item_alloc_ok: "alloc_total example_item_alloc" "alloc_sized example_item_alloc"
  by (simp_all add: alloc_total_def alloc_sized_def example_item_alloc_def)

theorem settings_read_back_witness:
  "\<exists>st'. dlt_env_extract_ll_set example_item_alloc [] (Some [0x41, 0x3A, 0x3A, 0x33, 0x3B, 0x3A, 0x42, 0x3A, 0x2D, 0x31]) (Some example_set) =
     (0, Some [], Some st') \<and> elements st' = [\<lparr>appId = [0x41, 0, 0, 0], ctxId = [0, 0, 0, 0], ll = 3\<rparr>, \<lparr>appId = [0, 0, 0, 0], ctxId = [0x42, 0, 0, 0], ll = - 1\<rparr>]"
proof -
  have t: "settings_text [([0x41], [], 3), ([], [0x42], - 1)] = [0x41, 0x3A, 0x3A, 0x33, 0x3B, 0x3A, 0x42, 0x3A, 0x2D, 0x31]"
    "map stored [([0x41], [], 3), ([], [0x42], - 1)] =
      [\<lparr>appId = [0x41, 0, 0, 0], ctxId = [0, 0, 0, 0], ll = 3\<rparr>, \<lparr>appId = [0, 0, 0, 0], ctxId = [0x42, 0, 0, 0], ll = - 1\<rparr>]"
    by code_simp+
  show ?thesis
    using settings_read_back [OF example_item_alloc_ok(1), of "[([0x41], [], 3), ([], [0x42], - 1)]" "[]" example_set]
    unfolding t by (simp add: plain_id_def level_ok_def)
qed



text \<open>
  C33. \<open>dlt_env_adjust_ll_from_env\<close> is the reference search: the level of the first item whose priority is the
  highest of all items, and the given level when no item fits. Leaving the loop early at priority four
  changes nothing.
\<close>

theorem adjust_is_best_match:
  "dlt_env_adjust_ll_from_env (Some st) (Some a) (Some c) l = best_match a c (elements st) l"
  using adjust_loop_best [of 0 a c "elements st" l] highest_range [of a c "elements st"]
  by (auto simp: dlt_env_adjust_ll_from_env_def best_match_def elements_def)

text \<open>
  C34. A variable that is refused takes effect. An empty variable makes the parser return an error, but the item it
  had begun stays in the set: it fits every context, with level 0, and switches all of them off.
\<close>

theorem empty_variable_switches_off:
  assumes "alloc_total alloc"
  shows "\<exists>st'. dlt_env_extract_ll_set alloc junk (Some []) (Some st) = (- 1, Some [], Some st') \<and>
    (\<forall>a c l. dlt_env_adjust_ll_from_env (Some st') (Some a) (Some c) l = 0)"
proof -
  obtain b where b: "alloc 10 = Some b" "length b = 10" using assms by (auto simp: alloc_total_def)
  let ?z = "zero_item\<lparr>appId := [0, 0, 0, 0]\<rparr>"
  let ?s = "st\<lparr>items := Some (b[0 := ?z]), array_size := 10, num_elem := 1\<rparr>"
  have i: "dlt_env_extract_ll_item junk (Some []) (Some x) = (- 1, Some [], Some ?z)" for x
    by (simp add: dlt_env_extract_ll_item_def dlt_env_extract_id_def zero_item_def numeral_eq_Suc memput_def)
  have "extract_turn alloc junk [] (st\<lparr>items := Some b, array_size := 10, num_elem := 0\<rparr>) = (- 1, [], ?s)"
    by (simp add: extract_turn_def i Let_def)
  then have "dlt_env_extract_ll_set alloc junk (Some []) (Some st) = (- 1, Some [], Some ?s)"
    by (simp add: dlt_env_extract_ll_set_def dlt_env_init_ll_set_def b extract_loop.simps)
  moreover have "elements ?s = [?z]" using b(2) by (cases b) (simp_all add: elements_def)
  then have "dlt_env_adjust_ll_from_env (Some ?s) (Some a) (Some c) l = 0" for a c l
    by (simp add: dlt_env_adjust_ll_from_env_def elements_def Let_def dlt_env_ll_item_get_matching_prio_def zero_item_def)
  ultimately show ?thesis by blast
qed

theorem empty_variable_switches_off_witness:
  "\<exists>st'. dlt_env_extract_ll_set example_item_alloc [] (Some []) (Some example_set) = (- 1, Some [], Some st') \<and>
    dlt_env_adjust_ll_from_env (Some st') (Some [0x41, 0, 0, 0]) (Some [0x43, 0, 0, 0]) 4 = 0"
  using empty_variable_switches_off [OF example_item_alloc_ok(1), of "[]" example_set] by blast

end
