(* ===== verification/User_Contexts.thy ===== *)
theory User_Contexts
  imports User_Wire Env_Levels
begin

text \<open>
  The contexts of an application and the messages of the daemon to it, \<open>src/lib/dlt_user.c\<close>: the table
  \<open>dlt_ll_ts\<close>, which grows in steps of 500, the cells with the log level and the trace status that an entry of the
  table shares with the handle of the program, registering and unregistering contexts and callbacks, and the
  loop over the messages of the daemon. The theory shows that a handle always reads the level of its
  entry, whatever is registered or unregistered around it, and that the bytes with which the daemon
  announces a level reach exactly this handle.
\<close>

section \<open>State\<close>

text \<open>Functions of the program that the library calls are numbers, their private data too.\<close>

record DltUserInjectionCallback =
  i_service_id :: nat
  i_callback :: "nat option"
  i_callback_with_id :: "nat option"
  i_data :: "nat option"

text \<open>A pointer to a level or a status is the address of a cell.\<close>

record dlt_ll_ts_type =
  e_contextID :: "byte list"
  e_log_level :: int
  e_log_level_ptr :: "nat option"
  e_trace_status :: int
  e_trace_status_ptr :: "nat option"
  e_description :: "byte list option"
  e_injection_table :: "DltUserInjectionCallback list option"
  e_nrcallbacks :: nat
  e_changed_callback :: "nat option"

text \<open>The handle with its pointers; \<open>seen\<close> is the handle with the level that its pointer shows.\<close>

record context_handle = DltContext +
  h_log_level_ptr :: "nat option"
  h_trace_status_ptr :: "nat option"

datatype user_call =
    Level_Changed nat "byte list" nat nat
  | Injected nat nat "byte list"
  | Injected_With_Id nat nat "byte list" nat

text \<open>
  \<open>k_cells\<close> are the allocated cells, None when freed. \<open>k_app\<close> holds the other fields of \<open>dlt_user\<close> with the
  pipe and the startup buffer; its \<open>u_contexts\<close> is the part of the table that its functions read.
\<close>

record context_lib =
  k_app :: app_state
  k_table :: "dlt_ll_ts_type list option"
  k_num :: nat
  k_max :: nat
  k_cells :: "int option list"
  k_env_levels :: dlt_env_ll_set
  k_user_handle :: int
  k_receiver :: DltReceiver
  k_mem :: store
  k_log_state :: int
  k_calls :: "user_call list"

text \<open>
  The results of \<open>malloc\<close> for tables, texts, cells (with their content), callback tables and injected
  data, the result of \<open>poll\<close> with whether it reports an error, and of \<open>read\<close>; \<open>ck_init\<close> is \<open>dlt_init\<close>.
\<close>

record context_env =
  ck_app :: app_env
  ck_init :: "context_lib \<Rightarrow> int \<times> context_lib"
  ck_table :: "nat \<Rightarrow> bool"
  ck_text :: "nat \<Rightarrow> bool"
  ck_cell :: "nat \<Rightarrow> int option"
  ck_callbacks :: "nat \<Rightarrow> bool"
  ck_inject :: "nat \<Rightarrow> bool"
  ck_poll :: "context_lib \<Rightarrow> int \<times> bool"
  ck_read :: "context_lib \<Rightarrow> nat \<Rightarrow> byte list option"
  ck_backup :: bool

abbreviation (input) DLT_USER_CONTEXT_ALLOC_SIZE :: nat where "DLT_USER_CONTEXT_ALLOC_SIZE \<equiv> 500"
abbreviation (input) DLT_USER_TRACE_STATUS_NOT_SET :: int where "DLT_USER_TRACE_STATUS_NOT_SET \<equiv> - 2"
abbreviation (input) DLT_USER_INJECTION_MIN :: nat where "DLT_USER_INJECTION_MIN \<equiv> 0xFFF"
abbreviation (input) DLT_USER_MESSAGE_INJECTION :: int where "DLT_USER_MESSAGE_INJECTION \<equiv> 7"

definition user_of :: "context_lib \<Rightarrow> DltUser" where "user_of k = s_user (k_app k)"

definition seen :: "context_lib \<Rightarrow> context_handle \<Rightarrow> DltContext" where
  "seen k h = (DltContext.truncate h)\<lparr>c_log_level := (case h_log_level_ptr h of None \<Rightarrow> None | Some a \<Rightarrow> k_cells k ! a)\<rparr>"

definition put_table :: "dlt_ll_ts_type list \<Rightarrow> nat \<Rightarrow> context_lib \<Rightarrow> context_lib" where
  "put_table t n k =
     k\<lparr>k_table := Some t, k_num := n,
       k_app := (k_app k)\<lparr>s_user := (user_of k)\<lparr>u_contexts := Some (map (\<lambda>e. (e_contextID e, e_description e)) (take n t))\<rparr>\<rparr>\<rparr>"

definition put_cell :: "nat option \<Rightarrow> int \<Rightarrow> int option list \<Rightarrow> int option list" where
  "put_cell p v cells = (case p of None \<Rightarrow> cells | Some a \<Rightarrow> cells[a := Some v])"

definition free_cell :: "nat option \<Rightarrow> int option list \<Rightarrow> int option list" where
  "free_cell p cells = (case p of None \<Rightarrow> cells | Some a \<Rightarrow> cells[a := None])"

section \<open>Registering\<close>

definition new_entry :: dlt_ll_ts_type where
  "new_entry = \<lparr>e_contextID = [0, 0, 0, 0], e_log_level = 4, e_log_level_ptr = None, e_trace_status = 0,
     e_trace_status_ptr = None, e_description = None, e_injection_table = None, e_nrcallbacks = 0, e_changed_callback = None\<rparr>"

text \<open>The table with room for one more entry, None when the memory is refused.\<close>

definition extend_table :: "context_env \<Rightarrow> context_lib \<Rightarrow> context_lib option" where
  "extend_table env k =
     (case k_table k of
        None \<Rightarrow>
          (if ck_table env DLT_USER_CONTEXT_ALLOC_SIZE
           then Some (put_table (replicate DLT_USER_CONTEXT_ALLOC_SIZE new_entry) (k_num k) (k\<lparr>k_max := DLT_USER_CONTEXT_ALLOC_SIZE\<rparr>))
           else None)
      | Some t \<Rightarrow>
          if k_num k mod DLT_USER_CONTEXT_ALLOC_SIZE = 0 then
            (let mx = (k_num k div DLT_USER_CONTEXT_ALLOC_SIZE + 1) * DLT_USER_CONTEXT_ALLOC_SIZE
             in if ck_table env mx
                then Some (put_table (take (k_num k) t @ replicate (mx - k_num k) new_entry) (k_num k) (k\<lparr>k_max := mx\<rparr>))
                else None)
          else Some k)"

text \<open>A pointer that is null gets a new cell.\<close>

definition alloc_cell :: "context_env \<Rightarrow> context_lib \<Rightarrow> nat option \<Rightarrow> nat option \<times> context_lib" where
  "alloc_cell env k p =
     (case p of Some a \<Rightarrow> (Some a, k)
      | None \<Rightarrow> (case ck_cell env (length (k_cells k)) of None \<Rightarrow> (None, k)
                 | Some v \<Rightarrow> (Some (length (k_cells k)), k\<lparr>k_cells := k_cells k @ [Some v]\<rparr>)))"

definition context_log_init ::
  "context_env \<Rightarrow> context_lib \<Rightarrow> context_handle option \<Rightarrow> int \<times> context_lib \<times> DltContextData" where
  "context_log_init env k handle =
     (let (ret, k1) = (if handle \<noteq> None \<and> \<not> u_initialised (user_of k) then ck_init env k else (DLT_RETURN_OK, k))
      in case dlt_user_log_init (\<lambda>_. (ret, user_of k1)) (user_of k) (map_option (seen k1) handle) (Some (ae_log (ck_app env))) of
           (rc, _, log) \<Rightarrow> (rc, k1, the log))"

text \<open>Description and cells of a new entry: the entry, whether all memory was given, and the state.\<close>

definition prepare_entry ::
  "context_env \<Rightarrow> context_lib \<Rightarrow> byte list \<Rightarrow> byte list option \<Rightarrow> bool \<times> dlt_ll_ts_type \<times> context_lib" where
  "prepare_entry env k contextid description =
     (let e = the (k_table k) ! k_num k;
          e1 = e\<lparr>e_contextID := the (dlt_set_id (Some (e_contextID e)) (Some contextid)), e_description := None\<rparr>
      in if description \<noteq> None \<and> \<not> ck_text env (length (c_string (the description)) + 1) then (False, e1, k)
         else
           let e2 = e1\<lparr>e_description := map_option c_string description\<rparr>
           in (case alloc_cell env k (e_log_level_ptr e2) of
                 (None, k1) \<Rightarrow> (False, e2, k1)
               | (Some a, k1) \<Rightarrow>
                   (case alloc_cell env k1 (e_trace_status_ptr e2) of
                      (None, k2) \<Rightarrow> (False, e2\<lparr>e_log_level_ptr := Some a\<rparr>, k2)
                    | (Some b, k2) \<Rightarrow> (True, e2\<lparr>e_log_level_ptr := Some a, e_trace_status_ptr := Some b\<rparr>, k2))))"

text \<open>The level of the environment comes first; without any level the entry keeps what it was filled with.\<close>

definition entry_levels :: "int \<Rightarrow> int \<Rightarrow> int \<Rightarrow> dlt_ll_ts_type \<Rightarrow> dlt_ll_ts_type" where
  "entry_levels envLogLevel loglevel tracestatus e =
     (let e1 = (if envLogLevel \<noteq> DLT_USER_LOG_LEVEL_NOT_SET then e\<lparr>e_log_level := i8 envLogLevel\<rparr>
                else if loglevel \<noteq> DLT_USER_LOG_LEVEL_NOT_SET then e\<lparr>e_log_level := i8 loglevel\<rparr> else e);
          e2 = (if tracestatus \<noteq> DLT_USER_TRACE_STATUS_NOT_SET then e1\<lparr>e_trace_status := i8 tracestatus\<rparr> else e1)
      in e2\<lparr>e_trace_status := i8 tracestatus\<rparr>)"

definition dlt_register_context_ll_ts_llccb ::
  "context_env \<Rightarrow> context_lib \<Rightarrow> context_handle option \<Rightarrow> byte list option \<Rightarrow> byte list option \<Rightarrow> int \<Rightarrow> int \<Rightarrow> nat option \<Rightarrow>
   int \<times> context_lib \<times> context_handle option" where
  "dlt_register_context_ll_ts_llccb env k handle contextid description loglevel tracestatus changed =
     (case (handle, contextid) of
        (Some h, Some ident) \<Rightarrow>
          if ident ! 0 = 0 then (DLT_RETURN_WRONG_PARAMETER, k, handle)
          else if u_is_child (user_of k) then (DLT_RETURN_ERROR, k, handle)
          else if loglevel < DLT_USER_LOG_LEVEL_NOT_SET \<or> loglevel \<ge> DLT_LOG_MAX then (DLT_RETURN_WRONG_PARAMETER, k, handle)
          else if tracestatus < DLT_USER_TRACE_STATUS_NOT_SET \<or> tracestatus \<ge> 2 then (DLT_RETURN_WRONG_PARAMETER, k, handle)
          else
            (case context_log_init env k handle of
               (rc, k1, log) \<Rightarrow>
                 if rc < DLT_RETURN_OK then (DLT_RETURN_ERROR, k1, handle)
                 else
                   let h1 = h\<lparr>c_mcnt := 0\<rparr>
                   in (case extend_table env k1 of
                         None \<Rightarrow> (DLT_RETURN_ERROR, k1, Some h1)
                       | Some k2 \<Rightarrow>
                         let n = k_num k2; t = the (k_table k2)
                         in (case prepare_entry env k2 ident description of
                               (done, e, k3) \<Rightarrow>
                                 if \<not> done then (DLT_RETURN_ERROR, put_table (t[n := e]) n k3, Some h1)
                                 else
                                   let envLogLevel = dlt_env_adjust_ll_from_env (Some (k_env_levels k3)) (Some (u_appID (user_of k3)))
                                                       (Some ident) DLT_USER_LOG_LEVEL_NOT_SET;
                                       level = (if envLogLevel \<noteq> DLT_USER_LOG_LEVEL_NOT_SET then envLogLevel else loglevel);
                                       e1 = (entry_levels envLogLevel loglevel tracestatus e)\<lparr>e_changed_callback := changed\<rparr>;
                                       h2 = h1\<lparr>c_contextID := the (dlt_set_id (Some (c_contextID h1)) (Some ident)),
                                               c_log_level_pos := i32 (int n),
                                               h_log_level_ptr := e_log_level_ptr e1, h_trace_status_ptr := e_trace_status_ptr e1\<rparr>;
                                       cells = put_cell (e_trace_status_ptr e1) (e_trace_status e1)
                                                 (put_cell (e_log_level_ptr e1) (e_log_level e1) (k_cells k3));
                                       k4 = put_table (t[n := e1]) (n + 1) (k3\<lparr>k_cells := cells\<rparr>);
                                       log1 = log\<lparr>l_handle := Some (seen k4 h2), l_description := e_description e1,
                                                  l_log_level := level, l_trace_status := tracestatus\<rparr>
                                   in (case dlt_user_log_send_register_context (ck_app env) (k_app k4) (Some log1) of
                                         (ret, app) \<Rightarrow> (ret, k4\<lparr>k_app := app\<rparr>, Some h2)))))
      | _ \<Rightarrow> (DLT_RETURN_WRONG_PARAMETER, k, handle))"

definition dlt_register_context_ll_ts where
  "dlt_register_context_ll_ts env k handle contextid description loglevel tracestatus =
     dlt_register_context_ll_ts_llccb env k handle contextid description loglevel tracestatus None"

text \<open>The start of the functions that make sure that the library is initialised.\<close>

definition context_assure_init :: "context_env \<Rightarrow> context_lib \<Rightarrow> bool \<times> context_lib" where
  "context_assure_init env k =
     (if u_initialised (user_of k) then (True, k) else (case ck_init env k of (ret, k1) \<Rightarrow> (ret \<ge> 0, k1)))"

definition dlt_register_context ::
  "context_env \<Rightarrow> context_lib \<Rightarrow> context_handle option \<Rightarrow> byte list option \<Rightarrow> byte list option \<Rightarrow>
   int \<times> context_lib \<times> context_handle option" where
  "dlt_register_context env k handle contextid description =
     (if handle = None then (DLT_RETURN_WRONG_PARAMETER, k, handle)
      else if u_is_child (user_of k) then (DLT_RETURN_ERROR, k, handle)
      else case context_assure_init env k of
        (ok, k1) \<Rightarrow>
          if \<not> ok then (DLT_RETURN_ERROR, k1, handle)
          else if contextid = None \<or> the contextid ! 0 = 0 then (DLT_RETURN_WRONG_PARAMETER, k1, handle)
          else dlt_register_context_ll_ts env k1 handle contextid description DLT_USER_LOG_LEVEL_NOT_SET DLT_USER_TRACE_STATUS_NOT_SET)"

definition dlt_register_context_llccb ::
  "context_env \<Rightarrow> context_lib \<Rightarrow> context_handle option \<Rightarrow> byte list option \<Rightarrow> byte list option \<Rightarrow> nat option \<Rightarrow>
   int \<times> context_lib \<times> context_handle option" where
  "dlt_register_context_llccb env k handle contextid description changed =
     (if handle = None \<or> contextid = None \<or> the contextid ! 0 = 0 then (DLT_RETURN_WRONG_PARAMETER, k, handle)
      else if u_is_child (user_of k) then (DLT_RETURN_ERROR, k, handle)
      else case context_assure_init env k of
        (ok, k1) \<Rightarrow>
          if \<not> ok then (DLT_RETURN_ERROR, k1, handle)
          else dlt_register_context_ll_ts_llccb env k1 handle contextid description
                 DLT_USER_LOG_LEVEL_NOT_SET DLT_USER_TRACE_STATUS_NOT_SET changed)"

section \<open>Unregistering\<close>

text \<open>
  The position in the handle is used as it is: None stands for an access outside of the table.
\<close>

definition clear_entry :: "dlt_ll_ts_type \<Rightarrow> dlt_ll_ts_type" where
  "clear_entry e =
     e\<lparr>e_contextID := the (dlt_set_id (Some (e_contextID e)) (Some [0])), e_log_level := 4, e_trace_status := 0,
       e_log_level_ptr := None, e_trace_status_ptr := None, e_description := None,
       e_injection_table := None, e_nrcallbacks := 0, e_changed_callback := None\<rparr>"

definition dlt_unregister_context ::
  "context_env \<Rightarrow> context_lib \<Rightarrow> context_handle option \<Rightarrow> (int \<times> context_lib \<times> context_handle option) option" where
  "dlt_unregister_context env k handle =
     (if u_is_child (user_of k) then Some (DLT_RETURN_ERROR, k, handle)
      else case context_log_init env (k) handle of
        (rc, k1, log) \<Rightarrow>
          if rc \<le> DLT_RETURN_ERROR then Some (DLT_RETURN_ERROR, k1, handle)
          else
            let h1 = (the handle)\<lparr>h_log_level_ptr := None, h_trace_status_ptr := None\<rparr>;
                log1 = log\<lparr>l_description := None, l_handle := Some (seen k1 h1)\<rparr>;
                pos = c_log_level_pos h1
            in if k_table k1 \<noteq> None \<and> (pos < 0 \<or> pos \<ge> int (length (the (k_table k1)))) then None
               else
                 let k2 = (case k_table k1 of None \<Rightarrow> k1
                           | Some t \<Rightarrow>
                             let e = t ! nat pos
                             in put_table (t[nat pos := clear_entry e]) (k_num k1)
                                  (k1\<lparr>k_cells := free_cell (e_trace_status_ptr e) (free_cell (e_log_level_ptr e) (k_cells k1))\<rparr>))
                 in (case dlt_user_log_send_unregister_context (ck_app env) (k_app k2) (Some log1) of
                       (ret, app) \<Rightarrow> Some (ret, k2\<lparr>k_app := app\<rparr>, Some h1)))"

section \<open>Levels of the whole application\<close>

definition limit_entry :: "int \<Rightarrow> int \<Rightarrow> dlt_ll_ts_type \<Rightarrow> dlt_ll_ts_type" where
  "limit_entry loglevel tracestatus e = e\<lparr>e_log_level := i8 loglevel, e_trace_status := i8 tracestatus\<rparr>"

definition limit_cells :: "int \<Rightarrow> int \<Rightarrow> dlt_ll_ts_type \<Rightarrow> int option list \<Rightarrow> int option list" where
  "limit_cells loglevel tracestatus e cells =
     put_cell (e_trace_status_ptr e) (i8 tracestatus) (put_cell (e_log_level_ptr e) (i8 loglevel) cells)"

definition dlt_set_application_ll_ts_limit :: "context_env \<Rightarrow> context_lib \<Rightarrow> int \<Rightarrow> int \<Rightarrow> int \<times> context_lib" where
  "dlt_set_application_ll_ts_limit env k loglevel tracestatus =
     (if u_is_child (user_of k) then (DLT_RETURN_ERROR, k)
      else if loglevel < DLT_USER_LOG_LEVEL_NOT_SET \<or> loglevel \<ge> DLT_LOG_MAX then (DLT_RETURN_WRONG_PARAMETER, k)
      else if tracestatus < DLT_USER_TRACE_STATUS_NOT_SET \<or> tracestatus \<ge> 2 then (DLT_RETURN_WRONG_PARAMETER, k)
      else case context_assure_init env k of
        (ok, k1) \<Rightarrow>
          if \<not> ok then (DLT_RETURN_ERROR, k1)
          else (case k_table k1 of None \<Rightarrow> (DLT_RETURN_ERROR, k1)
            | Some t \<Rightarrow>
              let n = k_num k1;
                  t' = map (limit_entry loglevel tracestatus) (take n t) @ drop n t;
                  k2 = put_table t' n (k1\<lparr>k_cells := fold (limit_cells loglevel tracestatus) (take n t) (k_cells k1)\<rparr>)
              in (case dlt_send_app_ll_ts_limit (ck_app env) (k_app k2) (Some (u_appID (user_of k2))) loglevel tracestatus of
                    (ret, app) \<Rightarrow> (ret, k2\<lparr>k_app := app\<rparr>))))"

definition dlt_get_log_state :: "context_lib \<Rightarrow> int" where
  "dlt_get_log_state k = k_log_state k"

section \<open>Callbacks\<close>

text \<open>\<open>put_entry\<close> changes one entry; the position is checked by nobody, None is an access outside.\<close>

definition put_entry :: "nat \<Rightarrow> (dlt_ll_ts_type \<Rightarrow> dlt_ll_ts_type) \<Rightarrow> context_lib \<Rightarrow> context_lib option" where
  "put_entry i f k =
     (let t = the (k_table k) in if i < length t then Some (put_table (t[i := f (t ! i)]) (k_num k) k) else None)"

fun service_index :: "nat \<Rightarrow> DltUserInjectionCallback list \<Rightarrow> nat" where
  "service_index sid [] = 0"
| "service_index sid (x # xs) = (if i_service_id x = sid then 0 else service_index sid xs + 1)"

definition injection_entry :: "nat \<Rightarrow> nat option \<Rightarrow> nat option \<Rightarrow> DltUserInjectionCallback" where
  "injection_entry sid cbk priv =
     (if priv = None then \<lparr>i_service_id = sid, i_callback = cbk, i_callback_with_id = None, i_data = None\<rparr>
      else \<lparr>i_service_id = sid, i_callback = None, i_callback_with_id = cbk, i_data = priv\<rparr>)"

text \<open>Each service is entered once; None when the memory for a longer table is refused.\<close>

definition add_injection ::
  "(nat \<Rightarrow> bool) \<Rightarrow> nat \<Rightarrow> nat option \<Rightarrow> nat option \<Rightarrow> dlt_ll_ts_type \<Rightarrow> dlt_ll_ts_type option" where
  "add_injection alloc sid cbk priv e =
     (let xs = (case e_injection_table e of None \<Rightarrow> [] | Some xs \<Rightarrow> take (e_nrcallbacks e) xs);
          j = service_index sid xs;
          x = injection_entry sid cbk priv
      in if j < length xs then Some (e\<lparr>e_injection_table := Some ((the (e_injection_table e))[j := x])\<rparr>)
         else if \<not> alloc (e_nrcallbacks e + 1) then None
         else Some (e\<lparr>e_injection_table := Some (xs @ [x]), e_nrcallbacks := e_nrcallbacks e + 1\<rparr>))"

definition dlt_register_injection_callback_with_id ::
  "context_env \<Rightarrow> context_lib \<Rightarrow> context_handle option \<Rightarrow> nat \<Rightarrow> nat option \<Rightarrow> nat option \<Rightarrow> (int \<times> context_lib) option" where
  "dlt_register_injection_callback_with_id env k handle service_id cbk priv =
     (case context_log_init env k handle of
        (rc, k1, log) \<Rightarrow>
          if rc < DLT_RETURN_OK then Some (DLT_RETURN_ERROR, k1)
          else if service_id < DLT_USER_INJECTION_MIN then Some (DLT_RETURN_WRONG_PARAMETER, k1)
          else if \<not> u_is_daemon (user_of k1) then Some (DLT_RETURN_OK, k1)
          else (case k_table k1 of None \<Rightarrow> Some (DLT_RETURN_OK, k1)
            | Some t \<Rightarrow>
              let i = u32 (c_log_level_pos (the handle))
              in if i \<ge> length t then None
                 else (case add_injection (ck_callbacks env) service_id cbk priv (t ! i) of
                         None \<Rightarrow> Some (DLT_RETURN_ERROR, k1)
                       | Some e \<Rightarrow> map_option (\<lambda>k2. (DLT_RETURN_OK, k2)) (put_entry i (\<lambda>_. e) k1))))"

definition dlt_register_injection_callback where
  "dlt_register_injection_callback env k handle service_id cbk =
     dlt_register_injection_callback_with_id env k handle service_id cbk None"

definition dlt_register_log_level_changed_callback ::
  "context_env \<Rightarrow> context_lib \<Rightarrow> context_handle option \<Rightarrow> nat option \<Rightarrow> (int \<times> context_lib) option" where
  "dlt_register_log_level_changed_callback env k handle changed =
     (case context_log_init env k handle of
        (rc, k1, log) \<Rightarrow>
          if rc < DLT_RETURN_OK then Some (DLT_RETURN_ERROR, k1)
          else if \<not> u_is_daemon (user_of k1) then Some (DLT_RETURN_OK, k1)
          else if k_table k1 = None then Some (DLT_RETURN_OK, k1)
          else map_option (\<lambda>k2. (DLT_RETURN_OK, k2))
                 (put_entry (u32 (c_log_level_pos (the handle))) (\<lambda>e. e\<lparr>e_changed_callback := changed\<rparr>) k1))"

section \<open>Messages of the daemon\<close>

text \<open>
  \<open>bs\<close> is the memory from \<open>buf\<close> on. \<open>delayed\<close> is \<open>delayed_log_level_changed_callback\<close>, which is
  set once before the loop: None while its function is null.
\<close>

type_synonym delayed = "(nat \<times> byte list \<times> int \<times> int) option"

datatype turn = Go_On | Leave | Return int

definition received :: "context_lib \<Rightarrow> byte list" where
  "received k = drop (the (buf (k_receiver k))) (k_mem k (the (rbuffer (k_receiver k))))"

definition remove_bytes :: "int \<Rightarrow> context_lib \<Rightarrow> int \<times> context_lib" where
  "remove_bytes n k =
     (case dlt_receiver_remove (Some (k_receiver k)) n of (rc, r) \<Rightarrow> (rc, k\<lparr>k_receiver := the r\<rparr>))"

text \<open>The search for the user header, which does not look behind the received bytes.\<close>

function resync_offset :: "byte list \<Rightarrow> int \<Rightarrow> nat \<Rightarrow> nat" where
  "resync_offset bs n off =
     (if \<not> dlt_user_check_userheader (drop off bs) \<and> 8 + (int off + 1) \<le> n then resync_offset bs n (off + 1) else off)"
  by pat_completeness auto
termination by (relation "measure (\<lambda>(_, n, off). nat (n - int off))") auto

declare resync_offset.simps [simp del]

definition set_entry_level :: "int \<Rightarrow> int \<Rightarrow> nat \<Rightarrow> context_lib \<Rightarrow> context_lib" where
  "set_entry_level level ts i k =
     (let t = the (k_table k); e = t ! i
      in put_table (t[i := e\<lparr>e_log_level := level, e_trace_status := ts\<rparr>]) (k_num k)
           (k\<lparr>k_cells := put_cell (e_trace_status_ptr e) ts (put_cell (e_log_level_ptr e) level (k_cells k))\<rparr>))"

definition level_calls :: "delayed \<Rightarrow> user_call list" where
  "level_calls d = (case d of None \<Rightarrow> [] | Some (f, c, l, s) \<Rightarrow> [Level_Changed f c (u8 l) (u8 s)])"

definition log_level_message :: "context_lib \<Rightarrow> delayed \<Rightarrow> turn \<times> context_lib \<times> delayed" where
  "log_level_message k d =
     (if bytesRcvd (k_receiver k) < 8 + 6 then (Leave, k, d)
      else
        let bs = received k;
            level = i8 (le_val (memget bs 8 1)); ts = i8 (le_val (memget bs 9 1)); pos = i32 (le_val (memget bs 10 4));
            hit = (pos \<ge> 0 \<and> pos < i32 (int (k_num k)) \<and> k_table k \<noteq> None);
            e = the (k_table k) ! nat pos;
            d1 = (if hit then map_option (\<lambda>f. (f, e_contextID e, level, ts)) (e_changed_callback e) else d);
            k1 = (if hit then set_entry_level level ts (nat pos) k else k);
            k2 = k1\<lparr>k_calls := k_calls k1 @ level_calls d1\<rparr>
        in (case remove_bytes (8 + 6) k2 of
              (rc, k3) \<Rightarrow> (if rc = DLT_RETURN_ERROR then Return DLT_RETURN_ERROR else Go_On, k3, d1)))"

definition injection_calls :: "DltUserInjectionCallback \<Rightarrow> byte list \<Rightarrow> user_call list" where
  "injection_calls x bytes =
     (case (i_callback x, i_callback_with_id x) of
        (Some f, _) \<Rightarrow> [Injected f (i_service_id x) bytes]
      | (None, Some f) \<Rightarrow> [Injected_With_Id f (i_service_id x) bytes (the (i_data x))]
      | _ \<Rightarrow> [])"

text \<open>The callback for a service of the entry at a position: None for an access outside of the table.\<close>

definition find_injection :: "dlt_ll_ts_type list \<Rightarrow> int \<Rightarrow> nat \<Rightarrow> DltUserInjectionCallback option option" where
  "find_injection t pos sid =
     (if pos < 0 \<or> pos \<ge> int (length t) then None
      else
        let e = t ! nat pos;
            xs = (case e_injection_table e of None \<Rightarrow> [] | Some xs \<Rightarrow> take (e_nrcallbacks e) xs);
            j = service_index sid xs
        in Some (if j < length xs then Some (xs ! j) else None))"

text \<open>The result is None when memory outside of the table or of the receiver is read.\<close>

definition injection_message :: "context_env \<Rightarrow> context_lib \<Rightarrow> (turn \<times> context_lib) option" where
  "injection_message env k =
     (if bytesRcvd (k_receiver k) < 8 + 12 then Some (Leave, k)
      else
        let bs = received k;
            pos = i32 (le_val (memget bs 8 4)); sid = nat (le_val (memget bs 12 4)); len = le_val (memget bs 16 4);
            finish = (\<lambda>k1. case remove_bytes (i32 (8 + 12 + len)) k1 of
                        (rc, k2) \<Rightarrow> Some (if rc \<noteq> DLT_RETURN_OK then Return DLT_RETURN_ERROR else Go_On, k2))
        in if bytesRcvd (k_receiver k) < i32 (8 + 12 + len) then Some (Leave, k)
           else if len > 0 \<and> k_table k \<noteq> None then
             (case find_injection (the (k_table k)) pos sid of
                None \<Rightarrow> None
              | Some None \<Rightarrow> finish k
              | Some (Some x) \<Rightarrow>
                  if \<not> ck_inject env (nat len) then Some (Return DLT_RETURN_ERROR, k)
                  else if 8 + 12 + nat len > length bs then None
                  else finish (k\<lparr>k_calls := k_calls k @ injection_calls x (memget bs (8 + 12) (nat len))\<rparr>))
           else finish k)"

definition log_state_message :: "context_lib \<Rightarrow> turn \<times> context_lib" where
  "log_state_message k =
     (if bytesRcvd (k_receiver k) < 8 + 1 then (Leave, k)
      else (case remove_bytes (8 + 1) (k\<lparr>k_log_state := i8 (le_val (memget (received k) 8 1))\<rparr>) of
              (rc, k1) \<Rightarrow> (if rc = DLT_RETURN_ERROR then Return DLT_RETURN_ERROR else Go_On, k1)))"

text \<open>One turn of the loop.\<close>

definition skip_to_header :: "nat \<Rightarrow> context_lib \<Rightarrow> context_lib" where
  "skip_to_header off k =
     k\<lparr>k_receiver := (k_receiver k)\<lparr>buf := map_option (\<lambda>p. p + off) (buf (k_receiver k)),
                                   bytesRcvd := bytesRcvd (k_receiver k) - int off\<rparr>\<rparr>"

definition check_turn :: "context_env \<Rightarrow> context_lib \<Rightarrow> delayed \<Rightarrow> (turn \<times> context_lib \<times> delayed) option" where
  "check_turn env k d =
     (if bytesRcvd (k_receiver k) < int SIZEOF_DltUserHeader then Some (Leave, k, d)
      else
        let off = resync_offset (received k) (bytesRcvd (k_receiver k)) 0
        in if \<not> dlt_user_check_userheader (drop off (received k)) then Some (Leave, k, d)
           else
             let k1 = (if off > 0 then skip_to_header off k else k);
                 message = le_val (memget (received k1) 4 4)
             in if message = DLT_USER_MESSAGE_LOG_LEVEL then Some (log_level_message k1 d)
                else if message = DLT_USER_MESSAGE_INJECTION then map_option (\<lambda>(r, k2). (r, k2, d)) (injection_message env k1)
                else if message = DLT_USER_MESSAGE_LOG_STATE then (case log_state_message k1 of (r, k2) \<Rightarrow> Some (r, k2, d))
                else Some (Go_On, snd (remove_bytes (int SIZEOF_DltUserHeader) k1), d))"

text \<open>A message that lets the loop go on was removed from the receiver.\<close>

lemma remove_bytes_ok:
  assumes "remove_bytes n k = (rc, k')"
  shows "buf (k_receiver k) \<noteq> None \<longrightarrow> buf (k_receiver k') \<noteq> None \<and> rc \<noteq> DLT_RETURN_ERROR \<and>
    (if n > bytesRcvd (k_receiver k) \<or> n \<le> 0 then rc \<noteq> DLT_RETURN_OK \<and> bytesRcvd (k_receiver k') = 0
     else rc = DLT_RETURN_OK \<and> bytesRcvd (k_receiver k') = bytesRcvd (k_receiver k) - n)"
  using assms by (auto simp: remove_bytes_def dlt_receiver_remove_def split: option.splits if_splits)

lemma receiver_put_table [simp]: "k_receiver (put_table t n k) = k_receiver k"
  by (simp add: put_table_def)

lemma receiver_set_entry_level [simp]: "k_receiver (set_entry_level l ts i k) = k_receiver k"
  by (simp add: set_entry_level_def Let_def)

lemma set_entry_level_simps [simp]:
  "k_calls (set_entry_level l ts i k) = k_calls k" "k_mem (set_entry_level l ts i k) = k_mem k" "k_num (set_entry_level l ts i k) = k_num k"
  by (simp_all add: set_entry_level_def Let_def put_table_def)

lemma log_level_message_removes:
  assumes "log_level_message k d = (Go_On, k', d')" "buf (k_receiver k) \<noteq> None"
  shows "bytesRcvd (k_receiver k') = bytesRcvd (k_receiver k) - 14 \<and> buf (k_receiver k') \<noteq> None"
  using assms by (auto simp: log_level_message_def Let_def dest!: remove_bytes_ok split: if_splits prod.splits)

lemma injection_message_removes:
  assumes "injection_message env k = Some (Go_On, k')" "buf (k_receiver k) \<noteq> None"
  shows "bytesRcvd (k_receiver k') < bytesRcvd (k_receiver k) \<and> buf (k_receiver k') \<noteq> None"
  using assms by (auto simp: injection_message_def Let_def dest!: remove_bytes_ok split: if_splits prod.splits option.splits)

lemma log_state_message_removes:
  assumes "log_state_message k = (Go_On, k')" "buf (k_receiver k) \<noteq> None"
  shows "bytesRcvd (k_receiver k') = bytesRcvd (k_receiver k) - 9 \<and> buf (k_receiver k') \<noteq> None"
  using assms by (auto simp: log_state_message_def dest!: remove_bytes_ok split: if_splits prod.splits)

lemma resync_offset_bound: "8 \<le> n \<Longrightarrow> int (resync_offset bs n 0) + 8 \<le> n"
proof -
  have "int off + 8 \<le> n \<Longrightarrow> int (resync_offset bs n off) + 8 \<le> n" for off
    by (induction bs n off rule: resync_offset.induct) (subst resync_offset.simps, simp)
  from this [of 0] show "8 \<le> n \<Longrightarrow> int (resync_offset bs n 0) + 8 \<le> n" by simp
qed

lemma check_turn_removes:
  assumes "check_turn env k d = Some (Go_On, k', d')" "buf (k_receiver k) \<noteq> None"
  shows "bytesRcvd (k_receiver k') < bytesRcvd (k_receiver k) \<and> 8 \<le> bytesRcvd (k_receiver k) \<and> buf (k_receiver k') \<noteq> None"
proof -
  let ?off = "resync_offset (received k) (bytesRcvd (k_receiver k)) 0"
  let ?k1 = "if ?off > 0 then skip_to_header ?off k else k"
  have 8: "8 \<le> bytesRcvd (k_receiver k)" using assms(1) by (auto simp: check_turn_def split: if_splits)
  have k1: "bytesRcvd (k_receiver ?k1) \<le> bytesRcvd (k_receiver k)" "8 \<le> bytesRcvd (k_receiver ?k1)" "buf (k_receiver ?k1) \<noteq> None"
    using resync_offset_bound [OF 8, of "received k"] 8 assms(2) by (auto simp: skip_to_header_def)
  have "bytesRcvd (k_receiver k') < bytesRcvd (k_receiver ?k1) \<and> buf (k_receiver k') \<noteq> None"
  proof -
    consider "log_level_message ?k1 d = (Go_On, k', d')" | "injection_message env ?k1 = Some (Go_On, k')"
      | "log_state_message ?k1 = (Go_On, k')" | "k' = snd (remove_bytes 8 ?k1)"
      using assms(1) 8 unfolding check_turn_def Let_def by (auto split: if_splits prod.splits)
    then show ?thesis
    proof cases
      case 1
      show ?thesis using log_level_message_removes [OF 1 k1(3)] by simp
    next
      case 2
      show ?thesis using injection_message_removes [OF 2 k1(3)] .
    next
      case 3
      show ?thesis using log_state_message_removes [OF 3 k1(3)] by simp
    next
      case 4
      then show ?thesis
        using remove_bytes_ok [of 8 ?k1 "fst (remove_bytes 8 ?k1)" k'] k1 by simp
    qed
  qed
  then show ?thesis using k1(1) 8 by simp
qed

function check_loop :: "context_env \<Rightarrow> context_lib \<Rightarrow> delayed \<Rightarrow> (int option \<times> context_lib) option" where
  "check_loop env k d =
     (if buf (k_receiver k) = None then None
      else case check_turn env k d of
        None \<Rightarrow> None
      | Some (Go_On, k1, d1) \<Rightarrow> check_loop env k1 d1
      | Some (Leave, k1, d1) \<Rightarrow> Some (None, k1)
      | Some (Return r, k1, d1) \<Rightarrow> Some (Some r, k1))"
  by pat_completeness auto
termination
  by (relation "measure (\<lambda>(_, k, _). nat (bytesRcvd (k_receiver k)))") (use check_turn_removes in force)+

declare check_loop.simps [simp del]

text \<open>\<open>dlt_user_log_check_user_message\<close> with a pipe to the application: None for an access outside of memory.\<close>

definition dlt_user_log_check_user_message :: "context_env \<Rightarrow> context_lib \<Rightarrow> (int \<times> context_lib) option" where
  "dlt_user_log_check_user_message env k =
     (if k_user_handle k < 0 then Some (DLT_RETURN_OK, k)
      else case ck_poll env k of
        (ret, hangup) \<Rightarrow>
          if ret = 0 then Some (DLT_RETURN_OK, k)
          else if hangup then Some (DLT_RETURN_ERROR, k\<lparr>k_app := set_handle (- 1) (k_app k)\<rparr>)
          else (case dlt_receiver_receive (ck_read env k) (k_mem k) (Some (k_receiver k)) of
            (n, mem, rec) \<Rightarrow>
              let k1 = k\<lparr>k_mem := mem, k_receiver := the rec\<rparr>
              in if n \<le> 0 then Some (DLT_RETURN_OK, k1)
                 else (case check_loop env k1 None of
                         None \<Rightarrow> None
                       | Some (Some r, k2) \<Rightarrow> Some (r, k2)
                       | Some (None, k2) \<Rightarrow>
                           (case dlt_receiver_move_to_begin (ck_backup env) (k_mem k2) (Some (k_receiver k2)) of
                              (rc, rec2) \<Rightarrow>
                                Some (if rc = DLT_RETURN_ERROR then DLT_RETURN_ERROR else DLT_RETURN_OK, k2\<lparr>k_receiver := the rec2\<rparr>)))))"

section \<open>The table and its cells\<close>

definition entry_ptrs :: "dlt_ll_ts_type \<Rightarrow> nat list" where
  "entry_ptrs e = (case e_log_level_ptr e of None \<Rightarrow> [] | Some a \<Rightarrow> [a]) @ (case e_trace_status_ptr e of None \<Rightarrow> [] | Some a \<Rightarrow> [a])"

text \<open>The cells of an entry, as far as it has them, show its level and its status.\<close>

definition shows_levels :: "int option list \<Rightarrow> dlt_ll_ts_type \<Rightarrow> bool" where
  "shows_levels cells e \<longleftrightarrow> (\<forall>a. e_log_level_ptr e = Some a \<longrightarrow> cells ! a = Some (e_log_level e)) \<and>
     (\<forall>a. e_trace_status_ptr e = Some a \<longrightarrow> cells ! a = Some (e_trace_status e))"

text \<open>Every entry has cells of its own, and they are allocated.\<close>

definition own_cells :: "dlt_ll_ts_type list \<Rightarrow> int option list \<Rightarrow> bool" where
  "own_cells t cells \<longleftrightarrow>
     (\<forall>i < length t. distinct (entry_ptrs (t ! i)) \<and> (\<forall>a \<in> set (entry_ptrs (t ! i)). a < length cells \<and> cells ! a \<noteq> None) \<and>
        (\<forall>j < length t. i \<noteq> j \<longrightarrow> set (entry_ptrs (t ! i)) \<inter> set (entry_ptrs (t ! j)) = {}))"

definition ll_table_ok :: "dlt_ll_ts_type list \<Rightarrow> nat \<Rightarrow> int option list \<Rightarrow> bool" where
  "ll_table_ok t n cells \<longleftrightarrow> n \<le> length t \<and> length t mod 500 = 0 \<and> own_cells t cells \<and> (\<forall>i < n. shows_levels cells (t ! i)) \<and>
     (\<forall>e \<in> set t. length (e_contextID e) = 4)"

definition lib_ok :: "context_lib \<Rightarrow> bool" where
  "lib_ok k \<longleftrightarrow> u_initialised (user_of k) \<and>
     (case k_table k of None \<Rightarrow> k_num k = 0 | Some t \<Rightarrow> length t = k_max k \<and> ll_table_ok t (k_num k) (k_cells k))"

text \<open>A registered handle points to the cells of its entry.\<close>

definition handle_ok :: "context_lib \<Rightarrow> context_handle \<Rightarrow> bool" where
  "handle_ok k h \<longleftrightarrow> (\<exists>t i. k_table k = Some t \<and> c_log_level_pos h = int i \<and> i < k_num k \<and> i < length t \<and> e_contextID (t ! i) = c_contextID h \<and>
     h_log_level_ptr h = e_log_level_ptr (t ! i) \<and> h_trace_status_ptr h = e_trace_status_ptr (t ! i) \<and>
     h_log_level_ptr h \<noteq> None \<and> h_trace_status_ptr h \<noteq> None)"

lemma set_entry_ptrs: "a \<in> set (entry_ptrs e) \<longleftrightarrow> e_log_level_ptr e = Some a \<or> e_trace_status_ptr e = Some a"
  by (auto simp: entry_ptrs_def split: option.splits)

lemma distinct_entry_ptrs: "distinct (entry_ptrs e) \<longleftrightarrow> (\<forall>a. e_log_level_ptr e = Some a \<longrightarrow> e_trace_status_ptr e \<noteq> Some a)"
  by (auto simp: entry_ptrs_def split: option.splits)

lemma shows_levels_cong: "shows_levels cells e \<Longrightarrow> (\<And>a. a \<in> set (entry_ptrs e) \<Longrightarrow> cells' ! a = cells ! a) \<Longrightarrow> shows_levels cells' e"
  unfolding shows_levels_def set_entry_ptrs by metis

text \<open>
  One entry is changed with its cells: it keeps its cells or gets new ones at the end, and the cells of all
  other entries stay as they are.
\<close>

lemma ll_table_ok_update:
  assumes t: "ll_table_ok t n cells" "i < length t"
    and e: "distinct (entry_ptrs e)" "\<forall>a \<in> set (entry_ptrs e). a \<in> set (entry_ptrs (t ! i)) \<or> length cells \<le> a"
      "\<forall>a \<in> set (entry_ptrs e). a < length cells' \<and> cells' ! a \<noteq> None" "length (e_contextID e) = 4"
    and frame: "length cells \<le> length cells'" "\<forall>a < length cells. a \<notin> set (entry_ptrs (t ! i)) \<longrightarrow> cells' ! a = cells ! a"
    and n: "i < n' \<longrightarrow> shows_levels cells' e" "n' \<le> n \<or> n' = n + 1 \<and> i = n"
  shows "ll_table_ok (t[i := e]) n' cells'"
proof -
  have own: "own_cells t cells" and sh: "\<forall>j < n. shows_levels cells (t ! j)" and le: "n \<le> length t" "length t mod 500 = 0"
    using t(1) by (simp_all add: ll_table_ok_def)
  have other: "cells' ! a = cells ! a" if "j < length t" "j \<noteq> i" "a \<in> set (entry_ptrs (t ! j))" for j a
  proof -
    have "a < length cells" "a \<notin> set (entry_ptrs (t ! i))" using own that t(2) unfolding own_cells_def by blast+
    then show ?thesis using frame(2) by simp
  qed
  have disj: "set (entry_ptrs e) \<inter> set (entry_ptrs (t ! j)) = {}" if "j < length t" "j \<noteq> i" for j
  proof -
    have "set (entry_ptrs (t ! i)) \<inter> set (entry_ptrs (t ! j)) = {}" "\<forall>a \<in> set (entry_ptrs (t ! j)). a < length cells"
      using own that t(2) unfolding own_cells_def by blast+
    then show ?thesis using e(2) by (meson disjoint_iff leD)
  qed
  have "own_cells (t[i := e]) cells'"
    unfolding own_cells_def
  proof (intro allI impI)
    fix j assume j: "j < length (t[i := e])"
    show "distinct (entry_ptrs (t[i := e] ! j)) \<and> (\<forall>a \<in> set (entry_ptrs (t[i := e] ! j)). a < length cells' \<and> cells' ! a \<noteq> None) \<and>
      (\<forall>m < length (t[i := e]). j \<noteq> m \<longrightarrow> set (entry_ptrs (t[i := e] ! j)) \<inter> set (entry_ptrs (t[i := e] ! m)) = {})"
    proof (cases "j = i")
      case True
      then show ?thesis using e(1,3) disj t(2) by (simp add: nth_list_update)
    next
      case False
      have "distinct (entry_ptrs (t ! j))" "\<forall>a \<in> set (entry_ptrs (t ! j)). a < length cells \<and> cells ! a \<noteq> None"
        "\<forall>m < length t. j \<noteq> m \<longrightarrow> set (entry_ptrs (t ! j)) \<inter> set (entry_ptrs (t ! m)) = {}"
        using own j unfolding own_cells_def by simp_all
      moreover have "set (entry_ptrs (t ! j)) \<inter> set (entry_ptrs (t[i := e] ! m)) = {}" if "m < length t" "j \<noteq> m" for m
        using calculation(3) that disj [of j] j False by (cases "m = i") (auto simp: nth_list_update)
      ultimately show ?thesis using False j other [of j] frame(1) by (simp add: nth_list_update) (metis order_less_le_trans)
    qed
  qed
  moreover have "shows_levels cells' (t[i := e] ! j)" if "j < n'" for j
  proof (cases "j = i")
    case True
    then show ?thesis using n(1) that t(2) by simp
  next
    case False
    then have "j < n" using n(2) that by auto
    then show ?thesis using False sh shows_levels_cong [of cells "t ! j" cells'] other [of j] le by auto
  qed
  moreover have "n' \<le> length t" using n(2) le t(2) by auto
  moreover have "\<forall>x \<in> set (t[i := e]). length (e_contextID x) = 4"
    using t(1) e(4) set_update_subset_insert [of t i e] by (auto simp: ll_table_ok_def)
  ultimately show ?thesis using le by (simp add: ll_table_ok_def)
qed

text \<open>A registered handle sees the level and the status of its entry.\<close>

lemma handle_sees:
  assumes "lib_ok k" "handle_ok k h"
  shows "c_log_level (seen k h) = Some (e_log_level (the (k_table k) ! nat (c_log_level_pos h)))"
    "k_cells k ! the (h_trace_status_ptr h) = Some (e_trace_status (the (k_table k) ! nat (c_log_level_pos h)))"
proof -
  obtain t i where t: "k_table k = Some t" "c_log_level_pos h = int i" "i < k_num k" "h_log_level_ptr h = e_log_level_ptr (t ! i)"
    "h_trace_status_ptr h = e_trace_status_ptr (t ! i)" "h_log_level_ptr h \<noteq> None" "h_trace_status_ptr h \<noteq> None"
    using assms(2) unfolding handle_ok_def by blast
  have "shows_levels (k_cells k) (t ! i)" using assms(1) t by (simp add: lib_ok_def ll_table_ok_def)
  then show "c_log_level (seen k h) = Some (e_log_level (the (k_table k) ! nat (c_log_level_pos h)))"
    "k_cells k ! the (h_trace_status_ptr h) = Some (e_trace_status (the (k_table k) ! nat (c_log_level_pos h)))"
    using t by (auto simp: shows_levels_def seen_def)
qed

subsection \<open>Sending keeps the rest\<close>

lemma same_flags [simp]: "u_initialised (s_user (add_event x s)) = u_initialised (s_user s)"
  "u_initialised (s_user (set_buffer b s)) = u_initialised (s_user s)"
  "u_contexts (s_user (add_event x s)) = u_contexts (s_user s)" "u_contexts (s_user (set_buffer b s)) = u_contexts (s_user s)"
  by (simp_all add: add_event_def set_buffer_def)

lemma send_keeps:
  "dlt_user_log_send_register_context env s l = (rc, s') \<Longrightarrow> u_initialised (s_user s') = u_initialised (s_user s) \<and> u_contexts (s_user s') = u_contexts (s_user s)"
  "dlt_user_log_send_unregister_context env s l = (rc, s') \<Longrightarrow> u_initialised (s_user s') = u_initialised (s_user s) \<and> u_contexts (s_user s') = u_contexts (s_user s)"
  "dlt_send_app_ll_ts_limit env s a lv ts = (rc, s') \<Longrightarrow> u_initialised (s_user s') = u_initialised (s_user s) \<and> u_contexts (s_user s') = u_contexts (s_user s)"
  by (auto simp: dlt_user_log_send_register_context_def dlt_user_log_send_unregister_context_def dlt_send_app_ll_ts_limit_def
      out2_or_store_def dlt_user_log_out3_def dlt_user_log_out2_def write_vector_def dlt_user_log_out_error_handling_def Let_def
      split: option.splits if_splits prod.splits)

lemma put_table_simps [simp]:
  "k_table (put_table t n k) = Some t" "k_num (put_table t n k) = n" "k_cells (put_table t n k) = k_cells k" "k_max (put_table t n k) = k_max k"
  "u_initialised (user_of (put_table t n k)) = u_initialised (user_of k)" "k_calls (put_table t n k) = k_calls k"
  "k_env_levels (put_table t n k) = k_env_levels k" "u_appID (user_of (put_table t n k)) = u_appID (user_of k)"
  by (simp_all add: put_table_def user_of_def)

lemma user_of_updates [simp]:
  "user_of (k\<lparr>k_max := m\<rparr>) = user_of k" "user_of (k\<lparr>k_cells := cs\<rparr>) = user_of k" "user_of (k\<lparr>k_calls := us\<rparr>) = user_of k"
  "user_of (k\<lparr>k_receiver := r\<rparr>) = user_of k" "user_of (k\<lparr>k_mem := mem\<rparr>) = user_of k" "user_of (k\<lparr>k_log_state := ls\<rparr>) = user_of k"
  by (simp_all add: user_of_def)

lemma lib_ok_updates [simp]:
  "lib_ok (k\<lparr>k_receiver := r\<rparr>) = lib_ok k" "lib_ok (k\<lparr>k_calls := cs\<rparr>) = lib_ok k" "lib_ok (k\<lparr>k_mem := mem\<rparr>) = lib_ok k"
  "lib_ok (k\<lparr>k_log_state := ls\<rparr>) = lib_ok k" "handle_ok (k\<lparr>k_receiver := r\<rparr>) = handle_ok k" "handle_ok (k\<lparr>k_calls := cs\<rparr>) = handle_ok k"
  "handle_ok (k\<lparr>k_mem := mem\<rparr>) = handle_ok k" "handle_ok (k\<lparr>k_log_state := ls\<rparr>) = handle_ok k" "handle_ok (k\<lparr>k_app := a\<rparr>) = handle_ok k"
  "seen (k\<lparr>k_receiver := r\<rparr>) = seen k" "seen (k\<lparr>k_calls := cs\<rparr>) = seen k" "seen (k\<lparr>k_mem := mem\<rparr>) = seen k" "seen (k\<lparr>k_log_state := ls\<rparr>) = seen k" "seen (k\<lparr>k_app := a\<rparr>) = seen k"
  by (simp_all add: lib_ok_def user_of_def handle_ok_def fun_eq_iff seen_def split: option.splits)

subsection \<open>Each operation\<close>

lemma put_cell_simps [simp]: "length (put_cell p v cells) = length cells"
  by (simp add: put_cell_def split: option.split)

lemma put_cell_nth: "put_cell p v cells ! a = (if p = Some a \<and> a < length cells then Some v else cells ! a)"
  by (auto simp: put_cell_def list_update_beyond nth_list_update_neq split: option.split) (metis nth_list_update list_update_beyond not_le)

lemma cells_appended: "alloc_cell env k p = (r, k') \<Longrightarrow> \<exists>new. k' = k\<lparr>k_cells := k_cells k @ new\<rparr> \<and> (\<forall>v \<in> set new. v \<noteq> None) \<and>
    (\<forall>a. r = Some a \<longrightarrow> p = Some a \<and> new = [] \<or> p = None \<and> a = length (k_cells k) \<and> length new = 1) \<and> (r = None \<longrightarrow> p = None \<and> new = [])"
  by (cases p; cases "ck_cell env (length (k_cells k))")
    (force simp: alloc_cell_def intro: exI [of _ "[Some (the (ck_cell env (length (k_cells k))))]"] exI [of _ "[]"])+

lemma prepare_entry_ok:
  assumes "prepare_entry env k ident dsc = (done, e, k')" "k_table k = Some t" "k_num k < length t" "ll_table_ok t n (k_cells k)"
  shows "\<exists>new. k' = k\<lparr>k_cells := k_cells k @ new\<rparr> \<and> (\<forall>v \<in> set new. v \<noteq> None) \<and> distinct (entry_ptrs e) \<and>
    (\<forall>a \<in> set (entry_ptrs e). (a \<in> set (entry_ptrs (t ! k_num k)) \<or> length (k_cells k) \<le> a) \<and> a < length (k_cells k @ new)) \<and>
    (done \<longrightarrow> e_log_level_ptr e \<noteq> None \<and> e_trace_status_ptr e \<noteq> None) \<and>
    e_contextID e = the (dlt_set_id (Some (e_contextID (t ! k_num k))) (Some ident))"
proof -
  let ?x = "t ! k_num k"
  have own: "distinct (entry_ptrs ?x)" "\<forall>a \<in> set (entry_ptrs ?x). a < length (k_cells k)"
    using assms(3,4) unfolding ll_table_ok_def own_cells_def by blast+
  obtain p k1 where 1: "alloc_cell env k (e_log_level_ptr ?x) = (p, k1)" by fastforce
  obtain q k2 where 2: "alloc_cell env k1 (e_trace_status_ptr ?x) = (q, k2)" by fastforce
  obtain n1 where n1: "k1 = k\<lparr>k_cells := k_cells k @ n1\<rparr>" "\<forall>v \<in> set n1. v \<noteq> None"
    "\<forall>a. p = Some a \<longrightarrow> e_log_level_ptr ?x = Some a \<and> n1 = [] \<or> e_log_level_ptr ?x = None \<and> a = length (k_cells k) \<and> length n1 = 1"
    "p = None \<longrightarrow> e_log_level_ptr ?x = None \<and> n1 = []"
    using cells_appended [OF 1] by blast
  obtain n2 where n2: "k2 = k1\<lparr>k_cells := k_cells k1 @ n2\<rparr>" "\<forall>v \<in> set n2. v \<noteq> None"
    "\<forall>a. q = Some a \<longrightarrow> e_trace_status_ptr ?x = Some a \<and> n2 = [] \<or> e_trace_status_ptr ?x = None \<and> a = length (k_cells k1) \<and> length n2 = 1"
    "q = None \<longrightarrow> e_trace_status_ptr ?x = None \<and> n2 = []"
    using cells_appended [OF 2] by blast
  have len: "length (k_cells k1) = length (k_cells k) + length n1" by (simp add: n1(1))
  consider "\<not> done" "k' = k" "e_log_level_ptr e = e_log_level_ptr ?x" "e_trace_status_ptr e = e_trace_status_ptr ?x"
    | a where "p = Some a" "q = None" "\<not> done" "k' = k2" "e_log_level_ptr e = p" "e_trace_status_ptr e = e_trace_status_ptr ?x"
    | a b where "p = Some a" "q = Some b" "done" "k' = k2" "e_log_level_ptr e = p" "e_trace_status_ptr e = q"
    using assms(1,2) 1 2 n1(1,4) by (cases p; cases q) (auto simp: prepare_entry_def Let_def split: if_splits)
  moreover have "e_contextID e = the (dlt_set_id (Some (e_contextID ?x)) (Some ident))"
    using assms(1,2) by (auto simp: prepare_entry_def Let_def split: if_splits option.splits prod.splits)
  ultimately show ?thesis
  proof cases
    case 1
    then have "set (entry_ptrs e) = set (entry_ptrs ?x)" "distinct (entry_ptrs e)"
      using own(1) by (auto simp: set_entry_ptrs distinct_entry_ptrs)
    then show ?thesis using 1 own \<open>e_contextID e = _\<close> by (intro exI [of _ "[]"]) simp
  next
    case (2 a)
    then show ?thesis using n1 n2 own \<open>e_contextID e = _\<close>
      by (intro exI [of _ n1]) (auto simp: set_entry_ptrs distinct_entry_ptrs)
  next
    case (3 a b)
    then show ?thesis using n1 n2 own \<open>e_contextID e = _\<close> len
      by (intro exI [of _ "n1 @ n2"]) (auto simp: set_entry_ptrs distinct_entry_ptrs less_SucI)
  qed
qed

text \<open>The table with room keeps the entries in use; the rest is fresh.\<close>

lemma entry_ptrs_new [simp]: "entry_ptrs new_entry = []"
  by (simp add: entry_ptrs_def new_entry_def)

lemma extended_table_ok:
  assumes "ll_table_ok t n cells" "length t' mod 500 = 0" "n \<le> length t'" and nth: "\<forall>i < length t'. t' ! i = (if i < n then t ! i else new_entry)"
  shows "ll_table_ok t' n cells"
proof -
  have n: "n \<le> length t" using assms(1) by (simp add: ll_table_ok_def)
  have "own_cells t' cells"
    unfolding own_cells_def
  proof (intro allI impI)
    fix i assume i: "i < length t'"
    show "distinct (entry_ptrs (t' ! i)) \<and> (\<forall>a \<in> set (entry_ptrs (t' ! i)). a < length cells \<and> cells ! a \<noteq> None) \<and>
      (\<forall>j < length t'. i \<noteq> j \<longrightarrow> set (entry_ptrs (t' ! i)) \<inter> set (entry_ptrs (t' ! j)) = {})"
    proof (cases "i < n")
      case True
      then have "i < length t" using n by simp
      then have "distinct (entry_ptrs (t ! i))" "\<forall>a \<in> set (entry_ptrs (t ! i)). a < length cells \<and> cells ! a \<noteq> None"
        "\<forall>j < length t. i \<noteq> j \<longrightarrow> set (entry_ptrs (t ! i)) \<inter> set (entry_ptrs (t ! j)) = {}"
        using assms(1) unfolding ll_table_ok_def own_cells_def by blast+
      then show ?thesis using True i n nth by (auto split: if_splits)
    next
      case False
      then show ?thesis using i nth by simp
    qed
  qed
  moreover have "shows_levels cells (t' ! i)" if "i < n" for i
    using assms(1,3) that nth by (simp add: ll_table_ok_def)
  moreover have "\<forall>e \<in> set t'. length (e_contextID e) = 4"
  proof
    fix e assume "e \<in> set t'"
    then obtain i where i: "i < length t'" "e = t' ! i" by (auto simp: in_set_conv_nth)
    show "length (e_contextID e) = 4"
    proof (cases "i < n")
      case True
      then have "e \<in> set t" using i nth n by simp
      then show ?thesis using assms(1) by (simp add: ll_table_ok_def)
    qed (use i nth in \<open>simp add: new_entry_def\<close>)
  qed
  ultimately show ?thesis using assms(2,3) by (simp add: ll_table_ok_def)
qed

lemma extend_table_ok:
  assumes "extend_table env k = Some k'" "lib_ok k"
  shows "\<exists>t. k_table k' = Some t \<and> ll_table_ok t (k_num k) (k_cells k) \<and> length t = k_max k' \<and> k_num k < length t \<and> k_num k' = k_num k \<and> k_cells k' = k_cells k \<and>
    u_initialised (user_of k') \<and> k_env_levels k' = k_env_levels k \<and> u_appID (user_of k') = u_appID (user_of k) \<and>
    (\<forall>i < k_num k. t ! i = the (k_table k) ! i)"
proof (cases "k_table k")
  case None
  have "own_cells (replicate 500 new_entry) (k_cells k)" by (simp add: own_cells_def)
  then show ?thesis using assms None
    by (auto simp: extend_table_def lib_ok_def ll_table_ok_def new_entry_def split: if_splits)
next
  case (Some t)
  then have t: "length t = k_max k" "ll_table_ok t (k_num k) (k_cells k)" "u_initialised (user_of k)" using assms(2) by (simp_all add: lib_ok_def)
  show ?thesis
  proof (cases "k_num k mod 500 = 0")
    case True
    define t' where "t' = take (k_num k) t @ replicate ((k_num k div 500 + 1) * 500 - k_num k) new_entry"
    have le: "k_num k \<le> length t" using t(2) by (simp add: ll_table_ok_def)
    have lt: "k_num k < (k_num k div 500 + 1) * 500"
      using div_mult_mod_eq [of "k_num k" 500] mod_less_divisor [of 500 "k_num k"] by (simp add: add_mult_distrib)
    have len: "length t' = (k_num k div 500 + 1) * 500" unfolding t'_def length_append length_take length_replicate using le lt by linarith
    have nth: "\<forall>i < length t'. t' ! i = (if i < k_num k then t ! i else new_entry)"
      unfolding len using le by (simp add: t'_def nth_append)
    have k': "k' = put_table t' (k_num k) (k\<lparr>k_max := (k_num k div 500 + 1) * 500\<rparr>)"
      using assms(1) Some True unfolding t'_def by (simp add: extend_table_def Let_def split: if_splits)
    have "ll_table_ok t' (k_num k) (k_cells k)"
      using lt by (intro extended_table_ok [OF t(2) _ _ nth]) (simp_all only: len mod_mult_self2_is_0 less_imp_le)
    then show ?thesis unfolding k' using t(3) lt len Some nth
      by (intro exI [of _ t'] conjI) simp_all
  next
    case False
    have "k_num k \<noteq> length t" using t(2) False by (auto simp: ll_table_ok_def)
    then show ?thesis using assms(1) Some t False by (auto simp: extend_table_def ll_table_ok_def)
  qed
qed

text \<open>
  Registering a context: the state is well-formed on every path, the handles registered before keep their
  entries, and a handle that was entered belongs to the new entry.
\<close>

lemma entry_levels_simps [simp]:
  "e_log_level_ptr (entry_levels v l ts e) = e_log_level_ptr e" "e_trace_status_ptr (entry_levels v l ts e) = e_trace_status_ptr e"
  "e_contextID (entry_levels v l ts e) = e_contextID e" "e_trace_status (entry_levels v l ts e) = i8 ts"
  by (simp_all add: entry_levels_def Let_def)

lemma entry_ptrs_cong:
  "e_log_level_ptr e = e_log_level_ptr e' \<Longrightarrow> e_trace_status_ptr e = e_trace_status_ptr e' \<Longrightarrow> entry_ptrs e = entry_ptrs e'"
  by (simp add: entry_ptrs_def)

lemma shows_put_cells:
  assumes "\<forall>a \<in> set (entry_ptrs e). a < length cells" "distinct (entry_ptrs e)"
  shows "shows_levels (put_cell (e_trace_status_ptr e) (e_trace_status e) (put_cell (e_log_level_ptr e) (e_log_level e) cells)) e"
  using assms by (auto simp: shows_levels_def put_cell_nth set_entry_ptrs distinct_entry_ptrs)

text \<open>\<open>keeps_handles k k'\<close>: what a registered handle sees of its entry is the same.\<close>

definition keeps_handle :: "context_lib \<Rightarrow> context_lib \<Rightarrow> context_handle \<Rightarrow> bool" where
  "keeps_handle k k' h \<longleftrightarrow> handle_ok k' h \<and>
     the (k_table k') ! nat (c_log_level_pos h) = the (k_table k) ! nat (c_log_level_pos h)"

lemma handle_okI:
  assumes "k_table k = Some t" "k_num k \<le> length t" "c_log_level_pos h = int i" "i < k_num k" "e_contextID (t ! i) = c_contextID h"
    "h_log_level_ptr h = e_log_level_ptr (t ! i)" "h_trace_status_ptr h = e_trace_status_ptr (t ! i)"
    "h_log_level_ptr h \<noteq> None" "h_trace_status_ptr h \<noteq> None"
  shows "handle_ok k h"
  unfolding handle_ok_def using assms by (intro exI [of _ t] exI [of _ i]) simp

lemma handle_kept:
  assumes "handle_ok k h" "k_table k' = Some t'" "k_num k \<le> k_num k'" "k_num k' \<le> length t'"
    "t' ! nat (c_log_level_pos h) = the (k_table k) ! nat (c_log_level_pos h)"
  shows "keeps_handle k k' h"
proof -
  obtain t i where t: "k_table k = Some t" "c_log_level_pos h = int i" "i < k_num k" "e_contextID (t ! i) = c_contextID h"
    "h_log_level_ptr h = e_log_level_ptr (t ! i)" "h_trace_status_ptr h = e_trace_status_ptr (t ! i)"
    "h_log_level_ptr h \<noteq> None" "h_trace_status_ptr h \<noteq> None"
    using assms(1) unfolding handle_ok_def by blast
  have "t' ! i = t ! i" using assms(5) t(1,2) by simp
  then have "handle_ok k' h" using t assms(3) by (intro handle_okI [OF assms(2,4) t(2)]) simp_all
  then show ?thesis using assms by (simp add: keeps_handle_def)
qed

lemma register_context_ok:
  assumes r: "dlt_register_context_ll_ts_llccb env k (Some h) ident dsc loglevel ts cb = (rc, k', h')"
    and k: "lib_ok k" and n: "int (k_num k) < 2147483647" and h: "length (c_contextID h) = 4"
  shows "lib_ok k' \<and> (\<forall>g. handle_ok k g \<longrightarrow> keeps_handle k k' g) \<and>
    (k_num k' = k_num k \<or> k_num k' = k_num k + 1 \<and> (\<exists>g. h' = Some g \<and> handle_ok k' g \<and> c_log_level_pos g = int (k_num k) \<and> c_contextID g = set_id (the ident)))"
proof -
  obtain log where init: "context_log_init env k (Some h) = (DLT_RETURN_OK, k, log)"
    using k by (auto simp: context_log_init_def lib_ok_def dlt_user_log_init_def)
  show ?thesis
  proof (cases "k' = k")
    case True
    then show ?thesis using k by (simp add: keeps_handle_def)
  next
    case False
    obtain i where i: "ident = Some i" using r False by (auto simp: dlt_register_context_ll_ts_llccb_def split: option.splits)
    have "extend_table env k \<noteq> None"
    proof
      assume "extend_table env k = None"
      then show False using r False by (simp add: dlt_register_context_ll_ts_llccb_def init i split: if_splits)
    qed
    then obtain k2 where k2: "extend_table env k = Some k2" by blast
    obtain t where t: "k_table k2 = Some t" "ll_table_ok t (k_num k) (k_cells k)" "length t = k_max k2" "k_num k < length t"
      "k_num k2 = k_num k" "k_cells k2 = k_cells k" "u_initialised (user_of k2)" "\<forall>j < k_num k. t ! j = the (k_table k) ! j"
      using extend_table_ok [OF k2 k] by blast
    obtain d e k3 where p: "prepare_entry env k2 i dsc = (d, e, k3)" by (metis prod_cases3)
    have pre: "k_num k2 < length t" "ll_table_ok t (k_num k) (k_cells k2)" using t by simp_all
    obtain new where new: "k3 = k2\<lparr>k_cells := k_cells k @ new\<rparr>" "\<forall>v \<in> set new. v \<noteq> None" "distinct (entry_ptrs e)"
      "\<forall>a \<in> set (entry_ptrs e). (a \<in> set (entry_ptrs (t ! k_num k)) \<or> length (k_cells k) \<le> a) \<and> a < length (k_cells k @ new)"
      "d \<longrightarrow> e_log_level_ptr e \<noteq> None \<and> e_trace_status_ptr e \<noteq> None"
      "e_contextID e = the (dlt_set_id (Some (e_contextID (t ! k_num k))) (Some i))"
      using prepare_entry_ok [OF p t(1) pre] unfolding t(5,6) by blast
    have ident: "e_contextID e = set_id i" "length (e_contextID e) = 4"
      using new(6) t(2,4) set_id_any [of "e_contextID (t ! k_num k)" i] by (simp_all add: ll_table_ok_def)
    have n3: "k_num k \<le> length t" using t(4) by simp
    have others: "keeps_handle k kk g" if kk: "k_table kk = Some (t[k_num k := x])" "k_num k \<le> k_num kk" "k_num kk \<le> length t" "handle_ok k g" for kk x g
    proof (rule handle_kept [OF kk(4,1,2)])
      obtain j where "c_log_level_pos g = int j" "j < k_num k" using kk(4) unfolding handle_ok_def by blast
      then show "t[k_num k := x] ! nat (c_log_level_pos g) = the (k_table k) ! nat (c_log_level_pos g)" using t(8) by simp
    qed (use kk(3) in simp)
    have frame: "length (k_cells k) \<le> length (k_cells k @ new)" "\<forall>a < length (k_cells k). (k_cells k @ new) ! a = k_cells k ! a"
      by (simp_all add: nth_append)
    have alive: "(k_cells k @ new) ! a \<noteq> None" if "a \<in> set (entry_ptrs e)" for a
    proof (cases "a < length (k_cells k)")
      case True
      then have "a \<in> set (entry_ptrs (t ! k_num k))" using new(4) that leD by blast
      then have "k_cells k ! a \<noteq> None" using t(2,4) unfolding ll_table_ok_def own_cells_def by blast
      then show ?thesis using True by (simp add: nth_append)
    next
      case False
      then have "(k_cells k @ new) ! a \<in> set new" using new(4) that by (auto simp: nth_append)
      then show ?thesis using new(2) by metis
    qed
    show ?thesis
    proof (cases d)
      case d: False
      have k': "k' = put_table (t[k_num k := e]) (k_num k) k3"
        using r False d k2 p t(1,5) by (simp add: dlt_register_context_ll_ts_llccb_def init i Let_def split: if_splits)
      have "ll_table_ok (t[k_num k := e]) (k_num k) (k_cells k @ new)"
        using new(4) alive frame by (intro ll_table_ok_update [OF t(2,4) new(3)]) (auto simp: ident(2))
      then have "lib_ok k'" using t by (simp add: lib_ok_def k' new(1))
      then show ?thesis using others [of k'] t(4) by (simp add: k')
    next
      case d: True
      define e1 where "e1 = (entry_levels (dlt_env_adjust_ll_from_env (Some (k_env_levels k3)) (Some (u_appID (user_of k3))) (Some i) (- 2)) loglevel ts e)
        \<lparr>e_changed_callback := cb\<rparr>"
      define k4 where "k4 = put_table (t[k_num k := e1]) (k_num k + 1)
        (k3\<lparr>k_cells := put_cell (e_trace_status_ptr e1) (e_trace_status e1) (put_cell (e_log_level_ptr e1) (e_log_level e1) (k_cells k3))\<rparr>)"
      define h2 where "h2 = h\<lparr>c_mcnt := 0, c_contextID := the (dlt_set_id (Some (c_contextID h)) (Some i)), c_log_level_pos := i32 (int (k_num k)),
        h_log_level_ptr := e_log_level_ptr e1, h_trace_status_ptr := e_trace_status_ptr e1\<rparr>"
      have "\<exists>ret app log1. dlt_user_log_send_register_context (ck_app env) (k_app k4) log1 = (ret, app) \<and> k' = k4\<lparr>k_app := app\<rparr> \<and> h' = Some h2"
        using r False d unfolding e1_def k4_def h2_def
        by (auto simp: dlt_register_context_ll_ts_llccb_def init i k2 p t(1,5) Let_def split: if_splits prod.splits)
      then obtain ret app log1 where sent: "dlt_user_log_send_register_context (ck_app env) (k_app k4) log1 = (ret, app)"
        "k' = k4\<lparr>k_app := app\<rparr>" and h': "h' = Some h2" by blast
      have e1: "e_log_level_ptr e1 = e_log_level_ptr e" "e_trace_status_ptr e1 = e_trace_status_ptr e" "e_contextID e1 = e_contextID e"
        by (simp_all add: e1_def)
      have "u_initialised (user_of k4)" using t(7) by (simp add: k4_def new(1))
      then have cells: "u_initialised (user_of k')" using send_keeps(1) [OF sent(1)] sent(2) by (simp add: user_of_def)
      let ?c = "put_cell (e_trace_status_ptr e1) (e_trace_status e1) (put_cell (e_log_level_ptr e1) (e_log_level e1) (k_cells k @ new))"
      have ptrs: "entry_ptrs e1 = entry_ptrs e" using e1 by (intro entry_ptrs_cong)
      have "ll_table_ok (t[k_num k := e1]) (k_num k + 1) ?c"
      proof (rule ll_table_ok_update [OF t(2,4)])
        show "k_num k < k_num k + 1 \<longrightarrow> shows_levels ?c e1" using new(3,4) by (intro impI shows_put_cells) (simp_all add: ptrs)
        show "\<forall>a < length (k_cells k). a \<notin> set (entry_ptrs (t ! k_num k)) \<longrightarrow> ?c ! a = k_cells k ! a"
        proof (intro allI impI)
          fix a assume a: "a < length (k_cells k)" "a \<notin> set (entry_ptrs (t ! k_num k))"
          then have "a \<notin> set (entry_ptrs e1)" using new(4) ptrs leD by metis
          then show "?c ! a = k_cells k ! a" using a(1) by (simp add: put_cell_nth set_entry_ptrs nth_append)
        qed
        show "\<forall>a \<in> set (entry_ptrs e1). a < length ?c \<and> ?c ! a \<noteq> None"
          using new(4) alive by (auto simp: ptrs put_cell_nth)
      qed (use new(3,4) ptrs ident(2) e1(3) in auto)
      moreover have "k_cells k' = ?c" "k_table k' = Some (t[k_num k := e1])" "k_num k' = k_num k + 1" "k_max k' = k_max k2"
        by (simp_all add: sent(2) k4_def new(1))
      moreover have "i32 (int (k_num k)) = int (k_num k)" using n by (simp add: i32_id)
      ultimately show ?thesis
        using others [of k' e1] t(3,4) d new(5) ident(1) e1 set_id_any [OF h, of i]
        cells by (auto simp: lib_ok_def i h' h2_def intro!: handle_okI [of k' "t[k_num k := e1]" _ "k_num k"])
    qed
  qed
qed

text \<open>
  A change of one entry that keeps its identifier and its cells: all handles stay registered, and only those of
  this entry see a difference.
\<close>

lemma update_entry_ok:
  assumes k: "lib_ok k" "k_table k = Some t" "i < length t"
    and e: "entry_ptrs e = entry_ptrs (t ! i)" "e_log_level_ptr e = e_log_level_ptr (t ! i)" "e_trace_status_ptr e = e_trace_status_ptr (t ! i)"
      "e_contextID e = e_contextID (t ! i)" "i < k_num k \<longrightarrow> shows_levels cells' e"
    and c: "length cells' = length (k_cells k)" "\<forall>a. a \<notin> set (entry_ptrs (t ! i)) \<longrightarrow> cells' ! a = k_cells k ! a"
      "\<forall>a \<in> set (entry_ptrs (t ! i)). cells' ! a \<noteq> None"
    and k': "k_table k' = Some (t[i := e])" "k_num k' = k_num k" "k_max k' = k_max k" "k_cells k' = cells'" "u_initialised (user_of k')"
  shows "lib_ok k' \<and> (\<forall>g. handle_ok k g \<longrightarrow> handle_ok k' g \<and> (c_log_level_pos g \<noteq> int i \<longrightarrow> keeps_handle k k' g))"
proof -
  have t: "ll_table_ok t (k_num k) (k_cells k)" "length t = k_max k" using k by (simp_all add: lib_ok_def)
  have own: "distinct (entry_ptrs (t ! i))" "\<forall>a \<in> set (entry_ptrs (t ! i)). a < length (k_cells k)"
    using t(1) k(3) unfolding ll_table_ok_def own_cells_def by blast+
  have "length (e_contextID e) = 4" using t(1) k(3) e(4) by (simp add: ll_table_ok_def)
  then have "ll_table_ok (t[i := e]) (k_num k) cells'"
    using own c e(1,5) by (intro ll_table_ok_update [OF t(1) k(3)]) simp_all
  then have "lib_ok k'" using t(2) k' by (simp add: lib_ok_def)
  moreover have "handle_ok k' g \<and> (c_log_level_pos g \<noteq> int i \<longrightarrow> keeps_handle k k' g)" if "handle_ok k g" for g
  proof -
    from that obtain t0 j where "k_table k = Some t0" and j0: "c_log_level_pos g = int j" "j < k_num k" "j < length t0" "e_contextID (t0 ! j) = c_contextID g" "h_log_level_ptr g = e_log_level_ptr (t0 ! j)"
      "h_trace_status_ptr g = e_trace_status_ptr (t0 ! j)" "h_log_level_ptr g \<noteq> None" "h_trace_status_ptr g \<noteq> None"
      unfolding handle_ok_def by blast
    then have "t0 = t" using k(2) by simp
    note j = j0 [unfolded this]
    have len: "k_num k' \<le> length (t[i := e])" using t(1) k'(2) by (simp add: ll_table_ok_def)
    have same: "e_contextID (t[i := e] ! j) = e_contextID (t ! j)" "e_log_level_ptr (t[i := e] ! j) = e_log_level_ptr (t ! j)"
      "e_trace_status_ptr (t[i := e] ! j) = e_trace_status_ptr (t ! j)"
      using e(2-4) k(3) by (simp_all add: nth_list_update)
    have "handle_ok k' g" using j same k'(2) by (intro handle_okI [OF k'(1) len j(1)]) simp_all
    then show ?thesis using j k'(1) k(2) by (auto simp: keeps_handle_def)
  qed
  ultimately show ?thesis by blast
qed

lemma set_entry_level_ok:
  assumes "lib_ok k" "k_table k = Some t" "i < k_num k"
  shows "lib_ok (set_entry_level l ts i k) \<and>
    (\<forall>g. handle_ok k g \<longrightarrow> handle_ok (set_entry_level l ts i k) g \<and> (c_log_level_pos g \<noteq> int i \<longrightarrow> keeps_handle k (set_entry_level l ts i k) g))"
proof -
  have t: "ll_table_ok t (k_num k) (k_cells k)" "i < length t" using assms by (auto simp: lib_ok_def ll_table_ok_def)
  let ?e = "(t ! i)\<lparr>e_log_level := l, e_trace_status := ts\<rparr>"
  let ?c = "put_cell (e_trace_status_ptr (t ! i)) ts (put_cell (e_log_level_ptr (t ! i)) l (k_cells k))"
  have own: "distinct (entry_ptrs (t ! i))" "\<forall>a \<in> set (entry_ptrs (t ! i)). a < length (k_cells k) \<and> k_cells k ! a \<noteq> None"
    using t unfolding ll_table_ok_def own_cells_def by blast+
  have p: "entry_ptrs ?e = entry_ptrs (t ! i)" by (rule entry_ptrs_cong) simp_all
  show ?thesis
  proof (rule update_entry_ok [OF assms(1,2) t(2), of ?e ?c])
    show "i < k_num k \<longrightarrow> shows_levels ?c ?e" using shows_put_cells [of ?e "k_cells k"] own p by simp
    show "\<forall>a. a \<notin> set (entry_ptrs (t ! i)) \<longrightarrow> ?c ! a = k_cells k ! a" by (simp add: put_cell_nth set_entry_ptrs)
    show "\<forall>a \<in> set (entry_ptrs (t ! i)). ?c ! a \<noteq> None" using own(2) by (simp add: put_cell_nth)
    show "u_initialised (user_of (set_entry_level l ts i k))" using assms(1) by (simp add: set_entry_level_def Let_def lib_ok_def)
  qed (use p assms(2) in \<open>simp_all add: set_entry_level_def Let_def\<close>)
qed

text \<open>\<open>keeps_all k k'\<close>: the state stays well-formed and all handles stay registered.\<close>

definition keeps_all :: "context_lib \<Rightarrow> context_lib \<Rightarrow> bool" where
  "keeps_all k k' \<longleftrightarrow> (lib_ok k \<longrightarrow> lib_ok k' \<and> k_num k' = k_num k \<and> (\<forall>g. handle_ok k g \<longrightarrow> handle_ok k' g))"

lemma keeps_all_refl [simp]: "keeps_all k k" by (simp add: keeps_all_def)

lemma keeps_all_trans: "keeps_all k k1 \<Longrightarrow> keeps_all k1 k2 \<Longrightarrow> keeps_all k k2" by (auto simp: keeps_all_def)

lemma keeps_all_updates [simp]:
  "keeps_all k (k1\<lparr>k_receiver := r\<rparr>) = keeps_all k k1" "keeps_all k (k1\<lparr>k_calls := cs\<rparr>) = keeps_all k k1"
  "keeps_all (k\<lparr>k_receiver := r\<rparr>) k1 = keeps_all k k1" "keeps_all (k\<lparr>k_mem := mem\<rparr>) k1 = keeps_all k k1"
  "keeps_all k (k1\<lparr>k_mem := mem\<rparr>) = keeps_all k k1" "keeps_all k (k1\<lparr>k_log_state := ls\<rparr>) = keeps_all k k1"
  by (simp_all add: keeps_all_def)

lemma keeps_all_remove: "remove_bytes n k1 = (rc, k2) \<Longrightarrow> keeps_all k k2 = keeps_all k k1"
  by (auto simp: remove_bytes_def split: prod.splits)

lemma keeps_all_turn:
  assumes "check_turn env k d = Some (r, k', d')"
  shows "keeps_all k k'"
proof -
  have sk: "keeps_all k (skip_to_header off k)" for off by (simp add: skip_to_header_def)
  have l: "keeps_all k1 k2" if "log_level_message k1 d = (r, k2, d')" for k1 k2 d r d'
  proof -
    have "keeps_all k1 (set_entry_level l ts (nat pos) k1)" if pos: "pos \<ge> 0" "pos < i32 (int (k_num k1))" "k_table k1 \<noteq> None" for pos l ts
    proof -
      have "i32 (int (k_num k1)) \<le> int (k_num k1)" using zmod_le_nonneg_dividend [of "int (k_num k1) + 2147483648" 4294967296] by (simp add: i32_def)
      then have "nat pos < k_num k1" using pos by simp
      moreover obtain t where "k_table k1 = Some t" using pos(3) by blast
      ultimately show ?thesis using set_entry_level_ok [of k1 t "nat pos"]
        by (simp add: keeps_all_def)
    qed
    then show ?thesis using that by (auto simp: log_level_message_def Let_def keeps_all_remove split: if_splits prod.splits)
  qed
  have i: "keeps_all k1 k2" if "injection_message env k1 = Some (r, k2)" for k1 k2 r
    using that by (auto simp: injection_message_def Let_def keeps_all_remove split: if_splits prod.splits option.splits)
  have s: "keeps_all k1 k2" if "log_state_message k1 = (r, k2)" for k1 k2 r
    using that by (auto simp: log_state_message_def keeps_all_remove split: if_splits prod.splits)
  let ?off = "resync_offset (received k) (bytesRcvd (k_receiver k)) 0"
  have rm: "keeps_all k1 (snd (remove_bytes n k1))" for n k1
    using keeps_all_remove [of n k1 "fst (remove_bytes n k1)" "snd (remove_bytes n k1)" k1] by simp
  let ?k1 = "if ?off > 0 then skip_to_header ?off k else k"
  have k1: "keeps_all k ?k1" using sk by simp
  consider "k' = k" | "log_level_message ?k1 d = (r, k', d')" | "injection_message env ?k1 = Some (r, k')"
    | "log_state_message ?k1 = (r, k')" | "k' = snd (remove_bytes 8 ?k1)"
    using assms unfolding check_turn_def Let_def by (auto split: if_splits prod.splits)
  then show ?thesis
    using keeps_all_trans [OF k1] l [of ?k1] i [of ?k1] s [of ?k1] rm [of ?k1] keeps_all_refl [of k] by cases blast+
qed

lemma keeps_all_loop: "check_loop env k d = Some (r, k') \<Longrightarrow> keeps_all k k'"
proof (induction env k d rule: check_loop.induct)
  case (1 env k d)
  have b: "buf (k_receiver k) \<noteq> None" using 1(2) by (simp add: check_loop.simps split: if_splits)
  obtain q k1 d1 where q: "check_turn env k d = Some (q, k1, d1)"
    using 1(2) b by (simp add: check_loop.simps [of env k d] split: option.splits prod.splits)
  note k1 = keeps_all_turn [OF q]
  show ?case
  proof (cases q)
    case Go_On
    then have "check_loop env k1 d1 = Some (r, k')" using 1(2) b q by (simp add: check_loop.simps [of env k d])
    then show ?thesis using 1(1) [OF b q [unfolded Go_On]] k1 keeps_all_trans by blast
  qed (use 1(2) b q k1 in \<open>simp_all add: check_loop.simps [of env k d]\<close>)
qed

lemma check_user_message_ok:
  assumes "dlt_user_log_check_user_message env k = Some (rc, k')"
  shows "keeps_all k k'"
proof -
  have h: "keeps_all k1 (k1\<lparr>k_app := set_handle h (k_app k1)\<rparr>)" for k1 h
    by (simp add: keeps_all_def lib_ok_def user_of_def set_handle_def split: option.splits)
  show ?thesis
    using assms
    by (auto simp: dlt_user_log_check_user_message_def Let_def h dest!: keeps_all_loop split: if_splits prod.splits option.splits)
qed

text \<open>Limiting the levels writes every entry in use and its cells.\<close>

lemma limit_entry_simps [simp]: "entry_ptrs (limit_entry l ts e) = entry_ptrs e" "e_contextID (limit_entry l ts e) = e_contextID e"
  "e_log_level (limit_entry l ts e) = i8 l" "e_trace_status (limit_entry l ts e) = i8 ts"
  "e_log_level_ptr (limit_entry l ts e) = e_log_level_ptr e" "e_trace_status_ptr (limit_entry l ts e) = e_trace_status_ptr e"
  by (simp_all add: limit_entry_def entry_ptrs_def)

lemma limit_prefix_ok:
  assumes t: "ll_table_ok t n cells" and m: "m \<le> n"
  shows "ll_table_ok (map (limit_entry l ts) (take m t) @ drop m t) n (fold (limit_cells l ts) (take m t) cells) \<and>
    length (fold (limit_cells l ts) (take m t) cells) = length cells"
  using m
proof (induction m)
  case 0
  then show ?case using t by simp
next
  case (Suc m)
  let ?t = "map (limit_entry l ts) (take m t) @ drop m t" and ?c = "fold (limit_cells l ts) (take m t) cells"
  have len: "n \<le> length t" "m < length t" "length ?t = length t" using t Suc(2) by (simp_all add: ll_table_ok_def)
  have at: "?t ! m = t ! m" using len by (simp add: nth_append)
  have take: "take (Suc m) t = take m t @ [t ! m]" using len by (simp add: take_Suc_conv_app_nth)
  have t': "map (limit_entry l ts) (take (Suc m) t) @ drop (Suc m) t = ?t[m := limit_entry l ts (t ! m)]"
    using len by (simp add: take list_update_append Cons_nth_drop_Suc [symmetric])
  have c': "fold (limit_cells l ts) (take (Suc m) t) cells = limit_cells l ts (t ! m) ?c" by (simp add: take)
  have IH: "ll_table_ok ?t n ?c" "length ?c = length cells" using Suc by simp_all
  have lm: "m < length ?t" using len by simp
  have own: "distinct (entry_ptrs (t ! m))" "\<forall>a \<in> set (entry_ptrs (t ! m)). a < length ?c \<and> ?c ! a \<noteq> None"
    using IH(1) lm at unfolding ll_table_ok_def own_cells_def by metis+
  have id: "length (e_contextID (t ! m)) = 4" using t len by (simp add: ll_table_ok_def)
  have "ll_table_ok (?t[m := limit_entry l ts (t ! m)]) n (limit_cells l ts (t ! m) ?c)"
  proof (rule ll_table_ok_update [OF IH(1) lm])
    show "m < n \<longrightarrow> shows_levels (limit_cells l ts (t ! m) ?c) (limit_entry l ts (t ! m))"
      using shows_put_cells [of "limit_entry l ts (t ! m)" ?c] own by (simp add: limit_cells_def)
  qed (use own id in \<open>auto simp: at limit_cells_def put_cell_nth set_entry_ptrs\<close>)
  then show ?case unfolding t' c' using IH(2) by (simp add: limit_cells_def)
qed

lemma set_limit_ok:
  assumes "dlt_set_application_ll_ts_limit env k loglevel ts = (rc, k')"
  shows "keeps_all k k' \<and> (lib_ok k \<and> k_table k \<noteq> None \<and> \<not> u_is_child (user_of k) \<and> - 2 \<le> loglevel \<and> loglevel < 7 \<and> - 2 \<le> ts \<and> ts < 2 \<longrightarrow>
    (\<forall>g. handle_ok k g \<longrightarrow> c_log_level (seen k' g) = Some loglevel))"
proof (cases "lib_ok k")
  case k: True
  show ?thesis
  proof (cases "u_is_child (user_of k) \<or> loglevel < - 2 \<or> loglevel \<ge> 7 \<or> ts < - 2 \<or> ts \<ge> 2 \<or> k_table k = None")
    case True
    then show ?thesis using assms k
      by (auto simp: dlt_set_application_ll_ts_limit_def context_assure_init_def lib_ok_def split: if_splits)
  next
    case False
    then obtain t where t: "k_table k = Some t" by blast
    let ?n = "k_num k"
    let ?t = "map (limit_entry loglevel ts) (take ?n t) @ drop ?n t" and ?c = "fold (limit_cells loglevel ts) (take ?n t) (k_cells k)"
    let ?k2 = "put_table ?t ?n (k\<lparr>k_cells := ?c\<rparr>)"
    have ok: "ll_table_ok t ?n (k_cells k)" "length t = k_max k" "u_initialised (user_of k)" using k t by (simp_all add: lib_ok_def)
    have len: "?n \<le> length t" "?n \<le> length ?t" using ok(1) by (simp_all add: ll_table_ok_def)
    obtain ret app where s: "dlt_send_app_ll_ts_limit (ck_app env) (k_app ?k2) (Some (u_appID (user_of ?k2))) loglevel ts = (ret, app)" by fastforce
    have k': "k' = ?k2\<lparr>k_app := app\<rparr>"
      using assms False t ok(3) s by (simp add: dlt_set_application_ll_ts_limit_def context_assure_init_def Let_def)
    have "u_initialised (user_of k')" using send_keeps(3) [OF s] ok(3) by (simp add: k' user_of_def put_table_def)
    moreover have "length ?t = k_max k" using ok(2) len by simp
    ultimately have lk: "lib_ok k'" using limit_prefix_ok [OF ok(1) order_refl] by (simp add: k' lib_ok_def)
    have h: "handle_ok k' g \<and> e_log_level (the (k_table k') ! nat (c_log_level_pos g)) = i8 loglevel" if g: "handle_ok k g" for g
    proof -
      obtain j where j: "c_log_level_pos g = int j" "j < ?n" "e_contextID (t ! j) = c_contextID g" "h_log_level_ptr g = e_log_level_ptr (t ! j)"
        "h_trace_status_ptr g = e_trace_status_ptr (t ! j)" "h_log_level_ptr g \<noteq> None" "h_trace_status_ptr g \<noteq> None"
        using g t unfolding handle_ok_def by (metis option.inject)
      have at: "?t ! j = limit_entry loglevel ts (t ! j)" using j(2) len by (simp add: nth_append)
      have k't: "k_table k' = Some ?t" "k_num k' \<le> length ?t" using len by (simp_all add: k')
      have "handle_ok k' g" using j at by (intro handle_okI [OF k't j(1)]) (simp_all add: k')
      then show ?thesis using j(1) at k't(1) by simp
    qed
    have "i8 loglevel = loglevel" using False by (simp add: i8_id)
    then show ?thesis using h lk handle_sees(1) [OF lk] by (simp add: keeps_all_def k')
  qed
qed (simp add: keeps_all_def)

text \<open>Unregistering frees the cells of the handle and leaves all other handles alone.\<close>

lemma free_cell_nth: "free_cell p cells ! a = (if p = Some a \<and> a < length cells then None else cells ! a)"
  by (auto simp: free_cell_def list_update_beyond nth_list_update_neq split: option.split) (metis nth_list_update list_update_beyond not_le)

lemma length_free_cell [simp]: "length (free_cell p cells) = length cells"
  by (simp add: free_cell_def split: option.split)

lemma unregister_context_ok:
  assumes k: "lib_ok k" "handle_ok k h" "\<not> u_is_child (user_of k)"
  shows "\<exists>rc k' h'. dlt_unregister_context env k (Some h) = Some (rc, k', Some h') \<and> lib_ok k' \<and> k_num k' = k_num k \<and>
    (\<forall>g. handle_ok k g \<and> c_log_level_pos g \<noteq> c_log_level_pos h \<longrightarrow> keeps_handle k k' g) \<and>
    c_log_level (seen k' h') = None \<and> k_cells k' ! the (h_log_level_ptr h) = None \<and> k_cells k' ! the (h_trace_status_ptr h) = None"
proof -
  obtain t i where t: "k_table k = Some t" and i: "c_log_level_pos h = int i" "i < k_num k" "i < length t"
    and p: "h_log_level_ptr h = e_log_level_ptr (t ! i)" "h_trace_status_ptr h = e_trace_status_ptr (t ! i)"
      "h_log_level_ptr h \<noteq> None" "h_trace_status_ptr h \<noteq> None"
    using k(2) unfolding handle_ok_def by blast
  have ok: "ll_table_ok t (k_num k) (k_cells k)" "length t = k_max k" "u_initialised (user_of k)" using k(1) t by (simp_all add: lib_ok_def)
  have own: "\<forall>a \<in> set (entry_ptrs (t ! i)). a < length (k_cells k)" and id: "length (e_contextID (t ! i)) = 4"
    using ok(1) i(3) unfolding ll_table_ok_def own_cells_def by simp_all
  obtain log where init: "context_log_init env k (Some h) = (DLT_RETURN_OK, k, log)"
    using ok(3) by (auto simp: context_log_init_def dlt_user_log_init_def)
  let ?h = "h\<lparr>h_log_level_ptr := None, h_trace_status_ptr := None\<rparr>"
  let ?c = "free_cell (e_trace_status_ptr (t ! i)) (free_cell (e_log_level_ptr (t ! i)) (k_cells k))"
  let ?k2 = "put_table (t[i := clear_entry (t ! i)]) (k_num k) (k\<lparr>k_cells := ?c\<rparr>)"
  obtain ret app where s: "dlt_user_log_send_unregister_context (ck_app env) (k_app ?k2) (Some (log\<lparr>l_description := None, l_handle := Some (seen k ?h)\<rparr>)) = (ret, app)"
    by fastforce
  let ?k' = "?k2\<lparr>k_app := app\<rparr>"
  have "dlt_unregister_context env k (Some h) = Some (ret, ?k', Some ?h)"
    using k(3) init t i s by (simp add: dlt_unregister_context_def Let_def)
  moreover have "u_initialised (user_of ?k')" using send_keeps(2) [OF s] ok(3) by (simp add: user_of_def put_table_def)
  moreover have "ll_table_ok (t[i := clear_entry (t ! i)]) (k_num k) ?c"
  proof (rule ll_table_ok_update [OF ok(1) i(3)])
    show "length (e_contextID (clear_entry (t ! i))) = 4" using id by (simp add: clear_entry_def dlt_set_id_length)
  qed (simp_all add: clear_entry_def entry_ptrs_def shows_levels_def, auto simp: free_cell_nth set_entry_ptrs split: option.splits)
  moreover have "keeps_handle k ?k' g" if g: "handle_ok k g" "c_log_level_pos g \<noteq> c_log_level_pos h" for g
  proof (rule handle_kept [OF g(1)])
    obtain j where "c_log_level_pos g = int j" using g(1) unfolding handle_ok_def by blast
    then show "t[i := clear_entry (t ! i)] ! nat (c_log_level_pos g) = the (k_table k) ! nat (c_log_level_pos g)" using g(2) i(1) t by simp
    show "k_num ?k' \<le> length (t[i := clear_entry (t ! i)])" using ok(1) by (simp add: ll_table_ok_def)
  qed simp_all
  moreover have "?c ! the (h_log_level_ptr h) = None" "?c ! the (h_trace_status_ptr h) = None"
    using p own by (auto simp: free_cell_nth set_entry_ptrs)
  ultimately show ?thesis using ok(2) by (intro exI [of _ ret] exI [of _ ?k'] exI [of _ ?h]) (simp add: lib_ok_def seen_def)
qed

text \<open>Callbacks change no level.\<close>

lemma put_entry_ok:
  assumes "put_entry i f k = Some k'" "lib_ok k" "k_table k \<noteq> None"
    and f: "\<And>e. e_log_level_ptr (f e) = e_log_level_ptr e \<and> e_trace_status_ptr (f e) = e_trace_status_ptr e \<and> e_contextID (f e) = e_contextID e \<and>
      e_log_level (f e) = e_log_level e \<and> e_trace_status (f e) = e_trace_status e"
  shows "keeps_all k k'"
proof -
  obtain t where t: "k_table k = Some t" using assms(3) by blast
  have i: "i < length t" "k' = put_table (t[i := f (t ! i)]) (k_num k) k"
    using assms(1) t by (simp_all add: put_entry_def Let_def split: if_splits)
  have ok: "ll_table_ok t (k_num k) (k_cells k)" using assms(2) t by (simp add: lib_ok_def)
  have "\<forall>a \<in> set (entry_ptrs (t ! i)). k_cells k ! a \<noteq> None" using ok i(1) unfolding ll_table_ok_def own_cells_def by blast
  moreover have p: "entry_ptrs (f (t ! i)) = entry_ptrs (t ! i)" by (intro entry_ptrs_cong) (simp_all add: f)
  moreover have "i < k_num k \<longrightarrow> shows_levels (k_cells k) (f (t ! i))" using ok f by (simp add: ll_table_ok_def shows_levels_def)
  ultimately have "lib_ok k' \<and> (\<forall>g. handle_ok k g \<longrightarrow> handle_ok k' g \<and> (c_log_level_pos g \<noteq> int i \<longrightarrow> keeps_handle k k' g))"
    using f assms(2) p by (intro update_entry_ok [OF assms(2) t i(1), of "f (t ! i)" "k_cells k"]) (simp_all add: i(2) lib_ok_def)
  then show ?thesis by (simp add: keeps_all_def i(2))
qed

lemma callback_ok:
  assumes "lib_ok k"
  shows "dlt_register_log_level_changed_callback env k (Some h) cb = Some (rc, k') \<Longrightarrow> keeps_all k k'"
    "dlt_register_injection_callback_with_id env k (Some h) sid cbk priv = Some (rc, k') \<Longrightarrow> keeps_all k k'"
proof -
  obtain log where init: "context_log_init env k (Some h) = (DLT_RETURN_OK, k, log)"
    using assms by (auto simp: context_log_init_def lib_ok_def dlt_user_log_init_def)
  let ?i = "u32 (c_log_level_pos h)"
  show "keeps_all k k'" if r: "dlt_register_log_level_changed_callback env k (Some h) cb = Some (rc, k')"
  proof (cases "k' = k")
    case False
    then have "put_entry ?i (\<lambda>e. e\<lparr>e_changed_callback := cb\<rparr>) k = Some k'" "k_table k \<noteq> None"
      using r by (auto simp: dlt_register_log_level_changed_callback_def init split: if_splits)
    then show ?thesis using put_entry_ok [of ?i "\<lambda>e. e\<lparr>e_changed_callback := cb\<rparr>" k k'] assms by simp
  qed simp
  show "keeps_all k k'" if r: "dlt_register_injection_callback_with_id env k (Some h) sid cbk priv = Some (rc, k')"
  proof (cases "k' = k")
    case False
    then obtain t e where t: "k_table k = Some t" "?i < length t" "add_injection (ck_callbacks env) sid cbk priv (t ! ?i) = Some e"
      "put_entry ?i (\<lambda>_. e) k = Some k'"
      using r by (auto simp: dlt_register_injection_callback_with_id_def init Let_def split: if_splits option.splits)
    obtain inj nr where e: "e = (t ! ?i)\<lparr>e_injection_table := inj, e_nrcallbacks := nr\<rparr>"
    proof -
      have "e = (t ! ?i)\<lparr>e_injection_table := e_injection_table e, e_nrcallbacks := e_nrcallbacks e\<rparr>"
        using t(3) by (cases "t ! ?i") (auto simp: add_injection_def Let_def split: if_splits)
      then show thesis by (rule that)
    qed
    then have "put_entry ?i (\<lambda>x. x\<lparr>e_injection_table := inj, e_nrcallbacks := nr\<rparr>) k = Some k'"
      using t(1,4) by (simp add: put_entry_def Let_def)
    then show ?thesis
      using put_entry_ok [of ?i "\<lambda>x. x\<lparr>e_injection_table := inj, e_nrcallbacks := nr\<rparr>" k k'] assms t(1) by simp
  qed simp
qed

section \<open>Runs\<close>

text \<open>
  What a program does with its contexts and what the daemon sends, in any order: the state with the
  handles that are registered.
\<close>

inductive context_run :: "context_env \<Rightarrow> context_lib \<Rightarrow> context_lib \<Rightarrow> context_handle list \<Rightarrow> bool" for env k0 where
  started: "context_run env k0 k0 []"
| registering: "context_run env k0 k hs \<Longrightarrow> int (k_num k) < 2147483647 \<Longrightarrow> length (c_contextID h) = 4 \<Longrightarrow>
    dlt_register_context_ll_ts_llccb env k (Some h) ident dsc loglevel tracestatus cb = (rc, k', Some g) \<Longrightarrow>
    context_run env k0 k' (if k_num k' = k_num k then hs else g # hs)"
| unregistering: "context_run env k0 k hs \<Longrightarrow> h \<in> set hs \<Longrightarrow> \<not> u_is_child (user_of k) \<Longrightarrow>
    dlt_unregister_context env k (Some h) = Some (rc, k', g) \<Longrightarrow> context_run env k0 k' (remove1 h hs)"
| receiving: "context_run env k0 k hs \<Longrightarrow> dlt_user_log_check_user_message env k = Some (rc, k') \<Longrightarrow> context_run env k0 k' hs"
| limiting: "context_run env k0 k hs \<Longrightarrow> dlt_set_application_ll_ts_limit env k loglevel tracestatus = (rc, k') \<Longrightarrow> context_run env k0 k' hs"
| watching: "context_run env k0 k hs \<Longrightarrow> dlt_register_log_level_changed_callback env k (Some h) cb = Some (rc, k') \<Longrightarrow> context_run env k0 k' hs"
| injecting: "context_run env k0 k hs \<Longrightarrow> dlt_register_injection_callback_with_id env k (Some h) sid cbk priv = Some (rc, k') \<Longrightarrow>
    context_run env k0 k' hs"

lemma handle_ok_pos: "handle_ok k h \<Longrightarrow> 0 \<le> c_log_level_pos h \<and> c_log_level_pos h < int (k_num k)"
  unfolding handle_ok_def by auto

lemma context_run_ok:
  assumes "context_run env k0 k hs" "lib_ok k0"
  shows "lib_ok k \<and> (\<forall>h \<in> set hs. handle_ok k h) \<and> distinct (map c_log_level_pos hs)"
  using assms
proof induction
  case (registering k hs h ident dsc loglevel tracestatus cb rc k' g)
  then have IH: "lib_ok k" "\<forall>h \<in> set hs. handle_ok k h" "distinct (map c_log_level_pos hs)" by simp_all
  note r = register_context_ok [OF registering.hyps(4) IH(1) registering.hyps(2,3)]
  have kept: "\<forall>h \<in> set hs. handle_ok k' h" using r IH(2) by (simp add: keeps_handle_def)
  show ?case
  proof (cases "k_num k' = k_num k")
    case False
    then have "handle_ok k' g" "c_log_level_pos g = int (k_num k)" using r by auto
    moreover have "int (k_num k) \<notin> c_log_level_pos ` set hs" using IH(2) handle_ok_pos by force
    ultimately show ?thesis using r kept IH(3) False by simp
  qed (use r kept IH(3) in simp)
next
  case (unregistering k hs h rc k' g)
  then have IH: "lib_ok k" "\<forall>h \<in> set hs. handle_ok k h" "distinct (map c_log_level_pos hs)" by simp_all
  have u: "lib_ok k'" "\<forall>g. handle_ok k g \<and> c_log_level_pos g \<noteq> c_log_level_pos h \<longrightarrow> keeps_handle k k' g"
    using unregister_context_ok [of k h env] IH unregistering.hyps by auto
  have "distinct hs" using IH(3) distinct_map by blast
  then have "c_log_level_pos x \<noteq> c_log_level_pos h" if "x \<in> set (remove1 h hs)" for x
    using that IH(3) unregistering.hyps(2) by (auto simp: distinct_map inj_on_def)
  moreover have "distinct (map c_log_level_pos (remove1 h hs))"
    using IH(3) \<open>distinct hs\<close> by (auto simp: distinct_map intro: inj_on_subset)
  ultimately show ?case using u IH(2) by (auto simp: keeps_handle_def dest: notin_set_remove1)
next
  case (receiving k hs rc k')
  then show ?case using check_user_message_ok [OF receiving.hyps(2)] by (simp add: keeps_all_def)
next
  case (limiting k hs loglevel tracestatus rc k')
  then show ?case using set_limit_ok [OF limiting.hyps(2)] by (simp add: keeps_all_def)
next
  case (watching k hs h cb rc k')
  then show ?case using callback_ok(1) [OF _ watching.hyps(2)] by (simp add: keeps_all_def)
next
  case (injecting k hs h sid cbk priv rc k')
  then show ?case using callback_ok(2) [OF _ injecting.hyps(2)] by (simp add: keeps_all_def)
qed simp

lemma handle_cells_differ:
  assumes "lib_ok k" "handle_ok k g" "handle_ok k h" "c_log_level_pos g \<noteq> c_log_level_pos h"
  shows "h_log_level_ptr g \<noteq> h_log_level_ptr h"
proof -
  obtain t i where t: "k_table k = Some t" and i: "c_log_level_pos g = int i" "i < length t" "h_log_level_ptr g = e_log_level_ptr (t ! i)" "h_log_level_ptr g \<noteq> None"
    using assms(2) unfolding handle_ok_def by blast
  obtain j where j: "c_log_level_pos h = int j" "j < length t" "h_log_level_ptr h = e_log_level_ptr (t ! j)"
    using assms(3) t unfolding handle_ok_def by (metis option.inject)
  have "own_cells t (k_cells k)" using assms(1) t by (simp add: lib_ok_def ll_table_ok_def)
  then have "set (entry_ptrs (t ! i)) \<inter> set (entry_ptrs (t ! j)) = {}" using i j assms(4) unfolding own_cells_def by auto
  then show ?thesis using i(3,4) j(3) by (auto simp: set_entry_ptrs)
qed

section \<open>Messages from the daemon to a handle\<close>

definition listening :: "context_env \<Rightarrow> context_lib \<Rightarrow> byte list \<Rightarrow> bool" where
  "listening env k bytes \<longleftrightarrow> 0 \<le> k_user_handle k \<and> ck_poll env k = (1, False) \<and> rcv_ok (k_mem k, k_receiver k) \<and>
     bytesRcvd (k_receiver k) = 0 \<and> length bytes \<le> nat (buffersize (k_receiver k)) \<and>
     ck_read env k (nat (buffersize (k_receiver k))) = Some bytes"

lemma receive_message:
  assumes "listening env k bs" "bs \<noteq> []"
  shows "\<exists>mem r rest. dlt_receiver_receive (ck_read env k) (k_mem k) (Some (k_receiver k)) = (int (length bs), mem, Some r) \<and>
    rcv_ok (mem, r) \<and> bytesRcvd r = int (length bs) \<and> received (k\<lparr>k_mem := mem, k_receiver := r\<rparr>) = bs @ rest \<and> length (bs @ rest) < 2147483648"
proof -
  let ?r = "k_receiver k"
  have l: "rcv_ok (k_mem k, ?r)" "bytesRcvd ?r = 0" "length bs \<le> nat (buffersize ?r)" "ck_read env k (nat (buffersize ?r)) = Some bs"
    using assms(1) by (simp_all add: listening_def)
  obtain a where a: "rbuffer ?r = Some a" using l(1) by (auto simp: rcv_ok_def)
  have mv: "dlt_receiver_move_to_begin True (k_mem k) (Some ?r) = (0, Some ?r)"
    using l(1,2) by (auto simp: dlt_receiver_move_to_begin_def rcv_ok_def)
  have w: "waiting_bytes (k_mem k, ?r) = []" using l(2) by (simp add: waiting_bytes_def memget_def)
  obtain mem r where r: "dlt_receiver_receive (ck_read env k) (k_mem k) (Some ?r) = (int (length bs), mem, Some r)" "rcv_ok (mem, r)"
    "waiting_bytes (mem, r) = bs"
    using receive_after_move [OF l(1) a, of "k_mem k" "ck_read env k" bs 0 "Some ?r"] l w mv assms(2) by auto
  have n: "bytesRcvd r = int (length bs)" using length_waiting [OF r(2)] r(2,3) by (simp add: rcv_ok_def)
  have rec: "received (k\<lparr>k_mem := mem, k_receiver := r\<rparr>) = drop (the (buf r)) (mem (the (rbuffer r)))" by (simp add: received_def)
  then have "take (length bs) (received (k\<lparr>k_mem := mem, k_receiver := r\<rparr>)) = bs" using r(3) n by (simp add: waiting_bytes_def memget_def)
  then have "received (k\<lparr>k_mem := mem, k_receiver := r\<rparr>) = bs @ drop (length bs) (received (k\<lparr>k_mem := mem, k_receiver := r\<rparr>))"
    by (metis append_take_drop_id)
  moreover have "length (received (k\<lparr>k_mem := mem, k_receiver := r\<rparr>)) < 2147483648" using r(2) by (auto simp: rec rcv_ok_def)
  ultimately show ?thesis using r n by metis
qed

lemma first_message:
  assumes "received k = user_header mtype @ rest" "8 \<le> bytesRcvd (k_receiver k)" "0 < mtype" "mtype < 2 ^ 31"
  shows "resync_offset (received k) (bytesRcvd (k_receiver k)) 0 = 0" "dlt_user_check_userheader (received k)" "le_val (memget (received k) 4 4) = mtype"
proof -
  have h: "received k = [0x44, 0x55, 0x48, 1] @ le_bytes 4 mtype @ rest" using assms(1,3) by (simp add: user_header_def dlt_user_set_userheader_def)
  show c: "dlt_user_check_userheader (received k)" by (simp add: h dlt_user_check_userheader_def)
  then show "resync_offset (received k) (bytesRcvd (k_receiver k)) 0 = 0" by (simp add: resync_offset.simps)
  have "memget (received k) 4 4 = le_bytes 4 mtype" by (simp add: h memget_def)
  then show "le_val (memget (received k) 4 4) = mtype" using assms(3,4) by (simp add: le_val_le_bytes)
qed

lemma i8_mod: "i8 (x mod 256) = i8 x" "u8 (i8 x) = u8 x"
  by (simp_all add: i8_def u8_def mod_simps)

definition level_bytes :: "int \<Rightarrow> int \<Rightarrow> int \<Rightarrow> byte list" where
  "level_bytes level ts pos = user_header 6 @ le_bytes 1 level @ le_bytes 1 ts @ le_bytes 4 pos"

lemma level_message_reaches:
  assumes k: "lib_ok k" "handle_ok k h" "int (k_num k) < 2147483648"
    and l: "listening env k (level_bytes level ts (c_log_level_pos h))"
  shows "\<exists>k'. dlt_user_log_check_user_message env k = Some (DLT_RETURN_OK, k') \<and> lib_ok k' \<and> handle_ok k' h \<and>
    c_log_level (seen k' h) = Some (i8 level) \<and> k_cells k' ! the (h_trace_status_ptr h) = Some (i8 ts) \<and>
    (\<forall>g. handle_ok k g \<and> c_log_level_pos g \<noteq> c_log_level_pos h \<longrightarrow> handle_ok k' g \<and> c_log_level (seen k' g) = c_log_level (seen k g)) \<and>
    k_calls k' = k_calls k @ (case e_changed_callback (the (k_table k) ! nat (c_log_level_pos h)) of None \<Rightarrow> []
      | Some f \<Rightarrow> [Level_Changed f (c_contextID h) (u8 level) (u8 ts)])"
proof -
  let ?bs = "level_bytes level ts (c_log_level_pos h)" and ?pos = "c_log_level_pos h"
  obtain t i where t: "k_table k = Some t" and i: "?pos = int i" "i < k_num k" "i < length t" "e_contextID (t ! i) = c_contextID h"
    and p: "h_log_level_ptr h = e_log_level_ptr (t ! i)" "h_trace_status_ptr h = e_trace_status_ptr (t ! i)"
    using k(2) unfolding handle_ok_def by blast
  have uh: "length (user_header 6) = 8" by (simp add: user_header_def dlt_user_set_userheader_def)
  then have len: "length ?bs = 14" by (simp add: level_bytes_def)
  then have "?bs \<noteq> []" by auto
  from receive_message [OF l this] obtain mem r rest where r: "dlt_receiver_receive (ck_read env k) (k_mem k) (Some (k_receiver k)) = (14, mem, Some r)"
    "rcv_ok (mem, r)" "bytesRcvd r = 14" "received (k\<lparr>k_mem := mem, k_receiver := r\<rparr>) = ?bs @ rest" by (auto simp: len)
  let ?k1 = "k\<lparr>k_mem := mem, k_receiver := r\<rparr>"
  have rec: "received ?k1 = user_header 6 @ le_bytes 1 level @ le_bytes 1 ts @ le_bytes 4 ?pos @ rest" using r(4) by (simp add: level_bytes_def)
  note fm = first_message [OF rec]
  have fields: "le_val (memget (received ?k1) 8 1) = level mod 256" "le_val (memget (received ?k1) 9 1) = ts mod 256"
    "le_val (memget (received ?k1) 10 4) = ?pos mod 4294967296"
    by (simp_all add: rec memget_def uh flip: le_val_le_bytes [of 1, simplified] le_val_le_bytes [of 4, simplified])
  have pos: "i32 (?pos mod 4294967296) = ?pos" using i k(3) by (simp add: i32_id)
  let ?call = "case e_changed_callback (t ! i) of None \<Rightarrow> [] | Some f \<Rightarrow> [Level_Changed f (c_contextID h) (u8 level) (u8 ts)]"
  let ?d = "map_option (\<lambda>f. (f, c_contextID h, i8 level, i8 ts)) (e_changed_callback (t ! i))"
  let ?k2 = "(set_entry_level (i8 level) (i8 ts) i ?k1)\<lparr>k_calls := k_calls k @ ?call\<rparr>"
  obtain r' where r': "dlt_receiver_remove (Some r) 14 = (0, Some r')" "rcv_ok (mem, r')" "bytesRcvd r' = 0"
    using remove_waiting [OF r(2), of 14] r(3) by auto
  let ?k3 = "?k2\<lparr>k_receiver := r'\<rparr>"
  have calls: "level_calls ?d = ?call" by (simp add: level_calls_def i8_mod split: option.split)
  have "log_level_message ?k1 None = (Go_On, ?k3, ?d)"
  proof -
    have hit: "0 \<le> ?pos" "?pos < i32 (int (k_num ?k1))" "k_table ?k1 = Some t" "nat ?pos = i" using i k(3) t by (simp_all add: i32_id)
    have rm: "remove_bytes 14 ?k2 = (0, ?k3)" using r'(1) by (simp add: remove_bytes_def)
    have bytes: "\<not> bytesRcvd (k_receiver ?k1) < 8 + 6" by (simp add: r(3))
    show ?thesis
      unfolding log_level_message_def fields pos i8_mod if_not_P [OF bytes] Let_def
      using hit rm by (simp add: i(4) calls)
  qed
  then have turn: "check_turn env ?k1 None = Some (Go_On, ?k3, ?d)"
    using fm r(3) by (simp add: check_turn_def)
  obtain pa pb where b: "buf r = Some pa" "buf r' = Some pb" using r(2) r'(2) by (auto simp: rcv_ok_def)
  have "check_loop env ?k1 None = check_loop env ?k3 ?d" using b(1) turn by (simp add: check_loop.simps [of env ?k1])
  also have "\<dots> = Some (None, ?k3)" using b(2) r'(3) by (simp add: check_loop.simps [of env ?k3] check_turn_def)
  finally have loop: "check_loop env ?k1 None = Some (None, ?k3)" .
  obtain rc r2 where mv: "dlt_receiver_move_to_begin (ck_backup env) mem (Some r') = (rc, Some r2)" "rc \<noteq> DLT_RETURN_ERROR"
    using r'(2,3) by (auto simp: dlt_receiver_move_to_begin_def rcv_ok_def)
  let ?k' = "?k3\<lparr>k_receiver := r2\<rparr>" and ?s = "set_entry_level (i8 level) (i8 ts) i ?k1"
  have chk: "dlt_user_log_check_user_message env k = Some (DLT_RETURN_OK, ?k')"
    using l r(1) loop mv by (simp add: dlt_user_log_check_user_message_def listening_def)
  have "lib_ok ?k1" "k_table ?k1 = Some t" "i < k_num ?k1" using k(1) t i by simp_all
  note ok = set_entry_level_ok [OF this, of "i8 level" "i8 ts"]
  have lk: "lib_ok ?k'" and h: "handle_ok ?k' h" using ok k(2) by simp_all
  have at: "the (k_table ?k') ! i = (t ! i)\<lparr>e_log_level := i8 level, e_trace_status := i8 ts\<rparr>"
    using t i by (simp add: set_entry_level_def Let_def)
  have others: "handle_ok ?k' g \<and> c_log_level (seen ?k' g) = c_log_level (seen k g)" if g: "handle_ok k g" "c_log_level_pos g \<noteq> ?pos" for g
  proof -
    have kg: "keeps_handle ?k1 ?s g" using ok g i(1) by simp
    then have g': "handle_ok ?k' g" by (simp add: keeps_handle_def)
    have "the (k_table ?k') ! nat (c_log_level_pos g) = the (k_table k) ! nat (c_log_level_pos g)" using kg by (simp add: keeps_handle_def)
    then show ?thesis using handle_sees(1) [OF lk g'] handle_sees(1) [OF k(1) g(1)] g' by simp
  qed
  show ?thesis
    using chk lk h others handle_sees [OF lk h] at i(1) t
    by (intro exI [of _ ?k'] conjI) simp_all
qed

text \<open>An injection whose length makes the 32 bit sum wrap around.\<close>

lemma wrapped_injection:
  assumes k: "k_table k = Some t" "i < length t" "i < 2147483648" "find_injection t (int i) sid = Some (Some x)" "sid < 2 ^ 32"
    and len: "2147483628 \<le> len" "len < 4294967296" "ck_inject env (nat len)"
    and l: "listening env k (user_header 7 @ le_bytes 4 (int i) @ le_bytes 4 (int sid) @ le_bytes 4 len)"
  shows "dlt_user_log_check_user_message env k = None"
proof -
  let ?bs = "user_header 7 @ le_bytes 4 (int i) @ le_bytes 4 (int sid) @ le_bytes 4 len"
  have uh: "length (user_header 7) = 8" by (simp add: user_header_def dlt_user_set_userheader_def)
  then have bs: "length ?bs = 20" by simp
  then have "?bs \<noteq> []" by auto
  from receive_message [OF l this] obtain mem r rest where r: "dlt_receiver_receive (ck_read env k) (k_mem k) (Some (k_receiver k)) = (20, mem, Some r)"
    "rcv_ok (mem, r)" "bytesRcvd r = 20" "received (k\<lparr>k_mem := mem, k_receiver := r\<rparr>) = ?bs @ rest" "length (?bs @ rest) < 2147483648"
    unfolding bs by auto
  let ?k1 = "k\<lparr>k_mem := mem, k_receiver := r\<rparr>"
  have rec: "received ?k1 = user_header 7 @ le_bytes 4 (int i) @ le_bytes 4 (int sid) @ le_bytes 4 len @ rest" using r(4) by simp
  note fm = first_message [OF rec]
  have fields: "le_val (memget (received ?k1) 8 4) = int i mod 4294967296" "le_val (memget (received ?k1) 12 4) = int sid mod 4294967296"
    "le_val (memget (received ?k1) 16 4) = len mod 4294967296"
    by (simp_all add: rec memget_def uh flip: le_val_le_bytes [of 4, simplified])
  have vals: "i32 (int i mod 4294967296) = int i" "nat (int sid mod 4294967296) = sid" "len mod 4294967296 = len"
    using k(3,5) len(1,2) by (simp_all add: i32_id)
  have wrap: "i32 (8 + 12 + len) \<le> 20"
  proof -
    have "(20 + len + 2147483648) mod 4294967296 = (20 + len - 2147483648) mod 4294967296"
      using mod_add_self2 [of "20 + len - 2147483648" 4294967296] by (simp add: algebra_simps)
    also have "\<dots> = 20 + len - 2147483648" using len(1,2) by (simp add: mod_pos_pos_trivial)
    finally show ?thesis using len by (simp add: i32_def)
  qed
  have "nat len + 20 > length (received ?k1)" using r(4,5) len(1) by simp
  then have "injection_message env ?k1 = None"
    unfolding injection_message_def fields vals Let_def using wrap k(1,4) len r(3) by simp
  then have "check_turn env ?k1 None = None" using fm r(3) by (simp add: check_turn_def)
  then have "check_loop env ?k1 None = None" using r(2) by (simp add: check_loop.simps [of env ?k1] rcv_ok_def)
  then show ?thesis using l r(1) by (simp add: dlt_user_log_check_user_message_def listening_def)
qed

section \<open>Properties\<close>

text \<open>
  C35. Whatever a program registers, unregisters and limits and whatever the daemon sends, in any order,
  including growth of the table and failed allocations, a registered handle reads exactly the level and the
  status of the entry with its identifier, and no two handles share a cell.
\<close>

theorem handles_follow_entries:
  assumes "context_run env k0 k hs" "lib_ok k0" "h \<in> set hs"
  shows "c_log_level (seen k h) = Some (e_log_level (the (k_table k) ! nat (c_log_level_pos h))) \<and>
    k_cells k ! the (h_trace_status_ptr h) = Some (e_trace_status (the (k_table k) ! nat (c_log_level_pos h))) \<and>
    e_contextID (the (k_table k) ! nat (c_log_level_pos h)) = c_contextID h \<and>
    (\<forall>g \<in> set hs. g \<noteq> h \<longrightarrow> h_log_level_ptr g \<noteq> h_log_level_ptr h)"
proof -
  have ok: "lib_ok k" "\<forall>h \<in> set hs. handle_ok k h" "distinct (map c_log_level_pos hs)" using context_run_ok [OF assms(1,2)] by simp_all
  have "c_log_level_pos g \<noteq> c_log_level_pos h" if "g \<in> set hs" "g \<noteq> h" for g
    using ok(3) that assms(3) by (auto simp: distinct_map inj_on_def)
  then have "\<forall>g \<in> set hs. g \<noteq> h \<longrightarrow> h_log_level_ptr g \<noteq> h_log_level_ptr h"
    using handle_cells_differ [OF ok(1)] ok(2) assms(3) by blast
  moreover have h: "handle_ok k h" using ok(2) assms(3) by blast
  moreover have "e_contextID (the (k_table k) ! nat (c_log_level_pos h)) = c_contextID h"
    using h unfolding handle_ok_def by auto
  ultimately show ?thesis using handle_sees [OF ok(1) h] by simp
qed

definition example_context_env :: "byte list \<Rightarrow> context_env" where
  "example_context_env bs = \<lparr>ck_app = example_app_env takes_all, ck_init = (\<lambda>k. (0, k)), ck_table = (\<lambda>_. True), ck_text = (\<lambda>_. True), ck_cell = (\<lambda>_. Some 0),
     ck_callbacks = (\<lambda>_. True), ck_inject = (\<lambda>_. True), ck_poll = (\<lambda>_. (1, False)), ck_read = (\<lambda>_ _. Some bs), ck_backup = True\<rparr>"

definition example_lib_receiver :: DltReceiver where
  "example_lib_receiver = \<lparr>lastBytesRcvd = 0, bytesRcvd = 0, totalBytesRcvd = 0, rbuffer = Some 0, buf = Some 0, backup_buf = None, fd = 5,
     rtype = DLT_RECEIVE_FD, buffersize = 64\<rparr>"

definition example_entry :: dlt_ll_ts_type where
  "example_entry = new_entry\<lparr>e_contextID := [0x43, 0, 0, 0], e_log_level_ptr := Some 0, e_trace_status_ptr := Some 1, e_injection_table :=
     Some [\<lparr>i_service_id = 0x1000, i_callback = Some 3, i_callback_with_id = None, i_data = None\<rparr>], e_nrcallbacks := 1, e_changed_callback := Some 9\<rparr>"

definition example_lib :: context_lib where
  "example_lib = \<lparr>k_app = example_client [], k_table = Some (example_entry # replicate 499 new_entry), k_num = 1, k_max = 500, k_cells = [Some 4, Some 0],
     k_env_levels = example_set, k_user_handle = 5, k_receiver = example_lib_receiver, k_mem = (\<lambda>_. replicate 64 0), k_log_state = 0, k_calls = []\<rparr>"

definition example_handle :: context_handle where
  "example_handle = \<lparr>c_contextID = [0x43, 0, 0, 0], c_log_level_pos = 0, c_log_level = None, c_mcnt = 0, h_log_level_ptr = Some 0, h_trace_status_ptr = Some 1\<rparr>"

lemma example_lib_ok: "lib_ok example_lib" "handle_ok example_lib example_handle"
proof -
  have p: "entry_ptrs example_entry = [0, 1]" by (simp add: example_entry_def entry_ptrs_def)
  have nth: "(example_entry # replicate 499 new_entry) ! i = (if i = 0 then example_entry else new_entry)" if "i < 500" for i
    using that by (cases i) auto
  have "own_cells (example_entry # replicate 499 new_entry) [Some 4, Some 0]"
    unfolding own_cells_def by (intro allI impI) (simp add: nth p)
  moreover have "shows_levels [Some 4, Some 0] example_entry" by (simp add: shows_levels_def example_entry_def new_entry_def)
  ultimately show "lib_ok example_lib"
    by (simp add: lib_ok_def ll_table_ok_def example_lib_def user_of_def example_client_user example_entry_def new_entry_def)
  show "handle_ok example_lib example_handle"
    by (intro handle_okI [of _ "example_entry # replicate 499 new_entry" _ 0]) (simp_all add: example_lib_def example_handle_def example_entry_def)
qed

lemma example_listening: "length bs \<le> 64 \<Longrightarrow> listening (example_context_env bs) example_lib bs"
  by (simp add: listening_def example_context_env_def example_lib_def example_lib_receiver_def rcv_ok_def)

definition example_new_handle :: context_handle where
  "example_new_handle = \<lparr>c_contextID = [0, 0, 0, 0], c_log_level_pos = 0, c_log_level = None, c_mcnt = 0, h_log_level_ptr = None, h_trace_status_ptr = None\<rparr>"

lemma example_registered:
  "\<exists>rc k' g. dlt_register_context_ll_ts_llccb (example_context_env []) example_lib (Some example_new_handle) (Some [0x44, 0]) None 3 1 None = (rc, k', Some g) \<and> k_num k' = 2"
proof -
  have u: "u_initialised (user_of example_lib)" "\<not> u_is_child (user_of example_lib)" by (simp_all add: user_of_def example_lib_def example_client_user example_client_def example_user_def)
  then obtain log where init: "context_log_init (example_context_env []) example_lib (Some example_new_handle) = (DLT_RETURN_OK, example_lib, log)"
    by (auto simp: context_log_init_def dlt_user_log_init_def)
  have n: "k_num example_lib = 1" "k_table example_lib = Some (example_entry # replicate 499 new_entry)" "k_cells example_lib = [Some 4, Some 0]"
    by (simp_all add: example_lib_def)
  have e: "extend_table (example_context_env []) example_lib = Some example_lib" by (simp add: extend_table_def n)
  have at: "(example_entry # replicate 499 new_entry) ! 1 = new_entry" by simp
  obtain x k3 where p: "prepare_entry (example_context_env []) example_lib [0x44, 0] None = (True, x, k3)" "k_num k3 = 1"
    by (simp add: prepare_entry_def n alloc_cell_def example_context_env_def new_entry_def Let_def)
  show ?thesis
    by (simp add: dlt_register_context_ll_ts_llccb_def u init e p n Let_def split: prod.splits)
qed

theorem handles_follow_entries_witness:
  "\<exists>k g. context_run (example_context_env []) example_lib k [g] \<and> c_log_level (seen k g) = Some (e_log_level (the (k_table k) ! nat (c_log_level_pos g)))"
proof -
  obtain rc k' g where r: "dlt_register_context_ll_ts_llccb (example_context_env []) example_lib (Some example_new_handle) (Some [0x44, 0]) None 3 1 None = (rc, k', Some g)"
    "k_num k' = 2" using example_registered by blast
  have "context_run (example_context_env []) example_lib k' (if k_num k' = k_num example_lib then [] else [g])"
    by (rule registering [OF started _ _ r(1)]) (simp_all add: example_lib_def example_new_handle_def)
  then have "context_run (example_context_env []) example_lib k' [g]" using r(2) by (simp add: example_lib_def)
  then show ?thesis using handles_follow_entries [OF _ example_lib_ok(1), of "example_context_env []" k' "[g]" g] by auto
qed

text \<open>
  The level of a context travels from the tables of the daemon to the program: the bytes that
  \<open>dlt_daemon_user_send_log_level\<close> writes, received by the application, set the level and the status that the
  handle reads, call its callback once with them, and change what no other handle reads.
\<close>

theorem daemon_level_reaches_handle:
  assumes "dlt_daemon_user_send_log_level uenv d x = (rc, d', To_User f bytes # evs)" "x_log_level_pos x = c_log_level_pos h"
    and "lib_ok k" "handle_ok k h" "int (k_num k) < 2147483648" "listening env k bytes"
  shows "\<exists>k'. dlt_user_log_check_user_message env k = Some (DLT_RETURN_OK, k') \<and> lib_ok k' \<and> handle_ok k' h \<and>
    c_log_level (seen k' h) = Some (i8 (int (sent_log_level d x))) \<and>
    k_cells k' ! the (h_trace_status_ptr h) = Some (i8 (int (sent_trace_status d x))) \<and>
    (\<forall>g. handle_ok k g \<and> c_log_level_pos g \<noteq> c_log_level_pos h \<longrightarrow> handle_ok k' g \<and> c_log_level (seen k' g) = c_log_level (seen k g)) \<and>
    k_calls k' = k_calls k @ (case e_changed_callback (the (k_table k) ! nat (c_log_level_pos h)) of None \<Rightarrow> []
      | Some f \<Rightarrow> [Level_Changed f (c_contextID h) (sent_log_level d x) (sent_trace_status d x)])"
proof -
  have "bytes = level_bytes (int (sent_log_level d x)) (int (sent_trace_status d x)) (c_log_level_pos h)"
    using assms(1,2) by (auto simp: dlt_daemon_user_send_log_level_def dlt_user_set_userheader_def level_bytes_def user_header_def Let_def split: prod.splits)
  moreover have "u8 (int (sent_log_level d x)) = sent_log_level d x" "u8 (int (sent_trace_status d x)) = sent_trace_status d x"
    by (simp_all add: sent_log_level_def sent_trace_status_def u8_def)
  moreover have "listening env k (level_bytes (int (sent_log_level d x)) (int (sent_trace_status d x)) (c_log_level_pos h))"
    using assms(6) calculation(1) by simp
  note level_message_reaches [OF assms(3-5) this]
  ultimately show ?thesis by (simp only:)
qed

text \<open>
  C36. The length of an injected message is trusted: from 2 to the power of 31 less 20 on, the sum with
  the size of the header wraps around in 32 bits, the message counts as complete with its header alone, and
  the data for the callback are read behind the memory of the receiver.
\<close>

theorem injection_length_wraps:
  assumes "k_table k = Some t" "i < length t" "i < 2147483648" "find_injection t (int i) sid = Some (Some x)" "sid < 2 ^ 32"
    and "2147483628 \<le> len" "len < 4294967296" "ck_inject env (nat len)"
    and "listening env k (user_header 7 @ le_bytes 4 (int i) @ le_bytes 4 (int sid) @ le_bytes 4 len)"
  shows "dlt_user_log_check_user_message env k = None"
  using assms by (rule wrapped_injection)

theorem injection_length_wraps_witness:
  "dlt_user_log_check_user_message (example_context_env (user_header 7 @ le_bytes 4 0 @ le_bytes 4 0x1000 @ le_bytes 4 4294967295)) example_lib = None"
proof -
  have l: "length (user_header 7 @ le_bytes 4 0 @ le_bytes 4 0x1000 @ le_bytes 4 4294967295) \<le> 64"
    by (simp add: user_header_def dlt_user_set_userheader_def)
  show ?thesis
    using injection_length_wraps [where k = example_lib and t = "example_entry # replicate 499 new_entry" and i = 0 and sid = "0x1000" and len = 4294967295 and env =
        "example_context_env (user_header 7 @ le_bytes 4 0 @ le_bytes 4 0x1000 @ le_bytes 4 4294967295)"]
      example_listening [OF l]
    by (simp add: example_lib_def find_injection_def example_entry_def Let_def example_context_env_def)
qed

end
