(* ===== verification/Control_Requests.thy ===== *)
theory Control_Requests
  imports Payload_Print Tables_Files User_Contexts
begin

unbundle bit_operations_syntax

text \<open>
  The services a client can request (\<open>src/daemon/dlt_daemon_client.c\<close>, the updates of
  \<open>src/daemon/dlt_daemon_common.c\<close>): the dispatch of \<open>dlt_daemon_client_process_control\<close>, log levels
  and trace statuses of single contexts, of all contexts of an application or with a pattern, of
  all contexts and by default, the listing of applications and contexts, stored configurations,
  injections; and the messages the daemon sends on its own.

  The tables are those of \<open>Daemon_Tables\<close>, the messages to the applications those of
  \<open>User_Messages\<close>. A response to the client is the payload that is handed to
  \<open>dlt_daemon_client_send_control_message\<close> (\<open>Daemon_Send\<close>).
\<close>

section \<open>State\<close>

datatype control_event = App user_event | Response "byte list"

text \<open>
  \<open>c_sent\<close> is what sending a response does to the tables: when it fails the daemon closes the
  socket, and with the last client it tells all applications, of which those with a broken pipe
  lose their handle. \<open>c_inject\<close> is the result of \<open>dlt_user_log_out3\<close>. \<open>c_gateway\<close> is None
  without gateway mode, else the identifier of the option and the result of
  \<open>dlt_gateway_forward_control_message\<close>. \<open>c_other\<close> stands for the requests of the offline log
  storage and of passive nodes.
\<close>

record control_env =
  c_user :: user_env
  c_alloc :: "nat \<Rightarrow> bool"
  c_sent :: "byte list \<Rightarrow> daemon_users \<Rightarrow> daemon_users"
  enforceContextLLAndTS :: bool
  contextLogLevel :: int
  contextTraceStatus :: int
  injectionMode :: bool
  c_gateway :: "(byte list \<times> (byte list \<Rightarrow> int)) option"
  c_inject :: "int \<Rightarrow> byte list \<Rightarrow> int"
  ECUVersionString :: "byte list"
  c_overflow :: nat
  application_cfg :: "byte list"
  context_cfg :: "byte list"
  cfg_open :: "bool \<times> bool"
  cfg_remove :: "bool \<times> bool"
  c_other :: "nat \<Rightarrow> byte list \<Rightarrow> daemon_users \<Rightarrow> daemon_users \<times> control_event list"

text \<open>The tables, the flag for timing packets and the two files of the configuration.\<close>

record control_state =
  c_users :: daemon_users
  timingpackets :: bool
  application_file :: "byte list option"
  context_file :: "byte list option"

abbreviation (input) DLT_SERVICE_RESPONSE_OK :: byte where "DLT_SERVICE_RESPONSE_OK \<equiv> 0"
abbreviation (input) DLT_SERVICE_RESPONSE_NOT_SUPPORTED :: byte where "DLT_SERVICE_RESPONSE_NOT_SUPPORTED \<equiv> 1"
abbreviation (input) DLT_SERVICE_RESPONSE_ERROR :: byte where "DLT_SERVICE_RESPONSE_ERROR \<equiv> 2"
abbreviation (input) DLT_SERVICE_RESPONSE_PERM_DENIED :: byte where "DLT_SERVICE_RESPONSE_PERM_DENIED \<equiv> 3"
abbreviation (input) asterisk :: byte where "asterisk \<equiv> 0x2A"

definition getStatus :: "nat \<Rightarrow> int \<Rightarrow> int" where
  "getStatus request_log context_log = i8 (if int request_log \<le> context_log then int request_log else context_log)"

section \<open>Responses\<close>

definition send_response :: "control_env \<Rightarrow> daemon_users \<Rightarrow> byte list \<Rightarrow> daemon_users \<times> control_event list" where
  "send_response env d p = (if c_alloc env (length p) then (c_sent env p d, [Response p]) else (d, []))"

definition service_payload :: "nat \<Rightarrow> byte \<Rightarrow> byte list" where
  "service_payload sid st = le_bytes 4 (int sid) @ [st]"

definition dlt_daemon_control_service_response :: "control_env \<Rightarrow> daemon_users \<Rightarrow> nat \<Rightarrow> byte \<Rightarrow> daemon_users \<times> control_event list" where
  "dlt_daemon_control_service_response env d sid st = send_response env d (service_payload sid st)"

definition software_version_payload :: "byte list \<Rightarrow> byte list" where
  "software_version_payload v = le_bytes 4 0x13 @ [DLT_SERVICE_RESPONSE_OK] @ le_bytes 4 (int (length v)) @ v"

definition or_error :: "control_env \<Rightarrow> daemon_users \<Rightarrow> nat \<Rightarrow> byte list \<Rightarrow> daemon_users \<times> control_event list" where
  "or_error env d sid p =
     (if c_alloc env (length p) then send_response env d p
      else dlt_daemon_control_service_response env d sid DLT_SERVICE_RESPONSE_ERROR)"

definition dlt_daemon_control_get_software_version :: "control_env \<Rightarrow> daemon_users \<Rightarrow> daemon_users \<times> control_event list" where
  "dlt_daemon_control_get_software_version env d = or_error env d 0x13 (software_version_payload (ECUVersionString env))"

definition dlt_daemon_control_get_default_log_level :: "control_env \<Rightarrow> daemon_users \<Rightarrow> daemon_users \<times> control_event list" where
  "dlt_daemon_control_get_default_log_level env d =
     or_error env d 4 (le_bytes 4 4 @ [DLT_SERVICE_RESPONSE_OK] @ le_bytes 1 (default_log_level d))"

text \<open>Unlike the others, the message about overflows is dropped without a reply when there is no memory.\<close>

definition overflow_response :: "control_env \<Rightarrow> daemon_users \<Rightarrow> daemon_users \<times> control_event list" where
  "overflow_response env d = send_response env d (overflow_payload (c_overflow env))"

section \<open>Levels and statuses of single contexts\<close>

definition dlt_daemon_send_log_level :: "control_env \<Rightarrow> int \<Rightarrow> nat \<Rightarrow> nat \<Rightarrow> daemon_users \<Rightarrow> daemon_users \<times> control_event list" where
  "dlt_daemon_send_log_level env loglevel u k d =
     (let old = contexts (user_list d ! u) ! k;
          d1 = set_context d u k (\<lambda>x. x\<lparr>x_log_level := loglevel\<rparr>);
          (rc, d2, ev) = (if x_user_handle old \<ge> DLT_FD_MINIMUM
                          then dlt_daemon_user_send_log_level (c_user env) d1 (contexts (user_list d1 ! u) ! k) else (- 1, d1, []));
          (d3, rv) = (if rc = 0 then dlt_daemon_control_service_response env d2 1 DLT_SERVICE_RESPONSE_OK
                      else dlt_daemon_control_service_response env (set_context d2 u k (\<lambda>x. x\<lparr>x_log_level := x_log_level old\<rparr>)) 1
                             DLT_SERVICE_RESPONSE_ERROR)
      in (d3, map App ev @ rv))"

definition dlt_daemon_send_trace_status :: "control_env \<Rightarrow> int \<Rightarrow> nat \<Rightarrow> nat \<Rightarrow> daemon_users \<Rightarrow> daemon_users \<times> control_event list" where
  "dlt_daemon_send_trace_status env tracestatus u k d =
     (let old = contexts (user_list d ! u) ! k;
          d1 = set_context d u k (\<lambda>x. x\<lparr>x_trace_status := tracestatus\<rparr>);
          (rc, d2, ev) = (if x_user_handle old \<ge> DLT_FD_MINIMUM
                          then dlt_daemon_user_send_log_level (c_user env) d1 (contexts (user_list d1 ! u) ! k) else (- 1, d1, []));
          (d3, rv) = (if rc = 0 then dlt_daemon_control_service_response env d2 2 DLT_SERVICE_RESPONSE_OK
                      else dlt_daemon_control_service_response env (set_context d2 u k (\<lambda>x. x\<lparr>x_trace_status := x_trace_status old\<rparr>)) 2
                             DLT_SERVICE_RESPONSE_ERROR)
      in (d3, map App ev @ rv))"

text \<open>
  \<open>strncmp\<close>. The C standard fixes the sign only; the difference of the first bytes that differ is
  what the usual libraries return. The caller casts it to eight bits.
\<close>

fun strncmp :: "byte list \<Rightarrow> byte list \<Rightarrow> nat \<Rightarrow> int" where
  "strncmp (x # xs) (y # ys) (Suc n) = (if x \<noteq> y then uint x - uint y else if x = 0 then 0 else strncmp xs ys n)"
| "strncmp _ _ _ = 0"

text \<open>
  The loop over the contexts. With \<open>app_flag\<close> the identifiers of the applications are compared, and
  the loop ends at the first one behind the pattern.
\<close>

fun find_multiple_context ::
  "(nat \<Rightarrow> daemon_users \<Rightarrow> daemon_users \<times> control_event list) \<Rightarrow> bool \<Rightarrow> byte list \<Rightarrow> nat \<Rightarrow> nat \<Rightarrow> nat list \<Rightarrow> daemon_users \<Rightarrow>
   daemon_users \<times> control_event list" where
  "find_multiple_context act app_flag str len u [] d = (d, [])"
| "find_multiple_context act app_flag str len u (k # ks) d =
     (let x = contexts (user_list d ! u) ! k;
          src_str = c_string (take 4 (if app_flag then x_apid x else x_ctid x)) @ [0];
          ret = i8 (strncmp src_str (c_string str @ [0]) len)
      in if ret = 0 then
           (case act k d of (d1, ev1) \<Rightarrow> (case find_multiple_context act app_flag str len u ks d1 of (d2, ev2) \<Rightarrow> (d2, ev1 @ ev2)))
         else if ret > 0 \<and> app_flag then (d, [])
         else find_multiple_context act app_flag str len u ks d)"

definition dlt_daemon_find_multiple_context_and_send_log_level ::
  "control_env \<Rightarrow> daemon_users \<Rightarrow> bool \<Rightarrow> byte list \<Rightarrow> nat \<Rightarrow> int \<Rightarrow> daemon_users \<times> control_event list" where
  "dlt_daemon_find_multiple_context_and_send_log_level env d app_flag str len loglevel =
     (case dlt_daemon_find_users_list d (own_ecuid d) of
        None \<Rightarrow> (d, [])
      | Some u \<Rightarrow> find_multiple_context (dlt_daemon_send_log_level env loglevel u) app_flag str len u [0 ..< length (contexts (user_list d ! u))] d)"

definition dlt_daemon_find_multiple_context_and_send_trace_status ::
  "control_env \<Rightarrow> daemon_users \<Rightarrow> bool \<Rightarrow> byte list \<Rightarrow> nat \<Rightarrow> int \<Rightarrow> daemon_users \<times> control_event list" where
  "dlt_daemon_find_multiple_context_and_send_trace_status env d app_flag str len tracestatus =
     (case dlt_daemon_find_users_list d (own_ecuid d) of
        None \<Rightarrow> (d, [])
      | Some u \<Rightarrow> find_multiple_context (dlt_daemon_send_trace_status env tracestatus u) app_flag str len u [0 ..< length (contexts (user_list d ! u))] d)"

text \<open>
  The common part of the two requests: \<open>multiple\<close> is the loop for a pattern, \<open>one\<close> the change of
  one context. The identifiers are read from the packed request: \<open>apid\<close> at 4, \<open>ctid\<close> at 8, the
  level at 12.
\<close>

definition set_request ::
  "control_env \<Rightarrow> (bool \<Rightarrow> byte list \<Rightarrow> nat \<Rightarrow> int \<Rightarrow> daemon_users \<times> control_event list) \<Rightarrow> (int \<Rightarrow> nat \<Rightarrow> nat \<Rightarrow> daemon_users \<times> control_event list) \<Rightarrow>
   int \<Rightarrow> daemon_users \<Rightarrow> byte list \<Rightarrow> int \<Rightarrow> daemon_users \<times> control_event list" where
  "set_request env multiple one limit d req datasz =
     (if dlt_check_rcv_data_size datasz 17 < 0 then (d, [])
      else
        let level = (if enforceContextLLAndTS env then u8 (getStatus (unat (req ! 12)) limit) else unat (req ! 12));
            apid = id4 (memget req 4 4); ctid = id4 (memget req 8 4);
            apid_length = length (c_string apid); ctid_length = length (c_string ctid)
        in if apid_length \<noteq> 0 \<and> apid ! (apid_length - 1) = asterisk \<and> ctid ! 0 = 0 then multiple True apid (apid_length - 1) (i8 (int level))
           else if ctid_length \<noteq> 0 \<and> ctid ! (ctid_length - 1) = asterisk \<and> apid ! 0 = 0 then multiple False ctid (ctid_length - 1) (i8 (int level))
           else if apid_length \<noteq> 0 \<and> apid ! (apid_length - 1) \<noteq> asterisk \<and> ctid ! 0 = 0 then multiple True apid DLT_ID_SIZE (i8 (int level))
           else if ctid_length \<noteq> 0 \<and> ctid ! (ctid_length - 1) \<noteq> asterisk \<and> apid ! 0 = 0 then multiple False ctid DLT_ID_SIZE (i8 (int level))
           else (case dlt_daemon_context_find d apid ctid (own_ecuid d) of
                   Some k \<Rightarrow> one (i8 (int level)) (the (dlt_daemon_find_users_list d (own_ecuid d))) k
                 | None \<Rightarrow> dlt_daemon_control_service_response env d 1 DLT_SERVICE_RESPONSE_ERROR))"

definition dlt_daemon_control_set_log_level :: "control_env \<Rightarrow> daemon_users \<Rightarrow> byte list \<Rightarrow> int \<Rightarrow> daemon_users \<times> control_event list" where
  "dlt_daemon_control_set_log_level env d req datasz =
     set_request env (dlt_daemon_find_multiple_context_and_send_log_level env d) (\<lambda>l u k. dlt_daemon_send_log_level env l u k d)
       (contextLogLevel env) d req datasz"

text \<open>The trace status is in the field \<open>log_level\<close> of the request; an unknown context is answered as a log level request.\<close>

definition dlt_daemon_control_set_trace_status :: "control_env \<Rightarrow> daemon_users \<Rightarrow> byte list \<Rightarrow> int \<Rightarrow> daemon_users \<times> control_event list" where
  "dlt_daemon_control_set_trace_status env d req datasz =
     set_request env (dlt_daemon_find_multiple_context_and_send_trace_status env d) (\<lambda>l u k. dlt_daemon_send_trace_status env l u k d)
       (contextTraceStatus env) d req datasz"

section \<open>Levels and statuses of all contexts\<close>

text \<open>One context of an update: what is stored in its entry, and who gets the message.\<close>

definition update_context ::
  "user_env \<Rightarrow> (DltDaemonContext \<Rightarrow> bool) \<Rightarrow> (DltDaemonContext \<Rightarrow> DltDaemonContext) \<Rightarrow> nat \<Rightarrow> nat \<Rightarrow> daemon_users \<Rightarrow> daemon_users \<times> user_event list" where
  "update_context env who f u k d =
     (let x = contexts (user_list d ! u) ! k
      in if who x \<and> x_user_handle x \<ge> DLT_FD_MINIMUM
         then let d1 = set_context d u k f in snd (dlt_daemon_user_send_log_level env d1 (contexts (user_list d1 ! u) ! k))
         else (d, []))"

fun update_contexts ::
  "user_env \<Rightarrow> (DltDaemonContext \<Rightarrow> bool) \<Rightarrow> (DltDaemonContext \<Rightarrow> DltDaemonContext) \<Rightarrow> nat \<Rightarrow> nat list \<Rightarrow> daemon_users \<Rightarrow> daemon_users \<times> user_event list" where
  "update_contexts env who f u [] d = (d, [])"
| "update_contexts env who f u (k # ks) d =
     (case update_context env who f u k d of (d1, ev1) \<Rightarrow> (case update_contexts env who f u ks d1 of (d2, ev2) \<Rightarrow> (d2, ev1 @ ev2)))"

definition all_contexts ::
  "user_env \<Rightarrow> (DltDaemonContext \<Rightarrow> bool) \<Rightarrow> (DltDaemonContext \<Rightarrow> DltDaemonContext) \<Rightarrow> daemon_users \<Rightarrow> daemon_users \<times> user_event list" where
  "all_contexts env who f d =
     (case dlt_daemon_find_users_list d (own_ecuid d) of
        None \<Rightarrow> (d, [])
      | Some u \<Rightarrow> update_contexts env who f u [0 ..< length (contexts (user_list d ! u))] d)"

definition dlt_daemon_user_send_default_update :: "user_env \<Rightarrow> daemon_users \<Rightarrow> daemon_users \<times> user_event list" where
  "dlt_daemon_user_send_default_update env =
     all_contexts env (\<lambda>x. x_log_level x = DLT_LOG_DEFAULT \<or> x_trace_status x = DLT_TRACE_STATUS_DEFAULT) (\<lambda>x. x)"

definition dlt_daemon_user_send_all_log_level_update :: "user_env \<Rightarrow> int \<Rightarrow> daemon_users \<Rightarrow> daemon_users \<times> user_event list" where
  "dlt_daemon_user_send_all_log_level_update env level = all_contexts env (\<lambda>x. True) (\<lambda>x. x\<lparr>x_log_level := level\<rparr>)"

definition dlt_daemon_user_send_all_trace_status_update :: "user_env \<Rightarrow> int \<Rightarrow> daemon_users \<Rightarrow> daemon_users \<times> user_event list" where
  "dlt_daemon_user_send_all_trace_status_update env st = all_contexts env (\<lambda>x. True) (\<lambda>x. x\<lparr>x_trace_status := st\<rparr>)"

fun send_log_states :: "user_env \<Rightarrow> nat \<Rightarrow> nat list \<Rightarrow> daemon_users \<Rightarrow> daemon_users \<times> user_event list" where
  "send_log_states env u [] d = (d, [])"
| "send_log_states env u (i # js) d =
     (case (if a_user_handle (applications (user_list d ! u) ! i) \<ge> DLT_FD_MINIMUM
            then snd (dlt_daemon_user_send_log_state env d u (Some i)) else (d, [])) of
        (d1, ev1) \<Rightarrow> (case send_log_states env u js d1 of (d2, ev2) \<Rightarrow> (d2, ev1 @ ev2)))"

definition dlt_daemon_user_send_all_log_state :: "user_env \<Rightarrow> daemon_users \<Rightarrow> daemon_users \<times> user_event list" where
  "dlt_daemon_user_send_all_log_state env d =
     (case dlt_daemon_find_users_list d (own_ecuid d) of
        None \<Rightarrow> (d, [])
      | Some u \<Rightarrow> send_log_states env u [0 ..< length (applications (user_list d ! u))] d)"

text \<open>The answer behind the messages to the applications.\<close>

definition then_response :: "control_env \<Rightarrow> nat \<Rightarrow> byte \<Rightarrow> daemon_users \<times> user_event list \<Rightarrow> daemon_users \<times> control_event list" where
  "then_response env sid st p =
     (case p of (d, ev) \<Rightarrow> (case dlt_daemon_control_service_response env d sid st of (d', rv) \<Rightarrow> (d', map App ev @ rv)))"

text \<open>The level of the four requests is at 4. \<open>limited\<close> is the value that is stored.\<close>

definition limited :: "control_env \<Rightarrow> int \<Rightarrow> nat \<Rightarrow> int" where
  "limited env limit v = (if enforceContextLLAndTS env then getStatus v limit else i8 (int v))"

definition dlt_daemon_control_set_default_log_level :: "control_env \<Rightarrow> daemon_users \<Rightarrow> byte list \<Rightarrow> int \<Rightarrow> daemon_users \<times> control_event list" where
  "dlt_daemon_control_set_default_log_level env d req datasz =
     (if dlt_check_rcv_data_size datasz 9 < 0 then (d, [])
      else if unat (req ! 4) \<le> 6
      then then_response env 0x11 DLT_SERVICE_RESPONSE_OK
             (dlt_daemon_user_send_default_update (c_user env) (d\<lparr>default_log_level := limited env (contextLogLevel env) (unat (req ! 4))\<rparr>))
      else dlt_daemon_control_service_response env d 0x11 DLT_SERVICE_RESPONSE_ERROR)"

definition dlt_daemon_control_set_all_log_level :: "control_env \<Rightarrow> daemon_users \<Rightarrow> byte list \<Rightarrow> int \<Rightarrow> daemon_users \<times> control_event list" where
  "dlt_daemon_control_set_all_log_level env d req datasz =
     (if dlt_check_rcv_data_size datasz 9 < 0 then (d, [])
      else if unat (req ! 4) \<le> 6 \<or> unat (req ! 4) = u8 DLT_LOG_DEFAULT
      then then_response env 0xF08 DLT_SERVICE_RESPONSE_OK
             (dlt_daemon_user_send_all_log_level_update (c_user env) (limited env (contextLogLevel env) (unat (req ! 4))) d)
      else dlt_daemon_control_service_response env d 0xF08 DLT_SERVICE_RESPONSE_ERROR)"

definition dlt_daemon_control_set_default_trace_status :: "control_env \<Rightarrow> daemon_users \<Rightarrow> byte list \<Rightarrow> int \<Rightarrow> daemon_users \<times> control_event list" where
  "dlt_daemon_control_set_default_trace_status env d req datasz =
     (if dlt_check_rcv_data_size datasz 9 < 0 then (d, [])
      else if req ! 4 = 0 \<or> req ! 4 = 1
      then then_response env 0x12 DLT_SERVICE_RESPONSE_OK
             (dlt_daemon_user_send_default_update (c_user env) (d\<lparr>default_trace_status := limited env (contextTraceStatus env) (unat (req ! 4))\<rparr>))
      else dlt_daemon_control_service_response env d 0x12 DLT_SERVICE_RESPONSE_ERROR)"

definition dlt_daemon_control_set_all_trace_status :: "control_env \<Rightarrow> daemon_users \<Rightarrow> byte list \<Rightarrow> int \<Rightarrow> daemon_users \<times> control_event list" where
  "dlt_daemon_control_set_all_trace_status env d req datasz =
     (if dlt_check_rcv_data_size datasz 9 < 0 then (d, [])
      else if unat (req ! 4) \<le> 1 \<or> unat (req ! 4) = u8 DLT_TRACE_STATUS_DEFAULT
      then then_response env 0xF09 DLT_SERVICE_RESPONSE_OK
             (dlt_daemon_user_send_all_trace_status_update (c_user env) (limited env (contextTraceStatus env) (unat (req ! 4))) d)
      else dlt_daemon_control_service_response env d 0xF09 DLT_SERVICE_RESPONSE_ERROR)"

section \<open>Stored configurations\<close>

definition remove_file :: "bool \<Rightarrow> byte list option \<Rightarrow> byte list option" where
  "remove_file removable file = (if removable then None else file)"

definition dlt_daemon_control_reset_to_factory_default :: "control_env \<Rightarrow> control_state \<Rightarrow> control_state \<times> user_event list" where
  "dlt_daemon_control_reset_to_factory_default env s =
     (if c_string (application_cfg env) = [] \<or> c_string (context_cfg env) = [] then (s, [])
      else
        let d = (c_users s)\<lparr>default_log_level := i8 (contextLogLevel env), default_trace_status := i8 (contextTraceStatus env),
                  force_ll_ts := enforceContextLLAndTS env\<rparr>
        in (case dlt_daemon_user_send_default_update (c_user env) d of
              (d1, ev) \<Rightarrow> (s\<lparr>c_users := d1, application_file := remove_file (fst (cfg_remove env)) (application_file s),
                              context_file := remove_file (snd (cfg_remove env)) (context_file s)\<rparr>, ev)))"

text \<open>A response as a change of the whole state.\<close>

definition on_users :: "control_state \<Rightarrow> daemon_users \<times> control_event list \<Rightarrow> control_state \<times> control_event list" where
  "on_users s p = (case p of (d, ev) \<Rightarrow> (s\<lparr>c_users := d\<rparr>, ev))"

definition store_file :: "byte list option \<Rightarrow> byte list option \<Rightarrow> byte list option" where
  "store_file new old = (case new of None \<Rightarrow> old | Some f \<Rightarrow> Some f)"

definition store_config :: "control_env \<Rightarrow> control_state \<Rightarrow> control_state \<times> control_event list" where
  "store_config env s =
     (case dlt_daemon_applications_save (fst (cfg_open env)) (c_users s) (Some (application_cfg env)) of
        (r1, f1) \<Rightarrow>
          let s1 = s\<lparr>application_file := store_file f1 (application_file s)\<rparr>
          in if r1 \<noteq> 0 then on_users s1 (dlt_daemon_control_service_response env (c_users s1) 5 DLT_SERVICE_RESPONSE_ERROR)
             else (case dlt_daemon_contexts_save (snd (cfg_open env)) (c_users s1) (Some (context_cfg env)) of
                (r2, f2) \<Rightarrow>
                  let s2 = s1\<lparr>context_file := store_file f2 (context_file s1)\<rparr>
                  in if r2 = 0 then on_users s2 (dlt_daemon_control_service_response env (c_users s2) 5 DLT_SERVICE_RESPONSE_OK)
                     else (case dlt_daemon_control_reset_to_factory_default env s2 of
                        (s3, ev) \<Rightarrow> on_users s3 (then_response env 5 DLT_SERVICE_RESPONSE_ERROR (c_users s3, ev)))))"

definition dlt_daemon_control_set_timing_packets :: "control_env \<Rightarrow> control_state \<Rightarrow> byte list \<Rightarrow> int \<Rightarrow> control_state \<times> control_event list" where
  "dlt_daemon_control_set_timing_packets env s req datasz =
     (if dlt_check_rcv_data_size datasz 5 < 0 then (s, [])
      else if req ! 4 = 0 \<or> req ! 4 = 1
      then on_users (s\<lparr>timingpackets := (req ! 4 = 1)\<rparr>) (dlt_daemon_control_service_response env (c_users s) 0xB DLT_SERVICE_RESPONSE_OK)
      else on_users s (dlt_daemon_control_service_response env (c_users s) 0xB DLT_SERVICE_RESPONSE_ERROR))"

section \<open>The listing of applications and contexts\<close>

text \<open>
  The response is written into a buffer whose size is computed first. A write behind its end is
  None, as is the access to a context behind the end of the array.
\<close>

definition put_bytes :: "byte list \<Rightarrow> (byte list \<times> nat) option \<Rightarrow> (byte list \<times> nat) option" where
  "put_bytes bs s =
     (case s of None \<Rightarrow> None
      | Some (m, off) \<Rightarrow> if off + length bs \<le> length m then Some (memput m off bs, off + length bs) else None)"

definition with_level :: "nat \<Rightarrow> bool" where "with_level opts \<longleftrightarrow> opts = 4 \<or> opts = 6 \<or> opts = 7"

definition with_status :: "nat \<Rightarrow> bool" where "with_status opts \<longleftrightarrow> opts = 5 \<or> opts = 6 \<or> opts = 7"

definition put_description :: "byte list option \<Rightarrow> (byte list \<times> nat) option \<Rightarrow> (byte list \<times> nat) option" where
  "put_description desc s =
     (case desc of Some t \<Rightarrow> put_bytes t (put_bytes (le_bytes 2 (int (length t))) s) | None \<Rightarrow> put_bytes (le_bytes 2 0) s)"

definition put_context :: "nat \<Rightarrow> DltDaemonContext \<Rightarrow> (byte list \<times> nat) option \<Rightarrow> (byte list \<times> nat) option" where
  "put_context opts x s =
     (let s1 = put_bytes (id4 (x_ctid x)) s;
          s2 = (if with_level opts then put_bytes (le_bytes 1 (x_log_level x)) s1 else s1);
          s3 = (if with_status opts then put_bytes (le_bytes 1 (x_trace_status x)) s2 else s2)
      in if opts = 7 then put_description (x_description x) s3 else s3)"

text \<open>The contexts of one application; \<open>found\<close> is the context that was searched before.\<close>

fun put_contexts ::
  "nat \<Rightarrow> byte list \<Rightarrow> DltDaemonContext list \<Rightarrow> nat option list \<Rightarrow> (byte list \<times> nat) option \<Rightarrow> (byte list \<times> nat) option" where
  "put_contexts opts ctid xs [] s = s"
| "put_contexts opts ctid xs (c # cs) s =
     put_contexts opts ctid xs cs
       (case c of None \<Rightarrow> s
        | Some k \<Rightarrow> if k \<ge> length xs then None else if ctid ! 0 = 0 \<or> x_ctid (xs ! k) = ctid then put_context opts (xs ! k) s else s)"

definition offset_base :: "DltDaemonApplication list \<Rightarrow> nat \<Rightarrow> nat" where
  "offset_base as a = nat (sum_list (map a_num_contexts (take a as)))"

definition put_application ::
  "daemon_users \<Rightarrow> nat \<Rightarrow> nat \<Rightarrow> byte list \<Rightarrow> byte list \<Rightarrow> nat option \<Rightarrow> int \<Rightarrow> nat \<Rightarrow> (byte list \<times> nat) option \<Rightarrow> (byte list \<times> nat) option" where
  "put_application d u opts apid ctid found num_contexts i s =
     (let as = applications (user_list d ! u); xs = contexts (user_list d ! u);
          ap = (if apid ! 0 \<noteq> 0 then apid else a_apid (as ! i))
      in case dlt_daemon_application_find d ap (own_ecuid d) of
           None \<Rightarrow> s
         | Some a \<Rightarrow>
           let n = u16 (if apid ! 0 \<noteq> 0 then num_contexts else a_num_contexts (as ! a));
               single = (n = 1 \<and> apid ! 0 \<noteq> 0 \<and> ctid ! 0 \<noteq> 0);
               cs = (if single then [found] else map (\<lambda>j. Some (offset_base as a + j)) [0 ..< n]);
               s1 = put_contexts opts ctid xs cs (put_bytes (le_bytes 2 (int n)) (put_bytes (id4 ap) s))
           in if opts = 7 then put_description (a_description (as ! a)) s1 else s1)"

fun put_applications ::
  "daemon_users \<Rightarrow> nat \<Rightarrow> nat \<Rightarrow> byte list \<Rightarrow> byte list \<Rightarrow> nat option \<Rightarrow> int \<Rightarrow> nat list \<Rightarrow> (byte list \<times> nat) option \<Rightarrow> (byte list \<times> nat) option" where
  "put_applications d u opts apid ctid found num_contexts [] s = s"
| "put_applications d u opts apid ctid found num_contexts (i # js) s =
     put_applications d u opts apid ctid found num_contexts js (put_application d u opts apid ctid found num_contexts i s)"

text \<open>What is requested: the application and the context that were found, and the numbers of both.\<close>

definition log_info_request :: "daemon_users \<Rightarrow> nat \<Rightarrow> byte list \<Rightarrow> byte list \<Rightarrow> nat option \<times> nat option \<times> int \<times> int" where
  "log_info_request d u apid ctid =
     (if apid ! 0 \<noteq> 0 then
        (case dlt_daemon_application_find d apid (own_ecuid d) of
           Some a \<Rightarrow>
             if ctid ! 0 \<noteq> 0
             then let c = dlt_daemon_context_find d apid ctid (own_ecuid d) in (Some a, c, 1, if c = None then 0 else 1)
             else (Some a, None, 1, a_num_contexts (applications (user_list d ! u) ! a))
         | None \<Rightarrow> (None, None, 0, 0))
      else (None, None, int (length (applications (user_list d ! u))), int (length (contexts (user_list d ! u)))))"

definition description_size :: "byte list option \<Rightarrow> int" where
  "description_size desc = 2 + (case desc of None \<Rightarrow> 0 | Some t \<Rightarrow> int (length t))"

definition descriptions_size :: "daemon_users \<Rightarrow> nat \<Rightarrow> byte list \<Rightarrow> byte list \<Rightarrow> nat option \<Rightarrow> nat option \<Rightarrow> int" where
  "descriptions_size d u apid ctid app ctx =
     (let as = applications (user_list d ! u); xs = contexts (user_list d ! u)
      in if apid ! 0 \<noteq> 0 then
           (if ctid ! 0 \<noteq> 0 then (case ctx of Some k \<Rightarrow> description_size (x_description (xs ! k)) | None \<Rightarrow> 0)
            else (case app of
                    Some a \<Rightarrow> sum_list (map (\<lambda>j. description_size (x_description (xs ! (offset_base as a + j)))) [0 ..< nat (a_num_contexts (as ! a))])
                  | None \<Rightarrow> 0)) +
           (case app of Some a \<Rightarrow> description_size (a_description (as ! a)) | None \<Rightarrow> 0)
         else sum_list (map (description_size \<circ> x_description) xs) + sum_list (map (description_size \<circ> a_description) as))"

definition log_info_size :: "daemon_users \<Rightarrow> nat \<Rightarrow> nat \<Rightarrow> byte list \<Rightarrow> byte list \<Rightarrow> int" where
  "log_info_size d u opts apid ctid =
     (case log_info_request d u apid ctid of
        (app, ctx, num_applications, num_contexts) \<Rightarrow>
          let sizecont = 4 + (if with_level opts then 1 else 0) + (if with_status opts then 1 else 0)
          in i32 (4 + 1 + 4 + (num_applications * (4 + 2) + num_contexts * sizecont) + 2 +
                  (if opts = 7 then descriptions_size d u apid ctid app ctx else 0)))"

definition DLT_DAEMON_REMO_STRING :: "byte list" where
  "DLT_DAEMON_REMO_STRING = [0x72, 0x65, 0x6D, 0x6F, 0]"

definition log_info_response :: "daemon_users \<Rightarrow> nat \<Rightarrow> nat \<Rightarrow> byte list \<Rightarrow> byte list \<Rightarrow> nat \<Rightarrow> byte list option" where
  "log_info_response d u opts apid ctid sz =
     (case log_info_request d u apid ctid of
        (app, ctx, num_applications, num_contexts) \<Rightarrow>
          let st = (if num_applications \<noteq> 0 \<and> num_contexts \<noteq> 0 then opts else 8);
              s1 = put_bytes (le_bytes 1 (int st)) (put_bytes (le_bytes 4 3) (Some (replicate sz 0, 0)));
              count_app_ids = u16 num_applications;
              s2 = (if count_app_ids \<noteq> 0
                    then put_applications d u opts apid ctid ctx num_contexts [0 ..< count_app_ids] (put_bytes (le_bytes 2 (int count_app_ids)) s1)
                    else s1)
          in map_option fst (put_bytes (id4 DLT_DAEMON_REMO_STRING) s2))"

definition dlt_daemon_control_get_log_info :: "control_env \<Rightarrow> daemon_users \<Rightarrow> byte list \<Rightarrow> int \<Rightarrow> (daemon_users \<times> control_event list) option" where
  "dlt_daemon_control_get_log_info env d req datasz =
     (if dlt_check_rcv_data_size datasz 17 < 0 then Some (d, [])
      else case dlt_daemon_find_users_list d (own_ecuid d) of
        None \<Rightarrow> Some (d, [])
      | Some u \<Rightarrow>
        let opts = unat (req ! 4); apid = memget req 5 4; ctid = memget req 9 4;
            sz = nat (log_info_size d u opts apid ctid mod 2 ^ 64)
        in if opts < 3 \<or> opts > 7 \<or> \<not> c_alloc env sz
           then Some (dlt_daemon_control_service_response env d 3 DLT_SERVICE_RESPONSE_ERROR)
           else map_option (\<lambda>p. (c_sent env p d, [Response p])) (log_info_response d u opts apid ctid sz))"

section \<open>Injections\<close>

text \<open>
  The bytes of the payload up to \<open>databuffersize\<close> are allocated; copying from behind them is None.
  \<open>ext\<close> are the identifiers of the extended header, if there is one.
\<close>

definition dlt_daemon_control_callsw_cinjection ::
  "control_env \<Rightarrow> daemon_users \<Rightarrow> byte \<Rightarrow> (byte list \<times> byte list) option \<Rightarrow> byte list \<Rightarrow> int \<Rightarrow> (daemon_users \<times> control_event list) option" where
  "dlt_daemon_control_callsw_cinjection env d htyp ext dat datasz =
     (let sid = (if datasz < 4 then 0 else u32 (endian_get htyp (memget dat 0 4)));
          left = (if datasz < 4 then - 1 else datasz - 4);
          reply = dlt_daemon_control_service_response env d sid
      in if \<not> injectionMode env then Some (reply DLT_SERVICE_RESPONSE_PERM_DENIED)
         else if sid < 0xFFF then Some (reply DLT_SERVICE_RESPONSE_NOT_SUPPORTED)
         else
           let data_length_inject = (if left < 4 then 0 else u32 (endian_get htyp (memget dat 4 4)));
               ptr = (if left < 4 then 4 else 8)
           in case ext of
                None \<Rightarrow> Some (reply DLT_SERVICE_RESPONSE_ERROR)
              | Some (apid, ctid) \<Rightarrow>
           (case dlt_daemon_context_find d (id4 apid) (id4 ctid) (own_ecuid d) of
              None \<Rightarrow> Some (reply DLT_SERVICE_RESPONSE_ERROR)
            | Some k \<Rightarrow>
              if data_length_inject > length dat \<or> \<not> c_alloc env data_length_inject then Some (reply DLT_SERVICE_RESPONSE_ERROR)
              else if ptr + data_length_inject > length dat then None
              else
                let u = the (dlt_daemon_find_users_list d (own_ecuid d)); x = contexts (user_list d ! u) ! k;
                    bytes = the (dlt_user_set_userheader DLT_USER_MESSAGE_INJECTION) @ le_bytes 4 (x_log_level_pos x) @ le_bytes 4 (int sid) @
                            le_bytes 4 (int data_length_inject) @ memget dat ptr data_length_inject;
                    ret = c_inject env (x_user_handle x) bytes;
                    lost = (ret < DLT_RETURN_OK \<and> ret = DLT_RETURN_PIPE_ERROR);
                    d1 = (if lost then set_context d u k (\<lambda>x. x\<lparr>x_user_handle := DLT_FD_INIT\<rparr>) else d)
                in (case dlt_daemon_control_service_response env d1 sid
                           (if ret < DLT_RETURN_OK then DLT_SERVICE_RESPONSE_ERROR else DLT_SERVICE_RESPONSE_OK) of
                      (d2, rv) \<Rightarrow> Some (d2, [App (To_User (x_user_handle x) bytes)] @
                                           (if lost then [App (Close_Fd (x_user_handle x))] else []) @ rv))))"

section \<open>Dispatch\<close>

text \<open>
  The identifier of the message is compared as a C string although it has no end of its own:
  the comparison goes on in the session identifier and the time stamp behind it.
\<close>

definition for_this_node :: "byte list \<Rightarrow> DltStandardHeaderExtra \<Rightarrow> bool" where
  "for_this_node evalue extra \<longleftrightarrow> c_string evalue = c_string (ecu extra @ le_bytes 4 (seid extra) @ le_bytes 4 (tmsp extra))"

definition control_service ::
  "control_env \<Rightarrow> control_state \<Rightarrow> nat \<Rightarrow> byte list \<Rightarrow> int \<Rightarrow> (control_state \<times> control_event list) option" where
  "control_service env s sid dat datasz =
     (let d = c_users s; reply = (\<lambda>st. Some (on_users s (dlt_daemon_control_service_response env d sid st)))
      in if sid = 1 then Some (on_users s (dlt_daemon_control_set_log_level env d dat datasz))
         else if sid = 2 then Some (on_users s (dlt_daemon_control_set_trace_status env d dat datasz))
         else if sid = 3 then map_option (on_users s) (dlt_daemon_control_get_log_info env d dat datasz)
         else if sid = 4 then Some (on_users s (dlt_daemon_control_get_default_log_level env d))
         else if sid = 5 then Some (store_config env s)
         else if sid = 6 then (case dlt_daemon_control_reset_to_factory_default env s of
                                (s1, ev) \<Rightarrow> Some (on_users s1 (then_response env 6 DLT_SERVICE_RESPONSE_OK (c_users s1, ev))))
         else if sid = 0xB then Some (dlt_daemon_control_set_timing_packets env s dat datasz)
         else if sid = 0xC then reply DLT_SERVICE_RESPONSE_OK
         else if sid = 0x11 then Some (on_users s (dlt_daemon_control_set_default_log_level env d dat datasz))
         else if sid = 0x12 then Some (on_users s (dlt_daemon_control_set_default_trace_status env d dat datasz))
         else if sid = 0x13 then Some (on_users s (dlt_daemon_control_get_software_version env d))
         else if sid = 0x14 then Some (on_users s (overflow_response env d))
         else if sid = 0xF05 \<or> sid = 0xF06 \<or> sid = 0xF07 then Some (on_users s (c_other env sid dat d))
         else if sid = 0xF08 then Some (on_users s (dlt_daemon_control_set_all_log_level env d dat datasz))
         else if sid = 0xF09 then Some (on_users s (dlt_daemon_control_set_all_trace_status env d dat datasz))
         else reply DLT_SERVICE_RESPONSE_NOT_SUPPORTED)"

definition extended_ids :: "DltMessage \<Rightarrow> (byte list \<times> byte list) option" where
  "extended_ids msg =
     (if DLT_IS_HTYP_UEH (msg_htyp msg)
      then Some (memget (headerbuffer msg) (the (extendedheader msg) + 2) 4, memget (headerbuffer msg) (the (extendedheader msg) + 6) 4)
      else None)"

definition dispatch :: "control_env \<Rightarrow> control_state \<Rightarrow> DltMessage \<Rightarrow> (control_state \<times> control_event list) option" where
  "dispatch env s msg =
     (let dat = the (databuffer msg); sid = u32 (endian_get (msg_htyp msg) (memget dat 0 4))
      in if sid > 0 \<and> sid < 0xFFF then control_service env s sid dat (datasize msg)
         else map_option (on_users s)
                (dlt_daemon_control_callsw_cinjection env (c_users s) (msg_htyp msg) (extended_ids msg) dat (datasize msg)))"

definition dlt_daemon_client_process_control ::
  "control_env \<Rightarrow> control_state \<Rightarrow> DltMessage \<Rightarrow> (int \<times> control_state \<times> control_event list) option" where
  "dlt_daemon_client_process_control env s msg =
     (if datasize msg < 4 then Some (- 1, s, [])
      else case c_gateway env of
        Some (evalue, forward) \<Rightarrow>
          if \<not> for_this_node evalue (headerextra msg) then Some (forward (ecu (headerextra msg)), s, [])
          else map_option (\<lambda>(s', ev). (0, s', ev)) (dispatch env s msg)
      | None \<Rightarrow> map_option (\<lambda>(s', ev). (0, s', ev)) (dispatch env s msg))"

section \<open>Messages of the daemon on its own\<close>

definition unregister_context_payload :: "byte list \<Rightarrow> byte list \<Rightarrow> byte list \<Rightarrow> byte list" where
  "unregister_context_payload apid ctid comid = le_bytes 4 0xF01 @ [DLT_SERVICE_RESPONSE_OK] @ id4 apid @ id4 ctid @ id4 comid"

definition timezone_payload :: "int \<Rightarrow> int \<Rightarrow> byte list" where
  "timezone_payload tm_gmtoff tm_isdst = le_bytes 4 0xF03 @ [DLT_SERVICE_RESPONSE_OK] @ le_bytes 4 tm_gmtoff @ le_bytes 1 tm_isdst"

definition marker_payload :: "byte list" where
  "marker_payload = le_bytes 4 0xF04 @ [DLT_SERVICE_RESPONSE_OK]"

definition send_payload :: "sender \<Rightarrow> outside \<Rightarrow> world \<Rightarrow> int \<Rightarrow> byte list \<Rightarrow> (int \<times> world) option" where
  "send_payload send env w sock p =
     (if \<not> outside.msg_alloc env then Some (- 1, w)
      else map_option (\<lambda>(rc, w'). (if rc \<noteq> 0 then - 1 else 0, w')) (dlt_daemon_client_send_control_message send env w sock (payload_msg p) [0] [0]))"

definition dlt_daemon_control_message_unregister_context ::
  "sender \<Rightarrow> outside \<Rightarrow> world \<Rightarrow> int \<Rightarrow> byte list \<Rightarrow> byte list \<Rightarrow> byte list \<Rightarrow> (int \<times> world) option" where
  "dlt_daemon_control_message_unregister_context send env w sock apid ctid comid = send_payload send env w sock (unregister_context_payload apid ctid comid)"

definition dlt_daemon_control_message_timezone :: "sender \<Rightarrow> outside \<Rightarrow> world \<Rightarrow> int \<Rightarrow> int \<times> int \<Rightarrow> (int \<times> world) option" where
  "dlt_daemon_control_message_timezone send env w sock localtime =
     send_payload send env w sock (timezone_payload (fst localtime) (snd localtime))"

definition dlt_daemon_control_message_marker :: "sender \<Rightarrow> outside \<Rightarrow> world \<Rightarrow> int \<Rightarrow> (int \<times> world) option" where
  "dlt_daemon_control_message_marker send env w sock = send_payload send env w sock marker_payload"

text \<open>The message of \<open>dlt_daemon_control_message_time\<close> has headers only.\<close>

definition time_header :: "outside \<Rightarrow> world \<Rightarrow> byte list" where
  "time_header env w = [0x35, 0] @ be_bytes 2 (4 + 8 + 10) @ id4 (ecuid (daemon w)) @ be_bytes 4 (uptime env (ticks w)) @ [0x36, 0] @ replicate 8 0"

definition dlt_daemon_control_message_time :: "sender \<Rightarrow> outside \<Rightarrow> world \<Rightarrow> int \<Rightarrow> world option" where
  "dlt_daemon_control_message_time send env w sock = map_option snd (send w sock (Some (time_header env w)) None)"

definition dlt_daemon_process_one_s_timer :: "nat \<Rightarrow> outside \<Rightarrow> world \<Rightarrow> byte list \<Rightarrow> bool \<Rightarrow> (world \<times> byte list) option" where
  "dlt_daemon_process_one_s_timer n env w dta timing =
     (case (if dstate (daemon w) = DLT_DAEMON_STATE_SEND_BUFFER \<or> dstate (daemon w) = DLT_DAEMON_STATE_BUFFER_FULL
            then map_option snd (dlt_daemon_send_ringbuffer_to_client n env w dta) else Some (w, dta)) of
        None \<Rightarrow> None
      | Some (w1, dta1) \<Rightarrow>
        if timing \<and> dstate (daemon w1) = DLT_DAEMON_STATE_SEND_DIRECT
        then map_option (\<lambda>w2. (w2, dta1)) (dlt_daemon_control_message_time (dlt_daemon_client_send n env) env w1 DLT_DAEMON_SEND_TO_ALL)
        else Some (w1, dta1))"

text \<open>When the version cannot be sent for want of memory, neither can the error response.\<close>

definition dlt_daemon_process_sixty_s_timer ::
  "nat \<Rightarrow> outside \<Rightarrow> world \<Rightarrow> int \<Rightarrow> int \<Rightarrow> byte list \<Rightarrow> int \<times> int \<Rightarrow> world option" where
  "dlt_daemon_process_sixty_s_timer n env w sendECUSoftwareVersion sendTimezone version localtime =
     (case (if sendECUSoftwareVersion > 0
            then map_option snd (send_payload (dlt_daemon_client_send n env) env w DLT_DAEMON_SEND_TO_ALL (software_version_payload version)) else Some w) of
        None \<Rightarrow> None
      | Some w1 \<Rightarrow>
        if sendTimezone > 0
        then map_option snd (dlt_daemon_control_message_timezone (dlt_daemon_client_send n env) env w1 DLT_DAEMON_SEND_TO_ALL localtime)
        else Some w1)"

section \<open>The bytes of the listing\<close>

lemma memput_memput: "off + length xs + length ys \<le> length m \<Longrightarrow> memput (memput m off xs) (off + length xs) ys = memput m off (xs @ ys)"
  by (simp add: memput_def min_absorb2 ac_simps)

lemma put_put: "put_bytes ys (put_bytes xs s) = put_bytes (xs @ ys) s"
proof (cases s)
  case (Some p)
  obtain m off where p: "p = (m, off)" by fastforce
  show ?thesis
    using memput_memput [of off xs ys m] by (cases "off + length xs + length ys \<le> length m") (auto simp: put_bytes_def Some p add.assoc)
qed (simp add: put_bytes_def)

definition description_info :: "byte list option \<Rightarrow> byte list" where
  "description_info desc = (case desc of None \<Rightarrow> le_bytes 2 0 | Some t \<Rightarrow> le_bytes 2 (int (length t)) @ t)"

definition context_info :: "nat \<Rightarrow> DltDaemonContext \<Rightarrow> byte list" where
  "context_info opts x = id4 (x_ctid x) @ (if with_level opts then le_bytes 1 (x_log_level x) else []) @
     (if with_status opts then le_bytes 1 (x_trace_status x) else []) @ (if opts = 7 then description_info (x_description x) else [])"

definition own_contexts :: "DltDaemonRegisteredUsers \<Rightarrow> DltDaemonApplication \<Rightarrow> DltDaemonContext list" where
  "own_contexts us a = filter (\<lambda>x. x_apid x = a_apid a) (contexts us)"

definition listed :: "byte list \<Rightarrow> DltDaemonContext \<Rightarrow> bool" where
  "listed ctid x \<longleftrightarrow> ctid ! 0 = 0 \<or> x_ctid x = ctid"

definition application_info :: "nat \<Rightarrow> byte list \<Rightarrow> DltDaemonRegisteredUsers \<Rightarrow> DltDaemonApplication \<Rightarrow> byte list" where
  "application_info opts ctid us a = a_apid a @ le_bytes 2 (int (length (own_contexts us a))) @
     concat (map (context_info opts) (filter (listed ctid) (own_contexts us a))) @ (if opts = 7 then description_info (a_description a) else [])"

definition log_listing :: "nat \<Rightarrow> byte list \<Rightarrow> DltDaemonRegisteredUsers \<Rightarrow> DltDaemonApplication list \<Rightarrow> byte list" where
  "log_listing opts ctid us as = le_bytes 4 3 @ le_bytes 1 (int (if concat (map (own_contexts us) as) = [] then 8 else opts)) @
     le_bytes 2 (int (length as)) @ concat (map (application_info opts ctid us) as) @ [0x72, 0x65, 0x6D, 0x6F]"

lemma put_description_info: "put_description t (put_bytes acc s) = put_bytes (acc @ description_info t) s"
  by (simp add: put_description_def description_info_def put_put split: option.split)

lemma put_context_info: "put_context opts x (put_bytes acc s) = put_bytes (acc @ context_info opts x) s"
  by (cases "opts = 7"; cases "with_level opts"; cases "with_status opts") (simp_all add: put_context_def context_info_def put_put put_description_info Let_def)

lemma put_contexts_info:
  "(\<forall>k \<in> set ks. k < length xs) \<Longrightarrow> put_contexts opts ctid xs (map Some ks) (put_bytes acc s) =
     put_bytes (acc @ concat (map (context_info opts) (filter (listed ctid) (map ((!) xs) ks)))) s"
  by (induction ks arbitrary: acc) (auto simp: listed_def put_context_info)

lemma nths_range: "off + n \<le> length xs \<Longrightarrow> map ((!) xs) [off ..< off + n] = take n (drop off xs)"
  by (intro nth_equalityI) auto

lemma nths_shift: "off + n \<le> length xs \<Longrightarrow> map (\<lambda>j. xs ! (off + j)) [0 ..< n] = take n (drop off xs)"
  by (intro nth_equalityI) auto

lemma application_contexts:
  assumes ok: "users_ok us" and j: "j < length (applications us)"
  shows "offset_base (applications us) j + nat (a_num_contexts (applications us ! j)) \<le> length (contexts us)"
    and "take (nat (a_num_contexts (applications us ! j))) (drop (offset_base (applications us) j) (contexts us)) = own_contexts us (applications us ! j)"
    and "a_num_contexts (applications us ! j) = int (length (own_contexts us (applications us ! j)))"
proof -
  let ?xs = "contexts us" and ?a = "applications us ! j" and ?n = "nat (a_num_contexts (applications us ! j))"
  define off where "off = offset_base (applications us) j"
  note c = contexts_of_application [OF ok j refl refl, folded offset_base_def, folded off_def]
  show "offset_base (applications us) j + ?n \<le> length ?xs" using c(1) by (simp add: off_def)
  define A M B where "A = take off ?xs" and "M = take ?n (drop off ?xs)" and "B = drop (off + ?n) ?xs"
  have xs: "?xs = A @ M @ B" unfolding A_def M_def B_def by (metis append_take_drop_id drop_drop add.commute)
  have f: "filter (\<lambda>x. x_apid x \<noteq> a_apid ?a) ?xs = A @ B" using c(2) by (simp add: A_def B_def)
  then have "\<forall>x \<in> set (A @ B). x_apid x \<noteq> a_apid ?a" by (simp flip: f)
  then have AB: "filter (\<lambda>x. x_apid x \<noteq> a_apid ?a) A = A" "filter (\<lambda>x. x_apid x \<noteq> a_apid ?a) B = B"
    "filter (\<lambda>x. x_apid x = a_apid ?a) A = []" "filter (\<lambda>x. x_apid x = a_apid ?a) B = []" by auto
  then have "filter (\<lambda>x. x_apid x \<noteq> a_apid ?a) M = []" using f by (simp add: xs)
  then have "filter (\<lambda>x. x_apid x = a_apid ?a) M = M" by (auto simp: filter_empty_conv)
  then have "own_contexts us ?a = M" by (simp add: own_contexts_def xs AB)
  then show "take ?n (drop (offset_base (applications us) j) ?xs) = own_contexts us ?a" by (simp add: M_def off_def)
  have "?a \<in> set (applications us)" using j by simp
  then show "a_num_contexts ?a = int (length (own_contexts us ?a))"
    using ok count_map_filter [of x_apid ?xs "a_apid ?a"] by (simp add: users_ok_def users_core_def own_contexts_def)
qed

definition small_table :: "DltDaemonRegisteredUsers \<Rightarrow> bool" where
  "small_table us \<longleftrightarrow> length (applications us) < 65536 \<and> length (contexts us) < 65536"

lemma small_own: "small_table us \<Longrightarrow> length (own_contexts us a) < 65536"
  using le_less_trans [OF length_filter_le [of "\<lambda>x. x_apid x = a_apid a" "contexts us"]] by (simp add: small_table_def own_contexts_def)

lemma u16_small: "0 \<le> x \<Longrightarrow> x < 65536 \<Longrightarrow> u16 x = nat x"
  by (simp add: u16_def)

lemma put_application_info:
  assumes ok: "tables_ok d" and ecu: "dlt_daemon_find_users_list d (own_ecuid d) = Some u" and a: "a < length (apps_of d u)"
    and small: "small_table (user_list d ! u)"
    and req: "if apid ! 0 \<noteq> 0 then apid = a_apid (apps_of d u ! a) \<and> num = a_num_contexts (apps_of d u ! a) \<and> ctid ! 0 = 0 else i = a"
  shows "put_application d u opts apid ctid found num i (put_bytes acc s) = put_bytes (acc @ application_info opts ctid (user_list d ! u) (apps_of d u ! a)) s"
proof -
  let ?us = "user_list d ! u" and ?a = "apps_of d u ! a"
  have us: "users_ok ?us" using users_ok_of [OF ok find_users_bounds [OF ecu]] .
  have v: "valid_id (a_apid ?a)" using us a by (simp add: users_ok_def users_core_def)
  note c = application_contexts [OF us a]
  define ap where "ap = (if apid ! 0 \<noteq> 0 then apid else a_apid (apps_of d u ! i))"
  have ap: "ap = a_apid ?a" using req by (simp add: ap_def split: if_splits)
  have find: "dlt_daemon_application_find d ap (own_ecuid d) = Some a" using application_find_Some [OF ok ecu v] a by (simp add: ap)
  define n where "n = u16 (if apid ! 0 \<noteq> 0 then num else a_num_contexts ?a)"
  have n: "n = length (own_contexts ?us ?a)" using req c(3) small_own [OF small, of ?a] by (simp add: n_def u16_def)
  have single: "\<not> (n = 1 \<and> apid ! 0 \<noteq> 0 \<and> ctid ! 0 \<noteq> 0)" using req by (auto split: if_splits)
  define ks where "ks = map (\<lambda>j. offset_base (apps_of d u) a + j) [0 ..< n]"
  have m: "map ((!) (ctxs_of d u)) ks = own_contexts ?us ?a"
    using c nths_range [of "offset_base (apps_of d u) a" n "ctxs_of d u"] by (simp add: ks_def n map_add_upt add.commute)
  have pc: "put_contexts opts ctid (ctxs_of d u) (map Some ks) (put_bytes acc' s) =
      put_bytes (acc' @ concat (map (context_info opts) (filter (listed ctid) (own_contexts ?us ?a)))) s" for acc'
    using put_contexts_info [of ks "ctxs_of d u" opts ctid acc' s] c n by (simp add: m) (simp add: ks_def)
  have "put_application d u opts apid ctid found num i (put_bytes acc s) =
    (let s1 = put_contexts opts ctid (ctxs_of d u) (map Some ks)
        (put_bytes (le_bytes 2 (int n)) (put_bytes (id4 ap) (put_bytes acc s))) in if opts = 7 then put_description (a_description ?a) s1 else s1)"
    unfolding put_application_def Let_def ap_def [symmetric] find option.case n_def [symmetric] if_not_P [OF single] ks_def by (simp add: comp_def)
  also have "\<dots> = put_bytes (acc @ application_info opts ctid ?us ?a) s"
    by (simp add: put_put pc put_description_info application_info_def ap id4_valid [OF v] n)
  finally show ?thesis .
qed

lemma put_applications_info:
  assumes "tables_ok d" "dlt_daemon_find_users_list d (own_ecuid d) = Some u" "small_table (user_list d ! u)" "apid ! 0 = 0"
    "\<forall>i \<in> set js. i < length (apps_of d u)"
  shows "put_applications d u opts apid ctid found num js (put_bytes acc s) =
    put_bytes (acc @ concat (map (\<lambda>i. application_info opts ctid (user_list d ! u) (apps_of d u ! i)) js)) s"
  using assms(5)
proof (induction js arbitrary: acc)
  case (Cons i js)
  then have "put_application d u opts apid ctid found num i (put_bytes acc s) = put_bytes (acc @ application_info opts ctid (user_list d ! u) (apps_of d u ! i)) s"
    by (intro put_application_info [OF assms(1,2) _ assms(3)]) (simp_all add: assms(4))
  then show ?case using Cons by simp
qed simp

section \<open>The size of the listing\<close>

definition context_size :: "nat \<Rightarrow> DltDaemonContext \<Rightarrow> int" where
  "context_size opts x = 4 + (if with_level opts then 1 else 0) + (if with_status opts then 1 else 0) +
     (if opts = 7 then description_size (x_description x) else 0)"

definition application_size :: "nat \<Rightarrow> DltDaemonRegisteredUsers \<Rightarrow> DltDaemonApplication \<Rightarrow> int" where
  "application_size opts us a = 6 + sum_list (map (context_size opts) (own_contexts us a)) + (if opts = 7 then description_size (a_description a) else 0)"

lemma length_description_info: "int (length (description_info t)) = description_size t"
  by (simp add: description_info_def description_size_def split: option.split)

lemma length_context_info: "valid_id (x_ctid x) \<Longrightarrow> int (length (context_info opts x)) = context_size opts x"
  by (simp add: context_info_def context_size_def length_description_info id4_valid)

lemma int_length_concat: "int (length (concat xss)) = sum_list (map (\<lambda>xs. int (length xs)) xss)"
  by (induction xss) simp_all

lemma sum_list_filter_le: "(\<And>x. 0 \<le> f x) \<Longrightarrow> sum_list (map f (filter P xs)) \<le> (sum_list (map f xs) :: int)"
  by (induction xs) (auto simp: add_increasing)

lemma context_size_nonneg: "0 \<le> context_size opts x"
  by (simp add: context_size_def description_size_def split: option.split)

lemma own_valid: "users_ok us \<Longrightarrow> x \<in> set (own_contexts us a) \<Longrightarrow> valid_id (x_ctid x)"
  by (auto simp: own_contexts_def users_ok_def users_core_def)

lemma length_contexts_info:
  assumes "users_ok us"
  shows "int (length (concat (map (context_info opts) (filter P (own_contexts us a))))) = sum_list (map (context_size opts) (filter P (own_contexts us a)))"
  using own_valid [OF assms] by (auto simp: int_length_concat length_context_info comp_def intro!: arg_cong [of _ _ sum_list])

lemma length_application_info:
  assumes us: "users_ok us" and a: "a \<in> set (applications us)"
  shows "int (length (application_info opts ctid us a)) \<le> application_size opts us a"
    and "ctid ! 0 = 0 \<Longrightarrow> int (length (application_info opts ctid us a)) = application_size opts us a"
proof -
  have v: "valid_id (a_apid a)" using us a by (simp add: users_ok_def users_core_def)
  have e: "int (length (application_info opts ctid us a)) = 6 + sum_list (map (context_size opts) (filter (listed ctid) (own_contexts us a))) +
      (if opts = 7 then description_size (a_description a) else 0)"
    using length_contexts_info [OF us, of opts "listed ctid" a] v by (simp add: application_info_def length_description_info)
  show "int (length (application_info opts ctid us a)) \<le> application_size opts us a"
    using sum_list_filter_le [of "context_size opts", OF context_size_nonneg] by (simp add: e application_size_def)
  show "int (length (application_info opts ctid us a)) = application_size opts us a" if "ctid ! 0 = 0"
    using that by (simp add: e application_size_def listed_def)
qed

lemma length_log_listing:
  assumes us: "users_ok us" and "set as \<subseteq> set (applications us)"
  shows "int (length (log_listing opts ctid us as)) \<le> 11 + sum_list (map (application_size opts us) as)"
    and "ctid ! 0 = 0 \<Longrightarrow> int (length (log_listing opts ctid us as)) = 11 + sum_list (map (application_size opts us) as)"
proof -
  have e: "int (length (log_listing opts ctid us as)) = 11 + sum_list (map (\<lambda>a. int (length (application_info opts ctid us a))) as)"
    by (simp add: log_listing_def int_length_concat comp_def)
  show "int (length (log_listing opts ctid us as)) \<le> 11 + sum_list (map (application_size opts us) as)"
    using length_application_info(1) [OF us] assms(2) by (auto simp: e intro!: sum_list_mono)
  show "int (length (log_listing opts ctid us as)) = 11 + sum_list (map (application_size opts us) as)" if "ctid ! 0 = 0"
  proof -
    have "int (length (application_info opts ctid us a)) = application_size opts us a" if "a \<in> set as" for a
      using length_application_info(2) [of us a ctid opts] us \<open>ctid ! 0 = 0\<close> that assms(2) by blast
    then show ?thesis by (simp add: e cong: map_cong)
  qed
qed

text \<open>What \<open>dlt_daemon_control_get_log_info\<close> adds up.\<close>

lemma sum_context_size: "sum_list (map (context_size opts) xs) =
    int (length xs) * (4 + (if with_level opts then 1 else 0) + (if with_status opts then 1 else 0)) +
    (if opts = 7 then sum_list (map (description_size \<circ> x_description) xs) else 0)"
  by (induction xs) (simp_all add: context_size_def algebra_simps)

lemma sum_application_size: "sum_list (map (application_size opts us) as) =
    int (length as) * 6 + sum_list (map (context_size opts) (concat (map (own_contexts us) as))) +
    (if opts = 7 then sum_list (map (description_size \<circ> a_description) as) else 0)"
  by (induction as) (simp_all add: application_size_def)

lemma own_contexts_all: "users_ok us \<Longrightarrow> concat (map (own_contexts us) (applications us)) = contexts us"
  using contexts_grouped [of us] by (simp add: own_contexts_def [abs_def])

lemma log_info_size_all:
  assumes "users_ok (user_list d ! u)" "apid ! 0 = 0"
  shows "log_info_size d u opts apid ctid = i32 (11 + sum_list (map (application_size opts (user_list d ! u)) (apps_of d u)))"
  by (simp add: log_info_size_def log_info_request_def descriptions_size_def assms sum_application_size sum_context_size own_contexts_all
      algebra_simps)

lemma log_info_size_one:
  assumes us: "users_ok (user_list d ! u)" and a: "a < length (apps_of d u)" "dlt_daemon_application_find d apid (own_ecuid d) = Some a"
    and req: "apid ! 0 \<noteq> 0" "ctid ! 0 = 0"
  shows "log_info_size d u opts apid ctid = i32 (11 + sum_list (map (application_size opts (user_list d ! u)) [apps_of d u ! a]))"
proof -
  let ?off = "offset_base (apps_of d u) a" and ?n = "nat (a_num_contexts (apps_of d u ! a))"
  note c = application_contexts [OF us a(1)]
  have "map (\<lambda>j. ctxs_of d u ! (?off + j)) [0 ..< ?n] = own_contexts (user_list d ! u) (apps_of d u ! a)"
    unfolding nths_shift [OF c(1)] by (rule c(2))
  then have "map (description_size \<circ> x_description) (map (\<lambda>j. ctxs_of d u ! (?off + j)) [0 ..< ?n]) =
    map (description_size \<circ> x_description) (own_contexts (user_list d ! u) (apps_of d u ! a))" by (rule arg_cong)
  then have "map (\<lambda>j. description_size (x_description (ctxs_of d u ! (?off + j)))) [0 ..< ?n] =
    map (description_size \<circ> x_description) (own_contexts (user_list d ! u) (apps_of d u ! a))" by (simp add: comp_def)
  then show ?thesis
    using a req c(3) by (cases "opts = 7"; simp add: log_info_size_def log_info_request_def descriptions_size_def application_size_def sum_context_size Let_def)
      (simp_all add: algebra_simps)
qed

lemma put_zeros: "length bs \<le> n \<Longrightarrow> put_bytes bs (Some (replicate n 0, 0)) = Some (bs @ replicate (n - length bs) 0, length bs)"
  by (simp add: put_bytes_def memput_def)

lemma remo_id: "id4 DLT_DAEMON_REMO_STRING = [0x72, 0x65, 0x6D, 0x6F]"
  by (simp add: id4_def DLT_DAEMON_REMO_STRING_def)

lemma map_nths: "map (\<lambda>i. f (xs ! i)) [0 ..< length xs] = map f xs"
  by (intro nth_equalityI) simp_all

lemma filter_key: "distinct (map f xs) \<Longrightarrow> j < length xs \<Longrightarrow> filter (\<lambda>a. f a = f (xs ! j)) xs = [xs ! j]"
proof (induction xs arbitrary: j)
  case (Cons x xs)
  then show ?case by (cases j) (auto simp: filter_empty_conv rev_image_eqI)
qed simp

lemma log_info_response_all:
  assumes ok: "tables_ok d" and ecu: "dlt_daemon_find_users_list d (own_ecuid d) = Some u" and small: "small_table (user_list d ! u)"
    and req: "apid ! 0 = 0" "apps_of d u \<noteq> []" and n: "length (log_listing opts ctid (user_list d ! u) (apps_of d u)) \<le> n"
  shows "log_info_response d u opts apid ctid n = Some (log_listing opts ctid (user_list d ! u) (apps_of d u) @
    replicate (n - length (log_listing opts ctid (user_list d ! u) (apps_of d u))) 0)"
proof -
  let ?us = "user_list d ! u" and ?s = "Some (replicate n 0, 0)"
  have us: "users_ok ?us" using users_ok_of [OF ok find_users_bounds [OF ecu]] .
  have c: "u16 (int (length (apps_of d u))) = length (apps_of d u)" using small by (simp add: small_table_def u16_def)
  have m: "concat (map (\<lambda>i. application_info opts ctid ?us (apps_of d u ! i)) [0 ..< length (apps_of d u)]) =
      concat (map (application_info opts ctid ?us) (apps_of d u))"
    by (simp only: map_nths)
  have "log_info_response d u opts apid ctid n = map_option fst (put_bytes (log_listing opts ctid ?us (apps_of d u)) ?s)"
    using req put_applications_info [OF ok ecu small req(1), of "[0 ..< length (apps_of d u)]"]
    by (simp add: log_info_response_def log_info_request_def c m put_put remo_id log_listing_def own_contexts_all [OF us] Let_def)
  then show ?thesis by (simp add: put_zeros [OF n])
qed

lemma log_info_response_one:
  assumes ok: "tables_ok d" and ecu: "dlt_daemon_find_users_list d (own_ecuid d) = Some u" and small: "small_table (user_list d ! u)"
    and req: "apid ! 0 \<noteq> 0" "ctid ! 0 = 0" "a < length (apps_of d u)" "a_apid (apps_of d u ! a) = apid"
    and n: "length (log_listing opts ctid (user_list d ! u) [apps_of d u ! a]) \<le> n"
  shows "log_info_response d u opts apid ctid n = Some (log_listing opts ctid (user_list d ! u) [apps_of d u ! a] @
    replicate (n - length (log_listing opts ctid (user_list d ! u) [apps_of d u ! a])) 0)"
proof -
  let ?us = "user_list d ! u" and ?a = "apps_of d u ! a" and ?s = "Some (replicate n 0, 0)"
  have us: "users_ok ?us" using users_ok_of [OF ok find_users_bounds [OF ecu]] .
  have v: "valid_id apid" using us req(3,4) by (auto simp: users_ok_def users_core_def)
  have f: "dlt_daemon_application_find d apid (own_ecuid d) = Some a" using application_find_Some [OF ok ecu v] req(3,4) by simp
  have "log_info_response d u opts apid ctid n = map_option fst (put_bytes (log_listing opts ctid ?us [?a]) ?s)"
    using req application_contexts(3) [OF us req(3)] put_application_info [OF ok ecu req(3) small, of apid "a_num_contexts ?a" ctid 0]
    by (simp add: log_info_response_def log_info_request_def f put_put remo_id log_listing_def u16_def Let_def)
  then show ?thesis by (simp add: put_zeros [OF n])
qed

text \<open>The applications a request asks for: all, or the one it names.\<close>

definition requested :: "DltDaemonRegisteredUsers \<Rightarrow> byte list \<Rightarrow> DltDaemonApplication list" where
  "requested us apid = (if apid ! 0 = 0 then applications us else filter (\<lambda>a. a_apid a = apid) (applications us))"

lemma requested_one:
  assumes us: "users_ok us" and a: "apid ! 0 \<noteq> 0" "requested us apid \<noteq> []"
  obtains j where "j < length (applications us)" "a_apid (applications us ! j) = apid" "requested us apid = [applications us ! j]"
proof -
  let ?as = "applications us"
  obtain j where j: "j < length ?as" "a_apid (?as ! j) = apid" using a by (auto simp: requested_def filter_empty_conv in_set_conv_nth)
  have d: "distinct (map a_apid ?as)"
    using us apps.table_distinct [of ?as] by (auto simp: users_ok_def distinct_map akey_def inj_on_def)
  have "filter (\<lambda>a. a_apid a = apid) ?as = [?as ! j]"
    using filter_key [OF d j(1)] j(2) by simp
  then show ?thesis using that j a by (simp add: requested_def)
qed

lemma log_info_reply:
  assumes ok: "tables_ok d" and ecu: "dlt_daemon_find_users_list d (own_ecuid d) = Some u" and small: "small_table (user_list d ! u)"
    and sz: "17 \<le> datasz" "3 \<le> unat (req ! 4)" "unat (req ! 4) \<le> 7"
    and ids: "memget req 5 4 = apid" "memget req 9 4 = ctid" "ctid ! 0 = 0" "requested (user_list d ! u) apid \<noteq> []"
    and fits: "length (log_listing (unat (req ! 4)) ctid (user_list d ! u) (requested (user_list d ! u) apid)) < 2147483648"
    and alloc: "\<And>n. c_alloc env n"
  shows "dlt_daemon_control_get_log_info env d req datasz =
    (let p = log_listing (unat (req ! 4)) ctid (user_list d ! u) (requested (user_list d ! u) apid) in Some (c_sent env p d, [Response p]))"
proof -
  let ?us = "user_list d ! u" and ?o = "unat (req ! 4)"
  let ?p = "log_listing ?o ctid ?us (requested ?us apid)"
  have us: "users_ok ?us" using users_ok_of [OF ok find_users_bounds [OF ecu]] .
  have len: "int (length ?p) = 11 + sum_list (map (application_size ?o ?us) (requested ?us apid))"
    by (rule length_log_listing(2) [OF us _ ids(3)]) (auto simp: requested_def)
  then have size: "i32 (11 + sum_list (map (application_size ?o ?us) (requested ?us apid))) = int (length ?p)"
    using fits by (simp add: i32_id)
  have "log_info_size d u ?o apid ctid = int (length ?p) \<and> log_info_response d u ?o apid ctid (length ?p) = Some ?p"
  proof (cases "apid ! 0 = 0")
    case True
    then have r: "requested ?us apid = apps_of d u" by (simp add: requested_def)
    show ?thesis using log_info_size_all [OF us True, of ?o ctid] size ids(4) log_info_response_all [OF ok ecu small True, of ?o ctid "length ?p"]
      by (simp add: r)
  next
    case False
    obtain j where j: "j < length (apps_of d u)" "a_apid (apps_of d u ! j) = apid" "requested ?us apid = [apps_of d u ! j]"
      using requested_one [OF us False ids(4)] by blast
    then have v: "valid_id apid" using us by (auto simp: users_ok_def users_core_def)
    have f: "dlt_daemon_application_find d apid (own_ecuid d) = Some j" using application_find_Some [OF ok ecu v] j by simp
    show ?thesis using log_info_size_one [OF us j(1) f False ids(3), of ?o] size log_info_response_one [OF ok ecu small False ids(3) j(1,2), of ?o "length ?p"]
      by (simp add: j(3))
  qed
  moreover have "nat (int (length ?p) mod 2 ^ 64) = length ?p" using fits by simp
  ultimately show ?thesis using sz ecu alloc by (simp add: dlt_daemon_control_get_log_info_def dlt_check_rcv_data_size_def ids(1,2) Let_def)
qed

lemma sum_list_filter_less:
  assumes "x \<in> set xs" "\<not> P x" "\<And>x. 0 \<le> f x"
  shows "sum_list (map f (filter P xs)) + f x \<le> (sum_list (map f xs) :: int)"
proof -
  obtain ys zs where xs: "xs = ys @ x # zs" using assms(1) by (meson split_list)
  show ?thesis using assms(2) sum_list_filter_le [of f, OF assms(3)] by (simp add: xs add_mono)
qed

text \<open>A context that is not listed leaves at least four bytes of the response unused.\<close>

lemma unlisted_shortens:
  assumes us: "users_ok us" and as: "set as \<subseteq> set (applications us)" and a: "a \<in> set as" and x: "x \<in> set (own_contexts us a)" "\<not> listed ctid x"
  shows "length (log_listing opts ctid us as) + 4 \<le> length (log_listing opts [0] us as)"
proof -
  have len: "int (length (log_listing opts c us as)) = 11 + sum_list (map (\<lambda>a. int (length (application_info opts c us a))) as)" for c
    by (simp add: log_listing_def int_length_concat comp_def)
  have app: "int (length (application_info opts c us y)) = 6 + sum_list (map (context_size opts) (filter (listed c) (own_contexts us y))) +
      (if opts = 7 then description_size (a_description y) else 0)" if "y \<in> set as" for c y
  proof -
    have "valid_id (a_apid y)" using us as that by (auto simp: users_ok_def users_core_def)
    then show ?thesis using length_contexts_info [OF us, of opts "listed c" y] by (simp add: application_info_def length_description_info)
  qed
  have all: "filter (listed [0]) xs = xs" for xs by (simp add: listed_def)
  have le: "int (length (application_info opts ctid us y)) \<le> int (length (application_info opts [0] us y))" if "y \<in> set as" for y
    using that sum_list_filter_le [of "context_size opts", OF context_size_nonneg] by (simp add: app all)
  have "4 \<le> context_size opts x" using context_size_nonneg by (simp add: context_size_def description_size_def split: option.split)
  then have less: "int (length (application_info opts ctid us a)) + 4 \<le> int (length (application_info opts [0] us a))"
    using a sum_list_filter_less [where P = "listed ctid" and f = "context_size opts", OF x context_size_nonneg] by (simp add: app all)
  obtain ys zs where ys: "as = ys @ a # zs" using a by (meson split_list)
  have "sum_list (map (\<lambda>a. int (length (application_info opts ctid us a))) xs) \<le> sum_list (map (\<lambda>a. int (length (application_info opts [0] us a))) xs)"
    if "set xs \<subseteq> set as" for xs using le that by (intro sum_list_mono) auto
  then have "sum_list (map (\<lambda>a. int (length (application_info opts ctid us a))) ys) \<le> sum_list (map (\<lambda>a. int (length (application_info opts [0] us a))) ys)"
    "sum_list (map (\<lambda>a. int (length (application_info opts ctid us a))) zs) \<le> sum_list (map (\<lambda>a. int (length (application_info opts [0] us a))) zs)"
    by (auto simp: ys)
  with less have "int (length (log_listing opts ctid us as)) + 4 \<le> int (length (log_listing opts [0] us as))"
    unfolding len unfolding ys by simp
  then show ?thesis by linarith
qed

lemma log_info_miscounts:
  assumes ok: "tables_ok d" and ecu: "dlt_daemon_find_users_list d (own_ecuid d) = Some u" and small: "small_table (user_list d ! u)"
    and sz: "17 \<le> datasz" "3 \<le> unat (req ! 4)" "unat (req ! 4) \<le> 7"
    and ids: "memget req 5 4 ! 0 = 0" "memget req 9 4 = ctid" "ctid ! 0 \<noteq> 0"
    and fits: "length (log_listing (unat (req ! 4)) [0] (user_list d ! u) (apps_of d u)) < 2147483648"
    and alloc: "\<And>n. c_alloc env n"
    and a: "a \<in> set (apps_of d u)" "x \<in> set (own_contexts (user_list d ! u) a)" "x_ctid x \<noteq> ctid"
  shows "\<exists>k before after. 4 \<le> k \<and>
    (let entries = filter (\<lambda>x. x_ctid x = ctid) (own_contexts (user_list d ! u) a);
         p = before @ a_apid a @ le_bytes 2 (int (length (own_contexts (user_list d ! u) a))) @
           concat (map (context_info (unat (req ! 4))) entries) @ after @ replicate k 0
     in dlt_daemon_control_get_log_info env d req datasz = Some (c_sent env p d, [Response p]) \<and>
        p = log_listing (unat (req ! 4)) ctid (user_list d ! u) (apps_of d u) @ replicate k 0 \<and>
        length entries < length (own_contexts (user_list d ! u) a))"
proof -
  let ?us = "user_list d ! u" and ?o = "unat (req ! 4)"
  have us: "users_ok ?us" using users_ok_of [OF ok find_users_bounds [OF ecu]] .
  define n where "n = length (log_listing ?o [0] ?us (apps_of d u))"
  have ne: "apps_of d u \<noteq> []" using a(1) by auto
  have n: "int n = 11 + sum_list (map (application_size ?o ?us) (apps_of d u))"
    unfolding n_def by (rule length_log_listing(2) [OF us]) simp_all
  have un: "\<not> listed ctid x" using a(3) ids(3) by (simp add: listed_def)
  have less: "length (log_listing ?o ctid ?us (apps_of d u)) + 4 \<le> n"
    unfolding n_def using a by (intro unlisted_shortens [OF us _ _ _ un]) auto
  then have le: "length (log_listing ?o ctid ?us (apps_of d u)) \<le> n" by simp
  have small_n: "n < 2147483648" using fits by (simp add: n_def)
  have "log_info_size d u ?o (memget req 5 4) ctid = int n"
    using log_info_size_all [OF us ids(1), of ?o ctid] n small_n by (simp add: i32_id)
  moreover have "nat (int n mod 2 ^ 64) = n" using small_n by simp
  ultimately obtain k where k: "log_listing ?o ctid ?us (apps_of d u) @ replicate (n - length (log_listing ?o ctid ?us (apps_of d u))) 0 = k"
    "dlt_daemon_control_get_log_info env d req datasz = Some (c_sent env k d, [Response k])"
    using sz ecu alloc log_info_response_all [OF ok ecu small ids(1) ne le]
    by (simp add: dlt_daemon_control_get_log_info_def dlt_check_rcv_data_size_def ids(2) Let_def)
  obtain ys zs where as: "apps_of d u = ys @ a # zs" using a(1) by (meson split_list)
  let ?e = "filter (\<lambda>x. x_ctid x = ctid) (own_contexts ?us a)"
  have li: "filter (listed ctid) xs = filter (\<lambda>x. x_ctid x = ctid) xs" for xs
    by (rule filter_cong) (simp_all add: listed_def ids(3))
  have fewer: "length ?e < length (own_contexts ?us a)" using a(2,3) by (intro length_filter_less)
  define before where "before = le_bytes 4 3 @ le_bytes 1 (int (if concat (map (own_contexts ?us) (apps_of d u)) = [] then 8 else ?o)) @
     le_bytes 2 (int (length (apps_of d u))) @ concat (map (application_info ?o ctid ?us) ys)"
  define after where "after = (if ?o = 7 then description_info (a_description a) else []) @
     concat (map (application_info ?o ctid ?us) zs) @ [0x72, 0x65, 0x6D, 0x6F]"
  have e: "log_listing ?o ctid ?us (apps_of d u) =
      before @ a_apid a @ le_bytes 2 (int (length (own_contexts ?us a))) @ concat (map (context_info ?o) ?e) @ after"
    unfolding log_listing_def before_def after_def by (simp add: as application_info_def li)
  let ?k = "n - length (log_listing ?o ctid ?us (apps_of d u))"
  have "before @ a_apid a @ le_bytes 2 (int (length (own_contexts ?us a))) @ concat (map (context_info ?o) ?e) @ after @ replicate ?k 0 = k"
    "k = log_listing ?o ctid ?us (apps_of d u) @ replicate ?k 0"
    unfolding k(1) [symmetric] by (simp_all only: e append_assoc)
  moreover have "4 \<le> ?k" using less by simp
  ultimately show ?thesis using k(2) fewer unfolding Let_def
    by (intro exI [of _ ?k] exI [of _ before] exI [of _ after]) (simp only: simp_thms)
qed

section \<open>Patterns and the order of the table\<close>

text \<open>An identifier that is padded with zeros, and the string it holds.\<close>

lemma strncmp_zero:
  assumes "0 \<notin> set xs" "0 \<notin> set ys" "length xs + p = m" "length ys + q = m" "n \<le> m"
  shows "strncmp (xs @ [0]) (ys @ [0]) n = 0 \<longleftrightarrow> take n (xs @ replicate p 0) = take n (ys @ replicate q 0)"
  using assms
proof (induction n arbitrary: xs ys m)
  case (Suc n)
  show ?case
  proof (cases xs; cases ys)
    fix x xs' y ys' assume "xs = x # xs'" "ys = y # ys'"
    moreover have "uint x = uint y \<longleftrightarrow> x = y" by (simp add: word_uint_eq_iff)
    ultimately show ?thesis using Suc.IH [of xs' ys' "m - 1"] Suc.prems by auto
  next
    fix x xs' assume "xs = x # xs'" "ys = []"
    moreover have "uint x = 0 \<longleftrightarrow> x = 0" by (simp add: word_uint_eq_iff)
    ultimately show ?thesis using Suc.prems by (cases q) auto
  next
    fix y ys' assume "xs = []" "ys = y # ys'"
    moreover have "uint y = 0 \<longleftrightarrow> y = 0" by (simp add: word_uint_eq_iff)
    ultimately show ?thesis using Suc.prems by (cases p) auto
  qed (use Suc.prems in simp)
qed simp

lemma strncmp_greater:
  assumes "0 \<notin> set xs" "0 \<notin> set ys" "length xs + p = m" "length ys + q = m" "n \<le> m" "length bs = m"
    and "take n bs = take n (ys @ replicate q 0)" "0 < strncmp (xs @ [0]) (ys @ [0]) n"
  shows "0 < memcmp_bytes (xs @ replicate p 0) bs"
  using assms
proof (induction n arbitrary: xs ys m bs)
  case (Suc n)
  obtain b bs' where b: "bs = b # bs'" using Suc.prems by (cases bs) auto
  show ?case
  proof (cases xs; cases ys)
    fix x xs' y ys' assume e: "xs = x # xs'" "ys = y # ys'"
    show ?thesis
    proof (cases "x = y")
      case True
      then show ?thesis using Suc.IH [of xs' ys' "m - 1" bs'] Suc.prems e b by auto
    next
      case False
      then show ?thesis using Suc.prems e b by (auto simp: word_less_alt)
    qed
  next
    fix x xs' assume "xs = x # xs'" "ys = []"
    then show ?thesis using Suc.prems b by (cases q) (auto simp: word_gt_0)
  next
    fix y ys' assume "xs = []" "ys = y # ys'"
    then show ?thesis using Suc.prems by (auto simp: order.strict_iff_not split: if_splits)
  qed (use Suc.prems in simp)
qed simp

definition ascii :: "byte list \<Rightarrow> bool" where
  "ascii bs \<longleftrightarrow> (\<forall>b \<in> set bs. b < 128)"

lemma strncmp_range: "ascii xs \<Longrightarrow> ascii ys \<Longrightarrow> - 128 < strncmp xs ys n \<and> strncmp xs ys n < 128"
proof (induction xs ys n rule: strncmp.induct)
  case (1 x xs y ys n)
  have "uint x < 128" "uint y < 128" using 1(2,3) by (simp_all add: ascii_def word_less_def)
  moreover have "0 \<le> uint x" "0 \<le> uint y" by simp_all
  ultimately have "- 128 < uint x - uint y" "uint x - uint y < 128" "- 128 < uint x" "uint x < 128" by linarith+
  then show ?case using 1 by (auto simp: ascii_def)
qed auto

lemma c_string_nonzero: "0 \<notin> set (c_string bs)"
  by (auto simp: c_string_def dest: set_takeWhileD)

lemma valid_padded: "valid_id i \<Longrightarrow> i = c_string i @ replicate (4 - length (c_string i)) 0 \<and> length (c_string i) \<le> 4"
proof -
  assume v: "valid_id i"
  have "length (c_string i) \<le> 4" using valid_id_length [OF v] length_takeWhile_le [of "\<lambda>c. c \<noteq> 0" i] by (simp add: c_string_def)
  moreover have "id4 i = i" using v by (rule id4_valid)
  ultimately show ?thesis using valid_id_length [OF v] by (simp add: id4_def c_string_def Let_def)
qed

lemma ascii_c_string: "ascii i \<Longrightarrow> ascii (c_string i @ [0])"
  by (auto simp: ascii_def c_string_def dest: set_takeWhileD)

lemma pattern_compare:
  assumes v: "valid_id i" "valid_id s" "ascii i" "ascii s" "n \<le> 4"
  shows "i8 (strncmp (c_string i @ [0]) (c_string s @ [0]) n) = 0 \<longleftrightarrow> take n i = take n s"
    and "0 < i8 (strncmp (c_string i @ [0]) (c_string s @ [0]) n) \<Longrightarrow> valid_id j \<Longrightarrow> be_val i \<le> be_val j \<Longrightarrow> take n j \<noteq> take n s"
proof -
  let ?c = "strncmp (c_string i @ [0]) (c_string s @ [0]) n"
  have i8: "i8 ?c = ?c" using strncmp_range [OF ascii_c_string ascii_c_string, OF v(3,4), of n] by (simp add: i8_id)
  note pi = valid_padded [OF v(1)] and ps = valid_padded [OF v(2)]
  show "i8 ?c = 0 \<longleftrightarrow> take n i = take n s"
    using strncmp_zero [OF c_string_nonzero c_string_nonzero, of i "4 - length (c_string i)" 4 s "4 - length (c_string s)" n] pi ps v(5)
    by (simp add: i8)
  assume "0 < i8 ?c" and j: "valid_id j" "be_val i \<le> be_val j"
  show "take n j \<noteq> take n s"
  proof
    assume "take n j = take n s"
    then have "0 < memcmp_bytes i j"
      using strncmp_greater [OF c_string_nonzero c_string_nonzero, of i "4 - length (c_string i)" 4 s "4 - length (c_string s)" n j]
        pi ps v(5) \<open>0 < i8 ?c\<close> valid_id_length [OF j(1)] by (simp add: i8)
    then show False using memcmp_be_val [of i j] j v by auto
  qed
qed

section \<open>The loops over the contexts\<close>

definition with_contexts :: "daemon_users \<Rightarrow> nat \<Rightarrow> DltDaemonContext list \<Rightarrow> daemon_users" where
  "with_contexts d u xs = update_users d u (\<lambda>us. us\<lparr>contexts := xs\<rparr>)"

lemma with_contexts_same: "with_contexts d u (ctxs_of d u) = d"
  by (simp add: with_contexts_def update_users_def)

lemma with_contexts_simps [simp]:
  "own_ecuid (with_contexts d u xs) = own_ecuid d"
  "default_log_level (with_contexts d u xs) = default_log_level d"
  "default_trace_status (with_contexts d u xs) = default_trace_status d"
  "maintain_logstorage_loglevel (with_contexts d u xs) = maintain_logstorage_loglevel d"
  "sent_log_level (with_contexts d u xs) = sent_log_level d"
  "sent_trace_status (with_contexts d u xs) = sent_trace_status d"
  by (auto simp: with_contexts_def update_users_def sent_log_level_def sent_trace_status_def)

lemma ctxs_of_with [simp]: "u < length (user_list d) \<Longrightarrow> ctxs_of (with_contexts d u xs) u = xs"
  by (simp add: with_contexts_def nth_update_users)

lemma length_with_contexts [simp]: "length (user_list (with_contexts d u xs)) = length (user_list d)"
  by (simp add: with_contexts_def)

lemma set_with_contexts: "u < length (user_list d) \<Longrightarrow> set_context (with_contexts d u xs) u k f = with_contexts d u (xs[k := f (xs ! k)])"
  by (simp add: set_context_def with_contexts_def update_users_def)

text \<open>A step that changes entry \<open>k\<close> by \<open>g\<close> and has the events \<open>ev\<close>, over a list of distinct indices.\<close>

fun run_over :: "(nat \<Rightarrow> daemon_users \<Rightarrow> daemon_users \<times> 'e list) \<Rightarrow> nat list \<Rightarrow> daemon_users \<Rightarrow> daemon_users \<times> 'e list" where
  "run_over act [] d = (d, [])"
| "run_over act (k # ks) d = (case act k d of (d1, ev1) \<Rightarrow> (case run_over act ks d1 of (d2, ev2) \<Rightarrow> (d2, ev1 @ ev2)))"

definition update_at :: "('a \<Rightarrow> 'a) \<Rightarrow> nat list \<Rightarrow> 'a list \<Rightarrow> 'a list" where
  "update_at g ks xs = map (\<lambda>i. if i \<in> set ks then g (xs ! i) else xs ! i) [0 ..< length xs]"

lemma update_at_Cons: "k < length xs \<Longrightarrow> k \<notin> set ks \<Longrightarrow> update_at g ks (xs[k := g (xs ! k)]) = update_at g (k # ks) xs"
  by (auto simp: update_at_def nth_list_update intro!: nth_equalityI)

lemma update_at_Nil: "update_at g [] xs = xs"
  by (simp add: update_at_def map_nth)

lemma run_over_updates:
  assumes step: "\<And>xs k. k < length xs \<Longrightarrow> act k (with_contexts d u xs) = (with_contexts d u (xs[k := g (xs ! k)]), ev (xs ! k))"
  shows "distinct ks \<Longrightarrow> \<forall>k \<in> set ks. k < length xs \<Longrightarrow>
    run_over act ks (with_contexts d u xs) = (with_contexts d u (update_at g ks xs), concat (map (\<lambda>k. ev (xs ! k)) ks))"
proof (induction ks arbitrary: xs)
  case (Cons k ks)
  have "map (\<lambda>j. ev (xs[k := g (xs ! k)] ! j)) ks = map (\<lambda>j. ev (xs ! j)) ks" using Cons.prems by (intro map_cong) (auto simp: nth_list_update)
  then show ?case using Cons.IH [of "xs[k := g (xs ! k)]"] Cons.prems step [of k xs] update_at_Cons [of k xs ks g] by (simp cong: map_cong)
qed (simp add: update_at_Nil)

lemma update_at_filter: "update_at g (filter (\<lambda>k. M (xs ! k)) [0 ..< length xs]) xs = map (\<lambda>x. if M x then g x else x) xs"
  by (auto simp: update_at_def intro!: nth_equalityI)

lemma concat_filter: "concat (map (\<lambda>k. ev (xs ! k)) (filter (\<lambda>k. M (xs ! k)) [0 ..< length xs])) = concat (map ev (filter M xs))"
proof -
  have "map (\<lambda>k. ev (xs ! k)) (filter (\<lambda>k. M (xs ! k)) [0 ..< length xs]) = map ev (filter M (map ((!) xs) [0 ..< length xs]))"
    by (simp only: filter_map map_map comp_def)
  then show ?thesis by (simp only: map_nth)
qed

lemma run_over_matching:
  assumes step: "\<And>xs k. k < length xs \<Longrightarrow> act k (with_contexts d u xs) = (with_contexts d u (xs[k := g (xs ! k)]), ev (xs ! k))"
  shows "run_over act (filter (\<lambda>k. M (ctxs_of d u ! k)) [0 ..< length (ctxs_of d u)]) d =
    (with_contexts d u (map (\<lambda>x. if M x then g x else x) (ctxs_of d u)), concat (map ev (filter M (ctxs_of d u))))"
proof -
  let ?ks = "filter (\<lambda>k. M (ctxs_of d u ! k)) [0 ..< length (ctxs_of d u)]"
  have "run_over act ?ks (with_contexts d u (ctxs_of d u)) =
    (with_contexts d u (update_at g ?ks (ctxs_of d u)), concat (map (\<lambda>k. ev (ctxs_of d u ! k)) ?ks))"
    by (rule run_over_updates [OF step]) auto
  then show ?thesis by (simp only: with_contexts_same update_at_filter concat_filter)
qed

text \<open>The loop over a pattern runs over the matching contexts: the early end skips none.\<close>

definition pattern_matches :: "bool \<Rightarrow> byte list \<Rightarrow> nat \<Rightarrow> DltDaemonContext \<Rightarrow> bool" where
  "pattern_matches app_flag str len x \<longleftrightarrow> take len (if app_flag then x_apid x else x_ctid x) = take len str"

lemma find_multiple_filter:
  assumes ids: "\<And>x. x \<in> set zs \<Longrightarrow> ctx_wf x \<and> ascii (x_apid x) \<and> ascii (x_ctid x)" and str: "valid_id str" "ascii str" "len \<le> 4"
    and sorted: "\<And>i j. i < j \<Longrightarrow> j < length zs \<Longrightarrow> be_val (x_apid (zs ! i)) \<le> be_val (x_apid (zs ! j))"
    and inv: "\<And>d. I d \<Longrightarrow> map (\<lambda>x. (x_apid x, x_ctid x)) (ctxs_of d u) = map (\<lambda>x. (x_apid x, x_ctid x)) zs"
    and act: "\<And>k d. I d \<Longrightarrow> k < length zs \<Longrightarrow> I (fst (act k d))"
  shows "sorted_wrt (<) ks \<Longrightarrow> \<forall>k \<in> set ks. k < length zs \<Longrightarrow> I d \<Longrightarrow>
    find_multiple_context act app_flag str len u ks d = run_over act (filter (\<lambda>k. pattern_matches app_flag str len (zs ! k)) ks) d"
proof (induction ks arbitrary: d)
  case (Cons k ks)
  let ?i = "\<lambda>x. if app_flag then x_apid x else x_ctid x"
  have k: "k < length zs" "zs ! k \<in> set zs" using Cons.prems(2) by auto
  have "map (\<lambda>x. (x_apid x, x_ctid x)) (ctxs_of d u) ! k = map (\<lambda>x. (x_apid x, x_ctid x)) zs ! k" using inv [OF Cons.prems(3)] by simp
  then have i: "?i (ctxs_of d u ! k) = ?i (zs ! k)" using k arg_cong [OF inv [OF Cons.prems(3)], of length] by simp
  have v: "valid_id (?i (zs ! k))" "ascii (?i (zs ! k))" using ids [OF k(2)] by (simp_all add: ctx_wf_def)
  define ret where "ret = i8 (strncmp (c_string (take 4 (?i (ctxs_of d u ! k))) @ [0]) (c_string str @ [0]) len)"
  have ret: "ret = i8 (strncmp (c_string (?i (zs ! k)) @ [0]) (c_string str @ [0]) len)" using v by (simp add: ret_def i)
  note cmp = pattern_compare [OF v(1) str(1) v(2) str(2,3), folded ret]
  have step: "find_multiple_context act app_flag str len u (k # ks) d =
    (if ret = 0 then (case act k d of (d1, ev1) \<Rightarrow> (case find_multiple_context act app_flag str len u ks d1 of (d2, ev2) \<Rightarrow> (d2, ev1 @ ev2)))
     else if ret > 0 \<and> app_flag then (d, []) else find_multiple_context act app_flag str len u ks d)"
    by (simp only: find_multiple_context.simps Let_def ret_def)
  have skip: "filter (\<lambda>k. pattern_matches app_flag str len (zs ! k)) ks = []" if "0 < ret" "app_flag"
  proof -
    have "\<not> pattern_matches app_flag str len (zs ! j)" if j: "j \<in> set ks" for j
    proof -
      have "k < j" "j < length zs" using Cons.prems(1,2) j by auto
      then have "valid_id (x_apid (zs ! j))" "be_val (x_apid (zs ! k)) \<le> be_val (x_apid (zs ! j))" using ids [of "zs ! j"] sorted by (simp_all add: ctx_wf_def)
      then show ?thesis using cmp(2) [of "x_apid (zs ! j)"] \<open>0 < ret\<close> \<open>app_flag\<close> by (simp add: pattern_matches_def)
    qed
    then show ?thesis by (simp add: filter_empty_conv)
  qed
  have "ret = 0 \<longleftrightarrow> pattern_matches app_flag str len (zs ! k)" using cmp(1) by (simp add: pattern_matches_def)
  moreover obtain d1 ev1 where a: "act k d = (d1, ev1)" by fastforce
  moreover have "I d1" using act [OF Cons.prems(3) k(1)] a by simp
  ultimately show ?case using Cons.IH [of d1] Cons.IH [of d] Cons.prems skip by (simp add: step del: find_multiple_context.simps)
qed simp

section \<open>Setting levels\<close>

text \<open>No allocation fails, no client is lost while responses are sent and every application reads its messages.\<close>

definition undisturbed :: "control_env \<Rightarrow> bool" where
  "undisturbed env \<longleftrightarrow> (\<forall>n. c_alloc env n) \<and> (\<forall>p d. c_sent env p d = d) \<and> (\<forall>h b. fst (user_out (c_user env) h b) = DLT_RETURN_OK)"

definition level_message :: "daemon_users \<Rightarrow> DltDaemonContext \<Rightarrow> byte list" where
  "level_message d x = level_bytes (int (sent_log_level d x)) (int (sent_trace_status d x)) (x_log_level_pos x)"

lemma level_message_with [simp]: "level_message (with_contexts d u xs) x = level_message d x"
  by (simp add: level_message_def)

lemma user_send_ok:
  assumes "fst (user_out env (x_user_handle x) (level_message d x)) = DLT_RETURN_OK"
  shows "dlt_daemon_user_send_log_level env d x = (0, d, [To_User (x_user_handle x) (level_message d x)])"
proof -
  obtain e where e: "user_out env (x_user_handle x) (level_message d x) = (0, e)" using assms by (metis prod.collapse)
  have "level_message d x = the (dlt_user_set_userheader 6) @ le_bytes 1 (int (sent_log_level d x)) @ le_bytes 1 (int (sent_trace_status d x)) @ le_bytes 4 (x_log_level_pos x)"
    by (simp add: level_message_def level_bytes_def user_header_def)
  with e show ?thesis by (simp add: dlt_daemon_user_send_log_level_def dlt_user_set_userheader_def Let_def)
qed

lemma response_sent: "undisturbed env \<Longrightarrow> dlt_daemon_control_service_response env d sid st = (d, [Response (service_payload sid st)])"
  by (simp add: undisturbed_def dlt_daemon_control_service_response_def send_response_def)

definition level_set :: "int \<Rightarrow> DltDaemonContext \<Rightarrow> DltDaemonContext" where
  "level_set l x = (if x_user_handle x \<ge> DLT_FD_MINIMUM then x\<lparr>x_log_level := l\<rparr> else x)"

definition level_events :: "daemon_users \<Rightarrow> int \<Rightarrow> DltDaemonContext \<Rightarrow> control_event list" where
  "level_events d l x =
     (if x_user_handle x \<ge> DLT_FD_MINIMUM
      then [App (To_User (x_user_handle x) (level_message d (x\<lparr>x_log_level := l\<rparr>))), Response (service_payload 1 DLT_SERVICE_RESPONSE_OK)]
      else [Response (service_payload 1 DLT_SERVICE_RESPONSE_ERROR)])"

lemma send_log_level_step:
  assumes env: "undisturbed env" and u: "u < length (user_list d)" and k: "k < length xs"
  shows "dlt_daemon_send_log_level env l u k (with_contexts d u xs) = (with_contexts d u (xs[k := level_set l (xs ! k)]), level_events d l (xs ! k))"
proof (cases "x_user_handle (xs ! k) \<ge> DLT_FD_MINIMUM")
  case True
  have "fst (user_out (c_user env) h b) = DLT_RETURN_OK" for h b using env by (simp add: undisturbed_def)
  then show ?thesis using True u k
    by (simp add: dlt_daemon_send_log_level_def set_with_contexts user_send_ok response_sent [OF env] level_set_def level_events_def Let_def)
qed (use u k in \<open>simp add: dlt_daemon_send_log_level_def set_with_contexts response_sent [OF env] level_set_def level_events_def Let_def list_update_id\<close>)

text \<open>What a pattern names: with an asterisk at the end all identifiers that begin with the rest.\<close>

definition named :: "byte list \<Rightarrow> byte list \<Rightarrow> bool" where
  "named pat i \<longleftrightarrow> (let s = c_string pat in if last s = asterisk then take (length s - 1) i = butlast s else i = pat)"

lemma valid_last:
  assumes "valid_id pat"
  shows "c_string pat \<noteq> []" "pat ! (length (c_string pat) - 1) = last (c_string pat)" "take (length (c_string pat) - 1) pat = butlast (c_string pat)"
proof -
  obtain b bs where "pat = b # bs" using valid_id_length [OF assms] by (cases pat) auto
  then show ne: "c_string pat \<noteq> []" using assms by (simp add: valid_id_def c_string_def)
  obtain z where z: "pat = c_string pat @ z" using valid_padded [OF assms] by blast
  have "length (c_string pat) - 1 < length (c_string pat)" using ne by simp
  then show "pat ! (length (c_string pat) - 1) = last (c_string pat)" by (subst z) (simp only: nth_append if_True last_conv_nth [OF ne])
  show "take (length (c_string pat) - 1) pat = butlast (c_string pat)" by (subst z) (simp add: butlast_conv_take)
qed

definition pattern_length :: "byte list \<Rightarrow> nat" where
  "pattern_length pat = (if last (c_string pat) = asterisk then length (c_string pat) - 1 else DLT_ID_SIZE)"

lemma named_pattern:
  assumes "valid_id pat" "valid_id i"
  shows "take (pattern_length pat) i = take (pattern_length pat) pat \<longleftrightarrow> named pat i" "pattern_length pat \<le> 4"
  using valid_last [OF assms(1)] valid_padded [OF assms(1)] assms by (auto simp: pattern_length_def named_def Let_def)

lemma set_request_pattern:
  assumes "undisturbed env" "\<not> enforceContextLLAndTS env" "17 \<le> datasz" "valid_id pat"
    and "memget req (if app then 4 else 8) 4 = pat" "memget req (if app then 8 else 4) 4 = [0, 0, 0, 0]"
  shows "set_request env multiple one limit d req datasz = multiple app pat (pattern_length pat) (i8 (int (unat (req ! 12))))"
proof -
  have z: "id4 [0, 0, 0, 0] = [0, 0, 0, 0]" "c_string [0, 0, 0, 0] = []" by (simp_all add: id4_def c_string_def eval_nat_numeral)
  have p: "pat ! 0 \<noteq> 0" using assms(4) by (simp add: valid_id_def)
  have c: "\<not> dlt_check_rcv_data_size datasz 17 < 0" using assms(3) by (simp add: dlt_check_rcv_data_size_def)
  note l = valid_last [OF assms(4)]
  show ?thesis
  proof (cases app)
    case True
    then have m: "memget req 4 4 = pat" "memget req 8 4 = [0, 0, 0, 0]" using assms(5,6) by simp_all
    show ?thesis unfolding set_request_def Let_def m id4_valid [OF assms(4)] z l(2) pattern_length_def using True l(1) assms(2) c by simp
  next
    case False
    then have m: "memget req 8 4 = pat" "memget req 4 4 = [0, 0, 0, 0]" using assms(5,6) by simp_all
    show ?thesis unfolding set_request_def Let_def m id4_valid [OF assms(4)] z l(2) pattern_length_def using False l(1) assms(2) c p by simp
  qed
qed

lemma level_pattern:
  assumes env: "undisturbed env" "\<not> enforceContextLLAndTS env" and ok: "tables_ok d" and ecu: "dlt_daemon_find_users_list d (own_ecuid d) = Some u"
    and req: "17 \<le> datasz" "memget req (if app then 4 else 8) 4 = pat" "memget req (if app then 8 else 4) 4 = [0, 0, 0, 0]"
    and ids: "valid_id pat" "ascii pat" "\<forall>x \<in> set (ctxs_of d u). ascii (x_apid x) \<and> ascii (x_ctid x)"
  shows "dlt_daemon_control_set_log_level env d req datasz =
    (let l = i8 (int (unat (req ! 12))); M = (\<lambda>x. named pat (if app then x_apid x else x_ctid x))
     in (with_contexts d u (map (\<lambda>x. if M x then level_set l x else x) (ctxs_of d u)), concat (map (level_events d l) (filter M (ctxs_of d u)))))"
proof -
  let ?xs = "ctxs_of d u" and ?l = "i8 (int (unat (req ! 12)))" and ?M = "\<lambda>x. named pat (if app then x_apid x else x_ctid x)"
  let ?act = "dlt_daemon_send_log_level env ?l u"
  note u = find_users_bounds [OF ecu]
  note us = users_ok_of [OF ok u]
  have wf: "ctx_wf x" if "x \<in> set ?xs" for x using us that by (simp add: users_ok_def users_core_def ctx_wf_def)
  have sorted: "be_val (x_apid (?xs ! i)) \<le> be_val (x_apid (?xs ! j))" if "i < j" "j < length ?xs" for i j
    using ctxs.table_nth_less [of ?xs i j] us that xkey_less(1) [of "?xs ! i" "?xs ! j"] wf [of "?xs ! i"] wf [of "?xs ! j"]
    by (auto simp: users_ok_def)
  have step: "?act k (with_contexts d u xs) = (with_contexts d u (xs[k := level_set ?l (xs ! k)]), level_events d ?l (xs ! k))" if "k < length xs" for xs k
    using send_log_level_step [OF env(1) u that] .
  have same: "pattern_matches app pat (pattern_length pat) x = ?M x" if "x \<in> set ?xs" for x
    using named_pattern(1) [OF ids(1)] wf [OF that] by (simp add: pattern_matches_def ctx_wf_def)
  define I where "I = (\<lambda>e. u < length (user_list e) \<and> map (\<lambda>x. (x_apid x, x_ctid x)) (ctxs_of e u) = map (\<lambda>x. (x_apid x, x_ctid x)) ?xs)"
  have keep: "I (fst (?act k e))" if "I e" "k < length ?xs" for k e
  proof -
    have e: "u < length (user_list e)" "map (\<lambda>x. (x_apid x, x_ctid x)) (ctxs_of e u) = map (\<lambda>x. (x_apid x, x_ctid x)) ?xs" using that(1) by (simp_all add: I_def)
    have k: "k < length (ctxs_of e u)" using arg_cong [OF e(2), of length] that(2) by simp
    have "fst (?act k e) = with_contexts e u ((ctxs_of e u)[k := level_set ?l (ctxs_of e u ! k)])"
      using send_log_level_step [OF env(1) e(1) k, of ?l] by (simp add: with_contexts_same)
    then show ?thesis using e map_update_same [of "\<lambda>x. (x_apid x, x_ctid x)" "level_set ?l" "ctxs_of e u" k] by (simp add: I_def level_set_def)
  qed
  have "dlt_daemon_control_set_log_level env d req datasz = find_multiple_context ?act app pat (pattern_length pat) u [0 ..< length ?xs] d"
    using set_request_pattern [OF env req(1) ids(1) req(2,3)]
    by (simp add: dlt_daemon_control_set_log_level_def dlt_daemon_find_multiple_context_and_send_log_level_def ecu)
  also have "\<dots> = run_over ?act (filter (\<lambda>k. pattern_matches app pat (pattern_length pat) (?xs ! k)) [0 ..< length ?xs]) d"
    by (rule find_multiple_filter [where zs = "ctxs_of d u" and I = I])
      (use wf ids named_pattern(2) [OF ids(1) ids(1)] sorted keep u in \<open>auto simp: I_def\<close>)
  also have "filter (\<lambda>k. pattern_matches app pat (pattern_length pat) (?xs ! k)) [0 ..< length ?xs] = filter (\<lambda>k. ?M (?xs ! k)) [0 ..< length ?xs]"
    using same by (intro filter_cong) auto
  finally show ?thesis unfolding Let_def using run_over_matching [OF step, of ?M] by (simp only:)
qed

lemma set_one_level:
  assumes env: "undisturbed env" "\<not> enforceContextLLAndTS env" and ok: "tables_ok d" and ecu: "dlt_daemon_find_users_list d (own_ecuid d) = Some u"
    and k: "k < length (ctxs_of d u)" and req: "17 \<le> datasz" "memget req 4 4 = x_apid (ctxs_of d u ! k)" "memget req 8 4 = x_ctid (ctxs_of d u ! k)"
  shows "dlt_daemon_control_set_log_level env d req datasz =
    (let l = i8 (int (unat (req ! 12))); x = ctxs_of d u ! k in (with_contexts d u ((ctxs_of d u)[k := level_set l x]), level_events d l x))"
proof -
  let ?x = "ctxs_of d u ! k"
  note u = find_users_bounds [OF ecu]
  have v: "valid_id (x_apid ?x)" "valid_id (x_ctid ?x)" using users_ok_of [OF ok u] k by (simp_all add: users_ok_def users_core_def)
  then have n: "x_apid ?x ! 0 \<noteq> 0" "x_ctid ?x ! 0 \<noteq> 0" by (simp_all add: valid_id_def)
  have f: "dlt_daemon_context_find d (x_apid ?x) (x_ctid ?x) (own_ecuid d) = Some k" using context_find_Some [OF ok ecu v] k by simp
  have c: "\<not> dlt_check_rcv_data_size datasz 17 < 0" using req(1) by (simp add: dlt_check_rcv_data_size_def)
  have "dlt_daemon_control_set_log_level env d req datasz = dlt_daemon_send_log_level env (i8 (int (unat (req ! 12)))) u k d"
    unfolding dlt_daemon_control_set_log_level_def set_request_def Let_def req(2,3) id4_valid [OF v(1)] id4_valid [OF v(2)] f ecu using c n env(2) by simp
  also have "\<dots> = dlt_daemon_send_log_level env (i8 (int (unat (req ! 12)))) u k (with_contexts d u (ctxs_of d u))" by (simp only: with_contexts_same)
  finally show ?thesis unfolding Let_def using send_log_level_step [OF env(1) u k] by (simp only:)
qed

lemma level_dispatched:
  assumes "17 \<le> datasize msg" "databuffer msg = Some dat" "u32 (endian_get (msg_htyp msg) (memget dat 0 4)) = 1" "c_gateway env = None"
    and "dlt_daemon_control_set_log_level env (c_users s) dat (datasize msg) = (d', ev)"
  shows "dlt_daemon_client_process_control env s msg = Some (0, s\<lparr>c_users := d'\<rparr>, ev)"
  using assms by (simp add: dlt_daemon_client_process_control_def dispatch_def control_service_def on_users_def)

section \<open>Properties\<close>

text \<open>
  C37. A log level that a client sets for a context arrives in the program: the daemon stores it in the
  entry, sends it to the application, answers that all is well, and the handle of the program that
  reads the message has the level then; no other handle changes.
\<close>

theorem client_level_reaches_handle:
  assumes "undisturbed env" "\<not> enforceContextLLAndTS env" "c_gateway env = None"
    and "tables_ok (c_users s)" "dlt_daemon_find_users_list (c_users s) (own_ecuid (c_users s)) = Some u"
    and "17 \<le> datasize msg" "databuffer msg = Some dat" "u32 (endian_get (msg_htyp msg) (memget dat 0 4)) = 1"
    and "k < length (ctxs_of (c_users s) u)" "x = ctxs_of (c_users s) u ! k" "memget dat 4 4 = x_apid x" "memget dat 8 4 = x_ctid x"
    and "DLT_FD_MINIMUM \<le> x_user_handle x" "y = x\<lparr>x_log_level := i8 (int (unat (dat ! 12)))\<rparr>"
    and "lib_ok lib" "handle_ok lib h" "int (k_num lib) < 2147483648" "c_log_level_pos h = x_log_level_pos x"
    and "listening cenv lib (level_message (c_users s) y)"
  shows "dlt_daemon_client_process_control env s msg =
      Some (0, s\<lparr>c_users := with_contexts (c_users s) u ((ctxs_of (c_users s) u)[k := y])\<rparr>,
            [App (To_User (x_user_handle x) (level_message (c_users s) y)), Response (service_payload 1 DLT_SERVICE_RESPONSE_OK)]) \<and>
    (\<exists>lib'. dlt_user_log_check_user_message cenv lib = Some (DLT_RETURN_OK, lib') \<and>
       c_log_level (seen lib' h) = Some (i8 (int (sent_log_level (c_users s) y))) \<and>
       (\<forall>g. handle_ok lib g \<and> c_log_level_pos g \<noteq> c_log_level_pos h \<longrightarrow> c_log_level (seen lib' g) = c_log_level (seen lib g)))"
proof -
  have x: "memget dat 4 4 = x_apid (ctxs_of (c_users s) u ! k)" "memget dat 8 4 = x_ctid (ctxs_of (c_users s) u ! k)" using assms(10-12) by simp_all
  have "dlt_daemon_client_process_control env s msg = Some (0, s\<lparr>c_users := with_contexts (c_users s) u ((ctxs_of (c_users s) u)[k := y])\<rparr>,
      [App (To_User (x_user_handle x) (level_message (c_users s) y)), Response (service_payload 1 DLT_SERVICE_RESPONSE_OK)])"
    using assms(10,13,14) set_one_level [OF assms(1,2,4,5,9,6) x]
    by (intro level_dispatched [OF assms(6-8,3)]) (simp add: level_set_def level_events_def Let_def)
  moreover have "level_message (c_users s) y = level_bytes (int (sent_log_level (c_users s) y)) (int (sent_trace_status (c_users s) y)) (c_log_level_pos h)"
    using assms(14,18) by (simp add: level_message_def)
  then obtain lib' where "dlt_user_log_check_user_message cenv lib = Some (DLT_RETURN_OK, lib')" "c_log_level (seen lib' h) = Some (i8 (int (sent_log_level (c_users s) y)))"
    "\<forall>g. handle_ok lib g \<and> c_log_level_pos g \<noteq> c_log_level_pos h \<longrightarrow> handle_ok lib' g \<and> c_log_level (seen lib' g) = c_log_level (seen lib g)"
    using level_message_reaches [OF assms(15-17)] assms(19) by (metis (no_types, lifting))
  ultimately show ?thesis by blast
qed

definition example_control_env :: control_env where
  "example_control_env = \<lparr>c_user = example_user_env, c_alloc = (\<lambda>_. True), c_sent = (\<lambda>_ d. d), enforceContextLLAndTS = False, contextLogLevel = 4,
     contextTraceStatus = 0, injectionMode = True, c_gateway = None, c_inject = (\<lambda>_ _. 0), ECUVersionString = [], c_overflow = 0, application_cfg = [],
     context_cfg = [], cfg_open = (True, True), cfg_remove = (True, True), c_other = (\<lambda>_ _ d. (d, []))\<rparr>"

definition example_control :: control_state where
  "example_control = \<lparr>c_users = example_daemon2, timingpackets = False, application_file = None, context_file = None\<rparr>"

definition example_request :: "byte list \<Rightarrow> byte list \<Rightarrow> byte \<Rightarrow> byte list" where
  "example_request apid ctid level = le_bytes 4 1 @ apid @ ctid @ [level] @ replicate 4 0"

lemma example_undisturbed: "undisturbed example_control_env" "\<not> enforceContextLLAndTS example_control_env" "c_gateway example_control_env = None"
  by (simp_all add: undisturbed_def example_control_env_def example_user_env_def)

lemma example_contexts: "ctxs_of example_daemon2 0 = [example_ctx]" "apps_of example_daemon2 0 = [example_app\<lparr>a_num_contexts := 1\<rparr>]"
  "own_ecuid example_daemon2 = own_ecuid example_daemon" "c_users example_control = example_daemon2"
  by (simp_all add: example_daemon2_def example_control_def example_daemon_def)

theorem client_level_reaches_handle_witness:
  "\<exists>bytes lib'. snd (snd (the (dlt_daemon_client_process_control example_control_env example_control
       (payload_msg (example_request [0x41, 0, 0, 0] [0x43, 0, 0, 0] 5))))) = [App (To_User 5 bytes), Response [1, 0, 0, 0, 0]] \<and>
     dlt_user_log_check_user_message (example_context_env bytes) example_lib = Some (DLT_RETURN_OK, lib') \<and>
     c_log_level (seen example_lib example_handle) = Some 4 \<and> c_log_level (seen lib' example_handle) = Some 5"
proof -
  let ?dat = "example_request [0x41, 0, 0, 0] [0x43, 0, 0, 0] 5" and ?y = "example_ctx\<lparr>x_log_level := 5\<rparr>"
  have m: "17 \<le> datasize (payload_msg ?dat)" "databuffer (payload_msg ?dat) = Some ?dat" "u32 (endian_get (msg_htyp (payload_msg ?dat)) (memget ?dat 0 4)) = 1"
    "memget ?dat 4 4 = [0x41, 0, 0, 0]" "memget ?dat 8 4 = [0x43, 0, 0, 0]" "?dat ! 12 = 5"
    by (simp_all add: payload_msg_def example_request_def msg_htyp_def zero_msg_def endian_get_def memget_def u32_def eval_nat_numeral)
  have e: "x_apid example_ctx = [0x41, 0, 0, 0]" "x_ctid example_ctx = [0x43, 0, 0, 0]" "x_user_handle example_ctx = 5" "x_log_level_pos example_ctx = 0"
    by (simp_all add: example_ctx_def)
  have sent: "sent_log_level example_daemon2 ?y = 5" by (simp add: sent_log_level_def example_daemon2_def example_daemon_def example_ctx_def u8_def i8_def)
  have l: "length (level_message example_daemon2 ?y) \<le> 64" by (simp add: level_message_def level_bytes_def user_header_def dlt_user_set_userheader_def)
  have lib: "int (k_num example_lib) < 2147483648" "c_log_level_pos example_handle = x_log_level_pos example_ctx" "c_log_level (seen example_lib example_handle) = Some 4"
    by (simp_all add: example_lib_def example_handle_def example_ctx_def seen_def)
  have p: "service_payload (Suc 0) 0 = [1, 0, 0, 0, 0]" by (simp add: service_payload_def eval_nat_numeral)
  show ?thesis
    using client_level_reaches_handle [where s = example_control and u = 0 and k = 0 and x = example_ctx and y = ?y and msg = "payload_msg ?dat",
        OF example_undisturbed _ _ m(1-3) _ _ _ _ _ _ example_lib_ok lib(1,2), of "example_context_env (level_message example_daemon2 ?y)"]
      example_daemon2_ok example_listening [OF l] lib(3)
    by (auto simp: example_contexts m(4-6) e sent p i8_def)
qed

text \<open>
  C38. A log level for an application or a context alone, also with an asterisk at the end of the identifier:
  exactly the contexts it names that have a connection get the level, in the order of the table, with
  a message and a response each, those without a connection only the response of an error, and all
  others stay as they are. That the loop ends at the first application behind the pattern skips
  none of them, as long as the identifiers are ASCII: the order of the table is that of unsigned
  bytes, and the difference of two bytes is cast to eight bits with sign.
\<close>

theorem level_for_pattern:
  assumes "undisturbed env" "\<not> enforceContextLLAndTS env" "tables_ok d" "dlt_daemon_find_users_list d (own_ecuid d) = Some u"
    and "17 \<le> datasz" "memget req (if app then 4 else 8) 4 = pat" "memget req (if app then 8 else 4) 4 = [0, 0, 0, 0]"
    and "valid_id pat" "ascii pat" "\<forall>x \<in> set (ctxs_of d u). ascii (x_apid x) \<and> ascii (x_ctid x)"
  shows "dlt_daemon_control_set_log_level env d req datasz =
    (let l = i8 (int (unat (req ! 12))); M = (\<lambda>x. named pat (if app then x_apid x else x_ctid x))
     in (with_contexts d u (map (\<lambda>x. if M x then level_set l x else x) (ctxs_of d u)), concat (map (level_events d l) (filter M (ctxs_of d u)))))"
  using assms by (rule level_pattern)

theorem level_for_pattern_witness:
  "\<exists>bytes. dlt_daemon_control_set_log_level example_control_env example_daemon2 (example_request [0x41, 0x2A, 0, 0] [0, 0, 0, 0] 5) 17 =
     (with_contexts example_daemon2 0 [example_ctx\<lparr>x_log_level := 5\<rparr>], [App (To_User 5 bytes), Response [1, 0, 0, 0, 0]])"
proof -
  let ?r = "example_request [0x41, 0x2A, 0, 0] [0, 0, 0, 0] 5"
  have r: "memget ?r (if True then 4 else 8) 4 = [0x41, 0x2A, 0, 0]" "memget ?r (if True then 8 else 4) 4 = [0, 0, 0, 0]" "?r ! 12 = 5"
    by (simp_all add: example_request_def memget_def eval_nat_numeral)
  have v: "valid_id [0x41, 0x2A, 0, 0]" by code_simp
  have a: "ascii [0x41, 0x2A, 0, 0]" "\<forall>x \<in> set (ctxs_of example_daemon2 0). ascii (x_apid x) \<and> ascii (x_ctid x)"
    by (simp_all add: example_contexts ascii_def) (simp_all add: example_ctx_def)
  have n: "named [0x41, 0x2A, 0, 0] (x_apid example_ctx)" by (simp add: named_def c_string_def example_ctx_def)
  have e: "3 \<le> x_user_handle example_ctx" "x_user_handle example_ctx = 5" by (simp_all add: example_ctx_def)
  have p: "service_payload (Suc 0) 0 = [1, 0, 0, 0, 0]" by (simp add: service_payload_def eval_nat_numeral)
  have ecu: "dlt_daemon_find_users_list example_daemon2 (own_ecuid example_daemon2) = Some 0" using example_daemon2_ok by (simp add: example_contexts)
  show ?thesis
    using level_for_pattern [OF example_undisturbed(1,2) example_daemon2_ok(1) ecu, of 17 ?r True, OF _ r(1,2) v a]
    by (simp add: example_contexts n e p r(3) level_set_def level_events_def i8_def Let_def)
qed

text \<open>
  C39. The listing of applications and contexts: the response is exactly the identifiers, levels, statuses
  and descriptions of the requested applications, each followed by its own contexts, in the order of
  the tables, and it fills the buffer that was allocated for it to the last byte: no write leaves it.
\<close>

theorem log_info_listing:
  assumes "tables_ok d" "dlt_daemon_find_users_list d (own_ecuid d) = Some u" "small_table (user_list d ! u)"
    and "17 \<le> datasz" "3 \<le> unat (req ! 4)" "unat (req ! 4) \<le> 7"
    and "memget req 5 4 = apid" "memget req 9 4 = ctid" "ctid ! 0 = 0" "requested (user_list d ! u) apid \<noteq> []"
    and "length (log_listing (unat (req ! 4)) ctid (user_list d ! u) (requested (user_list d ! u) apid)) < 2147483648"
    and "\<And>n. c_alloc env n"
  shows "dlt_daemon_control_get_log_info env d req datasz =
    (let p = log_listing (unat (req ! 4)) ctid (user_list d ! u) (requested (user_list d ! u) apid) in Some (c_sent env p d, [Response p]))"
  using assms by (rule log_info_reply)

definition example_info_request :: "byte list \<Rightarrow> byte list" where
  "example_info_request ctid = le_bytes 4 3 @ [7] @ [0, 0, 0, 0] @ ctid @ [0, 0, 0, 0]"

lemma example_info: "memget (example_info_request ctid) 5 4 = [0, 0, 0, 0]" "example_info_request ctid ! 4 = 7"
  "length ctid = 4 \<Longrightarrow> memget (example_info_request ctid) 9 4 = ctid" "small_table (user_list example_daemon2 ! 0)"
  "requested (user_list example_daemon2 ! 0) [0, 0, 0, 0] = apps_of example_daemon2 0" "c_alloc example_control_env n" "c_sent example_control_env p d = d"
proof -
  have r: "example_info_request ctid = [3, 0, 0, 0, 7, 0, 0, 0, 0] @ ctid @ [0, 0, 0, 0]" by (simp add: example_info_request_def eval_nat_numeral)
  show "memget (example_info_request ctid) 5 4 = [0, 0, 0, 0]" "example_info_request ctid ! 4 = 7"
    "length ctid = 4 \<Longrightarrow> memget (example_info_request ctid) 9 4 = ctid" by (simp_all add: r memget_def)
qed (simp_all add: small_table_def example_contexts requested_def example_control_env_def)

lemma example_log_listing:
  "log_listing 7 ctid (user_list example_daemon2 ! 0) (apps_of example_daemon2 0) = [3, 0, 0, 0, 7, 1, 0, 0x41, 0, 0, 0, 1, 0] @
     (if ctid ! 0 = 0 \<or> ctid = [0x43, 0, 0, 0] then [0x43, 0, 0, 0, 0xFF, 0, 0, 0] else []) @ [0, 0, 0x72, 0x65, 0x6D, 0x6F]"
proof -
  have o: "own_contexts (user_list example_daemon2 ! 0) (example_app\<lparr>a_num_contexts := 1\<rparr>) = [example_ctx]"
    by (simp add: own_contexts_def example_contexts) (simp add: example_ctx_def example_app_def)
  have b: "le_bytes 4 3 = [3, 0, 0, 0]" "le_bytes 2 1 = [1, 0]" "le_bytes 2 0 = [0, 0]" "le_bytes 1 7 = [7]" "le_bytes 1 (- 1) = [0xFF]" "le_bytes 1 0 = [0]"
    by code_simp+
  have x: "x_ctid example_ctx = [0x43, 0, 0, 0]" "x_log_level example_ctx = - 1" "x_trace_status example_ctx = 0" "x_description example_ctx = None"
    by (simp_all add: example_ctx_def)
  have i: "context_info 7 example_ctx = [0x43, 0, 0, 0, 0xFF, 0, 0, 0]"
    unfolding context_info_def x b id4_valid [OF example_ids_valid(2)] by (simp add: with_level_def with_status_def description_info_def b)
  have l: "listed ctid example_ctx \<longleftrightarrow> ctid ! 0 = 0 \<or> ctid = [0x43, 0, 0, 0]" by (auto simp: listed_def example_ctx_def)
  have a: "a_apid example_app = [0x41, 0, 0, 0]" "a_description example_app = None" by (simp_all add: example_app_def)
  show ?thesis
    using b(1-4) by (simp add: log_listing_def example_contexts o application_info_def i l a description_info_def)
qed

theorem log_info_listing_witness:
  "dlt_daemon_control_get_log_info example_control_env example_daemon2 (example_info_request [0, 0, 0, 0]) 17 =
     Some (example_daemon2, [Response [3, 0, 0, 0, 7, 1, 0, 0x41, 0, 0, 0, 1, 0, 0x43, 0, 0, 0, 0xFF, 0, 0, 0, 0, 0, 0x72, 0x65, 0x6D, 0x6F]])"
proof -
  have ecu: "dlt_daemon_find_users_list example_daemon2 (own_ecuid example_daemon2) = Some 0" using example_daemon2_ok by (simp add: example_contexts)
  show ?thesis
    using log_info_listing [OF example_daemon2_ok(1) ecu, of 17 "example_info_request [0, 0, 0, 0]" "[0, 0, 0, 0]" "[0, 0, 0, 0]" example_control_env]
    by (simp add: example_info example_log_listing) (simp add: example_contexts)
qed

text \<open>
  C40. A request for all applications with the identifier of a context, when an application also has another
  context: the response announces the number of all contexts of this application, which is greater than the
  number of the entries behind it, those with the requested identifier; and the response, which has the
  size for all contexts, ends in at least four zeros that belong to no entry.
\<close>

theorem log_info_counts_too_many:
  assumes "tables_ok d" "dlt_daemon_find_users_list d (own_ecuid d) = Some u" "small_table (user_list d ! u)"
    and "17 \<le> datasz" "3 \<le> unat (req ! 4)" "unat (req ! 4) \<le> 7"
    and "memget req 5 4 ! 0 = 0" "memget req 9 4 = ctid" "ctid ! 0 \<noteq> 0"
    and "length (log_listing (unat (req ! 4)) [0] (user_list d ! u) (apps_of d u)) < 2147483648"
    and "\<And>n. c_alloc env n"
    and "a \<in> set (apps_of d u)" "x \<in> set (own_contexts (user_list d ! u) a)" "x_ctid x \<noteq> ctid"
  shows "\<exists>k before after. 4 \<le> k \<and>
    (let entries = filter (\<lambda>x. x_ctid x = ctid) (own_contexts (user_list d ! u) a);
         p = before @ a_apid a @ le_bytes 2 (int (length (own_contexts (user_list d ! u) a))) @
           concat (map (context_info (unat (req ! 4))) entries) @ after @ replicate k 0
     in dlt_daemon_control_get_log_info env d req datasz = Some (c_sent env p d, [Response p]) \<and>
        p = log_listing (unat (req ! 4)) ctid (user_list d ! u) (apps_of d u) @ replicate k 0 \<and>
        length entries < length (own_contexts (user_list d ! u) a))"
  using assms by (rule log_info_miscounts)

theorem log_info_counts_too_many_witness:
  "\<exists>k \<ge> 4. dlt_daemon_control_get_log_info example_control_env example_daemon2 (example_info_request [0x42, 0, 0, 0]) 17 =
     Some (example_daemon2, [Response ([3, 0, 0, 0, 7, 1, 0, 0x41, 0, 0, 0, 1, 0, 0, 0, 0x72, 0x65, 0x6D, 0x6F] @ replicate k 0)])"
proof -
  have ecu: "dlt_daemon_find_users_list example_daemon2 (own_ecuid example_daemon2) = Some 0" using example_daemon2_ok by (simp add: example_contexts)
  have a: "example_app\<lparr>a_num_contexts := 1\<rparr> \<in> set (apps_of example_daemon2 0)"
    "example_ctx \<in> set (own_contexts (user_list example_daemon2 ! 0) (example_app\<lparr>a_num_contexts := 1\<rparr>))" "x_ctid example_ctx \<noteq> [0x42, 0, 0, 0]"
    by (simp_all add: own_contexts_def example_contexts) (simp_all add: example_ctx_def example_app_def)
  show ?thesis
    using log_info_counts_too_many [OF example_daemon2_ok(1) ecu, of 17 "example_info_request [0x42, 0, 0, 0]" "[0x42, 0, 0, 0]" example_control_env, OF _ _ _ _ _ _ _ _ _ a]
    by (simp add: example_info example_log_listing Let_def) (auto simp: example_contexts)
qed

end
