(* ===== verification/Log_Forwarding.thy ===== *)
theory Log_Forwarding
  imports Control_Requests User_Wire
begin

unbundle bit_operations_syntax

text \<open>
  The way of a log message through the daemon: \<open>dlt_daemon_client_send_message_to_all_client\<close>
  (\<open>src/daemon/dlt_daemon_client.c\<close>) behind the handler of \<open>User_Messages\<close>, the loop over the user
  messages with what its handlers send to the clients, and the whole way from the program that logs to the text a
  client prints.
\<close>

section \<open>Forwarding a message\<close>

definition DLT_DAEMON_ECU_ID :: "byte list" where
  "DLT_DAEMON_ECU_ID = [0x45, 0x43, 0x55, 0x31]"

text \<open>
  With the option for the identifier of the daemon (\<open>evalue\<close>), a message with the default identifier gets
  that of the daemon. The time stamp is swapped back behind \<open>dlt_message_set_extraparameters\<close>.
\<close>

definition overwrite_ecu :: "bool \<Rightarrow> byte list \<Rightarrow> DltMessage \<Rightarrow> DltMessage option" where
  "overwrite_ecu evalue own m =
     (if evalue \<and> take 4 (ecu (headerextra m)) = DLT_DAEMON_ECU_ID then
        (case dlt_message_set_extraparameters
                (Some (m\<lparr>headerextra := (headerextra m)\<lparr>ecu := the (dlt_set_id (Some (ecu (headerextra m))) (Some own))\<rparr>\<rparr>)) of
           (rc, m1) \<Rightarrow>
             if rc \<noteq> 0 then None
             else Some ((the m1)\<lparr>headerextra := (headerextra (the m1))\<lparr>tmsp := swap32 (tmsp (headerextra (the m1)))\<rparr>\<rparr>))
      else Some m)"

definition fill_storage :: "int \<times> int \<Rightarrow> byte list \<Rightarrow> DltMessage \<Rightarrow> DltMessage option" where
  "fill_storage tv own m =
     (let ecu_ptr = (if DLT_IS_HTYP_WEID (msg_htyp m) then ecu (headerextra m) else own)
      in case storageheader m of
           None \<Rightarrow> None
         | Some p \<Rightarrow> Some (m\<lparr>headerbuffer := memput (headerbuffer m) p
                              (storage_bytes (the (snd (dlt_set_storageheader tv (Some zero_storage) (Some ecu_ptr)))))\<rparr>))"

text \<open>Printing the message on the console, a debugging aid, is left out.\<close>

definition dlt_daemon_client_send_message_to_all_client ::
  "sender \<Rightarrow> outside \<Rightarrow> world \<Rightarrow> bool \<Rightarrow> DltMessage \<Rightarrow> (int \<times> world \<times> DltMessage) option" where
  "dlt_daemon_client_send_message_to_all_client send env w evalue m =
     (case overwrite_ecu evalue (ecuid (daemon w)) m of
        None \<Rightarrow> Some (DLT_DAEMON_ERROR_UNKNOWN, w, m)
      | Some m1 \<Rightarrow>
        (case fill_storage (now env (ticks w)) (ecuid (daemon w)) m1 of
           None \<Rightarrow> Some (DLT_DAEMON_ERROR_UNKNOWN, w, m1)
         | Some m2 \<Rightarrow>
           (case message_parts m2 of
              (d1, d2) \<Rightarrow> map_option (\<lambda>(rc, w'). (rc, w', m2)) (send w DLT_DAEMON_SEND_TO_ALL d1 d2))))"

section \<open>The calls of the handlers\<close>

text \<open>
  What the events of the handlers of \<open>User_Messages\<close> do to the clients. \<open>info\<close> is the payload of the response to
  the request that a registration makes (\<open>Control_Requests\<close>). Messages an application lost are counted by the
  daemon when it cannot report them. The results of writes to applications are those of \<open>user_out\<close>.
\<close>

definition deliver ::
  "nat \<Rightarrow> outside \<Rightarrow> (nat \<Rightarrow> byte list \<Rightarrow> byte list \<Rightarrow> byte list option) \<Rightarrow> bool \<Rightarrow> world emitter" where
  "deliver k env info evalue e mw =
     (case mw of (m, w) \<Rightarrow>
      let send = dlt_daemon_client_send k env; keep = map_option (\<lambda>(_, w'). (m, w'))
      in case e of
           Log_Internal t \<Rightarrow> keep (dlt_daemon_log_internal send env w t)
         | To_User f bytes \<Rightarrow> Some (m, w)
         | Close_Fd f \<Rightarrow> Some (m, w)
         | Close_Socket f \<Rightarrow> keep (dlt_daemon_close_socket send env w f)
         | Get_Log_Info opts apid ctid \<Rightarrow>
             (case info opts apid ctid of None \<Rightarrow> Some (m, w)
              | Some p \<Rightarrow> keep (dlt_daemon_client_send_control_message send env w DLT_DAEMON_SEND_TO_ALL (payload_msg p) [0] [0]))
         | Unregister_Context apid ctid \<Rightarrow>
             keep (dlt_daemon_control_message_unregister_context send env w DLT_DAEMON_SEND_TO_ALL apid ctid (text_bytes ''remo''))
         | Marker \<Rightarrow> keep (dlt_daemon_control_message_marker send env w DLT_DAEMON_SEND_TO_ALL)
         | Overflow n apid \<Rightarrow>
             map_option (\<lambda>(rc, w'). (m, if rc \<noteq> 0
                 then w'\<lparr>daemon := (daemon w')\<lparr>overflow_counter := u32 (int (overflow_counter (daemon w')) + int n)\<rparr>\<rparr> else w'))
               (dlt_daemon_control_message_buffer_overflow send env w DLT_DAEMON_SEND_TO_ALL n apid)
         | Send_Message m' \<Rightarrow>
             map_option (\<lambda>(_, w', m2). (m2, w')) (dlt_daemon_client_send_message_to_all_client send env w evalue m'))"

text \<open>They return when no report is pending, and leave it so.\<close>

lemma deliver_returns:
  assumes alloc: "outside.msg_alloc env"
  shows "calls_return (\<lambda>w. steady w \<and> conns w < k) (deliver k env info evalue)"
  unfolding calls_return_def
proof (intro allI impI, elim conjE)
  fix e m w assume w: "steady w" "conns w < k"
  let ?send = "dlt_daemon_client_send k env"
  note send = client_send_returns [of k env]
  have b: "steady w' \<Longrightarrow> below w w' \<Longrightarrow> steady w' \<and> conns w' < k" for w' using w(2) by (simp add: below_def)
  have p: "\<exists>rc w'. send_payload ?send env w DLT_DAEMON_SEND_TO_ALL q = Some (rc, w') \<and> steady w' \<and> below w w'" for q
  proof -
    obtain rc w' where "dlt_daemon_client_send_control_message ?send env w DLT_DAEMON_SEND_TO_ALL (payload_msg q) [0] [0] = Some (rc, w')"
      "steady w'" "below w w'" using control_returns [OF send w] by blast
    then show ?thesis using alloc by (simp add: send_payload_def)
  qed
  show "\<exists>m' w'. deliver k env info evalue e (m, w) = Some (m', w') \<and> steady w' \<and> conns w' < k"
  proof (cases e)
    case (Log_Internal t)
    obtain rc w' where "dlt_daemon_log_internal ?send env w t = Some (rc, w')" "steady w'" "below w w'"
      using log_internal_returns [OF send w] by blast
    then show ?thesis using b by (simp add: deliver_def Log_Internal)
  next
    case (Close_Socket f)
    obtain rc w' where "dlt_daemon_close_socket ?send env w f = Some (rc, w')" "steady w'" "below w w'"
      using close_returns [OF send w(1) disjI1 [OF w(2)]] by blast
    then show ?thesis using b by (simp add: deliver_def Close_Socket)
  next
    case (Get_Log_Info n a c)
    show ?thesis
    proof (cases "info n a c")
      case (Some q)
      obtain rc w' where "dlt_daemon_client_send_control_message ?send env w DLT_DAEMON_SEND_TO_ALL (payload_msg q) [0] [0] = Some (rc, w')"
        "steady w'" "below w w'" using control_returns [OF send w] by blast
      then show ?thesis using b by (simp add: deliver_def Get_Log_Info Some)
    qed (use w in \<open>simp add: deliver_def Get_Log_Info\<close>)
  next
    case (Unregister_Context a c)
    obtain rc w' where "send_payload ?send env w DLT_DAEMON_SEND_TO_ALL (unregister_context_payload a c (text_bytes ''remo'')) = Some (rc, w')"
      "steady w'" "below w w'" using p by blast
    then show ?thesis using b by (simp add: deliver_def Unregister_Context dlt_daemon_control_message_unregister_context_def)
  next
    case Marker
    obtain rc w' where "send_payload ?send env w DLT_DAEMON_SEND_TO_ALL marker_payload = Some (rc, w')" "steady w'" "below w w'" using p by blast
    then show ?thesis using b by (simp add: deliver_def Marker dlt_daemon_control_message_marker_def)
  next
    case (Overflow n a)
    have "length (overflow_payload n) \<le> 65000" by (simp add: overflow_payload_def)
    then have c: "control_message env w (payload_msg (overflow_payload n)) a [0] \<noteq> None" by (rule control_message_short)
    obtain rc w' where r: "dlt_daemon_client_send_control_message ?send env w DLT_DAEMON_SEND_TO_ALL (payload_msg (overflow_payload n)) a [0] = Some (rc, w')"
      "steady w'" "below w w'" "rc \<noteq> 0 \<longrightarrow> buffering w'" using control_returns [OF send w, of env "payload_msg (overflow_payload n)" a "[0]"] c by blast
    have s: "steady (w'\<lparr>daemon := (daemon w')\<lparr>overflow_counter := x\<rparr>\<rparr>) \<and> conns (w'\<lparr>daemon := (daemon w')\<lparr>overflow_counter := x\<rparr>\<rparr>) < k" if "buffering w'" for x
      using r(2,3) b that by (simp add: steady_def buffering_def conns_def)
    show ?thesis using r b s alloc by (simp add: deliver_def Overflow dlt_daemon_control_message_buffer_overflow_def)
  next
    case (Send_Message m')
    show ?thesis
    proof (cases "overwrite_ecu evalue (ecuid (daemon w)) m'")
      case 1: (Some m1)
      show ?thesis
      proof (cases "fill_storage (now env (ticks w)) (ecuid (daemon w)) m1")
        case 2: (Some m2)
        obtain d1 d2 where d: "message_parts m2 = (d1, d2)" by fastforce
        obtain rc w' where "?send w DLT_DAEMON_SEND_TO_ALL d1 d2 = Some (rc, w')" "steady w'" "below w w'" using send_returnsD [OF send w] by blast
        then show ?thesis using b by (simp add: deliver_def Send_Message dlt_daemon_client_send_message_to_all_client_def 1 2 d)
      qed (use w 1 in \<open>simp add: deliver_def Send_Message dlt_daemon_client_send_message_to_all_client_def\<close>)
    qed (use w in \<open>simp add: deliver_def Send_Message dlt_daemon_client_send_message_to_all_client_def\<close>)
  qed (use w in \<open>simp_all add: deliver_def\<close>)
qed

section \<open>Reading out of a longer buffer\<close>

lemma read_body_len:
  assumes "read_body alloc m b l1 = (0, m')" "headersize m' = 16 + int hs" "datasize m' = int n" "hs + n \<le> l2"
  shows "read_body alloc m b l2 = (0, m') \<and> storageheader m' = Some 0"
proof -
  define m1 where "m1 = m\<lparr>headerbuffer := memput (headerbuffer m) 16 (take 4 b), storageheader := Some 0, standardheader := Some 16\<rparr>"
  define x where "x = DLT_STANDARD_HEADER_EXTRA_SIZE (msg_htyp m1) + (if DLT_IS_HTYP_UEH (msg_htyp m1) then 10 else 0)"
  define t where "t = msg_len m1 - int (16 + 4 + x) + 16"
  define m2 where "m2 = m1\<lparr>headersize := int (16 + 4 + x), datasize := t\<rparr>"
  define m3 where "m3 = (if x > 0 then load_extra m2 b x else m2)"
  have eq: "read_body alloc m b l = (if l < 4 then (- 2, m) else if t < 0 then (- 3, m2) else if x > 0 \<and> l < 16 + 4 + x - 16 then (- 2, m2)
      else if l < 16 + 4 + x - 16 + nat t then (- 2, m3) else load_payload alloc m3 (nat t) (drop (16 + 4 + x - 16) b))" for l
    unfolding read_body_def Let_def m1_def [symmetric] x_def [symmetric] t_def [symmetric] m2_def [symmetric] m3_def [symmetric] by simp
  have lp: "0 \<le> t" "load_payload alloc m3 (nat t) (drop (16 + 4 + x - 16) b) = (0, m')"
    using assms(1) unfolding eq by (auto split: if_splits)
  have sel: "headersize m3 = 20 + int x" "datasize m3 = t" "storageheader m3 = Some 0"
    by (simp_all add: m3_def m2_def load_extra_sel m1_def) (simp add: load_extra_def dlt_message_get_extraparameters_def Let_def)
  have "headersize m' = headersize m3" "datasize m' = datasize m3" using load_payload_cases [OF lp(2)] by simp_all
  then have "hs = 4 + x" "t = int n" using assms(2,3) sel by simp_all
  then have "read_body alloc m b l2 = (0, m')" using assms(4) lp unfolding eq by simp
  moreover have "storageheader m' = storageheader m3" using lp(2) by (auto simp: load_payload_def Let_def split: option.splits if_splits)
  ultimately show ?thesis using sel by simp
qed

text \<open>The message a daemon keeps between calls.\<close>

definition keeper_ok :: "(nat \<Rightarrow> byte list option) \<Rightarrow> DltMessage \<Rightarrow> bool" where
  "keeper_ok alloc m \<longleftrightarrow> length (headerbuffer m) = 42 \<and> databuffer_ok m \<and> (\<forall>n. \<exists>blk. alloc n = Some blk \<and> length blk = n)"

lemma read_frame:
  assumes k: "keeper_ok alloc m" and fr: "4 + length extra + length payload < 65536" "length extra = extra_len htyp" "htyp \<noteq> 0x44"
    and b: "b = dlt_frame htyp mcnt extra payload @ rest" and len: "4 + length extra + length payload \<le> l" "l \<le> length b"
  shows "\<exists>m'. dlt_message_read alloc (Some m) (Some b) l False = (0, Some m') \<and> \<not> found_serialheader m' \<and> storageheader m' = Some 0 \<and>
    length (headerbuffer m') = 42 \<and> headersize m' = 20 + int (length extra) \<and> datasize m' = int (length payload) \<and>
    (\<exists>db. databuffer m' = Some db \<and> take (length payload) db = payload) \<and>
    memget (headerbuffer m') 16 (4 + length extra) = take (4 + length extra) (dlt_frame htyp mcnt extra payload)"
proof -
  define m0 where "m0 = m\<lparr>found_serialheader := False, resync_offset := 0\<rparr>"
  have m0: "length (headerbuffer m0) = 42" "databuffer_ok m0" using k by (auto simp: keeper_ok_def m0_def databuffer_ok_def split: option.splits)
  have al: "\<exists>blk. alloc (length payload) = Some blk \<and> length blk = length payload" "\<forall>n blk. alloc n = Some blk \<longrightarrow> length blk = n"
    using k by (auto simp: keeper_ok_def) (metis option.inject)
  obtain m' where m': "read_body alloc m0 b (length b) = (0, m')" "found_serialheader m' = found_serialheader m0"
    "headersize m' = 20 + int (length extra)" "datasize m' = int (length payload)" "take (length payload) (the (databuffer m')) = payload"
    "memget (headerbuffer m') 16 (4 + length extra) = take (4 + length extra) (dlt_frame htyp mcnt extra payload)"
    using read_body_frame [where payload = payload and extra = extra and htyp = htyp and mcnt = mcnt and rest = rest and buffer = b and alloc = alloc and m = m0, OF m0 al(1) fr(1,2) b]
    by blast
  have "read_body alloc m0 b l = (0, m') \<and> storageheader m' = Some 0"
    by (rule read_body_len [OF m'(1), of "4 + length extra" "length payload"]) (use m' len in simp_all)
  moreover have "read_sync (m\<lparr>resync_offset := 0\<rparr>) b l False = (m0, b, l)"
    using fr(3) by (simp add: read_sync_def memget_def dlt_frame_def dltSerialHeader_def m0_def b)
  moreover have "length (headerbuffer m') = 42" using read_body_sound [OF m0 al(2) m'(1) refl refl] by simp
  moreover have "\<exists>db. databuffer m' = Some db"
    using m'(1) by (auto simp: read_body_def load_payload_def Let_def split: if_splits option.splits)
  ultimately show ?thesis using m' len(1) by (auto simp: dlt_message_read_def m0_def)
qed

lemma waiting_memory:
  assumes "rcv_ok (mem, r)"
  shows "\<exists>beyond. drop (the (buf r)) (mem (the (rbuffer r))) = waiting_bytes (mem, r) @ beyond"
  by (simp add: waiting_bytes_def memget_def) (metis append_take_drop_id)

lemma log_message_received:
  assumes rec: "rcv_ok (mem, rec)" and w: "waiting_bytes (mem, rec) = h @ dlt_frame htyp mcnt extra payload @ rest" "length h = 8"
    and k: "keeper_ok alloc m" and fr: "4 + length extra + length payload < 65536" "length extra = extra_len htyp" "htyp \<noteq> 0x44"
  shows "\<exists>m' rec'. dlt_daemon_process_user_message_log alloc mem m rec = (0, m', rec', [Send_Message m']) \<and>
    rcv_ok (mem, rec') \<and> waiting_bytes (mem, rec') = rest \<and> storageheader m' = Some 0 \<and> length (headerbuffer m') = 42 \<and>
    headersize m' = 20 + int (length extra) \<and> datasize m' = int (length payload) \<and>
    (\<exists>db. databuffer m' = Some db \<and> take (length payload) db = payload) \<and>
    memget (headerbuffer m') 16 (4 + length extra) = take (4 + length extra) (dlt_frame htyp mcnt extra payload)"
proof -
  let ?f = "dlt_frame htyp mcnt extra payload"
  obtain beyond where "drop (the (buf rec)) (mem (the (rbuffer rec))) = (h @ ?f @ rest) @ beyond" using waiting_memory [OF rec] w(1) by auto
  then have mem: "drop (the (buf rec) + 8) (mem (the (rbuffer rec))) = ?f @ rest @ beyond"
    using w(2) by (simp add: add.commute [of "the (buf rec)"] flip: drop_drop)
  have n: "bytesRcvd rec = 8 + int (length ?f) + int (length rest)" using length_waiting [OF rec] w rec by (simp add: rcv_ok_def)
  have lt: "bytesRcvd rec < 2147483648" using rec by (simp add: rcv_ok_def)
  then have u: "u32 (bytesRcvd rec - 8) = length ?f + length rest" using n by (simp add: u32_def)
  obtain m' where m': "dlt_message_read alloc (Some m) (Some (?f @ rest @ beyond)) (length ?f + length rest) False = (0, Some m')" "\<not> found_serialheader m'"
    "storageheader m' = Some 0" "length (headerbuffer m') = 42" "headersize m' = 20 + int (length extra)" "datasize m' = int (length payload)"
    "\<exists>db. databuffer m' = Some db \<and> take (length payload) db = payload" "memget (headerbuffer m') 16 (4 + length extra) = take (4 + length extra) ?f"
    using read_frame [OF k fr refl, of "length ?f + length rest" mcnt "rest @ beyond"] by auto
  have sz: "i32 (headersize m' + datasize m' - 8) = 8 + int (length ?f)" using m'(5,6) n lt by (simp add: i32_id)
  obtain rec' where rec': "dlt_receiver_remove (Some rec) (8 + int (length ?f)) = (0, Some rec')" "rcv_ok (mem, rec')"
    "waiting_bytes (mem, rec') = drop (nat (8 + int (length ?f))) (waiting_bytes (mem, rec))"
    using remove_waiting [OF rec, of "8 + int (length ?f)"] n by auto
  have "drop (nat (8 + int (length ?f))) (waiting_bytes (mem, rec)) = rest" using w by (simp add: nat_add_distrib)
  moreover have "dlt_daemon_process_user_message_log alloc mem m rec = (0, m', rec', [Send_Message m'])"
    using m'(1,2) rec'(1) by (simp add: dlt_daemon_process_user_message_log_def mem u sz del: length_dlt_frame)
  ultimately show ?thesis using m' rec' by metis
qed

text \<open>Without a new identifier the headers and the payload are sent as they came.\<close>

lemma storage_length: "length (storage_bytes (the (snd (dlt_set_storageheader tv (Some zero_storage) (Some e))))) = 16"
  by (rule length_storage_bytes) (simp_all add: dlt_set_storageheader_def zero_storage_def dlt_set_id_def Let_def memput_def)

lemma forwarded:
  assumes m: "storageheader m = Some 0" "length (headerbuffer m) = 42" "headersize m = 16 + int hs" "0 < hs" "hs \<le> 26" "memget (headerbuffer m) 16 hs = hdr"
      "databuffer m = Some db" "datasize m = int n" "take n db = payload"
    and w: "all_ok env (client_fds (pEvent (wlocal w)))" "Event_Handler.table_ok (pEvent (wlocal w))" "external w"
      "dstate (daemon w) = DLT_DAEMON_STATE_SEND_DIRECT" "overflow_counter (daemon w) = 0" "0 < k"
  shows "\<exists>w' m'. dlt_daemon_client_send_message_to_all_client (dlt_daemon_client_send k env) env w False m = Some (0, w', m') \<and>
    daemon w' = daemon w \<and> wlocal w' = wlocal w \<and>
    out w' = out w @ offline_events env w (Some hdr) (Some payload) @
      sent_to (sendserialheader (daemon w)) (Some hdr) (Some payload) (client_fds (pEvent (wlocal w)))"
proof -
  let ?e = "if DLT_IS_HTYP_WEID (msg_htyp m) then ecu (headerextra m) else ecuid (daemon w)"
  define st where "st = storage_bytes (the (snd (dlt_set_storageheader (now env (ticks w)) (Some zero_storage) (Some ?e))))"
  define m2 where "m2 = m\<lparr>headerbuffer := memput (headerbuffer m) 0 st\<rparr>"
  have fill: "fill_storage (now env (ticks w)) (ecuid (daemon w)) m = Some m2" using m(1) by (simp add: fill_storage_def m2_def st_def Let_def)
  have st: "length st = 16" unfolding st_def by (rule storage_length)
  have "memget (headerbuffer m2) 16 hs = memget (headerbuffer m) 16 hs" using st m(2) by (simp add: memget_def memput_def m2_def)
  then have "message_parts m2 = (Some hdr, Some payload)" using m by (simp add: message_parts_def m2_def)
  moreover have "hdr \<noteq> []" using m(2,4,5,6) by (auto simp: memget_def)
  ultimately show ?thesis
    using direct_send [OF w, of "Some hdr" "Some payload"] fill by (simp add: dlt_daemon_client_send_message_to_all_client_def overwrite_ecu_def)
qed

lemma log_htyp_not_serial: "log_htyp u l \<noteq> 0x44"
  by (simp add: log_htyp_def)

lemma log_forwarded:
  assumes m: "message_ok (s_user s) h l"
    and daemon: "keeper_ok dalloc dm" "rcv_ok (mem, rec)" "waiting_bytes (mem, rec) = user_header DLT_USER_MESSAGE_LOG @ log_frame env s h l 0 @ rest"
    and w: "all_ok out_env (client_fds (pEvent (wlocal w)))" "Event_Handler.table_ok (pEvent (wlocal w))" "external w"
      "dstate (daemon w) = DLT_DAEMON_STATE_SEND_DIRECT" "overflow_counter (daemon w) = 0" "0 < k"
  shows "\<exists>hdr payload dm' rec' w' dm''. hdr @ payload = log_frame env s h l 0 \<and>
    dlt_daemon_process_user_message_log dalloc mem dm rec = (0, dm', rec', [Send_Message dm']) \<and> waiting_bytes (mem, rec') = rest \<and>
    dlt_daemon_client_send_message_to_all_client (dlt_daemon_client_send k out_env) out_env w False dm' = Some (0, w', dm'') \<and>
    out w' = out w @ offline_events out_env w (Some hdr) (Some payload) @
      sent_to (sendserialheader (daemon w)) (Some hdr) (Some payload) (client_fds (pEvent (wlocal w)))"
proof -
  let ?ht = "log_htyp (s_user s) l" let ?x = "log_extra env s h l 0" let ?p = "logged l"
  let ?f = "dlt_frame ?ht (c_mcnt h) ?x ?p" and ?hdr = "take (4 + length (log_extra env s h l 0)) (dlt_frame (log_htyp (s_user s) l) (c_mcnt h) (log_extra env s h l 0) (logged l))"
  have fr: "4 + length ?x + length ?p < 65536" "length ?x = extra_len ?ht"
    using m extra_len_le [of ?ht] by (auto simp: message_ok_def length_log_extra)
  have h8: "length (user_header 1) = 8" by (simp add: user_header_def dlt_user_set_userheader_def)
  obtain dm' rec' where d: "dlt_daemon_process_user_message_log dalloc mem dm rec = (0, dm', rec', [Send_Message dm'])" "waiting_bytes (mem, rec') = rest"
    "storageheader dm' = Some 0" "length (headerbuffer dm') = 42" "headersize dm' = 20 + int (length ?x)" "datasize dm' = int (length ?p)"
    "\<exists>db. databuffer dm' = Some db \<and> take (length ?p) db = ?p" "memget (headerbuffer dm') 16 (4 + length ?x) = ?hdr"
    using log_message_received [OF daemon(2) daemon(3) [unfolded log_frame_def] h8 daemon(1) fr log_htyp_not_serial] by blast
  obtain db where db: "databuffer dm' = Some db" "take (length ?p) db = ?p" using d(7) by blast
  have le: "4 + length ?x \<le> 26" using fr(2) extra_len_le [of ?ht] by simp
  have hs: "headersize dm' = 16 + int (4 + length ?x)" using d(5) by simp
  have hs0: "0 < 4 + length ?x" by simp
  have "?hdr @ ?p = log_frame env s h l 0" by (simp add: log_frame_def dlt_frame_def numeral_eq_Suc length_be_bytes)
  then show ?thesis using forwarded [OF d(3,4) hs hs0 le d(8) db(1) d(6) db(2) w] d(1,2) by blast
qed

section \<open>Properties\<close>

text \<open>
  C1. From the program to every client: the arguments a program logs are written to the pipe as one
  message; the daemon that finds this message in its receiver takes exactly it out and writes its
  headers and its payload, unchanged, to every client in the order of the poll table; and a client
  that reads these bytes finds the identifiers of the program and prints the texts of the arguments,
  separated by spaces.
\<close>

theorem log_reaches_clients:
  assumes "library_ok env s" "app_ok env s []" "accepts env" "0 \<le> u_log_handle (s_user s)" "u_overflow_counter (s_user s) = 0"
    and "log_ok (s_user s) l" "is_verbose_mode (s_user s) (Some l)" "logged l = []" "l_args_num l = 0"
    and "l_handle l = Some h" "c_contextID h ! 0 \<noteq> 0"
    and "\<forall>a \<in> set args. arg_ok a" "length args < 256" "write_args (s_user s) (Some l) args = (0, Some l')" "length (logged l') + 26 < 65536"
    and "keeper_ok dalloc dm" "all_ok out_env (client_fds (pEvent (wlocal w)))" "Event_Handler.table_ok (pEvent (wlocal w))" "external w"
    and "dstate (daemon w) = DLT_DAEMON_STATE_SEND_DIRECT" "overflow_counter (daemon w) = 0" "0 < k"
    and "reader_ok alloc m" "float_ok floats" "length (spaced (map (arg_text floats) args)) + 2 \<le> n" "n \<le> length t" "n < 2 ^ 31"
  shows "\<exists>s' log' frame. dlt_user_log_write_finish env s (Some l') = (DLT_RETURN_OK, s', log') \<and>
    s_events s' = s_events s @ [Wrote (u_log_handle (s_user s)) (user_header DLT_USER_MESSAGE_LOG @ frame)] \<and> length frame < 65536 \<and>
    (\<forall>mem rec rest. rcv_ok (mem, rec) \<and> waiting_bytes (mem, rec) = user_header DLT_USER_MESSAGE_LOG @ frame @ rest \<longrightarrow>
      (\<exists>hdr payload dm' rec' w' dm''. hdr @ payload = frame \<and>
        dlt_daemon_process_user_message_log dalloc mem dm rec = (0, dm', rec', [Send_Message dm']) \<and> waiting_bytes (mem, rec') = rest \<and>
        dlt_daemon_client_send_message_to_all_client (dlt_daemon_client_send k out_env) out_env w False dm' = Some (0, w', dm'') \<and>
        out w' = out w @ offline_events out_env w (Some hdr) (Some payload) @
          sent_to (sendserialheader (daemon w)) (Some hdr) (Some payload) (client_fds (pEvent (wlocal w))))) \<and>
    (\<exists>m' t'. dlt_message_read alloc (Some m) (Some frame) (length frame) False = (0, Some m') \<and>
      msg_apid m' = set_id (u_appID (s_user s)) \<and> msg_ctid m' = set_id (c_contextID h) \<and>
      dlt_message_payload floats False (Some m') (Some t) n 2 = (0, Some t') \<and> c_string t' = spaced (map (arg_text floats) args))"
proof -
  have r: "\<exists>s' log' m' t'. dlt_user_log_write_finish env s (Some l') = (0, s', log') \<and>
    s_events s' = s_events s @ [Wrote (u_log_handle (s_user s)) (user_header 1 @ log_frame env s h l' 0)] \<and> message_ok (s_user s) h l' \<and>
    dlt_message_read alloc (Some m) (Some (log_frame env s h l' 0)) (length (log_frame env s h l' 0)) False = (0, Some m') \<and>
    msg_apid m' = set_id (u_appID (s_user s)) \<and> msg_ctid m' = set_id (c_contextID h) \<and>
    dlt_message_payload floats False (Some m') (Some t) n 2 = (0, Some t') \<and> c_string t' = spaced (map (arg_text floats) args)"
    using assms(1-15,23-27) by (rule write_finish_frame)
  then obtain s' log' m' t' where "dlt_user_log_write_finish env s (Some l') = (0, s', log')"
    "s_events s' = s_events s @ [Wrote (u_log_handle (s_user s)) (user_header 1 @ log_frame env s h l' 0)]" "message_ok (s_user s) h l'"
    "dlt_message_read alloc (Some m) (Some (log_frame env s h l' 0)) (length (log_frame env s h l' 0)) False = (0, Some m')"
    "msg_apid m' = set_id (u_appID (s_user s))" "msg_ctid m' = set_id (c_contextID h)"
    "dlt_message_payload floats False (Some m') (Some t) n 2 = (0, Some t')" "c_string t' = spaced (map (arg_text floats) args)" by blast
  moreover from this(3) have "length (log_frame env s h l' 0) < 65536"
    using extra_len_le [of "log_htyp (s_user s) l'"] by (simp add: message_ok_def log_frame_def length_log_extra)
  ultimately show ?thesis
    using log_forwarded [where env = env and s = s and h = h and l = l', OF _ assms(16) _ _ assms(17-22)]
    by (intro exI [of _ s'] exI [of _ log'] exI [of _ "log_frame env s h l' 0"]) blast
qed

lemma frame_receiver_ok: "length frame < 65536 \<Longrightarrow> rcv_ok (\<lambda>_. user_header 1 @ frame, message_receiver (user_header 1 @ frame))"
  "waiting_bytes (\<lambda>_. user_header 1 @ frame, message_receiver (user_header 1 @ frame)) = user_header 1 @ frame"
  by (simp_all add: rcv_ok_def waiting_bytes_def message_receiver_def memget_def user_header_def dlt_user_set_userheader_def)

theorem log_reaches_clients_witness:
  "\<exists>s' log' frame hdr payload dm' rec' w' dm'' m' t'.
    dlt_user_log_write_finish (example_app_env takes_all) (example_client []) (Some example_written) = (0, s', log') \<and>
    s_events s' = [Wrote 5 (user_header 1 @ frame)] \<and> hdr @ payload = frame \<and>
    dlt_daemon_process_user_message_log example_alloc (\<lambda>_. user_header 1 @ frame) (example_log_msg\<lparr>databuffer := None\<rparr>)
      (message_receiver (user_header 1 @ frame)) = (0, dm', rec', [Send_Message dm']) \<and>
    dlt_daemon_client_send_message_to_all_client (dlt_daemon_client_send 1 (example_outside (\<lambda>_. True))) (example_outside (\<lambda>_. True))
      (example_world DLT_DAEMON_STATE_SEND_DIRECT 0) False dm' = Some (0, w', dm'') \<and>
    out w' = [ToClient 7 hdr, ToClient 7 payload, ToClient 8 hdr, ToClient 8 payload] \<and>
    dlt_message_read example_alloc (Some (example_log_msg\<lparr>databuffer := None\<rparr>)) (Some frame) (length frame) False = (0, Some m') \<and>
    dlt_message_payload (\<lambda>_. [], \<lambda>_. []) False (Some m') (Some (replicate 20 9)) 10 2 = (0, Some t') \<and>
    c_string t' = [0x2D, 0x37, 0x20, 0x61, 0x62]"
proof -
  let ?o = "example_outside (\<lambda>_. True)" let ?w = "example_world DLT_DAEMON_STATE_SEND_DIRECT 0" let ?m = "example_log_msg\<lparr>databuffer := None\<rparr>"
  have l: "log_ok (s_user (example_client [])) example_log" "is_verbose_mode (s_user (example_client [])) (Some example_log)"
    using example_log_ok(1,3) by (simp_all add: example_client_def log_ok_def is_verbose_mode_def)
  have a: "write_args (s_user (example_client [])) (Some example_log) example_args = (0, Some example_written)" by code_simp
  have m: "reader_ok example_alloc ?m" "keeper_ok example_alloc ?m"
    by (simp_all add: reader_ok_def keeper_ok_def databuffer_ok_def example_log_msg_def example_alloc_def)
  have w: "all_ok ?o (client_fds (pEvent (wlocal ?w)))" "Event_Handler.table_ok (pEvent (wlocal ?w))" "external ?w"
    "dstate (daemon ?w) = DLT_DAEMON_STATE_SEND_DIRECT" "overflow_counter (daemon ?w) = 0" "(0::nat) < 1"
    by (simp_all add: example_world_simps example_clients_ok example_outside_simps)
  have e: "offline_events ?o ?w (Some x) (Some y) = []"
    "sent_to (sendserialheader (daemon ?w)) (Some x) (Some y) (client_fds (pEvent (wlocal ?w))) = [ToClient 7 x, ToClient 7 y, ToClient 8 x, ToClient 8 y]"
    "out ?w = []" for x y
    by (simp_all add: example_world_simps example_clients_ok example_outside_simps sent_to_def wire_def opt_list_def)
  obtain s' log' frame where r: "dlt_user_log_write_finish (example_app_env takes_all) (example_client []) (Some example_written) = (0, s', log')"
    "s_events s' = [Wrote 5 (user_header 1 @ frame)]" "length frame < 65536"
    "\<forall>mem rec rest. rcv_ok (mem, rec) \<and> waiting_bytes (mem, rec) = user_header 1 @ frame @ rest \<longrightarrow>
      (\<exists>hdr payload dm' rec' w' dm''. hdr @ payload = frame \<and>
        dlt_daemon_process_user_message_log example_alloc mem ?m rec = (0, dm', rec', [Send_Message dm']) \<and> waiting_bytes (mem, rec') = rest \<and>
        dlt_daemon_client_send_message_to_all_client (dlt_daemon_client_send 1 ?o) ?o ?w False dm' = Some (0, w', dm'') \<and>
        out w' = [ToClient 7 hdr, ToClient 7 payload, ToClient 8 hdr, ToClient 8 payload])"
    "\<exists>m' t'. dlt_message_read example_alloc (Some ?m) (Some frame) (length frame) False = (0, Some m') \<and>
      dlt_message_payload (\<lambda>_. [], \<lambda>_. []) False (Some m') (Some (replicate 20 9)) 10 2 = (0, Some t') \<and> c_string t' = [0x2D, 0x37, 0x20, 0x61, 0x62]"
    using log_reaches_clients [OF example_client_ok(3,1,5) _ _ l example_log_ok(4) _ _ _ example_args_ok _ a _ m(2) w m(1),
        where floats = "(\<lambda>_. [], \<lambda>_. [])" and n = 10 and t = "replicate 20 9"] example_message_ok(2)
    unfolding example_args_text e by (fastforce simp: example_client_user float_ok_def example_log_def example_args_def)
  show ?thesis using r(1,2,5) r(4) [rule_format, of "\<lambda>_. user_header 1 @ frame" _ "[]"] frame_receiver_ok(1) [OF r(3)] frame_receiver_ok(2) by fastforce
qed

text \<open>
  C10. The loop over the received user messages returns, whatever the receiver holds, whatever the handlers do and
  send, and whichever writes to clients and applications fail, when no lost messages wait for their report, that
  is when the overflow counter is zero or messages are stored; the fuel for sending must exceed the number
  of connections. The condition holds again afterwards. Otherwise a single message
  need not return, as the property of \<open>Daemon_Send\<close> on the overflow report shows.
\<close>

theorem user_messages_terminate:
  assumes "handler_ok (wlocal w)" "overflow_counter (daemon w) = 0 \<or> buffering w" "conns w < k" "outside.msg_alloc out_env"
  shows "\<exists>ret mem' d' m' w' rec'. dlt_daemon_process_user_messages env (deliver k out_env info evalue) alloc rd backup_ok mem ((d, m, w), rec) =
      Some (ret, mem', (d', m', w'), rec') \<and> (ret = 0 \<or> ret = - 1) \<and>
    handler_ok (wlocal w') \<and> (overflow_counter (daemon w') = 0 \<or> buffering w') \<and> conns w' < k"
  using user_messages_return [OF deliver_returns [OF assms(4)], of w k env info evalue alloc rd backup_ok mem d m rec] assms(1-3)
  by (simp add: steady_def)

theorem user_messages_terminate_witness:
  "\<exists>ret mem' d' m' w' rec'. dlt_daemon_process_user_messages example_user_env (deliver 3 (example_outside (\<lambda>_. False)) (\<lambda>_ _ _. None) False)
      example_alloc (\<lambda>_. Some (example_header @ [0x41, 0, 0, 0] @ [7, 0, 0, 0])) True (\<lambda>_. replicate 100 0)
      ((example_daemon2, zero_msg, example_world DLT_DAEMON_STATE_SEND_DIRECT 0), message_receiver (replicate 50 0)) =
    Some (ret, mem', (d', m', w'), rec') \<and> (ret = 0 \<or> ret = - 1) \<and> (overflow_counter (daemon w') = 0 \<or> buffering w')"
proof -
  have "conns (example_world DLT_DAEMON_STATE_SEND_DIRECT 0) < 3" by (simp add: conns_def example_world_simps) (simp add: example_clients_def)
  from user_messages_terminate [OF _ _ this, of "example_outside (\<lambda>_. False)" example_user_env] show ?thesis
    using example_clients_ok(1) by (simp add: example_world_simps example_outside_simps) metis
qed

end
