(* ===== verification/Spec2Isabelle.thy ===== *)
theory Spec2Isabelle
  imports Dlt_Filter Control_Requests Log_Forwarding
begin

text \<open>
  Verification of the DLT daemon and its shared library (Diagnostic Log and Trace, the sources
  under \<open>src/src\<close> and \<open>src/include/dlt\<close>).

  \<^bold>\<open>The program.\<close> Applications write log messages through a pipe or a socket to a daemon. The
  daemon cuts the byte stream into user messages, keeps tables of the registered applications
  and contexts, and forwards log messages to its clients; without a client it stores them in a
  ring buffer and sends them later. Clients and tools parse the messages, filter them and print
  them. The development models these parts bottom up, one theory per part.

  \<^item> \<open>DLT_Prelude\<close>: C integers (\<open>i32\<close>, \<open>u32\<close> and others write out every conversion of the
    sources), bytes, memory areas with \<open>memput\<close> and \<open>memget\<close>, byte order, rings of bytes.
  \<^item> \<open>Dlt_Buffer\<close>: the ring buffer of \<open>src/shared/dlt_common.c\<close> (\<open>dlt_buffer_*\<close>) on the shared
    area with its header of write position, read position and count. The representation
    \<open>buffer_rep\<close> relates it to the list of stored messages; push and get refine appending and
    taking the first element, over any sequence of operations the buffer is a queue, and the
    two deviations of the code (\<open>max_size\<close> of the reader is ignored, growing an empty buffer
    loses the message) are theorems.
  \<^item> \<open>Dlt_Text\<close>: identifiers of four characters, hexadecimal and mixed dumps and the text of
    log info responses, with round trips and the proof that dumps fit their buffers.
  \<^item> \<open>Dlt_Message\<close>: \<open>dlt_message_read\<close> with its search for the serial header, the optional
    parameters and storage headers. Every message is read back, and whatever the bytes are, an
    accepted message lies inside the buffer.
  \<^item> \<open>Dlt_Filter\<close>: the filter table, its file and the check of a message; adding and deleting
    refine operations on lists.
  \<^item> \<open>Dlt_Receiver\<close>: the receiver on a store of blocks, because application receivers share one
    block. The locale \<open>byte_stream\<close> states what its users rely on and is interpreted for it.
  \<^item> \<open>Event_Handler\<close>: connections, the poll table and the client counter of
    \<open>src/daemon/dlt_daemon_event_handler.c\<close> and \<open>dlt_daemon_connection.c\<close>, with an invariant of
    the states reachable by creating, registering and unregistering connections.
  \<^item> \<open>Daemon_Send\<close>: \<open>dlt_daemon_client_send\<close> and what it calls: the writes to all clients, the
    overflow report, closing a client and sending the ring buffer. These functions call each
    other, so the model is one step function over the function it calls, closed with fuel.
  \<^item> \<open>Sorted_Table\<close>: \<open>qsort\<close>, \<open>bsearch\<close> and \<open>memcmp\<close>, and the locale \<open>sorted_table\<close> for arrays
    kept sorted by a comparison function.
  \<^item> \<open>Daemon_Tables\<close> and \<open>Daemon_Registry\<close>: the tables of applications and contexts of
    \<open>src/daemon/dlt_daemon_common.c\<close>. The first has the operations and the interpretations of
    \<open>sorted_table\<close> for both arrays, the second the invariant \<open>tables_ok\<close> and what each operation
    does.
  \<^item> \<open>User_Messages\<close>: the loop \<open>dlt_daemon_process_user_messages\<close> of \<open>src/daemon/dlt-daemon.c\<close>
    and its handlers, on top of the receiver and the tables.
  \<^item> \<open>Tables_Files\<close>: the files of applications, contexts and the logging mode: what is written and
    how it is split and read back, with round trips.
  \<^item> \<open>Payload_Print\<close>: \<open>dlt_message_payload\<close> and \<open>dlt_message_argument_print\<close>, the text of every type of
    argument; whatever the payload is, the text stays in its buffer and the byte behind it.
  \<^item> \<open>User_Log\<close>: the functions \<open>dlt_user_log_write_*\<close> of \<open>src/lib/dlt_user.c\<close>, with which a program
    puts arguments into a message. \<open>User_Args\<close>: the bytes and the text of every argument, writing and
    printing as inverses, the cut of strings that do not fit, and the string that is too long for
    the check.
  \<^item> \<open>User_Send\<close>: sending a log message, the registrations, the startup buffer and reattaching to the
    daemon. \<open>User_Wire\<close>: the order of messages on the pipe as a queue, a message from its arguments to
    its frame, a registration from the application to the tables of the daemon, and
    the limits of the memory for resending.
  \<^item> \<open>Env_Levels\<close>: the settings of \<open>DLT_INITIAL_LOG_LEVEL\<close> (\<open>src/lib/dlt_env_ll.c\<close>): the parser of the
    variable, the growing set of items and the search for the best match of a context. Settings are
    read as they were written, whatever the variable is the result is well formed, and the search is
    the first maximum of the priorities.
  \<^item> \<open>User_Contexts\<close>: the table of contexts of an application with the cells that handles share with
    it: registration, limits, callbacks, and the loop over the messages of the daemon. A handle always
    reads the level of its entry, over any sequence of operations, and a level message reaches it.
  \<^item> \<open>Control_Requests\<close>: \<open>dlt_daemon_client_process_control\<close> and the services of
    \<open>src/daemon/dlt_daemon_client.c\<close> with the updates of \<open>dlt_daemon_common.c\<close>. One property follows a level
    from the request of a client through the tables of the daemon and the pipe to the handle of the
    program; the others give the contexts a pattern names and the exact bytes of the listing.
  \<^item> \<open>Log_Forwarding\<close>: the message behind the handler of log messages, what the handlers of user messages send to
    the clients (\<open>deliver\<close>), the end of the loop over user messages with all sending, and the composition of the whole
    path: arguments of a program, pipe, daemon, every client, printed text.

  \<^bold>\<open>Correspondence.\<close> A C struct is a record with its fields, an enumeration a datatype, a
  pointer that may be null an option, an array its list of elements with its capacity where the
  capacity matters, a pointer into an array its index. A function takes the state it reads and
  returns its result with the state it changed; every early return is a branch. Memory is a
  list of bytes whose length is its size, so that a write past the end changes the length and
  the theorems that lengths are kept are statements of memory safety. Allocation, uninitialised
  memory, the clock and system calls are parameters, and what is written to files, sockets and
  other processes is part of the result or of a list of events.

  \<^bold>\<open>Loops and fuel.\<close> Loops with a bound are recursive functions with a termination proof, also
  \<open>extract_loop\<close> of \<open>Env_Levels\<close>, whose items consume text, and \<open>check_loop\<close> of \<open>User_Contexts\<close>, whose messages
  consume received bytes. Three groups of functions have fuel. \<open>flush_loop\<close> of \<open>User_Send\<close> stands for a loop that waits for the daemon and runs
  for ever when the pipe stays full; it returns None without fuel and no theorem claims that it ends. \<open>user_loop\<close> runs with one more than the number of received bytes,
  which is enough, since a handler that lets the loop go on has removed bytes (\<open>user_loop_ends\<close>); it is None when a
  call of a handler to the rest of the daemon does not return. The functions of \<open>Daemon_Send\<close> return None without
  fuel; \<open>client_send_returns\<close> shows that one more than the number of connections is enough, whatever writes fail,
  when no lost messages wait for their report, and \<open>overflow_report_diverges\<close> shows that otherwise the code can
  recurse without end. \<open>user_messages_terminate\<close> of \<open>Log_Forwarding\<close> puts the two loops together.

  \<^bold>\<open>What modelling showed.\<close> Besides the properties that hold, theorems show the behaviour of
  defects: the overflow report that calls itself, the client skipped after a failed write, the
  registration lost when its description arrives in two pieces, the bytes of an incomplete
  first message overwritten in the shared block, the listening socket that is never closed, the
  descriptor that is never polled, short identifiers changed by the filter file, the level of a
  log storage that lowers the default level, the second entry for an identifier with bytes
  behind its end, the string of 65535 bytes that is copied over the end of a message, the registration with a
  long description that is copied over the end of the memory for resending, the application identifier that is
  put into the payload of a message without optional parameters, the empty variable that switches all contexts off,
  the length of an injection that wraps around, and the listing that counts more contexts than it holds.

  \<^bold>\<open>Not modelled.\<close> Of the user library network traces, start-up and threads are left for extensions of this
  development, as are the client library, the gateway, the offline log storage with the requests for it, the offline
  trace and the parser of configuration files. The results of the gateway and of the log storage are parameters where
  modelled functions call them. Sockets, option parsing, shared memory, the console programs, the system agent, the
  core dump handler and the C++ wrapper are input and output around the parts above.
\<close>

end
